(* ===== verification/Prelude.thy ===== *)
theory Prelude
  imports Main "HOL-Library.Word" "HOL-Library.Finite_Map" "HOL-Library.List_Lexorder"
begin

text \<open>
  Shared vocabulary of the development: byte strings, the big-endian integer encodings of
  Go's \<^verbatim>\<open>encoding/binary\<close>, fixed-size arrays, results with an error, and the generic lemmas on
  lists, finite maps and words that the component theories use.  The collection \<open>codec\<close> holds
  the rules that cut an encoder's output back into its fields.
\<close>

unbundle bit_operations_syntax

named_theorems codec \<open>cutting the output of an encoder into fields\<close>

section \<open>Bytes, words and arrays\<close>

type_synonym byte = "8 word"
type_synonym bytes = "8 word list"
type_synonym u8 = "8 word"
type_synonym u16 = "16 word"
type_synonym u32 = "32 word"
type_synonym u64 = "64 word"

text \<open>
  A Go array \<^verbatim>\<open>[n]byte\<close> that \<^verbatim>\<open>copy\<close> fills from a slice: the first \<open>n\<close> bytes of the slice,
  and zeros where the slice is shorter.
\<close>

definition arr :: "nat \<Rightarrow> bytes \<Rightarrow> bytes" where
  "arr n xs = take n (xs @ replicate n 0)"

definition zero32 :: bytes where
  "zero32 = replicate 32 0"

text \<open>The bytes of an ASCII string literal, for the labels of the key derivations.\<close>

definition ascii :: "string \<Rightarrow> bytes" where
  "ascii s = map of_char s"

lemma length_arr [simp]: "length (arr n xs) = n"
  by (simp add: arr_def)

lemma arr_id [simp]: "length xs = n \<Longrightarrow> arr n xs = xs"
  by (simp add: arr_def)

lemma arr_append [codec]: "length xs = n \<Longrightarrow> arr n (xs @ ys) = xs"
  by (simp add: arr_def)

lemma arr_take [codec]: "n \<le> length xs \<Longrightarrow> arr n xs = take n xs"
  by (simp add: arr_def)

lemma nth_arr: "i < n \<Longrightarrow> arr n xs ! i = (if i < length xs then xs ! i else 0)"
  by (simp add: arr_def nth_append)

lemma arr_arr: "m \<le> n \<Longrightarrow> arr m (arr n xs) = arr m xs"
  by (rule nth_equalityI) (simp_all add: nth_arr)

lemma length_zero32 [simp]: "length zero32 = 32"
  by (simp add: zero32_def)

text \<open>A counter that is below another one does not wrap when it is incremented.\<close>

lemma unat_inc: "(n :: 'a :: len word) < m \<Longrightarrow> unat (n + 1) = Suc (unat n)"
proof -
  assume "n < m"
  then have "Suc (unat n) < 2 ^ LENGTH('a)"
    using unsigned_less [of m] by (metis le_less_trans Suc_leI word_less_nat_alt)
  then show ?thesis by (simp add: unat_word_ariths)
qed

definition MaxUint32 :: u32 where
  "MaxUint32 = - 1"

lemma unat_MaxUint32: "unat MaxUint32 = 4294967295"
  by (simp add: MaxUint32_def unsigned_minus_1_eq_mask mask_eq_exp_minus_1)

lemma less_MaxUint32: "n \<noteq> MaxUint32 \<Longrightarrow> n < MaxUint32"
  by (simp add: MaxUint32_def order.not_eq_order_implies_strict)

lemma unat_inc_Max: "n \<noteq> MaxUint32 \<Longrightarrow> unat (n + 1) = Suc (unat n)"
  by (rule unat_inc [OF less_MaxUint32])

lemma less_inc_iff: "n \<noteq> MaxUint32 \<Longrightarrow> m < n + 1 \<longleftrightarrow> m \<le> n"
  by (simp add: word_less_nat_alt word_le_nat_alt unat_inc_Max less_Suc_eq_le)

lemma less_inc: "n \<noteq> MaxUint32 \<Longrightarrow> m \<le> n \<Longrightarrow> m < n + 1"
  by (simp add: less_inc_iff)

lemma unat_u32_less: "unat (n :: u32) < 2 ^ 32"
proof -
  have "unat n < 2 ^ LENGTH(32)" by (rule unsigned_less)
  then show ?thesis by simp
qed

lemma card_below: "card {..<n} = unat (n :: u32)"
proof -
  have "m \<in> unat ` {..<n}" if "m < unat n" for m
  proof -
    have "m < 2 ^ LENGTH(32)" using that unsigned_less [of n] by (rule less_trans)
    then have "unat (of_nat m :: u32) = m" by (simp add: unat_of_nat)
    with that show ?thesis by (intro image_eqI [of _ _ "of_nat m"]) (simp_all add: word_less_nat_alt)
  qed
  then have "unat ` {..<n} = {..<unat n}" by (auto simp: word_less_nat_alt)
  then show ?thesis by (metis card_image card_lessThan inj_unsigned inj_on_subset subset_UNIV)
qed

text \<open>Adjacent pieces of a slice.\<close>

lemma take_drop_glue: "take n (drop m xs) @ drop (m + n) xs = drop m xs"
  by (metis add.commute append_take_drop_id drop_drop)

section \<open>Big-endian integers\<close>

definition put_u16 :: "u16 \<Rightarrow> bytes" where
  "put_u16 v = [ucast (drop_bit 8 v), ucast v]"

definition put_u32 :: "u32 \<Rightarrow> bytes" where
  "put_u32 v = [ucast (drop_bit 24 v), ucast (drop_bit 16 v), ucast (drop_bit 8 v), ucast v]"

definition put_u64 :: "u64 \<Rightarrow> bytes" where
  "put_u64 v = [ucast (drop_bit 56 v), ucast (drop_bit 48 v), ucast (drop_bit 40 v),
     ucast (drop_bit 32 v), ucast (drop_bit 24 v), ucast (drop_bit 16 v),
     ucast (drop_bit 8 v), ucast v]"

text \<open>
  The readers look at the first bytes of their argument.  Every caller checks the length first;
  on a shorter list, where Go panics, they return 0.
\<close>

fun get_u16 :: "bytes \<Rightarrow> u16" where
  "get_u16 (a # b # _) = push_bit 8 (ucast a) OR ucast b"
| "get_u16 _ = 0"

fun get_u32 :: "bytes \<Rightarrow> u32" where
  "get_u32 (a # b # c # d # _) =
     push_bit 24 (ucast a) OR push_bit 16 (ucast b) OR push_bit 8 (ucast c) OR ucast d"
| "get_u32 _ = 0"

fun get_u64 :: "bytes \<Rightarrow> u64" where
  "get_u64 (a # b # c # d # e # f # g # h # _) =
     push_bit 56 (ucast a) OR push_bit 48 (ucast b) OR push_bit 40 (ucast c) OR
     push_bit 32 (ucast d) OR push_bit 24 (ucast e) OR push_bit 16 (ucast f) OR
     push_bit 8 (ucast g) OR ucast h"
| "get_u64 _ = 0"

lemma length_put [simp]:
  "length (put_u16 a) = 2" "length (put_u32 b) = 4" "length (put_u64 c) = 8"
  by (simp_all add: put_u16_def put_u32_def put_u64_def)

lemma byte_bit_bound: "bit (b :: byte) n \<Longrightarrow> n < 8"
  using bit_imp_le_length [of b n] by simp

lemma get_put_u16 [codec, simp]: "get_u16 (put_u16 v @ r) = v"
  unfolding put_u16_def append_Cons get_u16.simps
proof (rule bit_word_eqI)
  fix n assume "n < LENGTH(16)"
  then show "bit (push_bit 8 (ucast (ucast (drop_bit 8 v) :: byte)) OR ucast (ucast v :: byte) :: u16) n
      = bit v n"
    by (cases "n < 8") (auto simp: bit_simps)
qed

lemma get_put_u32 [codec, simp]: "get_u32 (put_u32 v @ r) = v"
  unfolding put_u32_def append_Cons get_u32.simps
proof (rule bit_word_eqI)
  fix n assume "n < LENGTH(32)"
  then consider "n < 8" | "8 \<le> n" "n < 16" | "16 \<le> n" "n < 24" | "24 \<le> n" "n < 32"
    by (simp; linarith)
  then show "bit (push_bit 24 (ucast (ucast (drop_bit 24 v) :: byte))
      OR push_bit 16 (ucast (ucast (drop_bit 16 v) :: byte))
      OR push_bit 8 (ucast (ucast (drop_bit 8 v) :: byte)) OR ucast (ucast v :: byte) :: u32) n
      = bit v n"
    by cases (simp_all add: bit_simps less_diff_conv2)
qed

lemma get_put_u64 [codec, simp]: "get_u64 (put_u64 v @ r) = v"
  unfolding put_u64_def append_Cons get_u64.simps
proof (rule bit_word_eqI)
  fix n assume "n < LENGTH(64)"
  then consider "n < 8" | "8 \<le> n" "n < 16" | "16 \<le> n" "n < 24" | "24 \<le> n" "n < 32"
    | "32 \<le> n" "n < 40" | "40 \<le> n" "n < 48" | "48 \<le> n" "n < 56" | "56 \<le> n" "n < 64"
    by (simp; linarith)
  then show "bit (push_bit 56 (ucast (ucast (drop_bit 56 v) :: byte))
      OR push_bit 48 (ucast (ucast (drop_bit 48 v) :: byte))
      OR push_bit 40 (ucast (ucast (drop_bit 40 v) :: byte))
      OR push_bit 32 (ucast (ucast (drop_bit 32 v) :: byte))
      OR push_bit 24 (ucast (ucast (drop_bit 24 v) :: byte))
      OR push_bit 16 (ucast (ucast (drop_bit 16 v) :: byte))
      OR push_bit 8 (ucast (ucast (drop_bit 8 v) :: byte)) OR ucast (ucast v :: byte) :: u64) n
      = bit v n"
    by cases (simp_all add: bit_simps less_diff_conv2)
qed

lemma put_get_u16:
  assumes "2 \<le> length bs"
  shows "put_u16 (get_u16 bs) = take 2 bs"
proof -
  obtain a b r where "bs = a # b # r" using assms by (auto simp: Suc_le_length_iff numeral_eq_Suc)
  then show ?thesis
    by (auto simp: put_u16_def bit_eq_iff bit_simps dest: byte_bit_bound)
qed

lemma put_get_u32:
  assumes "4 \<le> length bs"
  shows "put_u32 (get_u32 bs) = take 4 bs"
proof -
  obtain a b c d r where "bs = a # b # c # d # r"
    using assms by (auto simp: Suc_le_length_iff numeral_eq_Suc)
  then show ?thesis
    by (auto simp: put_u32_def bit_eq_iff bit_simps dest: byte_bit_bound)
qed

section \<open>Results\<close>

text \<open>
  A Go function returning \<^verbatim>\<open>(T, error)\<close> is a value of a sum type, the error on the left.  \<open>bindR\<close> is
  the early return \<^verbatim>\<open>if err != nil { return err }\<close>.
\<close>

definition bindR :: "'e + 'a \<Rightarrow> ('a \<Rightarrow> 'e + 'b) \<Rightarrow> 'e + 'b" where
  "bindR x f = (case x of Inl e \<Rightarrow> Inl e | Inr a \<Rightarrow> f a)"

lemma bindR_simps [simp]: "bindR (Inl e) f = Inl e" "bindR (Inr a) f = f a"
  by (simp_all add: bindR_def)

lemma bindR_eq_Inr [simp]: "bindR x f = Inr b \<longleftrightarrow> (\<exists>a. x = Inr a \<and> f a = Inr b)"
  by (cases x) auto

lemma bindR_eq_Inl: "bindR x f = Inl e \<longleftrightarrow> x = Inl e \<or> (\<exists>a. x = Inr a \<and> f a = Inl e)"
  by (cases x) auto

lemma bindR_cong [fundef_cong]:
  "x = y \<Longrightarrow> (\<And>a. y = Inr a \<Longrightarrow> f a = g a) \<Longrightarrow> bindR x f = bindR y g"
  by (cases y) auto

text \<open>
  The same for a method that writes its receiver: the receiver is threaded through, and a failing
  call leaves what was written so far.
\<close>

definition bindS :: "('e + 'a) \<times> 's \<Rightarrow> ('a \<Rightarrow> 's \<Rightarrow> ('e + 'b) \<times> 's) \<Rightarrow> ('e + 'b) \<times> 's" where
  "bindS r f = (case r of (Inl e, s) \<Rightarrow> (Inl e, s) | (Inr a, s) \<Rightarrow> f a s)"

lemma bindS_simps [simp]: "bindS (Inl e, s) f = (Inl e, s)" "bindS (Inr a, s) f = f a s"
  by (simp_all add: bindS_def)

lemma bindS_Inr [simp]:
  "bindS r f = (Inr b, s') \<longleftrightarrow> (\<exists>a s. r = (Inr a, s) \<and> f a s = (Inr b, s'))"
  by (auto simp: bindS_def split: prod.splits sum.splits)

lemma bindS_cong [fundef_cong]:
  "r = r' \<Longrightarrow> (\<And>a s. r' = (Inr a, s) \<Longrightarrow> f a s = g a s) \<Longrightarrow> bindS r f = bindS r' g"
  by (auto simp: bindS_def split: prod.splits sum.splits)

text \<open>The value of a result that is known to be a success.\<close>

fun isOk :: "'e + 'a \<Rightarrow> bool" where
  "isOk (Inl _) = False"
| "isOk (Inr _) = True"

section \<open>Counted loops over encoded items\<close>

text \<open>
  \<open>read_many n item bs\<close> is the loop \<^verbatim>\<open>for i := 0; i < n; i++\<close> of the decoders: each round decodes
  one item from the unread bytes and the loop stops at the first error.
\<close>

fun read_many :: "nat \<Rightarrow> (bytes \<Rightarrow> 'e + 'a \<times> bytes) \<Rightarrow> bytes \<Rightarrow> 'e + 'a list \<times> bytes" where
  "read_many 0 item bs = Inr ([], bs)"
| "read_many (Suc n) item bs =
     bindR (item bs) (\<lambda>(x, bs1).
     bindR (read_many n item bs1) (\<lambda>(xs, bs2). Inr (x # xs, bs2)))"

lemma read_many_length: "read_many n item bs = Inr (xs, r) \<Longrightarrow> length xs = n"
  by (induction n item bs arbitrary: xs r rule: read_many.induct) auto

lemma read_many_all:
  assumes "\<And>bs x r. item bs = Inr (x, r) \<Longrightarrow> Q x"
  shows "read_many n item bs = Inr (xs, r) \<Longrightarrow> list_all Q xs"
  by (induction n arbitrary: bs xs) (auto dest: assms)

text \<open>
  The interface between an item encoder and its decoder: decoding an encoded valid item gives the
  item back and leaves the bytes behind it unread.
\<close>

locale item_codec =
  fixes enc :: "'a \<Rightarrow> bytes"
    and dec :: "bytes \<Rightarrow> 'e + 'a \<times> bytes"
    and valid :: "'a \<Rightarrow> bool"
  assumes dec_enc: "valid x \<Longrightarrow> dec (enc x @ r) = Inr (x, r)"
begin

lemma read_many_enc:
  "list_all valid xs \<Longrightarrow> read_many (length xs) dec (concat (map enc xs) @ r) = Inr (xs, r)"
  by (induction xs) (auto simp: dec_enc)

lemma enc_inj: "valid x \<Longrightarrow> valid y \<Longrightarrow> enc x @ r = enc y @ s \<Longrightarrow> x = y \<and> r = s"
  by (metis Inr_inject Pair_inject dec_enc)

end

text \<open>
  A codec whose decoder accepts nothing but encodings: what it reads is the encoding of what it
  returns.
\<close>

locale strict_codec = item_codec +
  assumes dec_sound: "dec bs = Inr (x, r) \<Longrightarrow> valid x \<and> bs = enc x @ r"
begin

lemma read_many_sound:
  "read_many n dec bs = Inr (xs, r) \<Longrightarrow>
     list_all valid xs \<and> bs = concat (map enc xs) @ r"
proof (induction n arbitrary: bs xs)
  case 0
  then show ?case by simp
next
  case (Suc n)
  then obtain x bs1 ys where "dec bs = Inr (x, bs1)" "read_many n dec bs1 = Inr (ys, r)" "xs = x # ys"
    by auto
  moreover have "valid x" "bs = enc x @ bs1"
    using dec_sound [OF calculation(1)] by simp_all
  moreover have "list_all valid ys" "bs1 = concat (map enc ys) @ r"
    using Suc.IH [OF calculation(2)] by simp_all
  ultimately show ?case by simp
qed

end

section \<open>Finite maps\<close>

text \<open>
  Go maps are finite maps and Go sets are finite sets.  Encoders walk a map in the order of its
  sorted keys: \<open>fm_entries\<close> is that list of pairs, and inserting the pairs one by one rebuilds the
  map.
\<close>

definition fm_entries :: "('k :: linorder, 'v) fmap \<Rightarrow> ('k \<times> 'v) list" where
  "fm_entries m = map (\<lambda>k. (k, the (fmlookup m k))) (sorted_list_of_fset (fmdom m))"

definition fm_insert_all :: "('k \<times> 'v) list \<Rightarrow> ('k, 'v) fmap \<Rightarrow> ('k, 'v) fmap" where
  "fm_insert_all = fold (\<lambda>(k, v). fmupd k v)"

definition fm_size :: "('k, 'v) fmap \<Rightarrow> nat" where
  "fm_size m = fcard (fmdom m)"

lemma set_sorted_fset [simp]: "set (sorted_list_of_fset s) = fset s"
  by (simp add: sorted_list_of_fset.rep_eq)
lemma distinct_sorted_fset [simp]: "distinct (sorted_list_of_fset s)"
  by (simp add: sorted_list_of_fset.rep_eq)
lemma length_sorted_fset [simp]: "length (sorted_list_of_fset s) = fcard s"
  by (simp add: sorted_list_of_fset.rep_eq fcard.rep_eq)

lemma length_fm_entries [simp]: "length (fm_entries m) = fm_size m"
  by (simp add: fm_entries_def fm_size_def)

lemma set_fm_entries: "(k, v) \<in> set (fm_entries m) \<longleftrightarrow> fmlookup m k = Some v"
  by (auto simp: fm_entries_def fmlookup_dom_iff image_iff)

lemma fmlookup_fm_insert_all:
  "fmlookup (fm_insert_all xs m) k =
     (case map_of (rev xs) k of Some v \<Rightarrow> Some v | None \<Rightarrow> fmlookup m k)"
  by (induction xs arbitrary: m)
    (auto simp: fm_insert_all_def map_add_def split: option.splits)

lemma map_of_keyed:
  "map_of (map (\<lambda>k. (k, f k)) ks) k = (if k \<in> set ks then Some (f k) else None)"
  by (induction ks) auto

lemma fm_rebuild [simp]: "fm_insert_all (fm_entries m) fmempty = m"
proof (rule fmap_ext)
  fix k
  show "fmlookup (fm_insert_all (fm_entries m) fmempty) k = fmlookup m k"
    by (cases "fmlookup m k")
      (auto simp: fmlookup_fm_insert_all fm_entries_def map_of_keyed rev_map fmlookup_dom_iff)
qed

lemma fm_size_empty [simp]: "fm_size fmempty = 0"
  by (simp add: fm_size_def)

lemma fm_size_upd: "fm_size (fmupd k v m) = (if k |\<in>| fmdom m then fm_size m else Suc (fm_size m))"
  by (simp add: fm_size_def fcard_finsert_if)

lemma fm_size_drop_le: "fm_size (fmdrop k m) \<le> fm_size m"
  by (auto simp: fm_size_def intro!: fcard_mono)

lemma fm_size_filter_le: "fm_size (fmfilter P m) \<le> fm_size m"
  by (auto simp: fm_size_def intro!: fcard_mono)

lemma fset_rebuild [simp]: "fset_of_list (sorted_list_of_fset s) = s"
  by (rule fset_eqI) (simp add: fset_of_list_elem)
end
