(* ===== verification/Errors.thy ===== *)
theory Errors
  imports Main
begin

text \<open>
  The errors of the program.  The constructors up to \<open>ErrCounterOverflow\<close> are the sentinel values
  of \<^verbatim>\<open>errors/errors.go\<close>; callers tell errors apart with \<^verbatim>\<open>errors.Is\<close> only, so an error that wraps
  a sentinel is that constructor, its message text left out.  The sentinels of \<^verbatim>\<open>crypto/\<close>,
  \<^verbatim>\<open>spqr/errors.go\<close> and \<^verbatim>\<open>sesame/conversation.go\<close> follow.  \<open>ErrText\<close> is an error built by \<^verbatim>\<open>fmt.Errorf\<close> or \<^verbatim>\<open>errors.New\<close>
  without a sentinel.  \<open>EPanic\<close> is a run-time panic, as when a slice expression leaves its bounds.
  \<open>EDiverge\<close> is no error of the program: it stands for a decoding loop over the \<^verbatim>\<open>protowire\<close>
  parameter that would not end because a round reads nothing, and the theorems on these loops show
  that it is never returned.
\<close>

datatype err =
    ErrInvalidKey
  | ErrInvalidSignature
  | ErrUntrustedIdentity
  | ErrInvalidMessage
  | ErrDuplicateMessage
  | ErrInvalidMAC
  | ErrNoSession
  | ErrNoSenderKey
  | ErrSessionNotFound
  | ErrPreKeyNotFound
  | ErrPreKeyExpired
  | ErrMaxSkipExceeded
  | ErrStaleKeyExchange
  | ErrCounterOverflow
  | ErrHKDFLength
  | ErrAeadKey
  | ErrCiphertextTooShort
  | ErrAeadOpen
  | ErrCbcIV
  | ErrCbcCiphertext
  | ErrCbcPadding
  | ErrCtrHmacCiphertext
  | ErrInvalidPublicKey
  | ErrRandom
  | ErrSpqrInvalidMessage
  | ErrSpqrUnsupportedVersion
  | ErrSpqrStateDecode
  | ErrSpqrEpochOutOfRange
  | ErrSpqrSendKeyEpochDecreased
  | ErrSpqrKeyJump
  | ErrSpqrKeyTrimmed
  | ErrSpqrKeyAlreadyRequested
  | ErrSpqrChainNotAvailable
  | ErrSpqrInvalidMAC
  | ErrSpqrVersionMismatch
  | ErrSpqrMinimumVersion
  | ErrSpqrErroneousData
  | ErrRosterChanged
  | ErrSendAttemptsExceeded
  | ErrText string
  | EPanic
  | EDiverge

type_synonym 'a res = "err + 'a"

end
