(* ===== verification/Crypto.thy ===== *)
theory Crypto
  imports Prelude Errors
begin

text \<open>
  The \<^verbatim>\<open>crypto/\<close> package: HKDF, HMAC, Curve25519, the AEAD wrappers, AES-CBC with PKCS\#7 padding
  and AES-CTR with a truncated HMAC.  The primitives below it are the parameter \<open>prims\<close>:
  \<^item> \<open>hmac_sha256\<close>, \<open>hmac_sha512\<close>, \<open>sha256_sum\<close>, \<open>sha512_sum\<close>: \<^verbatim>\<open>crypto/hmac\<close>, \<^verbatim>\<open>crypto/sha256\<close>,
    \<^verbatim>\<open>crypto/sha512\<close> of Go;
  \<^item> \<open>hkdf_extract\<close>, \<open>hkdf_stream\<close>: \<^verbatim>\<open>golang.org/x/crypto/hkdf\<close>; \<open>hkdf_stream prk info i\<close> is byte
    \<open>i\<close> of the reader that \<^verbatim>\<open>hkdf.Expand\<close> returns;
  \<^item> \<open>x25519\<close>: \<^verbatim>\<open>golang.org/x/crypto/curve25519\<close>, \<open>None\<close> for its error;
  \<^item> \<open>aes_encrypt\<close>, \<open>aes_decrypt\<close>: one block of \<^verbatim>\<open>crypto/aes\<close>; \<open>gcm_seal\<close>, \<open>gcm_open\<close>: the AEAD of
    \<^verbatim>\<open>cipher.NewGCM\<close>; \<open>siv_seal\<close>, \<open>siv_open\<close>: \<^verbatim>\<open>github.com/ericlagergren/siv\<close>; \<open>chacha_seal\<close>, \<open>chacha_open\<close>:
    \<^verbatim>\<open>golang.org/x/crypto/chacha20poly1305\<close>;
  \<^item> \<open>kyber_generate\<close>, \<open>kyber_encaps\<close>, \<open>kyber_decaps\<close>: \<^verbatim>\<open>circl/kem/kyber/kyber1024\<close>, on raw keys and
    given the random bytes they draw;
  \<^item> the arithmetic of \<^verbatim>\<open>filippo.io/edwards25519\<close>: scalars and field elements are integers, a point
    is its 32-byte encoding.
  A hash is read as an array of its documented size, so lengths need no hypothesis.  What the code
  relies on beyond that, decryption inverting encryption, is the predicate \<open>prims_ok\<close>.
\<close>

section \<open>The primitives\<close>

record prims =
  hmac_sha256 :: "bytes \<Rightarrow> bytes \<Rightarrow> bytes"
  hmac_sha512 :: "bytes \<Rightarrow> bytes \<Rightarrow> bytes"
  hkdf_extract :: "bytes \<Rightarrow> bytes \<Rightarrow> bytes"
  hkdf_stream :: "bytes \<Rightarrow> bytes \<Rightarrow> nat \<Rightarrow> byte"
  x25519 :: "bytes \<Rightarrow> bytes \<Rightarrow> bytes option"
  aes_encrypt :: "bytes \<Rightarrow> bytes \<Rightarrow> bytes"
  aes_decrypt :: "bytes \<Rightarrow> bytes \<Rightarrow> bytes"
  gcm_seal :: "bytes \<Rightarrow> bytes \<Rightarrow> bytes \<Rightarrow> bytes \<Rightarrow> bytes"
  gcm_open :: "bytes \<Rightarrow> bytes \<Rightarrow> bytes \<Rightarrow> bytes \<Rightarrow> bytes option"
  chacha_seal :: "bytes \<Rightarrow> bytes \<Rightarrow> bytes \<Rightarrow> bytes \<Rightarrow> bytes"
  chacha_open :: "bytes \<Rightarrow> bytes \<Rightarrow> bytes \<Rightarrow> bytes \<Rightarrow> bytes option"
  siv_seal :: "bytes \<Rightarrow> bytes \<Rightarrow> bytes \<Rightarrow> bytes \<Rightarrow> bytes"
  siv_open :: "bytes \<Rightarrow> bytes \<Rightarrow> bytes \<Rightarrow> bytes \<Rightarrow> bytes option"
  sha256_sum :: "bytes \<Rightarrow> bytes"
  sha512_sum :: "bytes \<Rightarrow> bytes"
  kyber_generate :: "bytes \<Rightarrow> bytes \<times> bytes"
  kyber_encaps :: "bytes \<Rightarrow> bytes \<Rightarrow> bytes \<times> bytes"
  kyber_decaps :: "bytes \<Rightarrow> bytes \<Rightarrow> bytes"
  sc_uniform :: "bytes \<Rightarrow> int"
  sc_muladd :: "int \<Rightarrow> int \<Rightarrow> int \<Rightarrow> int"
  sc_bytes :: "int \<Rightarrow> bytes"
  ed_basemult :: "int \<Rightarrow> bytes"
  ed_setbytes :: "bytes \<Rightarrow> bytes option"
  ed_negate :: "bytes \<Rightarrow> bytes"
  ed_doublemult :: "int \<Rightarrow> bytes \<Rightarrow> int \<Rightarrow> bytes"
  fe_setbytes :: "bytes \<Rightarrow> int"
  fe_bytes :: "int \<Rightarrow> bytes"
  fe_one :: int
  fe_add :: "int \<Rightarrow> int \<Rightarrow> int"
  fe_sub :: "int \<Rightarrow> int \<Rightarrow> int"
  fe_mul :: "int \<Rightarrow> int \<Rightarrow> int"
  fe_inv :: "int \<Rightarrow> int"

text \<open>
  \<open>gcm_seal key nonce plaintext ad\<close> and \<open>gcm_open key nonce ciphertext ad\<close>: opening what was sealed
  under the same key, nonce and associated data gives the plaintext, and the block decryption of
  AES inverts its encryption for the key sizes AES has.
\<close>

definition aes_key_ok :: "bytes \<Rightarrow> bool" where
  "aes_key_ok key \<longleftrightarrow> length key \<in> {16, 24, 32}"

definition prims_ok :: "'z prims_scheme \<Rightarrow> bool" where
  "prims_ok P \<longleftrightarrow>
     (\<forall>k n p ad. length k = 32 \<longrightarrow> length n = 12 \<longrightarrow>
        gcm_open P k n (gcm_seal P k n p ad) ad = Some p) \<and>
     (\<forall>k b. aes_key_ok k \<longrightarrow> length b = 16 \<longrightarrow>
        aes_decrypt P k (arr 16 (aes_encrypt P k b)) = b)"

section \<open>HMAC and HKDF (hmac.go, hkdf.go)\<close>

definition HMAC256 :: "'z prims_scheme \<Rightarrow> bytes \<Rightarrow> bytes \<Rightarrow> bytes" where
  "HMAC256 P key data = arr 32 (hmac_sha256 P key data)"

definition HMAC512 :: "'z prims_scheme \<Rightarrow> bytes \<Rightarrow> bytes \<Rightarrow> bytes" where
  "HMAC512 P key data = arr 64 (hmac_sha512 P key data)"

definition HMACVerify :: "'z prims_scheme \<Rightarrow> bytes \<Rightarrow> bytes \<Rightarrow> bytes \<Rightarrow> bool" where
  "HMACVerify P key data expectedMAC =
     (let actual = HMAC256 P key data in
      if length actual \<noteq> length expectedMAC then False else actual = expectedMAC)"

definition HKDFExtract :: "'z prims_scheme \<Rightarrow> bytes \<Rightarrow> bytes \<Rightarrow> bytes" where
  "HKDFExtract P salt inputKeyMaterial = hkdf_extract P inputKeyMaterial salt"

definition hkdfMaxLength :: nat where
  "hkdfMaxLength = 255 * 32"

definition HKDFExpand :: "'z prims_scheme \<Rightarrow> bytes \<Rightarrow> bytes \<Rightarrow> nat \<Rightarrow> bytes res" where
  "HKDFExpand P prk info len =
     (if len > hkdfMaxLength then Inl ErrHKDFLength
      else Inr (map (hkdf_stream P prk info) [0..<len]))"

definition HKDF :: "'z prims_scheme \<Rightarrow> bytes \<Rightarrow> bytes \<Rightarrow> bytes \<Rightarrow> nat \<Rightarrow> bytes res" where
  "HKDF P inputKeyMaterial salt info len =
     HKDFExpand P (HKDFExtract P salt inputKeyMaterial) info len"

lemma length_HMAC256 [simp]: "length (HMAC256 P k d) = 32"
  by (simp add: HMAC256_def)

lemma HMACVerify_iff: "HMACVerify P k d m \<longleftrightarrow> m = HMAC256 P k d"
  by (auto simp: HMACVerify_def Let_def)

lemma HKDF_length: "HKDF P ikm salt info n = Inr okm \<Longrightarrow> length okm = n"
  by (auto simp: HKDF_def HKDFExpand_def split: if_splits)

lemma HKDF_Inr: "n \<le> hkdfMaxLength \<Longrightarrow> \<exists>okm. HKDF P ikm salt info n = Inr okm \<and> length okm = n"
  by (simp add: HKDF_def HKDFExpand_def)

section \<open>Curve25519 (curve25519.go)\<close>

record KeyPair =
  kp_PublicKey :: bytes
  kp_PrivateKey :: bytes

definition basepoint :: bytes where
  "basepoint = 9 # replicate 31 0"

definition validationScalar :: bytes where
  "validationScalar = 1 # replicate 31 0"

definition scalarBaseMult :: "'z prims_scheme \<Rightarrow> bytes \<Rightarrow> bytes res" where
  "scalarBaseMult P privateKey =
     (case x25519 P privateKey basepoint of
        None \<Rightarrow> Inl (ErrText ''x25519'')
      | Some out \<Rightarrow> Inr (arr 32 out))"

text \<open>The first argument is what reading 32 bytes from the random source returns.\<close>

definition GenerateKeyPair :: "'z prims_scheme \<Rightarrow> bytes res \<Rightarrow> KeyPair res" where
  "GenerateKeyPair P rnd =
     bindR rnd (\<lambda>b. let priv = arr 32 b in
     bindR (scalarBaseMult P priv) (\<lambda>pub.
     Inr \<lparr>kp_PublicKey = pub, kp_PrivateKey = priv\<rparr>))"

definition KeyPairFromPrivate :: "'z prims_scheme \<Rightarrow> bytes \<Rightarrow> KeyPair res" where
  "KeyPairFromPrivate P privateKey =
     bindR (scalarBaseMult P privateKey) (\<lambda>pub.
     Inr \<lparr>kp_PublicKey = pub, kp_PrivateKey = privateKey\<rparr>)"

definition DH :: "'z prims_scheme \<Rightarrow> bytes \<Rightarrow> bytes \<Rightarrow> bytes res" where
  "DH P privateKey publicKey =
     (case x25519 P privateKey publicKey of
        None \<Rightarrow> Inl ErrInvalidPublicKey
      | Some shared \<Rightarrow>
          let out = arr 32 shared in
          if out = zero32 then Inl ErrInvalidPublicKey else Inr out)"

definition IsValidPublicKey :: "'z prims_scheme \<Rightarrow> bytes \<Rightarrow> bool" where
  "IsValidPublicKey P publicKey =
     (case x25519 P validationScalar publicKey of
        None \<Rightarrow> False
      | Some shared \<Rightarrow> shared \<noteq> zero32)"

definition ValidatePublicKey :: "'z prims_scheme \<Rightarrow> bytes \<Rightarrow> unit res" where
  "ValidatePublicKey P publicKey =
     (if \<not> IsValidPublicKey P publicKey then Inl ErrInvalidPublicKey else Inr ())"

definition kp_ok :: "KeyPair \<Rightarrow> bool" where
  "kp_ok kp \<longleftrightarrow> length (kp_PublicKey kp) = 32 \<and> length (kp_PrivateKey kp) = 32"

lemma DH_Inr: "DH P a b = Inr s \<Longrightarrow> length s = 32 \<and> s \<noteq> zero32"
  by (auto simp: DH_def Let_def split: option.splits if_splits)

lemma GenerateKeyPair_ok: "GenerateKeyPair P rnd = Inr kp \<Longrightarrow> kp_ok kp"
  by (auto simp: GenerateKeyPair_def scalarBaseMult_def kp_ok_def Let_def split: option.splits)

text \<open>
  Diffie-Hellman agreement for honestly generated keys, the documented purpose of
  \<^verbatim>\<open>curve25519.X25519\<close>.
\<close>

definition dh_comm :: "'z prims_scheme \<Rightarrow> bool" where
  "dh_comm P \<longleftrightarrow> (\<forall>a b pa pb. scalarBaseMult P a = Inr pa \<longrightarrow> scalarBaseMult P b = Inr pb \<longrightarrow>
     x25519 P a pb = x25519 P b pa)"

definition honest_pair :: "'z prims_scheme \<Rightarrow> KeyPair \<Rightarrow> bool" where
  "honest_pair P kp \<longleftrightarrow> scalarBaseMult P (kp_PrivateKey kp) = Inr (kp_PublicKey kp)"

text \<open>An honestly generated public key is no low-order point.\<close>

definition dh_valid :: "'z prims_scheme \<Rightarrow> bool" where
  "dh_valid P \<longleftrightarrow> (\<forall>k pub. scalarBaseMult P k = Inr pub \<longrightarrow> IsValidPublicKey P pub)"

lemma GenerateKeyPair_honest: "GenerateKeyPair P rnd = Inr kp \<Longrightarrow> honest_pair P kp"
  by (auto simp: GenerateKeyPair_def honest_pair_def Let_def)

lemma DH_agree:
  assumes "dh_comm P" "honest_pair P x" "honest_pair P y"
  shows "DH P (kp_PrivateKey x) (kp_PublicKey y) = DH P (kp_PrivateKey y) (kp_PublicKey x)"
proof -
  have "x25519 P (kp_PrivateKey x) (kp_PublicKey y) = x25519 P (kp_PrivateKey y) (kp_PublicKey x)"
    using assms unfolding dh_comm_def honest_pair_def by blast
  then show ?thesis by (simp only: DH_def)
qed

section \<open>AES-GCM (aead.go)\<close>

definition AESGCM_Encrypt :: "'z prims_scheme \<Rightarrow> bytes res \<Rightarrow> bytes \<Rightarrow> bytes \<Rightarrow> bytes \<Rightarrow> bytes res" where
  "AESGCM_Encrypt P rnd key plaintext ad =
     (if length key \<noteq> 32 then Inl ErrAeadKey
      else bindR rnd (\<lambda>b. let nonce = arr 12 b in
        Inr (nonce @ gcm_seal P key nonce plaintext ad)))"

definition AESGCM_Decrypt :: "'z prims_scheme \<Rightarrow> bytes \<Rightarrow> bytes \<Rightarrow> bytes \<Rightarrow> bytes res" where
  "AESGCM_Decrypt P key ciphertext ad =
     (if length key \<noteq> 32 then Inl ErrAeadKey
      else if length ciphertext < 12 then Inl ErrCiphertextTooShort
      else case gcm_open P key (take 12 ciphertext) (drop 12 ciphertext) ad of
             None \<Rightarrow> Inl ErrAeadOpen
           | Some plain \<Rightarrow> Inr plain)"

text \<open>The wrapper returns ciphertext and nonce, in this order.\<close>

definition AESGCMEncrypt ::
    "'z prims_scheme \<Rightarrow> bytes res \<Rightarrow> bytes \<Rightarrow> bytes \<Rightarrow> bytes \<Rightarrow> (bytes \<times> bytes) res" where
  "AESGCMEncrypt P rnd key plaintext ad =
     bindR (AESGCM_Encrypt P rnd key plaintext ad) (\<lambda>c. Inr (drop 12 c, take 12 c))"

definition AESGCMDecrypt :: "'z prims_scheme \<Rightarrow> bytes \<Rightarrow> bytes \<Rightarrow> bytes \<Rightarrow> bytes \<Rightarrow> bytes res" where
  "AESGCMDecrypt P key ciphertext nonce ad =
     (if length nonce \<noteq> 12 then Inl ErrCiphertextTooShort
      else AESGCM_Decrypt P key (nonce @ ciphertext) ad)"

definition AESGCMEncryptWithNonce ::
    "'z prims_scheme \<Rightarrow> bytes \<Rightarrow> bytes \<Rightarrow> bytes \<Rightarrow> bytes \<Rightarrow> bytes res" where
  "AESGCMEncryptWithNonce P key plaintext nonce ad =
     (if length key \<noteq> 32 then Inl ErrAeadKey
      else if length nonce \<noteq> 12 then Inl ErrCiphertextTooShort
      else Inr (gcm_seal P key nonce plaintext ad))"

lemma AESGCMDecrypt_seal:
  assumes "prims_ok P" "AESGCMEncryptWithNonce P key p nonce ad = Inr ct"
  shows "AESGCMDecrypt P key ct nonce ad = Inr p"
  using assms
  by (auto simp: AESGCMEncryptWithNonce_def AESGCMDecrypt_def AESGCM_Decrypt_def prims_ok_def
      split: if_splits)

lemma AESGCMDecrypt_encrypt:
  assumes "prims_ok P" "AESGCMEncrypt P rnd key p ad = Inr (ct, nonce)"
  shows "AESGCMDecrypt P key ct nonce ad = Inr p"
  using assms
  by (auto simp: AESGCMEncrypt_def AESGCM_Encrypt_def AESGCMDecrypt_def AESGCM_Decrypt_def
      prims_ok_def Let_def split: if_splits)

text \<open>ChaCha20-Poly1305 has the same interface, with its key of 32 and its nonce of 12 bytes.\<close>

definition ChaChaAEAD_Encrypt :: "'z prims_scheme \<Rightarrow> bytes res \<Rightarrow> bytes \<Rightarrow> bytes \<Rightarrow> bytes \<Rightarrow> bytes res" where
  "ChaChaAEAD_Encrypt P rnd key plaintext ad =
     (if length key \<noteq> 32 then Inl ErrAeadKey
      else bindR rnd (\<lambda>b. let nonce = arr 12 b in
        Inr (nonce @ chacha_seal P key nonce plaintext ad)))"

definition ChaChaAEAD_Decrypt :: "'z prims_scheme \<Rightarrow> bytes \<Rightarrow> bytes \<Rightarrow> bytes \<Rightarrow> bytes res" where
  "ChaChaAEAD_Decrypt P key ciphertext ad =
     (if length key \<noteq> 32 then Inl ErrAeadKey
      else if length ciphertext < 12 then Inl ErrCiphertextTooShort
      else case chacha_open P key (take 12 ciphertext) (drop 12 ciphertext) ad of
             None \<Rightarrow> Inl ErrAeadOpen
           | Some plain \<Rightarrow> Inr plain)"

definition ChaChaEncrypt ::
    "'z prims_scheme \<Rightarrow> bytes res \<Rightarrow> bytes \<Rightarrow> bytes \<Rightarrow> bytes \<Rightarrow> (bytes \<times> bytes) res" where
  "ChaChaEncrypt P rnd key plaintext ad =
     bindR (ChaChaAEAD_Encrypt P rnd key plaintext ad) (\<lambda>out. Inr (drop 12 out, take 12 out))"

definition ChaChaDecrypt :: "'z prims_scheme \<Rightarrow> bytes \<Rightarrow> bytes \<Rightarrow> bytes \<Rightarrow> bytes \<Rightarrow> bytes res" where
  "ChaChaDecrypt P key ciphertext nonce ad =
     (if length nonce \<noteq> 12 then Inl ErrCiphertextTooShort
      else ChaChaAEAD_Decrypt P key (nonce @ ciphertext) ad)"

definition ChaChaEncryptWithNonce ::
    "'z prims_scheme \<Rightarrow> bytes \<Rightarrow> bytes \<Rightarrow> bytes \<Rightarrow> bytes \<Rightarrow> bytes res" where
  "ChaChaEncryptWithNonce P key plaintext nonce ad =
     (if length key \<noteq> 32 then Inl ErrAeadKey
      else if length nonce \<noteq> 12 then Inl ErrCiphertextTooShort
      else Inr (chacha_seal P key nonce plaintext ad))"

definition chacha_ok :: "'z prims_scheme \<Rightarrow> bool" where
  "chacha_ok P \<longleftrightarrow> (\<forall>k n p ad. length k = 32 \<longrightarrow> length n = 12 \<longrightarrow>
     chacha_open P k n (chacha_seal P k n p ad) ad = Some p)"

lemma ChaChaDecrypt_encrypt:
  assumes "chacha_ok P"
  shows "ChaChaEncrypt P rnd key p ad = Inr (ct, nonce) \<Longrightarrow> ChaChaDecrypt P key ct nonce ad = Inr p"
    and "ChaChaEncryptWithNonce P key p nonce ad = Inr ct \<Longrightarrow> ChaChaDecrypt P key ct nonce ad = Inr p"
    and "ChaChaAEAD_Encrypt P rnd key p ad = Inr out \<Longrightarrow> ChaChaAEAD_Decrypt P key out ad = Inr p"
  using assms
  by (auto simp: ChaChaEncrypt_def ChaChaEncryptWithNonce_def ChaChaAEAD_Encrypt_def ChaChaDecrypt_def
      ChaChaAEAD_Decrypt_def chacha_ok_def Let_def split: if_splits)

section \<open>AES-CBC with PKCS\#7 padding (aes\_cbc.go)\<close>

definition xor_bytes :: "bytes \<Rightarrow> bytes \<Rightarrow> bytes" where
  "xor_bytes xs ys = map2 (XOR) xs ys"

text \<open>
  \<^verbatim>\<open>CryptBlocks\<close> of \<^verbatim>\<open>cipher.NewCBCEncrypter\<close> and \<^verbatim>\<open>cipher.NewCBCDecrypter\<close>, block by block.  Both
  are called on a multiple of the block size.
\<close>

function cbcCryptEnc :: "'z prims_scheme \<Rightarrow> bytes \<Rightarrow> bytes \<Rightarrow> bytes \<Rightarrow> bytes" where
  "cbcCryptEnc P key iv data =
     (if length data < 16 then []
      else let c = arr 16 (aes_encrypt P key (xor_bytes (take 16 data) iv))
           in c @ cbcCryptEnc P key c (drop 16 data))"
  by pat_completeness auto
termination by (relation "measure (\<lambda>(P, key, iv, data). length data)") auto

function cbcCryptDec :: "'z prims_scheme \<Rightarrow> bytes \<Rightarrow> bytes \<Rightarrow> bytes \<Rightarrow> bytes" where
  "cbcCryptDec P key iv data =
     (if length data < 16 then []
      else xor_bytes (aes_decrypt P key (take 16 data)) iv
           @ cbcCryptDec P key (take 16 data) (drop 16 data))"
  by pat_completeness auto
termination by (relation "measure (\<lambda>(P, key, iv, data). length data)") auto

declare cbcCryptEnc.simps [simp del] cbcCryptDec.simps [simp del]

definition pkcs7Pad :: "bytes \<Rightarrow> nat \<Rightarrow> bytes res" where
  "pkcs7Pad data blockSize =
     (if blockSize = 0 \<or> blockSize > 255 then Inl ErrCbcPadding
      else let padLen0 = blockSize - length data mod blockSize;
               padLen = (if padLen0 = 0 then blockSize else padLen0)
           in Inr (data @ replicate padLen (of_nat padLen)))"

definition pkcs7Unpad :: "bytes \<Rightarrow> nat \<Rightarrow> bytes res" where
  "pkcs7Unpad data blockSize =
     (if blockSize = 0 \<or> blockSize > 255 then Inl ErrCbcPadding
      else if length data = 0 \<or> length data mod blockSize \<noteq> 0 then Inl ErrCbcPadding
      else let padLen = unat (last data) in
        if padLen = 0 \<or> padLen > blockSize then Inl ErrCbcPadding
        else if padLen > length data then Inl ErrCbcPadding
        else if \<exists>b \<in> set (drop (length data - padLen) data). unat b \<noteq> padLen then Inl ErrCbcPadding
        else Inr (take (length data - padLen) data))"

definition AESCBCEncrypt :: "'z prims_scheme \<Rightarrow> bytes \<Rightarrow> bytes \<Rightarrow> bytes \<Rightarrow> bytes res" where
  "AESCBCEncrypt P key iv plaintext =
     (if \<not> aes_key_ok key then Inl (ErrText ''aes-cbc: init cipher'')
      else if length iv \<noteq> 16 then Inl ErrCbcIV
      else bindR (pkcs7Pad plaintext 16) (\<lambda>padded. Inr (cbcCryptEnc P key iv padded)))"

definition AESCBCDecrypt :: "'z prims_scheme \<Rightarrow> bytes \<Rightarrow> bytes \<Rightarrow> bytes \<Rightarrow> bytes res" where
  "AESCBCDecrypt P key iv ciphertext =
     (if \<not> aes_key_ok key then Inl (ErrText ''aes-cbc: init cipher'')
      else if length iv \<noteq> 16 then Inl ErrCbcIV
      else if length ciphertext = 0 \<or> length ciphertext mod 16 \<noteq> 0 then Inl ErrCbcCiphertext
      else pkcs7Unpad (cbcCryptDec P key iv ciphertext) 16)"

lemma length_xor_bytes [simp]: "length (xor_bytes xs ys) = min (length xs) (length ys)"
  by (simp add: xor_bytes_def)

lemma xor_bytes_cancel: "length xs \<le> length ys \<Longrightarrow> xor_bytes (xor_bytes xs ys) ys = xs"
  by (rule nth_equalityI) (simp_all add: xor_bytes_def xor.assoc)

lemma length_cbcCryptEnc: "length (cbcCryptEnc P key iv data) = 16 * (length data div 16)"
proof (induction P key iv data rule: cbcCryptEnc.induct)
  case (1 P key iv data)
  then show ?case
    by (subst cbcCryptEnc.simps) (auto simp: Let_def le_div_geq not_less)
qed

lemma cbcCryptDec_cbcCryptEnc:
  assumes "prims_ok P" "aes_key_ok key"
  shows "length iv = 16 \<Longrightarrow> 16 dvd length data \<Longrightarrow>
    cbcCryptDec P key iv (cbcCryptEnc P key iv data) = data"
proof (induction "length data" arbitrary: iv data rule: less_induct)
  case less
  show ?case
  proof (cases "length data < 16")
    case True
    with less.prems have "data = []" by (auto simp: dvd_def)
    then show ?thesis by (simp add: cbcCryptEnc.simps cbcCryptDec.simps)
  next
    case False
    define c where "c = arr 16 (aes_encrypt P key (xor_bytes (take 16 data) iv))"
    have enc: "cbcCryptEnc P key iv data = c @ cbcCryptEnc P key c (drop 16 data)"
      using False by (subst cbcCryptEnc.simps) (simp add: c_def Let_def)
    have "16 dvd length (drop 16 data)"
      using less.prems False by (simp add: dvd_diff_nat)
    then have IH: "cbcCryptDec P key c (cbcCryptEnc P key c (drop 16 data)) = drop 16 data"
      using False by (intro less.hyps) (auto simp: c_def)
    have c: "length c = 16" by (simp add: c_def)
    have blk: "aes_decrypt P key c = xor_bytes (take 16 data) iv"
      using assms False less.prems by (simp add: c_def prims_ok_def)
    show ?thesis
      using False less.prems
      by (subst cbcCryptDec.simps) (simp add: enc blk IH c xor_bytes_cancel)
  qed
qed

lemma pkcs7Pad_Inr:
  assumes "0 < bs" "bs < 256"
  obtains n where "0 < n" "n \<le> bs" "pkcs7Pad data bs = Inr (data @ replicate n (of_nat n))"
    "bs dvd length data + n"
proof -
  let ?n = "bs - length data mod bs"
  have m: "length data mod bs < bs" using assms by simp
  have "length data + ?n = bs * (length data div bs) + bs"
    using m by (metis add.assoc le_add_diff_inverse less_imp_le mult_div_mod_eq)
  then have "bs dvd length data + ?n" by simp
  with m assms show thesis
    by (intro that [of ?n]) (simp_all add: pkcs7Pad_def Let_def not_le)
qed

lemma pkcs7Unpad_Pad:
  assumes "0 < bs" "bs < 256" "pkcs7Pad data bs = Inr padded"
  shows "pkcs7Unpad padded bs = Inr data"
proof -
  obtain n where n: "0 < n" "n \<le> bs" "padded = data @ replicate n (of_nat n)" "bs dvd length data + n"
    using assms pkcs7Pad_Inr [of bs data] by (metis Inr_inject)
  have "unat (of_nat n :: byte) = n" using n assms by (simp add: unat_of_nat)
  with n assms(1,2) show ?thesis
    by (simp add: pkcs7Unpad_def Let_def dvd_eq_mod_eq_0)
qed

lemma length_pkcs7Pad: "pkcs7Pad data 16 = Inr padded \<Longrightarrow> 16 dvd length padded \<and> 0 < length padded"
  by (rule pkcs7Pad_Inr [of 16 data]) auto

lemma AESCBC_roundtrip:
  assumes "prims_ok P" "AESCBCEncrypt P key iv p = Inr ct"
  shows "AESCBCDecrypt P key iv ct = Inr p"
proof -
  obtain padded where k: "aes_key_ok key" "length iv = 16" and p: "pkcs7Pad p 16 = Inr padded"
    and ct: "ct = cbcCryptEnc P key iv padded"
    using assms(2) by (auto simp: AESCBCEncrypt_def split: if_splits)
  have l: "16 dvd length padded" "0 < length padded" using length_pkcs7Pad [OF p] by simp_all
  have "length ct = length padded" using l by (simp add: ct length_cbcCryptEnc)
  moreover have "cbcCryptDec P key iv ct = padded"
    using assms(1) k l by (simp add: ct cbcCryptDec_cbcCryptEnc)
  moreover have "pkcs7Unpad padded 16 = Inr p" using p by (rule pkcs7Unpad_Pad [rotated 2]) simp_all
  ultimately show ?thesis using k l by (simp add: AESCBCDecrypt_def dvd_eq_mod_eq_0)
qed

lemma pkcs7Unpad_sound:
  assumes "pkcs7Unpad data bs = Inr p"
  shows "pkcs7Pad p bs = Inr data"
proof -
  define n where "n = unat (last data)"
  have h: "0 < bs" "bs < 256" "data \<noteq> []" "bs dvd length data" "0 < n" "n \<le> bs" "n \<le> length data"
    "\<forall>b \<in> set (drop (length data - n) data). unat b = n" "p = take (length data - n) data"
    using assms unfolding pkcs7Unpad_def Let_def n_def [symmetric]
    by (simp_all split: if_splits add: dvd_eq_mod_eq_0)
  have "drop (length data - n) data = replicate n (of_nat n)"
    using h(7,8) by (intro replicate_eqI) (simp, metis of_nat_unat ucast_id)
  then have d: "data = p @ replicate n (of_nat n)"
    using h(9) by (metis append_take_drop_id)
  obtain m where m: "0 < m" "m \<le> bs" "pkcs7Pad p bs = Inr (p @ replicate m (of_nat m))"
    "bs dvd length p + m"
    using pkcs7Pad_Inr [of bs p] h by metis
  have n: "bs dvd length p + n" using h(4) arg_cong [OF d, of length] by simp
  have "bs dvd n - m" "bs dvd m - n"
    using dvd_diff_nat [OF n m(4)] dvd_diff_nat [OF m(4) n] by simp_all
  then have "n = m"
    using h(5,6) m(1,2) dvd_imp_le [of bs "n - m"] dvd_imp_le [of bs "m - n"] by linarith
  with m d show ?thesis by simp
qed

section \<open>AES-CTR with a truncated HMAC (aes\_ctr\_hmac.go)\<close>

text \<open>
  The key stream of \<^verbatim>\<open>cipher.NewCTR\<close> from a zero counter: block \<open>i\<close> is the encryption of \<open>i\<close> as a
  16-byte big-endian number.
\<close>

definition ctr_block :: "nat \<Rightarrow> bytes" where
  "ctr_block i = put_u64 (of_nat (i div 2 ^ 64)) @ put_u64 (of_nat i)"

definition ctr_keystream :: "'z prims_scheme \<Rightarrow> bytes \<Rightarrow> nat \<Rightarrow> bytes" where
  "ctr_keystream P key n =
     take n (concat (map (\<lambda>i. arr 16 (aes_encrypt P key (ctr_block i))) [0..<Suc (n div 16)]))"

definition aesCTRHMACSize :: nat where
  "aesCTRHMACSize = 10"

definition AES256CTRHMACSHA256Encrypt ::
    "'z prims_scheme \<Rightarrow> bytes \<Rightarrow> bytes \<Rightarrow> bytes \<Rightarrow> bytes res" where
  "AES256CTRHMACSHA256Encrypt P plaintext cipherKey macKey =
     (if \<not> aes_key_ok cipherKey then Inl (ErrText ''aes-ctr-hmac: init cipher'')
      else let ciphertext = xor_bytes plaintext (ctr_keystream P cipherKey (length plaintext));
               sum = HMAC256 P macKey ciphertext
           in Inr (ciphertext @ take aesCTRHMACSize sum))"

definition AES256CTRHMACSHA256Decrypt ::
    "'z prims_scheme \<Rightarrow> bytes \<Rightarrow> bytes \<Rightarrow> bytes \<Rightarrow> bytes res" where
  "AES256CTRHMACSHA256Decrypt P ciphertext cipherKey macKey =
     (if length ciphertext < aesCTRHMACSize then Inl ErrCtrHmacCiphertext
      else if \<not> aes_key_ok cipherKey then Inl (ErrText ''aes-ctr-hmac: init cipher'')
      else let msgLen = length ciphertext - aesCTRHMACSize;
               msg = take msgLen ciphertext;
               mac = drop msgLen ciphertext
           in if take aesCTRHMACSize (HMAC256 P macKey msg) \<noteq> mac then Inl ErrCtrHmacCiphertext
              else Inr (xor_bytes msg (ctr_keystream P cipherKey msgLen)))"

lemma length_ctr_keystream [simp]: "length (ctr_keystream P key n) = n"
proof -
  have len: "length (concat (map (\<lambda>i. arr 16 (f i)) xs)) = 16 * length xs" for f and xs :: "nat list"
    by (induction xs) auto
  have "n \<le> 16 * Suc (n div 16)"
    by presburger
  then show ?thesis
    unfolding ctr_keystream_def length_take len by simp
qed

lemma AES256CTRHMAC_roundtrip:
  assumes "AES256CTRHMACSHA256Encrypt P p ck mk = Inr ct"
  shows "AES256CTRHMACSHA256Decrypt P ct ck mk = Inr p"
  using assms
  by (auto simp: AES256CTRHMACSHA256Encrypt_def AES256CTRHMACSHA256Decrypt_def Let_def
      aesCTRHMACSize_def xor_bytes_cancel split: if_splits)

section \<open>Random scalars (random.go)\<close>

definition RandomBytes :: "bytes res \<Rightarrow> nat \<Rightarrow> bytes res" where
  "RandomBytes rnd len = bindR rnd (\<lambda>b. Inr (arr len b))"

definition clampCurve25519Scalar :: "bytes \<Rightarrow> bytes" where
  "clampCurve25519Scalar s =
     (let s1 = s[0 := s ! 0 AND 248]; s2 = s1[31 := s1 ! 31 AND 127]
      in s2[31 := s2 ! 31 OR 64])"

definition RandomScalar :: "bytes res \<Rightarrow> bytes res" where
  "RandomScalar rnd =
     bindR (RandomBytes rnd 32) (\<lambda>b. Inr (clampCurve25519Scalar (arr 32 b)))"

lemma clampCurve25519Scalar_bits:
  assumes "length s = 32"
  shows "clampCurve25519Scalar s ! 0 AND 7 = 0"
    and "bit (clampCurve25519Scalar s ! 31) 6"
    and "\<not> bit (clampCurve25519Scalar s ! 31) 7"
  using assms by (simp_all add: clampCurve25519Scalar_def Let_def and.assoc bit_simps)

section \<open>Kyber1024 (kyber.go)\<close>

text \<open>The sizes of \<^verbatim>\<open>circl/kem/kyber/kyber1024\<close>.  A serialized key or ciphertext has a type byte first.\<close>

definition kyber1024KeyType :: byte where
  "kyber1024KeyType = 8"

definition kyber_pk_size :: nat where "kyber_pk_size = 1568"
definition kyber_sk_size :: nat where "kyber_sk_size = 3168"
definition kyber_ct_size :: nat where "kyber_ct_size = 1568"
definition kyber_seed_size :: nat where "kyber_seed_size = 32"

record KyberKeyPair =
  kkp_PublicKey :: bytes
  kkp_PrivateKey :: bytes

definition GenerateKyber1024KeyPair :: "'z prims_scheme \<Rightarrow> bytes res \<Rightarrow> KyberKeyPair res" where
  "GenerateKyber1024KeyPair P rnd =
     bindR rnd (\<lambda>seed. let (pk, sk) = kyber_generate P seed in
     Inr \<lparr>kkp_PublicKey = kyber1024KeyType # arr kyber_pk_size pk,
          kkp_PrivateKey = kyber1024KeyType # arr kyber_sk_size sk\<rparr>)"

definition unmarshalKyberPublicKey :: "bytes \<Rightarrow> bytes res" where
  "unmarshalKyberPublicKey data =
     (if length data \<noteq> 1 + kyber_pk_size then Inl (ErrText ''kyber1024: public key length'')
      else if data ! 0 \<noteq> kyber1024KeyType then Inl (ErrText ''kyber1024: unsupported key type'')
      else Inr (drop 1 data))"

definition unmarshalKyberPrivateKey :: "bytes \<Rightarrow> bytes res" where
  "unmarshalKyberPrivateKey data =
     (if length data \<noteq> 1 + kyber_sk_size then Inl (ErrText ''kyber1024: private key length'')
      else if data ! 0 \<noteq> kyber1024KeyType then Inl (ErrText ''kyber1024: unsupported key type'')
      else Inr (drop 1 data))"

definition unmarshalKyberCiphertext :: "bytes \<Rightarrow> bytes res" where
  "unmarshalKyberCiphertext data =
     (if length data \<noteq> 1 + kyber_ct_size then Inl (ErrText ''kyber1024: ciphertext length'')
      else if data ! 0 \<noteq> kyber1024KeyType then Inl (ErrText ''kyber1024: unsupported ciphertext type'')
      else Inr (drop 1 data))"

text \<open>Encapsulation returns the shared secret and the serialized ciphertext, in this order.\<close>

definition Kyber1024EncapsulateDeterministically ::
    "'z prims_scheme \<Rightarrow> bytes \<Rightarrow> bytes \<Rightarrow> (bytes \<times> bytes) res" where
  "Kyber1024EncapsulateDeterministically P publicKey seed =
     bindR (unmarshalKyberPublicKey publicKey) (\<lambda>pk.
     if length seed \<noteq> kyber_seed_size then Inl (ErrText ''kyber1024: encapsulation seed length'')
     else let (ct, ss) = kyber_encaps P pk seed in
       Inr (arr 32 ss, kyber1024KeyType # arr kyber_ct_size ct))"

definition Kyber1024Encapsulate ::
    "'z prims_scheme \<Rightarrow> bytes res \<Rightarrow> bytes \<Rightarrow> (bytes \<times> bytes) res" where
  "Kyber1024Encapsulate P rnd publicKey =
     bindR (unmarshalKyberPublicKey publicKey) (\<lambda>pk.
     bindR rnd (\<lambda>b. let (ct, ss) = kyber_encaps P pk (arr kyber_seed_size b) in
       Inr (arr 32 ss, kyber1024KeyType # arr kyber_ct_size ct)))"

definition Kyber1024Decapsulate :: "'z prims_scheme \<Rightarrow> bytes \<Rightarrow> bytes \<Rightarrow> bytes res" where
  "Kyber1024Decapsulate P privateKey ciphertext =
     bindR (unmarshalKyberPrivateKey privateKey) (\<lambda>sk.
     bindR (unmarshalKyberCiphertext ciphertext) (\<lambda>rawCT.
     Inr (arr 32 (kyber_decaps P sk rawCT))))"

definition IsKyber1024PublicKey :: "bytes \<Rightarrow> bool" where
  "IsKyber1024PublicKey data \<longleftrightarrow>
     length data = 1 + kyber_pk_size \<and> 0 < length data \<and> data ! 0 = kyber1024KeyType"

text \<open>What a key encapsulation mechanism promises: the two sides arrive at one secret.\<close>

definition kem_ok :: "'z prims_scheme \<Rightarrow> bool" where
  "kem_ok P \<longleftrightarrow> (\<forall>seed r. let (pk, sk) = kyber_generate P seed;
       (ct, ss) = kyber_encaps P (arr kyber_pk_size pk) r
     in arr 32 (kyber_decaps P (arr kyber_sk_size sk) (arr kyber_ct_size ct)) = arr 32 ss)"

lemma GenerateKyber_public: "GenerateKyber1024KeyPair P rnd = Inr kp \<Longrightarrow> IsKyber1024PublicKey (kkp_PublicKey kp)"
  by (auto simp: GenerateKyber1024KeyPair_def IsKyber1024PublicKey_def split_beta)

lemma Kyber1024_agree:
  assumes "kem_ok P" "GenerateKyber1024KeyPair P rnd = Inr kp"
    and "Kyber1024Encapsulate P rnd' (kkp_PublicKey kp) = Inr (ss, ct)"
  shows "Kyber1024Decapsulate P (kkp_PrivateKey kp) ct = Inr ss"
proof -
  obtain seed where kp: "kp = \<lparr>kkp_PublicKey = kyber1024KeyType # arr kyber_pk_size (fst (kyber_generate P seed)),
      kkp_PrivateKey = kyber1024KeyType # arr kyber_sk_size (snd (kyber_generate P seed))\<rparr>"
    using assms(2) by (auto simp: GenerateKyber1024KeyPair_def split_beta)
  have law: "arr 32 (kyber_decaps P (arr kyber_sk_size (snd (kyber_generate P seed)))
      (arr kyber_ct_size (fst (kyber_encaps P (arr kyber_pk_size (fst (kyber_generate P seed))) r))))
      = arr 32 (snd (kyber_encaps P (arr kyber_pk_size (fst (kyber_generate P seed))) r))" for r
    using assms(1) unfolding kem_ok_def Let_def split_beta by blast
  show ?thesis
    using assms(3)
    by (auto simp: kp Kyber1024Encapsulate_def Kyber1024Decapsulate_def unmarshalKyberPublicKey_def
        unmarshalKyberPrivateKey_def unmarshalKyberCiphertext_def split_beta law)
qed

section \<open>AES-GCM-SIV (aes\_gcm\_siv.go)\<close>

definition AESGCMSIVNonceSize :: nat where
  "AESGCMSIVNonceSize = 12"

text \<open>\<^verbatim>\<open>siv.NewGCM\<close> accepts keys of 16 and of 32 bytes.\<close>

definition AESGCMSIVEncrypt :: "'z prims_scheme \<Rightarrow> bytes \<Rightarrow> bytes \<Rightarrow> bytes \<Rightarrow> bytes \<Rightarrow> bytes res" where
  "AESGCMSIVEncrypt P key nonce plaintext ad =
     (if length nonce \<noteq> AESGCMSIVNonceSize then Inl (ErrText ''aes-gcm-siv: invalid nonce length'')
      else if length key \<notin> {16, 32} then Inl (ErrText ''aes-gcm-siv: init'')
      else Inr (siv_seal P key nonce plaintext ad))"

definition AESGCMSIVDecrypt :: "'z prims_scheme \<Rightarrow> bytes \<Rightarrow> bytes \<Rightarrow> bytes \<Rightarrow> bytes \<Rightarrow> bytes res" where
  "AESGCMSIVDecrypt P key nonce ciphertext ad =
     (if length nonce \<noteq> AESGCMSIVNonceSize then Inl (ErrText ''aes-gcm-siv: invalid nonce length'')
      else if length key \<notin> {16, 32} then Inl (ErrText ''aes-gcm-siv: init'')
      else case siv_open P key nonce ciphertext ad of
             None \<Rightarrow> Inl (ErrText ''aes-gcm-siv: invalid ciphertext'')
           | Some p \<Rightarrow> Inr p)"

definition siv_ok :: "'z prims_scheme \<Rightarrow> bool" where
  "siv_ok P \<longleftrightarrow> (\<forall>k n p ad. length k \<in> {16, 32} \<longrightarrow> length n = 12 \<longrightarrow>
     siv_open P k n (siv_seal P k n p ad) ad = Some p)"

lemma AESGCMSIV_roundtrip:
  "siv_ok P \<Longrightarrow> AESGCMSIVEncrypt P key nonce p ad = Inr ct \<Longrightarrow> AESGCMSIVDecrypt P key nonce ct ad = Inr p"
  by (auto simp: AESGCMSIVEncrypt_def AESGCMSIVDecrypt_def siv_ok_def AESGCMSIVNonceSize_def split: if_splits)

end
