(* ===== verification/Concrete.thy ===== *)
theory Concrete
  imports Crypto
begin

text \<open>
  An instance of the primitives on which the definitions compute.  It has no strength whatever; it
  satisfies the laws the theorems assume, so it shows that they can hold, and the witnesses run the
  program on it.
  \<^item> The keyed hash keeps the first 32 bytes of data and key.
  \<^item> The key-derivation stream adds its position to the first bytes of the key material.
  \<^item> Scalar multiplication is addition of the first 31 bytes, so two sides agree, with a last byte that
    keeps the result from being zero.
  \<^item> Points and scalars of the signature scheme are numbers below 256, the fifth byte of a key.
  \<^item> A key encapsulation adds the random bytes to the key.
  \<^item> AES is the exclusive or with the key; the AEAD appends a checksum of its inputs.
\<close>

definition csum :: "bytes \<Rightarrow> byte" where
  "csum xs = fold (\<lambda>b acc. 3 * acc + b + 1) xs 0"

definition toy_tag :: "bytes \<Rightarrow> bytes \<Rightarrow> bytes \<Rightarrow> bytes \<Rightarrow> bytes" where
  "toy_tag k n p ad = replicate 16 (csum k + 5 * csum n + 7 * csum p + 11 * csum ad)"

definition toy :: prims where
  "toy = \<lparr>hmac_sha256 = (\<lambda>key data. take 32 (data @ key)),
     hmac_sha512 = (\<lambda>key data. take 64 (data @ key)),
     hkdf_extract = (\<lambda>ikm salt. take 8 ikm @ [csum ikm, csum salt]),
     hkdf_stream = (\<lambda>prk info i. of_nat i + csum prk + csum info + 1),
     x25519 = (\<lambda>k u. Some (map2 (+) (arr 31 k) (arr 31 u) @ [1])),
     aes_encrypt = (\<lambda>k b. xor_bytes b (arr 16 k)),
     aes_decrypt = (\<lambda>k b. xor_bytes b (arr 16 k)),
     gcm_seal = (\<lambda>k n p ad. p @ toy_tag k n p ad),
     gcm_open = (\<lambda>k n c ad. let p = take (length c - 16) c in
        if c = p @ toy_tag k n p ad then Some p else None),
     chacha_seal = (\<lambda>k n p ad. p @ toy_tag k n p ad),
     chacha_open = (\<lambda>k n c ad. let p = take (length c - 16) c in
        if c = p @ toy_tag k n p ad then Some p else None),
     siv_seal = (\<lambda>k n p ad. p @ toy_tag k n p ad),
     siv_open = (\<lambda>k n c ad. let p = take (length c - 16) c in
        if c = p @ toy_tag k n p ad then Some p else None),
     sha256_sum = (\<lambda>d. replicate 32 (csum d)),
     sha512_sum = (\<lambda>d. replicate 64 (csum d)),
     kyber_generate = (\<lambda>seed. (take 32 seed, take 32 seed)),
     kyber_encaps = (\<lambda>pk r. (r, map2 (+) (arr 32 pk) (arr 32 r))),
     kyber_decaps = (\<lambda>sk ct. map2 (+) (arr 32 sk) (arr 32 ct)),
     sc_uniform = (\<lambda>b. uint (b ! 5)),
     sc_muladd = (\<lambda>h a r. (h * a + r) mod 256),
     sc_bytes = (\<lambda>s. replicate 5 0 @ [word_of_int s] @ replicate 26 0),
     ed_basemult = (\<lambda>a. word_of_int a # replicate 31 0),
     ed_setbytes = (\<lambda>b. Some b),
     ed_negate = (\<lambda>p. (- hd p) # replicate 31 0),
     ed_doublemult = (\<lambda>h p s. (word_of_int h * hd p + word_of_int s) # replicate 31 0),
     fe_setbytes = (\<lambda>b. uint (b ! 5)),
     fe_bytes = (\<lambda>y. word_of_int y # replicate 31 0),
     fe_one = 1,
     fe_add = (\<lambda>a b. 1),
     fe_sub = (\<lambda>a b. a),
     fe_mul = (\<lambda>a b. a),
     fe_inv = (\<lambda>a. a)\<rparr>"

lemma length_toy_tag [simp]: "length (toy_tag k n p ad) = 16"
  by (simp add: toy_tag_def)

lemma toy_prims_ok: "prims_ok toy"
  by (simp add: prims_ok_def toy_def xor_bytes_cancel)

lemma toy_scalarBaseMult:
  "scalarBaseMult toy k = Inr (map2 (+) (arr 31 k) (arr 31 basepoint) @ [1])"
  by (simp add: scalarBaseMult_def toy_def)

lemma toy_dh_comm: "dh_comm toy"
proof -
  have app: "arr 31 (map2 (+) (arr 31 b) c @ [1]) = map2 (+) (arr 31 b) c" if "length c = 31" for b c
    using that by (simp add: arr_append)
  have "map2 (+) (arr 31 a) (map2 (+) (arr 31 b) c) = map2 (+) (arr 31 b) (map2 (+) (arr 31 a) c)"
    for a b c :: bytes
    by (rule nth_equalityI) (simp_all add: add.left_commute)
  then show ?thesis by (auto simp: dh_comm_def toy_scalarBaseMult app) (simp add: toy_def app)
qed

lemma toy_dh_valid: "dh_valid toy"
  by (auto simp: dh_valid_def toy_scalarBaseMult IsValidPublicKey_def toy_def zero32_def
      replicate_app_Cons_same numeral_eq_Suc)

lemma toy_kem_ok: "kem_ok toy"
  by (simp add: kem_ok_def toy_def kyber_pk_size_def kyber_sk_size_def kyber_ct_size_def arr_arr)

lemma toy_chacha_ok: "chacha_ok toy"
  by (simp add: chacha_ok_def toy_def)

lemma toy_siv_ok: "siv_ok toy"
  by (simp add: siv_ok_def toy_def)

end
