(* ===== verification/Chain.thy ===== *)
theory Chain
  imports Prelude
begin

text \<open>
  Key-derivation chains.  A chain function takes a chain key to the next chain key and a message
  key; the Double Ratchet's sending and receiving chains and the sender-key chain of group messages
  are chains in this sense.  \<open>chain_key\<close> and \<open>chain_msg\<close> are the reference the stepping code is
  compared with: the chain key after \<open>n\<close> steps and the key of message \<open>n\<close>.
\<close>

primrec chain_key :: "('k \<Rightarrow> 'k \<times> 'm) \<Rightarrow> 'k \<Rightarrow> nat \<Rightarrow> 'k" where
  "chain_key kdf ck 0 = ck"
| "chain_key kdf ck (Suc n) = fst (kdf (chain_key kdf ck n))"

definition chain_msg :: "('k \<Rightarrow> 'k \<times> 'm) \<Rightarrow> 'k \<Rightarrow> nat \<Rightarrow> 'm" where
  "chain_msg kdf ck n = snd (kdf (chain_key kdf ck n))"

lemma chain_key_add: "chain_key kdf (chain_key kdf ck m) n = chain_key kdf ck (m + n)"
  by (induction n) simp_all

lemma chain_key_step: "chain_key kdf (fst (kdf ck)) n = chain_key kdf ck (Suc n)"
  using chain_key_add [of kdf ck 1 n] by simp

lemma chain_msg_add: "chain_msg kdf (chain_key kdf ck m) n = chain_msg kdf ck (m + n)"
  by (simp add: chain_msg_def chain_key_add)

lemma chain_msg_step: "chain_msg kdf (fst (kdf ck)) n = chain_msg kdf ck (Suc n)"
  by (simp add: chain_msg_def chain_key_step)

lemma chain_msg_0: "chain_msg kdf ck 0 = snd (kdf ck)"
  by (simp add: chain_msg_def)

lemmas chain_simps = chain_key_add chain_msg_add chain_key_step chain_msg_step chain_msg_0

end
