(* ===== verification/Ratchet.thy ===== *)
theory Ratchet
  imports Concrete Chain
begin

text \<open>
  The Double Ratchet of \<^verbatim>\<open>ratchet/\<close>: the state of \<^verbatim>\<open>state.go\<close>, the KDF chains of \<^verbatim>\<open>chain.go\<close> and
  \<^verbatim>\<open>dh_ratchet.go\<close>, skipped keys (\<^verbatim>\<open>skipped.go\<close>), message encryption (\<^verbatim>\<open>message.go\<close>) and the key
  schedule for the wire format (\<^verbatim>\<open>wire.go\<close>).  A method that writes its receiver returns the pair of
  its result and the receiver afterwards, also when it fails, so that what a failing call leaves
  behind is part of the model.  A random draw is an argument: what \<^verbatim>\<open>io.ReadFull\<close> on the random
  source returns during the call.
\<close>

section \<open>State (state.go)\<close>

datatype SkippedKey = SkippedKey (sk_PublicKey: bytes) (sk_N: u32)

text \<open>The order of \<^verbatim>\<open>sort.Slice\<close> in \<^verbatim>\<open>(*State).Serialize\<close>: public key bytes first, then the number.\<close>

instantiation SkippedKey :: linorder
begin

definition less_eq_SkippedKey :: "SkippedKey \<Rightarrow> SkippedKey \<Rightarrow> bool" where
  "less_eq_SkippedKey a b \<longleftrightarrow>
     sk_PublicKey a < sk_PublicKey b \<or> sk_PublicKey a = sk_PublicKey b \<and> sk_N a \<le> sk_N b"

definition less_SkippedKey :: "SkippedKey \<Rightarrow> SkippedKey \<Rightarrow> bool" where
  "less_SkippedKey a b \<longleftrightarrow>
     sk_PublicKey a < sk_PublicKey b \<or> sk_PublicKey a = sk_PublicKey b \<and> sk_N a < sk_N b"

instance
  by standard (auto simp: less_eq_SkippedKey_def less_SkippedKey_def SkippedKey.expand)

end

record State =
  rs_DHs :: "KeyPair option"
  rs_DHr :: "bytes option"
  rs_RK :: bytes
  rs_CKs :: bytes
  rs_CKr :: bytes
  rs_Ns :: u32
  rs_Nr :: u32
  rs_PN :: u32
  rs_MKSkipped :: "(SkippedKey, bytes) fmap"
  rs_SeenDH :: "bytes fset"

definition Clone :: "State \<Rightarrow> State" where
  "Clone s = \<lparr>rs_DHs = rs_DHs s, rs_DHr = rs_DHr s, rs_RK = rs_RK s, rs_CKs = rs_CKs s,
     rs_CKr = rs_CKr s, rs_Ns = rs_Ns s, rs_Nr = rs_Nr s, rs_PN = rs_PN s,
     rs_MKSkipped = rs_MKSkipped s, rs_SeenDH = rs_SeenDH s\<rparr>"

lemma Clone_id [simp]: "Clone s = s"
  by (simp add: Clone_def)

section \<open>KDF chains (chain.go, dh\_ratchet.go)\<close>

text \<open>\<open>KDFChain\<close> returns the new chain key and the message key.\<close>

definition KDFChain :: "'z prims_scheme \<Rightarrow> bytes \<Rightarrow> bytes \<times> bytes" where
  "KDFChain P chainKey = (HMAC256 P chainKey [2], HMAC256 P chainKey [1])"

definition DeriveMessageKeysWithSalt ::
    "'z prims_scheme \<Rightarrow> bytes \<Rightarrow> bytes \<Rightarrow> bytes \<times> bytes \<times> bytes" where
  "DeriveMessageKeysWithSalt P messageKey salt =
     (let okm = (case HKDF P messageKey salt (ascii ''WhisperMessageKeys'') (32 + 32 + 16) of
                   Inl _ \<Rightarrow> [] | Inr okm \<Rightarrow> okm)
      in (take 32 okm, take 32 (drop 32 okm), take 16 (drop 64 okm)))"

definition DeriveMessageKeys :: "'z prims_scheme \<Rightarrow> bytes \<Rightarrow> bytes \<times> bytes \<times> bytes" where
  "DeriveMessageKeys P messageKey = DeriveMessageKeysWithSalt P messageKey []"

definition KDFRoot :: "'z prims_scheme \<Rightarrow> bytes \<Rightarrow> bytes \<Rightarrow> (bytes \<times> bytes) res" where
  "KDFRoot P rootKey dhOutput =
     bindR (HKDF P dhOutput rootKey (ascii ''WhisperRatchet'') 64) (\<lambda>okm.
     Inr (arr 32 (take 32 okm), arr 32 (take 32 (drop 32 okm))))"

definition cleanupSkippedKeys :: "bytes \<Rightarrow> State \<Rightarrow> State" where
  "cleanupSkippedKeys currentDH s =
     s\<lparr>rs_MKSkipped := fmfilter (\<lambda>k. sk_PublicKey k = currentDH) (rs_MKSkipped s)\<rparr>"

definition DHRatchet ::
    "'z prims_scheme \<Rightarrow> bytes res \<Rightarrow> bytes \<Rightarrow> State \<Rightarrow> unit res \<times> State" where
  "DHRatchet P rnd theirPublicKey s =
     (case rs_DHs s of
        None \<Rightarrow> (Inl (ErrText ''dh ratchet: missing local dh key''), s)
      | Some dhs \<Rightarrow>
          let seen = (case rs_DHr s of None \<Rightarrow> rs_SeenDH s | Some r \<Rightarrow> finsert r (rs_SeenDH s));
              s1 = s\<lparr>rs_SeenDH := finsert theirPublicKey seen, rs_PN := rs_Ns s,
                     rs_Ns := 0, rs_Nr := 0\<rparr>
          in bindS (DH P (kp_PrivateKey dhs) theirPublicKey, s1) (\<lambda>dhOut s.
             bindS (KDFRoot P (rs_RK s) dhOut, s) (\<lambda>(newRoot, newCKr) s.
             bindS (GenerateKeyPair P rnd, s\<lparr>rs_RK := newRoot, rs_CKr := newCKr\<rparr>) (\<lambda>newDH s.
             bindS (DH P (kp_PrivateKey newDH) theirPublicKey, s\<lparr>rs_DHs := Some newDH\<rparr>) (\<lambda>dhOutSend s.
             bindS (KDFRoot P (rs_RK s) dhOutSend, s) (\<lambda>(newRoot, newCKs) s.
               (Inr (), cleanupSkippedKeys theirPublicKey
                  (s\<lparr>rs_RK := newRoot, rs_CKs := newCKs, rs_DHr := Some theirPublicKey\<rparr>))))))))"

definition RatchetOnSend :: "'z prims_scheme \<Rightarrow> bytes res \<Rightarrow> State \<Rightarrow> unit res \<times> State" where
  "RatchetOnSend P rnd s =
     (case rs_DHr s of
        None \<Rightarrow> (Inr (), s)
      | Some dhr \<Rightarrow> if rs_DHs s = None then (Inr (), s) else DHRatchet P rnd dhr s)"

section \<open>Skipped keys (skipped.go)\<close>

definition MaxSkip :: nat where
  "MaxSkip = 1000"

function skipMessageKeys :: "'z prims_scheme \<Rightarrow> u32 \<Rightarrow> State \<Rightarrow> unit res \<times> State" where
  "skipMessageKeys P until s =
     (if rs_Nr s < until then
        if rs_Nr s = MaxUint32 then (Inl ErrCounterOverflow, s)
        else if fm_size (rs_MKSkipped s) \<ge> MaxSkip then (Inl ErrMaxSkipExceeded, s)
        else case rs_DHr s of
               None \<Rightarrow> (Inl (ErrText ''ratchet: missing DHr while skipping''), s)
             | Some dhr \<Rightarrow>
                 let (newCKr, mk) = KDFChain P (rs_CKr s)
                 in skipMessageKeys P until
                      (s\<lparr>rs_CKr := newCKr,
                         rs_MKSkipped := fmupd (SkippedKey dhr (rs_Nr s)) mk (rs_MKSkipped s),
                         rs_Nr := rs_Nr s + 1\<rparr>)
      else (Inr (), s))"
  by pat_completeness auto
termination
proof (relation "measure (\<lambda>(P, until, s). unat until - unat (rs_Nr s))", goal_cases)
  case 1
  show ?case by simp
next
  case (2 P until s)
  then show ?case using unat_mono [of "rs_Nr s" until] by (simp add: unat_inc [of _ until])
qed

declare skipMessageKeys.simps [simp del]

section \<open>Headers (header.go)\<close>

record Header =
  h_DH :: bytes
  h_PN :: u32
  h_N :: u32

definition Header_Serialize :: "Header \<Rightarrow> bytes" where
  "Header_Serialize h = arr 32 (h_DH h) @ put_u32 (h_PN h) @ put_u32 (h_N h)"

definition DeserializeHeader :: "bytes \<Rightarrow> Header res" where
  "DeserializeHeader data =
     (if length data \<noteq> 40 then Inl (ErrText ''header: invalid length'')
      else Inr \<lparr>h_DH = arr 32 (take 32 data), h_PN = get_u32 (drop 32 data),
                h_N = get_u32 (drop 36 data)\<rparr>)"

definition Header_Validate :: "Header option \<Rightarrow> unit res" where
  "Header_Validate h = (case h of None \<Rightarrow> Inl (ErrText ''header is nil'') | Some _ \<Rightarrow> Inr ())"

definition EncryptHeader :: "'z prims_scheme \<Rightarrow> Header \<Rightarrow> bytes \<Rightarrow> bytes \<Rightarrow> bytes res" where
  "EncryptHeader P h key nonce =
     (if length key \<noteq> 32 then Inl (ErrText ''header: key must be 32 bytes'')
      else if length nonce \<noteq> 12 then Inl (ErrText ''header: nonce must be 12 bytes'')
      else Inr (gcm_seal P key nonce (Header_Serialize h) []))"

definition DecryptHeader :: "'z prims_scheme \<Rightarrow> bytes \<Rightarrow> bytes \<Rightarrow> bytes \<Rightarrow> Header res" where
  "DecryptHeader P key nonce ciphertext =
     (if length key \<noteq> 32 then Inl (ErrText ''header: key must be 32 bytes'')
      else if length nonce \<noteq> 12 then Inl (ErrText ''header: nonce must be 12 bytes'')
      else case gcm_open P key nonce ciphertext [] of
             None \<Rightarrow> Inl (ErrText ''header: decrypt'')
           | Some plain \<Rightarrow> DeserializeHeader plain)"

definition skippedKeyForHeader :: "Header \<Rightarrow> SkippedKey" where
  "skippedKeyForHeader header = SkippedKey (h_DH header) (h_N header)"

section \<open>Messages (message.go)\<close>

record Message =
  m_Header :: Header
  m_Ciphertext :: bytes

definition messageAD :: "bytes \<Rightarrow> Header \<Rightarrow> bytes" where
  "messageAD associatedData header = associatedData @ Header_Serialize header"

definition decryptWithMessageKey ::
    "'z prims_scheme \<Rightarrow> bytes \<Rightarrow> Message \<Rightarrow> bytes \<Rightarrow> bytes res" where
  "decryptWithMessageKey P mk msg associatedData =
     (let (encKey, authKey, iv) = DeriveMessageKeys P mk in
      if length (m_Ciphertext msg) < 12 then Inl ErrInvalidMessage
      else let nonce = take 12 (m_Ciphertext msg);
               body = drop 12 (m_Ciphertext msg);
               ad = messageAD associatedData (m_Header msg)
           in case AESGCMDecrypt P encKey body nonce ad of
                Inl _ \<Rightarrow> Inl ErrInvalidMAC
              | Inr plaintext \<Rightarrow> Inr plaintext)"

text \<open>
  The nonce is a slice of the derived key material whose capacity the sealed text exceeds, so
  \<^verbatim>\<open>append\<close> copies and the deferred wiping of the key material leaves the ciphertext alone.
\<close>

definition Encrypt ::
    "'z prims_scheme \<Rightarrow> bytes \<Rightarrow> bytes \<Rightarrow> State \<Rightarrow> Message res \<times> State" where
  "Encrypt P plaintext associatedData s =
     (case rs_DHs s of
        None \<Rightarrow> (Inl (ErrText ''encrypt: missing sending DH key''), s)
      | Some dhs \<Rightarrow>
          if rs_CKs s = zero32 then (Inl (ErrText ''encrypt: missing sending chain key''), s)
          else if rs_Ns s = MaxUint32 then (Inl ErrCounterOverflow, s)
          else let header = \<lparr>h_DH = kp_PublicKey dhs, h_PN = rs_PN s, h_N = rs_Ns s\<rparr>;
                   (newCKs, mk) = KDFChain P (rs_CKs s);
                   s = s\<lparr>rs_CKs := newCKs, rs_Ns := rs_Ns s + 1\<rparr>;
                   (encKey, authKey, iv) = DeriveMessageKeys P mk;
                   nonce = take 12 iv;
                   ad = messageAD associatedData header
               in bindS (AESGCMEncryptWithNonce P encKey plaintext nonce ad, s) (\<lambda>ciphertext s.
                  (Inr \<lparr>m_Header = header, m_Ciphertext = nonce @ ciphertext\<rparr>, s)))"

text \<open>
  \<open>Decrypt\<close> works on a copy of the state and commits it by \<^verbatim>\<open>*s = *next\<close> after the plaintext has been
  authenticated.  Its result is the receiver \<open>s\<close> afterwards; \<open>next\<close> is dropped on an error.
\<close>

definition Decrypt ::
    "'z prims_scheme \<Rightarrow> bytes res \<Rightarrow> Message \<Rightarrow> bytes \<Rightarrow> State \<Rightarrow> bytes res \<times> State" where
  "Decrypt P rnd msg associatedData s =
     (let header = m_Header msg; key = skippedKeyForHeader header in
      case fmlookup (rs_MKSkipped s) key of
        Some mk \<Rightarrow>
          bindS (decryptWithMessageKey P mk msg associatedData, s) (\<lambda>plaintext s.
            (Inr plaintext, s\<lparr>rs_MKSkipped := fmdrop key (rs_MKSkipped s)\<rparr>))
      | None \<Rightarrow>
          let nxt = Clone s in
          if rs_DHr nxt = Some (h_DH header) \<and> h_N header < rs_Nr nxt
          then (Inl ErrDuplicateMessage, s)
          else if rs_DHr nxt \<noteq> None \<and> rs_DHr nxt \<noteq> Some (h_DH header)
                  \<and> h_DH header |\<in>| rs_SeenDH nxt
          then (Inl ErrDuplicateMessage, s)
          else
            case (if rs_DHr nxt \<noteq> Some (h_DH header)
                  then bindS (skipMessageKeys P (h_PN header) nxt) (\<lambda>_ nxt.
                       DHRatchet P rnd (h_DH header) nxt)
                  else (Inr (), nxt)) of
              (Inl e, _) \<Rightarrow> (Inl e, s)
            | (Inr _, nxt) \<Rightarrow>
            (case skipMessageKeys P (h_N header) nxt of
              (Inl e, _) \<Rightarrow> (Inl e, s)
            | (Inr _, nxt) \<Rightarrow>
              if rs_CKr nxt = zero32 then (Inl (ErrText ''decrypt: missing receiving chain key''), s)
              else if rs_Nr nxt = MaxUint32 then (Inl ErrCounterOverflow, s)
              else let (newCKr, mk) = KDFChain P (rs_CKr nxt);
                       nxt = nxt\<lparr>rs_CKr := newCKr, rs_Nr := rs_Nr nxt + 1\<rparr>
                   in case decryptWithMessageKey P mk msg associatedData of
                        Inl e \<Rightarrow> (Inl e, s)
                      | Inr plaintext \<Rightarrow> (Inr plaintext, nxt)))"

section \<open>Keys for the wire format (wire.go)\<close>

definition NextSendingMessageKey ::
    "'z prims_scheme \<Rightarrow> State \<Rightarrow> (Header \<times> bytes) res \<times> State" where
  "NextSendingMessageKey P s =
     (case rs_DHs s of
        None \<Rightarrow> (Inl (ErrText ''encrypt: missing sending DH key''), s)
      | Some dhs \<Rightarrow>
          if rs_CKs s = zero32 then (Inl (ErrText ''encrypt: missing sending chain key''), s)
          else if rs_Ns s = MaxUint32 then (Inl ErrCounterOverflow, s)
          else let header = \<lparr>h_DH = kp_PublicKey dhs, h_PN = rs_PN s, h_N = rs_Ns s\<rparr>;
                   (newCKs, mk) = KDFChain P (rs_CKs s)
               in (Inr (header, mk), s\<lparr>rs_CKs := newCKs, rs_Ns := rs_Ns s + 1\<rparr>))"

definition AdvanceForHeader ::
    "'z prims_scheme \<Rightarrow> bytes res \<Rightarrow> Header \<Rightarrow> State \<Rightarrow> bytes res \<times> State" where
  "AdvanceForHeader P rnd header s =
     (let key = skippedKeyForHeader header in
      case fmlookup (rs_MKSkipped s) key of
        Some mk \<Rightarrow> (Inr mk, s\<lparr>rs_MKSkipped := fmdrop key (rs_MKSkipped s)\<rparr>)
      | None \<Rightarrow>
          if rs_DHr s = Some (h_DH header) \<and> h_N header < rs_Nr s
          then (Inl ErrDuplicateMessage, s)
          else if rs_DHr s \<noteq> None \<and> rs_DHr s \<noteq> Some (h_DH header) \<and> h_DH header |\<in>| rs_SeenDH s
          then (Inl ErrDuplicateMessage, s)
          else
            bindS (if rs_DHr s \<noteq> Some (h_DH header)
                   then bindS (skipMessageKeys P (h_PN header) s) (\<lambda>_ s.
                        DHRatchet P rnd (h_DH header) s)
                   else (Inr (), s)) (\<lambda>_ s.
            bindS (skipMessageKeys P (h_N header) s) (\<lambda>_ s.
            if rs_CKr s = zero32 then (Inl (ErrText ''decrypt: missing receiving chain key''), s)
            else if rs_Nr s = MaxUint32 then (Inl ErrCounterOverflow, s)
            else let (newCKr, mk) = KDFChain P (rs_CKr s)
                 in (Inr mk, s\<lparr>rs_CKr := newCKr, rs_Nr := rs_Nr s + 1\<rparr>))))"

section \<open>Skipping\<close>

text \<open>One round of the loop of \<open>skipMessageKeys\<close>, and induction over its rounds.\<close>

definition skip1 :: "'z prims_scheme \<Rightarrow> bytes \<Rightarrow> State \<Rightarrow> State" where
  "skip1 P dhr s = s\<lparr>rs_CKr := fst (KDFChain P (rs_CKr s)),
     rs_MKSkipped := fmupd (SkippedKey dhr (rs_Nr s)) (snd (KDFChain P (rs_CKr s))) (rs_MKSkipped s),
     rs_Nr := rs_Nr s + 1\<rparr>"

lemma skip1_simps [simp]:
  "rs_DHs (skip1 P d s) = rs_DHs s" "rs_DHr (skip1 P d s) = rs_DHr s" "rs_RK (skip1 P d s) = rs_RK s"
  "rs_CKs (skip1 P d s) = rs_CKs s" "rs_Ns (skip1 P d s) = rs_Ns s" "rs_PN (skip1 P d s) = rs_PN s"
  "rs_SeenDH (skip1 P d s) = rs_SeenDH s" "rs_CKr (skip1 P d s) = fst (KDFChain P (rs_CKr s))"
  "rs_Nr (skip1 P d s) = rs_Nr s + 1"
  "rs_MKSkipped (skip1 P d s) =
     fmupd (SkippedKey d (rs_Nr s)) (snd (KDFChain P (rs_CKr s))) (rs_MKSkipped s)"
  by (simp_all add: skip1_def)

lemma skipMessageKeys_unfold:
  "skipMessageKeys P until s =
     (if rs_Nr s < until then
        if fm_size (rs_MKSkipped s) \<ge> MaxSkip then (Inl ErrMaxSkipExceeded, s)
        else case rs_DHr s of
               None \<Rightarrow> (Inl (ErrText ''ratchet: missing DHr while skipping''), s)
             | Some dhr \<Rightarrow> skipMessageKeys P until (skip1 P dhr s)
      else (Inr (), s))"
proof -
  have "rs_Nr s < until \<Longrightarrow> rs_Nr s \<noteq> MaxUint32"
    by (auto simp: MaxUint32_def word_order.extremum_strict)
  then show ?thesis
    by (subst skipMessageKeys.simps) (auto simp: skip1_def Let_def split: option.splits prod.splits)
qed

lemma skipMessageKeys_induct [case_names stop err step]:
  assumes "\<And>s. until \<le> rs_Nr s \<Longrightarrow> Q s (Inr (), s)"
    and "\<And>s e. rs_Nr s < until \<Longrightarrow> MaxSkip \<le> fm_size (rs_MKSkipped s) \<or> rs_DHr s = None \<Longrightarrow> Q s (Inl e, s)"
    and "\<And>s dhr r. rs_Nr s < until \<Longrightarrow> fm_size (rs_MKSkipped s) < MaxSkip \<Longrightarrow> rs_DHr s = Some dhr \<Longrightarrow>
      Q (skip1 P dhr s) r \<Longrightarrow> Q s r"
  shows "Q s (skipMessageKeys P until s)"
proof (induction "unat until - unat (rs_Nr s)" arbitrary: s rule: less_induct)
  case less
  have "Q (skip1 P dhr s) (skipMessageKeys P until (skip1 P dhr s))" if "rs_Nr s < until" for dhr
    using that unat_mono [OF that] by (intro less.hyps) (simp add: unat_inc)
  then show ?case
    by (subst skipMessageKeys_unfold) (auto simp: not_less not_le assms split: option.splits)
qed

text \<open>
  \<open>skips P s s'\<close>: the state \<open>s'\<close> is \<open>s\<close> after some rounds.  The receiving chain has advanced from
  \<open>Nr\<close> of the one to \<open>Nr\<close> of the other, and the keys of the messages in between are stored.
\<close>

definition skips :: "'z prims_scheme \<Rightarrow> State \<Rightarrow> State \<Rightarrow> bool" where
  "skips P s s' \<longleftrightarrow>
     rs_DHs s' = rs_DHs s \<and> rs_DHr s' = rs_DHr s \<and> rs_RK s' = rs_RK s \<and> rs_CKs s' = rs_CKs s \<and>
     rs_Ns s' = rs_Ns s \<and> rs_PN s' = rs_PN s \<and> rs_SeenDH s' = rs_SeenDH s \<and>
     rs_Nr s \<le> rs_Nr s' \<and>
     rs_CKr s' = chain_key (KDFChain P) (rs_CKr s) (unat (rs_Nr s') - unat (rs_Nr s)) \<and>
     (\<forall>k. fmlookup (rs_MKSkipped s') k =
        (if rs_DHr s = Some (sk_PublicKey k) \<and> rs_Nr s \<le> sk_N k \<and> sk_N k < rs_Nr s'
         then Some (chain_msg (KDFChain P) (rs_CKr s) (unat (sk_N k) - unat (rs_Nr s)))
         else fmlookup (rs_MKSkipped s) k))"

lemma skips_refl [simp]: "skips P s s"
  by (auto simp: skips_def)

lemma skips_step:
  assumes "rs_DHr s = Some d" "rs_Nr s < until" "skips P (skip1 P d s) s'"
  shows "skips P s s'"
proof -
  have n1: "unat (rs_Nr s + 1) = Suc (unat (rs_Nr s))" using assms(2) by (rule unat_inc)
  have le: "Suc (unat (rs_Nr s)) \<le> unat (rs_Nr s')"
    using assms(3) n1 by (simp add: skips_def word_le_nat_alt)
  have ck: "rs_CKr s' = chain_key (KDFChain P) (rs_CKr s) (unat (rs_Nr s') - unat (rs_Nr s))"
    using assms(3) le by (simp add: skips_def n1 chain_key_step Suc_diff_Suc flip: chain_key.simps(2))
  have "fmlookup (rs_MKSkipped s') k =
        (if rs_DHr s = Some (sk_PublicKey k) \<and> rs_Nr s \<le> sk_N k \<and> sk_N k < rs_Nr s'
         then Some (chain_msg (KDFChain P) (rs_CKr s) (unat (sk_N k) - unat (rs_Nr s)))
         else fmlookup (rs_MKSkipped s) k)" for k
  proof (cases "k = SkippedKey d (rs_Nr s)")
    case True
    then show ?thesis using assms(1,3) n1 le
      by (simp add: skips_def chain_msg_0 word_le_nat_alt word_less_nat_alt)
  next
    case False
    moreover have "rs_Nr s + 1 \<le> sk_N k \<longleftrightarrow> rs_Nr s \<le> sk_N k \<and> rs_Nr s \<noteq> sk_N k"
      using n1 by (auto simp: word_le_nat_alt Suc_le_eq le_less word_unat_eq_iff)
    ultimately show ?thesis using assms(1,3) n1
      by (cases k) (auto simp: skips_def chain_msg_step word_le_nat_alt Suc_diff_Suc)
  qed
  with le ck show ?thesis
    using assms(3) by (simp add: skips_def word_le_nat_alt)
qed

lemma skipMessageKeys_skips:
  assumes "skipMessageKeys P until s = (r, s')"
  shows "skips P s s'"
proof -
  have "skips P s (snd (skipMessageKeys P until s))"
    by (rule skipMessageKeys_induct [where P = P]) (auto intro: skips_step)
  with assms show ?thesis by simp
qed

lemma skipMessageKeys_Nr:
  assumes "skipMessageKeys P until s = (Inr (), s')"
  shows "rs_Nr s' = max (rs_Nr s) until"
proof -
  have "fst (skipMessageKeys P until s) = Inr () \<longrightarrow>
      rs_Nr (snd (skipMessageKeys P until s)) = max (rs_Nr s) until"
  proof (rule skipMessageKeys_induct [where P = P])
    fix s dhr r
    assume "rs_Nr s < until" "fst r = Inr () \<longrightarrow> rs_Nr (snd r) = max (rs_Nr (skip1 P dhr s)) until"
    moreover have "rs_Nr s + 1 \<le> until"
      using calculation(1) by (simp add: word_le_nat_alt unat_inc word_less_nat_alt)
    ultimately show "fst r = Inr () \<longrightarrow> rs_Nr (snd r) = max (rs_Nr s) until"
      by (auto simp: max_def)
  qed (auto simp: max_def)
  with assms show ?thesis by simp
qed

lemma skipMessageKeys_size:
  assumes "skipMessageKeys P until s = (r, s')"
  shows "fm_size (rs_MKSkipped s') \<le> max MaxSkip (fm_size (rs_MKSkipped s))"
proof -
  have "fm_size (rs_MKSkipped (snd (skipMessageKeys P until s))) \<le> max MaxSkip (fm_size (rs_MKSkipped s))"
    by (rule skipMessageKeys_induct [where P = P]) (auto simp: fm_size_upd split: if_splits)
  with assms show ?thesis by simp
qed

text \<open>The loop succeeds when the number of keys to store fits under \<open>MaxSkip\<close>.\<close>

lemma skipMessageKeys_ok:
  assumes "rs_DHr s \<noteq> None"
    and "fm_size (rs_MKSkipped s) + (unat until - unat (rs_Nr s)) \<le> MaxSkip"
  shows "\<exists>s'. skipMessageKeys P until s = (Inr (), s')"
proof -
  have "rs_DHr s \<noteq> None \<and> fm_size (rs_MKSkipped s) + (unat until - unat (rs_Nr s)) \<le> MaxSkip \<longrightarrow>
      fst (skipMessageKeys P until s) = Inr ()"
  proof (rule skipMessageKeys_induct [where P = P])
    fix s e assume "rs_Nr s < until" "MaxSkip \<le> fm_size (rs_MKSkipped s) \<or> rs_DHr s = None"
    then show "rs_DHr s \<noteq> None \<and> fm_size (rs_MKSkipped s) + (unat until - unat (rs_Nr s)) \<le> MaxSkip \<longrightarrow>
        fst (Inl e, s) = Inr ()"
      using unat_mono [of "rs_Nr s" until] by auto
  qed (auto simp: unat_inc fm_size_upd word_less_nat_alt split: if_splits)
  with assms show ?thesis by (metis prod.collapse)
qed

section \<open>The receiving side as one transition\<close>

lemma DHRatchet_Inr:
  assumes "DHRatchet P rnd their s = (Inr (), s')"
  obtains dhs dh1 rk1 nw dh2 where
    "rs_DHs s = Some dhs" "DH P (kp_PrivateKey dhs) their = Inr dh1"
    "KDFRoot P (rs_RK s) dh1 = Inr (rk1, rs_CKr s')" "GenerateKeyPair P rnd = Inr nw"
    "DH P (kp_PrivateKey nw) their = Inr dh2" "KDFRoot P rk1 dh2 = Inr (rs_RK s', rs_CKs s')"
    "rs_DHs s' = Some nw" "rs_DHr s' = Some their" "rs_Ns s' = 0" "rs_Nr s' = 0" "rs_PN s' = rs_Ns s"
    "rs_MKSkipped s' = fmfilter (\<lambda>k. sk_PublicKey k = their) (rs_MKSkipped s)"
    "fset (rs_SeenDH s') = insert their (set_option (rs_DHr s) \<union> fset (rs_SeenDH s))"
  using assms
  by (auto simp: DHRatchet_def Let_def cleanupSkippedKeys_def split: option.splits prod.splits
      cong del: fmfilter_cong)

text \<open>
  A successful \<open>AdvanceForHeader\<close> either takes a stored key or reads the receiving chain, after a
  DH ratchet step when the header carries a new ratchet key.
\<close>

lemma AdvanceForHeader_Inr:
  assumes "AdvanceForHeader P rnd h s = (Inr mk, s')"
  obtains (stored) "fmlookup (rs_MKSkipped s) (skippedKeyForHeader h) = Some mk"
      "s' = s\<lparr>rs_MKSkipped := fmdrop (skippedKeyForHeader h) (rs_MKSkipped s)\<rparr>"
  | (same) s2 where "fmlookup (rs_MKSkipped s) (skippedKeyForHeader h) = None"
      "rs_DHr s = Some (h_DH h)" "rs_Nr s \<le> h_N h" "skips P s s2" "rs_Nr s2 = h_N h"
      "fm_size (rs_MKSkipped s2) \<le> max MaxSkip (fm_size (rs_MKSkipped s))"
      "rs_CKr s2 \<noteq> zero32" "h_N h \<noteq> MaxUint32" "mk = snd (KDFChain P (rs_CKr s2))"
      "s' = s2\<lparr>rs_CKr := fst (KDFChain P (rs_CKr s2)), rs_Nr := h_N h + 1\<rparr>"
  | (ratchet) s0 s1 s2 where "fmlookup (rs_MKSkipped s) (skippedKeyForHeader h) = None"
      "rs_DHr s \<noteq> Some (h_DH h)" "rs_DHr s \<noteq> None \<longrightarrow> h_DH h |\<notin>| rs_SeenDH s"
      "skipMessageKeys P (h_PN h) s = (Inr (), s0)" "DHRatchet P rnd (h_DH h) s0 = (Inr (), s1)"
      "skips P s1 s2" "rs_Nr s2 = h_N h"
      "fm_size (rs_MKSkipped s2) \<le> max MaxSkip (fm_size (rs_MKSkipped s1))"
      "rs_CKr s2 \<noteq> zero32" "h_N h \<noteq> MaxUint32" "mk = snd (KDFChain P (rs_CKr s2))"
      "s' = s2\<lparr>rs_CKr := fst (KDFChain P (rs_CKr s2)), rs_Nr := h_N h + 1\<rparr>"
proof (cases "fmlookup (rs_MKSkipped s) (skippedKeyForHeader h)")
  case (Some m)
  with assms show ?thesis by (intro stored) (simp_all add: AdvanceForHeader_def Let_def)
next
  case None
  show ?thesis
  proof (cases "rs_DHr s = Some (h_DH h)")
    case True
    with None assms obtain s2 where a: "rs_Nr s \<le> h_N h" "skipMessageKeys P (h_N h) s = (Inr (), s2)"
      "rs_CKr s2 \<noteq> zero32" "rs_Nr s2 \<noteq> MaxUint32" "mk = snd (KDFChain P (rs_CKr s2))"
      "s' = s2\<lparr>rs_CKr := fst (KDFChain P (rs_CKr s2)), rs_Nr := rs_Nr s2 + 1\<rparr>"
      by (auto simp: AdvanceForHeader_def Let_def not_less split: if_splits prod.splits)
    moreover have "rs_Nr s2 = h_N h"
      using skipMessageKeys_Nr [OF a(2)] a(1) by (simp add: max_def)
    ultimately show ?thesis
      using None True skipMessageKeys_skips [OF a(2)] skipMessageKeys_size [OF a(2)]
      by (intro same) simp_all
  next
    case False
    with None assms obtain s0 s1 s2 where a: "skipMessageKeys P (h_PN h) s = (Inr (), s0)"
      "DHRatchet P rnd (h_DH h) s0 = (Inr (), s1)" "rs_DHr s \<noteq> None \<longrightarrow> h_DH h |\<notin>| rs_SeenDH s"
      "skipMessageKeys P (h_N h) s1 = (Inr (), s2)"
      "rs_CKr s2 \<noteq> zero32" "rs_Nr s2 \<noteq> MaxUint32" "mk = snd (KDFChain P (rs_CKr s2))"
      "s' = s2\<lparr>rs_CKr := fst (KDFChain P (rs_CKr s2)), rs_Nr := rs_Nr s2 + 1\<rparr>"
      by (auto simp: AdvanceForHeader_def Let_def split: if_splits prod.splits)
    moreover have "rs_Nr s1 = 0" using a(2) by (rule DHRatchet_Inr)
    moreover have "rs_Nr s2 = h_N h" using skipMessageKeys_Nr [OF a(4)] calculation by (simp add: max_def)
    ultimately show ?thesis
      using None False skipMessageKeys_skips [OF a(4)] skipMessageKeys_size [OF a(4)]
      by (intro ratchet) simp_all
  qed
qed

lemma Decrypt_AdvanceForHeader:
  "Decrypt P rnd msg ad s =
     (case AdvanceForHeader P rnd (m_Header msg) (Clone s) of
        (Inl e, _) \<Rightarrow> (Inl e, s)
      | (Inr mk, s') \<Rightarrow>
          (case decryptWithMessageKey P mk msg ad of
             Inl e \<Rightarrow> (Inl e, s)
           | Inr p \<Rightarrow> (Inr p, s')))"
proof (cases "fmlookup (rs_MKSkipped s) (skippedKeyForHeader (m_Header msg))")
  case (Some mk)
  then show ?thesis
    by (simp add: Decrypt_def AdvanceForHeader_def Let_def bindS_def split: sum.splits)
next
  case None
  let ?h = "m_Header msg"
  obtain x0 s0 where s0: "skipMessageKeys P (h_PN ?h) s = (x0, s0)" by (cases "skipMessageKeys P (h_PN ?h) s")
  obtain x1 s1 where s1: "DHRatchet P rnd (h_DH ?h) s0 = (x1, s1)" by (cases "DHRatchet P rnd (h_DH ?h) s0")
  obtain x2 s2 where s2: "skipMessageKeys P (h_N ?h) s1 = (x2, s2)" by (cases "skipMessageKeys P (h_N ?h) s1")
  obtain x3 s3 where s3: "skipMessageKeys P (h_N ?h) s = (x3, s3)" by (cases "skipMessageKeys P (h_N ?h) s")
  show ?thesis
    by (cases "rs_DHr s = Some (h_DH ?h)"; cases "rs_DHr s"; cases x0; cases x1; cases x2; cases x3)
      (simp_all add: Decrypt_def AdvanceForHeader_def Let_def None s0 s1 s2 s3 split_beta split: sum.splits)
qed

end
