(* ===== verification/Ratchet_Safety.thy ===== *)
theory Ratchet_Safety
  imports Ratchet
begin

text \<open>
  What the Double Ratchet of \<^verbatim>\<open>Ratchet\<close> guarantees for one state: the invariant of the stored keys, that
  a used header stays used, that a receiver follows its peer's chain in any order of arrival, the
  sizes of the arrays, and the header format.  The last section states the properties and runs them
  on example states.
\<close>

section \<open>Invariants of the receiving side\<close>

text \<open>
  Stored keys belong to the current receiving chain and are older than its next message; the current
  remote key is one the state has seen; at most \<open>MaxSkip\<close> keys are stored.
\<close>

definition rcv_inv :: "State \<Rightarrow> bool" where
  "rcv_inv s \<longleftrightarrow>
     (\<forall>k. k |\<in>| fmdom (rs_MKSkipped s) \<longrightarrow> rs_DHr s = Some (sk_PublicKey k) \<and> sk_N k < rs_Nr s) \<and>
     set_option (rs_DHr s) \<subseteq> fset (rs_SeenDH s) \<and> fm_size (rs_MKSkipped s) \<le> MaxSkip"

text \<open>A header is used up when its key is neither stored nor ahead in the current chain.\<close>

definition consumed :: "Header \<Rightarrow> State \<Rightarrow> bool" where
  "consumed h s \<longleftrightarrow>
     skippedKeyForHeader h |\<notin>| fmdom (rs_MKSkipped s) \<and>
     (case rs_DHr s of None \<Rightarrow> False
      | Some r \<Rightarrow> if r = h_DH h then h_N h < rs_Nr s else h_DH h |\<in>| rs_SeenDH s)"

lemma consumed_duplicate:
  "consumed h s \<Longrightarrow> AdvanceForHeader P rnd h s = (Inl ErrDuplicateMessage, s)"
  by (auto simp: consumed_def AdvanceForHeader_def Let_def fmdom_notD split: option.splits if_splits)

lemma skips_consumed: "skips P s s' \<Longrightarrow> consumed h s \<Longrightarrow> consumed h s'"
  by (auto simp: skips_def consumed_def skippedKeyForHeader_def fmlookup_dom_iff split: option.splits if_splits)

lemma skips_rcv_inv: "skips P s s' \<Longrightarrow> fm_size (rs_MKSkipped s') \<le> max MaxSkip (fm_size (rs_MKSkipped s)) \<Longrightarrow> rcv_inv s \<Longrightarrow> rcv_inv s'"
  by (auto simp: skips_def rcv_inv_def fmlookup_dom_iff split: if_splits)

lemma commit_rcv_inv:
  "rcv_inv s \<Longrightarrow> rs_Nr s = n \<Longrightarrow> n \<noteq> MaxUint32 \<Longrightarrow> rcv_inv (s\<lparr>rs_CKr := ck, rs_Nr := n + 1\<rparr>)"
  by (auto simp: rcv_inv_def dest: less_inc [OF _ less_imp_le])

lemma DHRatchet_rcv_inv:
  assumes "DHRatchet P rnd their s = (Inr (), s')" "rcv_inv s" "rs_DHr s \<noteq> Some their"
  shows "rcv_inv s'"
  using assms(1)
proof (cases rule: DHRatchet_Inr)
  case (1 dhs dh1 rk1 nw dh2)
  then have "rs_MKSkipped s' = fmempty"
    using assms(2,3) by (auto simp: rcv_inv_def intro!: fmfilter_false dest: fmdomI)
  with 1 show ?thesis by (simp add: rcv_inv_def)
qed

lemma ratchet_rcv_inv:
  assumes "skipMessageKeys P n s = (Inr (), s0)" "DHRatchet P rnd d s0 = (Inr (), s1)"
    "rcv_inv s" "rs_DHr s \<noteq> Some d"
  shows "rcv_inv s1"
proof -
  have "skips P s s0" "rcv_inv s0"
    using assms skipMessageKeys_skips skipMessageKeys_size by (blast intro: skips_rcv_inv)+
  then show ?thesis using assms(2,4) by (auto simp: skips_def intro: DHRatchet_rcv_inv)
qed

lemma AdvanceForHeader_rcv_inv:
  assumes "AdvanceForHeader P rnd h s = (Inr mk, s')" "rcv_inv s"
  shows "rcv_inv s'"
  using assms(1)
proof (cases rule: AdvanceForHeader_Inr)
  case stored
  then show ?thesis using assms(2) fm_size_drop_le [of _ "rs_MKSkipped s"]
    by (auto simp: rcv_inv_def intro: le_trans)
next
  case (same s2)
  then have "rcv_inv s2" using assms(2) by (blast intro: skips_rcv_inv)
  with same show ?thesis by (simp add: commit_rcv_inv)
next
  case (ratchet s0 s1 s2)
  have "rcv_inv s1" using ratchet(4,5) assms(2) ratchet(2) by (rule ratchet_rcv_inv)
  then have "rcv_inv s2" using ratchet by (blast intro: skips_rcv_inv)
  with ratchet show ?thesis by (simp add: commit_rcv_inv)
qed

lemma AdvanceForHeader_consumed:
  assumes "AdvanceForHeader P rnd h s = (Inr mk, s')" "rcv_inv s"
  shows "consumed h s'"
  using assms(1)
proof (cases rule: AdvanceForHeader_Inr)
  case stored
  then have "skippedKeyForHeader h |\<in>| fmdom (rs_MKSkipped s)" by (simp add: fmdomI)
  with stored assms(2) show ?thesis by (auto simp: consumed_def rcv_inv_def skippedKeyForHeader_def)
next
  case (same s2)
  then have "skippedKeyForHeader h |\<notin>| fmdom (rs_MKSkipped s2)"
    by (auto simp: skips_def skippedKeyForHeader_def fmlookup_dom_iff)
  with same show ?thesis by (auto simp: consumed_def skips_def less_inc)
next
  case (ratchet s0 s1 s2)
  have dh: "rs_DHr s1 = Some (h_DH h)" using ratchet(5) by (rule DHRatchet_Inr)
  have "rcv_inv s1" using ratchet(4,5) assms(2) ratchet(2) by (rule ratchet_rcv_inv)
  then have "rcv_inv s2" using ratchet by (auto intro: skips_rcv_inv)
  then have "skippedKeyForHeader h |\<notin>| fmdom (rs_MKSkipped s2)"
    using ratchet by (auto simp: rcv_inv_def skippedKeyForHeader_def)
  with ratchet dh show ?thesis by (auto simp: consumed_def skips_def less_inc)
qed

lemma AdvanceForHeader_keeps_consumed:
  assumes "AdvanceForHeader P rnd h s = (Inr mk, s')" "consumed g s"
  shows "consumed g s'"
  using assms(1)
proof (cases rule: AdvanceForHeader_Inr)
  case stored
  then show ?thesis using assms(2) by (auto simp: consumed_def split: option.splits)
next
  case (same s2)
  then have "consumed g s2" using assms(2) by (auto intro: skips_consumed)
  with same show ?thesis
    by (auto simp: consumed_def less_inc less_imp_le split: option.splits if_splits)
next
  case (ratchet s0 s1 s2)
  have g0: "consumed g s0" using assms(2) ratchet skipMessageKeys_skips by (blast intro: skips_consumed)
  have fr: "rs_DHr s0 = rs_DHr s" "rs_SeenDH s0 = rs_SeenDH s"
    using skipMessageKeys_skips [OF ratchet(4)] by (simp_all add: skips_def)
  have "consumed g s1"
    using ratchet(5)
  proof (cases rule: DHRatchet_Inr)
    case (1 dhs dh1 rk1 nw dh2)
    then show ?thesis
      using g0 fr ratchet(2,3) by (auto simp: consumed_def split: option.splits if_splits)
  qed
  then have "consumed g s2" using ratchet by (auto intro: skips_consumed)
  with ratchet show ?thesis
    by (auto simp: consumed_def less_inc less_imp_le split: option.splits if_splits)
qed

section \<open>Sealing and opening one message\<close>

lemma DeriveMessageKeys_length:
  "DeriveMessageKeys P mk = (encKey, authKey, iv) \<Longrightarrow>
     length encKey = 32 \<and> length authKey = 32 \<and> length iv = 16"
  by (auto simp: DeriveMessageKeys_def DeriveMessageKeysWithSalt_def HKDF_def HKDFExpand_def
      hkdfMaxLength_def Let_def)

text \<open>The message that the sender builds from a message key and a header.\<close>

definition seal_message :: "'z prims_scheme \<Rightarrow> bytes \<Rightarrow> Header \<Rightarrow> bytes \<Rightarrow> bytes \<Rightarrow> Message" where
  "seal_message P mk h plaintext ad =
     (let (encKey, authKey, iv) = DeriveMessageKeys P mk in
      \<lparr>m_Header = h,
       m_Ciphertext = take 12 iv @ gcm_seal P encKey (take 12 iv) plaintext (messageAD ad h)\<rparr>)"

lemma m_Header_seal [simp]: "m_Header (seal_message P mk h p ad) = h"
  by (simp add: seal_message_def split_beta)

lemma decrypt_seal:
  assumes "prims_ok P"
  shows "decryptWithMessageKey P mk (seal_message P mk h p ad) ad = Inr p"
proof -
  obtain ek ak iv where d: "DeriveMessageKeys P mk = (ek, ak, iv)" by (cases "DeriveMessageKeys P mk")
  then have l: "length ek = 32" "length iv = 16" using DeriveMessageKeys_length by blast+
  then have "AESGCMEncryptWithNonce P ek p (take 12 iv) (messageAD ad h) =
      Inr (gcm_seal P ek (take 12 iv) p (messageAD ad h))"
    by (simp add: AESGCMEncryptWithNonce_def)
  from AESGCMDecrypt_seal [OF assms this] l show ?thesis
    by (simp add: decryptWithMessageKey_def seal_message_def d Let_def)
qed

lemma NextSendingMessageKey_Inr:
  assumes "NextSendingMessageKey P s = (Inr (h, mk), s')"
  obtains dhs where "rs_DHs s = Some dhs" "rs_CKs s \<noteq> zero32" "rs_Ns s \<noteq> MaxUint32"
    "h = \<lparr>h_DH = kp_PublicKey dhs, h_PN = rs_PN s, h_N = rs_Ns s\<rparr>"
    "mk = snd (KDFChain P (rs_CKs s))"
    "s' = s\<lparr>rs_CKs := fst (KDFChain P (rs_CKs s)), rs_Ns := rs_Ns s + 1\<rparr>"
  using assms by (auto simp: NextSendingMessageKey_def Let_def split: option.splits if_splits prod.splits)

lemma Encrypt_NextSendingMessageKey:
  "Encrypt P p ad s =
     (case NextSendingMessageKey P s of
        (Inl e, s') \<Rightarrow> (Inl e, s')
      | (Inr (h, mk), s') \<Rightarrow> (Inr (seal_message P mk h p ad), s'))"
proof -
  obtain ek ak iv where d: "DeriveMessageKeys P (snd (KDFChain P (rs_CKs s))) = (ek, ak, iv)"
    by (cases "DeriveMessageKeys P (snd (KDFChain P (rs_CKs s)))")
  then have "length ek = 32" "length iv = 16" using DeriveMessageKeys_length by blast+
  then show ?thesis
    by (simp add: Encrypt_def NextSendingMessageKey_def Let_def AESGCMEncryptWithNonce_def d
        seal_message_def split_beta split: option.splits)
qed

section \<open>Following a sending chain\<close>

text \<open>
  \<open>follows P ck dh D s\<close>: the receiver \<open>s\<close> follows the sending chain of ratchet key \<open>dh\<close> whose first
  chain key is \<open>ck\<close>, and has used the messages whose numbers are in \<open>D\<close>.
\<close>

definition follows :: "'z prims_scheme \<Rightarrow> bytes \<Rightarrow> bytes \<Rightarrow> u32 set \<Rightarrow> State \<Rightarrow> bool" where
  "follows P ck dh D s \<longleftrightarrow>
     rs_DHr s = Some dh \<and>
     rs_CKr s = chain_key (KDFChain P) ck (unat (rs_Nr s)) \<and>
     (\<forall>n \<in> D. n < rs_Nr s) \<and>
     (\<forall>k. fmlookup (rs_MKSkipped s) k =
        (if sk_PublicKey k = dh \<and> sk_N k < rs_Nr s \<and> sk_N k \<notin> D
         then Some (chain_msg (KDFChain P) ck (unat (sk_N k))) else None))"

lemma follows_size:
  assumes "follows P ck dh D s"
  shows "fm_size (rs_MKSkipped s) + card D = unat (rs_Nr s)"
proof -
  have "fset (fmdom (rs_MKSkipped s)) = SkippedKey dh ` ({..<rs_Nr s} - D)"
  proof (intro set_eqI iffI)
    fix k assume "k \<in> fset (fmdom (rs_MKSkipped s))"
    then show "k \<in> SkippedKey dh ` ({..<rs_Nr s} - D)"
      using assms by (cases k) (auto simp: follows_def fmlookup_dom_iff split: if_splits)
  next
    fix k assume "k \<in> SkippedKey dh ` ({..<rs_Nr s} - D)"
    then show "k \<in> fset (fmdom (rs_MKSkipped s))"
      using assms by (auto simp: follows_def fmlookup_dom_iff)
  qed
  then have "fm_size (rs_MKSkipped s) = card ({..<rs_Nr s} - D)"
    by (simp add: fm_size_def fcard.rep_eq card_image inj_on_def)
  moreover have "D \<subseteq> {..<rs_Nr s}" using assms by (auto simp: follows_def)
  ultimately have "fm_size (rs_MKSkipped s) + card D = card {..<rs_Nr s}"
    by (metis card_Diff_subset card_mono finite finite_subset le_add_diff_inverse2)
  then show ?thesis by (simp add: card_below)
qed

text \<open>
  Whatever the order of arrival: a message of the chain that has not been used and that is no more
  than \<open>MaxSkip\<close> messages into the chain is given its own key.
\<close>

lemma follows_deliver:
  assumes "follows P ck dh D s" "h_DH h = dh" "h_N h \<notin> D" "unat (h_N h) \<le> MaxSkip"
    and "rs_Nr s \<le> h_N h \<Longrightarrow> chain_key (KDFChain P) ck (unat (h_N h)) \<noteq> zero32"
  shows "isOk (fst (AdvanceForHeader P rnd h s))"
proof (cases "h_N h < rs_Nr s")
  case True
  then have "\<exists>mk. fmlookup (rs_MKSkipped s) (skippedKeyForHeader h) = Some mk"
    using assms(1,2,3) by (simp add: follows_def skippedKeyForHeader_def)
  then show ?thesis by (auto simp: AdvanceForHeader_def Let_def)
next
  case False
  then have le: "unat (rs_Nr s) \<le> unat (h_N h)" by (simp add: word_le_nat_alt not_less)
  then have "fm_size (rs_MKSkipped s) + (unat (h_N h) - unat (rs_Nr s)) \<le> MaxSkip"
    using follows_size [OF assms(1)] assms(4) by linarith
  moreover have "rs_DHr s \<noteq> None" using assms(1) by (simp add: follows_def)
  ultimately obtain s2 where s2: "skipMessageKeys P (h_N h) s = (Inr (), s2)"
    using skipMessageKeys_ok by blast
  have n2: "rs_Nr s2 = h_N h" using skipMessageKeys_Nr [OF s2] False by (auto simp: max_def)
  have "unat (h_N h) \<noteq> unat MaxUint32" using assms(4) by (simp add: MaxSkip_def unat_MaxUint32)
  then have "h_N h \<noteq> MaxUint32" by auto
  moreover have "rs_CKr s2 \<noteq> zero32"
    using skipMessageKeys_skips [OF s2] assms(1,5) le n2
    by (simp add: skips_def follows_def chain_key_add word_le_nat_alt)
  moreover have "fmlookup (rs_MKSkipped s) (skippedKeyForHeader h) = None"
    using assms(1,2) False by (simp add: follows_def skippedKeyForHeader_def)
  ultimately show ?thesis
    using False assms(1,2) s2 n2 by (simp add: AdvanceForHeader_def Let_def follows_def split_beta)
qed

text \<open>
  Whatever key is given out is the right one, no key is given out twice, and the sending side of the
  state is left alone.
\<close>

lemma follows_skips:
  assumes "follows P ck dh D s" "skips P s s'"
  shows "follows P ck dh D s'"
proof -
  have *: "rs_Nr s \<le> rs_Nr s'" using assms(2) by (simp add: skips_def)
  then show ?thesis
    using assms by (auto simp: follows_def skips_def chain_key_add chain_msg_add word_le_nat_alt
       word_less_nat_alt)
qed

lemma follows_commit:
  assumes "follows P ck dh D s" "rs_Nr s = n" "n \<noteq> MaxUint32"
  shows "follows P ck dh (insert n D) (s\<lparr>rs_CKr := fst (KDFChain P (rs_CKr s)), rs_Nr := n + 1\<rparr>)"
proof -
  have "unat (n + 1) = Suc (unat n)" using assms(3) by (rule unat_inc_Max)
  then show ?thesis using assms
    by (auto simp: follows_def less_inc_iff order.order_iff_strict)
qed

lemma follows_advance:
  assumes "follows P ck dh D s" "h_DH h = dh" "AdvanceForHeader P rnd h s = (Inr mk, s')"
  shows "mk = chain_msg (KDFChain P) ck (unat (h_N h)) \<and> h_N h \<notin> D \<and>
    follows P ck dh (insert (h_N h) D) s' \<and>
    rs_DHs s' = rs_DHs s \<and> rs_RK s' = rs_RK s \<and> rs_CKs s' = rs_CKs s \<and> rs_Ns s' = rs_Ns s \<and>
    rs_PN s' = rs_PN s \<and> rs_SeenDH s' = rs_SeenDH s"
  using assms(3)
proof (cases rule: AdvanceForHeader_Inr)
  case stored
  then show ?thesis using assms(1,2)
    by (auto simp: follows_def skippedKeyForHeader_def SkippedKey.expand split: if_splits)
next
  case (same s2)
  have "h_N h \<notin> D" using assms(1) same(3) by (auto simp: follows_def)
  moreover have f: "follows P ck dh D s2" using assms(1) same(4) by (rule follows_skips)
  moreover have "follows P ck dh (insert (h_N h) D) s'"
    unfolding same(10) using f same(5,8) by (rule follows_commit)
  ultimately show ?thesis
    using same by (auto simp: skips_def follows_def chain_msg_def)
next
  case ratchet
  then show ?thesis using assms(1,2) by (simp add: follows_def)
qed

text \<open>
  A header with another ratchet key: after the DH ratchet step the receiver follows the new chain.
\<close>

lemma follows_ratchet:
  assumes "follows P ckp xp D s" "h_DH h \<noteq> xp" "AdvanceForHeader P rnd h s = (Inr mk, s')"
  obtains s0 s1 where "skips P s s0" "DHRatchet P rnd (h_DH h) s0 = (Inr (), s1)"
    "follows P (rs_CKr s1) (h_DH h) {h_N h} s'"
    "mk = chain_msg (KDFChain P) (rs_CKr s1) (unat (h_N h))"
    "rs_DHs s' = rs_DHs s1" "rs_RK s' = rs_RK s1" "rs_CKs s' = rs_CKs s1" "rs_Ns s' = 0"
    "fset (rs_SeenDH s') = insert (h_DH h) (insert xp (fset (rs_SeenDH s)))"
  using assms(3)
proof (cases rule: AdvanceForHeader_Inr)
  case (ratchet s0 s1 s2)
  have sk: "skips P s s0" using ratchet(4) by (rule skipMessageKeys_skips)
  have old: "sk_PublicKey k \<noteq> xp \<Longrightarrow> fmlookup (rs_MKSkipped s0) k = None" for k
    using assms(1) sk by (simp add: follows_def skips_def)
  have xp: "rs_DHr s0 = Some xp" "rs_SeenDH s0 = rs_SeenDH s"
    using assms(1) sk by (simp_all add: follows_def skips_def)
  from ratchet(5) have s1: "follows P (rs_CKr s1) (h_DH h) {} s1 \<and> rs_Ns s1 = 0 \<and>
      fset (rs_SeenDH s1) = insert (h_DH h) (insert xp (fset (rs_SeenDH s)))"
  proof (cases rule: DHRatchet_Inr)
    case (1 dhs dh1 rk1 nw dh2)
    have "fmlookup (rs_MKSkipped s1) k = None" for k
      using assms(2) old [of k] by (simp add: 1(12))
    with 1 xp show ?thesis by (simp add: follows_def)
  qed
  then have "follows P (rs_CKr s1) (h_DH h) {} s2" using ratchet(6) by (blast intro: follows_skips)
  with ratchet have f: "follows P (rs_CKr s1) (h_DH h) {h_N h} s'"
    using follows_commit [of P "rs_CKr s1" "h_DH h" "{}" s2 "h_N h"] by simp
  have "mk = chain_msg (KDFChain P) (rs_CKr s1) (unat (h_N h))"
    using ratchet(6,7,11) s1 \<open>follows P (rs_CKr s1) (h_DH h) {} s2\<close> by (simp add: chain_msg_def follows_def)
  with f s1 sk ratchet show ?thesis by (intro that [of s0 s1]) (simp_all add: skips_def)
qed (use assms(1,2) in \<open>simp_all add: follows_def skippedKeyForHeader_def\<close>)

section \<open>Runs of one ratchet state\<close>

text \<open>
  What a session does with its ratchet state: it sends, it receives, and, for the wire format, it
  takes sending keys and commits an advanced copy.  \<open>AdvanceForHeader\<close> works in place, and its caller
  keeps the advanced state only when the message authenticates.
\<close>

inductive ratchet_step :: "'z prims_scheme \<Rightarrow> State \<Rightarrow> State \<Rightarrow> bool" for P where
  encrypt: "Encrypt P p ad s = (r, s') \<Longrightarrow> ratchet_step P s s'"
| decrypt: "Decrypt P rnd m ad s = (r, s') \<Longrightarrow> ratchet_step P s s'"
| sending_key: "NextSendingMessageKey P s = (r, s') \<Longrightarrow> ratchet_step P s s'"
| advance: "AdvanceForHeader P rnd h (Clone s) = (Inr mk, s') \<Longrightarrow> ratchet_step P s s'"

lemma Decrypt_Inr:
  assumes "Decrypt P rnd m ad s = (Inr q, s')"
  obtains mk where "AdvanceForHeader P rnd (m_Header m) s = (Inr mk, s')"
    "decryptWithMessageKey P mk m ad = Inr q"
proof -
  obtain r s1 where a: "AdvanceForHeader P rnd (m_Header m) s = (r, s1)"
    by (cases "AdvanceForHeader P rnd (m_Header m) s")
  then show thesis
    using assms by (intro that [of "projr r"]) (simp_all add: Decrypt_AdvanceForHeader split: sum.splits)
qed

lemma Decrypt_Inl: "Decrypt P rnd m ad s = (Inl e, s') \<Longrightarrow> s' = s"
  by (cases "AdvanceForHeader P rnd (m_Header m) s")
    (simp add: Decrypt_AdvanceForHeader split: sum.splits)

lemma NextSendingMessageKey_frame:
  "NextSendingMessageKey P s = (r, s') \<Longrightarrow> s' = s \<or> (\<exists>ck n. s' = s\<lparr>rs_CKs := ck, rs_Ns := n\<rparr>)"
  by (auto simp: NextSendingMessageKey_def Let_def split: option.splits if_splits prod.splits)

text \<open>A step either sends, advances for a header, or leaves the state as it is.\<close>

lemma ratchet_step_kinds:
  assumes "ratchet_step P s s'"
  obtains (send) ck n where "s' = s\<lparr>rs_CKs := ck, rs_Ns := n\<rparr>"
  | (recv) rnd h mk where "AdvanceForHeader P rnd h s = (Inr mk, s')"
  | (none) "s' = s"
  using assms
proof cases
  case (encrypt p ad r)
  obtain r1 s1 where n: "NextSendingMessageKey P s = (r1, s1)" by (cases "NextSendingMessageKey P s")
  then have "s' = s1" using encrypt by (auto simp: Encrypt_NextSendingMessageKey split: sum.splits)
  then show ?thesis using NextSendingMessageKey_frame [OF n] send none by blast
next
  case (decrypt rnd m ad r)
  then show ?thesis by (cases r) (auto dest: Decrypt_Inl intro: none elim: Decrypt_Inr recv)
next
  case (sending_key r)
  then show ?thesis using NextSendingMessageKey_frame send none by blast
next
  case (advance rnd h mk)
  then show ?thesis by (intro recv) simp
qed

lemma ratchet_step_rcv_inv: "ratchet_step P s s' \<Longrightarrow> rcv_inv s \<Longrightarrow> rcv_inv s'"
  by (erule ratchet_step_kinds) (simp add: rcv_inv_def, auto intro: AdvanceForHeader_rcv_inv)

lemma ratchet_step_consumed: "ratchet_step P s s' \<Longrightarrow> consumed h s \<Longrightarrow> consumed h s'"
  by (erule ratchet_step_kinds)
    (simp add: consumed_def split: option.splits, auto intro: AdvanceForHeader_keeps_consumed)

lemma ratchet_steps_rcv_inv: "(ratchet_step P)\<^sup>*\<^sup>* s s' \<Longrightarrow> rcv_inv s \<Longrightarrow> rcv_inv s'"
  by (induction rule: rtranclp_induct) (auto intro: ratchet_step_rcv_inv)

lemma ratchet_steps_consumed: "(ratchet_step P)\<^sup>*\<^sup>* s s' \<Longrightarrow> consumed h s \<Longrightarrow> consumed h s'"
  by (induction rule: rtranclp_induct) (auto intro: ratchet_step_consumed)

section \<open>Well-formed states\<close>

text \<open>The sizes of the Go arrays in the state.\<close>

definition state_ok :: "State \<Rightarrow> bool" where
  "state_ok s \<longleftrightarrow>
     (\<forall>kp \<in> set_option (rs_DHs s). kp_ok kp) \<and> (\<forall>r \<in> set_option (rs_DHr s). length r = 32) \<and>
     length (rs_RK s) = 32 \<and> length (rs_CKs s) = 32 \<and> length (rs_CKr s) = 32 \<and>
     (\<forall>k mk. fmlookup (rs_MKSkipped s) k = Some mk \<longrightarrow> length (sk_PublicKey k) = 32 \<and> length mk = 32) \<and>
     (\<forall>r. r |\<in>| rs_SeenDH s \<longrightarrow> length r = 32)"

lemma length_KDFChain [simp]: "length (fst (KDFChain P ck)) = 32" "length (snd (KDFChain P ck)) = 32"
  by (simp_all add: KDFChain_def)

lemma KDFRoot_length: "KDFRoot P rk dh = Inr (r, c) \<Longrightarrow> length r = 32 \<and> length c = 32"
  by (auto simp: KDFRoot_def)

lemma length_chain_msg [simp]: "length (chain_msg (KDFChain P) ck n) = 32"
  by (simp add: chain_msg_def)

lemma length_chain_key: "length ck = 32 \<Longrightarrow> length (chain_key (KDFChain P) ck n) = 32"
  by (cases n) simp_all

lemma skips_state_ok: "skips P s s' \<Longrightarrow> state_ok s \<Longrightarrow> state_ok s'"
  by (auto simp: skips_def state_ok_def length_chain_key split: if_splits)

lemma DHRatchet_state_ok:
  assumes "DHRatchet P rnd their s = (Inr (), s')" "state_ok s" "length their = 32"
  shows "state_ok s'"
  using assms(1)
proof (cases rule: DHRatchet_Inr)
  case (1 dhs dh1 rk1 nw dh2)
  then show ?thesis
    using assms(2,3) GenerateKeyPair_ok [OF 1(4)] KDFRoot_length [OF 1(3)] KDFRoot_length [OF 1(6)]
    by (auto simp: state_ok_def)
qed

lemma AdvanceForHeader_state_ok:
  assumes "AdvanceForHeader P rnd h s = (Inr mk, s')" "state_ok s" "length (h_DH h) = 32"
  shows "state_ok s'"
  using assms(1)
proof (cases rule: AdvanceForHeader_Inr)
  case stored
  then show ?thesis using assms(2) by (auto simp: state_ok_def)
next
  case (same s2)
  then show ?thesis using skips_state_ok [OF same(4) assms(2)] by (simp add: state_ok_def)
next
  case (ratchet s0 s1 s2)
  have "state_ok s0" using skipMessageKeys_skips [OF ratchet(4)] assms(2) by (rule skips_state_ok)
  then have "state_ok s1" using ratchet(5) assms(3) by (blast intro: DHRatchet_state_ok)
  then show ?thesis using skips_state_ok [OF ratchet(6)] ratchet(12) by (simp add: state_ok_def)
qed

lemma Encrypt_state_ok: "Encrypt P p ad s = (r, s') \<Longrightarrow> state_ok s \<Longrightarrow> state_ok s'"
  by (auto simp: Encrypt_NextSendingMessageKey NextSendingMessageKey_def KDFChain_def state_ok_def Let_def
      split: option.splits if_splits)

section \<open>Header round trip\<close>

lemma Header_roundtrip: "length (h_DH h) = 32 \<Longrightarrow> DeserializeHeader (Header_Serialize h) = Inr h"
  using get_put_u32 [of "h_N h" "[]"] by (simp add: DeserializeHeader_def Header_Serialize_def codec)

lemma DeserializeHeader_length: "DeserializeHeader data = Inr h \<Longrightarrow> length (h_DH h) = 32"
  by (auto simp: DeserializeHeader_def split: if_splits)

lemma Header_unique: "DeserializeHeader data = Inr h \<Longrightarrow> Header_Serialize h = data"
  using take_drop_glue [of 4 32 data]
  by (auto simp: DeserializeHeader_def Header_Serialize_def put_get_u32 split: if_splits)

section \<open>Example states\<close>

text \<open>
  Two states over the concrete primitives.  \<open>ex_alice\<close> sends with a key that \<open>ex_bob\<close> has not seen;
  \<open>ex_bob_cur\<close> already follows her chain.
\<close>

definition ex_kp :: "byte \<Rightarrow> KeyPair" where
  "ex_kp b = \<lparr>kp_PublicKey = (b + 9) # replicate 30 b @ [1], kp_PrivateKey = replicate 32 b\<rparr>"

definition ex_alice :: State where
  "ex_alice = \<lparr>rs_DHs = Some (ex_kp 3), rs_DHr = Some (kp_PublicKey (ex_kp 5)), rs_RK = replicate 32 1,
     rs_CKs = replicate 32 7, rs_CKr = replicate 32 8, rs_Ns = 0, rs_Nr = 0, rs_PN = 0,
     rs_MKSkipped = fmempty, rs_SeenDH = {|kp_PublicKey (ex_kp 5)|}\<rparr>"

definition ex_bob_cur :: State where
  "ex_bob_cur = \<lparr>rs_DHs = Some (ex_kp 5), rs_DHr = Some (kp_PublicKey (ex_kp 3)), rs_RK = replicate 32 1,
     rs_CKs = replicate 32 8, rs_CKr = replicate 32 7, rs_Ns = 0, rs_Nr = 0, rs_PN = 0,
     rs_MKSkipped = fmempty, rs_SeenDH = {|kp_PublicKey (ex_kp 3)|}\<rparr>"

definition ex_header :: "u32 \<Rightarrow> Header" where
  "ex_header n = \<lparr>h_DH = kp_PublicKey (ex_kp 3), h_PN = 0, h_N = n\<rparr>"

text \<open>Message \<open>n\<close> of the chain on which \<open>ex_alice\<close> sends.\<close>

definition ex_msg :: "u32 \<Rightarrow> bytes \<Rightarrow> Message" where
  "ex_msg n p = seal_message toy (chain_msg (KDFChain toy) (replicate 32 7) (unat n)) (ex_header n) p []"

lemma ex_follows: "follows toy (replicate 32 7) (kp_PublicKey (ex_kp 3)) {} ex_bob_cur"
  by (simp add: follows_def ex_bob_cur_def)

lemma ex_rcv_inv: "rcv_inv ex_bob_cur"
  by (simp add: rcv_inv_def ex_bob_cur_def)

lemma chain_key_nonzero: "chain_key (KDFChain toy) (replicate 32 7) n \<noteq> zero32"
proof (cases n)
  case (Suc m)
  then show ?thesis by (simp add: KDFChain_def HMAC256_def toy_def zero32_def numeral_eq_Suc arr_def)
qed (simp add: zero32_def)

section \<open>Properties\<close>

text \<open>
  C7: No message is accepted twice.  Once a message has been decrypted, a message with the same
  header is rejected as a duplicate in every later state, whatever was sent and received in between,
  and the rejection changes nothing.
\<close>

theorem Decrypt_no_replay:
  assumes "rcv_inv s" "Decrypt P rnd msg ad s = (Inr p, s1)" "(ratchet_step P)\<^sup>*\<^sup>* s1 s2"
    and "m_Header msg' = m_Header msg"
  shows "Decrypt P rnd' msg' ad' s2 = (Inl ErrDuplicateMessage, s2)"
proof -
  obtain mk where "AdvanceForHeader P rnd (m_Header msg) s = (Inr mk, s1)"
    using assms(2) by (rule Decrypt_Inr)
  then have "consumed (m_Header msg) s1" using assms(1) by (rule AdvanceForHeader_consumed)
  then have "consumed (m_Header msg) s2" using assms(3) by (blast intro: ratchet_steps_consumed)
  then show ?thesis by (simp add: Decrypt_AdvanceForHeader consumed_duplicate assms(4))
qed

lemma ex_Decrypt:
  assumes "unat n \<le> MaxSkip"
  shows "\<exists>s'. Decrypt toy rnd (ex_msg n p) [] ex_bob_cur = (Inr p, s')"
proof -
  have "isOk (fst (AdvanceForHeader toy rnd (ex_header n) ex_bob_cur))"
    using ex_follows assms by (intro follows_deliver) (auto simp: ex_header_def chain_key_nonzero)
  then obtain mk s' where a: "AdvanceForHeader toy rnd (ex_header n) ex_bob_cur = (Inr mk, s')"
    by (metis isOk.elims(2) prod.collapse)
  then have "mk = chain_msg (KDFChain toy) (replicate 32 7) (unat n)"
    using follows_advance [OF ex_follows _ a] by (simp add: ex_header_def)
  with a show ?thesis
    by (simp add: Decrypt_AdvanceForHeader ex_msg_def decrypt_seal [OF toy_prims_ok])
qed

theorem Decrypt_no_replay_witness:
  "\<exists>s1. Decrypt toy (Inl ErrRandom) (ex_msg 2 [1, 2, 3]) [] ex_bob_cur = (Inr [1, 2, 3], s1) \<and>
     Decrypt toy (Inl ErrRandom) (ex_msg 2 [1, 2, 3]) [] s1 = (Inl ErrDuplicateMessage, s1)"
proof -
  have "unat (2 :: u32) \<le> MaxSkip" by (simp add: MaxSkip_def)
  then obtain s1 where "Decrypt toy (Inl ErrRandom) (ex_msg 2 [1, 2, 3]) [] ex_bob_cur = (Inr [1, 2, 3], s1)"
    using ex_Decrypt by blast
  moreover from Decrypt_no_replay [OF ex_rcv_inv this rtranclp.rtrancl_refl refl]
  have "Decrypt toy (Inl ErrRandom) (ex_msg 2 [1, 2, 3]) [] s1 = (Inl ErrDuplicateMessage, s1)" .
  ultimately show ?thesis by blast
qed

text \<open>
  C10: Out-of-order delivery.  A receiver that follows a sending chain gives a message of the chain
  that it has not used before, and that is at most \<open>MaxSkip\<close> messages into the chain, back as the
  plaintext the sender put in, whatever has arrived in whatever order before.
\<close>

theorem Decrypt_out_of_order:
  assumes "prims_ok P" "follows P ck dh D s" "h_DH h = dh" "h_N h \<notin> D" "unat (h_N h) \<le> MaxSkip"
    and "chain_key (KDFChain P) ck (unat (h_N h)) \<noteq> zero32"
  shows "\<exists>s'. Decrypt P rnd (seal_message P (chain_msg (KDFChain P) ck (unat (h_N h))) h p ad) ad s = (Inr p, s')
     \<and> follows P ck dh (insert (h_N h) D) s'"
proof -
  have "isOk (fst (AdvanceForHeader P rnd h s))"
    using assms(2-5) by (rule follows_deliver) (rule assms(6))
  then obtain mk s' where a: "AdvanceForHeader P rnd h s = (Inr mk, s')"
    by (metis isOk.elims(2) prod.collapse)
  then show ?thesis using follows_advance [OF assms(2,3) a]
    by (simp add: Decrypt_AdvanceForHeader decrypt_seal [OF assms(1)])
qed

theorem Decrypt_out_of_order_witness:
  "\<exists>s1 s2. Decrypt toy (Inl ErrRandom) (ex_msg 5 [1, 2, 3]) [] ex_bob_cur = (Inr [1, 2, 3], s1) \<and>
     Decrypt toy (Inl ErrRandom) (ex_msg 3 [4, 5]) [] s1 = (Inr [4, 5], s2)"
proof -
  obtain s1 where s1: "Decrypt toy (Inl ErrRandom) (ex_msg 5 [1, 2, 3]) [] ex_bob_cur = (Inr [1, 2, 3], s1)"
    "follows toy (replicate 32 7) (kp_PublicKey (ex_kp 3)) {5} s1"
    using Decrypt_out_of_order [OF toy_prims_ok ex_follows, of "ex_header 5" "Inl ErrRandom" "[1, 2, 3]" "[]"]
    by (auto simp: ex_header_def ex_msg_def MaxSkip_def chain_key_nonzero)
  obtain s2 where "Decrypt toy (Inl ErrRandom) (ex_msg 3 [4, 5]) [] s1 = (Inr [4, 5], s2)"
    using Decrypt_out_of_order [OF toy_prims_ok s1(2), of "ex_header 3" "Inl ErrRandom" "[4, 5]" "[]"]
    by (auto simp: ex_header_def ex_msg_def MaxSkip_def chain_key_nonzero)
  with s1 show ?thesis by blast
qed

text \<open>
  C12: \<open>Decrypt\<close> is \<open>AdvanceForHeader\<close> on a copy of the state, then the authenticated decryption, then
  the commit: the two copies of the receiving logic in the program agree.
\<close>

theorem Decrypt_is_AdvanceForHeader:
  "Decrypt P rnd msg ad s =
     (case AdvanceForHeader P rnd (m_Header msg) (Clone s) of
        (Inl e, _) \<Rightarrow> (Inl e, s)
      | (Inr mk, s') \<Rightarrow>
          (case decryptWithMessageKey P mk msg ad of
             Inl e \<Rightarrow> (Inl e, s)
           | Inr p \<Rightarrow> (Inr p, s')))"
  by (rule Decrypt_AdvanceForHeader)

text \<open>
  C17: Headers.  A byte string decodes to a header exactly when it is the encoding of that header, so
  the encoding is injective and the decoder accepts nothing else.
\<close>

theorem DeserializeHeader_iff:
  "DeserializeHeader data = Inr h \<longleftrightarrow> length (h_DH h) = 32 \<and> data = Header_Serialize h"
  by (metis Header_roundtrip Header_unique DeserializeHeader_length)

end
