(* ===== verification/Ratchet_Heap.thy ===== *)
theory Ratchet_Heap
  imports Ratchet_Safety
begin

text \<open>
  The receiving side of \<^verbatim>\<open>ratchet/\<close> once more, with Go's references.  \<^verbatim>\<open>MKSkipped\<close> and \<^verbatim>\<open>SeenDH\<close> are
  maps, which Go passes by reference: a copy \<^verbatim>\<open>*s\<close> of a state shares them, and \<open>skipMessageKeys\<close>,
  \<open>cleanupSkippedKeys\<close> and \<open>DHRatchet\<close> write them in place.  Here a state is an object of a heap whose
  map fields are addresses, or \<open>None\<close> for a nil map, and \<open>Decrypt\<close> works on the clone before it copies
  the clone over the receiver.  The theory \<^verbatim>\<open>Ratchet\<close> has the same functions on values; the refinement
  proved here says that the two agree, which holds because \<^verbatim>\<open>Clone\<close> copies the maps.  The pointers
  \<^verbatim>\<open>DHs\<close> and \<^verbatim>\<open>DHr\<close> are kept as values: the package only ever replaces them and never writes through
  them.
\<close>

section \<open>The heap\<close>

record StateObj =
  so_DHs :: "KeyPair option"
  so_DHr :: "bytes option"
  so_RK :: bytes
  so_CKs :: bytes
  so_CKr :: bytes
  so_Ns :: u32
  so_Nr :: u32
  so_PN :: u32
  so_MKSkipped :: "nat option"
  so_SeenDH :: "nat option"

text \<open>Addresses from \<open>hp_next\<close> on are free.\<close>

record Heap =
  hp_states :: "nat \<Rightarrow> StateObj"
  hp_skipped :: "nat \<Rightarrow> (SkippedKey, bytes) fmap"
  hp_seen :: "nat \<Rightarrow> bytes fset"
  hp_next :: nat

definition new_state :: "StateObj \<Rightarrow> Heap \<Rightarrow> nat \<times> Heap" where
  "new_state x h = (hp_next h, h\<lparr>hp_states := (hp_states h)(hp_next h := x), hp_next := hp_next h + 1\<rparr>)"

definition new_skipped :: "(SkippedKey, bytes) fmap \<Rightarrow> Heap \<Rightarrow> nat \<times> Heap" where
  "new_skipped x h = (hp_next h, h\<lparr>hp_skipped := (hp_skipped h)(hp_next h := x), hp_next := hp_next h + 1\<rparr>)"

definition new_seen :: "bytes fset \<Rightarrow> Heap \<Rightarrow> nat \<times> Heap" where
  "new_seen x h = (hp_next h, h\<lparr>hp_seen := (hp_seen h)(hp_next h := x), hp_next := hp_next h + 1\<rparr>)"

text \<open>Assignment to fields of the object \<open>s\<close>.\<close>

definition upd :: "nat \<Rightarrow> (StateObj \<Rightarrow> StateObj) \<Rightarrow> Heap \<Rightarrow> Heap" where
  "upd s f h = h\<lparr>hp_states := (hp_states h)(s := f (hp_states h s))\<rparr>"

text \<open>
  Reading a nil map finds nothing, deleting from it does nothing, and assigning to an entry of it
  panics.
\<close>

definition skipped_at :: "Heap \<Rightarrow> nat option \<Rightarrow> (SkippedKey, bytes) fmap" where
  "skipped_at h r = (case r of None \<Rightarrow> fmempty | Some m \<Rightarrow> hp_skipped h m)"

definition seen_at :: "Heap \<Rightarrow> nat option \<Rightarrow> bytes fset" where
  "seen_at h r = (case r of None \<Rightarrow> {||} | Some d \<Rightarrow> hp_seen h d)"

definition nil_map_panic :: err where
  "nil_map_panic = ErrText ''panic: assignment to entry in nil map''"

definition put_skipped :: "nat option \<Rightarrow> SkippedKey \<Rightarrow> bytes \<Rightarrow> Heap \<Rightarrow> unit res \<times> Heap" where
  "put_skipped r k mk h =
     (case r of
        None \<Rightarrow> (Inl nil_map_panic, h)
      | Some m \<Rightarrow> (Inr (), h\<lparr>hp_skipped := (hp_skipped h)(m := fmupd k mk (hp_skipped h m))\<rparr>))"

definition delete_skipped :: "nat option \<Rightarrow> (SkippedKey \<Rightarrow> bool) \<Rightarrow> Heap \<Rightarrow> Heap" where
  "delete_skipped r gone h =
     (case r of
        None \<Rightarrow> h
      | Some m \<Rightarrow> h\<lparr>hp_skipped := (hp_skipped h)(m := fmfilter (\<lambda>k. \<not> gone k) (hp_skipped h m))\<rparr>)"

definition put_seen :: "nat option \<Rightarrow> bytes \<Rightarrow> Heap \<Rightarrow> unit res \<times> Heap" where
  "put_seen r x h =
     (case r of
        None \<Rightarrow> (Inl nil_map_panic, h)
      | Some d \<Rightarrow> (Inr (), h\<lparr>hp_seen := (hp_seen h)(d := finsert x (hp_seen h d))\<rparr>))"

section \<open>The operations on the heap\<close>

text \<open>\<^verbatim>\<open>(*State).Clone\<close>: the address of the clone, whose two maps are new.\<close>

definition heap_Clone :: "nat \<Rightarrow> Heap \<Rightarrow> nat \<times> Heap" where
  "heap_Clone s h =
     (let (clone, h) = new_state (hp_states h s) h;
          (m, h) = new_skipped (skipped_at h (so_MKSkipped (hp_states h s))) h;
          h = upd clone (\<lambda>x. x\<lparr>so_MKSkipped := Some m\<rparr>) h;
          (d, h) = new_seen (seen_at h (so_SeenDH (hp_states h s))) h
      in (clone, upd clone (\<lambda>x. x\<lparr>so_SeenDH := Some d\<rparr>) h))"

definition heap_cleanupSkippedKeys :: "bytes \<Rightarrow> nat \<Rightarrow> Heap \<Rightarrow> Heap" where
  "heap_cleanupSkippedKeys currentDH s h =
     delete_skipped (so_MKSkipped (hp_states h s)) (\<lambda>k. sk_PublicKey k \<noteq> currentDH) h"

definition heap_DHRatchet ::
    "'z prims_scheme \<Rightarrow> bytes res \<Rightarrow> bytes \<Rightarrow> nat \<Rightarrow> Heap \<Rightarrow> unit res \<times> Heap" where
  "heap_DHRatchet P rnd theirPublicKey s h =
     (case so_DHs (hp_states h s) of
        None \<Rightarrow> (Inl (ErrText ''dh ratchet: missing local dh key''), h)
      | Some dhs \<Rightarrow>
          let h = (if so_SeenDH (hp_states h s) = None
                   then let (d, h) = new_seen {||} h in upd s (\<lambda>x. x\<lparr>so_SeenDH := Some d\<rparr>) h
                   else h)
          in bindS (case so_DHr (hp_states h s) of
                      None \<Rightarrow> (Inr (), h)
                    | Some dhr \<Rightarrow> put_seen (so_SeenDH (hp_states h s)) dhr h) (\<lambda>_ h.
             bindS (put_seen (so_SeenDH (hp_states h s)) theirPublicKey h) (\<lambda>_ h.
             bindS (DH P (kp_PrivateKey dhs) theirPublicKey,
                    upd s (\<lambda>x. x\<lparr>so_PN := so_Ns x, so_Ns := 0, so_Nr := 0\<rparr>) h) (\<lambda>dhOut h.
             bindS (KDFRoot P (so_RK (hp_states h s)) dhOut, h) (\<lambda>(newRoot, newCKr) h.
             bindS (GenerateKeyPair P rnd, upd s (\<lambda>x. x\<lparr>so_RK := newRoot, so_CKr := newCKr\<rparr>) h) (\<lambda>newDH h.
             bindS (DH P (kp_PrivateKey newDH) theirPublicKey, upd s (\<lambda>x. x\<lparr>so_DHs := Some newDH\<rparr>) h) (\<lambda>dhOutSend h.
             bindS (KDFRoot P (so_RK (hp_states h s)) dhOutSend, h) (\<lambda>(newRoot, newCKs) h.
               let h = upd s (\<lambda>x. x\<lparr>so_RK := newRoot, so_CKs := newCKs, so_DHr := Some theirPublicKey\<rparr>) h;
                   h = (if so_MKSkipped (hp_states h s) = None
                        then let (m, h) = new_skipped fmempty h in upd s (\<lambda>x. x\<lparr>so_MKSkipped := Some m\<rparr>) h
                        else h)
               in (Inr (), heap_cleanupSkippedKeys theirPublicKey s h)))))))))"

function heap_skipMessageKeys :: "'z prims_scheme \<Rightarrow> u32 \<Rightarrow> nat \<Rightarrow> Heap \<Rightarrow> unit res \<times> Heap" where
  "heap_skipMessageKeys P until s h =
     (if so_Nr (hp_states h s) < until then
        if so_Nr (hp_states h s) = MaxUint32 then (Inl ErrCounterOverflow, h)
        else if fm_size (skipped_at h (so_MKSkipped (hp_states h s))) \<ge> MaxSkip then (Inl ErrMaxSkipExceeded, h)
        else case so_DHr (hp_states h s) of
               None \<Rightarrow> (Inl (ErrText ''ratchet: missing DHr while skipping''), h)
             | Some dhr \<Rightarrow>
                 let (newCKr, mk) = KDFChain P (so_CKr (hp_states h s));
                     h = upd s (\<lambda>x. x\<lparr>so_CKr := newCKr\<rparr>) h;
                     key = SkippedKey dhr (so_Nr (hp_states h s))
                 in case put_skipped (so_MKSkipped (hp_states h s)) key mk h of
                      (Inl e, h) \<Rightarrow> (Inl e, h)
                    | (Inr _, h) \<Rightarrow> heap_skipMessageKeys P until s (upd s (\<lambda>x. x\<lparr>so_Nr := so_Nr x + 1\<rparr>) h)
      else (Inr (), h))"
  by pat_completeness auto
termination
proof (relation "measure (\<lambda>(P, until, s, h). unat until - unat (so_Nr (hp_states h s)))", goal_cases)
  case 1
  show ?case by simp
next
  case (2 P until s h)
  then show ?case using unat_mono [of "so_Nr (hp_states h s)" until]
    by (auto simp: unat_inc [of _ until] upd_def put_skipped_def split: option.splits)
qed

declare heap_skipMessageKeys.simps [simp del]

definition heap_Decrypt ::
    "'z prims_scheme \<Rightarrow> bytes res \<Rightarrow> Message \<Rightarrow> bytes \<Rightarrow> nat \<Rightarrow> Heap \<Rightarrow> bytes res \<times> Heap" where
  "heap_Decrypt P rnd msg associatedData s h =
     (let header = m_Header msg; key = skippedKeyForHeader header in
      case fmlookup (skipped_at h (so_MKSkipped (hp_states h s))) key of
        Some mk \<Rightarrow>
          bindS (decryptWithMessageKey P mk msg associatedData, h) (\<lambda>plaintext h.
            (Inr plaintext, delete_skipped (so_MKSkipped (hp_states h s)) (\<lambda>k. k = key) h))
      | None \<Rightarrow>
          let (nxt, h) = heap_Clone s h in
          if so_DHr (hp_states h nxt) = Some (h_DH header) \<and> h_N header < so_Nr (hp_states h nxt)
          then (Inl ErrDuplicateMessage, h)
          else if so_DHr (hp_states h nxt) \<noteq> None \<and> so_DHr (hp_states h nxt) \<noteq> Some (h_DH header)
                  \<and> h_DH header |\<in>| seen_at h (so_SeenDH (hp_states h nxt))
          then (Inl ErrDuplicateMessage, h)
          else
            bindS (if so_DHr (hp_states h nxt) \<noteq> Some (h_DH header)
                   then bindS (heap_skipMessageKeys P (h_PN header) nxt h) (\<lambda>_ h.
                        heap_DHRatchet P rnd (h_DH header) nxt h)
                   else (Inr (), h)) (\<lambda>_ h.
            bindS (heap_skipMessageKeys P (h_N header) nxt h) (\<lambda>_ h.
            if so_CKr (hp_states h nxt) = zero32 then (Inl (ErrText ''decrypt: missing receiving chain key''), h)
            else if so_Nr (hp_states h nxt) = MaxUint32 then (Inl ErrCounterOverflow, h)
            else let (newCKr, mk) = KDFChain P (so_CKr (hp_states h nxt));
                     h = upd nxt (\<lambda>x. x\<lparr>so_CKr := newCKr, so_Nr := so_Nr x + 1\<rparr>) h
                 in bindS (decryptWithMessageKey P mk msg associatedData, h) (\<lambda>plaintext h.
                    (Inr plaintext, upd s (\<lambda>_. hp_states h nxt) h)))))"

definition heap_AdvanceForHeader ::
    "'z prims_scheme \<Rightarrow> bytes res \<Rightarrow> Header \<Rightarrow> nat \<Rightarrow> Heap \<Rightarrow> bytes res \<times> Heap" where
  "heap_AdvanceForHeader P rnd header s h =
     (let key = skippedKeyForHeader header in
      case fmlookup (skipped_at h (so_MKSkipped (hp_states h s))) key of
        Some mk \<Rightarrow> (Inr mk, delete_skipped (so_MKSkipped (hp_states h s)) (\<lambda>k. k = key) h)
      | None \<Rightarrow>
          if so_DHr (hp_states h s) = Some (h_DH header) \<and> h_N header < so_Nr (hp_states h s)
          then (Inl ErrDuplicateMessage, h)
          else if so_DHr (hp_states h s) \<noteq> None \<and> so_DHr (hp_states h s) \<noteq> Some (h_DH header)
                  \<and> h_DH header |\<in>| seen_at h (so_SeenDH (hp_states h s))
          then (Inl ErrDuplicateMessage, h)
          else
            bindS (if so_DHr (hp_states h s) \<noteq> Some (h_DH header)
                   then bindS (heap_skipMessageKeys P (h_PN header) s h) (\<lambda>_ h.
                        heap_DHRatchet P rnd (h_DH header) s h)
                   else (Inr (), h)) (\<lambda>_ h.
            bindS (heap_skipMessageKeys P (h_N header) s h) (\<lambda>_ h.
            if so_CKr (hp_states h s) = zero32 then (Inl (ErrText ''decrypt: missing receiving chain key''), h)
            else if so_Nr (hp_states h s) = MaxUint32 then (Inl ErrCounterOverflow, h)
            else let (newCKr, mk) = KDFChain P (so_CKr (hp_states h s))
                 in (Inr mk, upd s (\<lambda>x. x\<lparr>so_CKr := newCKr, so_Nr := so_Nr x + 1\<rparr>) h))))"

lemma bindS_assoc: "bindS (bindS x f) g = bindS x (\<lambda>a s. bindS (f a s) g)"
  by (simp add: bindS_def split: prod.splits sum.splits)

lemma bindS_if: "bindS (if b then x else y) f = (if b then bindS x f else bindS y f)"
  by simp

section \<open>The value of a state\<close>

definition view :: "Heap \<Rightarrow> nat \<Rightarrow> State" where
  "view h s = (let x = hp_states h s in
     \<lparr>rs_DHs = so_DHs x, rs_DHr = so_DHr x, rs_RK = so_RK x, rs_CKs = so_CKs x, rs_CKr = so_CKr x,
      rs_Ns = so_Ns x, rs_Nr = so_Nr x, rs_PN = so_PN x,
      rs_MKSkipped = skipped_at h (so_MKSkipped x), rs_SeenDH = seen_at h (so_SeenDH x)\<rparr>)"

text \<open>
  \<open>owns m d c h\<close>: the maps of the object \<open>c\<close> are \<open>m\<close> and \<open>d\<close>.  \<open>only m d c h h'\<close>: what differs between the
  two heaps is the object \<open>c\<close> and these maps.
\<close>

definition owns :: "nat \<Rightarrow> nat \<Rightarrow> nat \<Rightarrow> Heap \<Rightarrow> bool" where
  "owns m d c h \<longleftrightarrow> so_MKSkipped (hp_states h c) = Some m \<and> so_SeenDH (hp_states h c) = Some d"

definition only :: "nat \<Rightarrow> nat \<Rightarrow> nat \<Rightarrow> Heap \<Rightarrow> Heap \<Rightarrow> bool" where
  "only m d c h h' \<longleftrightarrow> hp_next h' = hp_next h \<and> (\<forall>t. t \<noteq> c \<longrightarrow> hp_states h' t = hp_states h t) \<and>
     (\<forall>a. a \<noteq> m \<longrightarrow> hp_skipped h' a = hp_skipped h a) \<and> (\<forall>a. a \<noteq> d \<longrightarrow> hp_seen h' a = hp_seen h a)"

text \<open>A function on the heap implements a function on values for an object that owns its maps.\<close>

definition implements ::
    "nat \<Rightarrow> nat \<Rightarrow> nat \<Rightarrow> Heap \<Rightarrow> 'a res \<times> Heap \<Rightarrow> 'a res \<times> State \<Rightarrow> bool" where
  "implements m d c h x y \<longleftrightarrow>
     owns m d c (snd x) \<and> only m d c h (snd x) \<and> y = (fst x, view (snd x) c)"

lemma implementsI:
  "owns m d c h' \<Longrightarrow> only m d c h h' \<Longrightarrow> s' = view h' c \<Longrightarrow> implements m d c h (r, h') (r, s')"
  by (simp add: implements_def)

lemma implements_ret: "owns m d c h \<Longrightarrow> s' = view h c \<Longrightarrow> implements m d c h (r, h) (r, s')"
  by (simp add: implements_def only_def)

lemma implements_from: "only m d c h h1 \<Longrightarrow> implements m d c h1 x y \<Longrightarrow> implements m d c h x y"
  by (simp add: implements_def only_def)

lemma implements_bindS:
  assumes "implements m d c h x y"
    and "\<And>a h1. owns m d c h1 \<Longrightarrow> only m d c h h1 \<Longrightarrow> x = (Inr a, h1) \<Longrightarrow> implements m d c h1 (f a h1) (g a (view h1 c))"
  shows "implements m d c h (bindS x f) (bindS y g)"
proof (cases x)
  case (Pair r h1)
  show ?thesis
  proof (cases r)
    case (Inl e)
    then show ?thesis using assms(1) Pair by (simp add: implements_def)
  next
    case (Inr a)
    then show ?thesis using assms(1) assms(2) [of h1 a] Pair
      by (auto simp: implements_def only_def)
  qed
qed

lemma view_simps [simp]:
  "rs_DHs (view h s) = so_DHs (hp_states h s)" "rs_DHr (view h s) = so_DHr (hp_states h s)"
  "rs_RK (view h s) = so_RK (hp_states h s)" "rs_CKs (view h s) = so_CKs (hp_states h s)"
  "rs_CKr (view h s) = so_CKr (hp_states h s)" "rs_Ns (view h s) = so_Ns (hp_states h s)"
  "rs_Nr (view h s) = so_Nr (hp_states h s)" "rs_PN (view h s) = so_PN (hp_states h s)"
  "rs_MKSkipped (view h s) = skipped_at h (so_MKSkipped (hp_states h s))"
  "rs_SeenDH (view h s) = seen_at h (so_SeenDH (hp_states h s))"
  by (simp_all add: view_def Let_def)

lemma map_at_frame [simp]:
  "skipped_at (h\<lparr>hp_states := x\<rparr>) r = skipped_at h r" "skipped_at (h\<lparr>hp_next := n\<rparr>) r = skipped_at h r"
  "seen_at (h\<lparr>hp_states := x\<rparr>) r = seen_at h r" "seen_at (h\<lparr>hp_next := n\<rparr>) r = seen_at h r"
  "seen_at (h\<lparr>hp_skipped := y\<rparr>) r = seen_at h r"
  by (simp_all add: skipped_at_def seen_at_def split: option.split)

lemmas heap_simps = owns_def only_def view_def Let_def upd_def skipped_at_def seen_at_def
  put_skipped_def put_seen_def delete_skipped_def

section \<open>The operations implement those on values\<close>

lemma heap_skip_round:
  assumes "owns m d c h" "so_DHr (hp_states h c) = Some dhr"
    and "h1 = upd c (\<lambda>x. x\<lparr>so_CKr := fst (KDFChain P (so_CKr (hp_states h c)))\<rparr>) h"
  shows "\<exists>h2. put_skipped (so_MKSkipped (hp_states h1 c)) (SkippedKey dhr (so_Nr (hp_states h1 c)))
       (snd (KDFChain P (so_CKr (hp_states h c)))) h1 = (Inr (), h2) \<and>
     implements m d c h (Inr (), upd c (\<lambda>x. x\<lparr>so_Nr := so_Nr x + 1\<rparr>) h2) (Inr (), skip1 P dhr (view h c))"
  using assms by (auto simp: heap_simps implements_def skip1_def)

lemma heap_skip_implements:
  "owns m d c h \<Longrightarrow>
     implements m d c h (heap_skipMessageKeys P until c h) (skipMessageKeys P until (view h c))"
proof (induction "unat until - unat (so_Nr (hp_states h c))" arbitrary: h rule: less_induct)
  case less
  let ?x = "hp_states h c"
  show ?case
  proof (cases "so_Nr ?x < until \<and> fm_size (skipped_at h (so_MKSkipped ?x)) < MaxSkip \<and> so_DHr ?x \<noteq> None")
    case False
    then show ?thesis
      by (subst skipMessageKeys.simps, subst heap_skipMessageKeys.simps)
        (auto intro!: implements_ret less.prems split: option.splits)
  next
    case True
    then obtain dhr where dhr: "so_DHr ?x = Some dhr" by blast
    define h1 where "h1 = upd c (\<lambda>x. x\<lparr>so_CKr := fst (KDFChain P (so_CKr (hp_states h c)))\<rparr>) h"
    obtain h2 where h2: "put_skipped (so_MKSkipped (hp_states h1 c)) (SkippedKey dhr (so_Nr (hp_states h1 c)))
         (snd (KDFChain P (so_CKr ?x))) h1 = (Inr (), h2)"
      and i: "implements m d c h (Inr (), upd c (\<lambda>x. x\<lparr>so_Nr := so_Nr x + 1\<rparr>) h2) (Inr (), skip1 P dhr (view h c))"
      using heap_skip_round [OF less.prems dhr h1_def] by blast
    define h3 where "h3 = upd c (\<lambda>x. x\<lparr>so_Nr := so_Nr x + 1\<rparr>) h2"
    have v: "view h3 c = skip1 P dhr (view h c)" "owns m d c h3" "only m d c h h3"
      using i by (simp_all add: implements_def h3_def)
    then have "so_Nr (hp_states h3 c) = so_Nr ?x + 1" by (metis view_simps(7) skip1_simps(9))
    then have "implements m d c h3 (heap_skipMessageKeys P until c h3) (skipMessageKeys P until (view h3 c))"
      using True unat_mono [of "so_Nr ?x" until] by (intro less.hyps v) (simp add: unat_inc [of _ until])
    moreover have "heap_skipMessageKeys P until c h = heap_skipMessageKeys P until c h3"
      using True dhr h2 by (subst heap_skipMessageKeys.simps)
        (auto simp: Let_def split_beta h1_def h3_def MaxUint32_def word_order.extremum_strict)
    moreover have "skipMessageKeys P until (view h c) = skipMessageKeys P until (skip1 P dhr (view h c))"
      using True dhr by (subst skipMessageKeys_unfold) simp
    ultimately show ?thesis using v by (simp add: implements_from)
  qed
qed

lemma heap_DHRatchet_implements:
  assumes "owns m d c h"
  shows "implements m d c h (heap_DHRatchet P rnd their c h) (DHRatchet P rnd their (view h c))"
proof (cases "so_DHs (hp_states h c)")
  case None
  then show ?thesis using assms by (simp add: heap_DHRatchet_def DHRatchet_def implements_ret)
next
  case (Some dhs)
  with assms show ?thesis
    unfolding heap_DHRatchet_def DHRatchet_def
    by (cases "so_DHr (hp_states h c)"; cases "GenerateKeyPair P rnd")
      (auto simp: heap_simps implements_def bindS_def cleanupSkippedKeys_def heap_cleanupSkippedKeys_def
        split: sum.splits prod.splits cong del: fmfilter_cong)
qed

lemma heap_AdvanceForHeader_implements:
  assumes "owns m d c h"
  shows "implements m d c h (heap_AdvanceForHeader P rnd header c h) (AdvanceForHeader P rnd header (view h c))"
proof (cases "fmlookup (skipped_at h (so_MKSkipped (hp_states h c))) (skippedKeyForHeader header)")
  case (Some mk)
  with assms show ?thesis
    by (auto simp: heap_AdvanceForHeader_def AdvanceForHeader_def implements_def heap_simps
        intro: fmap_ext)
next
  case None
  have r: "implements m d c h1
      (case KDFChain P (so_CKr (hp_states h1 c)) of (newCKr, mk) \<Rightarrow>
         (Inr mk, upd c (\<lambda>x. x\<lparr>so_CKr := newCKr, so_Nr := so_Nr x + 1\<rparr>) h1))
      (case KDFChain P (so_CKr (hp_states h1 c)) of (newCKr, mk) \<Rightarrow>
         (Inr mk, (view h1 c)\<lparr>rs_CKr := newCKr, rs_Nr := so_Nr (hp_states h1 c) + 1\<rparr>))"
    if "owns m d c h1" for h1
    using that by (auto simp: implements_def heap_simps split_beta)
  from None show ?thesis
    unfolding heap_AdvanceForHeader_def AdvanceForHeader_def Let_def view_simps option.case
    by (auto intro!: implements_bindS implements_ret heap_skip_implements heap_DHRatchet_implements r assms)
qed

section \<open>Decrypt\<close>

text \<open>
  \<open>allocated s h\<close>: the object \<open>s\<close> and its maps exist.  \<open>same_below n h h'\<close>: nothing that lives at an
  address below \<open>n\<close> has changed.
\<close>

definition allocated :: "nat \<Rightarrow> Heap \<Rightarrow> bool" where
  "allocated s h \<longleftrightarrow> s < hp_next h \<and>
     (\<forall>m. so_MKSkipped (hp_states h s) = Some m \<longrightarrow> m < hp_next h) \<and>
     (\<forall>d. so_SeenDH (hp_states h s) = Some d \<longrightarrow> d < hp_next h)"

definition same_below :: "nat \<Rightarrow> Heap \<Rightarrow> Heap \<Rightarrow> bool" where
  "same_below n h h' \<longleftrightarrow> n \<le> hp_next h' \<and> (\<forall>a < n. hp_states h' a = hp_states h a \<and>
     hp_skipped h' a = hp_skipped h a \<and> hp_seen h' a = hp_seen h a)"

lemma same_below_view:
  "same_below (hp_next h) h h' \<Longrightarrow> allocated t h \<Longrightarrow> view h' t = view h t"
  by (auto simp: same_below_def allocated_def heap_simps split: option.splits)

lemma only_below:
  "same_below n h h1 \<Longrightarrow> only m d c h1 h2 \<Longrightarrow> n \<le> m \<Longrightarrow> n \<le> d \<Longrightarrow> n \<le> c \<Longrightarrow> same_below n h h2"
  by (auto simp: same_below_def only_def)

text \<open>The clone is a new object that owns new maps, and has the value of the original.\<close>

lemma heap_Clone_new:
  assumes "allocated s h" "heap_Clone s h = (c, h1)"
  obtains m d where "owns m d c h1" "hp_next h \<le> c" "hp_next h \<le> m" "hp_next h \<le> d"
    "c < hp_next h1" "m < hp_next h1" "d < hp_next h1"
    "view h1 c = Clone (view h s)" "same_below (hp_next h) h h1"
proof -
  let ?x = "hp_states h s" and ?n = "hp_next h"
  have s: "s \<noteq> ?n" using assms(1) by (auto simp: allocated_def)
  have c: "c = ?n" and h1: "h1 = h\<lparr>hp_states := (hp_states h)(?n := ?x\<lparr>so_MKSkipped := Some (?n + 1), so_SeenDH := Some (?n + 2)\<rparr>),
      hp_skipped := (hp_skipped h)(?n + 1 := skipped_at h (so_MKSkipped ?x)),
      hp_seen := (hp_seen h)(?n + 2 := seen_at h (so_SeenDH ?x)), hp_next := ?n + 3\<rparr>"
    using assms(2) s
    by (auto simp: heap_Clone_def new_state_def new_skipped_def new_seen_def upd_def intro!: Heap.equality)
  show ?thesis
    by (rule that [of "?n + 1" "?n + 2"])
      (simp_all add: c h1 owns_def same_below_def Clone_def view_def Let_def skipped_at_def seen_at_def)
qed

text \<open>Without a stored key, \<open>Decrypt\<close> clones, advances the clone and commits it.\<close>

lemma heap_Decrypt_clone:
  assumes "allocated s h" "fmlookup (rs_MKSkipped (view h s)) (skippedKeyForHeader (m_Header msg)) = None"
    and "heap_Clone s h = (c, h1)"
  shows "heap_Decrypt P rnd msg ad s h =
     bindS (heap_AdvanceForHeader P rnd (m_Header msg) c h1) (\<lambda>mk h.
       bindS (decryptWithMessageKey P mk msg ad, h) (\<lambda>p h. (Inr p, upd s (\<lambda>_. hp_states h c) h)))"
proof -
  obtain m d where "view h1 c = Clone (view h s)"
    using assms(1,3) by (rule heap_Clone_new)
  then have "rs_MKSkipped (view h1 c) = rs_MKSkipped (view h s)" by simp
  then have n: "fmlookup (skipped_at h1 (so_MKSkipped (hp_states h1 c))) (skippedKeyForHeader (m_Header msg)) = None"
    using assms(2) by simp
  show ?thesis using assms(2,3) n
    unfolding heap_Decrypt_def heap_AdvanceForHeader_def Let_def assms(3) prod.case view_simps
    by (simp add: bindS_assoc bindS_if split_beta cong: if_cong)
qed

lemma heap_Decrypt_run:
  assumes "allocated s h" "fmlookup (rs_MKSkipped (view h s)) (skippedKeyForHeader (m_Header msg)) = None"
    and "heap_Decrypt P rnd msg ad s h = (r, h')"
  shows "Decrypt P rnd msg ad (view h s) = (r, view h' s)"
    and "r = Inl e \<Longrightarrow> same_below (hp_next h) h h'"
    and "r = Inr p \<Longrightarrow> \<exists>h2 c m d. same_below (hp_next h) h h2 \<and> h' = upd s (\<lambda>_. hp_states h2 c) h2 \<and>
      owns m d c h2 \<and> hp_next h \<le> m \<and> hp_next h \<le> d \<and> m < hp_next h2 \<and> d < hp_next h2"
proof -
  obtain c h1 where c: "heap_Clone s h = (c, h1)" by (cases "heap_Clone s h")
  obtain m d where n: "owns m d c h1" "hp_next h \<le> c" "hp_next h \<le> m" "hp_next h \<le> d"
    "c < hp_next h1" "m < hp_next h1" "d < hp_next h1"
    "view h1 c = Clone (view h s)" "same_below (hp_next h) h h1"
    using assms(1) c by (rule heap_Clone_new)
  obtain x h2 where x: "heap_AdvanceForHeader P rnd (m_Header msg) c h1 = (x, h2)"
    by (cases "heap_AdvanceForHeader P rnd (m_Header msg) c h1")
  have i: "owns m d c h2" "only m d c h1 h2" "AdvanceForHeader P rnd (m_Header msg) (view h s) = (x, view h2 c)"
    using heap_AdvanceForHeader_implements [OF n(1), of P rnd "m_Header msg"] n(8)
    by (simp_all add: implements_def x)
  have b: "same_below (hp_next h) h h2" using n(9) i(2) n(3,4,2) by (rule only_below)
  have s: "view h2 s = view h s" using b assms(1) by (rule same_below_view)
  have ne: "c \<noteq> s" using n(2) assms(1) by (auto simp: allocated_def)
  have v: "view (upd s (\<lambda>_. hp_states h2 c) h2) s = view h2 c" by (simp add: heap_simps split: option.splits)
  have nx: "m < hp_next h2" "d < hp_next h2" using n(6,7) i(2) by (simp_all add: only_def)
  note D = heap_Decrypt_clone [OF assms(1,2) c, of P rnd ad]
  show "Decrypt P rnd msg ad (view h s) = (r, view h' s)"
    using assms(3) i(3) s v unfolding Decrypt_AdvanceForHeader Clone_id D x
    by (cases x) (auto simp: bindS_def split: sum.splits)
  show "same_below (hp_next h) h h'" if "r = Inl e"
    using assms(3) b that unfolding D x by (cases x) (auto simp: bindS_def split: sum.splits)
  assume "r = Inr p"
  then have "h' = upd s (\<lambda>_. hp_states h2 c) h2"
    using assms(3) unfolding D x by (cases x) (auto simp: bindS_def split: sum.splits)
  then show "\<exists>h2 c m d. same_below (hp_next h) h h2 \<and> h' = upd s (\<lambda>_. hp_states h2 c) h2 \<and>
      owns m d c h2 \<and> hp_next h \<le> m \<and> hp_next h \<le> d \<and> m < hp_next h2 \<and> d < hp_next h2"
    using b i(1) n(3,4) nx by blast
qed

text \<open>A stored key: it is deleted in place, once the message has been authenticated.\<close>

lemma heap_Decrypt_stored:
  assumes "fmlookup (rs_MKSkipped (view h s)) (skippedKeyForHeader (m_Header msg)) = Some mk"
    and "heap_Decrypt P rnd msg ad s h = (r, h')"
  shows "Decrypt P rnd msg ad (view h s) = (r, view h' s)"
    and "h' = (if isOk r then delete_skipped (so_MKSkipped (hp_states h s)) (\<lambda>k. k = skippedKeyForHeader (m_Header msg)) h else h)"
proof -
  let ?d = "delete_skipped (so_MKSkipped (hp_states h s)) (\<lambda>k. k = skippedKeyForHeader (m_Header msg)) h"
  obtain m where m: "so_MKSkipped (hp_states h s) = Some m"
    using assms(1) by (cases "so_MKSkipped (hp_states h s)") (simp_all add: skipped_at_def)
  have "view ?d s = (view h s)\<lparr>rs_MKSkipped := fmdrop (skippedKeyForHeader (m_Header msg)) (rs_MKSkipped (view h s))\<rparr>"
    by (simp add: m heap_simps) (auto intro: fmap_ext split: option.splits)
  moreover have "decryptWithMessageKey P mk msg ad = r \<and> h' = (if isOk r then ?d else h)"
    using assms by (cases "decryptWithMessageKey P mk msg ad"; cases r) (auto simp: heap_Decrypt_def Let_def)
  ultimately show "Decrypt P rnd msg ad (view h s) = (r, view h' s)" "h' = (if isOk r then ?d else h)"
    using assms(1) by (auto simp: Decrypt_def Let_def bindS_def split: sum.splits)
qed

text \<open>Two states that share no map.\<close>

definition apart :: "nat \<Rightarrow> nat \<Rightarrow> Heap \<Rightarrow> bool" where
  "apart s t h \<longleftrightarrow>
     set_option (so_MKSkipped (hp_states h s)) \<inter> set_option (so_MKSkipped (hp_states h t)) = {} \<and>
     set_option (so_SeenDH (hp_states h s)) \<inter> set_option (so_SeenDH (hp_states h t)) = {}"

lemma commit_frame:
  assumes "same_below (hp_next h) h h2" "owns m d c h2" "hp_next h \<le> m" "hp_next h \<le> d"
    and "m < hp_next h2" "d < hp_next h2" "allocated s h" "h' = upd s (\<lambda>_. hp_states h2 c) h2"
  shows "allocated s h'" and "t \<noteq> s \<Longrightarrow> allocated t h \<Longrightarrow> view h' t = view h t \<and> apart s t h'"
proof -
  show "allocated s h'" using assms by (auto simp: allocated_def same_below_def owns_def upd_def)
  assume t: "t \<noteq> s" "allocated t h"
  have "view h' t = view h2 t" using t(1) assms(8) by (simp add: view_def Let_def upd_def)
  moreover have "view h2 t = view h t" using assms(1) t(2) by (rule same_below_view)
  moreover have "apart s t h'" using assms t by (auto simp: apart_def same_below_def owns_def upd_def allocated_def)
  ultimately show "view h' t = view h t \<and> apart s t h'" by simp
qed

lemma delete_frame:
  assumes "allocated s h" "h' = delete_skipped (so_MKSkipped (hp_states h s)) gone h"
  shows "allocated s h'" and "apart s t h \<Longrightarrow> view h' t = view h t \<and> apart s t h'"
  using assms by (auto simp: allocated_def apart_def heap_simps split: option.splits)

section \<open>Properties\<close>

text \<open>An example heap: the receiver of the example states at address 0 and another state at address 1.\<close>

definition ex_heap :: Heap where
  "ex_heap = \<lparr>hp_states = (\<lambda>a. \<lparr>so_DHs = Some (ex_kp 5), so_DHr = Some (kp_PublicKey (ex_kp 3)),
       so_RK = replicate 32 1, so_CKs = replicate 32 8, so_CKr = replicate 32 7,
       so_Ns = 0, so_Nr = 0, so_PN = 0, so_MKSkipped = Some a, so_SeenDH = Some a\<rparr>),
     hp_skipped = (\<lambda>_. fmempty), hp_seen = (\<lambda>_. {|kp_PublicKey (ex_kp 3)|}), hp_next = 2\<rparr>"

lemma ex_heap_view: "view ex_heap a = ex_bob_cur"
  by (simp add: ex_heap_def ex_bob_cur_def heap_simps)

lemma ex_heap_allocated: "a < 2 \<Longrightarrow> allocated a ex_heap"
  by (simp add: ex_heap_def allocated_def)

text \<open>
  C9: \<open>Decrypt\<close> with Go's shared maps.  Run on the heap, \<open>Decrypt\<close> returns what it returns on values and
  leaves the receiver with that value; it never assigns to a nil map.  When it fails, every existing
  state has the value it had before, the receiver and the states that share its maps included,
  although the attempt has stored keys, dropped keys and recorded a ratchet key in place.  When it
  succeeds, every other state that shares no map with the receiver keeps its value and still shares
  none.
\<close>

theorem heap_Decrypt_refines:
  assumes "allocated s h" "heap_Decrypt P rnd msg ad s h = (r, h')"
  shows "Decrypt P rnd msg ad (view h s) = (r, view h' s) \<and> allocated s h' \<and>
     (\<forall>t. allocated t h \<and> (\<not> isOk r \<or> t \<noteq> s \<and> apart s t h) \<longrightarrow> view h' t = view h t) \<and>
     (\<forall>t. allocated t h \<and> t \<noteq> s \<and> apart s t h \<longrightarrow> apart s t h')"
proof (cases "fmlookup (rs_MKSkipped (view h s)) (skippedKeyForHeader (m_Header msg))")
  case (Some mk)
  from heap_Decrypt_stored [OF Some assms(2)] delete_frame [OF assms(1) refl] assms(1) show ?thesis
    by auto
next
  case None
  note run = heap_Decrypt_run [OF assms(1) None assms(2)]
  show ?thesis
  proof (cases r)
    case (Inl e)
    with run(2) have b: "same_below (hp_next h) h h'" by simp
    then have "allocated s h'" "\<And>t. allocated t h \<Longrightarrow> apart s t h' = apart s t h"
      using assms(1) by (auto simp: same_below_def allocated_def apart_def)
    with Inl run(1) same_below_view [OF b] show ?thesis by auto
  next
    case (Inr p)
    with run(3) obtain h2 c m d where h2: "same_below (hp_next h) h h2" "owns m d c h2" "hp_next h \<le> m"
      "hp_next h \<le> d" "m < hp_next h2" "d < hp_next h2" "h' = upd s (\<lambda>_. hp_states h2 c) h2" by blast
    from commit_frame [OF h2(1-6) assms(1) h2(7)] run(1) Inr show ?thesis by simp
  qed
qed

theorem heap_Decrypt_refines_witness:
  "\<exists>h'. heap_Decrypt toy (Inl ErrRandom) \<lparr>m_Header = ex_header 2, m_Ciphertext = []\<rparr> [] 0 ex_heap =
       (Inl ErrInvalidMessage, h') \<and> view h' 0 = ex_bob_cur \<and> view h' 1 = ex_bob_cur"
proof -
  let ?m = "\<lparr>m_Header = ex_header 2, m_Ciphertext = []\<rparr>"
  obtain r h' where h': "heap_Decrypt toy (Inl ErrRandom) ?m [] 0 ex_heap = (r, h')"
    by (cases "heap_Decrypt toy (Inl ErrRandom) ?m [] 0 ex_heap")
  have "fst (KDFChain toy (fst (KDFChain toy (replicate 32 7)))) \<noteq> replicate 32 0"
    using chain_key_nonzero [of "Suc (Suc 0)"] by (simp add: zero32_def)
  then have f: "fst (Decrypt toy (Inl ErrRandom) ?m [] ex_bob_cur) = Inl ErrInvalidMessage"
    by (simp add: Decrypt_def Let_def ex_bob_cur_def ex_header_def zero32_def skipMessageKeys.simps
        MaxUint32_def MaxSkip_def fm_size_upd decryptWithMessageKey_def split_beta)
  have "Decrypt toy (Inl ErrRandom) ?m [] ex_bob_cur = (r, view h' 0) \<and>
      (\<forall>t. allocated t ex_heap \<and> (\<not> isOk r \<or> t \<noteq> 0 \<and> apart 0 t ex_heap) \<longrightarrow> view h' t = view ex_heap t)"
    using heap_Decrypt_refines [OF ex_heap_allocated h'] by (simp add: ex_heap_view)
  with f h' show ?thesis
    using ex_heap_allocated [of 0] ex_heap_allocated [of 1] by (auto simp: ex_heap_view)
qed

end
