(* ===== verification/Ratchet_Network.thy ===== *)
theory Ratchet_Network
  imports Ratchet_Safety
begin

text \<open>
  Two ratchet states talking over a network that loses, delays, reorders and repeats messages.  A
  step is a call of \<open>Encrypt\<close> on one side or a call of \<open>Decrypt\<close> on any message the other side has
  ever sent, or on a message that is rejected.  The invariant \<open>linked\<close> relates the two states through
  every interleaving, across the DH ratchet steps: one side is a ratchet step ahead of the other,
  and each follows the chains the other has sent on.
\<close>

section \<open>The network\<close>

datatype party = Alice | Bob

fun peer :: "party \<Rightarrow> party" where
  "peer Alice = Bob"
| "peer Bob = Alice"

lemma peer_peer [simp]: "peer (peer x) = x" and peer_neq [simp]: "peer x \<noteq> x" "x \<noteq> peer x"
  by (cases x; simp)+

text \<open>A sent item is the message with the plaintext and the associated data it was made from.\<close>

type_synonym sent = "Message \<times> bytes \<times> bytes"

record net =
  n_st :: "party \<Rightarrow> State"
  n_sent :: "party \<Rightarrow> sent list"

text \<open>
  The one condition on a step: a ratchet key that is drawn at random is new to the other side.
\<close>

definition fresh_for :: "State \<Rightarrow> State \<Rightarrow> bool" where
  "fresh_for other s \<longleftrightarrow> (\<forall>kp \<in> set_option (rs_DHs s). kp_PublicKey kp |\<notin>| rs_SeenDH other)"

inductive net_step :: "'z prims_scheme \<Rightarrow> net \<Rightarrow> net \<Rightarrow> bool" for P where
  send: "Encrypt P p ad (n_st N x) = (Inr m, s') \<Longrightarrow>
     net_step P N (N\<lparr>n_st := (n_st N)(x := s'),
                     n_sent := (n_sent N)(x := (m, p, ad) # n_sent N x)\<rparr>)"
| deliver: "(m, p, ad) \<in> set (n_sent N (peer x)) \<Longrightarrow>
     Decrypt P rnd m ad (n_st N x) = (r, s') \<Longrightarrow>
     (rs_DHr s' \<noteq> rs_DHr (n_st N x) \<longrightarrow> fresh_for (n_st N (peer x)) s') \<Longrightarrow>
     net_step P N (N\<lparr>n_st := (n_st N)(x := s')\<rparr>)"
| reject: "Decrypt P rnd m ad (n_st N x) = (Inl e, s') \<Longrightarrow>
     net_step P N (N\<lparr>n_st := (n_st N)(x := s')\<rparr>)"

section \<open>The invariant\<close>

text \<open>
  The invariant speaks of headers and their message keys: \<open>key_of P ck dh (h, mk)\<close> says that \<open>mk\<close> is the
  key of the header \<open>h\<close> in the chain of ratchet key \<open>dh\<close> that starts at \<open>ck\<close>.  The program takes an
  all-zero chain key for a missing one; a sender refuses to send with it, so the chain key behind a
  sent key is not zero.
\<close>

type_synonym sent_key = "Header \<times> bytes"

definition key_of :: "'z prims_scheme \<Rightarrow> bytes \<Rightarrow> bytes \<Rightarrow> sent_key \<Rightarrow> bool" where
  "key_of P ck dh = (\<lambda>(h, mk). h_DH h = dh \<and> mk = chain_msg (KDFChain P) ck (unat (h_N h)) \<and>
     chain_key (KDFChain P) ck (unat (h_N h)) \<noteq> zero32)"

definition stale :: "State \<Rightarrow> sent_key \<Rightarrow> bool" where
  "stale s = (\<lambda>(h, mk). rs_DHr s \<noteq> Some (h_DH h) \<and> h_DH h |\<in>| rs_SeenDH s)"

text \<open>
  \<open>linked_at P x y ckX ckY xp ckXP X Y SX SY\<close>: \<open>X\<close> is ahead of \<open>Y\<close>.  \<open>X\<close> sends with the pair \<open>x\<close> on the
  chain from \<open>ckX\<close>, which \<open>Y\<close> has not seen; \<open>Y\<close> sends with \<open>y\<close> on the chain from \<open>ckY\<close>, which \<open>X\<close> follows;
  \<open>Y\<close> still follows the previous chain of \<open>X\<close>, of key \<open>xp\<close>.  \<open>SX\<close> and \<open>SY\<close> are the keys the sides have
  sent under.
\<close>

definition linked_at :: "'z prims_scheme \<Rightarrow> KeyPair \<Rightarrow> KeyPair \<Rightarrow> bytes \<Rightarrow> bytes \<Rightarrow> bytes \<Rightarrow> bytes \<Rightarrow>
    State \<Rightarrow> State \<Rightarrow> sent_key set \<Rightarrow> sent_key set \<Rightarrow> bool" where
  "linked_at P x y ckX ckY xp ckXP X Y SX SY \<longleftrightarrow>
     rs_DHs X = Some x \<and> rs_DHs Y = Some y \<and> honest_pair P x \<and> honest_pair P y \<and>
     (\<exists>dh. DH P (kp_PrivateKey y) (kp_PublicKey x) = Inr dh \<and> KDFRoot P (rs_RK Y) dh = Inr (rs_RK X, ckX)) \<and>
     rs_CKs X = chain_key (KDFChain P) ckX (unat (rs_Ns X)) \<and>
     rs_CKs Y = chain_key (KDFChain P) ckY (unat (rs_Ns Y)) \<and>
     (\<exists>D. follows P ckY (kp_PublicKey y) D X) \<and> (\<exists>D. follows P ckXP xp D Y) \<and>
     kp_PublicKey y |\<in>| rs_SeenDH X \<and> xp |\<in>| rs_SeenDH Y \<and> kp_PublicKey x |\<notin>| rs_SeenDH Y \<and>
     (\<forall>i \<in> SX. key_of P ckX (kp_PublicKey x) i \<or> key_of P ckXP xp i \<or> stale Y i) \<and>
     (\<forall>i \<in> SY. key_of P ckY (kp_PublicKey y) i \<or> stale X i)"

definition linked :: "'z prims_scheme \<Rightarrow> State \<Rightarrow> State \<Rightarrow> sent_key set \<Rightarrow> sent_key set \<Rightarrow> bool" where
  "linked P X Y SX SY \<longleftrightarrow> (\<exists>x y ckX ckY xp ckXP. linked_at P x y ckX ckY xp ckXP X Y SX SY)"

text \<open>The messages on the network are sealed under the keys that were sent under.\<close>

definition sealed :: "'z prims_scheme \<Rightarrow> sent_key set \<Rightarrow> sent \<Rightarrow> bool" where
  "sealed P K = (\<lambda>(m, p, ad). \<exists>mk. (m_Header m, mk) \<in> K \<and> m = seal_message P mk (m_Header m) p ad)"

text \<open>One side is ahead of the other.\<close>

definition paired :: "'z prims_scheme \<Rightarrow> (party \<Rightarrow> State) \<Rightarrow> (party \<Rightarrow> sent_key set) \<Rightarrow> bool" where
  "paired P st K \<longleftrightarrow> (\<exists>x. linked P (st x) (st (peer x)) (K x) (K (peer x)))"

definition net_inv :: "'z prims_scheme \<Rightarrow> net \<Rightarrow> bool" where
  "net_inv P N \<longleftrightarrow> (\<exists>K. paired P (n_st N) K \<and> (\<forall>x. \<forall>i \<in> set (n_sent N x). sealed P (K x) i))"

section \<open>Every step keeps the two sides linked\<close>

lemma key_of_DH: "key_of P ck dh (h, mk) \<Longrightarrow> h_DH h = dh"
  by (simp add: key_of_def)

lemma stale_rejected:
  assumes "stale s (h, mk)" "follows P ck dh D s"
  shows "AdvanceForHeader P rnd h s = (Inl ErrDuplicateMessage, s)"
proof (rule consumed_duplicate)
  show "consumed h s"
    using assms unfolding consumed_def stale_def follows_def
    by (simp add: skippedKeyForHeader_def fmlookup_dom_iff) blast
qed

text \<open>A key of the chain that the receiver follows.\<close>

lemma follows_key:
  assumes "follows P ck dh D s" "key_of P ck dh (h, mk)" "AdvanceForHeader P rnd h s = (Inr mk', s')"
  shows "mk' = mk" "follows P ck dh (insert (h_N h) D) s'" "rs_DHs s' = rs_DHs s"
    "rs_RK s' = rs_RK s" "rs_CKs s' = rs_CKs s" "rs_Ns s' = rs_Ns s" "rs_SeenDH s' = rs_SeenDH s"
    "rs_DHr s' = rs_DHr s"
proof -
  note f = follows_advance [OF assms(1) key_of_DH [OF assms(2)] assms(3)]
  show "mk' = mk" using f assms(2) by (simp add: key_of_def)
  show "follows P ck dh (insert (h_N h) D) s'" "rs_DHs s' = rs_DHs s"
    "rs_RK s' = rs_RK s" "rs_CKs s' = rs_CKs s" "rs_Ns s' = rs_Ns s" "rs_SeenDH s' = rs_SeenDH s"
    using f by simp_all
  then show "rs_DHr s' = rs_DHr s" using assms(1) by (simp add: follows_def)
qed

lemma sending_key_Inr:
  assumes "NextSendingMessageKey P s = (Inr (h, mk), s')" "rs_DHs s = Some x"
    and "rs_CKs s = chain_key (KDFChain P) ck (unat (rs_Ns s))"
  shows "key_of P ck (kp_PublicKey x) (h, mk)"
    and "rs_CKs s' = chain_key (KDFChain P) ck (unat (rs_Ns s'))"
    and "s' = s\<lparr>rs_CKs := rs_CKs s', rs_Ns := rs_Ns s'\<rparr>"
  using assms(1)
  by (rule NextSendingMessageKey_Inr; use assms(2,3) in \<open>simp add: key_of_def chain_msg_def unat_inc_Max\<close>)+

lemma follows_send [simp]:
  "follows P ck dh D (s\<lparr>rs_CKs := c, rs_Ns := n\<rparr>) \<longleftrightarrow> follows P ck dh D s"
  by (simp add: follows_def)

lemma stale_send [simp]: "stale (s\<lparr>rs_CKs := c, rs_Ns := n\<rparr>) i \<longleftrightarrow> stale s i"
  by (simp add: stale_def split_beta)

lemma linked_send_ahead:
  assumes "linked P X Y SX SY" "NextSendingMessageKey P X = (Inr i, X')"
  shows "linked P X' Y (insert i SX) SY"
proof -
  obtain x y ckX ckY xp ckXP where l: "linked_at P x y ckX ckY xp ckXP X Y SX SY"
    using assms(1) by (auto simp: linked_def)
  then have "rs_DHs X = Some x" "rs_CKs X = chain_key (KDFChain P) ckX (unat (rs_Ns X))"
    by (simp_all add: linked_at_def)
  note e = sending_key_Inr [of P X "fst i" "snd i" X', unfolded prod.collapse, OF assms(2) this]
  have "linked_at P x y ckX ckY xp ckXP (X\<lparr>rs_CKs := rs_CKs X', rs_Ns := rs_Ns X'\<rparr>) Y (insert i SX) SY"
    using l e(1,2) by (simp add: linked_at_def)
  then show ?thesis unfolding linked_def using e(3) by metis
qed

lemma linked_send_behind:
  assumes "linked P X Y SX SY" "NextSendingMessageKey P Y = (Inr i, Y')"
  shows "linked P X Y' SX (insert i SY)"
proof -
  obtain x y ckX ckY xp ckXP where l: "linked_at P x y ckX ckY xp ckXP X Y SX SY"
    using assms(1) by (auto simp: linked_def)
  then have "rs_DHs Y = Some y" "rs_CKs Y = chain_key (KDFChain P) ckY (unat (rs_Ns Y))"
    by (simp_all add: linked_at_def)
  note e = sending_key_Inr [of P Y "fst i" "snd i" Y', unfolded prod.collapse, OF assms(2) this]
  have "linked_at P x y ckX ckY xp ckXP X (Y\<lparr>rs_CKs := rs_CKs Y', rs_Ns := rs_Ns Y'\<rparr>) SX (insert i SY)"
    using l e(1,2) by (simp add: linked_at_def)
  then show ?thesis unfolding linked_def using e(3) by metis
qed

text \<open>The side that is ahead receives: a key of the chain it follows, or a stale one.\<close>

lemma linked_recv_ahead:
  assumes "linked P X Y SX SY" "(h, mk) \<in> SY" "AdvanceForHeader P rnd h X = (Inr mk', X')"
  shows "mk' = mk" "linked P X' Y SX SY"
proof -
  obtain x y ckX ckY xp ckXP where l: "linked_at P x y ckX ckY xp ckXP X Y SX SY"
    using assms(1) by (auto simp: linked_def)
  then obtain D where D: "follows P ckY (kp_PublicKey y) D X" by (auto simp: linked_at_def)
  have "\<not> stale X (h, mk)" using assms(3) stale_rejected [OF _ D] by fastforce
  then have m: "key_of P ckY (kp_PublicKey y) (h, mk)"
    using l assms(2) by (auto simp: linked_at_def)
  note f = follows_key [OF D m assms(3)]
  show "mk' = mk" by (rule f)
  have st: "stale X' = stale X" by (simp add: stale_def f)
  have "linked_at P x y ckX ckY xp ckXP X' Y SX SY"
    using l f(2) unfolding linked_at_def f st by blast
  then show "linked P X' Y SX SY" unfolding linked_def by blast
qed

text \<open>The side that is behind receives on the old chain and stays behind.\<close>

lemma linked_recv_behind_old:
  assumes "linked_at P x y ckX ckY xp ckXP X Y SX SY" "key_of P ckXP xp (h, mk)"
    and "AdvanceForHeader P rnd h Y = (Inr mk', Y')"
  shows "mk' = mk" "linked_at P x y ckX ckY xp ckXP X Y' SX SY"
proof -
  obtain D where D: "follows P ckXP xp D Y" using assms(1) by (auto simp: linked_at_def)
  note f = follows_key [OF D assms(2,3)]
  show "mk' = mk" by (rule f)
  have st: "stale Y' = stale Y" by (simp add: stale_def f)
  show "linked_at P x y ckX ckY xp ckXP X Y' SX SY"
    using assms(1) f(2) unfolding linked_at_def f st by blast
qed

text \<open>
  The side that is behind receives the first message of the new chain: it performs the DH ratchet
  step, arrives at the chain the sender uses, and is now the side that is ahead.
\<close>

lemma DHRatchet_linked:
  assumes "dh_comm P" "linked_at P x y ckX ckY xp ckXP X Y SX SY"
    and "rs_DHs Y0 = rs_DHs Y" "rs_RK Y0 = rs_RK Y"
    and "DHRatchet P rnd (kp_PublicKey x) Y0 = (Inr (), Y1)"
  obtains z where "rs_DHs Y1 = Some z" "honest_pair P z" "rs_CKr Y1 = ckX"
    "\<exists>dh. DH P (kp_PrivateKey x) (kp_PublicKey z) = Inr dh \<and> KDFRoot P (rs_RK X) dh = Inr (rs_RK Y1, rs_CKs Y1)"
  using assms(5)
proof (cases rule: DHRatchet_Inr)
  case (1 dhs dh1 rk1 nw dh2)
  have eq: "dhs = y" "rk1 = rs_RK X" "rs_CKr Y1 = ckX"
    using assms(2-4) 1(1-3) by (auto simp: linked_at_def)
  have "honest_pair P nw" using 1(4) by (rule GenerateKeyPair_honest)
  moreover have "honest_pair P x" using assms(2) by (simp add: linked_at_def)
  ultimately show ?thesis
    using that [of nw] 1(5-7) eq DH_agree [OF assms(1), of nw x] by simp
qed

lemma linked_recv_behind_new:
  assumes "dh_comm P" "linked_at P x y ckX ckY xp ckXP X Y SX SY"
    and "key_of P ckX (kp_PublicKey x) (h, mk)" "AdvanceForHeader P rnd h Y = (Inr mk', Y')"
  shows "mk' = mk" "rs_DHr Y' \<noteq> rs_DHr Y" "fresh_for X Y' \<Longrightarrow> linked P Y' X SY SX"
proof -
  have h: "h_DH h = kp_PublicKey x" using assms(3) by (rule key_of_DH)
  have Y: "kp_PublicKey x |\<notin>| rs_SeenDH Y" "xp |\<in>| rs_SeenDH Y" "rs_DHr Y = Some xp"
    and xn: "h_DH h \<noteq> xp"
    using assms(2) h by (auto simp: linked_at_def follows_def)
  obtain D where "follows P ckXP xp D Y" using assms(2) by (auto simp: linked_at_def)
  then obtain Y0 Y1 where r: "skips P Y Y0" "DHRatchet P rnd (kp_PublicKey x) Y0 = (Inr (), Y1)"
    "follows P (rs_CKr Y1) (kp_PublicKey x) {h_N h} Y'"
    "mk' = chain_msg (KDFChain P) (rs_CKr Y1) (unat (h_N h))"
    "rs_DHs Y' = rs_DHs Y1" "rs_RK Y' = rs_RK Y1" "rs_CKs Y' = rs_CKs Y1" "rs_Ns Y' = 0"
    "fset (rs_SeenDH Y') = insert (kp_PublicKey x) (insert xp (fset (rs_SeenDH Y)))"
    using xn assms(4) unfolding h [symmetric] by (rule follows_ratchet)
  obtain z where z: "rs_DHs Y1 = Some z" "honest_pair P z" "rs_CKr Y1 = ckX"
    "\<exists>dh. DH P (kp_PrivateKey x) (kp_PublicKey z) = Inr dh \<and> KDFRoot P (rs_RK X) dh = Inr (rs_RK Y1, rs_CKs Y1)"
    using r(1) by (auto simp: skips_def intro: DHRatchet_linked [OF assms(1,2) _ _ r(2)])
  show "mk' = mk" using assms(3) by (simp add: key_of_def r(4) z(3))
  have st: "key_of P ckX (kp_PublicKey x) i \<or> stale Y' i" if "i \<in> SX" for i
  proof -
    have "key_of P ckX (kp_PublicKey x) i \<or> key_of P ckXP xp i \<or> stale Y i"
      using assms(2) that by (simp add: linked_at_def)
    moreover have "rs_DHr Y' = Some (kp_PublicKey x)" using r(3) by (simp add: follows_def)
    ultimately show ?thesis
      using Y r(9) by (cases i) (auto simp: stale_def key_of_def)
  qed
  show "rs_DHr Y' \<noteq> rs_DHr Y" using r(3) Y(3) xn h by (simp add: follows_def)
  assume "fresh_for X Y'"
  then have "linked_at P z x (rs_CKs Y1) ckX (kp_PublicKey y) ckY Y' X SY SX"
    using assms(2) r(3,5-9) z st unfolding linked_at_def fresh_for_def by auto
  then show "linked P Y' X SY SX" unfolding linked_def by blast
qed

lemma linked_recv_behind:
  assumes "dh_comm P" "linked P X Y SX SY" "(h, mk) \<in> SX" "AdvanceForHeader P rnd h Y = (Inr mk', Y')"
  shows "mk' = mk"
    and "(rs_DHr Y' \<noteq> rs_DHr Y \<longrightarrow> fresh_for X Y') \<Longrightarrow> linked P X Y' SX SY \<or> linked P Y' X SY SX"
proof -
  obtain x y ckX ckY xp ckXP where l: "linked_at P x y ckX ckY xp ckXP X Y SX SY"
    using assms(2) by (auto simp: linked_def)
  then obtain D where D: "follows P ckXP xp D Y" by (auto simp: linked_at_def)
  have "\<not> stale Y (h, mk)" using assms(4) stale_rejected [OF _ D] by fastforce
  then consider (new) "key_of P ckX (kp_PublicKey x) (h, mk)" | (old) "key_of P ckXP xp (h, mk)"
    using l assms(3) by (auto simp: linked_at_def)
  then have "mk' = mk \<and> ((rs_DHr Y' \<noteq> rs_DHr Y \<longrightarrow> fresh_for X Y') \<longrightarrow> linked P X Y' SX SY \<or> linked P Y' X SY SX)"
  proof cases
    case new
    then show ?thesis using linked_recv_behind_new [OF assms(1) l new assms(4)] by simp
  next
    case old
    then show ?thesis
      using linked_recv_behind_old [OF l old assms(4)] unfolding linked_def by blast
  qed
  then show "mk' = mk"
    "(rs_DHr Y' \<noteq> rs_DHr Y \<longrightarrow> fresh_for X Y') \<Longrightarrow> linked P X Y' SX SY \<or> linked P Y' X SY SX"
    by simp_all
qed

text \<open>The same for the two parties, whichever is ahead.\<close>

lemma party_side: "x = z \<or> x = peer z"
  by (cases x; cases z) simp_all

lemma paired_ahead: "linked P (st z) (st (peer z)) (K z) (K (peer z)) \<Longrightarrow> paired P st K"
  by (auto simp: paired_def)

lemma paired_behind: "linked P (st (peer z)) (st z) (K (peer z)) (K z) \<Longrightarrow> paired P st K"
  by (auto simp: paired_def intro: exI [of _ "peer z"])

lemma paired_peer:
  "linked P (st z) s' (K z) (K (peer z)) \<or> linked P s' (st z) (K (peer z)) (K z) \<Longrightarrow> paired P (st(peer z := s')) K"
  using paired_ahead [of P "st(peer z := s')" z K] paired_behind [of P "st(peer z := s')" z K] by auto

lemma paired_send:
  assumes "paired P st K" "NextSendingMessageKey P (st x) = (Inr i, s')"
  shows "paired P (st(x := s')) (K(x := insert i (K x)))"
proof -
  obtain z where z: "linked P (st z) (st (peer z)) (K z) (K (peer z))" using assms(1) by (auto simp: paired_def)
  from party_side [of x z] show ?thesis
    using z assms(2) by (auto intro!: paired_ahead [of _ _ z] dest: linked_send_ahead linked_send_behind)
qed

lemma paired_recv:
  assumes "dh_comm P" "paired P st K" "(h, mk) \<in> K (peer x)" "AdvanceForHeader P rnd h (st x) = (Inr mk', s')"
  shows "mk' = mk" "(rs_DHr s' \<noteq> rs_DHr (st x) \<longrightarrow> fresh_for (st (peer x)) s') \<Longrightarrow> paired P (st(x := s')) K"
proof -
  obtain z where z: "linked P (st z) (st (peer z)) (K z) (K (peer z))" using assms(2) by (auto simp: paired_def)
  have "mk' = mk \<and> ((rs_DHr s' \<noteq> rs_DHr (st x) \<longrightarrow> fresh_for (st (peer x)) s') \<longrightarrow> paired P (st(x := s')) K)"
    using party_side [of x z]
  proof
    assume x: "x = z"
    then show ?thesis
      using linked_recv_ahead [OF z] assms(3,4) by (auto intro!: paired_ahead [of _ _ z])
  next
    assume x: "x = peer z"
    then show ?thesis
      using linked_recv_behind [OF assms(1) z, of h mk rnd mk' s'] assms(3,4) paired_peer [of P st z s' K] by simp
  qed
  then show "mk' = mk" "(rs_DHr s' \<noteq> rs_DHr (st x) \<longrightarrow> fresh_for (st (peer x)) s') \<Longrightarrow> paired P (st(x := s')) K"
    by simp_all
qed

section \<open>Any interleaving\<close>

lemma sealed_open:
  assumes "prims_ok P" "sealed P K (m, p, ad)"
  obtains mk where "(m_Header m, mk) \<in> K" "decryptWithMessageKey P mk m ad = Inr p"
proof -
  obtain mk where mk: "(m_Header m, mk) \<in> K" "seal_message P mk (m_Header m) p ad = m"
    using assms(2) unfolding sealed_def by (auto dest: sym)
  with decrypt_seal [OF assms(1), of mk "m_Header m" p ad] show thesis by (intro that) simp_all
qed

lemma sealed_mono: "sealed P K i \<Longrightarrow> K \<subseteq> K' \<Longrightarrow> sealed P K' i"
  by (auto simp: sealed_def)

lemma net_inv_deliver:
  assumes "prims_ok P" "dh_comm P" "net_inv P N" "(m, p, ad) \<in> set (n_sent N (peer x))"
    and "Decrypt P rnd m ad (n_st N x) = (Inr q, s')"
  shows "q = p"
proof -
  obtain K where K: "paired P (n_st N) K" "sealed P (K (peer x)) (m, p, ad)"
    using assms(3,4) unfolding net_inv_def by blast
  obtain mk where mk: "(m_Header m, mk) \<in> K (peer x)" "decryptWithMessageKey P mk m ad = Inr p"
    using assms(1) K(2) by (rule sealed_open)
  obtain mk' where "AdvanceForHeader P rnd (m_Header m) (n_st N x) = (Inr mk', s')" "decryptWithMessageKey P mk' m ad = Inr q"
    using assms(5) by (rule Decrypt_Inr)
  with paired_recv(1) [OF assms(2) K(1) mk(1)] mk(2) show ?thesis by auto
qed

lemma net_inv_step:
  assumes "dh_comm P" "net_step P N N'" "net_inv P N"
  shows "net_inv P N'"
proof -
  obtain K where K: "paired P (n_st N) K" "\<And>x i. i \<in> set (n_sent N x) \<Longrightarrow> sealed P (K x) i"
    using assms(3) unfolding net_inv_def by blast
  from assms(2) show ?thesis
  proof cases
    case (send p ad x m s')
    then obtain h mk where n: "NextSendingMessageKey P (n_st N x) = (Inr (h, mk), s')" "m = seal_message P mk h p ad"
      by (cases "NextSendingMessageKey P (n_st N x)") (auto simp: Encrypt_NextSendingMessageKey split: sum.splits)
    let ?K = "K(x := insert (h, mk) (K x))"
    have "sealed P (?K x) (m, p, ad)" using n(2) by (auto simp: sealed_def)
    moreover have "sealed P (?K y) i" if "i \<in> set (n_sent N y)" for y i
      using K(2) [OF that] by (rule sealed_mono) auto
    moreover have "sealed P (?K y) i" if "i \<in> set (n_sent N' y)" for y i
    proof -
      have "i \<in> set (n_sent N y) \<or> y = x \<and> i = (m, p, ad)" using that send(1) by (auto split: if_splits)
      with calculation show ?thesis by blast
    qed
    ultimately have "\<forall>y. \<forall>i \<in> set (n_sent N' y). sealed P (?K y) i" by blast
    moreover have "paired P (n_st N') ?K" using paired_send [OF K(1) n(1)] send(1) by simp
    ultimately show ?thesis unfolding net_inv_def by blast
  next
    case (deliver m p ad x rnd r s')
    show ?thesis
    proof (cases r)
      case (Inl e)
      with deliver Decrypt_Inl have "N' = N" by fastforce
      with assms(3) show ?thesis by simp
    next
      case (Inr q)
      then obtain mk' where "AdvanceForHeader P rnd (m_Header m) (n_st N x) = (Inr mk', s')"
        using deliver(3) by (auto elim: Decrypt_Inr)
      moreover obtain mk where "(m_Header m, mk) \<in> K (peer x)"
        using K(2) [OF deliver(2)] by (auto simp: sealed_def)
      ultimately have "paired P ((n_st N)(x := s')) K"
        using paired_recv(2) [OF assms(1) K(1)] deliver(4) by blast
      then show ?thesis using K(2) by (auto simp: net_inv_def deliver(1))
    qed
  next
    case (reject rnd m ad x e s')
    with Decrypt_Inl have "N' = N" by fastforce
    with assms(3) show ?thesis by simp
  qed
qed

section \<open>Delivery\<close>

lemma follows_DHr: "follows P ck dh D s \<Longrightarrow> rs_DHr s = Some dh"
  by (simp add: follows_def)

lemma follows_other: "follows P ck dh D s \<Longrightarrow> sk_PublicKey k \<noteq> dh \<Longrightarrow> fmlookup (rs_MKSkipped s) k = None"
  by (simp add: follows_def)

lemma follows_not_consumed: "follows P ck (h_DH h) D s \<Longrightarrow> \<not> consumed h s \<Longrightarrow> h_N h \<notin> D"
  by (auto simp: follows_def consumed_def skippedKeyForHeader_def fmlookup_dom_iff)

lemma KDFRoot_total: "\<exists>rk' ck. KDFRoot P rk dh = Inr (rk', ck)"
  using HKDF_Inr [of 64 P dh rk] by (force simp: KDFRoot_def hkdfMaxLength_def)

lemma DHRatchet_total:
  assumes "rs_DHs s = Some y" "DH P (kp_PrivateKey y) their = Inr d1" "GenerateKeyPair P rnd = Inr z"
    and "DH P (kp_PrivateKey z) their = Inr d2"
  shows "\<exists>s'. DHRatchet P rnd their s = (Inr (), s')"
proof -
  obtain r1 c1 where 1: "KDFRoot P (rs_RK s) d1 = Inr (r1, c1)" using KDFRoot_total by blast
  obtain r2 c2 where 2: "KDFRoot P r1 d2 = Inr (r2, c2)" using KDFRoot_total by blast
  show ?thesis using assms 1 2 by (auto simp: DHRatchet_def Let_def split: option.splits)
qed

lemma follows_skip_old:
  assumes "follows P ck dh D s" "unat until \<le> MaxSkip"
  shows "\<exists>s'. skipMessageKeys P until s = (Inr (), s')"
proof (cases "rs_Nr s < until")
  case True
  then show ?thesis
    using follows_size [OF assms(1)] assms unat_mono [OF True]
    by (intro skipMessageKeys_ok) (auto simp: follows_def)
next
  case False
  then show ?thesis by (subst skipMessageKeys_unfold) simp
qed

text \<open>The first messages of a new chain make the receiver turn the ratchet.\<close>

lemma ratchet_deliver:
  assumes "follows P ckp xp D s" "h_DH h \<noteq> xp" "h_DH h |\<notin>| rs_SeenDH s"
    and "chain_key (KDFChain P) ck (unat (h_N h)) \<noteq> zero32"
    and "unat (h_PN h) \<le> MaxSkip" "unat (h_N h) \<le> MaxSkip"
    and "rs_DHs s = Some y" "DH P (kp_PrivateKey y) (h_DH h) = Inr d1" "GenerateKeyPair P rnd = Inr z"
    and "DH P (kp_PrivateKey z) (h_DH h) = Inr d2" "KDFRoot P (rs_RK s) d1 = Inr (rk, ck)"
  shows "isOk (fst (AdvanceForHeader P rnd h s))"
proof -
  obtain s0 where s0: "skipMessageKeys P (h_PN h) s = (Inr (), s0)"
    using follows_skip_old [OF assms(1,5)] by blast
  note sk = skipMessageKeys_skips [OF s0]
  obtain s1 where s1: "DHRatchet P rnd (h_DH h) s0 = (Inr (), s1)"
    using DHRatchet_total [of s0 y P "h_DH h" d1 rnd z d2] assms(7-) sk by (auto simp: skips_def)
  have none: "fmlookup (rs_MKSkipped s) (skippedKeyForHeader h) = None" "rs_DHr s = Some xp"
    using assms(1,2) by (simp_all add: follows_def skippedKeyForHeader_def)
  have old: "sk_PublicKey k \<noteq> xp \<Longrightarrow> fmlookup (rs_MKSkipped s0) k = None" for k
    using assms(1) sk by (simp add: follows_def skips_def)
  from s1 have f1: "follows P (rs_CKr s1) (h_DH h) {} s1 \<and> rs_CKr s1 = ck \<and> rs_Nr s1 = 0"
  proof (cases rule: DHRatchet_Inr)
    case (1 dhs dh1 rk1 nw dh2)
    have "fmlookup (rs_MKSkipped s1) k = None" for k
      using assms(2) old [of k] by (simp add: 1(12))
    with 1 assms(7,8,11) sk show ?thesis by (auto simp: follows_def skips_def)
  qed
  then obtain s2 where s2: "skipMessageKeys P (h_N h) s1 = (Inr (), s2)"
    using follows_skip_old [OF _ assms(6)] by blast
  have "rs_Nr s2 = h_N h" using skipMessageKeys_Nr [OF s2] f1 by (simp add: max_def)
  moreover have "rs_CKr s2 \<noteq> zero32"
    using skipMessageKeys_skips [OF s2] assms(4) f1 calculation by (simp add: skips_def)
  moreover have "h_N h \<noteq> MaxUint32" using assms(6) by (auto simp: MaxSkip_def unat_MaxUint32)
  ultimately show ?thesis
    using none s0 s1 s2 assms(2,3) by (simp add: AdvanceForHeader_def Let_def split_beta)
qed

text \<open>A key of the chain on which its sender is sending, for either side.\<close>

lemma linked_deliver_ahead:
  assumes "linked P X Y SX SY" "(h, mk) \<in> SY"
    and "rs_DHs Y = Some k" "h_DH h = kp_PublicKey k" "\<not> consumed h X" "unat (h_N h) \<le> MaxSkip"
  shows "\<exists>s'. AdvanceForHeader P rnd h X = (Inr mk, s')"
proof -
  obtain x y ckX ckY xp ckXP where l: "linked_at P x y ckX ckY xp ckXP X Y SX SY"
    using assms(1) by (auto simp: linked_def)
  then have y: "y = k" using assms(3) by (simp add: linked_at_def)
  obtain D where D: "follows P ckY (kp_PublicKey y) D X" using l by (auto simp: linked_at_def)
  have nD: "h_N h \<notin> D"
    using D assms(4,5) y follows_not_consumed by metis
  have "\<not> stale X (h, mk)" using follows_DHr [OF D] assms(4) y by (simp add: stale_def)
  then have "key_of P ckY (kp_PublicKey y) (h, mk)" using l assms(2) by (auto simp: linked_at_def)
  then have "isOk (fst (AdvanceForHeader P rnd h X))"
    using follows_deliver [OF D _ nD assms(6)] by (simp add: key_of_def)
  then obtain mk' s' where a: "AdvanceForHeader P rnd h X = (Inr mk', s')"
    by (metis isOk.elims(2) prod.collapse)
  with linked_recv_ahead(1) [OF assms(1,2) a] show ?thesis by blast
qed

lemma linked_deliver_behind:
  assumes "dh_comm P" "linked P X Y SX SY" "(h, mk) \<in> SX"
    and "rs_DHs X = Some k" "h_DH h = kp_PublicKey k"
    and "unat (h_N h) \<le> MaxSkip" "unat (h_PN h) \<le> MaxSkip"
    and "GenerateKeyPair P rnd = Inr z" "DH P (kp_PrivateKey z) (kp_PublicKey k) = Inr d2"
  shows "\<exists>s'. AdvanceForHeader P rnd h Y = (Inr mk, s')"
proof -
  obtain x y ckX ckY xp ckXP where l: "linked_at P x y ckX ckY xp ckXP X Y SX SY"
    using assms(2) by (auto simp: linked_def)
  then obtain D d1 where D: "follows P ckXP xp D Y" and x: "x = k" "rs_DHs Y = Some y"
    "DH P (kp_PrivateKey y) (kp_PublicKey x) = Inr d1" "KDFRoot P (rs_RK Y) d1 = Inr (rs_RK X, ckX)"
    "h_DH h \<noteq> xp" "h_DH h |\<notin>| rs_SeenDH Y"
    using assms(4,5) by (auto simp: linked_at_def)
  have "key_of P ckX (kp_PublicKey x) (h, mk)"
    using l assms(3) x(5,6) by (auto simp: linked_at_def stale_def key_of_def)
  then have "isOk (fst (AdvanceForHeader P rnd h Y))"
    using ratchet_deliver [OF D x(5,6) _ assms(7,6) x(2) _ assms(8) _ x(4)] x(1,3) assms(5,9)
    by (simp add: key_of_def)
  then obtain mk' s' where a: "AdvanceForHeader P rnd h Y = (Inr mk', s')"
    by (metis isOk.elims(2) prod.collapse)
  with linked_recv_behind(1) [OF assms(1,2,3) a] show ?thesis by blast
qed

lemma linked_keys:
  assumes "linked P X Y SX SY"
  shows "rs_DHs Y = Some k \<Longrightarrow> rs_DHr X = Some (kp_PublicKey k)"
    and "rs_DHs X = Some k \<Longrightarrow> rs_DHr Y \<noteq> Some (kp_PublicKey k)"
  using assms unfolding linked_def linked_at_def by (auto dest: follows_DHr)

text \<open>
  \<open>deliverable\<close>: the header is of the sender's current chain, unused and within reach, and the receiver
  can draw the pair for the ratchet step when it has to make one.
\<close>

definition deliverable :: "'z prims_scheme \<Rightarrow> bytes res \<Rightarrow> Header \<Rightarrow> State \<Rightarrow> State \<Rightarrow> bool" where
  "deliverable P rnd h sender s \<longleftrightarrow> (\<exists>k. rs_DHs sender = Some k \<and> h_DH h = kp_PublicKey k \<and> \<not> consumed h s \<and>
     unat (h_N h) \<le> MaxSkip \<and> unat (h_PN h) \<le> MaxSkip \<and>
     (rs_DHr s \<noteq> Some (kp_PublicKey k) \<longrightarrow>
        (\<exists>z. GenerateKeyPair P rnd = Inr z \<and> isOk (DH P (kp_PrivateKey z) (kp_PublicKey k)))))"

lemma paired_deliverable:
  assumes "dh_comm P" "paired P st K" "(h, mk) \<in> K (peer x)" "deliverable P rnd h (st (peer x)) (st x)"
  shows "\<exists>s'. AdvanceForHeader P rnd h (st x) = (Inr mk, s')"
proof -
  obtain v where v: "linked P (st v) (st (peer v)) (K v) (K (peer v))" using assms(2) by (auto simp: paired_def)
  note seen = linked_keys [OF v]
  obtain k where k: "rs_DHs (st (peer x)) = Some k" "h_DH h = kp_PublicKey k" "\<not> consumed h (st x)"
    "unat (h_N h) \<le> MaxSkip" "unat (h_PN h) \<le> MaxSkip"
    "rs_DHr (st x) \<noteq> Some (kp_PublicKey k) \<Longrightarrow>
      \<exists>z. GenerateKeyPair P rnd = Inr z \<and> isOk (DH P (kp_PrivateKey z) (kp_PublicKey k))"
    using assms(4) unfolding deliverable_def by blast
  show ?thesis
  proof (cases "v = x")
    case True
    then show ?thesis
      using linked_deliver_ahead [OF _ assms(3) k(1-4)] v by simp
  next
    case False
    then have p: "peer v = x" "v = peer x" by (cases v; cases x; simp)+
    then obtain z d2 where "GenerateKeyPair P rnd = Inr z" "DH P (kp_PrivateKey z) (kp_PublicKey k) = Inr d2"
      using seen(2) [of k] k(1,6) by (auto elim: isOk.elims)
    then show ?thesis
      using linked_deliver_behind [OF assms(1) _ assms(3) k(1,2,4,5)] v p by simp
  qed
qed

lemma net_inv_deliverable:
  assumes "prims_ok P" "dh_comm P" "net_inv P N" "(m, p, ad) \<in> set (n_sent N (peer x))"
    and "deliverable P rnd (m_Header m) (n_st N (peer x)) (n_st N x)"
  shows "\<exists>s'. Decrypt P rnd m ad (n_st N x) = (Inr p, s')"
proof -
  obtain K where K: "paired P (n_st N) K" "sealed P (K (peer x)) (m, p, ad)"
    using assms(3,4) unfolding net_inv_def by blast
  obtain mk where mk: "(m_Header m, mk) \<in> K (peer x)" "decryptWithMessageKey P mk m ad = Inr p"
    using assms(1) K(2) by (rule sealed_open)
  with paired_deliverable [OF assms(2) K(1) mk(1) assms(5)] show ?thesis
    by (auto simp: Decrypt_AdvanceForHeader)
qed

section \<open>Late messages\<close>

lemma late_consumed:
  assumes "follows P ck dh D s" "h_DH h \<noteq> dh" "AdvanceForHeader P rnd h s = (Inr mk, s')" "h_DH h' = dh"
  shows "consumed h' s'"
  using assms(1-3)
proof (rule follows_ratchet)
  fix s1 assume f: "follows P (rs_CKr s1) (h_DH h) {h_N h} s'"
    and seen: "fset (rs_SeenDH s') = insert (h_DH h) (insert dh (fset (rs_SeenDH s)))"
  have "fmlookup (rs_MKSkipped s') (skippedKeyForHeader h') = None"
    using f by (rule follows_other) (use assms(2,4) in \<open>simp add: skippedKeyForHeader_def\<close>)
  with follows_DHr [OF f] seen assms(2,4) show ?thesis
    by (simp add: consumed_def fmlookup_dom_iff)
qed

end
