(* ===== verification/XEdDSA.thy ===== *)
theory XEdDSA
  imports Concrete
begin

text \<open>
  XEdDSA signatures with Curve25519 keys (\<^verbatim>\<open>crypto/xeddsa.go\<close>).  The group, scalar and field operations
  are those of \<^verbatim>\<open>filippo.io/edwards25519\<close>, fields of the parameter \<open>prims\<close>; what signing and
  verifying do with them is modelled here.  The variadic message pieces are a list of byte strings.
\<close>

section \<open>Signing and verifying\<close>

definition xeddsaHashPrefix :: bytes where
  "xeddsaHashPrefix = 254 # replicate 31 255"

definition scalarFromBytesModOrder :: "'z prims_scheme \<Rightarrow> bytes \<Rightarrow> int" where
  "scalarFromBytesModOrder P b = sc_uniform P (arr 64 (arr 32 b))"

definition scalarFromHash :: "'z prims_scheme \<Rightarrow> bytes \<Rightarrow> int res" where
  "scalarFromHash P digest =
     (if length digest \<noteq> 64 then Inl (ErrText ''xeddsa: invalid hash length'')
      else Inr (sc_uniform P digest))"

text \<open>\<open>SHA512\<close> is the digest of everything written to a \<^verbatim>\<open>sha512.New()\<close>.\<close>

definition SHA512 :: "'z prims_scheme \<Rightarrow> bytes list \<Rightarrow> bytes" where
  "SHA512 P pieces = arr 64 (sha512_sum P (concat pieces))"

definition setSignBit :: "byte \<Rightarrow> bytes \<Rightarrow> bytes" where
  "setSignBit signBit y =
     (let y = y[31 := y ! 31 AND NOT 0x80]
      in if signBit AND 1 = 1 then y[31 := y ! 31 OR 0x80] else y)"

definition montgomeryToEdwards :: "'z prims_scheme \<Rightarrow> bytes \<Rightarrow> byte \<Rightarrow> bytes option" where
  "montgomeryToEdwards P u signBit =
     (let uElem = fe_setbytes P u;
          uPlusOne = fe_add P uElem (fe_one P)
      in if uPlusOne = 0 then None
         else let uMinusOne = fe_sub P uElem (fe_one P);
                  y = fe_mul P uMinusOne (fe_inv P uPlusOne)
              in ed_setbytes P (setSignBit signBit (arr 32 (fe_bytes P y))))"

definition XEdDSAVerify :: "'z prims_scheme \<Rightarrow> bytes \<Rightarrow> bytes \<Rightarrow> bytes list \<Rightarrow> bool" where
  "XEdDSAVerify P publicKey signature messagePieces =
     (if length signature \<noteq> 64 then False
      else let signBit = drop_bit 7 (signature ! 63 AND 0x80) in
        case montgomeryToEdwards P publicKey signBit of
          None \<Rightarrow> False
        | Some edPub \<Rightarrow>
            let edPubBytes = arr 32 edPub;
                capR = take 32 signature;
                sBytes = drop 32 signature;
                sBytes = sBytes[31 := sBytes ! 31 AND 0x7f]
            in if sBytes ! 31 AND 0xe0 \<noteq> 0 then False
               else let s = scalarFromBytesModOrder P sBytes in
                 (case scalarFromHash P (SHA512 P ([capR, edPubBytes] @ messagePieces)) of
                    Inl _ \<Rightarrow> False
                  | Inr h \<Rightarrow>
                      let minusA = ed_negate P edPub;
                          capRCheck = ed_doublemult P h minusA s
                      in arr 32 capRCheck = capR))"

definition XEdDSASigningPublicKey :: "'z prims_scheme \<Rightarrow> bytes \<Rightarrow> bytes" where
  "XEdDSASigningPublicKey P privateKey =
     (let clamped = clampCurve25519Scalar privateKey;
          a = scalarFromBytesModOrder P clamped
      in arr 32 (ed_basemult P a))"

text \<open>The random argument is what reading 64 bytes from the random source returns.\<close>

definition xeddsaSign :: "'z prims_scheme \<Rightarrow> bytes res \<Rightarrow> bytes \<Rightarrow> bytes list \<Rightarrow> bytes res" where
  "xeddsaSign P rnd privateKey messagePieces =
     bindR rnd (\<lambda>b. let
       randomBytes = arr 64 b;
       keyData = clampCurve25519Scalar privateKey;
       a = scalarFromBytesModOrder P keyData;
       edPub = ed_basemult P a;
       edPubBytes = arr 32 edPub;
       signBit = edPubBytes ! 31 AND 0x80 in
     bindR (scalarFromHash P (SHA512 P ([xeddsaHashPrefix, keyData] @ messagePieces @ [randomBytes]))) (\<lambda>r. let
       capR = ed_basemult P r in
     bindR (scalarFromHash P (SHA512 P ([arr 32 capR, edPubBytes] @ messagePieces))) (\<lambda>h. let
       s = sc_muladd P h a r;
       sig = arr 32 capR @ arr 32 (sc_bytes P s);
       sig = sig[63 := sig ! 63 AND 0x7f];
       sig = sig[63 := sig ! 63 OR signBit]
     in Inr sig)))"

definition XEdDSASign :: "'z prims_scheme \<Rightarrow> bytes res \<Rightarrow> bytes \<Rightarrow> bytes list \<Rightarrow> bytes res" where
  "XEdDSASign P rnd privateKey messagePieces = xeddsaSign P rnd privateKey messagePieces"

section \<open>What is assumed of the curve arithmetic\<close>

text \<open>
  \<^item> The group law: \<open>s B - h A = r B\<close> when \<open>A = a B\<close> and \<open>s = h a + r\<close>.
  \<^item> A reduced scalar is encoded below \<open>2 ^ 253\<close>, and decoding its encoding gives it back.
  \<^item> A point's encoding is 32 bytes long.
  \<^item> The birational map: the Edwards point of a scalar is the point with \<open>y = (u - 1) / (u + 1)\<close> and
    its own sign, for \<open>u\<close> the Montgomery coordinate that X25519 computes from the unclamped scalar.
\<close>

definition ed_ok :: "'z prims_scheme \<Rightarrow> bool" where
  "ed_ok P \<longleftrightarrow>
     (\<forall>h a r. ed_doublemult P h (ed_negate P (ed_basemult P a)) (sc_muladd P h a r) = ed_basemult P r) \<and>
     (\<forall>h a r. let b = sc_bytes P (sc_muladd P h a r) in
        length b = 32 \<and> b ! 31 AND 0xe0 = 0 \<and> sc_uniform P (arr 64 b) = sc_muladd P h a r) \<and>
     (\<forall>a. length (ed_basemult P a) = 32) \<and>
     (\<forall>k pub. length k = 32 \<longrightarrow> scalarBaseMult P k = Inr pub \<longrightarrow>
        (let A = ed_basemult P (sc_uniform P (arr 64 (clampCurve25519Scalar k)));
             u = fe_setbytes P pub; d = fe_add P u (fe_one P);
             y = arr 32 (fe_bytes P (fe_mul P (fe_sub P u (fe_one P)) (fe_inv P d)))
         in d \<noteq> 0 \<and> ed_setbytes P (y[31 := y ! 31 AND 0x7f OR A ! 31 AND 0x80]) = Some A))"

section \<open>A signature verifies\<close>

lemma byte_masks:
  assumes "n < 8"
  shows "bit (0x80 :: byte) n \<longleftrightarrow> n = 7" "bit (0x7f :: byte) n \<longleftrightarrow> n < 7" "bit (0xe0 :: byte) n \<longleftrightarrow> 5 \<le> n"
proof -
  have "n \<in> {0, 1, 2, 3, 4, 5, 6, 7}" using assms by auto
  then show "bit (0x80 :: byte) n \<longleftrightarrow> n = 7" "bit (0x7f :: byte) n \<longleftrightarrow> n < 7" "bit (0xe0 :: byte) n \<longleftrightarrow> 5 \<le> n"
    by (elim insertE; simp)+
qed

lemma sign_bit:
  "drop_bit 7 x AND 1 = (if bit x 7 then 1 else (0 :: byte))"
  "x AND 0x80 = (if bit x 7 then 0x80 else (0 :: byte))"
proof -
  show "drop_bit 7 x AND 1 = (if bit x 7 then 1 else (0 :: byte))"
    by (simp add: and_one_eq odd_iff_mod_2_eq_one bit_iff_odd_drop_bit)
  show "x AND 0x80 = (if bit x 7 then 0x80 else (0 :: byte))"
    by (rule bit_word_eqI) (auto simp: bit_and_iff bit_or_iff bit_not_iff byte_masks simp del: bit_numeral_word_iff)
qed

lemma setSignBit_copy:
  assumes "length y = 32"
  shows "setSignBit (drop_bit 7 x AND 1) y = y[31 := y ! 31 AND 0x7f OR x AND 0x80]"
proof -
  have n: "(- 129 :: byte) = 0x7f" by simp
  show ?thesis using assms
    by (simp add: setSignBit_def Let_def sign_bit) (simp add: n)
qed

lemma sign_pack:
  assumes "(b :: byte) AND 0xe0 = 0"
  shows "(b AND 0x7f OR x AND 0x80) AND 0x80 = x AND 0x80" "(b AND 0x7f OR x AND 0x80) AND 0x7f = b"
proof -
  have "bit b 7 \<Longrightarrow> bit (b AND 0xe0) 7" by (simp add: bit_and_iff)
  with assms have "\<not> bit b 7" by auto
  then have "n < 8 \<Longrightarrow> bit b n \<Longrightarrow> n < 7" for n by (cases "n = 7") auto
  then show "(b AND 0x7f OR x AND 0x80) AND 0x80 = x AND 0x80" "(b AND 0x7f OR x AND 0x80) AND 0x7f = b"
    by (intro bit_word_eqI; auto simp: bit_and_iff bit_or_iff byte_masks simp del: bit_numeral_word_iff)+
qed

lemma length_clamp [simp]: "length (clampCurve25519Scalar k) = length k"
  by (simp add: clampCurve25519Scalar_def Let_def)

lemma montgomeryToEdwards_pub:
  assumes "ed_ok P" "length k = 32" "scalarBaseMult P k = Inr pub"
    and "A = ed_basemult P (sc_uniform P (arr 64 (clampCurve25519Scalar k)))"
    and "b AND 0x80 = A ! 31 AND 0x80"
  shows "montgomeryToEdwards P pub (drop_bit 7 (b AND 0x80)) = Some A"
  using assms unfolding ed_ok_def
  by (simp add: montgomeryToEdwards_def Let_def setSignBit_copy)

lemma XEdDSA_complete:
  assumes "ed_ok P" "length k = 32" "scalarBaseMult P k = Inr pub" "XEdDSASign P rnd k pieces = Inr sig"
  shows "XEdDSAVerify P pub sig pieces"
proof -
  define a where "a = sc_uniform P (arr 64 (clampCurve25519Scalar k))"
  define A where "A = ed_basemult P a"
  obtain r h where rh: "scalarFromHash P (SHA512 P ([arr 32 (ed_basemult P r), arr 32 A] @ pieces)) = Inr h"
    and sig: "sig = (let s = arr 32 (ed_basemult P r) @ arr 32 (sc_bytes P (sc_muladd P h a r));
      s = s[63 := s ! 63 AND 0x7f] in s[63 := s ! 63 OR (arr 32 A ! 31 AND 0x80)])"
    using assms(2,4)
    by (auto simp: XEdDSASign_def xeddsaSign_def Let_def scalarFromBytesModOrder_def a_def A_def)
  define b where "b = sc_bytes P (sc_muladd P h a r)"
  have law: "length b = 32" "b ! 31 AND 0xe0 = 0" "sc_uniform P (arr 64 b) = sc_muladd P h a r"
    "length A = 32" "length (ed_basemult P r) = 32"
    "ed_doublemult P h (ed_negate P A) (sc_muladd P h a r) = ed_basemult P r"
    using assms(1) by (auto simp: ed_ok_def Let_def b_def A_def)
  have sig': "sig = ed_basemult P r @ b[31 := b ! 31 AND 0x7f OR A ! 31 AND 0x80]"
    using law sig by (simp add: Let_def b_def [symmetric] nth_append list_update_append)
  let ?s = "b[31 := b ! 31 AND 0x7f OR A ! 31 AND 0x80]"
  have top: "(b ! 31 AND 0x7f OR A ! 31 AND 0x80) AND 0x80 = A ! 31 AND 0x80"
    "(b ! 31 AND 0x7f OR A ! 31 AND 0x80) AND 0x7f = b ! 31"
    using law(2) by (rule sign_pack)+
  have m: "montgomeryToEdwards P pub (drop_bit 7 (sig ! 63 AND 0x80)) = Some A"
    using top law by (intro montgomeryToEdwards_pub [OF assms(1-3)]) (simp_all add: sig' nth_append A_def a_def)
  have "(drop 32 sig)[31 := drop 32 sig ! 31 AND 0x7f] = b"
    using top(2) law by (simp add: sig')
  with m law rh show ?thesis
    by (simp add: XEdDSAVerify_def Let_def sig' scalarFromBytesModOrder_def)
qed

lemma toy_ed_ok: "ed_ok toy"
proof -
  have dm: "word_of_int (x mod 256) = (word_of_int x :: byte)" for x
    by (simp add: word_of_int_eq_iff take_bit_eq_mod)
  have sc: "uint (word_of_int h * word_of_int a + word_of_int r :: byte) = (h * a + r) mod 256" for h a r
    using uint_word_of_int [of "h * a + r", where ?'a = 8] by simp
  have z: "(replicate 31 (0 :: byte))[30 := 0] = replicate 31 0"
    by (rule nth_equalityI) (simp_all add: nth_list_update)
  have k5: "clampCurve25519Scalar k ! 5 = k ! 5" if "length k = 32" for k
    using that by (simp add: clampCurve25519Scalar_def Let_def)
  have b5: "basepoint ! 5 = 0" "length basepoint = 32" by (simp_all add: basepoint_def)
  show ?thesis
    by (simp add: ed_ok_def toy_def Let_def scalarBaseMult_def sc dm z nth_arr nth_append k5 b5)
qed

section \<open>Properties\<close>

text \<open>
  C14: A signature that \<open>XEdDSASign\<close> makes with a Curve25519 private key is accepted by \<open>XEdDSAVerify\<close>
  under the public key of that private key.
\<close>

theorem XEdDSA_sign_verify:
  assumes "ed_ok P" "length k = 32" "scalarBaseMult P k = Inr pub" "XEdDSASign P rnd k pieces = Inr sig"
  shows "XEdDSAVerify P pub sig pieces"
  using assms by (rule XEdDSA_complete)

theorem XEdDSA_sign_verify_witness:
  "\<exists>sig. XEdDSASign toy (Inr [1, 2, 3]) (replicate 32 4) [[5, 6]] = Inr sig \<and>
     XEdDSAVerify toy (13 # replicate 30 4 @ [1]) sig [[5, 6]]"
proof -
  have "scalarBaseMult toy (replicate 32 4) = Inr (13 # replicate 30 4 @ [1])" by code_simp
  moreover obtain sig where "XEdDSASign toy (Inr [1, 2, 3]) (replicate 32 4) [[5, 6]] = Inr sig"
    by (simp add: XEdDSASign_def xeddsaSign_def Let_def scalarFromHash_def SHA512_def)
  ultimately show ?thesis using XEdDSA_sign_verify [OF toy_ed_ok] by (metis length_replicate)
qed

end
