(* ===== verification/Keys.thy ===== *)
theory Keys
  imports XEdDSA
begin

text \<open>
  Identity keys, pre-keys and pre-key bundles (\<^verbatim>\<open>keys/\<close>): their generation, the validation of a
  bundle and their byte formats.  A pointer that the code checks against \<^verbatim>\<open>nil\<close> is an option; a
  \<^verbatim>\<open>time.Time\<close> is a number of nanoseconds, 0 for the zero time; the clock and the random bytes are
  arguments.
\<close>

section \<open>Identity keys (identity.go)\<close>

record IdentityKey =
  ik_PublicKey :: bytes
  ik_SigningPublic :: bytes

record IdentityKeyPair =
  ikp_PublicKey :: IdentityKey
  ikp_PrivateKey :: bytes

definition GenerateIdentityKeyPair :: "'z prims_scheme \<Rightarrow> bytes res \<Rightarrow> IdentityKeyPair res" where
  "GenerateIdentityKeyPair P rnd =
     bindR (GenerateKeyPair P rnd) (\<lambda>kp.
     let signingPub = XEdDSASigningPublicKey P (kp_PrivateKey kp) in
     Inr \<lparr>ikp_PublicKey = \<lparr>ik_PublicKey = kp_PublicKey kp, ik_SigningPublic = signingPub\<rparr>,
          ikp_PrivateKey = kp_PrivateKey kp\<rparr>)"

definition IdentityKeyPair_Sign ::
    "'z prims_scheme \<Rightarrow> bytes res \<Rightarrow> IdentityKeyPair \<Rightarrow> bytes \<Rightarrow> bytes res" where
  "IdentityKeyPair_Sign P rnd k message = XEdDSASign P rnd (ikp_PrivateKey k) [message]"

definition IdentityKey_Verify :: "'z prims_scheme \<Rightarrow> IdentityKey \<Rightarrow> bytes \<Rightarrow> bytes \<Rightarrow> bool" where
  "IdentityKey_Verify P k message signature = XEdDSAVerify P (ik_PublicKey k) signature [message]"

text \<open>\<open>base64.RawURLEncoding\<close>: six bits a character, no padding.\<close>

definition b64url_char :: "nat \<Rightarrow> char" where
  "b64url_char n = ''ABCDEFGHIJKLMNOPQRSTUVWXYZabcdefghijklmnopqrstuvwxyz0123456789-_'' ! n"

fun b64url_raw :: "bytes \<Rightarrow> string" where
  "b64url_raw (a # b # c # rest) =
     (let v = unat a * 65536 + unat b * 256 + unat c in
      [b64url_char (v div 262144), b64url_char (v div 4096 mod 64), b64url_char (v div 64 mod 64),
       b64url_char (v mod 64)] @ b64url_raw rest)"
| "b64url_raw [a, b] =
     (let v = unat a * 65536 + unat b * 256 in
      [b64url_char (v div 262144), b64url_char (v div 4096 mod 64), b64url_char (v div 64 mod 64)])"
| "b64url_raw [a] =
     (let v = unat a * 65536 in [b64url_char (v div 262144), b64url_char (v div 4096 mod 64)])"
| "b64url_raw [] = []"

definition Fingerprint :: "'z prims_scheme \<Rightarrow> IdentityKey \<Rightarrow> string" where
  "Fingerprint P k = b64url_raw (arr 32 (sha256_sum P (ik_PublicKey k)))"

definition FromBytes :: "'z prims_scheme \<Rightarrow> bytes \<Rightarrow> bytes \<Rightarrow> IdentityKey res" where
  "FromBytes P curvePub signingPub =
     (if length curvePub \<noteq> 32 \<or> length signingPub \<noteq> 32
      then Inl (ErrText ''identity: public keys must be 32 bytes'')
      else case ValidatePublicKey P (arr 32 curvePub) of
             Inl _ \<Rightarrow> Inl (ErrText ''identity: invalid public key'')
           | Inr _ \<Rightarrow> Inr \<lparr>ik_PublicKey = arr 32 curvePub, ik_SigningPublic = arr 32 signingPub\<rparr>)"

section \<open>Wire public keys (wire.go)\<close>

definition wireKeyTypeDjb :: byte where
  "wireKeyTypeDjb = 5"

definition SerializeWirePublicKey :: "bytes \<Rightarrow> bytes" where
  "SerializeWirePublicKey pub = wireKeyTypeDjb # arr 32 pub"

definition DeserializeWirePublicKey :: "'z prims_scheme \<Rightarrow> bytes \<Rightarrow> bytes res" where
  "DeserializeWirePublicKey P data =
     (if length data \<noteq> 1 + 32 then Inl ErrInvalidKey
      else if data ! 0 \<noteq> wireKeyTypeDjb then Inl ErrInvalidKey
      else let out = arr 32 (drop 1 data) in
        case ValidatePublicKey P out of
          Inl _ \<Rightarrow> Inl ErrInvalidKey
        | Inr _ \<Rightarrow> Inr out)"

section \<open>Pre-keys (prekey.go, kyber.go)\<close>

record PreKey =
  pk_ID :: u32
  pk_KeyPair :: "KeyPair option"
  pk_Timestamp :: int

record SignedPreKey =
  spk_ID :: u32
  spk_KeyPair :: "KeyPair option"
  spk_Signature :: bytes
  spk_Timestamp :: int

record KyberPreKey =
  kpk_ID :: u32
  kpk_KeyPair :: "KyberKeyPair option"
  kpk_Signature :: bytes
  kpk_Timestamp :: int

definition GeneratePreKey :: "'z prims_scheme \<Rightarrow> int \<Rightarrow> bytes res \<Rightarrow> u32 \<Rightarrow> PreKey res" where
  "GeneratePreKey P now rnd keyID =
     bindR (GenerateKeyPair P rnd) (\<lambda>kp.
     Inr \<lparr>pk_ID = keyID, pk_KeyPair = Some kp, pk_Timestamp = now\<rparr>)"

text \<open>Round \<open>i\<close> of the loop draws \<open>rnd i\<close>.\<close>

fun GeneratePreKeys_loop ::
    "'z prims_scheme \<Rightarrow> int \<Rightarrow> (nat \<Rightarrow> bytes res) \<Rightarrow> u32 \<Rightarrow> nat \<Rightarrow> nat \<Rightarrow> PreKey list res" where
  "GeneratePreKeys_loop P now rnd startID i 0 = Inr []"
| "GeneratePreKeys_loop P now rnd startID i (Suc n) =
     bindR (GeneratePreKey P now (rnd i) (startID + of_nat i)) (\<lambda>pk.
     bindR (GeneratePreKeys_loop P now rnd startID (Suc i) n) (\<lambda>pks. Inr (pk # pks)))"

definition GeneratePreKeys ::
    "'z prims_scheme \<Rightarrow> int \<Rightarrow> (nat \<Rightarrow> bytes res) \<Rightarrow> u32 \<Rightarrow> int \<Rightarrow> PreKey list res" where
  "GeneratePreKeys P now rnd startID cnt =
     (if cnt < 0 then Inl (ErrText ''count must be non-negative'')
      else GeneratePreKeys_loop P now rnd startID 0 (nat cnt))"

definition GenerateSignedPreKey ::
    "'z prims_scheme \<Rightarrow> int \<Rightarrow> bytes res \<Rightarrow> bytes res \<Rightarrow> IdentityKeyPair \<Rightarrow> u32 \<Rightarrow> SignedPreKey res" where
  "GenerateSignedPreKey P now rndKey rndSig identityKey keyID =
     bindR (GenerateKeyPair P rndKey) (\<lambda>kp.
     bindR (IdentityKeyPair_Sign P rndSig identityKey (SerializeWirePublicKey (kp_PublicKey kp))) (\<lambda>sig.
     Inr \<lparr>spk_ID = keyID, spk_KeyPair = Some kp, spk_Signature = sig, spk_Timestamp = now\<rparr>))"

text \<open>A signed pre-key without a key pair makes \<open>VerifySignedPreKey\<close> panic; \<open>None\<close> stands for that.\<close>

definition VerifySignedPreKey :: "'z prims_scheme \<Rightarrow> SignedPreKey \<Rightarrow> IdentityKey \<Rightarrow> bool option" where
  "VerifySignedPreKey P spk identity =
     (case spk_KeyPair spk of
        None \<Rightarrow> None
      | Some kp \<Rightarrow> Some (IdentityKey_Verify P identity (SerializeWirePublicKey (kp_PublicKey kp))
                          (spk_Signature spk)))"

definition GenerateKyberPreKey ::
    "'z prims_scheme \<Rightarrow> int \<Rightarrow> bytes res \<Rightarrow> bytes res \<Rightarrow> IdentityKeyPair \<Rightarrow> u32 \<Rightarrow> KyberPreKey res" where
  "GenerateKyberPreKey P now rndKey rndSig identityKey keyID =
     bindR (GenerateKyber1024KeyPair P rndKey) (\<lambda>kp.
     bindR (IdentityKeyPair_Sign P rndSig identityKey (kkp_PublicKey kp)) (\<lambda>sig.
     Inr \<lparr>kpk_ID = keyID, kpk_KeyPair = Some kp, kpk_Signature = sig, kpk_Timestamp = now\<rparr>))"

definition VerifyKyberPreKey :: "'z prims_scheme \<Rightarrow> KyberPreKey \<Rightarrow> IdentityKey \<Rightarrow> bool" where
  "VerifyKyberPreKey P kp identity =
     (case kpk_KeyPair kp of
        None \<Rightarrow> False
      | Some pair \<Rightarrow> IdentityKey_Verify P identity (kkp_PublicKey pair) (kpk_Signature kp))"

section \<open>Bundles (bundle.go)\<close>

record PreKeyBundle =
  b_RegistrationID :: u32
  b_DeviceID :: u32
  b_PreKeyID :: "u32 option"
  b_PreKeyPublic :: "bytes option"
  b_SignedPreKeyID :: u32
  b_SignedPreKeyPublic :: bytes
  b_SignedPreKeySignature :: bytes
  b_KyberPreKeyID :: "u32 option"
  b_KyberPreKeyPublic :: bytes
  b_KyberPreKeySignature :: bytes
  b_IdentityKey :: IdentityKey

text \<open>A one-time pre-key without a key pair makes the constructor panic.\<close>

definition NewPreKeyBundleWithKyber ::
    "u32 \<Rightarrow> u32 \<Rightarrow> PreKey option \<Rightarrow> SignedPreKey option \<Rightarrow> KyberPreKey option \<Rightarrow> IdentityKey \<Rightarrow>
     PreKeyBundle res" where
  "NewPreKeyBundleWithKyber registrationID deviceID preKey signedPreKey kyberPreKey identity =
     (case signedPreKey of
        None \<Rightarrow> Inl ErrInvalidKey
      | Some spk \<Rightarrow>
     bindR (case preKey of
              None \<Rightarrow> Inr (None, None)
            | Some pk \<Rightarrow> (case pk_KeyPair pk of
                            None \<Rightarrow> Inl EPanic
                          | Some kp \<Rightarrow> Inr (Some (pk_ID pk), Some (kp_PublicKey kp)))) (\<lambda>(preKeyID, preKeyPub).
     case spk_KeyPair spk of
        None \<Rightarrow> Inl ErrInvalidKey
      | Some spkPair \<Rightarrow>
     bindR (case kyberPreKey of
              None \<Rightarrow> Inr (None, [], [])
            | Some kyber \<Rightarrow>
                (case kpk_KeyPair kyber of
                   None \<Rightarrow> Inl ErrInvalidKey
                 | Some kp \<Rightarrow>
                     if length (kkp_PublicKey kp) = 0 then Inl ErrInvalidKey
                     else if length (kpk_Signature kyber) = 0 then Inl ErrInvalidSignature
                     else Inr (Some (kpk_ID kyber), kkp_PublicKey kp, kpk_Signature kyber)))
       (\<lambda>(kyberID, kyberPub, kyberSig).
     Inr \<lparr>b_RegistrationID = registrationID, b_DeviceID = deviceID, b_PreKeyID = preKeyID,
          b_PreKeyPublic = preKeyPub, b_SignedPreKeyID = spk_ID spk,
          b_SignedPreKeyPublic = kp_PublicKey spkPair, b_SignedPreKeySignature = spk_Signature spk,
          b_KyberPreKeyID = kyberID, b_KyberPreKeyPublic = kyberPub, b_KyberPreKeySignature = kyberSig,
          b_IdentityKey = identity\<rparr>)))"

definition NewPreKeyBundle ::
    "u32 \<Rightarrow> u32 \<Rightarrow> PreKey option \<Rightarrow> SignedPreKey option \<Rightarrow> IdentityKey \<Rightarrow> PreKeyBundle res" where
  "NewPreKeyBundle registrationID deviceID preKey signedPreKey identity =
     NewPreKeyBundleWithKyber registrationID deviceID preKey signedPreKey None identity"

definition PreKeyBundle_Validate :: "'z prims_scheme \<Rightarrow> PreKeyBundle \<Rightarrow> unit res" where
  "PreKeyBundle_Validate P b =
     (if length (b_SignedPreKeySignature b) = 0 then Inl ErrInvalidSignature
      else if b_SignedPreKeyID b = 0 then Inl ErrInvalidKey
      else if \<not> IsValidPublicKey P (ik_PublicKey (b_IdentityKey b)) then Inl ErrInvalidKey
      else if \<not> IsValidPublicKey P (b_SignedPreKeyPublic b) then Inl ErrInvalidKey
      else if \<not> IdentityKey_Verify P (b_IdentityKey b) (SerializeWirePublicKey (b_SignedPreKeyPublic b))
                 (b_SignedPreKeySignature b) then Inl ErrInvalidSignature
      else if (b_PreKeyID b = None) \<noteq> (b_PreKeyPublic b = None) then Inl ErrInvalidMessage
      else if (case b_PreKeyPublic b of None \<Rightarrow> False | Some pub \<Rightarrow> \<not> IsValidPublicKey P pub)
        then Inl ErrInvalidKey
      else if (b_KyberPreKeyID b = None) \<noteq> (length (b_KyberPreKeyPublic b) = 0) then Inl ErrInvalidMessage
      else if (b_KyberPreKeyID b = None) \<noteq> (length (b_KyberPreKeySignature b) = 0) then Inl ErrInvalidMessage
      else case b_KyberPreKeyID b of
             None \<Rightarrow> Inr ()
           | Some kyberID \<Rightarrow>
               if kyberID = 0 then Inl ErrInvalidKey
               else if \<not> IsKyber1024PublicKey (b_KyberPreKeyPublic b) then Inl ErrInvalidKey
               else if \<not> IdentityKey_Verify P (b_IdentityKey b) (b_KyberPreKeyPublic b)
                         (b_KyberPreKeySignature b) then Inl ErrInvalidSignature
               else Inr ())"

section \<open>Bundles of generated keys\<close>

lemma length_XEdDSASign: "XEdDSASign P rnd k pieces = Inr sig \<Longrightarrow> length sig = 64"
  by (auto simp: XEdDSASign_def xeddsaSign_def Let_def)

text \<open>Generation and signing fail only when the random source does.\<close>

lemma generation_total:
  "\<exists>sig. XEdDSASign P (Inr r) k pieces = Inr sig"
  "\<exists>kp. GenerateKyber1024KeyPair P (Inr r) = Inr kp"
  by (auto simp: XEdDSASign_def xeddsaSign_def scalarFromHash_def SHA512_def GenerateKyber1024KeyPair_def Let_def
      split: prod.split)

lemma prekeys_total:
  assumes "\<And>r. \<exists>kp. GenerateKeyPair P (Inr r) = Inr kp"
  shows "\<exists>ik. GenerateIdentityKeyPair P (Inr r) = Inr ik"
    and "\<exists>spk. GenerateSignedPreKey P now (Inr r) (Inr r') ik i = Inr spk"
    and "\<exists>kpk. GenerateKyberPreKey P now (Inr r) (Inr r') ik i = Inr kpk"
  using assms [of r] generation_total(1) [of P r' "ikp_PrivateKey ik"] generation_total(2) [of P r]
  by (force simp: GenerateIdentityKeyPair_def GenerateSignedPreKey_def GenerateKyberPreKey_def
      IdentityKeyPair_Sign_def Let_def)+

lemma toy_GenerateKeyPair: "\<exists>kp. GenerateKeyPair toy (Inr r) = Inr kp"
  by (simp add: GenerateKeyPair_def toy_scalarBaseMult Let_def)

lemma GenerateIdentityKeyPair_honest:
  assumes "GenerateIdentityKeyPair P rnd = Inr ik"
  shows "scalarBaseMult P (ikp_PrivateKey ik) = Inr (ik_PublicKey (ikp_PublicKey ik))"
    and "length (ikp_PrivateKey ik) = 32"
  using assms
  by (auto simp: GenerateIdentityKeyPair_def GenerateKeyPair_def Let_def)

text \<open>What an identity signs, it verifies.\<close>

lemma IdentityKey_sign_verify:
  assumes "ed_ok P" "GenerateIdentityKeyPair P rnd = Inr ik" "IdentityKeyPair_Sign P rnd' ik m = Inr sig"
  shows "IdentityKey_Verify P (ikp_PublicKey ik) m sig" "length sig = 64"
  using XEdDSA_complete [OF assms(1) _ GenerateIdentityKeyPair_honest(1) [OF assms(2)]]
    GenerateIdentityKeyPair_honest(2) [OF assms(2)] assms(3) length_XEdDSASign
  by (auto simp: IdentityKeyPair_Sign_def IdentityKey_Verify_def)

lemma GenerateSignedPreKey_Inr:
  assumes "GenerateSignedPreKey P now r1 r2 ik i = Inr spk"
  obtains kp where "spk_ID spk = i" "spk_KeyPair spk = Some kp" "GenerateKeyPair P r1 = Inr kp"
    "IdentityKeyPair_Sign P r2 ik (SerializeWirePublicKey (kp_PublicKey kp)) = Inr (spk_Signature spk)"
  using assms by (auto simp: GenerateSignedPreKey_def)

lemma GenerateKyberPreKey_Inr:
  assumes "GenerateKyberPreKey P now r1 r2 ik i = Inr kpk"
  obtains kp where "kpk_ID kpk = i" "kpk_KeyPair kpk = Some kp" "GenerateKyber1024KeyPair P r1 = Inr kp"
    "IdentityKeyPair_Sign P r2 ik (kkp_PublicKey kp) = Inr (kpk_Signature kpk)"
  using assms by (auto simp: GenerateKyberPreKey_def)

lemma GenerateKeyPair_valid:
  "dh_valid P \<Longrightarrow> GenerateKeyPair P rnd = Inr kp \<Longrightarrow> IsValidPublicKey P (kp_PublicKey kp)"
  using GenerateKeyPair_honest unfolding dh_valid_def honest_pair_def by blast

lemma bundle_total:
  assumes "ed_ok P" "GenerateIdentityKeyPair P r0 = Inr ik"
    and "GenerateSignedPreKey P now r1 r2 ik sid = Inr spk" "GenerateKyberPreKey P now r3 r4 ik kid = Inr kpk"
    and "\<forall>pk. pre = Some pk \<longrightarrow> pk_KeyPair pk \<noteq> None"
  shows "\<exists>b. NewPreKeyBundleWithKyber reg dev pre (Some spk) (Some kpk) (ikp_PublicKey ik) = Inr b"
proof -
  obtain kp where "spk_KeyPair spk = Some kp" using assms(3) by (rule GenerateSignedPreKey_Inr)
  moreover obtain kkp where "kpk_KeyPair kpk = Some kkp" "GenerateKyber1024KeyPair P r3 = Inr kkp"
    "IdentityKeyPair_Sign P r4 ik (kkp_PublicKey kkp) = Inr (kpk_Signature kpk)"
    using assms(4) by (rule GenerateKyberPreKey_Inr)
  moreover from this have "kkp_PublicKey kkp \<noteq> []" "kpk_Signature kpk \<noteq> []"
    using GenerateKyber_public [of P r3 kkp] IdentityKey_sign_verify(2) [OF assms(1,2)]
    by (force simp: IsKyber1024PublicKey_def)+
  ultimately show ?thesis using assms(5) by (cases pre) (auto simp: NewPreKeyBundleWithKyber_def)
qed

lemma bundle_validates:
  assumes "ed_ok P" "dh_valid P" "GenerateIdentityKeyPair P r0 = Inr ik"
    and "GenerateSignedPreKey P now r1 r2 ik sid = Inr spk" "sid \<noteq> 0"
    and "GenerateKyberPreKey P now r3 r4 ik kid = Inr kpk" "kid \<noteq> 0"
    and "\<forall>pk. pre = Some pk \<longrightarrow> GeneratePreKey P now r5 pid = Inr pk"
    and "NewPreKeyBundleWithKyber reg dev pre (Some spk) (Some kpk) (ikp_PublicKey ik) = Inr b"
  shows "PreKeyBundle_Validate P b = Inr ()"
proof -
  obtain kp where s: "spk_ID spk = sid" "spk_KeyPair spk = Some kp" "GenerateKeyPair P r1 = Inr kp"
    "IdentityKeyPair_Sign P r2 ik (SerializeWirePublicKey (kp_PublicKey kp)) = Inr (spk_Signature spk)"
    using assms(4) by (rule GenerateSignedPreKey_Inr)
  obtain kkp where k: "kpk_ID kpk = kid" "kpk_KeyPair kpk = Some kkp" "GenerateKyber1024KeyPair P r3 = Inr kkp"
    "IdentityKeyPair_Sign P r4 ik (kkp_PublicKey kkp) = Inr (kpk_Signature kpk)"
    using assms(6) by (rule GenerateKyberPreKey_Inr)
  have ky: "IsKyber1024PublicKey (kkp_PublicKey kkp)" "kkp_PublicKey kkp \<noteq> []"
    using GenerateKyber_public [OF k(3)] by (auto simp: IsKyber1024PublicKey_def)
  have sg: "length (spk_Signature spk) = 64" "length (kpk_Signature kpk) = 64"
    using IdentityKey_sign_verify(2) [OF assms(1,3) s(4)] IdentityKey_sign_verify(2) [OF assms(1,3) k(4)] by simp_all
  then have sg': "spk_Signature spk \<noteq> []" "kpk_Signature kpk \<noteq> []" by auto
  have id: "IsValidPublicKey P (ik_PublicKey (ikp_PublicKey ik))"
    using assms(2) GenerateIdentityKeyPair_honest(1) [OF assms(3)] by (auto simp: dh_valid_def)
  have pre: "\<forall>pk \<in> set_option pre. \<exists>kp. pk_KeyPair pk = Some kp \<and> IsValidPublicKey P (kp_PublicKey kp)"
    using assms(8) GenerateKeyPair_valid [OF assms(2)] by (cases pre) (auto simp: GeneratePreKey_def)
  have b: "b = \<lparr>b_RegistrationID = reg, b_DeviceID = dev, b_PreKeyID = map_option pk_ID pre,
      b_PreKeyPublic = map_option (\<lambda>pk. kp_PublicKey (the (pk_KeyPair pk))) pre, b_SignedPreKeyID = sid,
      b_SignedPreKeyPublic = kp_PublicKey kp, b_SignedPreKeySignature = spk_Signature spk,
      b_KyberPreKeyID = Some kid, b_KyberPreKeyPublic = kkp_PublicKey kkp,
      b_KyberPreKeySignature = kpk_Signature kpk, b_IdentityKey = ikp_PublicKey ik\<rparr>"
    using assms(9) s(1,2) k(1,2) ky(2) sg'(2) pre
    by (cases pre) (auto simp: NewPreKeyBundleWithKyber_def)
  show ?thesis
    using assms(5,7) ky sg' id pre GenerateKeyPair_valid [OF assms(2) s(3)]
      IdentityKey_sign_verify(1) [OF assms(1,3) s(4)] IdentityKey_sign_verify(1) [OF assms(1,3) k(4)]
    by (cases pre) (auto simp: PreKeyBundle_Validate_def b)
qed

section \<open>Properties\<close>

text \<open>
  C13: A bundle made from generated keys passes validation: the identity's signatures on the signed
  pre-key and on the Kyber pre-key verify, and every public key in it is acceptable.
\<close>

theorem generated_bundle_validates:
  assumes "ed_ok P" "dh_valid P" "GenerateIdentityKeyPair P r0 = Inr ik"
    and "GenerateSignedPreKey P now r1 r2 ik sid = Inr spk" "sid \<noteq> 0"
    and "GenerateKyberPreKey P now r3 r4 ik kid = Inr kpk" "kid \<noteq> 0"
    and "\<forall>pk. pre = Some pk \<longrightarrow> GeneratePreKey P now r5 pid = Inr pk"
    and "NewPreKeyBundleWithKyber reg dev pre (Some spk) (Some kpk) (ikp_PublicKey ik) = Inr b"
  shows "PreKeyBundle_Validate P b = Inr ()"
  using assms by (rule bundle_validates)


theorem generated_bundle_validates_witness:
  "\<exists>ik spk kpk b. GenerateIdentityKeyPair toy (Inr [1]) = Inr ik \<and>
     GenerateSignedPreKey toy 9 (Inr [2]) (Inr [3]) ik 7 = Inr spk \<and>
     GenerateKyberPreKey toy 9 (Inr [4]) (Inr [5]) ik 8 = Inr kpk \<and>
     NewPreKeyBundleWithKyber 1 2 None (Some spk) (Some kpk) (ikp_PublicKey ik) = Inr b \<and>
     PreKeyBundle_Validate toy b = Inr ()"
proof -
  note total = prekeys_total [OF toy_GenerateKeyPair]
  obtain ik where ik: "GenerateIdentityKeyPair toy (Inr [1]) = Inr ik" using total(1) by blast
  obtain spk kpk where sk: "GenerateSignedPreKey toy 9 (Inr [2]) (Inr [3]) ik 7 = Inr spk"
    "GenerateKyberPreKey toy 9 (Inr [4]) (Inr [5]) ik 8 = Inr kpk" using total(2,3) by meson
  obtain b where b: "NewPreKeyBundleWithKyber 1 2 None (Some spk) (Some kpk) (ikp_PublicKey ik) = Inr b"
    using bundle_total [OF toy_ed_ok ik sk, of None] by auto
  have "PreKeyBundle_Validate toy b = Inr ()"
    by (rule generated_bundle_validates [OF toy_ed_ok toy_dh_valid ik sk(1) _ sk(2) _ _ b]) simp_all
  then show ?thesis using ik sk b by blast
qed

end
