(* ===== verification/Stores.thy ===== *)
theory Stores
  imports Keys
begin

text \<open>
  Storage (\<^verbatim>\<open>store/\<close>).  The Go interface \<^verbatim>\<open>ProtocolStore\<close> is a record of operations on a store state
  \<open>'s\<close>; the components that use a store take such a record.  \<open>mem_store\<close> is the in-memory
  implementation (\<^verbatim>\<open>store/memory\<close>).  Its mutex makes each call atomic, so a call is one function on
  the state.  What the clients rely on is the locale \<open>protocol_store\<close>, interpreted on \<open>mem_store\<close>.
\<close>

section \<open>Interfaces (interfaces.go, address.go, direction.go)\<close>

datatype Address = Address (addr_Name: string) (addr_Device: u32)

instantiation Address :: linorder
begin

definition less_eq_Address :: "Address \<Rightarrow> Address \<Rightarrow> bool" where
  "less_eq_Address a b \<longleftrightarrow>
     map (of_char :: char \<Rightarrow> nat) (addr_Name a) < map of_char (addr_Name b) \<or>
     addr_Name a = addr_Name b \<and> addr_Device a \<le> addr_Device b"

definition less_Address :: "Address \<Rightarrow> Address \<Rightarrow> bool" where
  "less_Address a b \<longleftrightarrow>
     map (of_char :: char \<Rightarrow> nat) (addr_Name a) < map of_char (addr_Name b) \<or>
     addr_Name a = addr_Name b \<and> addr_Device a < addr_Device b"

instance
proof
  have inj: "map (of_char :: char \<Rightarrow> nat) xs = map of_char ys \<Longrightarrow> xs = ys" for xs ys
    by (rule map_injective [OF _ inj_of_char])
  fix a b c :: Address
  show "a < b \<longleftrightarrow> a \<le> b \<and> \<not> b \<le> a"
    by (auto simp: less_eq_Address_def less_Address_def)
  show "a \<le> a" by (simp add: less_eq_Address_def)
  show "a \<le> b \<Longrightarrow> b \<le> c \<Longrightarrow> a \<le> c" by (auto simp: less_eq_Address_def)
  show "a \<le> b \<Longrightarrow> b \<le> a \<Longrightarrow> a = b" by (auto simp: less_eq_Address_def Address.expand)
  show "a \<le> b \<or> b \<le> a"
    using inj by (auto simp: less_eq_Address_def not_less_iff_gr_or_eq)
qed

end

datatype Direction = DirectionSending | DirectionReceiving

datatype SenderKeyName = SenderKeyName (skn_Group: string) (skn_Sender: Address)

text \<open>
  The opaque records \<^verbatim>\<open>SessionRecord\<close>, \<^verbatim>\<open>SenderKeyRecord\<close> and \<^verbatim>\<open>SesameRecord\<close> hold bytes; a \<^verbatim>\<open>nil\<close>
  pointer is \<open>None\<close>.
\<close>

record 's ProtocolStore =
  GetIdentityKeyPair :: "'s \<Rightarrow> IdentityKeyPair option res"
  GetLocalRegistrationID :: "'s \<Rightarrow> u32 res"
  SaveIdentity :: "Address \<Rightarrow> IdentityKey option \<Rightarrow> 's \<Rightarrow> unit res \<times> 's"
  IsTrustedIdentity :: "Address \<Rightarrow> IdentityKey option \<Rightarrow> Direction \<Rightarrow> 's \<Rightarrow> bool"
  GetIdentity :: "Address \<Rightarrow> 's \<Rightarrow> IdentityKey option res"
  LoadPreKey :: "u32 \<Rightarrow> 's \<Rightarrow> PreKey option res"
  StorePreKey :: "u32 \<Rightarrow> PreKey option \<Rightarrow> 's \<Rightarrow> unit res \<times> 's"
  ContainsPreKey :: "u32 \<Rightarrow> 's \<Rightarrow> bool"
  RemovePreKey :: "u32 \<Rightarrow> 's \<Rightarrow> unit res \<times> 's"
  LoadSignedPreKey :: "u32 \<Rightarrow> 's \<Rightarrow> SignedPreKey option res"
  StoreSignedPreKey :: "u32 \<Rightarrow> SignedPreKey option \<Rightarrow> 's \<Rightarrow> unit res \<times> 's"
  ContainsSignedPreKey :: "u32 \<Rightarrow> 's \<Rightarrow> bool"
  RemoveSignedPreKey :: "u32 \<Rightarrow> 's \<Rightarrow> unit res \<times> 's"
  SignedPreKeyExpired :: "SignedPreKey option \<Rightarrow> int \<Rightarrow> 's \<Rightarrow> bool"
  LoadKyberPreKey :: "u32 \<Rightarrow> 's \<Rightarrow> KyberPreKey option res"
  StoreKyberPreKey :: "u32 \<Rightarrow> KyberPreKey option \<Rightarrow> 's \<Rightarrow> unit res \<times> 's"
  ContainsKyberPreKey :: "u32 \<Rightarrow> 's \<Rightarrow> bool"
  RemoveKyberPreKey :: "u32 \<Rightarrow> 's \<Rightarrow> unit res \<times> 's"
  LoadSession :: "Address \<Rightarrow> 's \<Rightarrow> bytes option res"
  StoreSession :: "Address \<Rightarrow> bytes option \<Rightarrow> 's \<Rightarrow> unit res \<times> 's"
  ContainsSession :: "Address \<Rightarrow> 's \<Rightarrow> bool"
  DeleteSession :: "Address \<Rightarrow> 's \<Rightarrow> unit res \<times> 's"
  DeleteAllSessions :: "string \<Rightarrow> 's \<Rightarrow> unit res \<times> 's"
  EnforceSessionLimit :: "Address \<Rightarrow> 's \<Rightarrow> unit res \<times> 's"
  LoadSenderKey :: "SenderKeyName \<Rightarrow> 's \<Rightarrow> bytes option res"
  StoreSenderKey :: "SenderKeyName \<Rightarrow> bytes option \<Rightarrow> 's \<Rightarrow> unit res \<times> 's"
  ContainsSenderKey :: "SenderKeyName \<Rightarrow> 's \<Rightarrow> bool"
  DeleteSenderKey :: "SenderKeyName \<Rightarrow> 's \<Rightarrow> unit res \<times> 's"
  DeleteAllSenderKeys :: "string \<Rightarrow> 's \<Rightarrow> unit res \<times> 's"
  LoadSesameState :: "'s \<Rightarrow> bytes option res"
  StoreSesameState :: "bytes option \<Rightarrow> 's \<Rightarrow> unit res \<times> 's"
  DeleteSesameState :: "'s \<Rightarrow> unit res \<times> 's"

section \<open>The in-memory store (memory\_store.go)\<close>

text \<open>
  The maps of pre-keys can hold \<^verbatim>\<open>nil\<close> pointers, which the setters do not refuse.  The maps of
  identities, sessions and sender keys never do: their setters delete the entry instead.
\<close>

record Store =
  s_identityKeyPair :: "IdentityKeyPair option"
  s_localRegistrationID :: u32
  s_signedPreKeyMaxAge :: int
  s_maxSessionsPerName :: int
  s_identities :: "(Address, IdentityKey) fmap"
  s_preKeys :: "(u32, PreKey option) fmap"
  s_signedKeys :: "(u32, SignedPreKey option) fmap"
  s_kyberKeys :: "(u32, KyberPreKey option) fmap"
  s_sessions :: "(Address, bytes) fmap"
  s_senderKeys :: "(SenderKeyName, bytes) fmap"
  s_sesame :: "bytes option"

definition DefaultSignedPreKeyMaxAge :: int where
  "DefaultSignedPreKeyMaxAge = 30 * 24 * 3600 * 10 ^ 9"

definition DefaultMaxSessionsPerName :: int where
  "DefaultMaxSessionsPerName = 100"

definition NewStore :: "IdentityKeyPair option \<Rightarrow> u32 \<Rightarrow> Store" where
  "NewStore identity registrationID =
     \<lparr>s_identityKeyPair = identity, s_localRegistrationID = registrationID,
      s_signedPreKeyMaxAge = DefaultSignedPreKeyMaxAge, s_maxSessionsPerName = DefaultMaxSessionsPerName,
      s_identities = fmempty, s_preKeys = fmempty, s_signedKeys = fmempty, s_kyberKeys = fmempty,
      s_sessions = fmempty, s_senderKeys = fmempty, s_sesame = None\<rparr>"

definition SetSignedPreKeyMaxAge :: "int \<Rightarrow> Store \<Rightarrow> Store" where
  "SetSignedPreKeyMaxAge maxAge m = m\<lparr>s_signedPreKeyMaxAge := maxAge\<rparr>"

definition SetMaxSessionsPerName :: "int \<Rightarrow> Store \<Rightarrow> Store" where
  "SetMaxSessionsPerName maxSessions m = m\<lparr>s_maxSessionsPerName := maxSessions\<rparr>"

definition isZeroKey32 :: "bytes \<Rightarrow> bool" where
  "isZeroKey32 key = list_all (\<lambda>b. b = 0) key"

definition mem_GetIdentityKeyPair :: "Store \<Rightarrow> IdentityKeyPair option res" where
  "mem_GetIdentityKeyPair m = Inr (s_identityKeyPair m)"

definition mem_GetLocalRegistrationID :: "Store \<Rightarrow> u32 res" where
  "mem_GetLocalRegistrationID m = Inr (s_localRegistrationID m)"

definition mem_SaveIdentity :: "Address \<Rightarrow> IdentityKey option \<Rightarrow> Store \<Rightarrow> unit res \<times> Store" where
  "mem_SaveIdentity addr identityKey m =
     (case identityKey of
        None \<Rightarrow> (Inr (), m\<lparr>s_identities := fmdrop addr (s_identities m)\<rparr>)
      | Some ik \<Rightarrow>
          let clone =
            (if isZeroKey32 (ik_SigningPublic ik)
             then case fmlookup (s_identities m) addr of
                    None \<Rightarrow> ik
                  | Some existing \<Rightarrow>
                      if \<not> isZeroKey32 (ik_SigningPublic existing)
                      then ik\<lparr>ik_SigningPublic := ik_SigningPublic existing\<rparr> else ik
             else ik)
          in (Inr (), m\<lparr>s_identities := fmupd addr clone (s_identities m)\<rparr>))"

definition mem_IsTrustedIdentity :: "Address \<Rightarrow> IdentityKey option \<Rightarrow> Direction \<Rightarrow> Store \<Rightarrow> bool" where
  "mem_IsTrustedIdentity addr identityKey direction m =
     (case fmlookup (s_identities m) addr of
        None \<Rightarrow> True
      | Some existing \<Rightarrow>
          (case identityKey of
             None \<Rightarrow> False
           | Some ik \<Rightarrow>
               let dhOK = (ik_PublicKey existing = ik_PublicKey ik) in
               if isZeroKey32 (ik_SigningPublic existing) \<or> isZeroKey32 (ik_SigningPublic ik) then dhOK
               else ik_SigningPublic existing = ik_SigningPublic ik \<and> dhOK))"

definition mem_GetIdentity :: "Address \<Rightarrow> Store \<Rightarrow> IdentityKey option res" where
  "mem_GetIdentity addr m = Inr (fmlookup (s_identities m) addr)"

text \<open>Loading an entry: a missing entry and a stored \<^verbatim>\<open>nil\<close> are both returned as \<^verbatim>\<open>nil\<close>.\<close>

definition mem_load :: "('k, 'v option) fmap \<Rightarrow> 'k \<Rightarrow> 'v option res" where
  "mem_load f k = (case fmlookup f k of None \<Rightarrow> Inr None | Some v \<Rightarrow> Inr v)"

definition mem_LoadPreKey :: "u32 \<Rightarrow> Store \<Rightarrow> PreKey option res" where
  "mem_LoadPreKey keyID m = mem_load (s_preKeys m) keyID"

definition mem_StorePreKey :: "u32 \<Rightarrow> PreKey option \<Rightarrow> Store \<Rightarrow> unit res \<times> Store" where
  "mem_StorePreKey keyID v m = (Inr (), m\<lparr>s_preKeys := fmupd keyID v (s_preKeys m)\<rparr>)"

definition mem_ContainsPreKey :: "u32 \<Rightarrow> Store \<Rightarrow> bool" where
  "mem_ContainsPreKey keyID m = (keyID |\<in>| fmdom (s_preKeys m))"

definition mem_RemovePreKey :: "u32 \<Rightarrow> Store \<Rightarrow> unit res \<times> Store" where
  "mem_RemovePreKey keyID m = (Inr (), m\<lparr>s_preKeys := fmdrop keyID (s_preKeys m)\<rparr>)"

definition mem_LoadSignedPreKey :: "u32 \<Rightarrow> Store \<Rightarrow> SignedPreKey option res" where
  "mem_LoadSignedPreKey keyID m = mem_load (s_signedKeys m) keyID"

definition mem_StoreSignedPreKey :: "u32 \<Rightarrow> SignedPreKey option \<Rightarrow> Store \<Rightarrow> unit res \<times> Store" where
  "mem_StoreSignedPreKey keyID v m = (Inr (), m\<lparr>s_signedKeys := fmupd keyID v (s_signedKeys m)\<rparr>)"

definition mem_ContainsSignedPreKey :: "u32 \<Rightarrow> Store \<Rightarrow> bool" where
  "mem_ContainsSignedPreKey keyID m = (keyID |\<in>| fmdom (s_signedKeys m))"

definition mem_RemoveSignedPreKey :: "u32 \<Rightarrow> Store \<Rightarrow> unit res \<times> Store" where
  "mem_RemoveSignedPreKey keyID m = (Inr (), m\<lparr>s_signedKeys := fmdrop keyID (s_signedKeys m)\<rparr>)"

definition mem_LoadKyberPreKey :: "u32 \<Rightarrow> Store \<Rightarrow> KyberPreKey option res" where
  "mem_LoadKyberPreKey keyID m = mem_load (s_kyberKeys m) keyID"

definition mem_StoreKyberPreKey :: "u32 \<Rightarrow> KyberPreKey option \<Rightarrow> Store \<Rightarrow> unit res \<times> Store" where
  "mem_StoreKyberPreKey keyID v m = (Inr (), m\<lparr>s_kyberKeys := fmupd keyID v (s_kyberKeys m)\<rparr>)"

definition mem_ContainsKyberPreKey :: "u32 \<Rightarrow> Store \<Rightarrow> bool" where
  "mem_ContainsKyberPreKey keyID m = (keyID |\<in>| fmdom (s_kyberKeys m))"

definition mem_RemoveKyberPreKey :: "u32 \<Rightarrow> Store \<Rightarrow> unit res \<times> Store" where
  "mem_RemoveKyberPreKey keyID m = (Inr (), m\<lparr>s_kyberKeys := fmdrop keyID (s_kyberKeys m)\<rparr>)"

definition mem_SignedPreKeyExpired :: "SignedPreKey option \<Rightarrow> int \<Rightarrow> Store \<Rightarrow> bool" where
  "mem_SignedPreKeyExpired signedPreKey now m =
     (case signedPreKey of
        None \<Rightarrow> True
      | Some spk \<Rightarrow>
          let maxAge = s_signedPreKeyMaxAge m in
          if maxAge \<le> 0 then False
          else if spk_Timestamp spk = 0 then True
          else let age = max (- (2 ^ 63)) (min (2 ^ 63 - 1) (now - spk_Timestamp spk)) in
            if age < 0 then False else age > maxAge)"

definition mem_LoadSession :: "Address \<Rightarrow> Store \<Rightarrow> bytes option res" where
  "mem_LoadSession addr m = Inr (fmlookup (s_sessions m) addr)"

definition mem_StoreSession :: "Address \<Rightarrow> bytes option \<Rightarrow> Store \<Rightarrow> unit res \<times> Store" where
  "mem_StoreSession addr rec m =
     (case rec of
        None \<Rightarrow> (Inr (), m\<lparr>s_sessions := fmdrop addr (s_sessions m)\<rparr>)
      | Some data \<Rightarrow> (Inr (), m\<lparr>s_sessions := fmupd addr data (s_sessions m)\<rparr>))"

definition mem_ContainsSession :: "Address \<Rightarrow> Store \<Rightarrow> bool" where
  "mem_ContainsSession addr m = (addr |\<in>| fmdom (s_sessions m))"

definition mem_DeleteSession :: "Address \<Rightarrow> Store \<Rightarrow> unit res \<times> Store" where
  "mem_DeleteSession addr m = (Inr (), m\<lparr>s_sessions := fmdrop addr (s_sessions m)\<rparr>)"

definition mem_DeleteAllSessions :: "string \<Rightarrow> Store \<Rightarrow> unit res \<times> Store" where
  "mem_DeleteAllSessions name m =
     (Inr (), m\<lparr>s_sessions := fmfilter (\<lambda>addr. addr_Name addr \<noteq> name) (s_sessions m)\<rparr>)"

text \<open>
  Trimming removes sessions in the order in which Go happens to walk the map.  That order is the
  argument \<open>pick\<close>: it names the entry that the walk meets first among the candidates.
\<close>

definition pick_from :: "(Address fset \<Rightarrow> Address) \<Rightarrow> Address fset \<Rightarrow> Address" where
  "pick_from pick C = (if pick C |\<in>| C then pick C else hd (sorted_list_of_fset C))"

definition named :: "string \<Rightarrow> (Address, bytes) fmap \<Rightarrow> Address fset" where
  "named name ss = ffilter (\<lambda>addr. addr_Name addr = name) (fmdom ss)"

function EnforceSessionLimit_loop ::
    "(Address fset \<Rightarrow> Address) \<Rightarrow> Address \<Rightarrow> int \<Rightarrow> int \<Rightarrow> (Address, bytes) fmap \<Rightarrow> (Address, bytes) fmap" where
  "EnforceSessionLimit_loop pick address limit cnt ss =
     (if cnt > limit then
        let C = named (addr_Name address) ss |-| {|address|} in
        if C = {||} then ss
        else EnforceSessionLimit_loop pick address limit (cnt - 1) (fmdrop (pick_from pick C) ss)
      else ss)"
  by pat_completeness auto
termination by (relation "measure (\<lambda>(pick, address, limit, cnt, ss). nat (cnt - limit))") auto

definition mem_EnforceSessionLimit ::
    "(Address fset \<Rightarrow> Address) \<Rightarrow> Address \<Rightarrow> Store \<Rightarrow> unit res \<times> Store" where
  "mem_EnforceSessionLimit pick address m =
     (if s_maxSessionsPerName m \<le> 0 then (Inr (), m)
      else if addr_Name address = '''' then (Inr (), m)
      else let cnt = int (fcard (named (addr_Name address) (s_sessions m))) in
        (Inr (), m\<lparr>s_sessions :=
           EnforceSessionLimit_loop pick address (s_maxSessionsPerName m) cnt (s_sessions m)\<rparr>))"

definition mem_LoadSenderKey :: "SenderKeyName \<Rightarrow> Store \<Rightarrow> bytes option res" where
  "mem_LoadSenderKey name m = Inr (fmlookup (s_senderKeys m) name)"

definition mem_StoreSenderKey :: "SenderKeyName \<Rightarrow> bytes option \<Rightarrow> Store \<Rightarrow> unit res \<times> Store" where
  "mem_StoreSenderKey name rec m =
     (case rec of
        None \<Rightarrow> (Inr (), m\<lparr>s_senderKeys := fmdrop name (s_senderKeys m)\<rparr>)
      | Some data \<Rightarrow> (Inr (), m\<lparr>s_senderKeys := fmupd name data (s_senderKeys m)\<rparr>))"

definition mem_ContainsSenderKey :: "SenderKeyName \<Rightarrow> Store \<Rightarrow> bool" where
  "mem_ContainsSenderKey name m = (name |\<in>| fmdom (s_senderKeys m))"

definition mem_DeleteSenderKey :: "SenderKeyName \<Rightarrow> Store \<Rightarrow> unit res \<times> Store" where
  "mem_DeleteSenderKey name m = (Inr (), m\<lparr>s_senderKeys := fmdrop name (s_senderKeys m)\<rparr>)"

definition mem_DeleteAllSenderKeys :: "string \<Rightarrow> Store \<Rightarrow> unit res \<times> Store" where
  "mem_DeleteAllSenderKeys grp m =
     (Inr (), m\<lparr>s_senderKeys := fmfilter (\<lambda>name. skn_Group name \<noteq> grp) (s_senderKeys m)\<rparr>)"

definition mem_LoadSesameState :: "Store \<Rightarrow> bytes option res" where
  "mem_LoadSesameState m = Inr (s_sesame m)"

definition mem_StoreSesameState :: "bytes option \<Rightarrow> Store \<Rightarrow> unit res \<times> Store" where
  "mem_StoreSesameState rec m = (Inr (), m\<lparr>s_sesame := rec\<rparr>)"

definition mem_DeleteSesameState :: "Store \<Rightarrow> unit res \<times> Store" where
  "mem_DeleteSesameState m = (Inr (), m\<lparr>s_sesame := None\<rparr>)"

definition mem_store :: "(Address fset \<Rightarrow> Address) \<Rightarrow> Store ProtocolStore" where
  "mem_store pick = \<lparr>
     GetIdentityKeyPair = mem_GetIdentityKeyPair,
     GetLocalRegistrationID = mem_GetLocalRegistrationID,
     SaveIdentity = mem_SaveIdentity,
     IsTrustedIdentity = mem_IsTrustedIdentity,
     GetIdentity = mem_GetIdentity,
     LoadPreKey = mem_LoadPreKey,
     StorePreKey = mem_StorePreKey,
     ContainsPreKey = mem_ContainsPreKey,
     RemovePreKey = mem_RemovePreKey,
     LoadSignedPreKey = mem_LoadSignedPreKey,
     StoreSignedPreKey = mem_StoreSignedPreKey,
     ContainsSignedPreKey = mem_ContainsSignedPreKey,
     RemoveSignedPreKey = mem_RemoveSignedPreKey,
     SignedPreKeyExpired = mem_SignedPreKeyExpired,
     LoadKyberPreKey = mem_LoadKyberPreKey,
     StoreKyberPreKey = mem_StoreKyberPreKey,
     ContainsKyberPreKey = mem_ContainsKyberPreKey,
     RemoveKyberPreKey = mem_RemoveKyberPreKey,
     LoadSession = mem_LoadSession,
     StoreSession = mem_StoreSession,
     ContainsSession = mem_ContainsSession,
     DeleteSession = mem_DeleteSession,
     DeleteAllSessions = mem_DeleteAllSessions,
     EnforceSessionLimit = mem_EnforceSessionLimit pick,
     LoadSenderKey = mem_LoadSenderKey,
     StoreSenderKey = mem_StoreSenderKey,
     ContainsSenderKey = mem_ContainsSenderKey,
     DeleteSenderKey = mem_DeleteSenderKey,
     DeleteAllSenderKeys = mem_DeleteAllSenderKeys,
     LoadSesameState = mem_LoadSesameState,
     StoreSesameState = mem_StoreSesameState,
     DeleteSesameState = mem_DeleteSesameState\<rparr>"

section \<open>What the clients rely on\<close>

text \<open>
  One entry of a store: writing it makes the next load return it and leaves the other entries alone.
\<close>

locale session_store =
  fixes S :: "'s ProtocolStore"
  assumes store_session: "StoreSession S a (Some d) st = (Inr (), st') \<Longrightarrow>
      LoadSession S b st' = (if b = a then Inr (Some d) else LoadSession S b st)"
    and store_session_ok: "fst (StoreSession S a (Some d) st) = Inr ()"

locale prekey_store =
  fixes S :: "'s ProtocolStore"
  assumes remove_prekey: "RemovePreKey S i st = (Inr (), st') \<Longrightarrow>
      LoadPreKey S j st' = (if j = i then Inr None else LoadPreKey S j st)"
    and remove_prekey_ok: "fst (RemovePreKey S i st) = Inr ()"
    and remove_prekey_kyber: "LoadKyberPreKey S j (snd (RemovePreKey S i st)) = LoadKyberPreKey S j st"

locale sender_key_store =
  fixes S :: "'s ProtocolStore"
  assumes store_sender_key: "StoreSenderKey S n (Some d) st = (Inr (), st') \<Longrightarrow>
      LoadSenderKey S k st' = (if k = n then Inr (Some d) else LoadSenderKey S k st)"
    and store_sender_key_ok: "fst (StoreSenderKey S n (Some d) st) = Inr ()"

locale protocol_store = session_store + prekey_store + sender_key_store

lemmas mem_defs = mem_store_def mem_StoreSession_def mem_LoadSession_def mem_LoadPreKey_def mem_load_def
  mem_RemovePreKey_def mem_LoadKyberPreKey_def mem_StoreSenderKey_def mem_LoadSenderKey_def

interpretation mem: protocol_store "mem_store pick" for pick
  by unfold_locales (auto simp: mem_defs)

section \<open>Trimming sessions\<close>

declare EnforceSessionLimit_loop.simps [simp del]

lemma pick_from_in: "C \<noteq> {||} \<Longrightarrow> pick_from pick C |\<in>| C"
proof -
  assume "C \<noteq> {||}"
  then have "sorted_list_of_fset C \<noteq> []" by (metis fset_rebuild fset_of_list_simps(1))
  then have "hd (sorted_list_of_fset C) \<in> set (sorted_list_of_fset C)" by (rule hd_in_set)
  then show ?thesis by (simp add: pick_from_def)
qed

lemma named_drop: "named n (fmdrop a ss) = named n ss |-| {|a|}"
  by (auto simp: named_def)

lemma EnforceSessionLimit_loop_keeps:
  "x = address \<or> addr_Name x \<noteq> addr_Name address \<Longrightarrow>
     fmlookup (EnforceSessionLimit_loop pick address limit cnt ss) x = fmlookup ss x"
proof (induction pick address limit cnt ss rule: EnforceSessionLimit_loop.induct)
  case (1 pick address limit cnt ss)
  let ?C = "named (addr_Name address) ss |-| {|address|}"
  have "x \<noteq> pick_from pick ?C" if "?C \<noteq> {||}"
    using pick_from_in [OF that] "1.prems" by (auto simp: named_def)
  then show ?case using 1 by (subst EnforceSessionLimit_loop.simps) (auto simp: Let_def)
qed

lemma EnforceSessionLimit_loop_sub:
  "fmlookup (EnforceSessionLimit_loop pick address limit cnt ss) x = Some d \<Longrightarrow> fmlookup ss x = Some d"
proof (induction pick address limit cnt ss rule: EnforceSessionLimit_loop.induct)
  case (1 pick address limit cnt ss)
  from "1.prems" show ?case
    by (subst (asm) EnforceSessionLimit_loop.simps)
      (auto simp: Let_def split: if_splits dest: "1.IH" [OF _ refl])
qed

lemma EnforceSessionLimit_loop_count:
  assumes "0 < limit" "cnt = int (fcard (named (addr_Name address) ss))"
  shows "int (fcard (named (addr_Name address) (EnforceSessionLimit_loop pick address limit cnt ss))) = min limit cnt"
  using assms
proof (induction pick address limit cnt ss rule: EnforceSessionLimit_loop.induct)
  case (1 pick address limit cnt ss)
  let ?n = "named (addr_Name address) ss"
  let ?C = "?n |-| {|address|}"
  show ?case
  proof (cases "limit < cnt \<and> ?C \<noteq> {||}")
    case True
    then have "pick_from pick ?C |\<in>| ?n" using pick_from_in [of ?C pick] by auto
    then have "fcard (named (addr_Name address) (fmdrop (pick_from pick ?C) ss)) = fcard ?n - 1"
      "0 < fcard ?n"
      by (auto simp: named_drop fcard.rep_eq card_gt_0_iff)
    then have "cnt - 1 = int (fcard (named (addr_Name address) (fmdrop (pick_from pick ?C) ss)))"
      using "1.prems" by simp
    with True 1 show ?thesis by (subst EnforceSessionLimit_loop.simps) (simp add: Let_def)
  next
    case False
    moreover have "fcard ?n \<le> 1" if "?C = {||}"
    proof -
      have "?n |\<subseteq>| {|address|}" using that by auto
      then have "fcard ?n \<le> fcard {|address|}" by (rule fcard_mono)
      then show ?thesis by (simp add: fcard.rep_eq)
    qed
    ultimately show ?thesis using "1.prems"
      by (subst EnforceSessionLimit_loop.simps) (auto simp: Let_def)
  qed
qed

section \<open>Properties\<close>

text \<open>
  C20: \<open>EnforceSessionLimit\<close> with a positive limit always succeeds and leaves exactly
  \<open>min limit count\<close> sessions of the name, in whatever order Go walks the map: it removes no
  session when the limit is not exceeded, and otherwise no more than it has to.  It keeps the session
  of the given address and all sessions of other names, it changes no session that it keeps, and it
  touches nothing else in the store.
\<close>

theorem EnforceSessionLimit_correct:
  assumes "mem_EnforceSessionLimit pick address m = (r, m')" "0 < s_maxSessionsPerName m" "addr_Name address \<noteq> ''''"
  shows "r = Inr () \<and> m' = m\<lparr>s_sessions := s_sessions m'\<rparr> \<and>
     int (fcard (named (addr_Name address) (s_sessions m'))) =
       min (s_maxSessionsPerName m) (int (fcard (named (addr_Name address) (s_sessions m)))) \<and>
     (int (fcard (named (addr_Name address) (s_sessions m))) \<le> s_maxSessionsPerName m \<longrightarrow> m' = m) \<and>
     (\<forall>x. (x = address \<or> addr_Name x \<noteq> addr_Name address \<longrightarrow> fmlookup (s_sessions m') x = fmlookup (s_sessions m) x) \<and>
          (\<forall>d. fmlookup (s_sessions m') x = Some d \<longrightarrow> fmlookup (s_sessions m) x = Some d))"
proof -
  let ?c = "int (fcard (named (addr_Name address) (s_sessions m)))"
  let ?l = "EnforceSessionLimit_loop pick address (s_maxSessionsPerName m) ?c (s_sessions m)"
  have m: "r = Inr ()" "m' = m\<lparr>s_sessions := ?l\<rparr>" using assms by (auto simp: mem_EnforceSessionLimit_def)
  have "?l = s_sessions m" if "?c \<le> s_maxSessionsPerName m"
    using that by (subst EnforceSessionLimit_loop.simps) simp
  then show ?thesis
    using EnforceSessionLimit_loop_count [OF assms(2) refl] m
    by (auto simp: EnforceSessionLimit_loop_keeps intro: EnforceSessionLimit_loop_sub)
qed

theorem EnforceSessionLimit_correct_witness:
  "\<exists>m'. mem_EnforceSessionLimit (\<lambda>C. Address ''bob'' 1) (Address ''bob'' 2)
        (SetMaxSessionsPerName 2 ((NewStore None 7)\<lparr>s_sessions :=
          fmupd (Address ''bob'' 1) [1] (fmupd (Address ''bob'' 2) [2] (fmupd (Address ''bob'' 3) [3] fmempty))\<rparr>)) = (Inr (), m') \<and>
     fmlookup (s_sessions m') (Address ''bob'' 2) = Some [2] \<and>
     fcard (named ''bob'' (s_sessions m')) = 2"
proof -
  let ?ss = "fmupd (Address ''bob'' 1) [1] (fmupd (Address ''bob'' 2) [2] (fmupd (Address ''bob'' 3) [3] fmempty)) :: (Address, bytes) fmap"
  let ?m = "SetMaxSessionsPerName 2 ((NewStore None 7)\<lparr>s_sessions := ?ss\<rparr>)"
  obtain m' where m': "mem_EnforceSessionLimit (\<lambda>C. Address ''bob'' 1) (Address ''bob'' 2) ?m = (Inr (), m')"
    by (simp add: mem_EnforceSessionLimit_def SetMaxSessionsPerName_def Let_def)
  have n: "named ''bob'' ?ss = {|Address ''bob'' 1, Address ''bob'' 2, Address ''bob'' 3|}"
    by (auto simp: named_def)
  have "fcard (named ''bob'' ?ss) = 3" unfolding n by (simp add: fcard.rep_eq)
  moreover have "0 < s_maxSessionsPerName ?m" "addr_Name (Address ''bob'' 2) \<noteq> ''''"
    by (simp_all add: SetMaxSessionsPerName_def)
  ultimately show ?thesis
    using EnforceSessionLimit_correct [OF m'] m' by (simp add: SetMaxSessionsPerName_def)
qed

end
