(* ===== verification/Keys_Serialize.thy ===== *)
theory Keys_Serialize
  imports Keys
begin

text \<open>
  The versioned byte formats of identity keys, pre-keys and bundles (\<^verbatim>\<open>keys/serialize.go\<close>).  Lengths are
  written as 16-bit numbers, so a field of \<open>2 ^ 16\<close> bytes or more does not survive; the round trips say
  so.  The bundle decoder's cursor is the list of bytes it has not read yet.
\<close>

section \<open>Identity keys and pre-keys\<close>

definition serializeVersion :: byte where
  "serializeVersion = 1"

definition IdentityKey_Serialize :: "IdentityKey \<Rightarrow> bytes" where
  "IdentityKey_Serialize k = serializeVersion # arr 32 (ik_PublicKey k) @ arr 32 (ik_SigningPublic k)"

definition DeserializeIdentityKey :: "'z prims_scheme \<Rightarrow> bytes \<Rightarrow> IdentityKey res" where
  "DeserializeIdentityKey P data =
     (if length data \<noteq> 1 + 32 + 32 then Inl (ErrText ''identity key: invalid length'')
      else if data ! 0 \<noteq> serializeVersion then Inl (ErrText ''identity key: unsupported version'')
      else let k = \<lparr>ik_PublicKey = arr 32 (take 32 (drop 1 data)), ik_SigningPublic = arr 32 (drop 33 data)\<rparr> in
        case ValidatePublicKey P (ik_PublicKey k) of
          Inl _ \<Rightarrow> Inl ErrInvalidKey
        | Inr _ \<Rightarrow> Inr k)"

definition PreKey_Serialize :: "PreKey \<Rightarrow> bytes res" where
  "PreKey_Serialize p =
     (case pk_KeyPair p of
        None \<Rightarrow> Inl (ErrText ''pre-key is nil'')
      | Some kp \<Rightarrow> Inr (serializeVersion # put_u32 (pk_ID p) @ arr 32 (kp_PublicKey kp)))"

definition DeserializePreKey :: "'z prims_scheme \<Rightarrow> bytes \<Rightarrow> PreKey res" where
  "DeserializePreKey P data =
     (if length data \<noteq> 1 + 4 + 32 then Inl (ErrText ''pre-key: invalid length'')
      else if data ! 0 \<noteq> serializeVersion then Inl (ErrText ''pre-key: unsupported version'')
      else let keyID = get_u32 (drop 1 data); pub = arr 32 (drop 5 data) in
        case ValidatePublicKey P pub of
          Inl _ \<Rightarrow> Inl ErrInvalidKey
        | Inr _ \<Rightarrow> Inr \<lparr>pk_ID = keyID,
                        pk_KeyPair = Some \<lparr>kp_PublicKey = pub, kp_PrivateKey = zero32\<rparr>,
                        pk_Timestamp = 0\<rparr>)"

definition SignedPreKey_Serialize :: "SignedPreKey \<Rightarrow> bytes res" where
  "SignedPreKey_Serialize spk =
     (case spk_KeyPair spk of
        None \<Rightarrow> Inl (ErrText ''signed pre-key is nil'')
      | Some kp \<Rightarrow>
          if length (spk_Signature spk) = 0 then Inl (ErrText ''signed pre-key missing signature'')
          else Inr (serializeVersion # put_u32 (spk_ID spk) @ put_u16 (of_nat (length (spk_Signature spk)))
                    @ arr 32 (kp_PublicKey kp) @ spk_Signature spk))"

definition DeserializeSignedPreKey :: "'z prims_scheme \<Rightarrow> bytes \<Rightarrow> SignedPreKey res" where
  "DeserializeSignedPreKey P data =
     (if length data < 1 + 4 + 2 + 32 then Inl (ErrText ''signed pre-key: invalid length'')
      else if data ! 0 \<noteq> serializeVersion then Inl (ErrText ''signed pre-key: unsupported version'')
      else let sigLen = unat (get_u16 (drop 5 data)) in
        if length data \<noteq> 1 + 4 + 2 + 32 + sigLen then Inl (ErrText ''signed pre-key: signature length mismatch'')
        else let keyID = get_u32 (drop 1 data); pub = arr 32 (take 32 (drop 7 data)) in
          case ValidatePublicKey P pub of
            Inl _ \<Rightarrow> Inl ErrInvalidKey
          | Inr _ \<Rightarrow> Inr \<lparr>spk_ID = keyID,
                          spk_KeyPair = Some \<lparr>kp_PublicKey = pub, kp_PrivateKey = zero32\<rparr>,
                          spk_Signature = drop 39 data, spk_Timestamp = 0\<rparr>)"

section \<open>Bundles\<close>

definition PreKeyBundle_Serialize :: "PreKeyBundle \<Rightarrow> bytes res" where
  "PreKeyBundle_Serialize b =
     (if (b_KyberPreKeyID b = None) \<noteq> (length (b_KyberPreKeyPublic b) = 0)
      then Inl (ErrText ''bundle: kyber pre-key id/key mismatch'')
      else if (b_KyberPreKeyID b = None) \<noteq> (length (b_KyberPreKeySignature b) = 0)
      then Inl (ErrText ''bundle: kyber pre-key id/signature mismatch'')
      else Inr ([serializeVersion] @ put_u32 (b_RegistrationID b) @ put_u32 (b_DeviceID b)
        @ (case (b_PreKeyID b, b_PreKeyPublic b) of
             (Some preID, Some prePub) \<Rightarrow> [1] @ put_u32 preID @ arr 32 prePub
           | _ \<Rightarrow> [0])
        @ put_u32 (b_SignedPreKeyID b) @ arr 32 (b_SignedPreKeyPublic b)
        @ put_u16 (of_nat (length (b_SignedPreKeySignature b))) @ b_SignedPreKeySignature b
        @ IdentityKey_Serialize (b_IdentityKey b)
        @ (case b_KyberPreKeyID b of
             None \<Rightarrow> []
           | Some kyberID \<Rightarrow>
               if length (b_KyberPreKeyPublic b) > 0 \<and> length (b_KyberPreKeySignature b) > 0
               then [1] @ put_u32 kyberID @ put_u16 (of_nat (length (b_KyberPreKeyPublic b)))
                    @ b_KyberPreKeyPublic b @ put_u16 (of_nat (length (b_KyberPreKeySignature b)))
                    @ b_KyberPreKeySignature b
               else [])))"

text \<open>The optional trailing Kyber section: identifier, public key, signature and the unread bytes.\<close>

definition dec_bundle_kyber :: "bytes \<Rightarrow> (u32 option \<times> bytes \<times> bytes \<times> bytes) res" where
  "dec_bundle_kyber bs =
     (if bs = [] then Inr (None, [], [], bs)
      else let hasKyber = bs ! 0; bs = drop 1 bs in
        if hasKyber = 1 then
          if length bs < 4 + 2 then Inl (ErrText ''bundle: truncated kyber header'')
          else let keyID = get_u32 bs; pubLen = unat (get_u16 (drop 4 bs)); bs = drop 6 bs in
            if pubLen \<le> 0 \<or> length bs < pubLen then Inl (ErrText ''bundle: truncated kyber public key'')
            else let kyberPub = take pubLen bs; bs = drop pubLen bs in
              if length bs < 2 then Inl (ErrText ''bundle: truncated kyber signature length'')
              else let sigLen = unat (get_u16 bs); bs = drop 2 bs in
                if sigLen \<le> 0 \<or> length bs < sigLen then Inl (ErrText ''bundle: truncated kyber signature'')
                else Inr (Some keyID, kyberPub, take sigLen bs, drop sigLen bs)
        else if hasKyber \<noteq> 0 then Inl (ErrText ''bundle: invalid kyber flag'')
        else Inr (None, [], [], bs))"

text \<open>The signed pre-key section: identifier, public key, signature and the unread bytes.\<close>

definition dec_bundle_signed :: "bytes \<Rightarrow> (u32 \<times> bytes \<times> bytes \<times> bytes) res" where
  "dec_bundle_signed bs =
     (if length bs < 4 + 32 + 2 then Inl (ErrText ''bundle: truncated signed pre-key'')
      else let signedID = get_u32 bs; signedPub = arr 32 (take 32 (drop 4 bs));
               sigLen = unat (get_u16 (drop 36 bs)); bs = drop 38 bs in
        if length bs < sigLen then Inl (ErrText ''bundle: truncated signature'')
        else Inr (signedID, signedPub, take sigLen bs, drop sigLen bs))"

definition DeserializePreKeyBundle :: "'z prims_scheme \<Rightarrow> bytes \<Rightarrow> PreKeyBundle res" where
  "DeserializePreKeyBundle P data =
     (if length data < 1 + 4 + 4 + 1 + 4 + 32 + 4 + 32 + 2 then Inl (ErrText ''bundle: invalid length'')
      else if data ! 0 \<noteq> serializeVersion then Inl (ErrText ''bundle: unsupported version'')
      else let reg = get_u32 (drop 1 data); device = get_u32 (drop 5 data); hasPreKey = data ! 9;
               bs = drop 10 data in
        bindR (if hasPreKey = 1
               then if length bs < 4 + 32 then Inl (ErrText ''bundle: truncated pre-key'')
                    else Inr (Some (get_u32 bs), Some (arr 32 (take 32 (drop 4 bs))), drop 36 bs)
               else Inr (None, None, bs)) (\<lambda>(preKeyID, preKeyPub, bs).
        bindR (dec_bundle_signed bs) (\<lambda>(signedID, signedPub, sig, bs).
        if length bs < 65 then Inl (ErrText ''bundle: truncated identity key'')
        else bindR (DeserializeIdentityKey P (take 65 bs)) (\<lambda>identity.
          bindR (dec_bundle_kyber (drop 65 bs)) (\<lambda>(kyberID, kyberPub, kyberSig, bs).
          if bs \<noteq> [] then Inl (ErrText ''bundle: trailing data'')
          else Inr \<lparr>b_RegistrationID = reg, b_DeviceID = device, b_PreKeyID = preKeyID,
                    b_PreKeyPublic = preKeyPub, b_SignedPreKeyID = signedID,
                    b_SignedPreKeyPublic = signedPub, b_SignedPreKeySignature = sig,
                    b_KyberPreKeyID = kyberID, b_KyberPreKeyPublic = kyberPub,
                    b_KyberPreKeySignature = kyberSig, b_IdentityKey = identity\<rparr>)))))"

section \<open>Round trips\<close>

definition ik_ok :: "'z prims_scheme \<Rightarrow> IdentityKey \<Rightarrow> bool" where
  "ik_ok P k \<longleftrightarrow> length (ik_PublicKey k) = 32 \<and> length (ik_SigningPublic k) = 32 \<and>
     IsValidPublicKey P (ik_PublicKey k)"

text \<open>What the bundle format can carry.\<close>

definition bundle_ok :: "'z prims_scheme \<Rightarrow> PreKeyBundle \<Rightarrow> bool" where
  "bundle_ok P b \<longleftrightarrow> ik_ok P (b_IdentityKey b) \<and>
     (b_PreKeyID b = None \<longleftrightarrow> b_PreKeyPublic b = None) \<and>
     (\<forall>pub \<in> set_option (b_PreKeyPublic b). length pub = 32) \<and>
     length (b_SignedPreKeyPublic b) = 32 \<and> length (b_SignedPreKeySignature b) < 2 ^ 16 \<and>
     (b_KyberPreKeyID b = None \<longleftrightarrow> b_KyberPreKeyPublic b = []) \<and>
     (b_KyberPreKeyID b = None \<longleftrightarrow> b_KyberPreKeySignature b = []) \<and>
     length (b_KyberPreKeyPublic b) < 2 ^ 16 \<and> length (b_KyberPreKeySignature b) < 2 ^ 16"

lemma length_IdentityKey_Serialize [simp]: "length (IdentityKey_Serialize k) = 65"
  by (simp add: IdentityKey_Serialize_def)

lemma IdentityKey_roundtrip:
  "ik_ok P k \<Longrightarrow> DeserializeIdentityKey P (IdentityKey_Serialize k) = Inr k"
  by (simp add: DeserializeIdentityKey_def IdentityKey_Serialize_def ik_ok_def ValidatePublicKey_def codec)

lemma unat_of_nat_u16 [simp]: "n < 65536 \<Longrightarrow> unat (of_nat n :: u16) = n"
  by (simp add: unat_of_nat)

lemma bundle_kyber_roundtrip:
  assumes "k \<noteq> []" "s \<noteq> []" "length k < 2 ^ 16" "length s < 2 ^ 16"
  shows "dec_bundle_kyber ([1] @ put_u32 i @ put_u16 (of_nat (length k)) @ k @ put_u16 (of_nat (length s)) @ s)
    = Inr (Some i, k, s, [])"
  using assms by (simp add: dec_bundle_kyber_def Let_def codec)

lemma bundle_signed_roundtrip:
  assumes "length pub = 32" "length sig < 2 ^ 16"
  shows "dec_bundle_signed (put_u32 i @ pub @ put_u16 (of_nat (length sig)) @ sig @ r) = Inr (i, pub, sig, r)"
  using assms by (simp add: dec_bundle_signed_def Let_def codec)

text \<open>The Kyber section of a bundle, as the encoder writes it.\<close>

definition kyber_section :: "PreKeyBundle \<Rightarrow> bytes" where
  "kyber_section b =
     (case b_KyberPreKeyID b of
        None \<Rightarrow> []
      | Some i \<Rightarrow> [1] @ put_u32 i @ put_u16 (of_nat (length (b_KyberPreKeyPublic b))) @ b_KyberPreKeyPublic b
          @ put_u16 (of_nat (length (b_KyberPreKeySignature b))) @ b_KyberPreKeySignature b)"

lemma kyber_section_roundtrip:
  "bundle_ok P b \<Longrightarrow> dec_bundle_kyber (kyber_section b) =
     Inr (b_KyberPreKeyID b, b_KyberPreKeyPublic b, b_KyberPreKeySignature b, [])"
  using bundle_kyber_roundtrip
  by (auto simp: kyber_section_def bundle_ok_def dec_bundle_kyber_def split: option.splits)

lemma bundle_roundtrip:
  assumes "bundle_ok P b"
  shows "\<exists>data. PreKeyBundle_Serialize b = Inr data \<and> DeserializePreKeyBundle P data = Inr b"
proof -
  have ser: "PreKeyBundle_Serialize b = Inr ([serializeVersion] @ put_u32 (b_RegistrationID b) @ put_u32 (b_DeviceID b)
        @ (case (b_PreKeyID b, b_PreKeyPublic b) of
             (Some preID, Some prePub) \<Rightarrow> [1] @ put_u32 preID @ arr 32 prePub
           | _ \<Rightarrow> [0])
        @ put_u32 (b_SignedPreKeyID b) @ arr 32 (b_SignedPreKeyPublic b)
        @ put_u16 (of_nat (length (b_SignedPreKeySignature b))) @ b_SignedPreKeySignature b
        @ IdentityKey_Serialize (b_IdentityKey b) @ kyber_section b)" (is "_ = Inr ?data")
    using assms
    by (auto simp: PreKeyBundle_Serialize_def kyber_section_def bundle_ok_def split: option.splits)
  have b: "ik_ok P (b_IdentityKey b)" "length (b_SignedPreKeyPublic b) = 32"
    "length (b_SignedPreKeySignature b) < 65536"
    using assms by (simp_all add: bundle_ok_def)
  have "DeserializePreKeyBundle P ?data = Inr b"
  proof (cases "b_PreKeyID b")
    case None
    then have "b_PreKeyPublic b = None" using assms by (simp add: bundle_ok_def)
    with None b show ?thesis
      by (simp add: DeserializePreKeyBundle_def Let_def nth_append codec IdentityKey_roundtrip bundle_signed_roundtrip
          kyber_section_roundtrip [OF assms])
  next
    case (Some i)
    then obtain pub where "b_PreKeyPublic b = Some pub" "length pub = 32"
      using assms by (auto simp: bundle_ok_def)
    with Some b show ?thesis
      by (simp add: DeserializePreKeyBundle_def Let_def nth_append codec IdentityKey_roundtrip bundle_signed_roundtrip
          kyber_section_roundtrip [OF assms])
  qed
  with ser show ?thesis by blast
qed

lemma PreKey_roundtrip:
  assumes "pk_KeyPair p = Some kp" "length (kp_PublicKey kp) = 32" "IsValidPublicKey P (kp_PublicKey kp)"
  shows "\<exists>data. PreKey_Serialize p = Inr data \<and> DeserializePreKey P data =
    Inr \<lparr>pk_ID = pk_ID p, pk_KeyPair = Some (kp\<lparr>kp_PrivateKey := zero32\<rparr>), pk_Timestamp = 0\<rparr>"
  using assms by (simp add: PreKey_Serialize_def DeserializePreKey_def ValidatePublicKey_def codec)

lemma SignedPreKey_roundtrip:
  assumes "spk_KeyPair p = Some kp" "length (kp_PublicKey kp) = 32" "IsValidPublicKey P (kp_PublicKey kp)"
    and "0 < length (spk_Signature p)" "length (spk_Signature p) < 2 ^ 16"
  shows "\<exists>data. SignedPreKey_Serialize p = Inr data \<and> DeserializeSignedPreKey P data =
    Inr \<lparr>spk_ID = spk_ID p, spk_KeyPair = Some (kp\<lparr>kp_PrivateKey := zero32\<rparr>),
         spk_Signature = spk_Signature p, spk_Timestamp = 0\<rparr>"
  using assms
  by (simp add: SignedPreKey_Serialize_def DeserializeSignedPreKey_def ValidatePublicKey_def Let_def codec)

lemma unat_u16_less: "unat (n :: u16) < 65536"
proof -
  have "unat n < 2 ^ LENGTH(16)" by (rule unsigned_less)
  then show ?thesis by simp
qed

lemma dec_bundle_kyber_sound:
  assumes "dec_bundle_kyber bs = Inr (kid, kp, ks, r)"
  shows "(kid = None \<longleftrightarrow> kp = []) \<and> (kid = None \<longleftrightarrow> ks = []) \<and> length kp < 65536 \<and> length ks < 65536"
  using assms unat_u16_less [of "get_u16 (drop 5 bs)"]
    unat_u16_less [of "get_u16 (drop (7 + unat (get_u16 (drop 5 bs))) bs)"]
  by (auto simp: dec_bundle_kyber_def Let_def add.commute split: if_splits)

lemma dec_bundle_signed_sound:
  "dec_bundle_signed bs = Inr (i, pub, sig, r) \<Longrightarrow> length pub = 32 \<and> length sig < 65536"
  using unat_u16_less [of "get_u16 (drop 36 bs)"]
  by (auto simp: dec_bundle_signed_def Let_def split: if_splits)

lemma DeserializeIdentityKey_sound: "DeserializeIdentityKey P data = Inr k \<Longrightarrow> ik_ok P k"
  by (auto simp: DeserializeIdentityKey_def ik_ok_def ValidatePublicKey_def Let_def split: if_splits)

lemma DeserializePreKeyBundle_ok:
  assumes "DeserializePreKeyBundle P data = Inr b"
  shows "bundle_ok P b"
  using assms
  by (auto simp: DeserializePreKeyBundle_def Let_def bundle_ok_def split: if_splits
      dest!: dec_bundle_signed_sound DeserializeIdentityKey_sound dec_bundle_kyber_sound)

section \<open>Properties\<close>

text \<open>
  C18: Pre-key bundles.  The bundles that fit the format, with valid identity key, consistent optional
  parts and 16-bit lengths, are exactly the bundles that are written and read back unchanged.
\<close>

theorem PreKeyBundle_codec:
  "bundle_ok P b \<longleftrightarrow>
     (\<exists>data. PreKeyBundle_Serialize b = Inr data \<and> DeserializePreKeyBundle P data = Inr b)"
  using bundle_roundtrip DeserializePreKeyBundle_ok by blast

end
