(* ===== verification/X3DH.thy ===== *)
theory X3DH
  imports Stores Keys_Serialize
begin

text \<open>
  The X3DH and PQXDH key agreement (\<^verbatim>\<open>x3dh/\<close>): the initiator's processing of a pre-key bundle, the
  responder's processing of the initial message with its pre-key stores, and the message format.
\<close>

section \<open>Messages and results (types.go, derive.go, shared\_secret.go)\<close>

record X3Message =
  x3m_IdentityKey :: IdentityKey
  x3m_EphemeralKey :: bytes
  x3m_PreKeyID :: "u32 option"
  x3m_SignedPreKeyID :: u32
  x3m_KyberPreKeyID :: "u32 option"
  x3m_KyberCiphertext :: bytes
  x3m_Ciphertext :: bytes

record X3Result =
  x3r_SharedSecret :: bytes
  x3r_InitialChainKey :: "bytes option"
  x3r_PQRKey :: "bytes option"
  x3r_AssociatedData :: bytes
  x3r_RemoteIdentity :: IdentityKey
  x3r_InitialMessage :: X3Message
  x3r_LocalEphemeral :: "KeyPair option"
  x3r_LocalRatchetKey :: "KeyPair option"
  x3r_RemoteRatchetKey :: "bytes option"

definition discontinuity :: bytes where
  "discontinuity = replicate 32 255"

definition deriveLegacySecret :: "'z prims_scheme \<Rightarrow> bytes \<Rightarrow> bytes res" where
  "deriveLegacySecret P ikm =
     bindR (HKDF P ikm [] (ascii ''X3DH'') 32) (\<lambda>secretBytes. Inr (arr 32 secretBytes))"

definition derivePQSecret :: "'z prims_scheme \<Rightarrow> bytes \<Rightarrow> (bytes \<times> bytes \<times> bytes) res" where
  "derivePQSecret P ikm =
     bindR (HKDF P ikm [] (ascii ''WhisperText_X25519_SHA-256_CRYSTALS-KYBER-1024'') 96) (\<lambda>secretBytes.
     Inr (arr 32 (take 32 secretBytes), arr 32 (take 32 (drop 32 secretBytes)),
          arr 32 (take 32 (drop 64 secretBytes))))"

definition AssociatedData :: "IdentityKey \<Rightarrow> IdentityKey \<Rightarrow> bytes" where
  "AssociatedData initiator responder =
     SerializeWirePublicKey (ik_PublicKey initiator) @ SerializeWirePublicKey (ik_PublicKey responder)"

section \<open>The initiator (initiator.go)\<close>

text \<open>
  \<open>generator\<close> is what the ephemeral key generator returns, \<open>encapsulate\<close> the encapsulation function;
  \<open>NewInitiator\<close> supplies the ones of \<^verbatim>\<open>crypto/\<close>.
\<close>

definition ProcessPreKeyBundle ::
    "'z prims_scheme \<Rightarrow> KeyPair res \<Rightarrow> (bytes \<Rightarrow> (bytes \<times> bytes) res) \<Rightarrow> IdentityKeyPair \<Rightarrow> PreKeyBundle \<Rightarrow>
     X3Result res" where
  "ProcessPreKeyBundle P generator encapsulate identityKey bundle =
     bindR (PreKeyBundle_Validate P bundle) (\<lambda>_.
     bindR generator (\<lambda>ephemeral.
     bindR (DH P (ikp_PrivateKey identityKey) (b_SignedPreKeyPublic bundle)) (\<lambda>dh1.
     bindR (DH P (kp_PrivateKey ephemeral) (ik_PublicKey (b_IdentityKey bundle))) (\<lambda>dh2.
     bindR (DH P (kp_PrivateKey ephemeral) (b_SignedPreKeyPublic bundle)) (\<lambda>dh3.
     let ikm = dh1 @ dh2 @ dh3 in
     bindR (case b_PreKeyPublic bundle of
              None \<Rightarrow> Inr ikm
            | Some pub \<Rightarrow> bindR (DH P (kp_PrivateKey ephemeral) pub) (\<lambda>dh4. Inr (ikm @ dh4))) (\<lambda>ikm.
     bindR (case b_KyberPreKeyID bundle of
              Some _ \<Rightarrow>
                bindR (encapsulate (b_KyberPreKeyPublic bundle)) (\<lambda>(kyberSS, kyberCT).
                bindR (derivePQSecret P (discontinuity @ ikm @ kyberSS)) (\<lambda>(root, chain, pqr).
                Inr (root, Some chain, Some pqr, kyberCT)))
            | None \<Rightarrow> bindR (deriveLegacySecret P ikm) (\<lambda>root. Inr (root, None, None, [])))
       (\<lambda>(shared, initialChain, pqrKey, kyberCiphertext).
     Inr \<lparr>x3r_SharedSecret = shared, x3r_InitialChainKey = initialChain, x3r_PQRKey = pqrKey,
          x3r_AssociatedData = AssociatedData (ikp_PublicKey identityKey) (b_IdentityKey bundle),
          x3r_RemoteIdentity = b_IdentityKey bundle,
          x3r_InitialMessage =
            \<lparr>x3m_IdentityKey = ikp_PublicKey identityKey, x3m_EphemeralKey = kp_PublicKey ephemeral,
             x3m_PreKeyID = b_PreKeyID bundle, x3m_SignedPreKeyID = b_SignedPreKeyID bundle,
             x3m_KyberPreKeyID = b_KyberPreKeyID bundle, x3m_KyberCiphertext = kyberCiphertext,
             x3m_Ciphertext = []\<rparr>,
          x3r_LocalEphemeral = Some ephemeral, x3r_LocalRatchetKey = None,
          x3r_RemoteRatchetKey = Some (b_SignedPreKeyPublic bundle)\<rparr>)))))))"

definition NewInitiator_Process ::
    "'z prims_scheme \<Rightarrow> bytes res \<Rightarrow> bytes res \<Rightarrow> IdentityKeyPair \<Rightarrow> PreKeyBundle \<Rightarrow> X3Result res" where
  "NewInitiator_Process P rndKey rndKem identityKey bundle =
     ProcessPreKeyBundle P (GenerateKeyPair P rndKey) (Kyber1024Encapsulate P rndKem) identityKey bundle"

section \<open>The responder (responder.go)\<close>

text \<open>
  \<open>hasKyber\<close> tells whether the responder was built with a Kyber store.  A signed pre-key without its
  key pair makes the Go code panic.
\<close>

definition ProcessInitialMessage ::
    "'z prims_scheme \<Rightarrow> 's ProtocolStore \<Rightarrow> bool \<Rightarrow> IdentityKeyPair \<Rightarrow> SignedPreKey \<Rightarrow> X3Message \<Rightarrow> 's \<Rightarrow>
     X3Result res \<times> 's" where
  "ProcessInitialMessage P S hasKyber identityKey signedPreKey msg st =
     (if x3m_SignedPreKeyID msg \<noteq> spk_ID signedPreKey
      then (Inl (ErrText ''responder: signed pre-key id mismatch''), st)
      else case spk_KeyPair signedPreKey of
        None \<Rightarrow> (Inl EPanic, st)
      | Some spkPair \<Rightarrow>
     bindS (DH P (kp_PrivateKey spkPair) (ik_PublicKey (x3m_IdentityKey msg)), st) (\<lambda>dh1 st.
     bindS (DH P (ikp_PrivateKey identityKey) (x3m_EphemeralKey msg), st) (\<lambda>dh2 st.
     bindS (DH P (kp_PrivateKey spkPair) (x3m_EphemeralKey msg), st) (\<lambda>dh3 st.
     let ikm = dh1 @ dh2 @ dh3 in
     bindS (case x3m_PreKeyID msg of
              None \<Rightarrow> (Inr ikm, st)
            | Some preID \<Rightarrow>
                bindS (LoadPreKey S preID st, st) (\<lambda>pre st.
                (case pre of
                   None \<Rightarrow> (Inl ErrPreKeyNotFound, st)
                 | Some pk \<Rightarrow>
                     (case pk_KeyPair pk of
                        None \<Rightarrow> (Inl ErrPreKeyNotFound, st)
                      | Some kp \<Rightarrow>
                          bindS (DH P (kp_PrivateKey kp) (x3m_EphemeralKey msg), st) (\<lambda>dh4 st.
                          bindS (RemovePreKey S preID st) (\<lambda>_ st. (Inr (ikm @ dh4), st))))))) (\<lambda>ikm st.
     bindS (if x3m_KyberPreKeyID msg \<noteq> None \<or> length (x3m_KyberCiphertext msg) > 0
            then (case x3m_KyberPreKeyID msg of
                    None \<Rightarrow> (Inl ErrInvalidMessage, st)
                  | Some kyberID \<Rightarrow>
                if length (x3m_KyberCiphertext msg) = 0 then (Inl ErrInvalidMessage, st)
                else if \<not> hasKyber then (Inl (ErrText ''responder: kyber pre-key store required''), st)
                else bindS (LoadKyberPreKey S kyberID st, st) (\<lambda>kpre st.
                  (case kpre of
                     None \<Rightarrow> (Inl ErrPreKeyNotFound, st)
                   | Some kpk \<Rightarrow>
                       (case kpk_KeyPair kpk of
                          None \<Rightarrow> (Inl ErrPreKeyNotFound, st)
                        | Some kp \<Rightarrow>
                            bindS (Kyber1024Decapsulate P (kkp_PrivateKey kp) (x3m_KyberCiphertext msg), st)
                              (\<lambda>kyberSS st.
                            bindS (derivePQSecret P (discontinuity @ ikm @ kyberSS), st)
                              (\<lambda>(root, chain, pqr) st. (Inr (root, Some chain, Some pqr), st)))))))
            else bindS (deriveLegacySecret P ikm, st) (\<lambda>root st. (Inr (root, None, None), st)))
       (\<lambda>(shared, initialChain, pqrKey) st.
     (Inr \<lparr>x3r_SharedSecret = shared, x3r_InitialChainKey = initialChain, x3r_PQRKey = pqrKey,
           x3r_AssociatedData = AssociatedData (x3m_IdentityKey msg) (ikp_PublicKey identityKey),
           x3r_RemoteIdentity = x3m_IdentityKey msg, x3r_InitialMessage = msg,
           x3r_LocalEphemeral = None, x3r_LocalRatchetKey = Some spkPair,
           x3r_RemoteRatchetKey = None\<rparr>, st)))))))"

section \<open>Agreement\<close>

definition honest_identity :: "'z prims_scheme \<Rightarrow> IdentityKeyPair \<Rightarrow> bool" where
  "honest_identity P k \<longleftrightarrow> scalarBaseMult P (ikp_PrivateKey k) = Inr (ik_PublicKey (ikp_PublicKey k))"

text \<open>
  \<open>published\<close>: the bundle carries the public parts of the responder's identity, of its signed pre-key
  and of pre-keys in its store.
\<close>

definition published :: "'z prims_scheme \<Rightarrow> 's ProtocolStore \<Rightarrow> IdentityKeyPair \<Rightarrow> SignedPreKey \<Rightarrow>
    PreKeyBundle \<Rightarrow> 's \<Rightarrow> bool" where
  "published P S ik spk b st \<longleftrightarrow>
     honest_identity P ik \<and> b_IdentityKey b = ikp_PublicKey ik \<and> b_SignedPreKeyID b = spk_ID spk \<and>
     (\<exists>kp. spk_KeyPair spk = Some kp \<and> honest_pair P kp \<and> b_SignedPreKeyPublic b = kp_PublicKey kp) \<and>
     (case b_PreKeyID b of
        None \<Rightarrow> b_PreKeyPublic b = None
      | Some i \<Rightarrow> \<exists>pk kp. LoadPreKey S i st = Inr (Some pk) \<and> pk_KeyPair pk = Some kp \<and>
          honest_pair P kp \<and> b_PreKeyPublic b = Some (kp_PublicKey kp)) \<and>
     (case b_KyberPreKeyID b of
        None \<Rightarrow> True
      | Some i \<Rightarrow> \<exists>kpk kp rnd. LoadKyberPreKey S i st = Inr (Some kpk) \<and> kpk_KeyPair kpk = Some kp \<and>
          GenerateKyber1024KeyPair P rnd = Inr kp \<and> b_KyberPreKeyPublic b = kkp_PublicKey kp)"

text \<open>The two sides have the same secrets, and the ratchet keys they start from belong together.\<close>

definition agrees :: "X3Result \<Rightarrow> X3Result \<Rightarrow> bool" where
  "agrees a b \<longleftrightarrow>
     x3r_SharedSecret a = x3r_SharedSecret b \<and> x3r_InitialChainKey a = x3r_InitialChainKey b \<and>
     x3r_PQRKey a = x3r_PQRKey b \<and> x3r_AssociatedData a = x3r_AssociatedData b \<and>
     x3r_InitialMessage a = x3r_InitialMessage b \<and>
     x3r_RemoteRatchetKey a = map_option kp_PublicKey (x3r_LocalRatchetKey b) \<and>
     map_option kp_PublicKey (x3r_LocalEphemeral a) = Some (x3m_EphemeralKey (x3r_InitialMessage b))"

lemma honest_identity_pair:
  "honest_identity P k \<longleftrightarrow>
     honest_pair P \<lparr>kp_PublicKey = ik_PublicKey (ikp_PublicKey k), kp_PrivateKey = ikp_PrivateKey k\<rparr>"
  by (simp add: honest_identity_def honest_pair_def)

lemma DH_agree_identity:
  assumes "dh_comm P" "honest_identity P k" "honest_pair P y"
  shows "DH P (kp_PrivateKey y) (ik_PublicKey (ikp_PublicKey k)) = DH P (ikp_PrivateKey k) (kp_PublicKey y)"
  using DH_agree [OF assms(1) _ assms(3)] assms(2) unfolding honest_identity_pair by fastforce

text \<open>The two key derivations that end the handshake, with what the initiator sends along.\<close>

definition pq_part :: "'z prims_scheme \<Rightarrow> bytes res \<Rightarrow> PreKeyBundle \<Rightarrow> bytes \<Rightarrow>
    (bytes \<times> bytes option \<times> bytes option \<times> bytes) res" where
  "pq_part P rnd b ikm =
     (case b_KyberPreKeyID b of
        Some _ \<Rightarrow>
          bindR (Kyber1024Encapsulate P rnd (b_KyberPreKeyPublic b)) (\<lambda>(kyberSS, kyberCT).
          bindR (derivePQSecret P (discontinuity @ ikm @ kyberSS)) (\<lambda>(root, chain, pqr).
          Inr (root, Some chain, Some pqr, kyberCT)))
      | None \<Rightarrow> bindR (deriveLegacySecret P ikm) (\<lambda>root. Inr (root, None, None, [])))"

lemma NewInitiator_Process_Inr:
  assumes "NewInitiator_Process P r1 r2 ik b = Inr a"
  obtains eph dh1 dh2 dh3 ikm ch pq ct where
    "GenerateKeyPair P r1 = Inr eph"
    "DH P (ikp_PrivateKey ik) (b_SignedPreKeyPublic b) = Inr dh1"
    "DH P (kp_PrivateKey eph) (ik_PublicKey (b_IdentityKey b)) = Inr dh2"
    "DH P (kp_PrivateKey eph) (b_SignedPreKeyPublic b) = Inr dh3"
    "(case b_PreKeyPublic b of None \<Rightarrow> Inr (dh1 @ dh2 @ dh3)
      | Some pub \<Rightarrow> bindR (DH P (kp_PrivateKey eph) pub) (\<lambda>dh4. Inr ((dh1 @ dh2 @ dh3) @ dh4))) = Inr ikm"
    "pq_part P r2 b ikm = Inr (x3r_SharedSecret a, ch, pq, ct)"
    "x3r_InitialChainKey a = ch" "x3r_PQRKey a = pq"
    "x3r_AssociatedData a = AssociatedData (ikp_PublicKey ik) (b_IdentityKey b)"
    "x3r_InitialMessage a = \<lparr>x3m_IdentityKey = ikp_PublicKey ik, x3m_EphemeralKey = kp_PublicKey eph,
       x3m_PreKeyID = b_PreKeyID b, x3m_SignedPreKeyID = b_SignedPreKeyID b,
       x3m_KyberPreKeyID = b_KyberPreKeyID b, x3m_KyberCiphertext = ct, x3m_Ciphertext = []\<rparr>"
    "x3r_LocalEphemeral a = Some eph" "x3r_RemoteRatchetKey a = Some (b_SignedPreKeyPublic b)"
  using assms
  by (auto simp: NewInitiator_Process_def ProcessPreKeyBundle_def Let_def pq_part_def [symmetric])

text \<open>The same two parts on the responder's side.\<close>

definition otp_load :: "'z prims_scheme \<Rightarrow> 's ProtocolStore \<Rightarrow> X3Message \<Rightarrow> bytes \<Rightarrow> 's \<Rightarrow> bytes res \<times> 's" where
  "otp_load P S msg ikm st =
     (case x3m_PreKeyID msg of
        None \<Rightarrow> (Inr ikm, st)
      | Some preID \<Rightarrow>
          bindS (LoadPreKey S preID st, st) (\<lambda>pre st.
          (case pre of
             None \<Rightarrow> (Inl ErrPreKeyNotFound, st)
           | Some pk \<Rightarrow>
               (case pk_KeyPair pk of
                  None \<Rightarrow> (Inl ErrPreKeyNotFound, st)
                | Some kp \<Rightarrow>
                    bindS (DH P (kp_PrivateKey kp) (x3m_EphemeralKey msg), st) (\<lambda>dh4 st.
                    bindS (RemovePreKey S preID st) (\<lambda>_ st. (Inr (ikm @ dh4), st)))))))"

definition pq_load :: "'z prims_scheme \<Rightarrow> 's ProtocolStore \<Rightarrow> bool \<Rightarrow> X3Message \<Rightarrow> bytes \<Rightarrow> 's \<Rightarrow>
    (bytes \<times> bytes option \<times> bytes option) res \<times> 's" where
  "pq_load P S hasKyber msg ikm st =
     (if x3m_KyberPreKeyID msg \<noteq> None \<or> length (x3m_KyberCiphertext msg) > 0
      then (case x3m_KyberPreKeyID msg of
              None \<Rightarrow> (Inl ErrInvalidMessage, st)
            | Some kyberID \<Rightarrow>
          if length (x3m_KyberCiphertext msg) = 0 then (Inl ErrInvalidMessage, st)
          else if \<not> hasKyber then (Inl (ErrText ''responder: kyber pre-key store required''), st)
          else bindS (LoadKyberPreKey S kyberID st, st) (\<lambda>kpre st.
            (case kpre of
               None \<Rightarrow> (Inl ErrPreKeyNotFound, st)
             | Some kpk \<Rightarrow>
                 (case kpk_KeyPair kpk of
                    None \<Rightarrow> (Inl ErrPreKeyNotFound, st)
                  | Some kp \<Rightarrow>
                      bindS (Kyber1024Decapsulate P (kkp_PrivateKey kp) (x3m_KyberCiphertext msg), st)
                        (\<lambda>kyberSS st.
                      bindS (derivePQSecret P (discontinuity @ ikm @ kyberSS), st)
                        (\<lambda>(root, chain, pqr) st. (Inr (root, Some chain, Some pqr), st)))))))
      else bindS (deriveLegacySecret P ikm, st) (\<lambda>root st. (Inr (root, None, None), st)))"

lemma ProcessInitialMessage_parts:
  assumes "x3m_SignedPreKeyID msg = spk_ID spk" "spk_KeyPair spk = Some kp"
  shows "ProcessInitialMessage P S hasKyber ik spk msg st =
     bindS (DH P (kp_PrivateKey kp) (ik_PublicKey (x3m_IdentityKey msg)), st) (\<lambda>dh1 st.
     bindS (DH P (ikp_PrivateKey ik) (x3m_EphemeralKey msg), st) (\<lambda>dh2 st.
     bindS (DH P (kp_PrivateKey kp) (x3m_EphemeralKey msg), st) (\<lambda>dh3 st.
     bindS (otp_load P S msg (dh1 @ dh2 @ dh3) st) (\<lambda>ikm st.
     bindS (pq_load P S hasKyber msg ikm st) (\<lambda>(shared, initialChain, pqrKey) st.
     (Inr \<lparr>x3r_SharedSecret = shared, x3r_InitialChainKey = initialChain, x3r_PQRKey = pqrKey,
           x3r_AssociatedData = AssociatedData (x3m_IdentityKey msg) (ikp_PublicKey ik),
           x3r_RemoteIdentity = x3m_IdentityKey msg, x3r_InitialMessage = msg,
           x3r_LocalEphemeral = None, x3r_LocalRatchetKey = Some kp,
           x3r_RemoteRatchetKey = None\<rparr>, st))))))"
  unfolding ProcessInitialMessage_def Let_def otp_load_def pq_load_def by (simp add: assms)

lemma pq_load_agrees:
  assumes "kem_ok P" "published P S ik spk b st0" "pq_part P rnd b ikm = Inr (shared, ch, pq, ct)"
    and "x3m_KyberPreKeyID msg = b_KyberPreKeyID b" "x3m_KyberCiphertext msg = ct"
    and "\<And>i. LoadKyberPreKey S i st = LoadKyberPreKey S i st0"
  shows "pq_load P S True msg ikm st = (Inr (shared, ch, pq), st)"
proof (cases "b_KyberPreKeyID b")
  case None
  then show ?thesis using assms(3-5) by (auto simp: pq_load_def pq_part_def)
next
  case (Some i)
  then obtain kpk kp r where k: "LoadKyberPreKey S i st0 = Inr (Some kpk)" "kpk_KeyPair kpk = Some kp"
    "GenerateKyber1024KeyPair P r = Inr kp" "b_KyberPreKeyPublic b = kkp_PublicKey kp"
    using assms(2) by (auto simp: published_def)
  obtain ss where e: "Kyber1024Encapsulate P rnd (kkp_PublicKey kp) = Inr (ss, ct)"
    "bindR (derivePQSecret P (discontinuity @ ikm @ ss)) (\<lambda>(root, chain, pqr).
       Inr (root, Some chain, Some pqr, ct)) = Inr (shared, ch, pq, ct)"
    using assms(3) Some k(4) by (auto simp: pq_part_def)
  have "ct \<noteq> []" using e(1) by (auto simp: Kyber1024Encapsulate_def split_beta)
  moreover have "Kyber1024Decapsulate P (kkp_PrivateKey kp) ct = Inr ss"
    using assms(1) k(3) e(1) by (rule Kyber1024_agree)
  ultimately show ?thesis
    using Some k e(2) assms(4-6) by (auto simp: pq_load_def)
qed

context prekey_store
begin

lemma otp_load_agrees:
  assumes "dh_comm P" "published P S ik spk b st" "honest_pair P eph"
    and "(case b_PreKeyPublic b of None \<Rightarrow> Inr ikm0
      | Some pub \<Rightarrow> bindR (DH P (kp_PrivateKey eph) pub) (\<lambda>dh4. Inr (ikm0 @ dh4))) = Inr ikm"
    and "x3m_PreKeyID msg = b_PreKeyID b" "x3m_EphemeralKey msg = kp_PublicKey eph"
  shows "otp_load P S msg ikm0 st =
      (Inr ikm, case b_PreKeyID b of None \<Rightarrow> st | Some i \<Rightarrow> snd (RemovePreKey S i st))"
proof (cases "b_PreKeyID b")
  case None
  then show ?thesis using assms(2,4,5) by (simp add: published_def otp_load_def)
next
  case (Some i)
  then obtain pk kp where k: "LoadPreKey S i st = Inr (Some pk)" "pk_KeyPair pk = Some kp"
    "honest_pair P kp" "b_PreKeyPublic b = Some (kp_PublicKey kp)"
    using assms(2) by (auto simp: published_def)
  have "RemovePreKey S i st = (Inr (), snd (RemovePreKey S i st))"
    using remove_prekey_ok [of i st] by (metis prod.collapse)
  then show ?thesis
    using Some k assms(4-6) DH_agree [OF assms(1) k(3) assms(3)]
    by (auto simp: otp_load_def bindS_def split: prod.splits)
qed

lemma responder_agrees:
  assumes "dh_comm P" "kem_ok P" "honest_identity P ikA" "published P S ikB spk b st"
    and "NewInitiator_Process P r1 r2 ikA b = Inr a"
  shows "\<exists>r. ProcessInitialMessage P S True ikB spk (x3r_InitialMessage a) st =
      (Inr r, case b_PreKeyID b of None \<Rightarrow> st | Some i \<Rightarrow> snd (RemovePreKey S i st)) \<and> agrees a r \<and>
      x3r_LocalRatchetKey r = spk_KeyPair spk"
  using assms(5)
proof (rule NewInitiator_Process_Inr)
  fix eph :: KeyPair and dh1 dh2 dh3 ikm ch pq ct
  let ?st = "case b_PreKeyID b of None \<Rightarrow> st | Some i \<Rightarrow> snd (RemovePreKey S i st)"
  let ?m = "\<lparr>x3m_IdentityKey = ikp_PublicKey ikA, x3m_EphemeralKey = kp_PublicKey eph,
       x3m_PreKeyID = b_PreKeyID b, x3m_SignedPreKeyID = b_SignedPreKeyID b,
       x3m_KyberPreKeyID = b_KyberPreKeyID b, x3m_KyberCiphertext = ct, x3m_Ciphertext = []\<rparr>"
  assume i: "GenerateKeyPair P r1 = Inr eph"
    "DH P (ikp_PrivateKey ikA) (b_SignedPreKeyPublic b) = Inr dh1"
    "DH P (kp_PrivateKey eph) (ik_PublicKey (b_IdentityKey b)) = Inr dh2"
    "DH P (kp_PrivateKey eph) (b_SignedPreKeyPublic b) = Inr dh3"
    "(case b_PreKeyPublic b of None \<Rightarrow> Inr (dh1 @ dh2 @ dh3)
      | Some pub \<Rightarrow> bindR (DH P (kp_PrivateKey eph) pub) (\<lambda>dh4. Inr ((dh1 @ dh2 @ dh3) @ dh4))) = Inr ikm"
    "pq_part P r2 b ikm = Inr (x3r_SharedSecret a, ch, pq, ct)"
    "x3r_InitialChainKey a = ch" "x3r_PQRKey a = pq"
    "x3r_AssociatedData a = AssociatedData (ikp_PublicKey ikA) (b_IdentityKey b)"
    "x3r_InitialMessage a = ?m"
    "x3r_LocalEphemeral a = Some eph" "x3r_RemoteRatchetKey a = Some (b_SignedPreKeyPublic b)"
  obtain kp where s: "spk_KeyPair spk = Some kp" "honest_pair P kp" "b_SignedPreKeyPublic b = kp_PublicKey kp"
    "honest_identity P ikB" "b_IdentityKey b = ikp_PublicKey ikB" "b_SignedPreKeyID b = spk_ID spk"
    using assms(4) by (auto simp: published_def)
  have eph: "honest_pair P eph" using i(1) by (rule GenerateKeyPair_honest)
  have dh: "DH P (kp_PrivateKey kp) (ik_PublicKey (ikp_PublicKey ikA)) = Inr dh1"
    "DH P (ikp_PrivateKey ikB) (kp_PublicKey eph) = Inr dh2"
    "DH P (kp_PrivateKey kp) (kp_PublicKey eph) = Inr dh3"
    using i(2-4) s DH_agree_identity [OF assms(1,3) s(2)] DH_agree_identity [OF assms(1) s(4) eph]
      DH_agree [OF assms(1) s(2) eph] by simp_all
  have otp: "otp_load P S ?m (dh1 @ dh2 @ dh3) st = (Inr ikm, ?st)"
    using assms(1,4) eph i(5) by (rule otp_load_agrees) simp_all
  have pq: "pq_load P S True ?m ikm ?st = (Inr (x3r_SharedSecret a, ch, pq), ?st)"
    using assms(2,4) i(6) by (rule pq_load_agrees) (simp_all add: remove_prekey_kyber split: option.splits)
  show ?thesis
    using ProcessInitialMessage_parts [of ?m spk kp P S True ikB st] s dh otp pq i(7-12)
    by (simp add: agrees_def)
qed

end

section \<open>A handshake exists\<close>

lemma DH_total_toy: "\<exists>s. DH toy a b = Inr s"
  by (simp add: DH_def toy_def Let_def zero32_def replicate_app_Cons_same numeral_eq_Suc)

lemma derive_total: "\<exists>s. deriveLegacySecret P ikm = Inr s" "\<exists>r c q. derivePQSecret P ikm = Inr (r, c, q)"
  using HKDF_Inr [of 32 P ikm "[]"] HKDF_Inr [of 96 P ikm "[]"]
  by (force simp: deriveLegacySecret_def derivePQSecret_def hkdfMaxLength_def)+

lemma pq_part_total:
  assumes "\<forall>i. b_KyberPreKeyID b = Some i \<longrightarrow> IsKyber1024PublicKey (b_KyberPreKeyPublic b)"
  shows "\<exists>v. pq_part P (Inr r) b ikm = Inr v"
proof (cases "b_KyberPreKeyID b")
  case None
  then show ?thesis using derive_total(1) [of P ikm] by (auto simp: pq_part_def)
next
  case (Some i)
  then obtain ss ct where "Kyber1024Encapsulate P (Inr r) (b_KyberPreKeyPublic b) = Inr (ss, ct)"
    using assms by (auto simp: Kyber1024Encapsulate_def IsKyber1024PublicKey_def unmarshalKyberPublicKey_def
        split_beta)
  then show ?thesis using Some derive_total(2) [of P "discontinuity @ ikm @ ss"] by (auto simp: pq_part_def)
qed

text \<open>Where no exchange fails, a valid bundle gives the initiator a result.\<close>

lemma initiator_total:
  assumes "PreKeyBundle_Validate P b = Inr ()" "\<And>x y. \<exists>s. DH P x y = Inr s"
    and "GenerateKeyPair P r1 = Inr eph"
  shows "\<exists>a. NewInitiator_Process P r1 (Inr r2) ik b = Inr a"
proof -
  have "\<forall>i. b_KyberPreKeyID b = Some i \<longrightarrow> IsKyber1024PublicKey (b_KyberPreKeyPublic b)"
    using assms(1) by (auto simp: PreKeyBundle_Validate_def split: if_splits)
  then have pq: "\<exists>v. pq_part P (Inr r2) b ikm = Inr v" for ikm by (rule pq_part_total)
  obtain dh1 dh2 dh3 where "DH P (ikp_PrivateKey ik) (b_SignedPreKeyPublic b) = Inr dh1"
    "DH P (kp_PrivateKey eph) (ik_PublicKey (b_IdentityKey b)) = Inr dh2"
    "DH P (kp_PrivateKey eph) (b_SignedPreKeyPublic b) = Inr dh3"
    using assms(2) by meson
  moreover obtain ikm where "(case b_PreKeyPublic b of None \<Rightarrow> Inr (dh1 @ dh2 @ dh3)
      | Some pub \<Rightarrow> bindR (DH P (kp_PrivateKey eph) pub) (\<lambda>dh4. Inr ((dh1 @ dh2 @ dh3) @ dh4))) = Inr ikm"
    using assms(2) by (cases "b_PreKeyPublic b") fastforce+
  ultimately show ?thesis
    using assms(1,3) pq [of ikm]
    by (auto simp: NewInitiator_Process_def ProcessPreKeyBundle_def Let_def pq_part_def [symmetric])
qed

text \<open>A bundle made from generated keys that are in the store is published.\<close>

lemma generated_published:
  assumes "GenerateIdentityKeyPair P r0 = Inr ik" "GenerateSignedPreKey P now r1 r2 ik sid = Inr spk"
    and "GenerateKyberPreKey P now r3 r4 ik kid = Inr kpk" "GeneratePreKey P now r5 pid = Inr pk"
    and "NewPreKeyBundleWithKyber reg dev (Some pk) (Some spk) (Some kpk) (ikp_PublicKey ik) = Inr b"
    and "LoadPreKey S pid st = Inr (Some pk)" "LoadKyberPreKey S kid st = Inr (Some kpk)"
  shows "published P S ik spk b st" "b_PreKeyID b = Some pid" "b_KyberPreKeyID b = Some kid"
proof -
  obtain kp where s: "spk_ID spk = sid" "spk_KeyPair spk = Some kp" "GenerateKeyPair P r1 = Inr kp"
    using assms(2) by (rule GenerateSignedPreKey_Inr)
  obtain kkp where k: "kpk_ID kpk = kid" "kpk_KeyPair kpk = Some kkp" "GenerateKyber1024KeyPair P r3 = Inr kkp"
    using assms(3) by (rule GenerateKyberPreKey_Inr)
  obtain otp where o: "pk_ID pk = pid" "pk_KeyPair pk = Some otp" "GenerateKeyPair P r5 = Inr otp"
    using assms(4) by (auto simp: GeneratePreKey_def)
  note h = GenerateKeyPair_honest [OF s(3)] GenerateKeyPair_honest [OF o(3)]
    GenerateIdentityKeyPair_honest(1) [OF assms(1)]
  show "published P S ik spk b st" "b_PreKeyID b = Some pid" "b_KyberPreKeyID b = Some kid"
    using assms(5-7) s k o h
    by (auto simp: NewPreKeyBundleWithKyber_def published_def honest_identity_def split: if_splits)
qed

lemma example_handshake:
  "\<exists>ikA ikB spk b st a. honest_identity toy ikA \<and> published toy (mem_store pick) ikB spk b st \<and>
     NewInitiator_Process toy (Inr [6]) (Inr [7]) ikA b = Inr a \<and> b_PreKeyID b = Some 3 \<and>
     b_KyberPreKeyID b \<noteq> None"
proof -
  note total = prekeys_total [OF toy_GenerateKeyPair]
  obtain ikA where ikA: "GenerateIdentityKeyPair toy (Inr [0]) = Inr ikA" using total(1) by blast
  obtain ikB where ikB: "GenerateIdentityKeyPair toy (Inr [1]) = Inr ikB" using total(1) by blast
  obtain spk kpk where sk: "GenerateSignedPreKey toy 9 (Inr [2]) (Inr [3]) ikB 1 = Inr spk"
    "GenerateKyberPreKey toy 9 (Inr [4]) (Inr [5]) ikB 2 = Inr kpk" using total(2,3) by meson
  obtain pk where pk: "GeneratePreKey toy 9 (Inr [8]) 3 = Inr pk"
    using toy_GenerateKeyPair [of "[8]"] by (auto simp: GeneratePreKey_def)
  obtain b where b: "NewPreKeyBundleWithKyber 1 2 (Some pk) (Some spk) (Some kpk) (ikp_PublicKey ikB) = Inr b"
    using bundle_total [OF toy_ed_ok ikB sk, of "Some pk" 1 2] pk by (auto simp: GeneratePreKey_def)
  define st where "st = (NewStore (Some ikB) 1)\<lparr>s_preKeys := fmupd 3 (Some pk) fmempty,
     s_kyberKeys := fmupd 2 (Some kpk) fmempty\<rparr>"
  have "published toy (mem_store pick) ikB spk b st" "b_PreKeyID b = Some 3" "b_KyberPreKeyID b \<noteq> None"
    using generated_published [OF ikB sk pk b, of "mem_store pick" st] by (simp_all add: st_def mem_defs)
  moreover have "PreKeyBundle_Validate toy b = Inr ()"
    by (rule bundle_validates [OF toy_ed_ok toy_dh_valid ikB sk(1) _ sk(2) _ _ b]) (use pk in simp_all)
  moreover have "honest_identity toy ikA"
    using GenerateIdentityKeyPair_honest(1) [OF ikA] by (simp add: honest_identity_def)
  ultimately show ?thesis
    using initiator_total [of toy b "Inr [6]"] DH_total_toy toy_GenerateKeyPair by metis
qed

section \<open>The message format (serialize.go)\<close>

definition messageSerializeVersion :: byte where
  "messageSerializeVersion = 2"

definition X3Message_Serialize :: "X3Message \<Rightarrow> bytes res" where
  "X3Message_Serialize m =
     (let identityBytes = IdentityKey_Serialize (x3m_IdentityKey m) in
      if length identityBytes > 65535 then Inl (ErrText ''x3dh message: identity too large'')
      else
        bindR (if x3m_KyberPreKeyID m \<noteq> None \<or> length (x3m_KyberCiphertext m) > 0
               then (case x3m_KyberPreKeyID m of
                       None \<Rightarrow> Inl (ErrText ''x3dh message: kyber id/ciphertext mismatch'')
                     | Some kyberID \<Rightarrow>
                         if length (x3m_KyberCiphertext m) = 0
                         then Inl (ErrText ''x3dh message: kyber id/ciphertext mismatch'')
                         else Inr ([1] @ put_u32 kyberID @ put_u32 (of_nat (length (x3m_KyberCiphertext m)))
                                   @ x3m_KyberCiphertext m))
               else Inr [0]) (\<lambda>kyber.
        Inr ([messageSerializeVersion] @ put_u16 (of_nat (length identityBytes)) @ identityBytes
          @ arr 32 (x3m_EphemeralKey m)
          @ (case x3m_PreKeyID m of None \<Rightarrow> [0] @ replicate 4 0 | Some preID \<Rightarrow> [1] @ put_u32 preID)
          @ put_u32 (x3m_SignedPreKeyID m) @ kyber
          @ put_u32 (of_nat (length (x3m_Ciphertext m))) @ x3m_Ciphertext m)))"

text \<open>Length, identity key and the unread bytes; both versions start with it.\<close>

definition dec_identity :: "'z prims_scheme \<Rightarrow> bytes \<Rightarrow> (IdentityKey \<times> bytes) res" where
  "dec_identity P bs =
     (let identityLen = unat (get_u16 bs); bs = drop 2 bs in
      if identityLen \<le> 0 \<or> length bs < identityLen then Inl (ErrText ''x3dh message: invalid identity length'')
      else bindR (DeserializeIdentityKey P (take identityLen bs)) (\<lambda>identity.
        Inr (identity, drop identityLen bs)))"

text \<open>The optional one-time pre-key: a flag and four bytes that are always there.\<close>

definition dec_prekey_id :: "bytes \<Rightarrow> (u32 option \<times> bytes) res" where
  "dec_prekey_id bs =
     (if bs ! 0 = 1 then Inr (Some (get_u32 (drop 1 bs)), drop 5 bs)
      else if bs ! 0 \<noteq> 0 then Inl (ErrText ''x3dh message: invalid pre-key flag'')
      else Inr (None, drop 5 bs))"

text \<open>
  The Kyber section.  The code has checked that four bytes follow the flag; the reads of the
  ciphertext length behind the identifier and of the final length behind the ciphertext are not
  checked, and a slice expression beyond the capacity panics.  The model gives \<open>data\<close> no spare
  capacity, which is what a slice that ends its array has.
\<close>

definition dec_kyber :: "bytes \<Rightarrow> (u32 option \<times> bytes \<times> bytes) res" where
  "dec_kyber bs =
     (let hasKyber = bs ! 0; bs = drop 1 bs in
      if hasKyber = 1 then
        let keyID = get_u32 bs; bs = drop 4 bs in
        if length bs < 4 then Inl EPanic
        else let kyberLen = unat (get_u32 bs); bs = drop 4 bs in
          if kyberLen \<le> 0 \<or> length bs < kyberLen
          then Inl (ErrText ''x3dh message: invalid kyber ciphertext length'')
          else Inr (Some keyID, take kyberLen bs, drop kyberLen bs)
      else if hasKyber \<noteq> 0 then Inl (ErrText ''x3dh message: invalid kyber flag'')
      else Inr (None, [], bs))"

definition dec_ciphertext :: "bytes \<Rightarrow> bytes res" where
  "dec_ciphertext bs =
     (if length bs < 4 then Inl EPanic
      else let ctLen = unat (get_u32 bs); bs = drop 4 bs in
        if ctLen \<noteq> length bs then Inl (ErrText ''x3dh message: invalid ciphertext length'') else Inr bs)"

definition DeserializeMessage :: "'z prims_scheme \<Rightarrow> bytes \<Rightarrow> X3Message res" where
  "DeserializeMessage P data =
     (if length data < 1 then Inl (ErrText ''x3dh message: too short'')
      else let version = data ! 0 in
      if version = 1 then
        if length data < 1 + 2 + 32 + 1 + 4 + 4 + 4 then Inl (ErrText ''x3dh message: too short'')
        else bindR (dec_identity P (drop 1 data)) (\<lambda>(identity, bs).
          if length bs < 32 + 1 + 4 + 4 + 4 then Inl (ErrText ''x3dh message: truncated'')
          else bindR (dec_prekey_id (drop 32 bs)) (\<lambda>(preKeyID, bs1).
            bindR (dec_ciphertext (drop 4 bs1)) (\<lambda>ct.
            Inr \<lparr>x3m_IdentityKey = identity, x3m_EphemeralKey = arr 32 (take 32 bs), x3m_PreKeyID = preKeyID,
                 x3m_SignedPreKeyID = get_u32 bs1, x3m_KyberPreKeyID = None, x3m_KyberCiphertext = [],
                 x3m_Ciphertext = ct\<rparr>)))
      else if version \<noteq> messageSerializeVersion then Inl (ErrText ''x3dh message: unsupported version'')
      else if length data < 1 + 2 + 32 + 1 + 4 + 4 + 1 + 4 then Inl (ErrText ''x3dh message: too short'')
      else bindR (dec_identity P (drop 1 data)) (\<lambda>(identity, bs).
        if length bs < 32 + 1 + 4 + 4 + 1 + 4 then Inl (ErrText ''x3dh message: truncated'')
        else bindR (dec_prekey_id (drop 32 bs)) (\<lambda>(preKeyID, bs1).
          bindR (dec_kyber (drop 4 bs1)) (\<lambda>(kyberPreKeyID, kyberCiphertext, bs2).
          bindR (dec_ciphertext bs2) (\<lambda>ct.
          Inr \<lparr>x3m_IdentityKey = identity, x3m_EphemeralKey = arr 32 (take 32 bs), x3m_PreKeyID = preKeyID,
               x3m_SignedPreKeyID = get_u32 bs1, x3m_KyberPreKeyID = kyberPreKeyID,
               x3m_KyberCiphertext = kyberCiphertext, x3m_Ciphertext = ct\<rparr>)))))"

text \<open>The messages that fit the format.\<close>

definition x3msg_ok :: "'z prims_scheme \<Rightarrow> X3Message \<Rightarrow> bool" where
  "x3msg_ok P m \<longleftrightarrow> ik_ok P (x3m_IdentityKey m) \<and> length (x3m_EphemeralKey m) = 32 \<and>
     (x3m_KyberPreKeyID m = None \<longleftrightarrow> x3m_KyberCiphertext m = []) \<and>
     length (x3m_KyberCiphertext m) < 2 ^ 32 \<and> length (x3m_Ciphertext m) < 2 ^ 32"

text \<open>The encoding in front of the Kyber section, and the section itself.\<close>

definition x3_head :: "X3Message \<Rightarrow> bytes" where
  "x3_head m = [messageSerializeVersion] @ put_u16 65 @ IdentityKey_Serialize (x3m_IdentityKey m)
     @ arr 32 (x3m_EphemeralKey m)
     @ (case x3m_PreKeyID m of None \<Rightarrow> [0] @ replicate 4 0 | Some preID \<Rightarrow> [1] @ put_u32 preID)
     @ put_u32 (x3m_SignedPreKeyID m)"

definition x3_kyber :: "X3Message \<Rightarrow> bytes" where
  "x3_kyber m = (case x3m_KyberPreKeyID m of None \<Rightarrow> [0]
     | Some k \<Rightarrow> [1] @ put_u32 k @ put_u32 (of_nat (length (x3m_KyberCiphertext m))) @ x3m_KyberCiphertext m)"

lemma X3Message_Serialize_parts:
  "x3msg_ok P m \<Longrightarrow> X3Message_Serialize m =
     Inr (x3_head m @ x3_kyber m @ put_u32 (of_nat (length (x3m_Ciphertext m))) @ x3m_Ciphertext m)"
  by (auto simp: X3Message_Serialize_def x3_head_def x3_kyber_def x3msg_ok_def split: option.splits)

lemma dec_identity_enc:
  "ik_ok P k \<Longrightarrow> dec_identity P (put_u16 65 @ IdentityKey_Serialize k @ r) = Inr (k, r)"
  by (simp add: dec_identity_def Let_def IdentityKey_roundtrip)

lemma DeserializeMessage_head:
  assumes "x3msg_ok P m" "5 \<le> length r"
  shows "DeserializeMessage P (x3_head m @ r) =
     bindR (dec_kyber r) (\<lambda>(kyberPreKeyID, kyberCiphertext, bs2).
     bindR (dec_ciphertext bs2) (\<lambda>ct.
     Inr (m\<lparr>x3m_KyberPreKeyID := kyberPreKeyID, x3m_KyberCiphertext := kyberCiphertext, x3m_Ciphertext := ct\<rparr>)))"
proof -
  have "ik_ok P (x3m_IdentityKey m)" "length (x3m_EphemeralKey m) = 32" using assms(1) by (simp_all add: x3msg_ok_def)
  with assms(2) show ?thesis
    by (cases m; cases "x3m_PreKeyID m")
      (simp_all add: DeserializeMessage_def x3_head_def Let_def messageSerializeVersion_def
        dec_identity_enc dec_prekey_id_def codec)
qed

lemma dec_kyber_enc:
  assumes "x3msg_ok P m"
  shows "dec_kyber (x3_kyber m @ r) = Inr (x3m_KyberPreKeyID m, x3m_KyberCiphertext m, r)"
  using assms by (auto simp: dec_kyber_def x3_kyber_def x3msg_ok_def Let_def unat_of_nat codec split: option.splits)

lemma X3Message_roundtrip:
  assumes "x3msg_ok P m"
  shows "\<exists>data. X3Message_Serialize m = Inr data \<and> DeserializeMessage P data = Inr m"
proof -
  let ?ct = "put_u32 (of_nat (length (x3m_Ciphertext m))) @ x3m_Ciphertext m"
  have "dec_ciphertext ?ct = Inr (x3m_Ciphertext m)"
    using assms by (simp add: dec_ciphertext_def x3msg_ok_def unat_of_nat)
  moreover have "5 \<le> length (x3_kyber m @ ?ct)" by (simp add: x3_kyber_def split: option.splits)
  ultimately show ?thesis
    using X3Message_Serialize_parts [OF assms] DeserializeMessage_head [OF assms, of "x3_kyber m @ ?ct"]
    by (simp add: dec_kyber_enc [OF assms])
qed

lemma dec_kyber_len:
  "dec_kyber bs = Inr (kid, ct, r) \<Longrightarrow> (kid = None \<longleftrightarrow> ct = []) \<and> length ct < 2 ^ 32"
  using unat_u32_less [of "get_u32 (drop 5 bs)"]
  by (auto simp: dec_kyber_def Let_def split: if_splits)

lemma dec_ciphertext_len: "dec_ciphertext bs = Inr ct \<Longrightarrow> length ct < 2 ^ 32"
  using unat_u32_less [of "get_u32 bs"]
  by (auto simp: dec_ciphertext_def Let_def split: if_splits)

lemma dec_identity_ok: "dec_identity P bs = Inr (k, r) \<Longrightarrow> ik_ok P k"
  by (auto simp: dec_identity_def Let_def split: if_splits dest: DeserializeIdentityKey_sound)

lemma DeserializeMessage_ok: "DeserializeMessage P data = Inr m \<Longrightarrow> x3msg_ok P m"
  by (auto simp: DeserializeMessage_def Let_def x3msg_ok_def split: if_splits
      dest!: dec_identity_ok dec_kyber_len dec_ciphertext_len)

section \<open>Properties\<close>

text \<open>
  C8: Key agreement.  When a bundle carries the public keys of a responder, and an initiator derives
  a result from it, then the responder derives a result from the initiator's message with the same
  shared secret, initial chain key, post-quantum key and associated data; the ratchet keys match, and
  the one-time pre-key that was used is gone from the in-memory store.
\<close>

theorem X3DH_agreement:
  assumes "dh_comm P" "kem_ok P" "honest_identity P ikA" "published P (mem_store pick) ikB spk b st"
    and "NewInitiator_Process P r1 r2 ikA b = Inr a"
  shows "\<exists>r st'. ProcessInitialMessage P (mem_store pick) True ikB spk (x3r_InitialMessage a) st = (Inr r, st')
     \<and> agrees a r \<and> (\<forall>i. b_PreKeyID b = Some i \<longrightarrow> mem_LoadPreKey i st' = Inr None)"
proof -
  obtain r where "ProcessInitialMessage P (mem_store pick) True ikB spk (x3r_InitialMessage a) st =
      (Inr r, case b_PreKeyID b of None \<Rightarrow> st | Some i \<Rightarrow> snd (RemovePreKey (mem_store pick) i st))" "agrees a r"
    using mem.responder_agrees [OF assms] by blast
  then show ?thesis by (auto simp: mem_defs)
qed

theorem X3DH_agreement_witness:
  "\<exists>ikA ikB spk b st a r st'. NewInitiator_Process toy (Inr [6]) (Inr [7]) ikA b = Inr a \<and>
     published toy (mem_store (\<lambda>c. hd (sorted_list_of_fset c))) ikB spk b st \<and> b_PreKeyID b = Some 3 \<and>
     ProcessInitialMessage toy (mem_store (\<lambda>c. hd (sorted_list_of_fset c))) True ikB spk (x3r_InitialMessage a) st = (Inr r, st') \<and>
     agrees a r \<and> mem_LoadPreKey 3 st' = Inr None"
  using example_handshake X3DH_agreement [OF toy_dh_comm toy_kem_ok] by metis

text \<open>
  C19: The initial-message format.  The messages that fit it are exactly the messages that are
  written and read back unchanged.
\<close>

theorem X3Message_codec:
  "x3msg_ok P m \<longleftrightarrow> (\<exists>data. X3Message_Serialize m = Inr data \<and> DeserializeMessage P data = Inr m)"
  using X3Message_roundtrip DeserializeMessage_ok by blast

text \<open>
  C22: A truncated initial message crashes the decoder.  From the encoding of any message with a Kyber
  ciphertext, cut off everything behind the Kyber ciphertext: \<open>DeserializeMessage\<close> then slices out of
  range and panics, where it means to report a truncated message.
\<close>

theorem DeserializeMessage_truncated_panics:
  assumes "x3msg_ok P m" "x3m_KyberPreKeyID m = Some k" "X3Message_Serialize m = Inr data"
  shows "DeserializeMessage P (take (length data - 4 - length (x3m_Ciphertext m)) data) = Inl EPanic"
proof -
  have "take (length data - 4 - length (x3m_Ciphertext m)) data = x3_head m @ x3_kyber m"
    using assms(3) unfolding X3Message_Serialize_parts [OF assms(1)] by auto
  moreover have "5 \<le> length (x3_kyber m)" using assms(2) by (simp add: x3_kyber_def)
  ultimately show ?thesis
    using DeserializeMessage_head [OF assms(1)] dec_kyber_enc [OF assms(1), of "[]"]
    by (simp add: dec_ciphertext_def)
qed

theorem DeserializeMessage_truncated_panics_witness:
  "\<exists>m data. X3Message_Serialize m = Inr data \<and> x3m_KyberPreKeyID m = Some 2 \<and>
     DeserializeMessage toy (take (length data - 4 - 0) data) = Inl EPanic"
proof -
  let ?k = "replicate 32 1" and ?k' = "replicate 32 2"
  let ?m = "\<lparr>x3m_IdentityKey = \<lparr>ik_PublicKey = ?k, ik_SigningPublic = ?k'\<rparr>, x3m_EphemeralKey = ?k,
    x3m_PreKeyID = None, x3m_SignedPreKeyID = 1, x3m_KyberPreKeyID = Some 2, x3m_KyberCiphertext = [1, 2, 3],
    x3m_Ciphertext = []\<rparr>"
  have ok: "x3msg_ok toy ?m" by (simp add: x3msg_ok_def ik_ok_def) code_simp
  obtain data where "X3Message_Serialize ?m = Inr data" using X3Message_Serialize_parts [OF ok] by blast
  with DeserializeMessage_truncated_panics [OF ok _ this, of 2] show ?thesis
    by (intro exI [of _ ?m] exI [of _ data]) simp
qed

end
