(* ===== verification/Ratchet_Init.thy ===== *)
theory Ratchet_Init
  imports Ratchet_Network X3DH
begin

text \<open>
  The ratchet states that come out of a handshake (\<^verbatim>\<open>ratchet/state.go\<close>), and the two states in one
  conversation: agreeing X3DH results give linked states, so every message that is accepted over any
  run of the network is the message that was sent.
\<close>

section \<open>Initial states (state.go)\<close>

text \<open>
  \<open>generateDH i\<close> is what call \<open>i\<close> of the key generator returns: call 0 draws the pair of the first
  sending or receiving chain, call 1 the responder's pair for its sending chain.
\<close>

definition InitializeStateWithGenerator ::
    "'z prims_scheme \<Rightarrow> X3Result option \<Rightarrow> bool \<Rightarrow> (nat \<Rightarrow> KeyPair res) \<Rightarrow> State res" where
  "InitializeStateWithGenerator P x3 isInitiator generateDH =
     (case x3 of
        None \<Rightarrow> Inl (ErrText ''ratchet: x3dh result required'')
      | Some x3 \<Rightarrow>
     if x3r_SharedSecret x3 = zero32 then Inl (ErrText ''ratchet: shared secret must be set'')
     else
       let state = \<lparr>rs_DHs = None, rs_DHr = None, rs_RK = x3r_SharedSecret x3, rs_CKs = zero32,
                    rs_CKr = zero32, rs_Ns = 0, rs_Nr = 0, rs_PN = 0, rs_MKSkipped = fmempty,
                    rs_SeenDH = {||}\<rparr> in
       if isInitiator then
         case x3r_RemoteRatchetKey x3 of
           None \<Rightarrow> Inl (ErrText ''ratchet: initiator missing remote ratchet key'')
         | Some dhr \<Rightarrow>
             let state = state\<lparr>rs_DHr := Some dhr, rs_SeenDH := {|dhr|}\<rparr> in
             bindR (case x3r_InitialChainKey x3 of
                      Some ck \<Rightarrow> bindR (generateDH 0) (\<lambda>kp. Inr (ck, kp))
                    | None \<Rightarrow> (case x3r_LocalEphemeral x3 of
                                Some kp \<Rightarrow> Inr (zero32, kp)
                              | None \<Rightarrow> bindR (generateDH 0) (\<lambda>kp. Inr (zero32, kp)))) (\<lambda>(ckr, dhs).
             bindR (DH P (kp_PrivateKey dhs) dhr) (\<lambda>dhOut.
             bindR (KDFRoot P (rs_RK state) dhOut) (\<lambda>(newRK, cks).
             Inr (state\<lparr>rs_DHs := Some dhs, rs_CKr := ckr, rs_RK := newRK, rs_CKs := cks\<rparr>))))
       else
         let remoteDH = x3m_EphemeralKey (x3r_InitialMessage x3);
             state = state\<lparr>rs_DHr := Some remoteDH, rs_SeenDH := {|remoteDH|}\<rparr> in
         bindR (case x3r_LocalRatchetKey x3 of Some kp \<Rightarrow> Inr kp | None \<Rightarrow> generateDH 0) (\<lambda>dhs.
         let state = state\<lparr>rs_DHs := Some dhs\<rparr> in
         case x3r_InitialChainKey x3 of
           Some ck \<Rightarrow> Inr (state\<lparr>rs_CKs := ck\<rparr>)
         | None \<Rightarrow>
             bindR (DH P (kp_PrivateKey dhs) remoteDH) (\<lambda>dhRecv.
             bindR (KDFRoot P (rs_RK state) dhRecv) (\<lambda>(newRK, ckr).
             bindR (generateDH 1) (\<lambda>newDH.
             bindR (DH P (kp_PrivateKey newDH) remoteDH) (\<lambda>dhSend.
             bindR (KDFRoot P newRK dhSend) (\<lambda>(newRK, cks).
             Inr (state\<lparr>rs_RK := newRK, rs_CKr := ckr, rs_CKs := cks, rs_DHs := Some newDH\<rparr>))))))))"

definition InitializeState ::
    "'z prims_scheme \<Rightarrow> (nat \<Rightarrow> bytes res) \<Rightarrow> X3Result option \<Rightarrow> bool \<Rightarrow> State res" where
  "InitializeState P rnd x3 isInitiator =
     InitializeStateWithGenerator P x3 isInitiator (\<lambda>i. GenerateKeyPair P (rnd i))"

section \<open>The two sides start linked\<close>

lemma initiator_cases:
  assumes "InitializeState P rnd (Some a) True = Inr X"
  obtains (pq) dhr ck x dh rk cks where
    "x3r_RemoteRatchetKey a = Some dhr" "x3r_InitialChainKey a = Some ck" "GenerateKeyPair P (rnd 0) = Inr x"
    "DH P (kp_PrivateKey x) dhr = Inr dh" "KDFRoot P (x3r_SharedSecret a) dh = Inr (rk, cks)"
    "X = \<lparr>rs_DHs = Some x, rs_DHr = Some dhr, rs_RK = rk, rs_CKs = cks, rs_CKr = ck, rs_Ns = 0, rs_Nr = 0,
        rs_PN = 0, rs_MKSkipped = fmempty, rs_SeenDH = {|dhr|}\<rparr>"
  | (legacy) dhr x dh rk cks where
    "x3r_RemoteRatchetKey a = Some dhr" "x3r_InitialChainKey a = None"
    "x3r_LocalEphemeral a = Some x \<or> x3r_LocalEphemeral a = None \<and> GenerateKeyPair P (rnd 0) = Inr x"
    "DH P (kp_PrivateKey x) dhr = Inr dh" "KDFRoot P (x3r_SharedSecret a) dh = Inr (rk, cks)"
    "X = \<lparr>rs_DHs = Some x, rs_DHr = Some dhr, rs_RK = rk, rs_CKs = cks, rs_CKr = zero32, rs_Ns = 0, rs_Nr = 0,
        rs_PN = 0, rs_MKSkipped = fmempty, rs_SeenDH = {|dhr|}\<rparr>"
  using assms
  by (auto simp: InitializeState_def InitializeStateWithGenerator_def Let_def split: option.splits if_splits)

lemma responder_cases:
  assumes "InitializeState P rnd (Some r) False = Inr Y" "x3r_LocalRatchetKey r = Some y"
  obtains (pq) ck where "x3r_InitialChainKey r = Some ck"
    "Y = \<lparr>rs_DHs = Some y, rs_DHr = Some (x3m_EphemeralKey (x3r_InitialMessage r)), rs_RK = x3r_SharedSecret r,
        rs_CKs = ck, rs_CKr = zero32, rs_Ns = 0, rs_Nr = 0, rs_PN = 0, rs_MKSkipped = fmempty,
        rs_SeenDH = {|x3m_EphemeralKey (x3r_InitialMessage r)|}\<rparr>"
  | (legacy) dh1 rk1 ckr z dh2 rk cks where "x3r_InitialChainKey r = None"
    "DH P (kp_PrivateKey y) (x3m_EphemeralKey (x3r_InitialMessage r)) = Inr dh1"
    "KDFRoot P (x3r_SharedSecret r) dh1 = Inr (rk1, ckr)" "GenerateKeyPair P (rnd 1) = Inr z"
    "DH P (kp_PrivateKey z) (x3m_EphemeralKey (x3r_InitialMessage r)) = Inr dh2"
    "KDFRoot P rk1 dh2 = Inr (rk, cks)"
    "Y = \<lparr>rs_DHs = Some z, rs_DHr = Some (x3m_EphemeralKey (x3r_InitialMessage r)), rs_RK = rk,
        rs_CKs = cks, rs_CKr = ckr, rs_Ns = 0, rs_Nr = 0, rs_PN = 0, rs_MKSkipped = fmempty,
        rs_SeenDH = {|x3m_EphemeralKey (x3r_InitialMessage r)|}\<rparr>"
  using assms
  by (auto simp: InitializeState_def InitializeStateWithGenerator_def Let_def split: option.splits if_splits)

definition start :: "State \<Rightarrow> State \<Rightarrow> net" where
  "start X Y = \<lparr>n_st = (\<lambda>p. case p of Alice \<Rightarrow> X | Bob \<Rightarrow> Y), n_sent = (\<lambda>_. [])\<rparr>"

text \<open>
  With a post-quantum chain key the initiator is a ratchet step ahead: its pair is new to the
  responder.  Without one the responder has already drawn its own pair.
\<close>

lemma start_linked:
  assumes "dh_comm P" "agrees a r" "\<forall>e. x3r_LocalEphemeral a = Some e \<longrightarrow> honest_pair P e"
    and "x3r_LocalRatchetKey r = Some y" "honest_pair P y"
    and "InitializeState P ra (Some a) True = Inr X" "InitializeState P rb (Some r) False = Inr Y"
    and "if x3r_InitialChainKey a = None then fresh_for X Y else fresh_for Y X"
  shows "paired P (\<lambda>p. case p of Alice \<Rightarrow> X | Bob \<Rightarrow> Y) (\<lambda>_. {})"
proof -
  note y = assms(4) and hy = assms(5)
  note ag = assms(2) [unfolded agrees_def]
  from assms(6) show ?thesis
  proof (cases rule: initiator_cases)
    case (pq dhr ck x dh rk cks)
    have hx: "honest_pair P x" using pq(3) by (rule GenerateKeyPair_honest)
    from assms(7) y show ?thesis
    proof (cases rule: responder_cases)
      case (pq ck')
      have "dhr = kp_PublicKey y" "x3r_SharedSecret r = x3r_SharedSecret a" "ck' = ck"
        using ag y pq(1) \<open>x3r_RemoteRatchetKey a = _\<close> \<open>x3r_InitialChainKey a = _\<close> by simp_all
      then have "linked_at P x y cks ck (x3m_EphemeralKey (x3r_InitialMessage r)) zero32 X Y {} {}"
        using \<open>X = _\<close> pq hx hy assms(8) \<open>x3r_InitialChainKey a = Some ck\<close> \<open>DH P _ dhr = _\<close>
          \<open>KDFRoot P _ _ = _\<close> DH_agree [OF assms(1) hx hy]
        by (simp add: linked_at_def follows_def fresh_for_def)
      then have "linked P X Y {} {}" unfolding linked_def by blast
      then show ?thesis by (auto intro!: paired_ahead [of _ _ Alice])
    qed (use pq ag in simp)
  next
    case (legacy dhr x dh rk cks)
    have ex: "x3r_LocalEphemeral a = Some x" using ag legacy(3) by auto
    have hx: "honest_pair P x" using assms(3) ex by simp
    from assms(7) y show ?thesis
    proof (cases rule: responder_cases)
      case r: (legacy dh1 rk1 ckr z dh2 rk' cks')
      have hz: "honest_pair P z" using r(4) by (rule GenerateKeyPair_honest)
      have "linked_at P z x cks' cks dhr zero32 Y X {} {}"
        using legacy r ag y ex hx hy hz assms(8) DH_agree [OF assms(1) hx hy] DH_agree [OF assms(1) hx hz]
        by (auto simp: linked_at_def follows_def fresh_for_def)
      then have "linked P Y X {} {}" unfolding linked_def by blast
      then show ?thesis by (auto intro!: paired_ahead [of _ _ Bob])
    qed (use legacy ag in simp)
  qed
qed


section \<open>Conversations\<close>

text \<open>
  \<open>handshake P X Y\<close>: the initial states of the two sides after a handshake over a published bundle.  The
  pair drawn for the first ratchet step is new to the other side.
\<close>

definition handshake :: "'z prims_scheme \<Rightarrow> State \<Rightarrow> State \<Rightarrow> bool" where
  "handshake P X Y \<longleftrightarrow> (\<exists>pick ikA ikB spk b st r1 r2 a r st' ra rb.
     honest_identity P ikA \<and> published P (mem_store pick) ikB spk b st \<and>
     NewInitiator_Process P r1 r2 ikA b = Inr a \<and>
     ProcessInitialMessage P (mem_store pick) True ikB spk (x3r_InitialMessage a) st = (Inr r, st') \<and>
     InitializeState P ra (Some a) True = Inr X \<and> InitializeState P rb (Some r) False = Inr Y \<and>
     (if x3r_InitialChainKey a = None then fresh_for X Y else fresh_for Y X))"

text \<open>A conversation: a handshake, and then any run of the network.\<close>

definition conversation :: "'z prims_scheme \<Rightarrow> net \<Rightarrow> bool" where
  "conversation P N \<longleftrightarrow> (\<exists>X Y. handshake P X Y \<and> (net_step P)\<^sup>*\<^sup>* (start X Y) N)"

lemma initiator_ephemeral:
  assumes "NewInitiator_Process P r1 r2 ik b = Inr a"
  obtains eph where "GenerateKeyPair P r1 = Inr eph" "x3r_LocalEphemeral a = Some eph"
    "x3m_EphemeralKey (x3r_InitialMessage a) = kp_PublicKey eph"
  using assms by (rule NewInitiator_Process_Inr) (rule that, assumption, assumption, simp)

lemma handshake_linked:
  assumes "dh_comm P" "kem_ok P" "handshake P X Y"
  shows "paired P (\<lambda>p. case p of Alice \<Rightarrow> X | Bob \<Rightarrow> Y) (\<lambda>_. {})"
  using assms(3) unfolding handshake_def
proof (elim exE conjE)
  fix pick ikA ikB spk b st r1 r2 a r st' ra rb
  assume h: "honest_identity P ikA" "published P (mem_store pick) ikB spk b st"
    "NewInitiator_Process P r1 r2 ikA b = Inr a"
    "ProcessInitialMessage P (mem_store pick) True ikB spk (x3r_InitialMessage a) st = (Inr r, st')"
    "InitializeState P ra (Some a) True = Inr X" "InitializeState P rb (Some r) False = Inr Y"
    "if x3r_InitialChainKey a = None then fresh_for X Y else fresh_for Y X"
  have r: "agrees a r" "x3r_LocalRatchetKey r = spk_KeyPair spk"
    using mem.responder_agrees [OF assms(1,2) h(1-3)] h(4) by auto
  obtain y where y: "spk_KeyPair spk = Some y" "honest_pair P y"
    using h(2) unfolding published_def by blast
  obtain eph where "GenerateKeyPair P r1 = Inr eph" "x3r_LocalEphemeral a = Some eph"
    using h(3) by (rule initiator_ephemeral)
  then have "\<forall>e. x3r_LocalEphemeral a = Some e \<longrightarrow> honest_pair P e"
    by (auto intro: GenerateKeyPair_honest)
  with assms(1) r(1) show ?thesis
    by (rule start_linked [OF _ _ _ _ y(2) h(5,6,7)]) (simp add: r(2) y(1))
qed

lemma conversation_inv:
  assumes "dh_comm P" "kem_ok P" "conversation P N"
  shows "net_inv P N"
proof -
  obtain X Y where h: "handshake P X Y" "(net_step P)\<^sup>*\<^sup>* (start X Y) N"
    using assms(3) unfolding conversation_def by blast
  have "net_inv P (start X Y)"
    using handshake_linked [OF assms(1,2) h(1)] by (auto simp: net_inv_def start_def)
  with h(2) show ?thesis
    by (induction rule: rtranclp_induct) (auto intro: net_inv_step [OF assms(1)])
qed

lemma conversation_step: "conversation P N \<Longrightarrow> net_step P N N' \<Longrightarrow> conversation P N'"
  unfolding conversation_def by (meson rtranclp.rtrancl_into_rtrancl)


section \<open>Every run starts in the invariant\<close>

lemma InitializeState_rcv_inv:
  "InitializeState P rnd (Some x) isInitiator = Inr s \<Longrightarrow> rcv_inv s"
  by (auto simp: InitializeState_def InitializeStateWithGenerator_def Let_def rcv_inv_def
      split: option.splits if_splits)

section \<open>An example conversation\<close>

text \<open>No 32 successive bytes of the concrete key stream are all zero.\<close>

lemma toy_HKDF_nonzero:
  assumes "HKDF toy ikm salt info n = Inr okm" "i + 32 \<le> n"
  shows "arr 32 (take 32 (drop i okm)) \<noteq> zero32"
proof
  assume z: "arr 32 (take 32 (drop i okm)) = zero32"
  have k: "okm = map (hkdf_stream toy (HKDFExtract toy salt ikm) info) [0..<n]"
    using assms(1) by (auto simp: HKDF_def HKDFExpand_def split: if_splits)
  then have "okm ! i = 0" "okm ! (i + 1) = 0"
    using assms(2) arg_cong [OF z, of "\<lambda>x. x ! 0"] arg_cong [OF z, of "\<lambda>x. x ! 1"]
    by (simp_all add: nth_arr zero32_def)
  then have "hkdf_stream toy (HKDFExtract toy salt ikm) info i = 0"
    "hkdf_stream toy (HKDFExtract toy salt ikm) info (i + 1) = 0"
    using k assms(2) by simp_all
  then have "hkdf_stream toy (HKDFExtract toy salt ikm) info (i + 1) -
      hkdf_stream toy (HKDFExtract toy salt ikm) info i = 0" by simp
  then show False by (simp add: toy_def)
qed

lemma toy_KDFChain_nonzero: "fst (KDFChain toy ck) \<noteq> zero32"
  by (simp add: KDFChain_def HMAC256_def toy_def zero32_def numeral_eq_Suc arr_def)

lemma toy_KDFRoot_nonzero: "KDFRoot toy rk dh = Inr (rk', ck) \<Longrightarrow> ck \<noteq> zero32"
  using toy_HKDF_nonzero [of dh rk "ascii ''WhisperRatchet''" 64 _ 32] by (auto simp: KDFRoot_def)

lemma toy_pq_secret:
  assumes "pq_part toy rnd b ikm = Inr (shared, ch, pq, ct)" "b_KyberPreKeyID b \<noteq> None"
  shows "shared \<noteq> zero32" "ch \<noteq> None"
  using assms toy_HKDF_nonzero [of _ "[]" "ascii ''WhisperText_X25519_SHA-256_CRYSTALS-KYBER-1024''" 96 _ 0]
  by (fastforce simp: pq_part_def derivePQSecret_def)+

lemma toy_GenerateKeyPair_hd:
  "GenerateKeyPair toy (Inr (x # xs)) = Inr kp \<Longrightarrow> hd (kp_PublicKey kp) = x + 9"
  by (auto simp: GenerateKeyPair_def toy_scalarBaseMult Let_def arr_def basepoint_def numeral_eq_Suc)

lemma example_initial_states:
  "\<exists>X Y k. handshake toy X Y \<and> rs_DHs X = Some k \<and> rs_CKs X \<noteq> zero32 \<and> rs_Ns X = 0 \<and> rs_PN X = 0 \<and>
     rs_MKSkipped Y = fmempty \<and> rs_DHr Y \<noteq> Some (kp_PublicKey k) \<and> rs_DHr Y \<noteq> None \<and>
     kp_PublicKey k |\<notin>| rs_SeenDH Y"
proof -
  let ?S = "mem_store (\<lambda>c. hd (sorted_list_of_fset c))"
  obtain ikA ikB spk b st a where h: "honest_identity toy ikA" "published toy ?S ikB spk b st"
    "NewInitiator_Process toy (Inr [6]) (Inr [7]) ikA b = Inr a" and ky: "b_KyberPreKeyID b \<noteq> None"
    using example_handshake by blast
  obtain r st' where r: "ProcessInitialMessage toy ?S True ikB spk (x3r_InitialMessage a) st = (Inr r, st')"
    "agrees a r" "x3r_LocalRatchetKey r = spk_KeyPair spk"
    using mem.responder_agrees [OF toy_dh_comm toy_kem_ok h] by blast
  obtain dhr ck where ck: "x3r_RemoteRatchetKey a = Some dhr" "x3r_InitialChainKey a = Some ck"
    "x3r_SharedSecret a \<noteq> zero32"
    using h(3) by (rule NewInitiator_Process_Inr) (use ky toy_pq_secret in blast)
  obtain eph where eph: "GenerateKeyPair toy (Inr [6]) = Inr eph"
    "x3m_EphemeralKey (x3r_InitialMessage a) = kp_PublicKey eph"
    using h(3) by (rule initiator_ephemeral)
  obtain x dh rk cks where x: "GenerateKeyPair toy (Inr [11]) = Inr x" "DH toy (kp_PrivateKey x) dhr = Inr dh"
    "KDFRoot toy (x3r_SharedSecret a) dh = Inr (rk, cks)"
    using toy_GenerateKeyPair DH_total_toy KDFRoot_total by meson
  obtain y where y: "spk_KeyPair spk = Some y" using h(2) unfolding published_def by blast
  let ?X = "\<lparr>rs_DHs = Some x, rs_DHr = Some dhr, rs_RK = rk, rs_CKs = cks, rs_CKr = ck, rs_Ns = 0, rs_Nr = 0,
        rs_PN = 0, rs_MKSkipped = fmempty, rs_SeenDH = {|dhr|}\<rparr>"
  let ?Y = "\<lparr>rs_DHs = Some y, rs_DHr = Some (kp_PublicKey eph), rs_RK = x3r_SharedSecret r, rs_CKs = ck,
        rs_CKr = zero32, rs_Ns = 0, rs_Nr = 0, rs_PN = 0, rs_MKSkipped = fmempty, rs_SeenDH = {|kp_PublicKey eph|}\<rparr>"
  have rr: "x3r_InitialChainKey r = Some ck" "x3r_SharedSecret r = x3r_SharedSecret a"
    "x3m_EphemeralKey (x3r_InitialMessage r) = kp_PublicKey eph" "x3r_LocalRatchetKey r = Some y"
    using r(2,3) ck(2) eph(2) y by (simp_all add: agrees_def)
  have "InitializeState toy (\<lambda>_. Inr [11]) (Some a) True = Inr ?X"
    "InitializeState toy (\<lambda>_. Inr []) (Some r) False = Inr ?Y"
    using ck x by (simp_all add: InitializeState_def InitializeStateWithGenerator_def Let_def rr)
  moreover have ne: "kp_PublicKey x \<noteq> kp_PublicKey eph"
    using toy_GenerateKeyPair_hd [OF x(1)] toy_GenerateKeyPair_hd [OF eph(1)] by auto
  then have "if x3r_InitialChainKey a = None then fresh_for ?X ?Y else fresh_for ?Y ?X"
    by (simp add: ck(2) fresh_for_def)
  moreover have "cks \<noteq> zero32" using x(3) by (rule toy_KDFRoot_nonzero)
  ultimately have "handshake toy ?X ?Y \<and> rs_CKs ?X \<noteq> zero32"
    using h r(1) unfolding handshake_def by force
  then show ?thesis using ne by (intro exI [of _ ?X] exI [of _ ?Y] exI [of _ x]) simp
qed

text \<open>The first message of such a conversation, in flight.\<close>

lemma example_conversation:
  "\<exists>N m k. conversation toy N \<and> (\<exists>X. handshake toy X (n_st N Bob)) \<and> (m, [1, 2, 3], [4]) \<in> set (n_sent N Alice) \<and>
     rs_DHs (n_st N Alice) = Some k \<and> m_Header m = \<lparr>h_DH = kp_PublicKey k, h_PN = 0, h_N = 0\<rparr> \<and>
     \<not> consumed (m_Header m) (n_st N Bob) \<and> rs_DHr (n_st N Bob) \<noteq> Some (kp_PublicKey k)"
proof -
  obtain X Y k where XY: "handshake toy X Y" "rs_DHs X = Some k" "rs_CKs X \<noteq> zero32" "rs_Ns X = 0" "rs_PN X = 0"
    and Y: "rs_MKSkipped Y = fmempty" "rs_DHr Y \<noteq> Some (kp_PublicKey k)" "rs_DHr Y \<noteq> None"
    "kp_PublicKey k |\<notin>| rs_SeenDH Y" using example_initial_states by blast
  let ?h = "\<lparr>h_DH = kp_PublicKey k, h_PN = 0, h_N = 0\<rparr>"
  let ?m = "seal_message toy (snd (KDFChain toy (rs_CKs X))) ?h [1, 2, 3] [4]"
  let ?X = "X\<lparr>rs_CKs := fst (KDFChain toy (rs_CKs X)), rs_Ns := 1\<rparr>"
  let ?N = "(start X Y)\<lparr>n_st := (n_st (start X Y))(Alice := ?X),
     n_sent := (n_sent (start X Y))(Alice := (?m, [1, 2, 3], [4]) # n_sent (start X Y) Alice)\<rparr>"
  have "Encrypt toy [1, 2, 3] [4] (n_st (start X Y) Alice) = (Inr ?m, ?X)"
    using XY by (simp add: Encrypt_NextSendingMessageKey NextSendingMessageKey_def start_def Let_def
        split_beta MaxUint32_def)
  then have "net_step toy (start X Y) ?N" by (rule net_step.send)
  then have "conversation toy ?N" using XY(1) unfolding conversation_def by blast
  moreover have "handshake toy X (n_st ?N Bob)" using XY(1) by (simp add: start_def)
  moreover have "\<not> consumed ?h (n_st ?N Bob)" "rs_DHr (n_st ?N Bob) \<noteq> Some (kp_PublicKey k)"
    using Y by (auto simp: consumed_def start_def)
  moreover have "(?m, [1, 2, 3], [4]) \<in> set (n_sent ?N Alice)" "rs_DHs (n_st ?N Alice) = Some k"
    using XY(2) by simp_all
  ultimately show ?thesis by (intro exI [of _ ?N] exI [of _ ?m] exI [of _ k]) (simp, blast)
qed

lemma example_delivered:
  "\<exists>N m s'. conversation toy N \<and> (\<exists>X. handshake toy X (n_st N Bob)) \<and> (m, [1, 2, 3], [4]) \<in> set (n_sent N Alice) \<and>
     Decrypt toy (Inr [8]) m [4] (n_st N Bob) = (Inr [1, 2, 3], s')"
proof -
  obtain N m k where N: "conversation toy N" "(m, [1, 2, 3], [4]) \<in> set (n_sent N (peer Bob))"
    "rs_DHs (n_st N (peer Bob)) = Some k" "m_Header m = \<lparr>h_DH = kp_PublicKey k, h_PN = 0, h_N = 0\<rparr>"
    "\<not> consumed (m_Header m) (n_st N Bob)" "rs_DHr (n_st N Bob) \<noteq> Some (kp_PublicKey k)"
    "\<exists>X. handshake toy X (n_st N Bob)"
    using example_conversation unfolding peer.simps by blast
  obtain z where z: "GenerateKeyPair toy (Inr [8]) = Inr z" using toy_GenerateKeyPair by blast
  have inv: "net_inv toy N" using toy_dh_comm toy_kem_ok N(1) by (rule conversation_inv)
  have "deliverable toy (Inr [8]) (m_Header m) (n_st N (peer Bob)) (n_st N Bob)"
    using N z DH_total_toy [of "kp_PrivateKey z" "kp_PublicKey k"] by (auto simp: deliverable_def)
  from net_inv_deliverable [OF toy_prims_ok toy_dh_comm inv N(2) this]
  have "\<exists>s'. Decrypt toy (Inr [8]) m [4] (n_st N Bob) = (Inr [1, 2, 3], s')" .
  with N show ?thesis by auto
qed

section \<open>Properties\<close>

text \<open>
  C5: End-to-end correctness.  In a conversation that starts with a handshake and continues with any
  interleaving of sends and of deliveries that are late, repeated, reordered or never made, a message
  that a side accepts from the other decrypts to the plaintext that was sent, across all ratchet steps.
\<close>

theorem conversation_correct:
  assumes "prims_ok P" "dh_comm P" "kem_ok P" "conversation P N"
    and "(m, p, ad) \<in> set (n_sent N (peer x))" "Decrypt P rnd m ad (n_st N x) = (Inr q, s')"
  shows "q = p"
  using assms(1,2) conversation_inv [OF assms(2-4)] assms(5,6) by (rule net_inv_deliver)

theorem conversation_correct_witness:
  "\<exists>N m q s'. conversation toy N \<and> (m, [1, 2, 3], [4]) \<in> set (n_sent N Alice) \<and>
     Decrypt toy (Inr [8]) m [4] (n_st N Bob) = (Inr q, s') \<and> q = [1, 2, 3]"
  using example_delivered conversation_correct [OF toy_prims_ok toy_dh_comm toy_kem_ok, of _ _ _ _ Bob]
  by (metis peer.simps(2))

text \<open>
  C6: Delivery.  In such a conversation a message of its sender's current chain that has not been opened
  before is opened, and gives the plaintext: provided it and the end of the previous chain are at most
  \<open>MaxSkip\<close> messages into their chains, and that a receiver that has to turn the ratchet can draw the key
  pair for it.  No condition on the chain keys is needed: the receiver takes an all-zero chain key for
  a missing one, but the sender has refused to send with it.
\<close>

theorem conversation_delivers:
  assumes "prims_ok P" "dh_comm P" "kem_ok P" "conversation P N"
    and "(m, p, ad) \<in> set (n_sent N (peer x))" "rs_DHs (n_st N (peer x)) = Some k"
    and "h_DH (m_Header m) = kp_PublicKey k" "\<not> consumed (m_Header m) (n_st N x)"
    and "unat (h_N (m_Header m)) \<le> MaxSkip" "unat (h_PN (m_Header m)) \<le> MaxSkip"
    and "rs_DHr (n_st N x) \<noteq> Some (kp_PublicKey k) \<Longrightarrow>
         GenerateKeyPair P rnd = Inr z \<and> isOk (DH P (kp_PrivateKey z) (kp_PublicKey k))"
  shows "\<exists>s'. Decrypt P rnd m ad (n_st N x) = (Inr p, s')"
proof -
  have "deliverable P rnd (m_Header m) (n_st N (peer x)) (n_st N x)"
    using assms(6-) unfolding deliverable_def by blast
  with assms(1,2) conversation_inv [OF assms(2,3,4)] assms(5) show ?thesis by (rule net_inv_deliverable)
qed

theorem conversation_delivers_witness:
  "\<exists>N m s'. conversation toy N \<and> (m, [1, 2, 3], [4]) \<in> set (n_sent N Alice) \<and>
     Decrypt toy (Inr [8]) m [4] (n_st N Bob) = (Inr [1, 2, 3], s')"
proof -
  obtain N m k where N: "conversation toy N" "(m, [1, 2, 3], [4]) \<in> set (n_sent N (peer Bob))"
    "rs_DHs (n_st N (peer Bob)) = Some k" "m_Header m = \<lparr>h_DH = kp_PublicKey k, h_PN = 0, h_N = 0\<rparr>"
    "\<not> consumed (m_Header m) (n_st N Bob)" "rs_DHr (n_st N Bob) \<noteq> Some (kp_PublicKey k)"
    using example_conversation by auto
  obtain z where z: "GenerateKeyPair toy (Inr [8]) = Inr z" using toy_GenerateKeyPair by blast
  have "\<exists>s'. Decrypt toy (Inr [8]) m [4] (n_st N Bob) = (Inr [1, 2, 3], s')"
    by (rule conversation_delivers [OF toy_prims_ok toy_dh_comm toy_kem_ok N(1-3) _ N(5), where z = z])
      (use N(4,6) z DH_total_toy [of "kp_PrivateKey z" "kp_PublicKey k"] in auto)
  with N show ?thesis by auto
qed

text \<open>
  C21: A message of a chain that the receiver has left is rejected as a duplicate, even when it has
  never been received: turning the ratchet deletes the keys that were stored for the skipped messages
  of the old chain, including those that the same call has just stored.
\<close>

theorem late_message_rejected:
  assumes "follows P ck dh D s" "h_DH (m_Header m) \<noteq> dh" "Decrypt P rnd m ad s = (Inr p, s')"
    and "h_DH (m_Header late) = dh"
  shows "Decrypt P rnd' late ad' s' = (Inl ErrDuplicateMessage, s')"
proof -
  obtain mk where "AdvanceForHeader P rnd (m_Header m) s = (Inr mk, s')"
    using assms(3) by (rule Decrypt_Inr)
  from late_consumed [OF assms(1,2) this assms(4)] show ?thesis
    by (simp add: Decrypt_AdvanceForHeader consumed_duplicate)
qed

theorem late_message_rejected_witness:
  "\<exists>m p s'. Decrypt toy (Inr [8]) m [] ex_bob_cur = (Inr p, s') \<and> h_PN (m_Header m) = 2 \<and>
     Decrypt toy (Inr [8]) (ex_msg 1 [4, 5]) [] s' = (Inl ErrDuplicateMessage, s')"
proof -
  let ?h = "\<lparr>h_DH = kp_PublicKey (ex_kp 4), h_PN = 2, h_N = 0\<rparr>"
  have ne: "h_DH ?h \<noteq> kp_PublicKey (ex_kp 3)" by (simp add: ex_kp_def)
  obtain z where z: "GenerateKeyPair toy (Inr [8]) = Inr z" using toy_GenerateKeyPair by blast
  obtain d1 d2 where "DH toy (kp_PrivateKey (ex_kp 5)) (h_DH ?h) = Inr d1" "DH toy (kp_PrivateKey z) (h_DH ?h) = Inr d2"
    using DH_total_toy by meson
  moreover obtain rk ck where k: "KDFRoot toy (rs_RK ex_bob_cur) d1 = Inr (rk, ck)" using KDFRoot_total by blast
  ultimately have "isOk (fst (AdvanceForHeader toy (Inr [8]) ?h ex_bob_cur))"
    using ne toy_KDFRoot_nonzero [OF k]
    by (intro ratchet_deliver [OF ex_follows ne _ _ _ _ _ _ z _ k, of "ex_kp 5" d2])
      (auto simp: ex_bob_cur_def MaxSkip_def)
  then obtain mk s' where "AdvanceForHeader toy (Inr [8]) ?h ex_bob_cur = (Inr mk, s')"
    by (metis isOk.elims(2) prod.collapse)
  then have d: "Decrypt toy (Inr [8]) (seal_message toy mk ?h [9] []) [] ex_bob_cur = (Inr [9], s')"
    by (simp add: Decrypt_AdvanceForHeader decrypt_seal [OF toy_prims_ok])
  have "Decrypt toy (Inr [8]) (ex_msg 1 [4, 5]) [] s' = (Inl ErrDuplicateMessage, s')"
    by (rule late_message_rejected [OF ex_follows _ d]) (use ne in \<open>simp_all add: ex_msg_def ex_header_def\<close>)
  with d show ?thesis by (intro exI [of _ "seal_message toy mk ?h [9] []"]) auto
qed

text \<open>
  C11: From the state that \<open>InitializeState\<close> makes of an X3DH result, for either role, every sequence
  of \<open>Encrypt\<close>, \<open>Decrypt\<close>, \<open>NextSendingMessageKey\<close> and committed \<open>AdvanceForHeader\<close> calls, failing ones
  included, reaches a state in which the stored keys belong to the current receiving chain and lie
  behind its counter, the current remote key is recorded as seen, and no more than \<open>MaxSkip\<close> keys are
  stored.
\<close>

theorem ratchet_run_invariant:
  assumes "InitializeState P rnd (Some x) isInitiator = Inr s" "(ratchet_step P)\<^sup>*\<^sup>* s s'"
  shows "rcv_inv s'"
  using assms(2) InitializeState_rcv_inv [OF assms(1)] by (rule ratchet_steps_rcv_inv)

theorem ratchet_run_invariant_witness:
  "\<exists>rnd x s m s'. InitializeState toy rnd (Some x) False = Inr s \<and>
     Decrypt toy (Inr [8]) m [4] s = (Inr [1, 2, 3], s') \<and> rcv_inv s'"
proof -
  obtain X s m s' where s: "handshake toy X s" "Decrypt toy (Inr [8]) m [4] s = (Inr [1, 2, 3], s')"
    using example_delivered by blast
  obtain rnd x where i: "InitializeState toy rnd (Some x) False = Inr s"
    using s(1) unfolding handshake_def by blast
  have "(ratchet_step toy)\<^sup>*\<^sup>* s s'" using s(2) by (blast intro: ratchet_step.decrypt)
  from ratchet_run_invariant [OF i this] i s(2) show ?thesis by blast
qed

end
