(* ===== verification/Ratchet_Serialize.thy ===== *)
theory Ratchet_Serialize
  imports Ratchet_Safety
begin

text \<open>
  The stored form of a ratchet state (\<^verbatim>\<open>ratchet/serialize.go\<close>): a version byte, flags, the keys and
  counters, the skipped keys and the seen keys in sorted order.  The decoder's cursor is the list of
  bytes it has not read yet.
\<close>

section \<open>Encoding and decoding\<close>

definition stateSerializeVersion :: byte where
  "stateSerializeVersion = 1"

definition enc_skipped :: "SkippedKey \<times> bytes \<Rightarrow> bytes" where
  "enc_skipped e = arr 32 (sk_PublicKey (fst e)) @ put_u32 (sk_N (fst e)) @ arr 32 (snd e)"

definition State_Serialize :: "State \<Rightarrow> bytes" where
  "State_Serialize s =
     (let flags = (case rs_DHs s of None \<Rightarrow> 0 | Some _ \<Rightarrow> 1) OR (case rs_DHr s of None \<Rightarrow> 0 | Some _ \<Rightarrow> 2);
          entries = fm_entries (rs_MKSkipped s);
          seenKeys = sorted_list_of_fset (rs_SeenDH s)
      in [stateSerializeVersion, flags]
         @ (case rs_DHs s of None \<Rightarrow> [] | Some kp \<Rightarrow> arr 32 (kp_PublicKey kp) @ arr 32 (kp_PrivateKey kp))
         @ (case rs_DHr s of None \<Rightarrow> [] | Some dhr \<Rightarrow> arr 32 dhr)
         @ arr 32 (rs_RK s) @ arr 32 (rs_CKs s) @ arr 32 (rs_CKr s)
         @ put_u32 (rs_Ns s) @ put_u32 (rs_Nr s) @ put_u32 (rs_PN s)
         @ put_u32 (of_nat (length entries)) @ concat (map enc_skipped entries)
         @ put_u32 (of_nat (length seenKeys)) @ concat (map (arr 32) seenKeys))"

definition dec_skipped :: "bytes \<Rightarrow> ((SkippedKey \<times> bytes) \<times> bytes) res" where
  "dec_skipped bs =
     (if length bs < 32 + 4 + 32 then Inl ErrInvalidMessage
      else Inr ((SkippedKey (arr 32 (take 32 bs)) (get_u32 (drop 32 bs)),
                 arr 32 (take 32 (drop 36 bs))), drop 68 bs))"

definition dec_key32 :: "bytes \<Rightarrow> (bytes \<times> bytes) res" where
  "dec_key32 bs =
     (if length bs < 32 then Inl ErrInvalidMessage else Inr (arr 32 (take 32 bs), drop 32 bs))"

text \<open>The part of the decoder behind the two optional keys.\<close>

definition DeserializeState_rest :: "KeyPair option \<Rightarrow> bytes option \<Rightarrow> bytes \<Rightarrow> State res" where
  "DeserializeState_rest dhs dhr bs =
     (if length bs < 32 * 3 + 4 * 3 then Inl ErrInvalidMessage
      else
        let rk = arr 32 (take 32 bs); cks = arr 32 (take 32 (drop 32 bs));
            ckr = arr 32 (take 32 (drop 64 bs));
            ns = get_u32 (drop 96 bs); nr = get_u32 (drop 100 bs); pn = get_u32 (drop 104 bs);
            bs = drop 108 bs in
        if length bs < 4 then Inl ErrInvalidMessage
        else
          let skippedCount = unat (get_u32 bs); bs = drop 4 bs in
          if skippedCount > MaxSkip then Inl ErrInvalidMessage
          else
            bindR (read_many skippedCount dec_skipped bs) (\<lambda>(skipped, bs).
            if length bs < 4 then Inl ErrInvalidMessage
            else
              let seenCount = unat (get_u32 bs); bs = drop 4 bs in
              bindR (read_many seenCount dec_key32 bs) (\<lambda>(seen, bs).
              if bs \<noteq> [] then Inl ErrInvalidMessage
              else Inr \<lparr>rs_DHs = dhs, rs_DHr = dhr, rs_RK = rk, rs_CKs = cks, rs_CKr = ckr,
                        rs_Ns = ns, rs_Nr = nr, rs_PN = pn,
                        rs_MKSkipped = fm_insert_all skipped fmempty,
                        rs_SeenDH = fset_of_list seen\<rparr>)))"

definition DeserializeState :: "bytes \<Rightarrow> State res" where
  "DeserializeState data =
     (if length data < 2 then Inl ErrInvalidMessage
      else if data ! 0 \<noteq> stateSerializeVersion then Inl ErrInvalidMessage
      else
        let flags = data ! 1; bs = drop 2 data;
            hasDHs = (flags AND 1 \<noteq> 0); hasDHr = (flags AND 2 \<noteq> 0) in
        bindR (if hasDHs
               then if length bs < 64 then Inl ErrInvalidMessage
                    else Inr (Some \<lparr>kp_PublicKey = arr 32 (take 32 bs),
                                    kp_PrivateKey = arr 32 (take 32 (drop 32 bs))\<rparr>, drop 64 bs)
               else Inr (None, bs)) (\<lambda>(dhs, bs).
        bindR (if hasDHr
               then if length bs < 32 then Inl ErrInvalidMessage
                    else Inr (Some (arr 32 (take 32 bs)), drop 32 bs)
               else Inr (None, bs)) (\<lambda>(dhr, bs).
        DeserializeState_rest dhs dhr bs)))"

section \<open>Entries\<close>

definition skipped_ok :: "SkippedKey \<times> bytes \<Rightarrow> bool" where
  "skipped_ok e \<longleftrightarrow> length (sk_PublicKey (fst e)) = 32 \<and> length (snd e) = 32"

interpretation skipped_entry: strict_codec enc_skipped dec_skipped skipped_ok
proof unfold_locales
  show "skipped_ok x \<Longrightarrow> dec_skipped (enc_skipped x @ r) = Inr (x, r)" for x r
    by (cases x; cases "fst x") (auto simp: skipped_ok_def enc_skipped_def dec_skipped_def codec)
next
  fix bs x r assume d: "dec_skipped bs = Inr (x, r)"
  then have "x = (SkippedKey (take 32 bs) (get_u32 (drop 32 bs)), take 32 (drop 36 bs))"
    "r = drop 68 bs" "68 \<le> length bs"
    by (auto simp: dec_skipped_def codec split: if_splits)
  then show "skipped_ok x \<and> bs = enc_skipped x @ r"
    using take_drop_glue [of 32 36 bs] take_drop_glue [of 4 32 bs]
    by (simp add: skipped_ok_def enc_skipped_def put_get_u32)
qed

interpretation key32: strict_codec "arr 32" dec_key32 "\<lambda>k. length k = 32"
  by unfold_locales (auto simp: dec_key32_def codec split: if_splits)

section \<open>Round trip\<close>

text \<open>What fits the format: array sizes, the decoder's limit on skipped keys, and a 32-bit count.\<close>

definition storable :: "State \<Rightarrow> bool" where
  "storable s \<longleftrightarrow> state_ok s \<and> fm_size (rs_MKSkipped s) \<le> MaxSkip \<and> fcard (rs_SeenDH s) < 2 ^ 32"

lemma storable_entries:
  assumes "storable s"
  shows "list_all skipped_ok (fm_entries (rs_MKSkipped s))"
    and "list_all (\<lambda>k. length k = 32) (sorted_list_of_fset (rs_SeenDH s))"
  using assms
  by (auto simp: storable_def state_ok_def list_all_iff skipped_ok_def set_fm_entries)

lemma storable_reads:
  assumes "storable s"
  shows "read_many (fm_size (rs_MKSkipped s)) dec_skipped (concat (map enc_skipped (fm_entries (rs_MKSkipped s))) @ r)
      = Inr (fm_entries (rs_MKSkipped s), r)"
    and "read_many (fcard (rs_SeenDH s)) dec_key32 (concat (map (arr 32) (sorted_list_of_fset (rs_SeenDH s))) @ r)
      = Inr (sorted_list_of_fset (rs_SeenDH s), r)"
  using skipped_entry.read_many_enc [OF storable_entries(1) [OF assms], of r]
    key32.read_many_enc [OF storable_entries(2) [OF assms], of r]
  by simp_all

lemma storable_counts:
  assumes "storable s"
  shows "unat (of_nat (fm_size (rs_MKSkipped s)) :: u32) = fm_size (rs_MKSkipped s)"
    and "unat (of_nat (fcard (rs_SeenDH s)) :: u32) = fcard (rs_SeenDH s)"
  using assms by (simp_all add: storable_def MaxSkip_def unat_of_nat)

lemma storable_roundtrip:
  assumes "storable s"
  shows "DeserializeState (State_Serialize s) = Inr s"
proof -
  have "state_ok s" "fm_size (rs_MKSkipped s) \<le> MaxSkip" using assms by (simp_all add: storable_def)
  then show ?thesis
    using storable_reads(2) [OF assms, of "[]"]
    by (cases "rs_DHs s"; cases "rs_DHr s")
      (simp_all add: State_Serialize_def DeserializeState_def DeserializeState_rest_def Let_def stateSerializeVersion_def
        state_ok_def kp_ok_def codec storable_reads [OF assms] storable_counts [OF assms])
qed

section \<open>Decoded states are well formed\<close>

lemma fm_insert_all_bound:
  "fm_size (fm_insert_all xs m) \<le> length xs + fm_size m"
proof (induction xs arbitrary: m)
  case (Cons x xs)
  have "fm_size (fm_insert_all xs (fmupd (fst x) (snd x) m)) \<le> length xs + Suc (fm_size m)"
    using Cons [of "fmupd (fst x) (snd x) m"] by (simp add: fm_size_upd split: if_splits)
  then show ?case by (simp add: fm_insert_all_def split_beta)
qed (simp add: fm_insert_all_def)

lemma fcard_fset_of_list_le: "fcard (fset_of_list xs) \<le> length xs"
  by (simp add: fcard.rep_eq fset_of_list.rep_eq card_length)

lemma DeserializeState_rest_sound:
  assumes "DeserializeState_rest dhs dhr bs = Inr s"
    and "\<forall>kp \<in> set_option dhs. kp_ok kp" "\<forall>r \<in> set_option dhr. length r = 32"
  shows "storable s"
proof -
  obtain k bs1 skipped bs2 n seen where
    sk: "read_many k dec_skipped bs1 = Inr (skipped, bs2)" "k \<le> MaxSkip"
    and se: "read_many (unat (n :: u32)) dec_key32 (drop 4 bs2) = Inr (seen, [])"
    and s: "rs_DHs s = dhs" "rs_DHr s = dhr"
      "length (rs_RK s) = 32" "length (rs_CKs s) = 32" "length (rs_CKr s) = 32"
      "rs_MKSkipped s = fm_insert_all skipped fmempty" "rs_SeenDH s = fset_of_list seen"
    using assms(1)
    by (auto simp: DeserializeState_rest_def Let_def not_less split: if_splits)
  have "list_all skipped_ok skipped" using skipped_entry.read_many_sound [OF sk(1)] by simp
  then have "length (sk_PublicKey k) = 32 \<and> length mk = 32"
    if "fmlookup (rs_MKSkipped s) k = Some mk" for k mk
    using that by (fastforce simp: s fmlookup_fm_insert_all list_all_iff skipped_ok_def
        split: option.splits dest!: map_of_SomeD)
  moreover have "list_all (\<lambda>k. length k = 32) seen" using key32.read_many_sound [OF se] by simp
  ultimately have "state_ok s"
    using s assms(2,3) by (simp add: state_ok_def list_all_iff fset_of_list_elem)
  moreover have "fm_size (rs_MKSkipped s) \<le> MaxSkip" "fcard (rs_SeenDH s) < 2 ^ 32"
    using s(6,7) sk(2) fm_insert_all_bound [of skipped fmempty] fcard_fset_of_list_le [of seen]
      read_many_length [OF sk(1)] read_many_length [OF se] unat_u32_less [of n] by simp_all
  ultimately show ?thesis by (simp add: storable_def)
qed

lemma DeserializeState_storable: "DeserializeState data = Inr s \<Longrightarrow> storable s"
  by (auto simp: DeserializeState_def Let_def kp_ok_def split: if_splits
      elim!: DeserializeState_rest_sound)

text \<open>
  C15: The states that fit the format, with their array sizes, at most \<open>MaxSkip\<close> skipped keys and a
  32-bit number of seen keys, are exactly the states that are read back unchanged.
\<close>

theorem State_codec: "storable s \<longleftrightarrow> DeserializeState (State_Serialize s) = Inr s"
  using storable_roundtrip DeserializeState_storable by blast

text \<open>
  C16: Whatever bytes are given, a state that the decoder accepts is well formed and holds no more
  than \<open>MaxSkip\<close> skipped keys.
\<close>

theorem DeserializeState_sound:
  assumes "DeserializeState data = Inr s"
  shows "state_ok s \<and> fm_size (rs_MKSkipped s) \<le> MaxSkip"
  using DeserializeState_storable [OF assms] by (simp add: storable_def)

theorem DeserializeState_sound_witness:
  "DeserializeState (State_Serialize ex_bob_cur) = Inr ex_bob_cur \<and> state_ok ex_bob_cur \<and>
     fm_size (rs_MKSkipped ex_bob_cur) \<le> MaxSkip"
proof -
  have "storable ex_bob_cur"
    by (simp add: storable_def state_ok_def ex_bob_cur_def ex_kp_def kp_ok_def fcard.rep_eq)
  then have "DeserializeState (State_Serialize ex_bob_cur) = Inr ex_bob_cur" by (rule storable_roundtrip)
  with DeserializeState_sound [OF this] show ?thesis by blast
qed

end
