(* ===== verification/Sender_Keys.thy ===== *)
theory Sender_Keys
  imports Chain Stores XEdDSA Concrete
begin

text \<open>
  Sender keys for group messages (\<^verbatim>\<open>senderkeys/\<close>): the record of states and its operations
  (\<^verbatim>\<open>record.go\<close>), the chain (\<^verbatim>\<open>ratchet.go\<close>) and the lookup of a message key (\<^verbatim>\<open>getSenderMessageKey\<close> of
  \<^verbatim>\<open>cipher.go\<close>).  A method that writes its receiver returns the written receiver.  The lookup is compared
  with an abstract window over message numbers, \<open>win_recv\<close>.
\<close>

section \<open>Records and states (record.go)\<close>

definition DefaultMaxStates :: nat where "DefaultMaxStates = 5"
definition maxMessageKeysPerState :: nat where "maxMessageKeysPerState = 2000"
definition distributionIDSize :: nat where "distributionIDSize = 16"

record messageKey =
  mk_iteration :: u32
  mk_seed :: bytes

record senderState =
  gs_messageVersion :: byte
  gs_distributionID :: bytes
  gs_keyID :: u32
  gs_chainIteration :: u32
  gs_chainSeed :: bytes
  gs_signingPublic :: bytes
  gs_signingPrivateSeed :: bytes
  gs_hasPrivate :: bool
  gs_messageKeys :: "messageKey list"

text \<open>
  The code never puts a \<^verbatim>\<open>nil\<close> state into a record.
\<close>

record SenderRecord =
  gr_states :: "senderState list"
  gr_maxStates :: int

definition NewRecord :: "int \<Rightarrow> SenderRecord" where
  "NewRecord maxStates =
     \<lparr>gr_states = [], gr_maxStates = (if maxStates \<le> 0 then int DefaultMaxStates else maxStates)\<rparr>"

definition Record_isEmpty :: "SenderRecord \<Rightarrow> bool" where
  "Record_isEmpty r \<longleftrightarrow> length (gr_states r) = 0"

definition Record_current :: "SenderRecord \<Rightarrow> senderState res" where
  "Record_current r =
     (if length (gr_states r) = 0 then Inl (ErrText ''sender key record: missing state'')
      else Inr (gr_states r ! 0))"

text \<open>
  \<open>Record_state\<close> gives the index of the state, which stands for the pointer the code returns: what is
  written through it is written into the record.
\<close>

definition same_key :: "bytes \<Rightarrow> u32 \<Rightarrow> senderState \<Rightarrow> bool" where
  "same_key distributionID keyID s \<longleftrightarrow> gs_keyID s = keyID \<and> gs_distributionID s = distributionID"

fun find_index :: "('a \<Rightarrow> bool) \<Rightarrow> 'a list \<Rightarrow> nat option" where
  "find_index p [] = None"
| "find_index p (x # xs) = (if p x then Some 0 else map_option Suc (find_index p xs))"

definition Record_state :: "SenderRecord \<Rightarrow> bytes \<Rightarrow> u32 \<Rightarrow> nat res" where
  "Record_state r distributionID keyID =
     (case find_index (same_key distributionID keyID) (gr_states r) of
        None \<Rightarrow> Inl (ErrText ''sender key record: missing state'')
      | Some i \<Rightarrow> Inr i)"

definition Record_setState :: "senderState \<Rightarrow> SenderRecord \<Rightarrow> SenderRecord" where
  "Record_setState nxt r =
     (let filtered = filter (\<lambda>s. \<not> same_key (gs_distributionID nxt) (gs_keyID nxt) s) (gr_states r);
          states = nxt # filtered in
      r\<lparr>gr_states := (if int (length states) > gr_maxStates r then take (nat (gr_maxStates r)) states else states)\<rparr>)"

definition hasMessageKey :: "senderState \<Rightarrow> u32 \<Rightarrow> bool" where
  "hasMessageKey s iteration \<longleftrightarrow> (\<exists>mk \<in> set (gs_messageKeys s). mk_iteration mk = iteration)"

definition addMessageKey :: "messageKey \<Rightarrow> senderState \<Rightarrow> senderState" where
  "addMessageKey mk s =
     (let ks = gs_messageKeys s @ [mk] in
      s\<lparr>gs_messageKeys :=
          (if length ks > maxMessageKeysPerState then drop (length ks - maxMessageKeysPerState) ks else ks)\<rparr>)"

definition removeMessageKey :: "u32 \<Rightarrow> senderState \<Rightarrow> bytes option \<times> senderState" where
  "removeMessageKey iteration s =
     (case find_index (\<lambda>mk. mk_iteration mk = iteration) (gs_messageKeys s) of
        None \<Rightarrow> (None, s)
      | Some i \<Rightarrow> (Some (mk_seed (gs_messageKeys s ! i)),
                   s\<lparr>gs_messageKeys := take i (gs_messageKeys s) @ drop (i + 1) (gs_messageKeys s)\<rparr>))"

section \<open>The chain (ratchet.go)\<close>

definition senderKeySeedSize :: nat where "senderKeySeedSize = 32"
definition senderKeyIVSize :: nat where "senderKeyIVSize = 16"
definition senderKeyCipherKeySize :: nat where "senderKeyCipherKeySize = 32"

definition senderKeyHKDFInfo :: bytes where
  "senderKeyHKDFInfo = ascii ''WhisperGroup''"

definition senderMessageKeySeedConstant :: byte where "senderMessageKeySeedConstant = 1"
definition senderChainKeySeedConstant :: byte where "senderChainKeySeedConstant = 2"

definition generateSenderKeyID :: "bytes res \<Rightarrow> u32 res" where
  "generateSenderKeyID rnd = bindR (RandomBytes rnd 4) (\<lambda>b. Inr (get_u32 b AND 0x7fffffff))"

definition generateSenderKeySeed :: "bytes res \<Rightarrow> bytes res" where
  "generateSenderKeySeed rnd = bindR (RandomBytes rnd senderKeySeedSize) (\<lambda>b. Inr (arr senderKeySeedSize b))"

definition generateDistributionID :: "bytes res \<Rightarrow> bytes res" where
  "generateDistributionID rnd = bindR (RandomBytes rnd distributionIDSize) (\<lambda>b. Inr (arr distributionIDSize b))"

definition generateSigningKey :: "'z prims_scheme \<Rightarrow> bytes res \<Rightarrow> (bytes \<times> bytes) res" where
  "generateSigningKey P rnd = bindR (GenerateKeyPair P rnd) (\<lambda>kp. Inr (kp_PublicKey kp, kp_PrivateKey kp))"

record senderChainKey =
  sck_iteration :: u32
  sck_seed :: bytes

record senderMessageKey =
  smk_iteration :: u32
  smk_seed :: bytes
  smk_iv :: bytes
  smk_cipherKey :: bytes

definition senderChainKey_derive :: "'z prims_scheme \<Rightarrow> senderChainKey \<Rightarrow> byte \<Rightarrow> bytes" where
  "senderChainKey_derive P k constant = arr senderKeySeedSize (HMAC256 P (sck_seed k) [constant])"

definition newSenderMessageKey :: "'z prims_scheme \<Rightarrow> u32 \<Rightarrow> bytes \<Rightarrow> senderMessageKey res" where
  "newSenderMessageKey P iteration seed =
     bindR (HKDF P seed [] senderKeyHKDFInfo (senderKeyIVSize + senderKeyCipherKeySize)) (\<lambda>derivative.
     Inr \<lparr>smk_iteration = iteration, smk_seed = seed,
          smk_iv = arr senderKeyIVSize (take senderKeyIVSize derivative),
          smk_cipherKey = arr senderKeyCipherKeySize (drop senderKeyIVSize derivative)\<rparr>)"

definition senderChainKey_senderMessageKey :: "'z prims_scheme \<Rightarrow> senderChainKey \<Rightarrow> senderMessageKey res" where
  "senderChainKey_senderMessageKey P k =
     newSenderMessageKey P (sck_iteration k) (senderChainKey_derive P k senderMessageKeySeedConstant)"

definition senderChainKey_next :: "'z prims_scheme \<Rightarrow> senderChainKey \<Rightarrow> senderChainKey res" where
  "senderChainKey_next P k =
     (if sck_iteration k = MaxUint32 then Inl ErrCounterOverflow
      else Inr \<lparr>sck_iteration = sck_iteration k + 1,
                sck_seed = senderChainKey_derive P k senderChainKeySeedConstant\<rparr>)"

section \<open>Looking up a message key (cipher.go)\<close>

text \<open>The loop that stores the keys of the messages that are skipped.\<close>

function skip_sender_keys ::
    "'z prims_scheme \<Rightarrow> u32 \<Rightarrow> senderChainKey \<Rightarrow> senderState \<Rightarrow> senderChainKey res \<times> senderState" where
  "skip_sender_keys P iteration chainKey st =
     (if sck_iteration chainKey < iteration then
        (case senderChainKey_senderMessageKey P chainKey of
           Inl e \<Rightarrow> (Inl e, st)
         | Inr mk \<Rightarrow>
             let st = addMessageKey \<lparr>mk_iteration = sck_iteration chainKey, mk_seed = smk_seed mk\<rparr> st in
             (case senderChainKey_next P chainKey of
                Inl e \<Rightarrow> (Inl e, st)
              | Inr chainKey \<Rightarrow> skip_sender_keys P iteration chainKey st))
      else (Inr chainKey, st))"
  by pat_completeness auto
termination
  by (relation "measure (\<lambda>(P, iteration, ck, st). unat iteration - unat (sck_iteration ck))")
    (auto simp: senderChainKey_next_def word_less_nat_alt unat_inc_Max split: if_splits)

declare skip_sender_keys.simps [simp del]

definition getSenderMessageKey ::
    "'z prims_scheme \<Rightarrow> u32 \<Rightarrow> senderState \<Rightarrow> senderMessageKey res \<times> senderState" where
  "getSenderMessageKey P iteration st =
     (let chainKey = \<lparr>sck_iteration = gs_chainIteration st, sck_seed = gs_chainSeed st\<rparr> in
      if sck_iteration chainKey > iteration then
        (case removeMessageKey iteration st of
           (None, st) \<Rightarrow> (Inl ErrDuplicateMessage, st)
         | (Some seed, st) \<Rightarrow> (newSenderMessageKey P iteration seed, st))
      else if unat (iteration - sck_iteration chainKey) > maxMessageKeysPerState then (Inl ErrMaxSkipExceeded, st)
      else bindS (skip_sender_keys P iteration chainKey st) (\<lambda>chainKey st.
        case senderChainKey_next P chainKey of
          Inl e \<Rightarrow> (Inl e, st)
        | Inr nxt \<Rightarrow>
            (senderChainKey_senderMessageKey P chainKey,
             st\<lparr>gs_chainIteration := sck_iteration nxt, gs_chainSeed := sck_seed nxt\<rparr>)))"

section \<open>The lookup in closed form\<close>

definition sender_kdf :: "'z prims_scheme \<Rightarrow> bytes \<Rightarrow> bytes \<times> bytes" where
  "sender_kdf P seed = (HMAC256 P seed [2], HMAC256 P seed [1])"

text \<open>The message key that belongs to a seed; deriving it never fails.\<close>

definition sender_mk :: "'z prims_scheme \<Rightarrow> u32 \<Rightarrow> bytes \<Rightarrow> senderMessageKey" where
  "sender_mk P iteration seed = projr (newSenderMessageKey P iteration seed)"

lemma newSenderMessageKey_Inr: "newSenderMessageKey P iteration seed = Inr (sender_mk P iteration seed)"
  using HKDF_Inr [of 48 P seed "[]" senderKeyHKDFInfo]
  by (auto simp: sender_mk_def newSenderMessageKey_def senderKeyIVSize_def senderKeyCipherKeySize_def hkdfMaxLength_def)

lemma sender_mk_eq:
  "\<exists>d. sender_mk P i s = \<lparr>smk_iteration = i, smk_seed = s, smk_iv = arr 16 (take 16 d), smk_cipherKey = arr 32 (drop 16 d)\<rparr>"
  using newSenderMessageKey_Inr [of P i s, symmetric]
  by (auto simp: newSenderMessageKey_def senderKeyIVSize_def senderKeyCipherKeySize_def bindR_def split: sum.splits)

lemma sender_mk_fields [simp]:
  "smk_iteration (sender_mk P i s) = i" "smk_seed (sender_mk P i s) = s"
  "length (smk_iv (sender_mk P i s)) = 16" "length (smk_cipherKey (sender_mk P i s)) = 32"
  using sender_mk_eq [of P i s] by auto

lemma senderChainKey_steps:
  "senderChainKey_senderMessageKey P k = Inr (sender_mk P (sck_iteration k) (snd (sender_kdf P (sck_seed k))))"
  "sck_iteration k \<noteq> MaxUint32 \<Longrightarrow>
     senderChainKey_next P k = Inr \<lparr>sck_iteration = sck_iteration k + 1, sck_seed = fst (sender_kdf P (sck_seed k))\<rparr>"
  by (simp_all add: senderChainKey_senderMessageKey_def senderChainKey_next_def senderChainKey_derive_def
      sender_kdf_def newSenderMessageKey_Inr senderMessageKeySeedConstant_def senderChainKeySeedConstant_def
      senderKeySeedSize_def)

text \<open>The bounded list of stored keys, for keys and for message numbers alike.\<close>

definition keep :: "'a list \<Rightarrow> 'a list" where
  "keep xs = drop (length xs - maxMessageKeysPerState) xs"

definition keep_add :: "'a \<Rightarrow> 'a list \<Rightarrow> 'a list" where
  "keep_add x xs = keep (xs @ [x])"

lemma addMessageKey_keep: "addMessageKey mk s = s\<lparr>gs_messageKeys := keep_add mk (gs_messageKeys s)\<rparr>"
  by (auto simp: addMessageKey_def keep_add_def keep_def Let_def)

lemma map_keep: "map f (keep xs) = keep (map f xs)"
  by (simp add: keep_def drop_map)

lemma map_fold_keep_add: "map f (fold keep_add xs ks) = fold keep_add (map f xs) (map f ks)"
  by (induction xs arbitrary: ks) (simp_all add: keep_add_def map_keep)

lemma keep_keep: "keep (keep xs @ ys) = keep (xs @ ys)"
proof -
  have "keep zs = rev (take maxMessageKeysPerState (rev zs))" for zs :: "'a list"
    by (simp add: keep_def take_rev)
  then show ?thesis by (simp add: min_def)
qed

lemma fold_keep_add: "length ks \<le> maxMessageKeysPerState \<Longrightarrow> fold keep_add xs ks = keep (ks @ xs)"
proof (induction xs arbitrary: ks)
  case Nil
  then show ?case by (simp add: keep_def)
next
  case (Cons x xs)
  have "length (keep_add x ks) \<le> maxMessageKeysPerState" by (simp add: keep_add_def keep_def)
  from Cons.IH [OF this] show ?case using keep_keep [of "ks @ [x]" xs] by (simp add: keep_add_def)
qed

lemma skip_sender_keys_eq:
  "it \<le> iteration \<Longrightarrow>
   skip_sender_keys P iteration \<lparr>sck_iteration = it, sck_seed = seed\<rparr> st =
     (Inr \<lparr>sck_iteration = iteration, sck_seed = chain_key (sender_kdf P) seed (unat iteration - unat it)\<rparr>,
      st\<lparr>gs_messageKeys := fold keep_add
        (map (\<lambda>j. \<lparr>mk_iteration = it + of_nat j, mk_seed = chain_msg (sender_kdf P) seed j\<rparr>)
          [0..<unat iteration - unat it]) (gs_messageKeys st)\<rparr>)"
proof (induction "unat iteration - unat it" arbitrary: it seed st)
  case 0
  then have "it = iteration" by (simp add: word_le_nat_alt word_unat_eq_iff)
  then show ?case by (simp add: skip_sender_keys.simps)
next
  case (Suc n)
  then have lt: "it < iteration" by (simp add: word_less_nat_alt)
  then have m: "it \<noteq> MaxUint32"
    using unat_u32_less [of iteration] by (auto simp: word_less_nat_alt unat_MaxUint32)
  have n: "n = unat iteration - unat (it + 1)" "unat iteration - unat it = Suc n"
    using Suc.hyps(2) unat_inc [OF lt] by simp_all
  have le: "it + 1 \<le> iteration" using lt by (simp add: word_le_nat_alt word_less_nat_alt unat_inc [OF lt])
  have up: "map f [0..<Suc n] = f 0 # map (\<lambda>j. f (Suc j)) [0..<n]" for f :: "nat \<Rightarrow> messageKey"
    by (simp add: upt_conv_Cons map_Suc_upt [symmetric] del: upt_Suc)
  have "skip_sender_keys P iteration \<lparr>sck_iteration = it, sck_seed = seed\<rparr> st =
      skip_sender_keys P iteration \<lparr>sck_iteration = it + 1, sck_seed = fst (sender_kdf P seed)\<rparr>
        (st\<lparr>gs_messageKeys := keep_add \<lparr>mk_iteration = it, mk_seed = snd (sender_kdf P seed)\<rparr> (gs_messageKeys st)\<rparr>)"
    using lt m by (subst skip_sender_keys.simps) (simp add: senderChainKey_steps addMessageKey_keep Let_def)
  also note Suc.hyps(1) [OF n(1) le]
  finally show ?case
    unfolding n(2) up by (simp add: n(1) [symmetric] chain_simps add.assoc)
qed

text \<open>The part of \<open>getSenderMessageKey\<close> that moves the chain, without its loop.\<close>

lemma getSenderMessageKey_forward:
  assumes "gs_chainIteration st \<le> i" "unat i - unat (gs_chainIteration st) \<le> maxMessageKeysPerState" "i \<noteq> MaxUint32"
  shows "getSenderMessageKey P i st =
     (Inr (sender_mk P i (chain_msg (sender_kdf P) (gs_chainSeed st) (unat i - unat (gs_chainIteration st)))),
      st\<lparr>gs_chainIteration := i + 1,
         gs_chainSeed := chain_key (sender_kdf P) (gs_chainSeed st) (Suc (unat i - unat (gs_chainIteration st))),
         gs_messageKeys := fold keep_add
           (map (\<lambda>j. \<lparr>mk_iteration = gs_chainIteration st + of_nat j,
                       mk_seed = chain_msg (sender_kdf P) (gs_chainSeed st) j\<rparr>)
             [0..<unat i - unat (gs_chainIteration st)]) (gs_messageKeys st)\<rparr>)"
  using assms
  by (simp add: getSenderMessageKey_def skip_sender_keys_eq senderChainKey_steps chain_msg_def unat_sub
      not_less [symmetric])

lemma find_index_map: "find_index p (map f xs) = find_index (p \<circ> f) xs"
  by (induction xs) simp_all

lemma find_index_None: "find_index p xs = None \<longleftrightarrow> (\<forall>x \<in> set xs. \<not> p x)"
  by (induction xs) auto

lemma find_index_Some: "find_index p xs = Some i \<Longrightarrow> i < length xs \<and> p (xs ! i) \<and> (\<forall>j < i. \<not> p (xs ! j))"
proof (induction xs arbitrary: i)
  case (Cons x xs)
  show ?case
  proof (cases "p x")
    case False
    then obtain k where "i = Suc k" "find_index p xs = Some k" using Cons.prems by auto
    with Cons.IH False show ?thesis by (auto simp: nth_Cons split: nat.splits)
  qed (use Cons.prems in auto)
qed simp

lemma find_index_remove:
  "find_index p xs = Some i \<Longrightarrow> p = (\<lambda>x. f x = a) \<Longrightarrow>
     map f (take i xs @ drop (i + 1) xs) = remove1 a (map f xs)"
  by (induction xs arbitrary: i) (auto split: if_splits)

section \<open>The window over message numbers\<close>

text \<open>
  What a receiver promises, without keys: the number of the next message and the numbers of the
  skipped messages that can still be opened, at most \<open>maxMessageKeysPerState\<close> of them.
\<close>

type_synonym window = "nat \<times> nat list"

definition win_recv :: "nat \<Rightarrow> window \<Rightarrow> nat res \<times> window" where
  "win_recv i w =
     (let (nxt, ks) = w in
      if i < nxt then
        (if i \<in> set ks then (Inr i, (nxt, remove1 i ks)) else (Inl ErrDuplicateMessage, w))
      else if i - nxt > maxMessageKeysPerState then (Inl ErrMaxSkipExceeded, w)
      else if i = unat MaxUint32 then (Inl ErrCounterOverflow, (nxt, fold keep_add [nxt..<i] ks))
      else (Inr i, (Suc i, fold keep_add [nxt..<i] ks)))"

definition win_of :: "senderState \<Rightarrow> window" where
  "win_of st = (unat (gs_chainIteration st), map (\<lambda>mk. unat (mk_iteration mk)) (gs_messageKeys st))"

lemma skipped_numbers:
  assumes "it \<le> (i :: u32)"
  shows "map (\<lambda>j. unat (it + of_nat j)) [0..<unat i - unat it] = [unat it..<unat i]"
proof (rule nth_equalityI)
  fix j assume "j < length (map (\<lambda>j. unat (it + of_nat j)) [0..<unat i - unat it])"
  then have j: "unat it + j < unat i" by simp
  then have "unat it + j < 2 ^ 32" "j < 2 ^ 32" using unat_u32_less [of i] by linarith+
  then have "unat (it + of_nat j) = unat it + j" by (simp add: unat_word_ariths unat_of_nat)
  then show "map (\<lambda>j. unat (it + of_nat j)) [0..<unat i - unat it] ! j = [unat it..<unat i] ! j"
    using j by (simp add: less_diff_conv add.commute)
qed simp

lemma hasMessageKey_win: "hasMessageKey st i \<longleftrightarrow> unat i \<in> set (snd (win_of st))"
  by (force simp: hasMessageKey_def win_of_def word_unat_eq_iff)

lemma removeMessageKey_None: "\<not> hasMessageKey st i \<Longrightarrow> removeMessageKey i st = (None, st)"
  using find_index_None [of "\<lambda>mk. mk_iteration mk = i" "gs_messageKeys st"]
  by (auto simp: removeMessageKey_def hasMessageKey_def)

lemma removeMessageKey_Some:
  assumes "hasMessageKey st i"
  obtains mk ks where "removeMessageKey i st = (Some (mk_seed mk), st\<lparr>gs_messageKeys := ks\<rparr>)"
    "mk \<in> set (gs_messageKeys st)" "mk_iteration mk = i" "set ks \<subseteq> set (gs_messageKeys st)"
    "win_of (st\<lparr>gs_messageKeys := ks\<rparr>) = (fst (win_of st), remove1 (unat i) (snd (win_of st)))"
proof -
  obtain k where k: "find_index (\<lambda>mk. mk_iteration mk = i) (gs_messageKeys st) = Some k"
    using assms find_index_None [of "\<lambda>mk. mk_iteration mk = i" "gs_messageKeys st"]
    by (fastforce simp: hasMessageKey_def)
  have "map (\<lambda>mk. unat (mk_iteration mk)) (take k (gs_messageKeys st) @ drop (k + 1) (gs_messageKeys st)) =
      remove1 (unat i) (map (\<lambda>mk. unat (mk_iteration mk)) (gs_messageKeys st))"
    using k by (rule find_index_remove) (simp add: word_unat_eq_iff)
  then show ?thesis
    using find_index_Some [OF k] k
    by (intro that [of "gs_messageKeys st ! k" "take k (gs_messageKeys st) @ drop (k + 1) (gs_messageKeys st)"])
      (auto simp: removeMessageKey_def win_of_def dest: in_set_takeD in_set_dropD)
qed

lemma getSenderMessageKey_window:
  "win_recv (unat i) (win_of st) =
     (map_sum id (\<lambda>mk. unat (smk_iteration mk)) (fst (getSenderMessageKey P i st)),
      win_of (snd (getSenderMessageKey P i st)))"
proof (cases "i < gs_chainIteration st")
  case True
  then have lt: "unat i < fst (win_of st)" by (simp add: win_of_def word_less_nat_alt)
  show ?thesis
  proof (cases "hasMessageKey st i")
    case h: True
    then obtain mk :: messageKey and ks where "removeMessageKey i st = (Some (mk_seed mk), st\<lparr>gs_messageKeys := ks\<rparr>)"
      "win_of (st\<lparr>gs_messageKeys := ks\<rparr>) = (fst (win_of st), remove1 (unat i) (snd (win_of st)))"
      by (rule removeMessageKey_Some) blast
    with True h lt show ?thesis
      by (simp add: getSenderMessageKey_def newSenderMessageKey_Inr win_recv_def split_beta hasMessageKey_win)
  next
    case False
    with True lt show ?thesis
      by (simp add: getSenderMessageKey_def removeMessageKey_None win_recv_def split_beta hasMessageKey_win)
  qed
next
  case False
  then have le: "gs_chainIteration st \<le> i" by simp
  have sub: "unat (i - gs_chainIteration st) = unat i - unat (gs_chainIteration st)"
    using le by (rule unat_sub)
  have win: "fst (win_of st) = unat (gs_chainIteration st)" "\<not> unat i < unat (gs_chainIteration st)"
    using False by (simp_all add: win_of_def word_less_nat_alt)
  have up: "i \<noteq> MaxUint32 \<Longrightarrow> unat i \<noteq> unat MaxUint32" by (simp add: word_unat_eq_iff)
  show ?thesis
    using le False up win sub skipped_numbers [OF le]
    by (cases "i = MaxUint32")
      (auto simp: getSenderMessageKey_def win_recv_def win_of_def sub skip_sender_keys_eq senderChainKey_steps
        senderChainKey_next_def map_fold_keep_add comp_def unat_inc_Max)
qed

section \<open>Receiving in any order\<close>

definition win_ok :: "window \<Rightarrow> bool" where
  "win_ok w \<longleftrightarrow> distinct (snd w) \<and> (\<forall>k \<in> set (snd w). k < fst w) \<and> length (snd w) \<le> maxMessageKeysPerState"

text \<open>The messages that were opened or given up.\<close>

definition win_closed :: "window \<Rightarrow> nat set" where
  "win_closed w = {..<fst w} - set (snd w)"

lemma set_keep: "set (keep xs) \<subseteq> set xs"
  by (simp add: keep_def set_drop_subset)

lemma win_recv_ok:
  assumes "win_ok w" "win_recv i w = (Inr j, w')"
  shows "win_ok w'" "j = i" "i \<in> win_closed w'" "win_closed w \<subseteq> win_closed w'" "fst w \<le> fst w'" "i \<notin> win_closed w"
proof -
  obtain n ks where w: "w = (n, ks)" by (cases w)
  have inv: "distinct ks" "\<forall>k \<in> set ks. k < n" "length ks \<le> maxMessageKeysPerState"
    using assms(1) by (simp_all add: win_ok_def w)
  have len: "length (keep xs) \<le> maxMessageKeysPerState" and dist: "distinct xs \<Longrightarrow> distinct (keep xs)" for xs :: "nat list"
    by (simp_all add: keep_def)
  show "j = i" using assms(2) by (auto simp: win_recv_def w split: if_splits)
  consider "i < n" "i \<in> set ks" "w' = (n, remove1 i ks)"
    | "n \<le> i" "w' = (Suc i, keep (ks @ [n..<i]))"
    using assms(2) fold_keep_add [OF inv(3)] by (auto simp: win_recv_def w split: if_splits)
  then have "win_ok w' \<and> i \<in> win_closed w' \<and> win_closed w \<subseteq> win_closed w' \<and> fst w \<le> fst w' \<and> i \<notin> win_closed w"
  proof cases
    case 1
    then show ?thesis
      using inv by (auto simp: win_ok_def win_closed_def w length_remove1 dest: notin_set_remove1)
  next
    case 2
    have "distinct (keep (ks @ [n..<i]))" using inv by (intro dist) auto
    moreover have "k < Suc i" if "k \<in> set (keep (ks @ [n..<i]))" for k
      using that 2 inv set_keep [of "ks @ [n..<i]"] by fastforce
    ultimately have "win_ok w'"
      using 2 len by (simp add: win_ok_def)
    moreover have "k \<in> set ks \<or> n \<le> k \<and> k < i" if "k \<in> set (keep (ks @ [n..<i]))" for k
      using that set_keep [of "ks @ [n..<i]"] by auto
    ultimately show ?thesis
      using 2 inv by (fastforce simp: win_closed_def w)
  qed
  then show "win_ok w'" "i \<in> win_closed w'" "win_closed w \<subseteq> win_closed w'" "fst w \<le> fst w'" "i \<notin> win_closed w"
    by blast+
qed

text \<open>A jump keeps every message it skips, so each of them can still be opened.\<close>

lemma win_recv_jump:
  assumes "win_ok w" "win_recv i w = (Inr i, w')" "fst w \<le> k" "k < i"
  shows "k \<in> set (snd w')"
proof -
  obtain n ks where w: "w = (n, ks)" by (cases w)
  have w': "w' = (Suc i, keep (ks @ [n..<i]))" "i - n \<le> maxMessageKeysPerState"
    using assms fold_keep_add [of ks "[n..<i]"] by (auto simp: win_recv_def win_ok_def w split: if_splits)
  have "keep (ks @ [n..<i]) = drop (length ks + (i - n) - maxMessageKeysPerState) ks @ [n..<i]"
    using w'(2) by (simp add: keep_def)
  then show ?thesis using w'(1) assms(3,4) by (simp add: w)
qed

text \<open>
  A state that follows the chain that starts with \<open>seed\<close> at message \<open>n\<close>: its chain key and its stored
  keys are those of the chain.
\<close>

definition sender_follows :: "'z prims_scheme \<Rightarrow> nat \<Rightarrow> bytes \<Rightarrow> senderState \<Rightarrow> bool" where
  "sender_follows P n seed st \<longleftrightarrow>
     n \<le> unat (gs_chainIteration st) \<and>
     gs_chainSeed st = chain_key (sender_kdf P) seed (unat (gs_chainIteration st) - n) \<and>
     win_ok (win_of st) \<and>
     (\<forall>mk \<in> set (gs_messageKeys st). n \<le> unat (mk_iteration mk) \<and>
        mk_seed mk = chain_msg (sender_kdf P) seed (unat (mk_iteration mk) - n))"

text \<open>What receiving leaves alone: the identifiers and the signing keys.\<close>

definition gs_frame :: "senderState \<Rightarrow> senderState" where
  "gs_frame st = st\<lparr>gs_chainIteration := 0, gs_chainSeed := [], gs_messageKeys := []\<rparr>"

lemma set_fold_keep_add: "set (fold keep_add xs ks) \<subseteq> set xs \<union> set ks"
proof (induction xs arbitrary: ks)
  case (Cons x xs)
  from Cons [of "keep_add x ks"] show ?case using set_keep [of "ks @ [x]"] by (auto simp: keep_add_def)
qed simp

lemma getSenderMessageKey_cases:
  assumes "getSenderMessageKey P i st = (Inr mk, st')"
  obtains (stored) k ks where "i < gs_chainIteration st" "k \<in> set (gs_messageKeys st)" "mk_iteration k = i"
      "mk = sender_mk P i (mk_seed k)" "st' = st\<lparr>gs_messageKeys := ks\<rparr>" "set ks \<subseteq> set (gs_messageKeys st)"
  | (forward) "gs_chainIteration st \<le> i" "unat i - unat (gs_chainIteration st) \<le> maxMessageKeysPerState" "i \<noteq> MaxUint32"
proof (cases "i < gs_chainIteration st")
  case True
  then have "hasMessageKey st i"
    using assms removeMessageKey_None [of st i] by (cases "hasMessageKey st i") (auto simp: getSenderMessageKey_def)
  then obtain k ks where "removeMessageKey i st = (Some (mk_seed k), st\<lparr>gs_messageKeys := ks\<rparr>)"
    "k \<in> set (gs_messageKeys st)" "mk_iteration k = i" "set ks \<subseteq> set (gs_messageKeys st)"
    by (rule removeMessageKey_Some)
  with True assms show ?thesis
    by (intro stored [of k ks]) (auto simp: getSenderMessageKey_def newSenderMessageKey_Inr)
next
  case False
  then have le: "gs_chainIteration st \<le> i" by simp
  have "unat i - unat (gs_chainIteration st) \<le> maxMessageKeysPerState"
    using assms False unat_sub [OF le] by (auto simp: getSenderMessageKey_def split: if_splits)
  moreover have "i \<noteq> MaxUint32"
    using assms False le by (auto simp: getSenderMessageKey_def skip_sender_keys_eq senderChainKey_next_def split: if_splits)
  ultimately show ?thesis by (rule forward [OF le])
qed

lemma getSenderMessageKey_follows:
  assumes "sender_follows P n seed st" "getSenderMessageKey P i st = (Inr mk, st')"
  shows "sender_follows P n seed st'" "n \<le> unat i" "mk = sender_mk P i (chain_msg (sender_kdf P) seed (unat i - n))"
    "gs_frame st' = gs_frame st"
proof -
  have win: "win_ok (win_of st')"
    using assms win_recv_ok(1) [of "win_of st" "unat i" "unat (smk_iteration mk)" "win_of st'"]
      getSenderMessageKey_window [of i st P] by (simp add: sender_follows_def)
  have "sender_follows P n seed st' \<and> n \<le> unat i \<and> mk = sender_mk P i (chain_msg (sender_kdf P) seed (unat i - n)) \<and>
    gs_frame st' = gs_frame st"
    using assms(2)
  proof (cases rule: getSenderMessageKey_cases)
    case (stored k ks)
    then show ?thesis
      using assms(1) win by (auto simp: sender_follows_def gs_frame_def)
  next
    case forward
    let ?it = "gs_chainIteration st" and ?d = "unat i - unat (gs_chainIteration st)"
    let ?new = "map (\<lambda>j. \<lparr>mk_iteration = ?it + of_nat j, mk_seed = chain_msg (sender_kdf P) (gs_chainSeed st) j\<rparr>) [0..<?d]"
    have st': "mk = sender_mk P i (chain_msg (sender_kdf P) (gs_chainSeed st) ?d)"
      "st' = st\<lparr>gs_chainIteration := i + 1, gs_chainSeed := chain_key (sender_kdf P) (gs_chainSeed st) (Suc ?d),
         gs_messageKeys := fold keep_add ?new (gs_messageKeys st)\<rparr>"
      using assms(2) getSenderMessageKey_forward [OF forward, of P] by simp_all
    have n: "n \<le> unat ?it" "unat ?it \<le> unat i" "unat (i + 1) = Suc (unat i)"
      and ck: "gs_chainSeed st = chain_key (sender_kdf P) seed (unat ?it - n)"
      using assms(1) forward by (auto simp: sender_follows_def word_le_nat_alt unat_inc_Max)
    have new: "n \<le> unat (mk_iteration k) \<and> mk_seed k = chain_msg (sender_kdf P) seed (unat (mk_iteration k) - n)"
      if "k \<in> set ?new" for k
    proof -
      obtain j where j: "j < ?d" "k = \<lparr>mk_iteration = ?it + of_nat j, mk_seed = chain_msg (sender_kdf P) (gs_chainSeed st) j\<rparr>"
        using \<open>k \<in> set ?new\<close> by auto
      then have "unat (mk_iteration k) = unat ?it + j"
        using arg_cong [OF skipped_numbers [OF forward(1)], of "\<lambda>xs. xs ! j"] n by simp
      with n j show ?thesis by (simp add: ck chain_msg_add)
    qed
    have "unat ?it - n + ?d = unat i - n" "unat ?it - n + Suc ?d = Suc (unat i) - n" using n by simp_all
    then have eqs: "chain_msg (sender_kdf P) (gs_chainSeed st) ?d = chain_msg (sender_kdf P) seed (unat i - n)"
      "chain_key (sender_kdf P) (gs_chainSeed st) (Suc ?d) = chain_key (sender_kdf P) seed (Suc (unat i) - n)"
      unfolding ck chain_msg_add chain_key_add by (simp_all only:)
    have "n \<le> unat (mk_iteration k) \<and> mk_seed k = chain_msg (sender_kdf P) seed (unat (mk_iteration k) - n)"
      if "k \<in> set (fold keep_add ?new (gs_messageKeys st))" for k
      using that set_fold_keep_add [of ?new "gs_messageKeys st"] new [of k] assms(1) by (auto simp: sender_follows_def)
    with win n show ?thesis
      unfolding st' sender_follows_def by (simp add: eqs gs_frame_def del: chain_key.simps)
  qed
  then show "sender_follows P n seed st'" "n \<le> unat i" "mk = sender_mk P i (chain_msg (sender_kdf P) seed (unat i - n))"
    "gs_frame st' = gs_frame st" by blast+
qed

section \<open>Properties\<close>

text \<open>
  C28: The lookup of a message key refines the window over message numbers.  A number below the next
  one is found if it is stored and is removed then, else it is a duplicate; a jump of more than 2000 is
  refused; a smaller jump stores the keys in between, of all stored keys the newest 2000 are kept; and
  the counter never wraps.
\<close>

theorem getSenderMessageKey_refines_window:
  "win_recv (unat i) (win_of st) =
     (map_sum id (\<lambda>mk. unat (smk_iteration mk)) (fst (getSenderMessageKey P i st)),
      win_of (snd (getSenderMessageKey P i st)))"
  by (rule getSenderMessageKey_window)

text \<open>
  C29: Order does not matter within a chain: whatever messages were looked up before, the key found for a
  number is the key that the sender used for it, the chain is kept, at most 2000 keys are stored, and the
  number cannot be looked up again.
\<close>

theorem getSenderMessageKey_correct:
  assumes "sender_follows P n seed st" "getSenderMessageKey P i st = (Inr mk, st')"
  shows "mk = sender_mk P i (chain_msg (sender_kdf P) seed (unat i - n)) \<and> sender_follows P n seed st' \<and>
    length (gs_messageKeys st') \<le> 2000 \<and> fst (getSenderMessageKey P i st') = Inl ErrDuplicateMessage"
proof -
  note f = getSenderMessageKey_follows [OF assms]
  have w: "win_recv (unat i) (win_of st) = (Inr (unat (smk_iteration mk)), win_of st')"
    using getSenderMessageKey_window [of i st P] assms(2) by simp
  have ok: "win_ok (win_of st)" "win_ok (win_of st')" using assms(1) f(1) by (simp_all add: sender_follows_def)
  have "unat i \<in> win_closed (win_of st')" using ok(1) w by (rule win_recv_ok(3))
  then have "\<not> hasMessageKey st' i" "i < gs_chainIteration st'"
    by (simp_all add: win_closed_def hasMessageKey_win) (simp add: win_of_def word_less_nat_alt)
  then have "fst (getSenderMessageKey P i st') = Inl ErrDuplicateMessage"
    by (simp add: getSenderMessageKey_def removeMessageKey_None)
  with f ok(2) show ?thesis by (simp add: win_ok_def win_of_def maxMessageKeysPerState_def)
qed

definition ex_sender :: senderState where
  "ex_sender = \<lparr>gs_messageVersion = 3, gs_distributionID = replicate 16 1, gs_keyID = 7, gs_chainIteration = 4,
     gs_chainSeed = replicate 32 2, gs_signingPublic = replicate 32 3, gs_signingPrivateSeed = zero32,
     gs_hasPrivate = False, gs_messageKeys = []\<rparr>"

theorem getSenderMessageKey_correct_witness:
  "\<exists>mk st'. getSenderMessageKey toy 9 ex_sender = (Inr mk, st') \<and>
     mk = sender_mk toy 9 (chain_msg (sender_kdf toy) (replicate 32 2) 5) \<and>
     fst (getSenderMessageKey toy 9 st') = Inl ErrDuplicateMessage"
proof -
  have f: "sender_follows toy 4 (replicate 32 2) ex_sender"
    by (simp add: sender_follows_def ex_sender_def win_of_def win_ok_def)
  have "9 \<noteq> MaxUint32" by (simp add: MaxUint32_def)
  then obtain mk st' where g: "getSenderMessageKey toy 9 ex_sender = (Inr mk, st')"
    using getSenderMessageKey_forward [of ex_sender 9 toy] by (simp add: ex_sender_def maxMessageKeysPerState_def)
  from getSenderMessageKey_correct [OF f g] g show ?thesis by simp
qed

end
