(* ===== verification/Protowire.thy ===== *)
theory Protowire
  imports Prelude Errors
begin

text \<open>
  The protobuf wire format.  \<^verbatim>\<open>google.golang.org/protobuf/encoding/protowire\<close> is the parameter \<open>pwire\<close>:
  the \<open>Append\<close> functions give the bytes they append, the \<open>Consume\<close> functions the value and the number of
  bytes they read, and \<open>None\<close> for a negative count.  Its documented laws are \<open>pw_ok\<close>.  The decoders of
  the program all have the same loop, \<open>pb_loop\<close>, over a function for one field.
\<close>

section \<open>The parameter\<close>

definition VarintType :: nat where "VarintType = 0"
definition Fixed64Type :: nat where "Fixed64Type = 1"
definition BytesType :: nat where "BytesType = 2"

record pwire =
  AppendTag :: "nat \<Rightarrow> nat \<Rightarrow> bytes"
  AppendVarint :: "u64 \<Rightarrow> bytes"
  AppendFixed64 :: "u64 \<Rightarrow> bytes"
  AppendBytes :: "bytes \<Rightarrow> bytes"
  ConsumeTag :: "bytes \<Rightarrow> (nat \<times> nat \<times> nat) option"
  ConsumeVarint :: "bytes \<Rightarrow> (u64 \<times> nat) option"
  ConsumeFixed64 :: "bytes \<Rightarrow> (u64 \<times> nat) option"
  ConsumeBytes :: "bytes \<Rightarrow> (bytes \<times> nat) option"
  ConsumeFieldValue :: "nat \<Rightarrow> nat \<Rightarrow> bytes \<Rightarrow> nat option"

text \<open>
  What is appended is consumed again, with the field numbers and wire types the format has; a tag
  takes at least one byte, \<open>AppendBytes\<close> puts a length in front, and no function reads beyond the input.
\<close>

definition pw_ok :: "pwire \<Rightarrow> bool" where
  "pw_ok W \<longleftrightarrow>
     (\<forall>num ty r. 1 \<le> num \<longrightarrow> num < 2 ^ 29 \<longrightarrow> ty < 8 \<longrightarrow>
        ConsumeTag W (AppendTag W num ty @ r) = Some (num, ty, length (AppendTag W num ty))) \<and>
     (\<forall>v r. ConsumeVarint W (AppendVarint W v @ r) = Some (v, length (AppendVarint W v))) \<and>
     (\<forall>v r. ConsumeFixed64 W (AppendFixed64 W v @ r) = Some (v, length (AppendFixed64 W v))) \<and>
     (\<forall>v r. ConsumeBytes W (AppendBytes W v @ r) = Some (v, length (AppendBytes W v))) \<and>
     (\<forall>v. length v \<le> length (AppendBytes W v)) \<and>
     (\<forall>bs num ty n. ConsumeTag W bs = Some (num, ty, n) \<longrightarrow> 0 < n \<and> n \<le> length bs) \<and>
     (\<forall>bs v n. ConsumeVarint W bs = Some (v, n) \<longrightarrow> n \<le> length bs) \<and>
     (\<forall>bs v n. ConsumeFixed64 W bs = Some (v, n) \<longrightarrow> n \<le> length bs) \<and>
     (\<forall>bs v n. ConsumeBytes W bs = Some (v, n) \<longrightarrow> n \<le> length bs) \<and>
     (\<forall>bs num ty n. ConsumeFieldValue W num ty bs = Some n \<longrightarrow> n \<le> length bs)"

section \<open>Reading one field\<close>

text \<open>A wrong wire type and a value that does not parse give the same error in every decoder.\<close>

definition pb_varint :: "pwire \<Rightarrow> err \<Rightarrow> nat \<Rightarrow> bytes \<Rightarrow> (u64 \<times> bytes) res" where
  "pb_varint W e ty bs =
     (if ty \<noteq> VarintType then Inl e
      else case ConsumeVarint W bs of None \<Rightarrow> Inl e | Some (v, n) \<Rightarrow> Inr (v, drop n bs))"

definition pb_fixed64 :: "pwire \<Rightarrow> err \<Rightarrow> nat \<Rightarrow> bytes \<Rightarrow> (u64 \<times> bytes) res" where
  "pb_fixed64 W e ty bs =
     (if ty \<noteq> Fixed64Type then Inl e
      else case ConsumeFixed64 W bs of None \<Rightarrow> Inl e | Some (v, n) \<Rightarrow> Inr (v, drop n bs))"

definition pb_bytes :: "pwire \<Rightarrow> err \<Rightarrow> nat \<Rightarrow> bytes \<Rightarrow> (bytes \<times> bytes) res" where
  "pb_bytes W e ty bs =
     (if ty \<noteq> BytesType then Inl e
      else case ConsumeBytes W bs of None \<Rightarrow> Inl e | Some (v, n) \<Rightarrow> Inr (v, drop n bs))"

definition pb_skip :: "pwire \<Rightarrow> err \<Rightarrow> nat \<Rightarrow> nat \<Rightarrow> bytes \<Rightarrow> bytes res" where
  "pb_skip W e num ty bs =
     (case ConsumeFieldValue W num ty bs of None \<Rightarrow> Inl e | Some n \<Rightarrow> Inr (drop n bs))"

section \<open>The loop over the fields\<close>

text \<open>
  \<open>for len(data) > 0 { num, ty, n := protowire.ConsumeTag(data) ... }\<close>.  \<open>field num ty bs acc\<close> is the
  body behind the tag: the new values of the decoder's variables and the unread bytes.  A round that
  reads nothing would repeat for ever; \<open>EDiverge\<close> stands for that.
\<close>

function pb_loop :: "pwire \<Rightarrow> err \<Rightarrow> (nat \<Rightarrow> nat \<Rightarrow> bytes \<Rightarrow> 'a \<Rightarrow> ('a \<times> bytes) res) \<Rightarrow> 'a \<Rightarrow> bytes \<Rightarrow> 'a res" where
  "pb_loop W e field acc bs =
     (if bs = [] then Inr acc
      else case ConsumeTag W bs of
             None \<Rightarrow> Inl e
           | Some (num, ty, n) \<Rightarrow>
               (case field num ty (drop n bs) acc of
                  Inl e' \<Rightarrow> Inl e'
                | Inr (acc', bs') \<Rightarrow>
                    if length bs' < length bs then pb_loop W e field acc' bs' else Inl EDiverge))"
  by pat_completeness auto
termination by (relation "measure (\<lambda>(W, e, field, acc, bs). length bs)") auto

declare pb_loop.simps [simp del]

lemma pb_loop_Nil [simp]: "pb_loop W e field acc [] = Inr acc"
  by (simp add: pb_loop.simps)

lemma pw_tag:
  assumes "pw_ok W" "1 \<le> num" "num < 2 ^ 29" "ty < 8"
  shows "ConsumeTag W (AppendTag W num ty @ r) = Some (num, ty, length (AppendTag W num ty))"
  using assms by (simp add: pw_ok_def)

lemma pw_tag_len: "pw_ok W \<Longrightarrow> ConsumeTag W bs = Some (num, ty, n) \<Longrightarrow> 0 < n \<and> n \<le> length bs"
  by (simp add: pw_ok_def)

lemma pb_tag_nonempty:
  assumes "pw_ok W" "1 \<le> num" "num < 2 ^ 29" "ty < 8"
  shows "AppendTag W num ty \<noteq> []"
  using pw_tag_len [OF assms(1) pw_tag [OF assms, of "[]"]] by auto

lemma pb_loop_tag:
  assumes "pw_ok W" "1 \<le> num" "num < 2 ^ 29" "ty < 8"
  shows "pb_loop W e field acc (AppendTag W num ty @ r) =
     (case field num ty r acc of
        Inl e' \<Rightarrow> Inl e'
      | Inr (acc', bs') \<Rightarrow>
          if length bs' < length (AppendTag W num ty) + length r then pb_loop W e field acc' bs' else Inl EDiverge)"
  using pb_tag_nonempty [OF assms] pw_tag [OF assms, of r]
  by (subst pb_loop.simps) (simp split: sum.split)

text \<open>One round on a field that was appended, in the form the round trips use.\<close>

lemma pb_loop_field:
  assumes "pw_ok W" "1 \<le> num" "num < 2 ^ 29" "ty < 8" "field num ty (v @ r) acc = Inr (acc', r)"
  shows "pb_loop W e field acc (AppendTag W num ty @ v @ r) = pb_loop W e field acc' r"
  using pb_loop_tag [OF assms(1-4), of e field acc "v @ r"] pb_tag_nonempty [OF assms(1-4)]
  by (simp add: assms(5))

lemma pb_values:
  assumes "pw_ok W"
  shows pb_varint_append: "pb_varint W e VarintType (AppendVarint W v @ r) = Inr (v, r)"
    and pb_fixed64_append: "pb_fixed64 W e Fixed64Type (AppendFixed64 W v @ r) = Inr (v, r)"
    and pb_bytes_append: "pb_bytes W e BytesType (AppendBytes W b @ r) = Inr (b, r)"
  using assms by (simp_all add: pw_ok_def pb_varint_def pb_fixed64_def pb_bytes_def)

text \<open>What the round trips of the decoders rewrite with, for the field numbers in use.\<close>

lemma pb_run:
  assumes "pw_ok W" "1 \<le> num" "num < 2 ^ 29"
  shows "field num BytesType (AppendBytes W b @ r) acc = Inr (acc', r) \<Longrightarrow>
      pb_loop W e field acc (AppendTag W num BytesType @ AppendBytes W b @ r) = pb_loop W e field acc' r"
    and "field num VarintType (AppendVarint W v @ r) acc = Inr (acc', r) \<Longrightarrow>
      pb_loop W e field acc (AppendTag W num VarintType @ AppendVarint W v @ r) = pb_loop W e field acc' r"
    and "field num Fixed64Type (AppendFixed64 W v @ r) acc = Inr (acc', r) \<Longrightarrow>
      pb_loop W e field acc (AppendTag W num Fixed64Type @ AppendFixed64 W v @ r) = pb_loop W e field acc' r"
  by (simp_all add: pb_loop_field [OF assms] BytesType_def VarintType_def Fixed64Type_def)

section \<open>Every decoder returns\<close>

text \<open>A field function that gives back no more than it was given.\<close>

definition pb_shrinks :: "(nat \<Rightarrow> nat \<Rightarrow> bytes \<Rightarrow> 'a \<Rightarrow> ('a \<times> bytes) res) \<Rightarrow> bool" where
  "pb_shrinks field \<longleftrightarrow> (\<forall>num ty bs acc. field num ty bs acc \<noteq> Inl EDiverge) \<and>
     (\<forall>num ty bs acc acc' bs'. field num ty bs acc = Inr (acc', bs') \<longrightarrow> length bs' \<le> length bs)"

lemma pb_shrinksD:
  assumes "pb_shrinks field"
  shows "field num ty bs acc = Inl e \<Longrightarrow> e \<noteq> EDiverge"
    and "field num ty bs acc = Inr (acc', bs') \<Longrightarrow> length bs' \<le> length bs"
  using assms by (auto simp: pb_shrinks_def)

lemma pb_loop_returns:
  assumes "pw_ok W" "pb_shrinks field" "e \<noteq> EDiverge"
  shows "pb_loop W e field acc bs \<noteq> Inl EDiverge"
proof (induction bs arbitrary: acc rule: length_induct)
  case (1 bs)
  show ?case
  proof (cases "bs = [] \<or> ConsumeTag W bs = None")
    case True
    then show ?thesis using assms(3) by (subst pb_loop.simps) auto
  next
    case False
    then obtain num ty n where t: "bs \<noteq> []" "ConsumeTag W bs = Some (num, ty, n)" by (cases "ConsumeTag W bs") auto
    then have n: "0 < n" using pw_tag_len [OF assms(1)] by blast
    show ?thesis
    proof (cases "field num ty (drop n bs) acc")
      case (Inl e')
      then show ?thesis
        using t pb_shrinksD(1) [OF assms(2) Inl] by (subst pb_loop.simps) simp
    next
      case (Inr p)
      then obtain acc' bs' where f: "field num ty (drop n bs) acc = Inr (acc', bs')" by (cases p) simp
      have "length bs' \<le> length (drop n bs)"
        using assms(2) f by (rule pb_shrinksD(2))
      then have "length bs' < length bs" using n t(1) by (cases bs) auto
      then show ?thesis using 1 t f by (subst pb_loop.simps) simp
    qed
  qed
qed

lemma pb_read_shrinks:
  assumes "pw_ok W"
  shows "pb_varint W e ty bs = Inr (v, bs') \<Longrightarrow> length bs' \<le> length bs"
    and "pb_fixed64 W e ty bs = Inr (v, bs') \<Longrightarrow> length bs' \<le> length bs"
    and "pb_bytes W e ty bs = Inr (b, bs') \<Longrightarrow> length bs' \<le> length bs"
    and "pb_skip W e num ty bs = Inr bs' \<Longrightarrow> length bs' \<le> length bs"
  by (auto simp: pb_varint_def pb_fixed64_def pb_bytes_def pb_skip_def split: if_splits option.splits)


text \<open>What every field keeps holds at the end.\<close>

lemma pb_loop_invariant:
  assumes "\<And>num ty bs acc acc' bs'. field num ty bs acc = Inr (acc', bs') \<Longrightarrow> Q acc \<Longrightarrow> Q acc'"
  shows "pb_loop W e field acc bs = Inr acc' \<Longrightarrow> Q acc \<Longrightarrow> Q acc'"
proof (induction bs arbitrary: acc rule: length_induct)
  case (1 bs)
  show ?case
  proof (cases "bs = []")
    case False
    then obtain num ty n acc1 bs1 where f: "field num ty (drop n bs) acc = Inr (acc1, bs1)"
      "length bs1 < length bs" "pb_loop W e field acc1 bs1 = Inr acc'"
      using "1.prems"(1) by (subst (asm) pb_loop.simps) (auto split: if_splits option.splits sum.splits)
    with 1 assms [OF f(1)] show ?thesis by blast
  qed (use "1.prems" in simp)
qed

section \<open>A concrete wire format\<close>

text \<open>Base-128 numbers, least significant group first; enough of the format to run the decoders.\<close>

fun uvarint :: "nat \<Rightarrow> bytes" where
  "uvarint v = (if v < 128 then [of_nat v] else of_nat (v mod 128 + 128) # uvarint (v div 128))"

fun get_uvarint :: "bytes \<Rightarrow> (nat \<times> nat) option" where
  "get_uvarint [] = None"
| "get_uvarint (b # bs) =
     (if unat b < 128 then Some (unat b, 1)
      else case get_uvarint bs of None \<Rightarrow> None | Some (v, n) \<Rightarrow> Some (unat b - 128 + 128 * v, Suc n))"

declare uvarint.simps [simp del]

lemma get_uvarint_append: "get_uvarint (uvarint v @ r) = Some (v, length (uvarint v))"
proof (induction v rule: uvarint.induct)
  case (1 v)
  show ?case
  proof (cases "v < 128")
    case True
    then show ?thesis by (subst (1 2) uvarint.simps) (simp add: unat_of_nat)
  next
    case False
    have m: "v mod 128 < 128" by simp
    have "unat (of_nat (v mod 128 + 128) :: byte) = v mod 128 + 128"
      using m by (subst unat_of_nat) (simp add: mod_less)
    moreover have "v mod 128 + 128 * (v div 128) = v" by presburger
    ultimately show ?thesis
      using False 1 by (subst (1 2) uvarint.simps) simp
  qed
qed

lemma get_uvarint_len: "get_uvarint bs = Some (v, n) \<Longrightarrow> 0 < n \<and> n \<le> length bs"
  by (induction bs arbitrary: v n rule: get_uvarint.induct) (auto split: if_splits option.splits)

definition leb :: pwire where
  "leb = \<lparr>AppendTag = (\<lambda>num ty. uvarint (num * 8 + ty)),
     AppendVarint = (\<lambda>v. uvarint (unat v)),
     AppendFixed64 = (\<lambda>v. rev (put_u64 v)),
     AppendBytes = (\<lambda>b. uvarint (length b) @ b),
     ConsumeTag = (\<lambda>bs. case get_uvarint bs of None \<Rightarrow> None
        | Some (v, n) \<Rightarrow> if v < 8 then None else Some (v div 8, v mod 8, n)),
     ConsumeVarint = (\<lambda>bs. case get_uvarint bs of None \<Rightarrow> None | Some (v, n) \<Rightarrow> Some (of_nat v, n)),
     ConsumeFixed64 = (\<lambda>bs. if length bs < 8 then None else Some (get_u64 (rev (take 8 bs)), 8)),
     ConsumeBytes = (\<lambda>bs. case get_uvarint bs of None \<Rightarrow> None
        | Some (l, n) \<Rightarrow> if length bs < n + l then None else Some (take l (drop n bs), n + l)),
     ConsumeFieldValue = (\<lambda>num ty bs.
        if ty = 0 then map_option snd (get_uvarint bs)
        else if ty = 1 then if length bs < 8 then None else Some 8
        else if ty = 2 then (case get_uvarint bs of None \<Rightarrow> None
           | Some (l, n) \<Rightarrow> if length bs < n + l then None else Some (n + l))
        else if ty = 5 then if length bs < 4 then None else Some 4
        else None)\<rparr>"

lemma leb_ok: "pw_ok leb"
  by (auto simp: pw_ok_def leb_def get_uvarint_append get_put_u64 [where r = "[]", simplified]
      split: option.splits if_splits
      dest: get_uvarint_len)

end
