(* ===== verification/Wire.thy ===== *)
theory Wire
  imports Protowire Keys
begin

text \<open>
  The libsignal-compatible messages of \<^verbatim>\<open>protocol/wire/\<close>: \<open>SignalMessage\<close> with its truncated MAC and
  \<open>PreKeySignalMessage\<close> around it.  A message object keeps its serialized form, as in the code.  The
  wrappers of \<^verbatim>\<open>protocol/\<close> delegate to these functions.
\<close>

section \<open>Versions (wire.go)\<close>

definition CiphertextMessageCurrentVersion :: byte where "CiphertextMessageCurrentVersion = 4"
definition CiphertextMessagePreKyberVersion :: byte where "CiphertextMessagePreKyberVersion = 3"
definition SenderKeyMessageCurrentVersion :: byte where "SenderKeyMessageCurrentVersion = 3"
definition SignalMessageMACLength :: nat where "SignalMessageMACLength = 8"

definition versionByte :: "byte \<Rightarrow> byte \<Rightarrow> byte" where
  "versionByte messageVersion currentVersion =
     push_bit 4 (messageVersion AND 0x0f) OR (currentVersion AND 0x0f)"

definition parseMessageVersion :: "byte \<Rightarrow> byte" where
  "parseMessageVersion b = drop_bit 4 b"

definition message_version :: "byte \<Rightarrow> bool" where
  "message_version v \<longleftrightarrow> CiphertextMessagePreKyberVersion \<le> v \<and> v \<le> CiphertextMessageCurrentVersion"

lemma message_version_cases: "message_version v \<longleftrightarrow> v = 3 \<or> v = 4"
proof -
  have "message_version v \<longleftrightarrow> unat v = 3 \<or> unat v = 4"
    unfolding message_version_def CiphertextMessagePreKyberVersion_def CiphertextMessageCurrentVersion_def
      word_le_nat_alt by simp arith
  then show ?thesis by (auto simp: word_unat_eq_iff)
qed

lemma parse_versionByte: "message_version v \<Longrightarrow> parseMessageVersion (versionByte v CiphertextMessageCurrentVersion) = v"
  by (auto simp: message_version_cases parseMessageVersion_def versionByte_def CiphertextMessageCurrentVersion_def)

section \<open>Signal messages (signal\_message.go)\<close>

record SignalMessage =
  sm_messageVersion :: byte
  sm_senderRatchet :: bytes
  sm_counter :: u32
  sm_previousCounter :: u32
  sm_ciphertext :: bytes
  sm_pqRatchet :: bytes
  sm_serialized :: bytes

definition computeSignalMAC ::
    "'z prims_scheme \<Rightarrow> bytes \<Rightarrow> IdentityKey \<Rightarrow> IdentityKey \<Rightarrow> bytes \<Rightarrow> bytes res" where
  "computeSignalMAC P macKey senderIdentity receiverIdentity message =
     (if length macKey \<noteq> 32 then Inl ErrInvalidKey
      else Inr (take SignalMessageMACLength (HMAC256 P macKey
        (SerializeWirePublicKey (ik_PublicKey senderIdentity)
         @ SerializeWirePublicKey (ik_PublicKey receiverIdentity) @ message))))"

definition encodeSignalMessageBody :: "pwire \<Rightarrow> bytes \<Rightarrow> u32 \<Rightarrow> u32 \<Rightarrow> bytes \<Rightarrow> bytes \<Rightarrow> bytes" where
  "encodeSignalMessageBody W senderRatchet counter previousCounter ciphertext pqRatchet =
     AppendTag W 1 BytesType @ AppendBytes W (SerializeWirePublicKey senderRatchet)
     @ AppendTag W 2 VarintType @ AppendVarint W (ucast counter)
     @ AppendTag W 3 VarintType @ AppendVarint W (ucast previousCounter)
     @ AppendTag W 4 BytesType @ AppendBytes W ciphertext
     @ (if length pqRatchet > 0 then AppendTag W 5 BytesType @ AppendBytes W pqRatchet else [])"

text \<open>
  The variables of the decoder; an optional one is a variable with its \<open>got\<close> flag.
\<close>

record signal_vars =
  sv_ratchet :: "bytes option"
  sv_counter :: "u32 option"
  sv_previous :: u32
  sv_ciphertext :: "bytes option"
  sv_pq :: bytes

definition signal_field ::
    "'z prims_scheme \<Rightarrow> pwire \<Rightarrow> nat \<Rightarrow> nat \<Rightarrow> bytes \<Rightarrow> signal_vars \<Rightarrow> (signal_vars \<times> bytes) res" where
  "signal_field P W num ty body v =
     (if num = 1 then
        bindR (pb_bytes W ErrInvalidMessage ty body) (\<lambda>(val, body).
        bindR (DeserializeWirePublicKey P val) (\<lambda>key. Inr (v\<lparr>sv_ratchet := Some key\<rparr>, body)))
      else if num = 2 then
        bindR (pb_varint W ErrInvalidMessage ty body) (\<lambda>(val, body). Inr (v\<lparr>sv_counter := Some (ucast val)\<rparr>, body))
      else if num = 3 then
        bindR (pb_varint W ErrInvalidMessage ty body) (\<lambda>(val, body). Inr (v\<lparr>sv_previous := ucast val\<rparr>, body))
      else if num = 4 then
        bindR (pb_bytes W ErrInvalidMessage ty body) (\<lambda>(val, body). Inr (v\<lparr>sv_ciphertext := Some val\<rparr>, body))
      else if num = 5 then
        bindR (pb_bytes W ErrInvalidMessage ty body) (\<lambda>(val, body). Inr (v\<lparr>sv_pq := val\<rparr>, body))
      else bindR (pb_skip W ErrInvalidMessage num ty body) (\<lambda>body. Inr (v, body)))"

definition decodeSignalMessageBody ::
    "'z prims_scheme \<Rightarrow> pwire \<Rightarrow> bytes \<Rightarrow> (bytes \<times> u32 \<times> u32 \<times> bytes \<times> bytes) res" where
  "decodeSignalMessageBody P W body =
     bindR (pb_loop W ErrInvalidMessage (signal_field P W)
       \<lparr>sv_ratchet = None, sv_counter = None, sv_previous = 0, sv_ciphertext = None, sv_pq = []\<rparr> body) (\<lambda>v.
     case (sv_ratchet v, sv_counter v, sv_ciphertext v) of
       (Some senderRatchet, Some counter, Some ciphertext) \<Rightarrow>
         Inr (senderRatchet, counter, sv_previous v, ciphertext, sv_pq v)
     | _ \<Rightarrow> Inl ErrInvalidMessage)"

definition NewSignalMessage ::
    "'z prims_scheme \<Rightarrow> pwire \<Rightarrow> byte \<Rightarrow> bytes \<Rightarrow> bytes \<Rightarrow> u32 \<Rightarrow> u32 \<Rightarrow> bytes \<Rightarrow> IdentityKey \<Rightarrow> IdentityKey \<Rightarrow>
     bytes \<Rightarrow> SignalMessage res" where
  "NewSignalMessage P W messageVersion macKey senderRatchet counter previousCounter ciphertext
       senderIdentity receiverIdentity pqRatchet =
     (if messageVersion < CiphertextMessagePreKyberVersion \<or> messageVersion > CiphertextMessageCurrentVersion
      then Inl ErrInvalidMessage
      else
        let body = encodeSignalMessageBody W senderRatchet counter previousCounter ciphertext pqRatchet;
            serialized = [versionByte messageVersion CiphertextMessageCurrentVersion] @ body in
        bindR (computeSignalMAC P macKey senderIdentity receiverIdentity serialized) (\<lambda>mac.
        Inr \<lparr>sm_messageVersion = messageVersion, sm_senderRatchet = senderRatchet, sm_counter = counter,
             sm_previousCounter = previousCounter, sm_ciphertext = ciphertext, sm_pqRatchet = pqRatchet,
             sm_serialized = serialized @ mac\<rparr>))"

definition ParseSignalMessage :: "'z prims_scheme \<Rightarrow> pwire \<Rightarrow> bytes \<Rightarrow> SignalMessage res" where
  "ParseSignalMessage P W data =
     (if length data < 1 + SignalMessageMACLength then Inl ErrInvalidMessage
      else
        let messageVersion = parseMessageVersion (data ! 0) in
        if messageVersion < CiphertextMessagePreKyberVersion then Inl ErrInvalidMessage
        else if messageVersion > CiphertextMessageCurrentVersion then Inl ErrInvalidMessage
        else
          let body = drop 1 (take (length data - SignalMessageMACLength) data) in
          bindR (decodeSignalMessageBody P W body)
            (\<lambda>(senderRatchet, counter, previousCounter, ciphertext, pqRatchet).
          Inr \<lparr>sm_messageVersion = messageVersion, sm_senderRatchet = senderRatchet, sm_counter = counter,
               sm_previousCounter = previousCounter, sm_ciphertext = ciphertext, sm_pqRatchet = pqRatchet,
               sm_serialized = data\<rparr>))"

definition VerifyMAC ::
    "'z prims_scheme \<Rightarrow> SignalMessage \<Rightarrow> IdentityKey \<Rightarrow> IdentityKey \<Rightarrow> bytes \<Rightarrow> bool res" where
  "VerifyMAC P m senderIdentity receiverIdentity macKey =
     (if length (sm_serialized m) < SignalMessageMACLength then Inl ErrInvalidMessage
      else
        let cut = length (sm_serialized m) - SignalMessageMACLength in
        bindR (computeSignalMAC P macKey senderIdentity receiverIdentity (take cut (sm_serialized m))) (\<lambda>mac.
        Inr (drop cut (sm_serialized m) = mac)))"


section \<open>Signal messages: round trip and MAC\<close>

text \<open>Reading one field that the encoder has written.\<close>

lemma signal_step:
  assumes "pw_ok W"
  shows "DeserializeWirePublicKey P b = Inr key \<Longrightarrow>
      pb_loop W e (signal_field P W) v (AppendTag W 1 BytesType @ AppendBytes W b @ r) =
      pb_loop W e (signal_field P W) (v\<lparr>sv_ratchet := Some key\<rparr>) r"
    and "pb_loop W e (signal_field P W) v (AppendTag W 2 VarintType @ AppendVarint W n @ r) =
      pb_loop W e (signal_field P W) (v\<lparr>sv_counter := Some (ucast n)\<rparr>) r"
    and "pb_loop W e (signal_field P W) v (AppendTag W 3 VarintType @ AppendVarint W n @ r) =
      pb_loop W e (signal_field P W) (v\<lparr>sv_previous := ucast n\<rparr>) r"
    and "pb_loop W e (signal_field P W) v (AppendTag W 4 BytesType @ AppendBytes W b @ r) =
      pb_loop W e (signal_field P W) (v\<lparr>sv_ciphertext := Some b\<rparr>) r"
    and "pb_loop W e (signal_field P W) v (AppendTag W 5 BytesType @ AppendBytes W b @ r) =
      pb_loop W e (signal_field P W) (v\<lparr>sv_pq := b\<rparr>) r"
  by (rule pb_run [OF assms], simp, simp, simp add: signal_field_def pb_values [OF assms])+

text \<open>A key that is accepted on the wire.\<close>

definition wire_key :: "'z prims_scheme \<Rightarrow> bytes \<Rightarrow> bool" where
  "wire_key P k \<longleftrightarrow> length k = 32 \<and> IsValidPublicKey P k"

lemma wire_key_roundtrip: "wire_key P k \<Longrightarrow> DeserializeWirePublicKey P (SerializeWirePublicKey k) = Inr k"
  by (simp add: wire_key_def DeserializeWirePublicKey_def SerializeWirePublicKey_def Let_def ValidatePublicKey_def)

lemma DeserializeWirePublicKey_wire_key: "DeserializeWirePublicKey P d = Inr k \<Longrightarrow> wire_key P k"
  by (auto simp: wire_key_def DeserializeWirePublicKey_def Let_def ValidatePublicKey_def split: if_splits)

lemma ucast_u32_u64 [simp]: "ucast (ucast (x :: u32) :: u64) = x"
  by (simp add: ucast_down_ucast_id is_down)

lemma decode_encode_signal:
  assumes "pw_ok W" "wire_key P k"
  shows "decodeSignalMessageBody P W (encodeSignalMessageBody W k n pn ct pq) = Inr (k, n, pn, ct, pq)"
proof -
  note step = signal_step [OF assms(1)] signal_step(4,5) [OF assms(1), where r = "[]", simplified]
  show ?thesis
    by (cases pq) (simp_all add: decodeSignalMessageBody_def encodeSignalMessageBody_def step
        wire_key_roundtrip [OF assms(2)] del: One_nat_def)
qed

lemma NewSignalMessage_Inr:
  assumes "NewSignalMessage P W ver mk k n pn ct idS idR pq = Inr m"
  obtains mac where "message_version ver" "length mk = 32"
    "computeSignalMAC P mk idS idR ([versionByte ver CiphertextMessageCurrentVersion] @ encodeSignalMessageBody W k n pn ct pq) = Inr mac"
    "length mac = SignalMessageMACLength"
    "m = \<lparr>sm_messageVersion = ver, sm_senderRatchet = k, sm_counter = n, sm_previousCounter = pn,
       sm_ciphertext = ct, sm_pqRatchet = pq,
       sm_serialized = ([versionByte ver CiphertextMessageCurrentVersion] @ encodeSignalMessageBody W k n pn ct pq) @ mac\<rparr>"
  using assms
  by (auto simp: NewSignalMessage_def message_version_def computeSignalMAC_def SignalMessageMACLength_def
      Let_def not_less split: if_splits)

lemma ParseSignalMessage_New:
  assumes "pw_ok W" "wire_key P k" "NewSignalMessage P W ver mk k n pn ct idS idR pq = Inr m"
  shows "ParseSignalMessage P W (sm_serialized m) = Inr m"
  using assms(3)
proof (rule NewSignalMessage_Inr)
  fix mac
  assume m: "message_version ver" "length mac = SignalMessageMACLength"
    "m = \<lparr>sm_messageVersion = ver, sm_senderRatchet = k, sm_counter = n, sm_previousCounter = pn,
       sm_ciphertext = ct, sm_pqRatchet = pq,
       sm_serialized = ([versionByte ver CiphertextMessageCurrentVersion] @ encodeSignalMessageBody W k n pn ct pq) @ mac\<rparr>"
  have "\<not> ver < CiphertextMessagePreKyberVersion" "\<not> CiphertextMessageCurrentVersion < ver"
    using m(1) by (simp_all add: message_version_def not_less)
  with m show ?thesis
    using decode_encode_signal [OF assms(1,2), of n pn ct pq] parse_versionByte [OF m(1)]
    by (simp add: ParseSignalMessage_def Let_def)
qed

lemma VerifyMAC_New:
  assumes "NewSignalMessage P W ver mk k n pn ct idS idR pq = Inr m"
  shows "VerifyMAC P m idS idR mk = Inr True"
  using assms
  by (rule NewSignalMessage_Inr) (simp add: VerifyMAC_def Let_def)


section \<open>Pre-key messages (prekey\_signal\_message.go)\<close>

record PreKeySignalMessage =
  pm_messageVersion :: byte
  pm_registrationID :: u32
  pm_preKeyID :: "u32 option"
  pm_signedPreKeyID :: u32
  pm_kyberPreKeyID :: "u32 option"
  pm_kyberCiphertext :: bytes
  pm_baseKey :: bytes
  pm_identityKey :: IdentityKey
  pm_message :: SignalMessage
  pm_serialized :: bytes

definition encodePreKeySignalMessageBody ::
    "pwire \<Rightarrow> u32 \<Rightarrow> u32 option \<Rightarrow> u32 \<Rightarrow> u32 option \<Rightarrow> bytes \<Rightarrow> bytes \<Rightarrow> IdentityKey \<Rightarrow> SignalMessage \<Rightarrow> bytes" where
  "encodePreKeySignalMessageBody W registrationID preKeyID signedPreKeyID kyberPreKeyID kyberCiphertext
       baseKey identityKey message =
     AppendTag W 5 VarintType @ AppendVarint W (ucast registrationID)
     @ (case preKeyID of None \<Rightarrow> [] | Some i \<Rightarrow> AppendTag W 1 VarintType @ AppendVarint W (ucast i))
     @ AppendTag W 6 VarintType @ AppendVarint W (ucast signedPreKeyID)
     @ (case kyberPreKeyID of None \<Rightarrow> [] | Some i \<Rightarrow>
          if length kyberCiphertext > 0
          then AppendTag W 7 VarintType @ AppendVarint W (ucast i)
               @ AppendTag W 8 BytesType @ AppendBytes W kyberCiphertext
          else [])
     @ AppendTag W 2 BytesType @ AppendBytes W (SerializeWirePublicKey baseKey)
     @ AppendTag W 3 BytesType @ AppendBytes W (SerializeWirePublicKey (ik_PublicKey identityKey))
     @ AppendTag W 4 BytesType @ AppendBytes W (sm_serialized message)"

record prekey_vars =
  pv_registration :: u32
  pv_preKey :: "u32 option"
  pv_signed :: "u32 option"
  pv_kyber :: "u32 option"
  pv_kyberCt :: bytes
  pv_base :: "bytes option"
  pv_identity :: "IdentityKey option"
  pv_message :: "SignalMessage option"

definition prekey_field ::
    "'z prims_scheme \<Rightarrow> pwire \<Rightarrow> nat \<Rightarrow> nat \<Rightarrow> bytes \<Rightarrow> prekey_vars \<Rightarrow> (prekey_vars \<times> bytes) res" where
  "prekey_field P W num ty data v =
     (if num = 5 then
        bindR (pb_varint W ErrInvalidMessage ty data) (\<lambda>(val, data). Inr (v\<lparr>pv_registration := ucast val\<rparr>, data))
      else if num = 1 then
        bindR (pb_varint W ErrInvalidMessage ty data) (\<lambda>(val, data). Inr (v\<lparr>pv_preKey := Some (ucast val)\<rparr>, data))
      else if num = 6 then
        bindR (pb_varint W ErrInvalidMessage ty data) (\<lambda>(val, data). Inr (v\<lparr>pv_signed := Some (ucast val)\<rparr>, data))
      else if num = 7 then
        bindR (pb_varint W ErrInvalidMessage ty data) (\<lambda>(val, data). Inr (v\<lparr>pv_kyber := Some (ucast val)\<rparr>, data))
      else if num = 8 then
        bindR (pb_bytes W ErrInvalidMessage ty data) (\<lambda>(val, data). Inr (v\<lparr>pv_kyberCt := val\<rparr>, data))
      else if num = 2 then
        bindR (pb_bytes W ErrInvalidMessage ty data) (\<lambda>(val, data).
        bindR (DeserializeWirePublicKey P val) (\<lambda>key. Inr (v\<lparr>pv_base := Some key\<rparr>, data)))
      else if num = 3 then
        bindR (pb_bytes W ErrInvalidMessage ty data) (\<lambda>(val, data).
        bindR (DeserializeWirePublicKey P val) (\<lambda>key.
        Inr (v\<lparr>pv_identity := Some \<lparr>ik_PublicKey = key, ik_SigningPublic = zero32\<rparr>\<rparr>, data)))
      else if num = 4 then
        bindR (pb_bytes W ErrInvalidMessage ty data) (\<lambda>(val, data).
        bindR (ParseSignalMessage P W val) (\<lambda>msg. Inr (v\<lparr>pv_message := Some msg\<rparr>, data)))
      else bindR (pb_skip W ErrInvalidMessage num ty data) (\<lambda>data. Inr (v, data)))"

definition decodePreKeySignalMessageBody ::
    "'z prims_scheme \<Rightarrow> pwire \<Rightarrow> bytes \<Rightarrow>
     (u32 \<times> u32 option \<times> u32 \<times> u32 option \<times> bytes \<times> bytes \<times> IdentityKey \<times> SignalMessage) res" where
  "decodePreKeySignalMessageBody P W data =
     bindR (pb_loop W ErrInvalidMessage (prekey_field P W)
       \<lparr>pv_registration = 0, pv_preKey = None, pv_signed = None, pv_kyber = None, pv_kyberCt = [],
        pv_base = None, pv_identity = None, pv_message = None\<rparr> data) (\<lambda>v.
     case (pv_base v, pv_identity v, pv_message v, pv_signed v) of
       (Some baseKey, Some identityKey, Some message, Some signedPreKeyID) \<Rightarrow>
         if (pv_kyber v = None) \<noteq> (length (pv_kyberCt v) = 0) then Inl ErrInvalidMessage
         else Inr (pv_registration v, pv_preKey v, signedPreKeyID, pv_kyber v, pv_kyberCt v, baseKey,
                   identityKey, message)
     | _ \<Rightarrow> Inl ErrInvalidMessage)"

definition NewPreKeySignalMessage ::
    "pwire \<Rightarrow> byte \<Rightarrow> u32 \<Rightarrow> u32 option \<Rightarrow> u32 \<Rightarrow> u32 option \<Rightarrow> bytes \<Rightarrow> bytes \<Rightarrow> IdentityKey \<Rightarrow>
     SignalMessage option \<Rightarrow> PreKeySignalMessage res" where
  "NewPreKeySignalMessage W messageVersion registrationID preKeyID signedPreKeyID kyberPreKeyID
       kyberCiphertext baseKey identityKey message =
     (case message of
        None \<Rightarrow> Inl ErrInvalidMessage
      | Some message \<Rightarrow>
     if messageVersion < CiphertextMessagePreKyberVersion \<or> messageVersion > CiphertextMessageCurrentVersion
     then Inl ErrInvalidMessage
     else if messageVersion > CiphertextMessagePreKyberVersion
             \<and> (kyberPreKeyID = None \<or> length kyberCiphertext = 0) then Inl ErrInvalidMessage
     else if (kyberPreKeyID = None) \<noteq> (length kyberCiphertext = 0) then Inl ErrInvalidMessage
     else
       let body = encodePreKeySignalMessageBody W registrationID preKeyID signedPreKeyID kyberPreKeyID
                    kyberCiphertext baseKey identityKey message in
       Inr \<lparr>pm_messageVersion = messageVersion, pm_registrationID = registrationID, pm_preKeyID = preKeyID,
            pm_signedPreKeyID = signedPreKeyID, pm_kyberPreKeyID = kyberPreKeyID,
            pm_kyberCiphertext = kyberCiphertext, pm_baseKey = baseKey, pm_identityKey = identityKey,
            pm_message = message,
            pm_serialized = [versionByte messageVersion CiphertextMessageCurrentVersion] @ body\<rparr>)"

definition ParsePreKeySignalMessage :: "'z prims_scheme \<Rightarrow> pwire \<Rightarrow> bytes \<Rightarrow> PreKeySignalMessage res" where
  "ParsePreKeySignalMessage P W data =
     (if length data < 1 then Inl ErrInvalidMessage
      else
        let messageVersion = parseMessageVersion (data ! 0) in
        if messageVersion < CiphertextMessagePreKyberVersion then Inl ErrInvalidMessage
        else if messageVersion > CiphertextMessageCurrentVersion then Inl ErrInvalidMessage
        else
          bindR (decodePreKeySignalMessageBody P W (drop 1 data))
            (\<lambda>(regID, preKeyID, signedPreKeyID, kyberPreKeyID, kyberCiphertext, baseKey, identityKey, message).
          if messageVersion > CiphertextMessagePreKyberVersion
             \<and> (kyberPreKeyID = None \<or> length kyberCiphertext = 0) then Inl ErrInvalidMessage
          else Inr \<lparr>pm_messageVersion = messageVersion, pm_registrationID = regID, pm_preKeyID = preKeyID,
                    pm_signedPreKeyID = signedPreKeyID, pm_kyberPreKeyID = kyberPreKeyID,
                    pm_kyberCiphertext = kyberCiphertext, pm_baseKey = baseKey, pm_identityKey = identityKey,
                    pm_message = message, pm_serialized = data\<rparr>))"

section \<open>Pre-key messages: round trip\<close>

lemma prekey_step:
  assumes "pw_ok W"
  shows "pb_loop W e (prekey_field P W) v (AppendTag W 5 VarintType @ AppendVarint W n @ r) =
      pb_loop W e (prekey_field P W) (v\<lparr>pv_registration := ucast n\<rparr>) r"
    and "pb_loop W e (prekey_field P W) v (AppendTag W 1 VarintType @ AppendVarint W n @ r) =
      pb_loop W e (prekey_field P W) (v\<lparr>pv_preKey := Some (ucast n)\<rparr>) r"
    and "pb_loop W e (prekey_field P W) v (AppendTag W 6 VarintType @ AppendVarint W n @ r) =
      pb_loop W e (prekey_field P W) (v\<lparr>pv_signed := Some (ucast n)\<rparr>) r"
    and "pb_loop W e (prekey_field P W) v (AppendTag W 7 VarintType @ AppendVarint W n @ r) =
      pb_loop W e (prekey_field P W) (v\<lparr>pv_kyber := Some (ucast n)\<rparr>) r"
    and "pb_loop W e (prekey_field P W) v (AppendTag W 8 BytesType @ AppendBytes W b @ r) =
      pb_loop W e (prekey_field P W) (v\<lparr>pv_kyberCt := b\<rparr>) r"
    and "DeserializeWirePublicKey P b = Inr key \<Longrightarrow>
      pb_loop W e (prekey_field P W) v (AppendTag W 2 BytesType @ AppendBytes W b @ r) =
      pb_loop W e (prekey_field P W) (v\<lparr>pv_base := Some key\<rparr>) r"
    and "DeserializeWirePublicKey P b = Inr key \<Longrightarrow>
      pb_loop W e (prekey_field P W) v (AppendTag W 3 BytesType @ AppendBytes W b @ r) =
      pb_loop W e (prekey_field P W) (v\<lparr>pv_identity := Some \<lparr>ik_PublicKey = key, ik_SigningPublic = zero32\<rparr>\<rparr>) r"
    and "ParseSignalMessage P W b = Inr m \<Longrightarrow>
      pb_loop W e (prekey_field P W) v (AppendTag W 4 BytesType @ AppendBytes W b @ r) =
      pb_loop W e (prekey_field P W) (v\<lparr>pv_message := Some m\<rparr>) r"
  by (rule pb_run [OF assms], simp, simp, simp add: prekey_field_def pb_values [OF assms])+

lemma decode_encode_prekey:
  assumes "pw_ok W" "wire_key P base" "wire_key P (ik_PublicKey ik)"
    and "ParseSignalMessage P W (sm_serialized m) = Inr m" "kid = None \<longleftrightarrow> kct = []"
  shows "decodePreKeySignalMessageBody P W (encodePreKeySignalMessageBody W reg pid sid kid kct base ik m) =
     Inr (reg, pid, sid, kid, kct, base, \<lparr>ik_PublicKey = ik_PublicKey ik, ik_SigningPublic = zero32\<rparr>, m)"
proof -
  note step = prekey_step [OF assms(1)] prekey_step(8) [OF assms(1), where r = "[]", simplified]
  show ?thesis
    using assms(4,5)
    by (cases pid; cases kid) (simp_all add: decodePreKeySignalMessageBody_def encodePreKeySignalMessageBody_def step
        wire_key_roundtrip [OF assms(2)] wire_key_roundtrip [OF assms(3)] del: One_nat_def)
qed

lemma ParsePreKeySignalMessage_New:
  assumes "pw_ok W" "wire_key P base" "wire_key P (ik_PublicKey ik)"
    and "ParseSignalMessage P W (sm_serialized sm) = Inr sm"
    and "NewPreKeySignalMessage W ver reg pid sid kid kct base ik (Some sm) = Inr m"
  shows "ParsePreKeySignalMessage P W (pm_serialized m) =
    Inr (m\<lparr>pm_identityKey := \<lparr>ik_PublicKey = ik_PublicKey ik, ik_SigningPublic = zero32\<rparr>\<rparr>)"
proof -
  have m: "\<not> ver < CiphertextMessagePreKyberVersion" "\<not> CiphertextMessageCurrentVersion < ver"
    "\<not> (CiphertextMessagePreKyberVersion < ver \<and> (kid = None \<or> kct = []))" "kid = None \<longleftrightarrow> kct = []"
    "m = \<lparr>pm_messageVersion = ver, pm_registrationID = reg, pm_preKeyID = pid, pm_signedPreKeyID = sid,
       pm_kyberPreKeyID = kid, pm_kyberCiphertext = kct, pm_baseKey = base, pm_identityKey = ik, pm_message = sm,
       pm_serialized = [versionByte ver CiphertextMessageCurrentVersion]
         @ encodePreKeySignalMessageBody W reg pid sid kid kct base ik sm\<rparr>"
    using assms(5) by (auto simp: NewPreKeySignalMessage_def Let_def split: if_splits)
  then have "message_version ver" by (simp add: message_version_def not_less)
  then have "parseMessageVersion (versionByte ver CiphertextMessageCurrentVersion) = ver" by (rule parse_versionByte)
  with m(1-3) show ?thesis
    using decode_encode_prekey [OF assms(1-4) m(4), of reg pid sid]
    unfolding m(5) by (simp add: ParsePreKeySignalMessage_def Let_def)
qed

text \<open>
  The receiver tries \<open>ParseSignalMessage\<close> first.  It fails on every pre-key message: field 5 comes
  first, and its wire type is not the one of field 5 of a signal message.
\<close>

lemma prekey_not_signal:
  assumes "pw_ok W" "NewPreKeySignalMessage W ver reg pid sid kid kct base ik (Some sm) = Inr m"
  shows "ParseSignalMessage P W (pm_serialized m) = Inl ErrInvalidMessage"
proof -
  have s: "pm_serialized m = versionByte ver CiphertextMessageCurrentVersion #
      encodePreKeySignalMessageBody W reg pid sid kid kct base ik sm"
    using assms(2) by (auto simp: NewPreKeySignalMessage_def Let_def split: if_splits)
  define a where "a = AppendVarint W (ucast reg)
     @ (case pid of None \<Rightarrow> [] | Some i \<Rightarrow> AppendTag W 1 VarintType @ AppendVarint W (ucast i))
     @ AppendTag W 6 VarintType @ AppendVarint W (ucast sid)
     @ (case kid of None \<Rightarrow> [] | Some i \<Rightarrow> if length kct > 0
          then AppendTag W 7 VarintType @ AppendVarint W (ucast i) @ AppendTag W 8 BytesType @ AppendBytes W kct
          else []) @ AppendTag W 2 BytesType"
  define b where "b = AppendTag W 3 BytesType @ AppendBytes W (SerializeWirePublicKey (ik_PublicKey ik))
     @ AppendTag W 4 BytesType @ AppendBytes W (sm_serialized sm)"
  have m: "pm_serialized m = versionByte ver CiphertextMessageCurrentVersion # AppendTag W 5 VarintType @
      a @ AppendBytes W (SerializeWirePublicKey base) @ b"
    unfolding s encodePreKeySignalMessageBody_def a_def b_def by (simp only: append_assoc)
  let ?r = "a @ AppendBytes W (SerializeWirePublicKey base) @ b"
  have "length (SerializeWirePublicKey base) \<le> length (AppendBytes W (SerializeWirePublicKey base))"
    using assms(1) unfolding pw_ok_def by blast
  then have len: "SignalMessageMACLength \<le> length ?r"
    by (simp add: SerializeWirePublicKey_def SignalMessageMACLength_def)
  define body where "body = drop 1 (take (length (pm_serialized m) - SignalMessageMACLength) (pm_serialized m))"
  have "body = AppendTag W 5 VarintType @ take (length ?r - SignalMessageMACLength) ?r"
    using len unfolding body_def m by (simp add: take_Cons')
  then have "pb_loop W ErrInvalidMessage (signal_field P W) v body = Inl ErrInvalidMessage" for v
    using assms(1) by (simp add: pb_loop_tag VarintType_def signal_field_def pb_bytes_def BytesType_def)
  then have "decodeSignalMessageBody P W body = Inl ErrInvalidMessage"
    by (simp add: decodeSignalMessageBody_def)
  then show ?thesis
    by (simp add: ParseSignalMessage_def Let_def body_def)
qed

section \<open>Parsing returns\<close>

lemma DeserializeWirePublicKey_Inl: "DeserializeWirePublicKey P d = Inl e \<Longrightarrow> e = ErrInvalidKey"
  by (auto simp: DeserializeWirePublicKey_def Let_def split: if_splits sum.splits)

lemma pb_read_Inl:
  "pb_varint W e ty bs = Inl e' \<Longrightarrow> e' = e" "pb_fixed64 W e ty bs = Inl e' \<Longrightarrow> e' = e"
  "pb_bytes W e ty bs = Inl e' \<Longrightarrow> e' = e" "pb_skip W e num ty bs = Inl e' \<Longrightarrow> e' = e"
  by (auto simp: pb_varint_def pb_fixed64_def pb_bytes_def pb_skip_def split: if_splits option.splits)

lemma signal_field_shrinks: "pw_ok W \<Longrightarrow> pb_shrinks (signal_field P W)"
  by (auto simp: pb_shrinks_def signal_field_def bindR_eq_Inl split: if_splits
      dest: pb_read_shrinks pb_read_Inl DeserializeWirePublicKey_Inl)

lemma ParseSignalMessage_returns:
  assumes "pw_ok W"
  shows "ParseSignalMessage P W data \<noteq> Inl EDiverge"
proof -
  have "pb_loop W ErrInvalidMessage (signal_field P W) v body \<noteq> Inl EDiverge" for v body
    using assms signal_field_shrinks [OF assms] by (rule pb_loop_returns) simp
  then show ?thesis
    by (auto simp: ParseSignalMessage_def decodeSignalMessageBody_def Let_def bindR_eq_Inl
        split: if_splits option.splits)
qed

lemma prekey_field_shrinks: "pw_ok W \<Longrightarrow> pb_shrinks (prekey_field P W)"
  by (auto simp: pb_shrinks_def prekey_field_def bindR_eq_Inl ParseSignalMessage_returns split: if_splits
      dest: pb_read_shrinks pb_read_Inl DeserializeWirePublicKey_Inl)

lemma ParsePreKeySignalMessage_returns:
  assumes "pw_ok W"
  shows "ParsePreKeySignalMessage P W data \<noteq> Inl EDiverge"
proof -
  have "pb_loop W ErrInvalidMessage (prekey_field P W) v body \<noteq> Inl EDiverge" for v body
    using assms prekey_field_shrinks [OF assms] by (rule pb_loop_returns) simp
  then show ?thesis
    by (auto simp: ParsePreKeySignalMessage_def decodePreKeySignalMessageBody_def Let_def bindR_eq_Inl
        split: if_splits option.splits)
qed


section \<open>Properties\<close>

text \<open>
  C23: A signal message that is built is parsed back from its bytes, field by field, and its MAC
  verifies under the key and the identities it was built with.
\<close>

theorem SignalMessage_wire:
  assumes "pw_ok W" "wire_key P k" "NewSignalMessage P W ver mk k n pn ct idS idR pq = Inr m"
  shows "ParseSignalMessage P W (sm_serialized m) = Inr m \<and> VerifyMAC P m idS idR mk = Inr True"
  using ParseSignalMessage_New [OF assms] VerifyMAC_New [OF assms(3)] by blast

lemma toy_wire_key: "length k = 32 \<Longrightarrow> wire_key toy k"
  by (simp add: wire_key_def IsValidPublicKey_def toy_def zero32_def replicate_app_Cons_same numeral_eq_Suc)

definition ex_identity :: "byte \<Rightarrow> IdentityKey" where
  "ex_identity b = \<lparr>ik_PublicKey = replicate 32 b, ik_SigningPublic = zero32\<rparr>"

lemma ex_signal:
  "\<exists>m. NewSignalMessage toy leb 4 (replicate 32 9) (replicate 32 5) 7 3 [1, 2] (ex_identity 1) (ex_identity 2) [8] = Inr m"
  by (simp add: NewSignalMessage_def computeSignalMAC_def Let_def CiphertextMessagePreKyberVersion_def
      CiphertextMessageCurrentVersion_def)

theorem SignalMessage_wire_witness:
  "\<exists>m. NewSignalMessage toy leb 4 (replicate 32 9) (replicate 32 5) 7 3 [1, 2] (ex_identity 1) (ex_identity 2) [8] = Inr m \<and>
     ParseSignalMessage toy leb (sm_serialized m) = Inr m"
  using ex_signal SignalMessage_wire [OF leb_ok, of toy "replicate 32 5"] by (metis toy_wire_key length_replicate)

text \<open>
  C24: A pre-key message that is built around a signal message is parsed back from its bytes, except
  that the identity comes without its signing key; and a receiver that first tries to parse the bytes
  as a signal message, as \<open>WireCipher.Decrypt\<close> does, is told that they are none.
\<close>

theorem PreKeySignalMessage_wire:
  assumes "pw_ok W" "wire_key P base" "wire_key P (ik_PublicKey ik)"
    and "ParseSignalMessage P W (sm_serialized sm) = Inr sm"
    and "NewPreKeySignalMessage W ver reg pid sid kid kct base ik (Some sm) = Inr m"
  shows "ParsePreKeySignalMessage P W (pm_serialized m) =
      Inr (m\<lparr>pm_identityKey := \<lparr>ik_PublicKey = ik_PublicKey ik, ik_SigningPublic = zero32\<rparr>\<rparr>) \<and>
    ParseSignalMessage P W (pm_serialized m) = Inl ErrInvalidMessage"
  using ParsePreKeySignalMessage_New [OF assms] prekey_not_signal [OF assms(1,5)] by blast

theorem PreKeySignalMessage_wire_witness:
  "\<exists>sm m. NewPreKeySignalMessage leb 4 11 (Some 12) 13 (Some 14) [5, 6] (replicate 32 4) (ex_identity 1) (Some sm) = Inr m \<and>
     ParsePreKeySignalMessage toy leb (pm_serialized m) = Inr m \<and>
     ParseSignalMessage toy leb (pm_serialized m) = Inl ErrInvalidMessage"
proof -
  obtain sm where "NewSignalMessage toy leb 4 (replicate 32 9) (replicate 32 5) 7 3 [1, 2] (ex_identity 1) (ex_identity 2) [8] = Inr sm"
    using ex_signal by blast
  then have sm: "ParseSignalMessage toy leb (sm_serialized sm) = Inr sm"
    using ParseSignalMessage_New [OF leb_ok toy_wire_key [OF length_replicate]] by blast
  obtain m where m: "NewPreKeySignalMessage leb 4 11 (Some 12) 13 (Some 14) [5, 6] (replicate 32 4) (ex_identity 1) (Some sm) = Inr m"
    "m\<lparr>pm_identityKey := ex_identity 1\<rparr> = m"
    by (simp add: NewPreKeySignalMessage_def Let_def CiphertextMessagePreKyberVersion_def
        CiphertextMessageCurrentVersion_def)
  have "wire_key toy (ik_PublicKey (ex_identity 1))" "wire_key toy (replicate 32 4)"
    by (simp_all add: toy_wire_key ex_identity_def)
  from PreKeySignalMessage_wire [OF leb_ok this(2,1) sm m(1)] m show ?thesis
    by (auto simp: ex_identity_def)
qed

text \<open>
  C25: The two parsers return on every input: no sequence of bytes keeps a decoding loop from making
  progress.
\<close>

theorem wire_parsers_return:
  assumes "pw_ok W"
  shows "ParseSignalMessage P W data \<noteq> Inl EDiverge \<and> ParsePreKeySignalMessage P W data \<noteq> Inl EDiverge"
  using ParseSignalMessage_returns [OF assms] ParsePreKeySignalMessage_returns [OF assms] by blast

theorem wire_parsers_return_witness:
  "ParseSignalMessage toy leb (replicate 40 0x33) \<noteq> Inl EDiverge \<and>
   ParsePreKeySignalMessage toy leb (replicate 40 0x33) \<noteq> Inl EDiverge"
  by (rule wire_parsers_return [OF leb_ok])

end
