(* ===== verification/Sender_Keys_Format.thy ===== *)
theory Sender_Keys_Format
  imports Sender_Keys Wire
begin

text \<open>
  The formats of sender keys: distribution messages and group messages (\<^verbatim>\<open>senderkeys/message.go\<close>, protobuf
  bodies behind a version byte) and the stored record (\<^verbatim>\<open>senderkeys/serialize.go\<close>).
\<close>

section \<open>Messages (message.go)\<close>

definition senderKeyMessageVersion :: byte where "senderKeyMessageVersion = 3"
definition senderKeySignatureSize :: nat where "senderKeySignatureSize = 64"

definition senderKeyVersionByte :: "byte \<Rightarrow> byte" where
  "senderKeyVersionByte messageVersion =
     push_bit 4 (messageVersion AND 0x0f) OR (senderKeyMessageVersion AND 0x0f)"

definition parseSenderKeyVersion :: "byte \<Rightarrow> byte" where
  "parseSenderKeyVersion b = drop_bit 4 b"

record distributionMessage =
  dm_messageVersion :: byte
  dm_distributionID :: bytes
  dm_keyID :: u32
  dm_iteration :: u32
  dm_chainKey :: bytes
  dm_signingPublic :: bytes

record senderKeyMessage =
  gm_messageVersion :: byte
  gm_distributionID :: bytes
  gm_keyID :: u32
  gm_iteration :: u32
  gm_ciphertext :: bytes
  gm_signature :: bytes

definition encodeSenderKeyMessageBody :: "pwire \<Rightarrow> bytes \<Rightarrow> u32 \<Rightarrow> u32 \<Rightarrow> bytes \<Rightarrow> bytes" where
  "encodeSenderKeyMessageBody W distributionID keyID iteration ciphertext =
     AppendTag W 1 BytesType @ AppendBytes W distributionID
     @ AppendTag W 2 VarintType @ AppendVarint W (ucast keyID)
     @ AppendTag W 3 VarintType @ AppendVarint W (ucast iteration)
     @ AppendTag W 4 BytesType @ AppendBytes W ciphertext"

text \<open>
  An unknown field: anything but a byte string is read as a varint, whatever its wire type.
\<close>

definition skip_unknown :: "pwire \<Rightarrow> nat \<Rightarrow> bytes \<Rightarrow> bytes res" where
  "skip_unknown W ty data =
     (case (if ty = BytesType then map_option snd (ConsumeBytes W data) else map_option snd (ConsumeVarint W data)) of
        None \<Rightarrow> Inl ErrInvalidMessage
      | Some n \<Rightarrow> Inr (drop n data))"

record group_vars =
  gv_distributionID :: "bytes option"
  gv_chainID :: "u32 option"
  gv_iteration :: "u32 option"
  gv_ciphertext :: "bytes option"

definition group_field :: "pwire \<Rightarrow> nat \<Rightarrow> nat \<Rightarrow> bytes \<Rightarrow> group_vars \<Rightarrow> (group_vars \<times> bytes) res" where
  "group_field W num ty data v =
     (if num = 1 then
        bindR (pb_bytes W ErrInvalidMessage ty data) (\<lambda>(val, data).
        if length val \<noteq> distributionIDSize then Inl ErrInvalidMessage
        else Inr (v\<lparr>gv_distributionID := Some (arr distributionIDSize val)\<rparr>, data))
      else if num = 2 then
        bindR (pb_varint W ErrInvalidMessage ty data) (\<lambda>(val, data). Inr (v\<lparr>gv_chainID := Some (ucast val)\<rparr>, data))
      else if num = 3 then
        bindR (pb_varint W ErrInvalidMessage ty data) (\<lambda>(val, data). Inr (v\<lparr>gv_iteration := Some (ucast val)\<rparr>, data))
      else if num = 4 then
        bindR (pb_bytes W ErrInvalidMessage ty data) (\<lambda>(val, data). Inr (v\<lparr>gv_ciphertext := Some val\<rparr>, data))
      else bindR (skip_unknown W ty data) (\<lambda>data. Inr (v, data)))"

definition decodeSenderKeyMessageBody :: "pwire \<Rightarrow> bytes \<Rightarrow> (bytes \<times> u32 \<times> u32 \<times> bytes) res" where
  "decodeSenderKeyMessageBody W data =
     bindR (pb_loop W ErrInvalidMessage (group_field W)
       \<lparr>gv_distributionID = None, gv_chainID = None, gv_iteration = None, gv_ciphertext = None\<rparr> data) (\<lambda>v.
     case (gv_distributionID v, gv_chainID v, gv_iteration v, gv_ciphertext v) of
       (Some distributionID, Some keyID, Some iteration, Some ciphertext) \<Rightarrow>
         Inr (distributionID, keyID, iteration, ciphertext)
     | _ \<Rightarrow> Inl ErrInvalidMessage)"

definition senderKeyMessage_signedBytes :: "pwire \<Rightarrow> senderKeyMessage \<Rightarrow> bytes" where
  "senderKeyMessage_signedBytes W m =
     [senderKeyVersionByte (gm_messageVersion m)]
     @ encodeSenderKeyMessageBody W (gm_distributionID m) (gm_keyID m) (gm_iteration m) (gm_ciphertext m)"

definition senderKeyMessage_serialize :: "pwire \<Rightarrow> senderKeyMessage \<Rightarrow> bytes" where
  "senderKeyMessage_serialize W m =
     [senderKeyVersionByte (gm_messageVersion m)]
     @ encodeSenderKeyMessageBody W (gm_distributionID m) (gm_keyID m) (gm_iteration m) (gm_ciphertext m)
     @ gm_signature m"

definition parseSenderKeyMessage :: "pwire \<Rightarrow> bytes \<Rightarrow> (senderKeyMessage \<times> bytes) res" where
  "parseSenderKeyMessage W data =
     (if length data < 1 + senderKeySignatureSize then Inl ErrInvalidMessage
      else
        let version = parseSenderKeyVersion (data ! 0) in
        if version < senderKeyMessageVersion then Inl ErrInvalidMessage
        else if version > senderKeyMessageVersion then Inl ErrInvalidMessage
        else
          let body = drop 1 (take (length data - senderKeySignatureSize) data) in
          bindR (decodeSenderKeyMessageBody W body) (\<lambda>(distributionID, keyID, iteration, ciphertext).
          let sig = arr senderKeySignatureSize (drop (length data - senderKeySignatureSize) data) in
          Inr (\<lparr>gm_messageVersion = version, gm_distributionID = distributionID, gm_keyID = keyID,
                gm_iteration = iteration, gm_ciphertext = ciphertext, gm_signature = sig\<rparr>,
               take (length data - senderKeySignatureSize) data)))"

definition encodeSenderKeyDistributionBody :: "pwire \<Rightarrow> bytes \<Rightarrow> u32 \<Rightarrow> u32 \<Rightarrow> bytes \<Rightarrow> bytes \<Rightarrow> bytes" where
  "encodeSenderKeyDistributionBody W distributionID keyID iteration chainKey signingPublic =
     AppendTag W 1 BytesType @ AppendBytes W distributionID
     @ AppendTag W 2 VarintType @ AppendVarint W (ucast keyID)
     @ AppendTag W 3 VarintType @ AppendVarint W (ucast iteration)
     @ AppendTag W 4 BytesType @ AppendBytes W chainKey
     @ AppendTag W 5 BytesType @ AppendBytes W (SerializeWirePublicKey signingPublic)"

record dist_vars =
  dv_distributionID :: "bytes option"
  dv_chainID :: "u32 option"
  dv_iteration :: "u32 option"
  dv_chainKey :: "bytes option"
  dv_signingKey :: "bytes option"

definition dist_field ::
    "'z prims_scheme \<Rightarrow> pwire \<Rightarrow> nat \<Rightarrow> nat \<Rightarrow> bytes \<Rightarrow> dist_vars \<Rightarrow> (dist_vars \<times> bytes) res" where
  "dist_field P W num ty data v =
     (if num = 1 then
        bindR (pb_bytes W ErrInvalidMessage ty data) (\<lambda>(val, data).
        if length val \<noteq> distributionIDSize then Inl ErrInvalidMessage
        else Inr (v\<lparr>dv_distributionID := Some (arr distributionIDSize val)\<rparr>, data))
      else if num = 2 then
        bindR (pb_varint W ErrInvalidMessage ty data) (\<lambda>(val, data). Inr (v\<lparr>dv_chainID := Some (ucast val)\<rparr>, data))
      else if num = 3 then
        bindR (pb_varint W ErrInvalidMessage ty data) (\<lambda>(val, data). Inr (v\<lparr>dv_iteration := Some (ucast val)\<rparr>, data))
      else if num = 4 then
        bindR (pb_bytes W ErrInvalidMessage ty data) (\<lambda>(val, data).
        if length val \<noteq> senderKeySeedSize then Inl ErrInvalidMessage
        else Inr (v\<lparr>dv_chainKey := Some (arr senderKeySeedSize val)\<rparr>, data))
      else if num = 5 then
        bindR (pb_bytes W ErrInvalidMessage ty data) (\<lambda>(val, data).
        if length val = 32 then
          (case ValidatePublicKey P (arr 32 val) of
             Inl _ \<Rightarrow> Inl ErrInvalidMessage
           | Inr _ \<Rightarrow> Inr (v\<lparr>dv_signingKey := Some (arr 32 val)\<rparr>, data))
        else if length val = 33 then
          bindR (DeserializeWirePublicKey P val) (\<lambda>key. Inr (v\<lparr>dv_signingKey := Some key\<rparr>, data))
        else Inl ErrInvalidMessage)
      else bindR (skip_unknown W ty data) (\<lambda>data. Inr (v, data)))"

definition decodeSenderKeyDistributionBody ::
    "'z prims_scheme \<Rightarrow> pwire \<Rightarrow> bytes \<Rightarrow> (bytes \<times> u32 \<times> u32 \<times> bytes \<times> bytes) res" where
  "decodeSenderKeyDistributionBody P W data =
     bindR (pb_loop W ErrInvalidMessage (dist_field P W)
       \<lparr>dv_distributionID = None, dv_chainID = None, dv_iteration = None, dv_chainKey = None,
        dv_signingKey = None\<rparr> data) (\<lambda>v.
     case (dv_distributionID v, dv_chainID v, dv_iteration v, dv_chainKey v, dv_signingKey v) of
       (Some distributionID, Some keyID, Some iteration, Some chainKey, Some signingPublic) \<Rightarrow>
         Inr (distributionID, keyID, iteration, chainKey, signingPublic)
     | _ \<Rightarrow> Inl ErrInvalidMessage)"

definition distributionMessage_serialize :: "pwire \<Rightarrow> distributionMessage \<Rightarrow> bytes" where
  "distributionMessage_serialize W m =
     [senderKeyVersionByte (dm_messageVersion m)]
     @ encodeSenderKeyDistributionBody W (dm_distributionID m) (dm_keyID m) (dm_iteration m)
         (dm_chainKey m) (dm_signingPublic m)"

definition parseDistributionMessage :: "'z prims_scheme \<Rightarrow> pwire \<Rightarrow> bytes \<Rightarrow> distributionMessage res" where
  "parseDistributionMessage P W data =
     (if length data < 1 then Inl ErrInvalidMessage
      else
        let version = parseSenderKeyVersion (data ! 0) in
        if version < senderKeyMessageVersion then Inl ErrInvalidMessage
        else if version > senderKeyMessageVersion then Inl ErrInvalidMessage
        else
          bindR (decodeSenderKeyDistributionBody P W (drop 1 data))
            (\<lambda>(distributionID, keyID, iteration, chainKey, signingPublic).
          Inr \<lparr>dm_messageVersion = version, dm_distributionID = distributionID, dm_keyID = keyID,
               dm_iteration = iteration, dm_chainKey = chainKey, dm_signingPublic = signingPublic\<rparr>))"

section \<open>The stored record (serialize.go)\<close>

definition recordSerializeMagic :: bytes where "recordSerializeMagic = ascii ''SIGK''"
definition recordSerializeVersion :: byte where "recordSerializeVersion = 2"
definition recordMinSize :: nat where "recordMinSize = 4 + 1 + 2 + 2"

definition enc_messageKey :: "messageKey \<Rightarrow> bytes" where
  "enc_messageKey mk = put_u32 (mk_iteration mk) @ mk_seed mk"

definition enc_senderState :: "senderState \<Rightarrow> bytes" where
  "enc_senderState st =
     (let msgKeys = gs_messageKeys st;
          msgKeys = (if length msgKeys > maxMessageKeysPerState
                     then drop (length msgKeys - maxMessageKeysPerState) msgKeys else msgKeys)
      in [gs_messageVersion st] @ gs_distributionID st @ put_u32 (gs_keyID st) @ put_u32 (gs_chainIteration st)
         @ gs_chainSeed st @ gs_signingPublic st
         @ (if gs_hasPrivate st then [1] @ gs_signingPrivateSeed st else [0])
         @ put_u16 (of_nat (length msgKeys)) @ concat (map enc_messageKey msgKeys))"

definition Record_Serialize :: "SenderRecord \<Rightarrow> bytes res" where
  "Record_Serialize r =
     (let maxStates = (if gr_maxStates r \<le> 0 then int DefaultMaxStates else gr_maxStates r);
          states = (if int (length (gr_states r)) > maxStates then take (nat maxStates) (gr_states r) else gr_states r)
      in Inr (recordSerializeMagic @ [recordSerializeVersion] @ put_u16 (of_int maxStates)
           @ put_u16 (of_nat (length states)) @ concat (map enc_senderState states)))"

definition dec_messageKey :: "bytes \<Rightarrow> (messageKey \<times> bytes) res" where
  "dec_messageKey data =
     (if 4 + senderKeySeedSize > length data then Inl ErrInvalidMessage
      else Inr (\<lparr>mk_iteration = get_u32 data,
                 mk_seed = arr senderKeySeedSize (take senderKeySeedSize (drop 4 data))\<rparr>,
                drop (4 + senderKeySeedSize) data))"

text \<open>The body of the loop over the states; \<open>data\<close> is what lies behind the decoder's position.\<close>

definition dec_state_keys :: "senderState \<Rightarrow> bytes \<Rightarrow> (senderState \<times> bytes) res" where
  "dec_state_keys st data =
     (if 2 > length data then Inl ErrInvalidMessage
      else
        let messageKeyCount = unat (get_u16 data); data = drop 2 data in
        if messageKeyCount > maxMessageKeysPerState then Inl ErrInvalidMessage
        else bindR (read_many messageKeyCount dec_messageKey data) (\<lambda>(keys, data).
          Inr (st\<lparr>gs_messageKeys := keys\<rparr>, data)))"

definition dec_state_body :: "byte \<Rightarrow> bytes \<Rightarrow> bytes \<Rightarrow> (senderState \<times> bytes) res" where
  "dec_state_body messageVersion distributionID data =
     (let keyID = get_u32 data; data = drop 4 data;
          chainIteration = get_u32 data; data = drop 4 data;
          chainSeed = arr senderKeySeedSize (take senderKeySeedSize data); data = drop senderKeySeedSize data;
          signingPublic = arr 32 (take 32 data); data = drop 32 data;
          hasPrivate = data ! 0; data = drop 1 data;
          st = \<lparr>gs_messageVersion = messageVersion, gs_distributionID = distributionID, gs_keyID = keyID,
                gs_chainIteration = chainIteration, gs_chainSeed = chainSeed, gs_signingPublic = signingPublic,
                gs_signingPrivateSeed = zero32, gs_hasPrivate = False, gs_messageKeys = []\<rparr> in
      if hasPrivate = 0 then dec_state_keys st data
      else if hasPrivate = 1 then
        if 32 > length data then Inl ErrInvalidMessage
        else dec_state_keys (st\<lparr>gs_signingPrivateSeed := arr 32 (take 32 data), gs_hasPrivate := True\<rparr>) (drop 32 data)
      else Inl ErrInvalidMessage)"

definition dec_senderState :: "byte \<Rightarrow> bytes \<Rightarrow> (senderState \<times> bytes) res" where
  "dec_senderState version data =
     (if version = recordSerializeVersion then
        if 1 + distributionIDSize + 4 + 4 + senderKeySeedSize + 32 + 1 + 2 > length data then Inl ErrInvalidMessage
        else dec_state_body (data ! 0) (arr distributionIDSize (take distributionIDSize (drop 1 data)))
               (drop (1 + distributionIDSize) data)
      else
        if 4 + 4 + senderKeySeedSize + 32 + 1 + 2 > length data then Inl ErrInvalidMessage
        else dec_state_body senderKeyMessageVersion (replicate distributionIDSize 0) data)"

definition DeserializeRecord :: "bytes \<Rightarrow> SenderRecord res" where
  "DeserializeRecord data =
     (if length data = 0 then Inl ErrInvalidMessage
      else if length data < recordMinSize \<or> take 4 data \<noteq> recordSerializeMagic then Inl ErrInvalidMessage
      else
        let version = data ! 4 in
        if version \<noteq> recordSerializeVersion \<and> version \<noteq> 1 then Inl ErrInvalidMessage
        else
          let maxStates = uint (get_u16 (drop 5 data));
              maxStates = (if maxStates \<le> 0 then int DefaultMaxStates else maxStates);
              stateCount = unat (get_u16 (drop 7 data)) in
          bindR (read_many stateCount (dec_senderState version) (drop 9 data)) (\<lambda>(states, data).
          if data \<noteq> [] then Inl ErrInvalidMessage
          else Inr \<lparr>gr_states = take (nat maxStates) states, gr_maxStates = maxStates\<rparr>))"

section \<open>Messages: round trip\<close>

lemma group_step:
  assumes "pw_ok W"
  shows "length b = distributionIDSize \<Longrightarrow>
      pb_loop W e (group_field W) v (AppendTag W 1 BytesType @ AppendBytes W b @ r) =
      pb_loop W e (group_field W) (v\<lparr>gv_distributionID := Some b\<rparr>) r"
    and "pb_loop W e (group_field W) v (AppendTag W 2 VarintType @ AppendVarint W n @ r) =
      pb_loop W e (group_field W) (v\<lparr>gv_chainID := Some (ucast n)\<rparr>) r"
    and "pb_loop W e (group_field W) v (AppendTag W 3 VarintType @ AppendVarint W n @ r) =
      pb_loop W e (group_field W) (v\<lparr>gv_iteration := Some (ucast n)\<rparr>) r"
    and "pb_loop W e (group_field W) v (AppendTag W 4 BytesType @ AppendBytes W b @ r) =
      pb_loop W e (group_field W) (v\<lparr>gv_ciphertext := Some b\<rparr>) r"
  by (rule pb_run [OF assms], simp, simp, simp add: group_field_def pb_values [OF assms])+

lemma dist_step:
  assumes "pw_ok W"
  shows "length b = distributionIDSize \<Longrightarrow>
      pb_loop W e (dist_field P W) v (AppendTag W 1 BytesType @ AppendBytes W b @ r) =
      pb_loop W e (dist_field P W) (v\<lparr>dv_distributionID := Some b\<rparr>) r"
    and "pb_loop W e (dist_field P W) v (AppendTag W 2 VarintType @ AppendVarint W n @ r) =
      pb_loop W e (dist_field P W) (v\<lparr>dv_chainID := Some (ucast n)\<rparr>) r"
    and "pb_loop W e (dist_field P W) v (AppendTag W 3 VarintType @ AppendVarint W n @ r) =
      pb_loop W e (dist_field P W) (v\<lparr>dv_iteration := Some (ucast n)\<rparr>) r"
    and "length b = senderKeySeedSize \<Longrightarrow>
      pb_loop W e (dist_field P W) v (AppendTag W 4 BytesType @ AppendBytes W b @ r) =
      pb_loop W e (dist_field P W) (v\<lparr>dv_chainKey := Some b\<rparr>) r"
    and "length b = 33 \<Longrightarrow> DeserializeWirePublicKey P b = Inr key \<Longrightarrow>
      pb_loop W e (dist_field P W) v (AppendTag W 5 BytesType @ AppendBytes W b @ r) =
      pb_loop W e (dist_field P W) (v\<lparr>dv_signingKey := Some key\<rparr>) r"
  by (rule pb_run [OF assms], simp, simp, simp add: dist_field_def pb_values [OF assms])+

lemma parse_senderKeyVersionByte: "parseSenderKeyVersion (senderKeyVersionByte senderKeyMessageVersion) = senderKeyMessageVersion"
  by (simp add: parseSenderKeyVersion_def senderKeyVersionByte_def senderKeyMessageVersion_def)

lemma parseSenderKeyMessage_serialize:
  assumes "pw_ok W" "gm_messageVersion m = senderKeyMessageVersion" "length (gm_distributionID m) = distributionIDSize"
    and "length (gm_signature m) = senderKeySignatureSize"
  shows "parseSenderKeyMessage W (senderKeyMessage_serialize W m) = Inr (m, senderKeyMessage_signedBytes W m)"
proof -
  note step = group_step [OF assms(1)] group_step(4) [OF assms(1), where r = "[]", simplified]
  have "decodeSenderKeyMessageBody W
      (encodeSenderKeyMessageBody W (gm_distributionID m) (gm_keyID m) (gm_iteration m) (gm_ciphertext m)) =
      Inr (gm_distributionID m, gm_keyID m, gm_iteration m, gm_ciphertext m)"
    by (simp add: decodeSenderKeyMessageBody_def encodeSenderKeyMessageBody_def step assms(3) del: One_nat_def)
  then show ?thesis
    using assms(2-4)
    by (simp add: parseSenderKeyMessage_def senderKeyMessage_serialize_def senderKeyMessage_signedBytes_def
        Let_def parse_senderKeyVersionByte)
qed

lemma parseDistributionMessage_serialize:
  assumes "pw_ok W" "dm_messageVersion m = senderKeyMessageVersion" "length (dm_distributionID m) = distributionIDSize"
    and "length (dm_chainKey m) = senderKeySeedSize" "wire_key P (dm_signingPublic m)"
  shows "parseDistributionMessage P W (distributionMessage_serialize W m) = Inr m"
proof -
  note step = dist_step [OF assms(1)] dist_step(5) [OF assms(1), where r = "[]", simplified]
  have "length (SerializeWirePublicKey (dm_signingPublic m)) = 33" by (simp add: SerializeWirePublicKey_def)
  then have "decodeSenderKeyDistributionBody P W (encodeSenderKeyDistributionBody W (dm_distributionID m) (dm_keyID m)
        (dm_iteration m) (dm_chainKey m) (dm_signingPublic m)) =
      Inr (dm_distributionID m, dm_keyID m, dm_iteration m, dm_chainKey m, dm_signingPublic m)"
    by (simp add: decodeSenderKeyDistributionBody_def encodeSenderKeyDistributionBody_def step
        wire_key_roundtrip [OF assms(5)] assms(3,4) del: One_nat_def)
  then show ?thesis
    using assms(2)
    by (simp add: parseDistributionMessage_def distributionMessage_serialize_def Let_def parse_senderKeyVersionByte)
qed

text \<open>A receiver that accepts what the sender has written has read what the sender meant.\<close>

lemma dist_key_rejected:
  assumes "pw_ok W" "length b = 33" "DeserializeWirePublicKey P b = Inl e'"
  shows "pb_loop W e (dist_field P W) v (AppendTag W 5 BytesType @ AppendBytes W b) = Inl e'"
  using pb_loop_tag [of W 5 BytesType e "dist_field P W" v "AppendBytes W b"] assms
  by (simp add: BytesType_def dist_field_def pb_values(3) [OF assms(1), where r = "[]", simplified, unfolded BytesType_def])

lemma parseDistributionMessage_Inr:
  assumes "pw_ok W" "parseDistributionMessage P W (distributionMessage_serialize W m) = Inr m'"
    and "dm_messageVersion m = senderKeyMessageVersion" "length (dm_distributionID m) = distributionIDSize"
    and "length (dm_chainKey m) = senderKeySeedSize" "length (dm_signingPublic m) = 32"
  shows "m' = m"
proof -
  let ?k = "SerializeWirePublicKey (dm_signingPublic m)"
  have "wire_key P (dm_signingPublic m)"
  proof (rule ccontr)
    assume "\<not> wire_key P (dm_signingPublic m)"
    then have "\<exists>e. DeserializeWirePublicKey P ?k = Inl e"
      using assms(6) by (auto simp: wire_key_def DeserializeWirePublicKey_def SerializeWirePublicKey_def ValidatePublicKey_def)
    then obtain e where "DeserializeWirePublicKey P ?k = Inl e" ..
    moreover have "length ?k = 33" by (simp add: SerializeWirePublicKey_def)
    ultimately have "decodeSenderKeyDistributionBody P W (encodeSenderKeyDistributionBody W (dm_distributionID m)
        (dm_keyID m) (dm_iteration m) (dm_chainKey m) (dm_signingPublic m)) = Inl e"
      using assms(4,5) by (simp add: decodeSenderKeyDistributionBody_def encodeSenderKeyDistributionBody_def
          dist_step [OF assms(1)] dist_key_rejected [OF assms(1)] del: One_nat_def)
    then show False
      using assms(2,3)
      by (simp add: parseDistributionMessage_def distributionMessage_serialize_def Let_def parse_senderKeyVersionByte)
  qed
  then show ?thesis using assms parseDistributionMessage_serialize [of W m P] by simp
qed

section \<open>Parsing returns\<close>

lemma skip_unknown_Inl: "skip_unknown W ty bs = Inl e \<Longrightarrow> e = ErrInvalidMessage"
  by (auto simp: skip_unknown_def split: option.splits)

lemma skip_unknown_shrinks: "skip_unknown W ty bs = Inr bs' \<Longrightarrow> length bs' \<le> length bs"
  by (auto simp: skip_unknown_def split: option.splits)

lemma group_field_shrinks: "pw_ok W \<Longrightarrow> pb_shrinks (group_field W)"
  by (auto simp: pb_shrinks_def group_field_def bindR_eq_Inl split: if_splits
      dest: pb_read_shrinks pb_read_Inl skip_unknown_Inl skip_unknown_shrinks)

lemma dist_field_shrinks: "pw_ok W \<Longrightarrow> pb_shrinks (dist_field P W)"
  by (auto simp: pb_shrinks_def dist_field_def bindR_eq_Inl ValidatePublicKey_def split: if_splits sum.splits
      dest: pb_read_shrinks pb_read_Inl skip_unknown_Inl skip_unknown_shrinks DeserializeWirePublicKey_Inl)

lemma sender_key_parsers_return:
  assumes "pw_ok W"
  shows "parseSenderKeyMessage W data \<noteq> Inl EDiverge" "parseDistributionMessage P W data \<noteq> Inl EDiverge"
proof -
  have "pb_loop W ErrInvalidMessage (group_field W) v body \<noteq> Inl EDiverge" for v body
    using assms group_field_shrinks [OF assms] by (rule pb_loop_returns) simp
  then show "parseSenderKeyMessage W data \<noteq> Inl EDiverge"
    by (auto simp: parseSenderKeyMessage_def decodeSenderKeyMessageBody_def Let_def bindR_eq_Inl
        split: if_splits option.splits)
  have "pb_loop W ErrInvalidMessage (dist_field P W) v body \<noteq> Inl EDiverge" for v body
    using assms dist_field_shrinks [OF assms] by (rule pb_loop_returns) simp
  then show "parseDistributionMessage P W data \<noteq> Inl EDiverge"
    by (auto simp: parseDistributionMessage_def decodeSenderKeyDistributionBody_def Let_def bindR_eq_Inl
        split: if_splits option.splits)
qed

section \<open>The stored record: round trip\<close>

definition senderState_ok :: "senderState \<Rightarrow> bool" where
  "senderState_ok st \<longleftrightarrow>
     length (gs_distributionID st) = distributionIDSize \<and> length (gs_chainSeed st) = senderKeySeedSize \<and>
     length (gs_signingPublic st) = 32 \<and> length (gs_signingPrivateSeed st) = 32 \<and>
     (\<not> gs_hasPrivate st \<longrightarrow> gs_signingPrivateSeed st = zero32) \<and>
     length (gs_messageKeys st) \<le> maxMessageKeysPerState \<and>
     list_all (\<lambda>mk. length (mk_seed mk) = senderKeySeedSize) (gs_messageKeys st)"

definition SenderRecord_ok :: "SenderRecord \<Rightarrow> bool" where
  "SenderRecord_ok r \<longleftrightarrow> 0 < gr_maxStates r \<and> gr_maxStates r < 2 ^ 16 \<and>
     int (length (gr_states r)) \<le> gr_maxStates r \<and> list_all senderState_ok (gr_states r)"

lemmas sender_sizes = distributionIDSize_def senderKeySeedSize_def maxMessageKeysPerState_def

interpretation message_key_entry: strict_codec enc_messageKey dec_messageKey "\<lambda>mk. length (mk_seed mk) = senderKeySeedSize"
proof unfold_locales
  show "length (mk_seed x) = senderKeySeedSize \<Longrightarrow> dec_messageKey (enc_messageKey x @ r) = Inr (x, r)" for x r
    by (simp add: enc_messageKey_def dec_messageKey_def codec)
next
  fix bs x r assume "dec_messageKey bs = Inr (x, r)"
  then have "x = \<lparr>mk_iteration = get_u32 bs, mk_seed = take 32 (drop 4 bs)\<rparr>" "r = drop 36 bs" "36 \<le> length bs"
    by (auto simp: dec_messageKey_def codec senderKeySeedSize_def split: if_splits)
  then show "length (mk_seed x) = senderKeySeedSize \<and> bs = enc_messageKey x @ r"
    using take_drop_glue [of 32 4 bs]
    by (simp add: enc_messageKey_def put_get_u32 senderKeySeedSize_def)
qed

lemma dec_state_keys_enc:
  assumes "length keys \<le> maxMessageKeysPerState" "list_all (\<lambda>mk. length (mk_seed mk) = senderKeySeedSize) keys"
  shows "dec_state_keys st (put_u16 (of_nat (length keys)) @ concat (map enc_messageKey keys) @ r) =
     Inr (st\<lparr>gs_messageKeys := keys\<rparr>, r)"
proof -
  have "unat (of_nat (length keys) :: u16) = length keys"
    using assms(1) by (simp add: unat_of_nat maxMessageKeysPerState_def)
  then show ?thesis
    using assms message_key_entry.read_many_enc [OF assms(2)] by (simp add: dec_state_keys_def)
qed

interpretation sender_state_entry: item_codec enc_senderState "dec_senderState recordSerializeVersion" senderState_ok
proof
  fix st r assume ok: "senderState_ok st"
  note sizes = senderState_ok_def sender_sizes
  have k: "dec_state_keys s (put_u16 (of_nat (length (gs_messageKeys st))) @ concat (map enc_messageKey (gs_messageKeys st)) @ r) =
     Inr (s\<lparr>gs_messageKeys := gs_messageKeys st\<rparr>, r)" for s
    using ok by (intro dec_state_keys_enc) (simp_all add: senderState_ok_def)
  show "dec_senderState recordSerializeVersion (enc_senderState st @ r) = Inr (st, r)"
    using ok k
    by (cases "gs_hasPrivate st")
      (simp_all add: enc_senderState_def dec_senderState_def dec_state_body_def Let_def sizes codec)
qed

lemma dec_senderState_ok: "dec_senderState version bs = Inr (st, r) \<Longrightarrow> senderState_ok st"
  by (auto simp: dec_senderState_def dec_state_body_def dec_state_keys_def Let_def senderState_ok_def sender_sizes
      message_key_entry.read_many_sound split: if_splits dest: read_many_length message_key_entry.read_many_sound)

lemma DeserializeRecord_ok: "DeserializeRecord d = Inr r \<Longrightarrow> SenderRecord_ok r"
proof -
  assume "DeserializeRecord d = Inr r"
  then obtain version states where r: "read_many (unat (get_u16 (drop 7 d))) (dec_senderState version) (drop 9 d) = Inr (states, [])"
    "gr_states r = take (nat (gr_maxStates r)) states"
    "gr_maxStates r = (if uint (get_u16 (drop 5 d)) \<le> 0 then int DefaultMaxStates else uint (get_u16 (drop 5 d)))"
    by (auto simp: DeserializeRecord_def Let_def split: if_splits)
  have u: "uint (get_u16 (drop 5 d)) < 2 ^ 16" "0 \<le> uint (get_u16 (drop 5 d))"
    using uint_lt2p [of "get_u16 (drop 5 d)"] by simp_all
  have "0 < gr_maxStates r" "gr_maxStates r < 2 ^ 16"
    using u r(3) by (auto simp: DefaultMaxStates_def simp del: uint_ge_0 unsigned_greater_eq)
  moreover have "list_all senderState_ok states"
    using r(1) by (rule read_many_all [rotated]) (rule dec_senderState_ok)
  ultimately show "SenderRecord_ok r"
    using r(2) by (auto simp: SenderRecord_ok_def list_all_iff dest: in_set_takeD)
qed

lemma DeserializeRecord_Serialize:
  assumes "SenderRecord_ok r"
  shows "\<exists>d. Record_Serialize r = Inr d \<and> d \<noteq> [] \<and> DeserializeRecord d = Inr r"
proof -
  let ?n = "length (gr_states r)"
  have n: "0 < gr_maxStates r" "gr_maxStates r < 2 ^ 16" "int ?n \<le> gr_maxStates r" "list_all senderState_ok (gr_states r)"
    using assms by (simp_all add: SenderRecord_ok_def)
  have u: "uint (of_int (gr_maxStates r) :: u16) = gr_maxStates r" "unat (of_nat ?n :: u16) = ?n"
    using n by (simp_all add: uint_word_of_int unat_of_nat)
  have ser: "Record_Serialize r = Inr (recordSerializeMagic @ [recordSerializeVersion] @ put_u16 (of_int (gr_maxStates r))
      @ put_u16 (of_nat ?n) @ concat (map enc_senderState (gr_states r)))" (is "_ = Inr ?d")
    using n(1,3) by (simp add: Record_Serialize_def Let_def)
  have l: "length recordSerializeMagic = 4" by (simp add: recordSerializeMagic_def ascii_def)
  have "read_many ?n (dec_senderState recordSerializeVersion) (concat (map enc_senderState (gr_states r))) = Inr (gr_states r, [])"
    using sender_state_entry.read_many_enc [OF n(4), of "[]"] by simp
  then have "DeserializeRecord ?d = Inr r"
    using n u l by (simp add: DeserializeRecord_def recordMinSize_def nth_append Let_def)
  with ser l show ?thesis by auto
qed

section \<open>Properties\<close>

text \<open>
  C30: The records that fit the stored format are exactly those that \<open>Serialize\<close> and \<open>DeserializeRecord\<close>
  give back unchanged: at least one and less than \<open>2^16\<close> states allowed, no more states than that, at
  most 2000 stored keys per state, and no private key where the flag says there is none.
\<close>

theorem Record_codec: "SenderRecord_ok r \<longleftrightarrow> (\<exists>d. Record_Serialize r = Inr d \<and> DeserializeRecord d = Inr r)"
  using DeserializeRecord_Serialize DeserializeRecord_ok by blast

end
