(* ===== verification/Sender_Keys_Group.thy ===== *)
theory Sender_Keys_Group
  imports Sender_Keys_Format Concrete
begin

text \<open>
  Group messages end to end: the builder and the cipher of \<^verbatim>\<open>senderkeys/\<close> over a store, a run of a sender
  and a receiver, and its properties.  The builder's and the cipher's store is a \<open>ProtocolStore\<close>, of which
  they use the sender-key operations.
\<close>

section \<open>Builder (builder.go)\<close>

definition Builder_loadRecord :: "'s ProtocolStore \<Rightarrow> SenderKeyName \<Rightarrow> 's \<Rightarrow> SenderRecord res" where
  "Builder_loadRecord S name s =
     bindR (LoadSenderKey S name s) (\<lambda>rec.
     case rec of
       None \<Rightarrow> Inr (NewRecord 0)
     | Some data \<Rightarrow>
         if length data = 0 then Inr (NewRecord 0)
         else
           (case DeserializeRecord data of
              Inl _ \<Rightarrow> Inl ErrInvalidMessage
            | Inr record \<Rightarrow>
                Inr (if gr_maxStates record \<le> 0 then record\<lparr>gr_maxStates := int DefaultMaxStates\<rparr> else record)))"

definition Builder_persistRecord :: "'s ProtocolStore \<Rightarrow> SenderKeyName \<Rightarrow> SenderRecord \<Rightarrow> 's \<Rightarrow> unit res \<times> 's" where
  "Builder_persistRecord S name record s =
     (case Record_Serialize record of
        Inl _ \<Rightarrow> (Inl ErrInvalidMessage, s)
      | Inr data \<Rightarrow> StoreSenderKey S name (Some data) s)"

text \<open>\<open>rnd\<close> holds the four draws of random bytes, in the order of the code.\<close>

definition newSendingState ::
    "'z prims_scheme \<Rightarrow> bytes res \<times> bytes res \<times> bytes res \<times> bytes res \<Rightarrow> senderState res" where
  "newSendingState P rnd =
     (let (rnd1, rnd2, rnd3, rnd4) = rnd in
      bindR (generateSenderKeyID rnd1) (\<lambda>keyID.
      bindR (generateDistributionID rnd2) (\<lambda>distributionID.
      bindR (generateSenderKeySeed rnd3) (\<lambda>seed.
      bindR (generateSigningKey P rnd4) (\<lambda>(pub, priv).
      Inr \<lparr>gs_messageVersion = senderKeyMessageVersion, gs_distributionID = distributionID, gs_keyID = keyID,
           gs_chainIteration = 0, gs_chainSeed = seed, gs_signingPublic = pub, gs_signingPrivateSeed = priv,
           gs_hasPrivate = True, gs_messageKeys = []\<rparr>)))))"

definition distribution_of :: "senderState \<Rightarrow> distributionMessage" where
  "distribution_of st =
     \<lparr>dm_messageVersion = gs_messageVersion st, dm_distributionID = gs_distributionID st, dm_keyID = gs_keyID st,
      dm_iteration = gs_chainIteration st, dm_chainKey = gs_chainSeed st, dm_signingPublic = gs_signingPublic st\<rparr>"

definition Builder_Create ::
    "'z prims_scheme \<Rightarrow> pwire \<Rightarrow> 's ProtocolStore \<Rightarrow> SenderKeyName \<Rightarrow> bytes res \<times> bytes res \<times> bytes res \<times> bytes res \<Rightarrow>
     's \<Rightarrow> bytes res \<times> 's" where
  "Builder_Create P W S name rnd s =
     (case Builder_loadRecord S name s of
        Inl e \<Rightarrow> (Inl e, s)
      | Inr record \<Rightarrow>
          bindS
            (if Record_isEmpty record then
               (case newSendingState P rnd of
                  Inl e \<Rightarrow> (Inl e, s)
                | Inr state \<Rightarrow>
                    let record = Record_setState state record in
                    bindS (Builder_persistRecord S name record s) (\<lambda>_ s. (Inr record, s)))
             else (Inr record, s))
            (\<lambda>record s.
               case Record_current record of
                 Inl e \<Rightarrow> (Inl e, s)
               | Inr cur \<Rightarrow>
                   if \<not> gs_hasPrivate cur then (Inl ErrInvalidMessage, s)
                   else (Inr (distributionMessage_serialize W (distribution_of cur)), s)))"

definition Builder_Rotate ::
    "'z prims_scheme \<Rightarrow> pwire \<Rightarrow> 's ProtocolStore \<Rightarrow> SenderKeyName \<Rightarrow> bytes res \<times> bytes res \<times> bytes res \<times> bytes res \<Rightarrow>
     's \<Rightarrow> bytes res \<times> 's" where
  "Builder_Rotate P W S name rnd s =
     (case Builder_loadRecord S name s of
        Inl e \<Rightarrow> (Inl e, s)
      | Inr record \<Rightarrow>
          (case newSendingState P rnd of
             Inl e \<Rightarrow> (Inl e, s)
           | Inr state \<Rightarrow>
               bindS (Builder_persistRecord S name (Record_setState state record) s) (\<lambda>_ s.
               (Inr (distributionMessage_serialize W (distribution_of state)), s))))"

definition Builder_Process ::
    "'z prims_scheme \<Rightarrow> pwire \<Rightarrow> 's ProtocolStore \<Rightarrow> SenderKeyName \<Rightarrow> bytes \<Rightarrow> 's \<Rightarrow> unit res \<times> 's" where
  "Builder_Process P W S name distribution s =
     (case parseDistributionMessage P W distribution of
        Inl e \<Rightarrow> (Inl e, s)
      | Inr msg \<Rightarrow>
          (case Builder_loadRecord S name s of
             Inl e \<Rightarrow> (Inl e, s)
           | Inr record \<Rightarrow>
               let state = \<lparr>gs_messageVersion = dm_messageVersion msg, gs_distributionID = dm_distributionID msg,
                     gs_keyID = dm_keyID msg, gs_chainIteration = dm_iteration msg, gs_chainSeed = dm_chainKey msg,
                     gs_signingPublic = dm_signingPublic msg, gs_signingPrivateSeed = zero32, gs_hasPrivate = False,
                     gs_messageKeys = []\<rparr> in
               Builder_persistRecord S name (Record_setState state record) s))"

section \<open>Cipher (cipher.go)\<close>

definition Cipher_loadRecord :: "'s ProtocolStore \<Rightarrow> SenderKeyName \<Rightarrow> 's \<Rightarrow> SenderRecord res" where
  "Cipher_loadRecord S name s =
     bindR (LoadSenderKey S name s) (\<lambda>rec.
     case rec of
       None \<Rightarrow> Inr (NewRecord 0)
     | Some data \<Rightarrow>
         if length data = 0 then Inr (NewRecord 0)
         else
           (case DeserializeRecord data of
              Inl _ \<Rightarrow> Inl ErrInvalidMessage
            | Inr record \<Rightarrow>
                Inr (if gr_maxStates record \<le> 0 then record\<lparr>gr_maxStates := int DefaultMaxStates\<rparr> else record)))"

definition Cipher_persistRecord :: "'s ProtocolStore \<Rightarrow> SenderKeyName \<Rightarrow> SenderRecord \<Rightarrow> 's \<Rightarrow> unit res \<times> 's" where
  "Cipher_persistRecord S name record s =
     (case Record_Serialize record of
        Inl _ \<Rightarrow> (Inl ErrInvalidMessage, s)
      | Inr data \<Rightarrow> StoreSenderKey S name (Some data) s)"

definition Cipher_Encrypt ::
    "'z prims_scheme \<Rightarrow> pwire \<Rightarrow> 's ProtocolStore \<Rightarrow> SenderKeyName \<Rightarrow> bytes res \<Rightarrow> bytes \<Rightarrow> 's \<Rightarrow> bytes res \<times> 's" where
  "Cipher_Encrypt P W S name rnd plaintext s =
     (case Cipher_loadRecord S name s of
        Inl e \<Rightarrow> (Inl e, s)
      | Inr record \<Rightarrow>
      if Record_isEmpty record then (Inl ErrNoSenderKey, s)
      else case Record_current record of
        Inl _ \<Rightarrow> (Inl ErrNoSenderKey, s)
      | Inr st \<Rightarrow>
      if \<not> gs_hasPrivate st then (Inl ErrInvalidMessage, s)
      else
      let chainKey = \<lparr>sck_iteration = gs_chainIteration st, sck_seed = gs_chainSeed st\<rparr> in
      case senderChainKey_senderMessageKey P chainKey of
        Inl e \<Rightarrow> (Inl e, s)
      | Inr messageKey \<Rightarrow>
      case AESCBCEncrypt P (smk_cipherKey messageKey) (smk_iv messageKey) plaintext of
        Inl _ \<Rightarrow> (Inl ErrInvalidMessage, s)
      | Inr ciphertext \<Rightarrow>
      let msg = \<lparr>gm_messageVersion = gs_messageVersion st, gm_distributionID = gs_distributionID st,
            gm_keyID = gs_keyID st, gm_iteration = smk_iteration messageKey, gm_ciphertext = ciphertext,
            gm_signature = replicate senderKeySignatureSize 0\<rparr> in
      case XEdDSASign P rnd (gs_signingPrivateSeed st) [senderKeyMessage_signedBytes W msg] of
        Inl _ \<Rightarrow> (Inl ErrInvalidMessage, s)
      | Inr sig \<Rightarrow>
      if length sig \<noteq> senderKeySignatureSize then (Inl ErrInvalidMessage, s)
      else
      let msg = msg\<lparr>gm_signature := sig\<rparr> in
      case senderChainKey_next P chainKey of
        Inl e \<Rightarrow> (Inl e, s)
      | Inr nxt \<Rightarrow>
      let st = st\<lparr>gs_chainIteration := sck_iteration nxt, gs_chainSeed := sck_seed nxt\<rparr>;
          record = record\<lparr>gr_states := (gr_states record)[0 := st]\<rparr> in
      bindS (Cipher_persistRecord S name record s) (\<lambda>_ s.
      (Inr (senderKeyMessage_serialize W msg), s)))"

definition Cipher_Decrypt ::
    "'z prims_scheme \<Rightarrow> pwire \<Rightarrow> 's ProtocolStore \<Rightarrow> SenderKeyName \<Rightarrow> bytes \<Rightarrow> 's \<Rightarrow> bytes res \<times> 's" where
  "Cipher_Decrypt P W S name ciphertext s =
     (case parseSenderKeyMessage W ciphertext of
        Inl e \<Rightarrow> (Inl e, s)
      | Inr (msg, signedBytes) \<Rightarrow>
      case Cipher_loadRecord S name s of
        Inl e \<Rightarrow> (Inl e, s)
      | Inr record \<Rightarrow>
      if Record_isEmpty record then (Inl ErrNoSenderKey, s)
      else case Record_state record (gm_distributionID msg) (gm_keyID msg) of
        Inl _ \<Rightarrow> (Inl ErrNoSenderKey, s)
      | Inr i \<Rightarrow>
      let st = gr_states record ! i in
      if gm_messageVersion msg \<noteq> gs_messageVersion st then (Inl ErrInvalidMessage, s)
      else if \<not> XEdDSAVerify P (gs_signingPublic st) (gm_signature msg) [signedBytes] then (Inl ErrInvalidSignature, s)
      else case getSenderMessageKey P (gm_iteration msg) st of
        (Inl e, _) \<Rightarrow> (Inl e, s)
      | (Inr messageKey, st) \<Rightarrow>
      case AESCBCDecrypt P (smk_cipherKey messageKey) (smk_iv messageKey) (gm_ciphertext msg) of
        Inl _ \<Rightarrow> (Inl ErrInvalidMessage, s)
      | Inr plaintext \<Rightarrow>
      let record = record\<lparr>gr_states := (gr_states record)[i := st]\<rparr> in
      bindS (Cipher_persistRecord S name record s) (\<lambda>_ s. (Inr plaintext, s)))"

section \<open>What the operations keep\<close>

lemma chain_lengths [simp]:
  "length (chain_msg (sender_kdf P) seed j) = senderKeySeedSize"
  "length (chain_key (sender_kdf P) seed (Suc j)) = senderKeySeedSize"
  by (simp_all add: chain_msg_def sender_kdf_def senderKeySeedSize_def)

lemma length_fold_keep_add:
  "length ks \<le> maxMessageKeysPerState \<Longrightarrow> length (fold keep_add xs ks) \<le> maxMessageKeysPerState"
  by (simp add: fold_keep_add keep_def)

text \<open>A lookup that succeeds keeps the format and touches nothing but the chain and the stored keys.\<close>

lemma getSenderMessageKey_keeps:
  assumes "getSenderMessageKey P i st = (Inr mk, st')" "senderState_ok st"
  shows "senderState_ok st'" "gs_frame st' = gs_frame st"
proof -
  have "senderState_ok st' \<and> gs_frame st' = gs_frame st"
    using assms(1)
  proof (cases rule: getSenderMessageKey_cases)
    case (stored k ks)
    have "win_of st' = (fst (win_of st), remove1 (unat i) (snd (win_of st)))"
      using getSenderMessageKey_window [of i st P] assms(1) stored
      by (auto simp: win_recv_def split_beta hasMessageKey_win [symmetric] hasMessageKey_def split: if_splits)
        (simp_all add: win_of_def word_less_nat_alt)
    from arg_cong [OF this, of "\<lambda>w. length (snd w)"] have "length ks \<le> length (gs_messageKeys st)"
      using stored(5) by (simp add: win_of_def length_remove1 split: if_splits)
    then show ?thesis using stored assms(2) by (auto simp: senderState_ok_def gs_frame_def list_all_iff)
  next
    case forward
    then show ?thesis
      using assms set_fold_keep_add getSenderMessageKey_forward [OF forward, of P]
      by (fastforce simp: senderState_ok_def gs_frame_def list_all_iff length_fold_keep_add simp del: chain_key.simps)
  qed
  then show "senderState_ok st'" "gs_frame st' = gs_frame st" by blast+
qed

lemma gs_frameD:
  assumes "gs_frame st' = gs_frame st"
  shows "gs_messageVersion st' = gs_messageVersion st" "gs_distributionID st' = gs_distributionID st"
    "gs_keyID st' = gs_keyID st" "gs_signingPublic st' = gs_signingPublic st"
    "same_key d k st' = same_key d k st"
  using assms by (cases st; cases st'; simp add: gs_frame_def same_key_def)+

lemma find_index_update:
  "(i < length xs \<Longrightarrow> p y = p (xs ! i)) \<Longrightarrow> find_index p (xs[i := y]) = find_index p xs"
proof (induction xs arbitrary: i)
  case (Cons x xs)
  then show ?case by (cases i) auto
qed simp

lemma NewRecord_ok: "SenderRecord_ok (NewRecord 0)"
  by (simp add: SenderRecord_ok_def NewRecord_def DefaultMaxStates_def)

lemma Record_setState_ok:
  assumes "SenderRecord_ok r" "senderState_ok st"
  shows "SenderRecord_ok (Record_setState st r)"
  using assms by (auto simp: SenderRecord_ok_def Record_setState_def Let_def list_all_iff dest!: in_set_takeD)

lemma Record_setState_head:
  assumes "SenderRecord_ok r"
  shows "\<exists>rest. gr_states (Record_setState st r) = st # rest"
proof -
  obtain m where "nat (gr_maxStates r) = Suc m" using assms by (cases "nat (gr_maxStates r)") (auto simp: SenderRecord_ok_def)
  then show ?thesis by (simp add: Record_setState_def Let_def)
qed

lemma Record_update_ok:
  "SenderRecord_ok r \<Longrightarrow> senderState_ok st \<Longrightarrow> SenderRecord_ok (r\<lparr>gr_states := (gr_states r)[i := st]\<rparr>)"
  by (auto simp: SenderRecord_ok_def list_all_iff dest: set_update_subset_insert [THEN subsetD])

lemma load_ok:
  assumes "Cipher_loadRecord S name s = Inr r"
  shows "SenderRecord_ok r"
proof -
  obtain rec where rec: "LoadSenderKey S name s = Inr rec" using assms by (auto simp: Cipher_loadRecord_def)
  have "SenderRecord_ok r' \<and> \<not> gr_maxStates r' \<le> 0" if "DeserializeRecord d = Inr r'" for d r'
    using DeserializeRecord_ok [OF that] by (simp add: SenderRecord_ok_def)
  with assms NewRecord_ok show ?thesis
    by (cases rec) (auto simp: Cipher_loadRecord_def rec split: if_splits sum.splits)
qed

lemma Builder_is_Cipher: "Builder_loadRecord = Cipher_loadRecord" "Builder_persistRecord = Cipher_persistRecord"
  by (rule ext, rule ext, rule ext, simp add: Builder_loadRecord_def Cipher_loadRecord_def)
    (rule ext, rule ext, rule ext, rule ext, simp add: Builder_persistRecord_def Cipher_persistRecord_def)

text \<open>\<open>Decrypt\<close> is a function on the record, followed by storing the new record.\<close>

definition open_group :: "'z prims_scheme \<Rightarrow> pwire \<Rightarrow> bytes \<Rightarrow> SenderRecord res \<Rightarrow> (bytes \<times> SenderRecord) res" where
  "open_group P W c loaded =
     bindR (parseSenderKeyMessage W c) (\<lambda>(msg, sb).
     bindR loaded (\<lambda>record.
     case find_index (same_key (gm_distributionID msg) (gm_keyID msg)) (gr_states record) of
       None \<Rightarrow> Inl ErrNoSenderKey
     | Some i \<Rightarrow>
         let st = gr_states record ! i in
         if gm_messageVersion msg \<noteq> gs_messageVersion st then Inl ErrInvalidMessage
         else if \<not> XEdDSAVerify P (gs_signingPublic st) (gm_signature msg) [sb] then Inl ErrInvalidSignature
         else (case getSenderMessageKey P (gm_iteration msg) st of
             (Inl e, _) \<Rightarrow> Inl e
           | (Inr mk, st) \<Rightarrow>
               (case AESCBCDecrypt P (smk_cipherKey mk) (smk_iv mk) (gm_ciphertext msg) of
                  Inl _ \<Rightarrow> Inl ErrInvalidMessage
                | Inr p \<Rightarrow> Inr (p, record\<lparr>gr_states := (gr_states record)[i := st]\<rparr>)))))"

lemma Decrypt_open_group:
  "Cipher_Decrypt P W S name c s =
     (case open_group P W c (Cipher_loadRecord S name s) of
        Inl e \<Rightarrow> (Inl e, s)
      | Inr (p, record) \<Rightarrow> bindS (Cipher_persistRecord S name record s) (\<lambda>_ s. (Inr p, s)))"
  by (auto simp: Cipher_Decrypt_def open_group_def bindR_def Record_isEmpty_def Record_state_def Let_def
      split: sum.splits option.splits prod.splits)

lemma open_group_Inr:
  assumes "open_group P W c loaded = Inr (p, record')"
  obtains msg sb rec i mk st' where "parseSenderKeyMessage W c = Inr (msg, sb)" "loaded = Inr rec"
    "find_index (same_key (gm_distributionID msg) (gm_keyID msg)) (gr_states rec) = Some i"
    "getSenderMessageKey P (gm_iteration msg) (gr_states rec ! i) = (Inr mk, st')"
    "AESCBCDecrypt P (smk_cipherKey mk) (smk_iv mk) (gm_ciphertext msg) = Inr p"
    "record' = rec\<lparr>gr_states := (gr_states rec)[i := st']\<rparr>"
proof -
  obtain msg sb where m: "parseSenderKeyMessage W c = Inr (msg, sb)"
    using assms by (auto simp: open_group_def)
  obtain rec where r: "loaded = Inr rec" using assms by (auto simp: open_group_def m)
  obtain i where i: "find_index (same_key (gm_distributionID msg) (gm_keyID msg)) (gr_states rec) = Some i"
    using assms by (auto simp: open_group_def m r split: option.splits)
  obtain k st' where k: "getSenderMessageKey P (gm_iteration msg) (gr_states rec ! i) = (k, st')" by fastforce
  from assms m r i k show ?thesis
    by (cases k) (auto simp: open_group_def Let_def split: if_splits sum.splits intro: that)
qed

lemma open_group_ok:
  assumes "open_group P W c (Inr record) = Inr (p, record')" "SenderRecord_ok record"
  shows "SenderRecord_ok record'"
  using assms(1)
proof (rule open_group_Inr)
  fix msg sb rec i mk st'
  assume o: "Inr record = (Inr rec :: SenderRecord res)"
    "find_index (same_key (gm_distributionID msg) (gm_keyID msg)) (gr_states rec) = Some i"
    "getSenderMessageKey P (gm_iteration msg) (gr_states rec ! i) = (Inr mk, st')"
    "record' = rec\<lparr>gr_states := (gr_states rec)[i := st']\<rparr>"
  have "senderState_ok (gr_states rec ! i)"
    using assms(2) o(1) find_index_Some [OF o(2)] by (simp add: SenderRecord_ok_def list_all_length)
  then have "senderState_ok st'" using getSenderMessageKey_keeps(1) [OF o(3)] by blast
  then show ?thesis using assms(2) o(1) unfolding o(4) by (simp add: Record_update_ok)
qed

context sender_key_store
begin

text \<open>What is persisted is loaded again, and nothing else changes.\<close>

lemma persist:
  assumes "SenderRecord_ok r"
  obtains s' where "Cipher_persistRecord S name r s = (Inr (), s')"
    "\<And>k. Cipher_loadRecord S k s' = (if k = name then Inr r else Cipher_loadRecord S k s)"
proof -
  obtain d where d: "Record_Serialize r = Inr d" "d \<noteq> []" "DeserializeRecord d = Inr r"
    using DeserializeRecord_Serialize [OF assms] by blast
  obtain s' where s': "StoreSenderKey S name (Some d) s = (Inr (), s')"
    using store_sender_key_ok [of name d s] by (cases "StoreSenderKey S name (Some d) s") auto
  show ?thesis
  proof (rule that [of s'])
    show "Cipher_persistRecord S name r s = (Inr (), s')" by (simp add: Cipher_persistRecord_def d s')
    show "Cipher_loadRecord S k s' = (if k = name then Inr r else Cipher_loadRecord S k s)" for k
      using d assms by (simp add: Cipher_loadRecord_def store_sender_key [OF s'] SenderRecord_ok_def)
  qed
qed

text \<open>What \<open>Decrypt\<close> does to the store: nothing when it fails, else it stores the record of \<open>open_group\<close>.\<close>

lemma Decrypt_eq:
  obtains (failed) e where "open_group P W c (Cipher_loadRecord S name s) = Inl e"
      "Cipher_Decrypt P W S name c s = (Inl e, s)"
  | (opened) p rec s' where "open_group P W c (Cipher_loadRecord S name s) = Inr (p, rec)"
      "Cipher_Decrypt P W S name c s = (Inr p, s')"
      "\<And>k. Cipher_loadRecord S k s' = (if k = name then Inr rec else Cipher_loadRecord S k s)"
proof (cases "open_group P W c (Cipher_loadRecord S name s)")
  case (Inl e)
  then show ?thesis by (intro failed) (simp_all add: Decrypt_open_group)
next
  case (Inr pr)
  then obtain p rec where pr: "open_group P W c (Cipher_loadRecord S name s) = Inr (p, rec)" by (cases pr) simp
  then obtain old where old: "Cipher_loadRecord S name s = Inr old" by (rule open_group_Inr)
  have "SenderRecord_ok rec" using open_group_ok [OF pr [unfolded old]] load_ok [OF old] by blast
  then obtain s' where "Cipher_persistRecord S name rec s = (Inr (), s')"
    "\<And>k. Cipher_loadRecord S k s' = (if k = name then Inr rec else Cipher_loadRecord S k s)"
    by (rule persist [of rec name s]) blast
  with pr show ?thesis by (intro opened [of p rec s']) (simp_all add: Decrypt_open_group)
qed

end

section \<open>The receiver\<close>

text \<open>The state a store holds for a distribution, and the group key it was made from.\<close>

definition receiver_state :: "'s ProtocolStore \<Rightarrow> SenderKeyName \<Rightarrow> bytes \<Rightarrow> u32 \<Rightarrow> 's \<Rightarrow> senderState option" where
  "receiver_state S name d k s =
     (case Cipher_loadRecord S name s of
        Inl _ \<Rightarrow> None
      | Inr record \<Rightarrow> map_option (nth (gr_states record)) (find_index (same_key d k) (gr_states record)))"

record group_key =
  gk_start :: nat
  gk_seed :: bytes
  gk_public :: bytes
  gk_dist :: bytes
  gk_id :: u32

definition receives :: "'z prims_scheme \<Rightarrow> group_key \<Rightarrow> senderState \<Rightarrow> bool" where
  "receives P g st \<longleftrightarrow> gs_messageVersion st = senderKeyMessageVersion \<and> gs_signingPublic st = gk_public g \<and>
     gs_distributionID st = gk_dist g \<and> gs_keyID st = gk_id g \<and> sender_follows P (gk_start g) (gk_seed g) st"

text \<open>A message of the group: encrypted under the key of its number and signed.\<close>

definition group_message :: "'z prims_scheme \<Rightarrow> pwire \<Rightarrow> group_key \<Rightarrow> u32 \<Rightarrow> bytes \<Rightarrow> bytes \<Rightarrow> bool" where
  "group_message P W g i p c \<longleftrightarrow>
     (\<exists>m. c = senderKeyMessage_serialize W m \<and> gm_messageVersion m = senderKeyMessageVersion \<and>
        gm_distributionID m = gk_dist g \<and> gm_keyID m = gk_id g \<and> gm_iteration m = i \<and>
        length (gk_dist g) = distributionIDSize \<and> length (gm_signature m) = senderKeySignatureSize \<and>
        gk_start g \<le> unat i \<and>
        (let mk = sender_mk P i (chain_msg (sender_kdf P) (gk_seed g) (unat i - gk_start g)) in
         AESCBCEncrypt P (smk_cipherKey mk) (smk_iv mk) p = Inr (gm_ciphertext m)) \<and>
        XEdDSAVerify P (gk_public g) (gm_signature m) [senderKeyMessage_signedBytes W m])"

text \<open>Opening a group message is one step of the window.\<close>

lemma open_group_message:
  assumes "pw_ok W" "prims_ok P" "group_message P W g i p c" "Cipher_loadRecord S name s = Inr record"
    and "find_index (same_key (gk_dist g) (gk_id g)) (gr_states record) = Some j" "receives P g (gr_states record ! j)"
  shows "open_group P W c (Inr record) =
     (case getSenderMessageKey P i (gr_states record ! j) of
        (Inl e, _) \<Rightarrow> Inl e
      | (Inr mk, st) \<Rightarrow> Inr (p, record\<lparr>gr_states := (gr_states record)[j := st]\<rparr>))"
proof -
  obtain m where m: "c = senderKeyMessage_serialize W m" "gm_messageVersion m = senderKeyMessageVersion"
    "gm_distributionID m = gk_dist g" "gm_keyID m = gk_id g" "gm_iteration m = i"
    "length (gm_distributionID m) = distributionIDSize" "length (gm_signature m) = senderKeySignatureSize"
    "AESCBCEncrypt P (smk_cipherKey (sender_mk P i (chain_msg (sender_kdf P) (gk_seed g) (unat i - gk_start g))))
       (smk_iv (sender_mk P i (chain_msg (sender_kdf P) (gk_seed g) (unat i - gk_start g)))) p = Inr (gm_ciphertext m)"
    "XEdDSAVerify P (gk_public g) (gm_signature m) [senderKeyMessage_signedBytes W m]"
    using assms(3) by (auto simp: group_message_def Let_def)
  have parse: "parseSenderKeyMessage W c = Inr (m, senderKeyMessage_signedBytes W m)"
    using parseSenderKeyMessage_serialize [OF assms(1)] m by simp
  show ?thesis
  proof (cases "getSenderMessageKey P i (gr_states record ! j)")
    case (Pair k st)
    have "k = Inr mk \<Longrightarrow> AESCBCDecrypt P (smk_cipherKey mk) (smk_iv mk) (gm_ciphertext m) = Inr p" for mk
      using getSenderMessageKey_follows(3) [of P "gk_start g" "gk_seed g" "gr_states record ! j" i mk st] assms(6) Pair
        AESCBC_roundtrip [OF assms(2) m(8)] by (simp add: receives_def)
    with Pair show ?thesis
      using parse m assms(5,6) by (cases k) (simp_all add: open_group_def receives_def)
  qed
qed

lemma receiver_state_Some:
  assumes "receiver_state S name d k s = Some st"
  obtains rec j where "Cipher_loadRecord S name s = Inr rec" "find_index (same_key d k) (gr_states rec) = Some j"
    "st = gr_states rec ! j" "j < length (gr_states rec)" "senderState_ok st" "gs_distributionID st = d" "gs_keyID st = k"
proof -
  obtain rec j where r: "Cipher_loadRecord S name s = Inr rec" "find_index (same_key d k) (gr_states rec) = Some j"
    "st = gr_states rec ! j"
    using assms by (auto simp: receiver_state_def split: sum.splits)
  moreover have "senderState_ok st"
    using load_ok [OF r(1)] find_index_Some [OF r(2)] r(3) by (simp add: SenderRecord_ok_def list_all_length)
  ultimately show ?thesis using that find_index_Some [OF r(2)] by (simp add: same_key_def)
qed

text \<open>A changed state of the record, seen through its key.\<close>

lemma find_index_state_update:
  assumes "gs_frame st' = gs_frame (xs ! i)"
  shows "find_index (same_key d k) (xs[i := st']) = find_index (same_key d k) xs"
  using assms by (intro find_index_update gs_frameD(5))

context sender_key_store
begin

lemma Decrypt_group_message:
  assumes "pw_ok W" "prims_ok P" "group_message P W g i p c"
    and "receiver_state S name (gk_dist g) (gk_id g) s = Some st" "receives P g st"
  shows "case getSenderMessageKey P i st of
       (Inl e, _) \<Rightarrow> Cipher_Decrypt P W S name c s = (Inl e, s)
     | (Inr mk, st') \<Rightarrow> \<exists>s'. Cipher_Decrypt P W S name c s = (Inr p, s') \<and>
         receiver_state S name (gk_dist g) (gk_id g) s' = Some st'"
proof -
  obtain rec j where r: "Cipher_loadRecord S name s = Inr rec"
    "find_index (same_key (gk_dist g) (gk_id g)) (gr_states rec) = Some j" "st = gr_states rec ! j"
    "j < length (gr_states rec)" "senderState_ok st"
    using assms(4) by (rule receiver_state_Some)
  have o: "open_group P W c (Inr rec) = (case getSenderMessageKey P i st of (Inl e, _) \<Rightarrow> Inl e
      | (Inr mk, st) \<Rightarrow> Inr (p, rec\<lparr>gr_states := (gr_states rec)[j := st]\<rparr>))"
    using open_group_message [OF assms(1-3) r(1,2)] assms(5) r(3) by simp
  show ?thesis
  proof (cases "getSenderMessageKey P i st")
    case (Pair x st')
    show ?thesis
    proof (cases x)
      case (Inl e)
      then have "open_group P W c (Cipher_loadRecord S name s) = Inl e" using o Pair r(1) by simp
      then show ?thesis unfolding Pair Inl by (simp add: Decrypt_open_group)
    next
      case (Inr mk)
      have "gs_frame st' = gs_frame (gr_states rec ! j)"
        using getSenderMessageKey_keeps(2) [of P i st mk st'] Pair Inr r(3,5) by simp
      then have "find_index (same_key (gk_dist g) (gk_id g)) ((gr_states rec)[j := st']) = Some j"
        using r(2) by (simp add: find_index_state_update)
      moreover have "open_group P W c (Cipher_loadRecord S name s) = Inr (p, rec\<lparr>gr_states := (gr_states rec)[j := st']\<rparr>)"
        using o Pair r(1) Inr by simp
      moreover obtain s' where "Cipher_Decrypt P W S name c s = (Inr p, s')"
        "Cipher_loadRecord S name s' = Inr (rec\<lparr>gr_states := (gr_states rec)[j := st']\<rparr>)"
        using calculation(2) by (cases rule: Decrypt_eq [of P W c name s]) auto
      ultimately show ?thesis using r(4) unfolding Pair Inr by (simp add: receiver_state_def)
    qed
  qed
qed

text \<open>Whatever bytes arrive, the state of a distribution is kept or takes a step of its chain.\<close>

lemma Decrypt_any:
  assumes "receiver_state S name d k s = Some st" "Cipher_Decrypt P W S name c s = (x, s')"
  shows "receiver_state S name d k s' = Some st \<or>
    (\<exists>i mk st'. getSenderMessageKey P i st = (Inr mk, st') \<and> receiver_state S name d k s' = Some st')"
proof (cases rule: Decrypt_eq [of P W c name s])
  case (failed e)
  with assms show ?thesis by simp
next
  case (opened p rec' s'')
  obtain rec j where r: "Cipher_loadRecord S name s = Inr rec" "find_index (same_key d k) (gr_states rec) = Some j"
    "st = gr_states rec ! j" "j < length (gr_states rec)"
    using assms(1) by (rule receiver_state_Some)
  from opened(1) obtain msg :: senderKeyMessage and sb j' mk st' where o:
    "find_index (same_key (gm_distributionID msg) (gm_keyID msg)) (gr_states rec) = Some j'"
    "getSenderMessageKey P (gm_iteration msg) (gr_states rec ! j') = (Inr mk, st')"
    "rec' = rec\<lparr>gr_states := (gr_states rec)[j' := st']\<rparr>"
    by (rule open_group_Inr) (use r(1) in auto)
  have "senderState_ok (gr_states rec ! j')"
    using load_ok [OF r(1)] find_index_Some [OF o(1)] by (simp add: SenderRecord_ok_def list_all_length)
  then have "gs_frame st' = gs_frame (gr_states rec ! j')" using getSenderMessageKey_keeps(2) [OF o(2)] by blast
  then have f: "find_index (same_key d k) ((gr_states rec)[j' := st']) = Some j"
    using r(2) by (simp add: find_index_state_update)
  have "s'' = s'" using assms(2) opened(2) by simp
  with f opened(3) o(3) have "receiver_state S name d k s' = Some ((gr_states rec)[j' := st'] ! j)"
    by (auto simp: receiver_state_def)
  then show ?thesis using o(2) r(3,4) by (cases "j = j'") auto
qed

end

section \<open>The sender\<close>

definition sends :: "'z prims_scheme \<Rightarrow> group_key \<Rightarrow> senderState \<Rightarrow> bool" where
  "sends P g st \<longleftrightarrow> gs_messageVersion st = senderKeyMessageVersion \<and> gs_hasPrivate st \<and> senderState_ok st \<and>
     gs_signingPublic st = gk_public g \<and> gs_distributionID st = gk_dist g \<and> gs_keyID st = gk_id g \<and>
     scalarBaseMult P (gs_signingPrivateSeed st) = Inr (gk_public g) \<and>
     gk_start g \<le> unat (gs_chainIteration st) \<and>
     gs_chainSeed st = chain_key (sender_kdf P) (gk_seed g) (unat (gs_chainIteration st) - gk_start g)"

definition sender_state :: "'s ProtocolStore \<Rightarrow> SenderKeyName \<Rightarrow> 's \<Rightarrow> senderState option" where
  "sender_state S name s =
     (case Cipher_loadRecord S name s of
        Inl _ \<Rightarrow> None
      | Inr record \<Rightarrow> if Record_isEmpty record then None else Some (gr_states record ! 0))"

text \<open>The group key that a member who joins now gets.\<close>

definition joined_key :: "senderState \<Rightarrow> group_key" where
  "joined_key st = \<lparr>gk_start = unat (gs_chainIteration st), gk_seed = gs_chainSeed st, gk_public = gs_signingPublic st,
     gk_dist = gs_distributionID st, gk_id = gs_keyID st\<rparr>"

lemma sends_joined: "sends P g st \<Longrightarrow> sends P (joined_key st) st"
  by (simp add: sends_def joined_key_def)

lemma newSendingState_sends:
  assumes "newSendingState P rnd = Inr st"
  shows "sends P (joined_key st) st"
proof -
  obtain r1 r2 r3 r4 where rnd: "rnd = (r1, r2, r3, r4)" by (cases rnd)
  have "scalarBaseMult P priv = Inr pub \<Longrightarrow> length pub = 32" for priv pub
    by (auto simp: scalarBaseMult_def Let_def split: option.splits if_splits)
  then show ?thesis
    using assms
    by (auto simp: newSendingState_def rnd generateSenderKeyID_def generateSenderKeySeed_def generateDistributionID_def
        generateSigningKey_def GenerateKeyPair_def RandomBytes_def sends_def joined_key_def senderState_ok_def Let_def)
qed

context sender_key_store
begin

lemma Create_sends:
  assumes "Builder_Create P W S name rnd s = (Inr d, s')"
  obtains st where "sender_state S name s' = Some st" "d = distributionMessage_serialize W (distribution_of st)"
    "sender_state S name s = None \<Longrightarrow> sends P (joined_key st) st"
    "\<And>st0. sender_state S name s = Some st0 \<Longrightarrow> st = st0"
proof -
  obtain rec where rec: "Cipher_loadRecord S name s = Inr rec"
    using assms by (auto simp: Builder_Create_def Builder_is_Cipher split: sum.splits)
  show ?thesis
  proof (cases "Record_isEmpty rec")
    case False
    with assms rec show ?thesis
      by (intro that [of "gr_states rec ! 0"])
        (auto simp: Builder_Create_def Builder_is_Cipher Record_current_def Record_isEmpty_def sender_state_def split: if_splits)
  next
    case True
    then obtain st where st: "newSendingState P rnd = Inr st"
      using assms rec by (auto simp: Builder_Create_def Builder_is_Cipher split: sum.splits)
    have ok: "SenderRecord_ok (Record_setState st rec)"
      using newSendingState_sends [OF st] load_ok [OF rec] by (intro Record_setState_ok) (simp_all add: sends_def)
    obtain rest where h: "gr_states (Record_setState st rec) = st # rest"
      using Record_setState_head [OF load_ok [OF rec]] by blast
    obtain s1 where s1: "Cipher_persistRecord S name (Record_setState st rec) s = (Inr (), s1)"
      "\<And>k. Cipher_loadRecord S k s1 = (if k = name then Inr (Record_setState st rec) else Cipher_loadRecord S k s)"
      using ok by (rule persist [of _ name s]) blast
    have "s' = s1" "d = distributionMessage_serialize W (distribution_of st)"
      using assms rec True st s1(1) h
      by (auto simp: Builder_Create_def Builder_is_Cipher Record_current_def Let_def split: if_splits)
    with True rec h newSendingState_sends [OF st] s1(2) show ?thesis
      by (intro that [of st]) (simp_all add: sender_state_def Record_isEmpty_def)
  qed
qed

lemma Process_receives:
  assumes "pw_ok W" "sends P g st" "Builder_Process P W S name (distributionMessage_serialize W (distribution_of st)) r = (Inr (), r')"
  shows "\<exists>st'. receiver_state S name (gs_distributionID st) (gs_keyID st) r' = Some st' \<and> receives P (joined_key st) st' \<and>
    win_of st' = (unat (gs_chainIteration st), [])"
proof -
  have st: "gs_messageVersion st = senderKeyMessageVersion" "length (gs_distributionID st) = distributionIDSize"
    "length (gs_chainSeed st) = senderKeySeedSize" "length (gs_signingPublic st) = 32"
    using assms(2) by (auto simp: sends_def senderState_ok_def)
  obtain m where "parseDistributionMessage P W (distributionMessage_serialize W (distribution_of st)) = Inr m"
    using assms(3) by (auto simp: Builder_Process_def split: sum.splits)
  moreover from this have "m = distribution_of st"
    using st by (intro parseDistributionMessage_Inr [OF assms(1)]) (simp_all add: distribution_of_def)
  moreover obtain rec where rec: "Cipher_loadRecord S name r = Inr rec"
    using assms(3) by (auto simp: Builder_Process_def Builder_is_Cipher split: sum.splits)
  moreover define st' where "st' = \<lparr>gs_messageVersion = gs_messageVersion st, gs_distributionID = gs_distributionID st,
    gs_keyID = gs_keyID st, gs_chainIteration = gs_chainIteration st, gs_chainSeed = gs_chainSeed st,
    gs_signingPublic = gs_signingPublic st, gs_signingPrivateSeed = zero32, gs_hasPrivate = False, gs_messageKeys = []\<rparr>"
  ultimately have p: "Cipher_persistRecord S name (Record_setState st' rec) r = (Inr (), r')"
    using assms(3) by (simp add: Builder_Process_def Builder_is_Cipher Let_def distribution_of_def)
  have ok: "SenderRecord_ok (Record_setState st' rec)"
    using load_ok [OF rec] st by (intro Record_setState_ok) (simp_all add: senderState_ok_def st'_def)
  obtain rest where h: "gr_states (Record_setState st' rec) = st' # rest"
    using Record_setState_head [OF load_ok [OF rec]] by blast
  have "Cipher_loadRecord S name r' = Inr (Record_setState st' rec)"
    using ok p by (cases rule: persist [of "Record_setState st' rec" name r]) auto
  then have "receiver_state S name (gs_distributionID st) (gs_keyID st) r' = Some st'"
    by (simp add: receiver_state_def h) (simp add: same_key_def st'_def)
  moreover have "receives P (joined_key st) st'" "win_of st' = (unat (gs_chainIteration st), [])"
    using st by (simp_all add: receives_def joined_key_def st'_def sender_follows_def win_of_def win_ok_def)
  ultimately show ?thesis by blast
qed

lemma Encrypt_sends:
  assumes "ed_ok P" "sender_state S name s = Some st" "sends P g st" "Cipher_Encrypt P W S name rnd p s = (Inr c, s')"
  obtains st' where "sender_state S name s' = Some st'" "sends P g st'" "group_message P W g (gs_chainIteration st) p c"
    "gs_chainIteration st \<noteq> MaxUint32" "gs_chainIteration st' = gs_chainIteration st + 1"
proof -
  obtain rec where rec: "Cipher_loadRecord S name s = Inr rec" "\<not> Record_isEmpty rec" "st = gr_states rec ! 0"
    using assms(2) by (auto simp: sender_state_def split: sum.splits if_splits)
  let ?it = "gs_chainIteration st"
  let ?mk = "sender_mk P ?it (snd (sender_kdf P (gs_chainSeed st)))"
  let ?msg = "\<lambda>ct sig. \<lparr>gm_messageVersion = gs_messageVersion st, gm_distributionID = gs_distributionID st,
    gm_keyID = gs_keyID st, gm_iteration = ?it, gm_ciphertext = ct, gm_signature = sig\<rparr>"
  note unfold = Cipher_Encrypt_def rec(1,2) rec(3) [symmetric] Record_current_def senderChainKey_steps(1) Let_def
  have priv: "gs_hasPrivate st" and ne: "gr_states rec \<noteq> []"
    using assms(3) rec(2) by (simp_all add: sends_def Record_isEmpty_def)
  obtain ct where ct: "AESCBCEncrypt P (smk_cipherKey ?mk) (smk_iv ?mk) p = Inr ct"
    using assms(4) priv ne by (auto simp: unfold split: sum.splits)
  obtain sig where sig: "XEdDSASign P rnd (gs_signingPrivateSeed st) [senderKeyMessage_signedBytes W (?msg ct (replicate senderKeySignatureSize 0))] = Inr sig"
    using assms(4) priv ne by (auto simp: unfold ct split: sum.splits)
  have len: "length sig = senderKeySignatureSize" and it: "?it \<noteq> MaxUint32"
    using assms(4) priv ne by (auto simp: unfold ct sig senderChainKey_next_def split: if_splits)
  let ?st = "st\<lparr>gs_chainIteration := ?it + 1, gs_chainSeed := fst (sender_kdf P (gs_chainSeed st))\<rparr>"
  let ?rec = "rec\<lparr>gr_states := (gr_states rec)[0 := ?st]\<rparr>"
  have ok: "senderState_ok ?st" using assms(3) by (auto simp: sends_def senderState_ok_def sender_kdf_def senderKeySeedSize_def)
  obtain s1 where s1: "Cipher_persistRecord S name ?rec s = (Inr (), s1)"
    "\<And>k. Cipher_loadRecord S k s1 = (if k = name then Inr ?rec else Cipher_loadRecord S k s)"
    using Record_update_ok [OF load_ok [OF rec(1)] ok] by (rule persist [of _ name s]) blast
  have c: "c = senderKeyMessage_serialize W (?msg ct sig)" "s' = s1"
    using assms(4) priv ne it by (simp_all add: unfold ct sig len senderChainKey_steps(2) s1(1))
  have "XEdDSAVerify P (gk_public g) sig [senderKeyMessage_signedBytes W (?msg ct sig)]"
    using XEdDSA_complete [OF assms(1) _ _ sig] assms(3)
    by (simp add: sends_def senderState_ok_def senderKeyMessage_signedBytes_def)
  moreover have "snd (sender_kdf P (gs_chainSeed st)) = chain_msg (sender_kdf P) (gk_seed g) (unat ?it - gk_start g)"
    "fst (sender_kdf P (gs_chainSeed st)) = chain_key (sender_kdf P) (gk_seed g) (Suc (unat ?it - gk_start g))"
    using assms(3) by (simp_all add: sends_def chain_msg_def)
  ultimately show ?thesis
  proof (intro that [of ?st])
    show "sender_state S name s' = Some ?st"
      using ne by (simp add: c(2) sender_state_def s1(2) Record_isEmpty_def)
  qed (use assms(3) ok c(1) ct len it in \<open>auto simp: sends_def group_message_def senderState_ok_def unat_inc_Max Suc_diff_le
      simp del: chain_key.simps\<close>)
qed

end

section \<open>A run of a group\<close>

text \<open>
  One sender and one receiver, each with a store.  The sender makes its key; at some point the receiver
  gets a distribution message and joins; the sender encrypts, and the receiver decrypts any bytes in any
  order.  \<open>sent\<close> holds plaintext and message of what was sent since the receiver joined.
\<close>

inductive group_run ::
    "'z prims_scheme \<Rightarrow> pwire \<Rightarrow> 's ProtocolStore \<Rightarrow> SenderKeyName \<Rightarrow> SenderKeyName \<Rightarrow>
     's \<Rightarrow> 's option \<Rightarrow> (bytes \<times> bytes) list \<Rightarrow> bool"
  for P W S sn rn where
  create: "Cipher_loadRecord S sn s = Inr rec \<Longrightarrow> Record_isEmpty rec \<Longrightarrow>
      Builder_Create P W S sn rnd s = (Inr d, s') \<Longrightarrow> group_run P W S sn rn s' None []"
| join: "group_run P W S sn rn s None sent \<Longrightarrow> Builder_Create P W S sn rnd s = (Inr d, s') \<Longrightarrow>
      Builder_Process P W S rn d r = (Inr (), r') \<Longrightarrow> group_run P W S sn rn s' (Some r') []"
| send: "group_run P W S sn rn s ro sent \<Longrightarrow> Cipher_Encrypt P W S sn rnd p s = (Inr c, s') \<Longrightarrow>
      group_run P W S sn rn s' ro ((p, c) # sent)"
| recv: "group_run P W S sn rn s (Some r) sent \<Longrightarrow> Cipher_Decrypt P W S rn c r = (x, r') \<Longrightarrow>
      group_run P W S sn rn s (Some r') sent"

definition group_inv ::
    "'z prims_scheme \<Rightarrow> pwire \<Rightarrow> 's ProtocolStore \<Rightarrow> SenderKeyName \<Rightarrow> SenderKeyName \<Rightarrow> group_key \<Rightarrow>
     's \<Rightarrow> 's option \<Rightarrow> (bytes \<times> bytes) list \<Rightarrow> bool" where
  "group_inv P W S sn rn g s ro sent \<longleftrightarrow>
     (\<exists>st. sender_state S sn s = Some st \<and> sends P g st) \<and>
     (\<forall>(p, c) \<in> set sent. \<exists>i. group_message P W g i p c) \<and>
     (\<forall>r. ro = Some r \<longrightarrow> (\<exists>st. receiver_state S rn (gk_dist g) (gk_id g) r = Some st \<and> receives P g st))"

context sender_key_store
begin

lemma Decrypt_receives:
  assumes "receiver_state S name (gk_dist g) (gk_id g) s = Some st" "receives P g st"
    and "Cipher_Decrypt P W S name c s = (x, s')"
  shows "\<exists>st'. receiver_state S name (gk_dist g) (gk_id g) s' = Some st' \<and> receives P g st' \<and>
    win_closed (win_of st) \<subseteq> win_closed (win_of st')"
  using Decrypt_any [OF assms(1,3)]
proof (elim disjE exE conjE)
  assume "receiver_state S name (gk_dist g) (gk_id g) s' = Some st"
  then show ?thesis using assms(2) by blast
next
  fix i mk st'
  assume st': "getSenderMessageKey P i st = (Inr mk, st')" "receiver_state S name (gk_dist g) (gk_id g) s' = Some st'"
  have f: "sender_follows P (gk_start g) (gk_seed g) st" using assms(2) by (simp add: receives_def)
  have "win_recv (unat i) (win_of st) = (Inr (unat (smk_iteration mk)), win_of st')"
    using getSenderMessageKey_window [of i st P] st'(1) by simp
  then have "win_closed (win_of st) \<subseteq> win_closed (win_of st')"
    using f by (intro win_recv_ok(4)) (simp_all add: sender_follows_def)
  moreover have "receives P g st'"
    using assms(2) getSenderMessageKey_follows [OF f st'(1)] gs_frameD [of st' st] by (simp add: receives_def)
  ultimately show ?thesis using st'(2) by blast
qed

lemma group_run_inv:
  assumes "pw_ok W" "ed_ok P"
  shows "group_run P W S sn rn s ro sent \<Longrightarrow> \<exists>g. group_inv P W S sn rn g s ro sent"
proof (induction rule: group_run.induct)
  case (create s rec rnd d s')
  then have "sender_state S sn s = None" by (simp add: sender_state_def)
  with Create_sends [OF create(3)] show ?case unfolding group_inv_def by (metis empty_iff list.set(1) option.distinct(1))
next
  case (join s sent rnd d s' r r')
  then obtain g st where g: "sender_state S sn s = Some st" "sends P g st" by (auto simp: group_inv_def)
  obtain st' where st': "sender_state S sn s' = Some st'" "d = distributionMessage_serialize W (distribution_of st')"
    "\<And>st0. sender_state S sn s = Some st0 \<Longrightarrow> st' = st0"
    using Create_sends [OF join(2)] by metis
  then have "d = distributionMessage_serialize W (distribution_of st)" "sender_state S sn s' = Some st" using g(1) by auto
  then have "group_inv P W S sn rn (joined_key st) s' (Some r') []"
    using Process_receives [OF assms(1) g(2), of rn r r'] join(3) sends_joined [OF g(2)]
    by (auto simp: group_inv_def joined_key_def)
  then show ?case ..
next
  case (send s ro sent rnd p c s')
  then obtain g st where g: "group_inv P W S sn rn g s ro sent" "sender_state S sn s = Some st" "sends P g st"
    by (auto simp: group_inv_def)
  obtain st' where "sender_state S sn s' = Some st'" "sends P g st'" "group_message P W g (gs_chainIteration st) p c"
    using assms(2) g(2,3) send(2) by (rule Encrypt_sends)
  then have "group_inv P W S sn rn g s' ro ((p, c) # sent)" using g(1) by (auto simp: group_inv_def)
  then show ?case ..
next
  case (recv s r sent c x r')
  then obtain g st where g: "group_inv P W S sn rn g s (Some r) sent"
    "receiver_state S rn (gk_dist g) (gk_id g) r = Some st" "receives P g st"
    by (auto simp: group_inv_def)
  then have "group_inv P W S sn rn g s (Some r') sent"
    using Decrypt_receives [OF g(2,3) recv(2)] by (auto simp: group_inv_def)
  then show ?case ..
qed

end

section \<open>Properties\<close>

definition message_number :: "pwire \<Rightarrow> bytes \<Rightarrow> nat" where
  "message_number W c = (case parseSenderKeyMessage W c of Inl _ \<Rightarrow> 0 | Inr (m, _) \<Rightarrow> unat (gm_iteration m))"

text \<open>The window of the distribution that a message belongs to.\<close>

definition group_window :: "pwire \<Rightarrow> 's ProtocolStore \<Rightarrow> SenderKeyName \<Rightarrow> bytes \<Rightarrow> 's \<Rightarrow> window" where
  "group_window W S name c r =
     (case parseSenderKeyMessage W c of
        Inl _ \<Rightarrow> (0, [])
      | Inr (m, _) \<Rightarrow> (case receiver_state S name (gm_distributionID m) (gm_keyID m) r of
          None \<Rightarrow> (0, []) | Some st \<Rightarrow> win_of st))"

text \<open>Decrypting one message after the other, whatever the results.\<close>

definition group_decrypts :: "'z prims_scheme \<Rightarrow> pwire \<Rightarrow> 's ProtocolStore \<Rightarrow> SenderKeyName \<Rightarrow> bytes list \<Rightarrow> 's \<Rightarrow> 's" where
  "group_decrypts P W S name = fold (\<lambda>c r. snd (Cipher_Decrypt P W S name c r))"

lemma group_message_parse:
  assumes "pw_ok W" "group_message P W g i p c"
  obtains m sb where "parseSenderKeyMessage W c = Inr (m, sb)" "gm_distributionID m = gk_dist g" "gm_keyID m = gk_id g"
    "gm_iteration m = i"
  using assms parseSenderKeyMessage_serialize [OF assms(1)] by (fastforce simp: group_message_def)

context sender_key_store
begin

lemma group_message_window:
  assumes "pw_ok W" "prims_ok P" "group_message P W g i p c"
    and "receiver_state S name (gk_dist g) (gk_id g) r = Some st" "receives P g st"
  shows "case win_recv (message_number W c) (group_window W S name c r) of
      (Inl e, _) \<Rightarrow> Cipher_Decrypt P W S name c r = (Inl e, r)
    | (Inr _, w) \<Rightarrow> \<exists>r'. Cipher_Decrypt P W S name c r = (Inr p, r') \<and> group_window W S name c r' = w"
proof -
  obtain m sb where m: "parseSenderKeyMessage W c = Inr (m, sb)" "gm_distributionID m = gk_dist g" "gm_keyID m = gk_id g"
    "gm_iteration m = i"
    using assms(1,3) by (rule group_message_parse)
  obtain x st' where get: "getSenderMessageKey P i st = (x, st')" by fastforce
  have "win_recv (message_number W c) (group_window W S name c r) = (map_sum id (\<lambda>mk. unat (smk_iteration mk)) x, win_of st')"
    using getSenderMessageKey_window [of i st P] m assms(4) get by (simp add: message_number_def group_window_def)
  then show ?thesis
    using Decrypt_group_message [OF assms] get m by (cases x) (auto simp: group_window_def)
qed

lemma group_closed_rejected:
  assumes "pw_ok W" "prims_ok P" "group_message P W g i p c"
    and "receiver_state S name (gk_dist g) (gk_id g) r = Some st" "receives P g st" "unat i \<in> win_closed (win_of st)"
  shows "Cipher_Decrypt P W S name c r = (Inl ErrDuplicateMessage, r)"
proof -
  have "getSenderMessageKey P i st = (Inl ErrDuplicateMessage, st)"
    using assms(6)
    by (auto simp: win_closed_def getSenderMessageKey_def removeMessageKey_None hasMessageKey_win win_of_def word_less_nat_alt)
  with Decrypt_group_message [OF assms(1-5)] show ?thesis by simp
qed

lemma group_decrypts_receives:
  assumes "receiver_state S name (gk_dist g) (gk_id g) r = Some st" "receives P g st"
  shows "\<exists>st'. receiver_state S name (gk_dist g) (gk_id g) (group_decrypts P W S name cs r) = Some st' \<and> receives P g st' \<and>
    win_closed (win_of st) \<subseteq> win_closed (win_of st')"
  using assms
proof (induction cs arbitrary: r st)
  case Nil
  then show ?case by (auto simp: group_decrypts_def)
next
  case (Cons c cs)
  obtain st1 where "receiver_state S name (gk_dist g) (gk_id g) (snd (Cipher_Decrypt P W S name c r)) = Some st1"
    "receives P g st1" "win_closed (win_of st) \<subseteq> win_closed (win_of st1)"
    using Decrypt_receives [OF Cons.prems, of W c] by (metis surjective_pairing)
  with Cons.IH [OF this(1,2)] show ?case by (fastforce simp: group_decrypts_def)
qed

end

section \<open>The operations return\<close>

context sender_key_store
begin

lemma Create_total:
  assumes "Cipher_loadRecord S name s = Inr rec" "Record_isEmpty rec" "newSendingState P rnd = Inr st"
  shows "\<exists>s'. Builder_Create P W S name rnd s = (Inr (distributionMessage_serialize W (distribution_of st)), s') \<and>
    sender_state S name s' = Some st"
proof -
  have ok: "SenderRecord_ok (Record_setState st rec)"
    using newSendingState_sends [OF assms(3)] load_ok [OF assms(1)] by (intro Record_setState_ok) (simp_all add: sends_def)
  obtain rest where h: "gr_states (Record_setState st rec) = st # rest"
    using Record_setState_head [OF load_ok [OF assms(1)]] by blast
  have "gs_hasPrivate st" using newSendingState_sends [OF assms(3)] by (simp add: sends_def)
  moreover obtain s1 where "Cipher_persistRecord S name (Record_setState st rec) s = (Inr (), s1)"
    "\<And>k. Cipher_loadRecord S k s1 = (if k = name then Inr (Record_setState st rec) else Cipher_loadRecord S k s)"
    using ok by (rule persist [of _ name s]) blast
  ultimately show ?thesis
    using assms h
    by (simp add: Builder_Create_def Builder_is_Cipher Record_current_def Record_isEmpty_def Let_def sender_state_def)
qed

lemma Process_total:
  assumes "pw_ok W" "sends P g st" "wire_key P (gs_signingPublic st)" "Cipher_loadRecord S name r = Inr rec"
  shows "\<exists>r'. Builder_Process P W S name (distributionMessage_serialize W (distribution_of st)) r = (Inr (), r')"
proof -
  have st: "gs_messageVersion st = senderKeyMessageVersion" "length (gs_distributionID st) = distributionIDSize"
    "length (gs_chainSeed st) = senderKeySeedSize" "length (gs_signingPublic st) = 32"
    using assms(2) by (auto simp: sends_def senderState_ok_def)
  have "parseDistributionMessage P W (distributionMessage_serialize W (distribution_of st)) = Inr (distribution_of st)"
    using st assms(3) by (intro parseDistributionMessage_serialize [OF assms(1)]) (simp_all add: distribution_of_def)
  moreover have "\<exists>r'. Cipher_persistRecord S name (Record_setState st' rec) r = (Inr (), r')" if "senderState_ok st'" for st'
    using Record_setState_ok [OF load_ok [OF assms(4)] that] by (rule persist [of _ name r]) blast
  ultimately show ?thesis
    using st assms(4) by (simp add: Builder_Process_def Builder_is_Cipher Let_def distribution_of_def senderState_ok_def)
qed

lemma Encrypt_total:
  assumes "sender_state S name s = Some st" "sends P g st" "gs_chainIteration st \<noteq> MaxUint32"
    and "\<And>m. \<exists>sig. XEdDSASign P rnd (gs_signingPrivateSeed st) [m] = Inr sig"
  shows "\<exists>c s'. Cipher_Encrypt P W S name rnd p s = (Inr c, s')"
proof -
  obtain rec where rec: "Cipher_loadRecord S name s = Inr rec" "\<not> Record_isEmpty rec" "st = gr_states rec ! 0"
    using assms(1) by (auto simp: sender_state_def split: sum.splits if_splits)
  let ?mk = "sender_mk P (gs_chainIteration st) (snd (sender_kdf P (gs_chainSeed st)))"
  obtain ct where ct: "AESCBCEncrypt P (smk_cipherKey ?mk) (smk_iv ?mk) p = Inr ct"
    by (auto simp: AESCBCEncrypt_def aes_key_ok_def pkcs7Pad_def Let_def)
  obtain sig where sig: "XEdDSASign P rnd (gs_signingPrivateSeed st) [senderKeyMessage_signedBytes W
      \<lparr>gm_messageVersion = gs_messageVersion st, gm_distributionID = gs_distributionID st, gm_keyID = gs_keyID st,
       gm_iteration = gs_chainIteration st, gm_ciphertext = ct, gm_signature = replicate senderKeySignatureSize 0\<rparr>] = Inr sig"
    using assms(4) by blast
  let ?st = "st\<lparr>gs_chainIteration := gs_chainIteration st + 1, gs_chainSeed := fst (sender_kdf P (gs_chainSeed st))\<rparr>"
  have "senderState_ok ?st" using assms(2) by (auto simp: sends_def senderState_ok_def sender_kdf_def senderKeySeedSize_def)
  then have "SenderRecord_ok (rec\<lparr>gr_states := (gr_states rec)[0 := ?st]\<rparr>)" using load_ok [OF rec(1)] by (intro Record_update_ok)
  then obtain s1 where "Cipher_persistRecord S name (rec\<lparr>gr_states := (gr_states rec)[0 := ?st]\<rparr>) s = (Inr (), s1)"
    by (rule persist [of _ name s])
  moreover have "gs_hasPrivate st" "gr_states rec \<noteq> []" using assms(2) rec(2) by (simp_all add: sends_def Record_isEmpty_def)
  ultimately show ?thesis
    using rec(1,2) assms(3) length_XEdDSASign [OF sig, folded senderKeySignatureSize_def]
    by (simp add: Cipher_Encrypt_def Record_current_def rec(3) [symmetric] senderChainKey_steps ct sig Let_def)
qed

end

section \<open>Processing a distribution message again\<close>

definition distributed :: "distributionMessage \<Rightarrow> senderState" where
  "distributed m = \<lparr>gs_messageVersion = dm_messageVersion m, gs_distributionID = dm_distributionID m, gs_keyID = dm_keyID m,
     gs_chainIteration = dm_iteration m, gs_chainSeed = dm_chainKey m, gs_signingPublic = dm_signingPublic m,
     gs_signingPrivateSeed = zero32, gs_hasPrivate = False, gs_messageKeys = []\<rparr>"

lemma dist_field_sizes:
  assumes "dist_field P W num ty bs v = Inr (v', bs')"
    and "\<forall>x. dv_distributionID v = Some x \<longrightarrow> length x = distributionIDSize" "\<forall>x. dv_chainKey v = Some x \<longrightarrow> length x = senderKeySeedSize"
      "\<forall>x. dv_signingKey v = Some x \<longrightarrow> length x = 32"
  shows "(\<forall>x. dv_distributionID v' = Some x \<longrightarrow> length x = distributionIDSize) \<and>
    (\<forall>x. dv_chainKey v' = Some x \<longrightarrow> length x = senderKeySeedSize) \<and> (\<forall>x. dv_signingKey v' = Some x \<longrightarrow> length x = 32)"
  using assms by (auto simp: dist_field_def ValidatePublicKey_def split: if_splits dest: DeserializeWirePublicKey_wire_key simp: wire_key_def)

lemma parseDistributionMessage_ok:
  assumes "parseDistributionMessage P W d = Inr m"
  shows "senderState_ok (distributed m)"
proof -
  let ?Q = "\<lambda>v. (\<forall>x. dv_distributionID v = Some x \<longrightarrow> length x = distributionIDSize) \<and>
    (\<forall>x. dv_chainKey v = Some x \<longrightarrow> length x = senderKeySeedSize) \<and> (\<forall>x. dv_signingKey v = Some x \<longrightarrow> length x = 32)"
  have d: "decodeSenderKeyDistributionBody P W (drop 1 d) =
      Inr (dm_distributionID m, dm_keyID m, dm_iteration m, dm_chainKey m, dm_signingPublic m)"
    using assms by (auto simp: parseDistributionMessage_def Let_def split: if_splits)
  then obtain v where v: "pb_loop W ErrInvalidMessage (dist_field P W) \<lparr>dv_distributionID = None, dv_chainID = None,
      dv_iteration = None, dv_chainKey = None, dv_signingKey = None\<rparr> (drop 1 d) = Inr v"
    unfolding decodeSenderKeyDistributionBody_def bindR_eq_Inr by blast
  have m: "dv_distributionID v = Some (dm_distributionID m)" "dv_chainKey v = Some (dm_chainKey m)"
      "dv_signingKey v = Some (dm_signingPublic m)"
    using d unfolding decodeSenderKeyDistributionBody_def v bindR_simps by (auto split: option.splits)
  have "?Q v"
    using v by (rule pb_loop_invariant [rotated]) (simp, use dist_field_sizes [of P W] in blast)
  with m show ?thesis by (simp add: senderState_ok_def distributed_def)
qed

context sender_key_store
begin

lemma Process_record:
  assumes "Builder_Process P W S name d r = (Inr (), r')"
  obtains m rest rec where "parseDistributionMessage P W d = Inr m" "Cipher_loadRecord S name r' = Inr rec"
    "gr_states rec = distributed m # rest"
proof -
  obtain m where m: "parseDistributionMessage P W d = Inr m"
    using assms by (auto simp: Builder_Process_def split: sum.splits)
  obtain rec where rec: "Cipher_loadRecord S name r = Inr rec"
    using assms by (auto simp: Builder_Process_def Builder_is_Cipher m split: sum.splits)
  have p: "Cipher_persistRecord S name (Record_setState (distributed m) rec) r = (Inr (), r')"
    using assms by (simp add: Builder_Process_def Builder_is_Cipher m rec distributed_def)
  have "SenderRecord_ok (Record_setState (distributed m) rec)"
    using load_ok [OF rec] parseDistributionMessage_ok [OF m] by (rule Record_setState_ok)
  then have "Cipher_loadRecord S name r' = Inr (Record_setState (distributed m) rec)"
    using p by (cases rule: persist [of "Record_setState (distributed m) rec" name r]) auto
  moreover obtain rest where "gr_states (Record_setState (distributed m) rec) = distributed m # rest"
    using Record_setState_head [OF load_ok [OF rec]] by blast
  ultimately show ?thesis by (rule that [OF m])
qed

lemma Process_rewinds:
  assumes "Builder_Process P W S name d r0 = (Inr (), r1)" "Cipher_Decrypt P W S name c r1 = (Inr p, r2)"
    and "Builder_Process P W S name d r2 = (Inr (), r3)"
    and "parseSenderKeyMessage W c = Inr (m, sb)" "parseDistributionMessage P W d = Inr dm"
    and "gm_distributionID m = dm_distributionID dm" "gm_keyID m = dm_keyID dm"
  shows "\<exists>r4. Cipher_Decrypt P W S name c r3 = (Inr p, r4)"
proof -
  obtain rec1 rest1 where r1: "Cipher_loadRecord S name r1 = Inr rec1" "gr_states rec1 = distributed dm # rest1"
    using assms(1,5) by (cases rule: Process_record [of P W name d r0 r1]) auto
  obtain rec3 rest3 where r3: "Cipher_loadRecord S name r3 = Inr rec3" "gr_states rec3 = distributed dm # rest3"
    using assms(3,5) by (cases rule: Process_record [of P W name d r2 r3]) auto
  have same: "same_key (gm_distributionID m) (gm_keyID m) (distributed dm)"
    using assms(6,7) by (simp add: same_key_def distributed_def)
  obtain rec where "open_group P W c (Inr rec1) = Inr (p, rec)"
    using assms(2) r1(1) by (cases rule: Decrypt_eq [of P W c name r1]) auto
  then have "\<exists>rec'. open_group P W c (Inr rec3) = Inr (p, rec')"
    using assms(4) same r1(2) r3(2) by (auto simp: open_group_def Let_def split: if_splits sum.splits prod.splits)
  then show ?thesis
    using r3(1) by (cases rule: Decrypt_eq [of P W c name r3]) auto
qed

end

section \<open>An example\<close>

definition ex_name :: SenderKeyName where
  "ex_name = SenderKeyName ''group'' (Address ''alice'' 1)"

definition ex_rnd :: "bytes res \<times> bytes res \<times> bytes res \<times> bytes res" where
  "ex_rnd = (Inr [1, 2, 3, 4], Inr (replicate 16 5), Inr (replicate 32 6), Inr (replicate 32 4))"

lemma newSendingState_toy: "\<exists>st. newSendingState toy ex_rnd = Inr st \<and> gs_chainIteration st = 0"
  using toy_GenerateKeyPair [of "replicate 32 4"]
  by (auto simp: newSendingState_def ex_rnd_def generateSenderKeyID_def generateSenderKeySeed_def
      generateDistributionID_def generateSigningKey_def RandomBytes_def)

lemma NewStore_load: "Cipher_loadRecord (mem_store pick) name (NewStore i n) = Inr (NewRecord 0)"
  by (simp add: Cipher_loadRecord_def mem_store_def mem_LoadSenderKey_def NewStore_def)

text \<open>A group with one message on its way, which the receiver is about to get as its first.\<close>

lemma example_group:
  obtains d r0 s r c where "group_run toy leb (mem_store pick) ex_name ex_name s (Some r) [(p, c)]"
    "group_window leb (mem_store pick) ex_name c r = (0, [])" "message_number leb c = 0"
    "Builder_Process toy leb (mem_store pick) ex_name d r0 = (Inr (), r)"
    "\<exists>m sb dm. parseSenderKeyMessage leb c = Inr (m, sb) \<and> parseDistributionMessage toy leb d = Inr dm \<and>
       gm_distributionID m = dm_distributionID dm \<and> gm_keyID m = dm_keyID dm"
    "\<And>name. Cipher_loadRecord (mem_store pick) name r0 = Inr (NewRecord 0)"
proof -
  let ?S = "mem_store pick"
  obtain st where st: "newSendingState toy ex_rnd = Inr st" "gs_chainIteration st = 0" using newSendingState_toy by blast
  let ?d = "distributionMessage_serialize leb (distribution_of st)" and ?new = "NewStore None 7"
  have sends: "sends toy (joined_key st) st" using st(1) by (rule newSendingState_sends)
  then have key: "wire_key toy (gs_signingPublic st)"
    using toy_dh_valid by (auto simp: sends_def wire_key_def senderState_ok_def dh_valid_def)
  have empty: "Record_isEmpty (NewRecord 0)" by (simp add: Record_isEmpty_def NewRecord_def)
  obtain s1 where s1: "Builder_Create toy leb ?S ex_name ex_rnd ?new = (Inr ?d, s1)" "sender_state ?S ex_name s1 = Some st"
    using mem.Create_total [OF NewStore_load empty st(1)] by blast
  then have run1: "group_run toy leb ?S ex_name ex_name s1 None []"
    using NewStore_load empty by (intro group_run.create)
  obtain rec where "Cipher_loadRecord ?S ex_name s1 = Inr rec" "\<not> Record_isEmpty rec" "st = gr_states rec ! 0" "gs_hasPrivate st"
    using s1(2) sends by (auto simp: sender_state_def sends_def split: sum.splits if_splits)
  then have again: "Builder_Create toy leb ?S ex_name ex_rnd s1 = (Inr ?d, s1)"
    by (simp add: Builder_Create_def Builder_is_Cipher Record_current_def Record_isEmpty_def)
  obtain r where r: "Builder_Process toy leb ?S ex_name ?d ?new = (Inr (), r)"
    using mem.Process_total [OF leb_ok sends key NewStore_load] by blast
  have run2: "group_run toy leb ?S ex_name ex_name s1 (Some r) []"
    using run1 again r by (rule group_run.join)
  have "gs_chainIteration st \<noteq> MaxUint32" using st(2) by (simp add: MaxUint32_def)
  then obtain c s2 where c: "Cipher_Encrypt toy leb ?S ex_name (Inr []) p s1 = (Inr c, s2)"
    using mem.Encrypt_total [OF s1(2) sends] generation_total(1) by metis
  have run3: "group_run toy leb ?S ex_name ex_name s2 (Some r) [(p, c)]"
    using run2 c by (rule group_run.send)
  have "group_message toy leb (joined_key st) (gs_chainIteration st) p c"
    using mem.Encrypt_sends [OF toy_ed_ok s1(2) sends c] by metis
  then obtain m sb where m: "parseSenderKeyMessage leb c = Inr (m, sb)" "gm_distributionID m = gs_distributionID st"
    "gm_keyID m = gs_keyID st" "gm_iteration m = 0"
    by (rule group_message_parse [OF leb_ok]) (simp add: joined_key_def st(2))
  have "parseDistributionMessage toy leb ?d = Inr (distribution_of st)"
    using sends key by (intro parseDistributionMessage_serialize [OF leb_ok]) (auto simp: distribution_of_def sends_def senderState_ok_def)
  then show ?thesis
    using run3 r m mem.Process_receives [OF leb_ok sends r] st(2) NewStore_load
    by (intro that [of s2 r c ?d ?new]) (auto simp: group_window_def message_number_def distribution_of_def)
qed

section \<open>The theorems\<close>

text \<open>
  C26: Group messages arrive in any order, with gaps and repetitions: when the receiver decrypts a message
  that the sender has sent since the receiver joined, the outcome is that of the window over message
  numbers.  A number the window accepts gives the plaintext that was sent and moves the window; else
  the error of the window is returned and the store is unchanged.  In between, any other bytes may
  have been given to the receiver.
\<close>

theorem group_refines_window:
  assumes "sender_key_store S" "pw_ok W" "prims_ok P" "ed_ok P"
    and "group_run P W S sn rn s (Some r) sent" "(p, c) \<in> set sent"
  shows "case win_recv (message_number W c) (group_window W S rn c r) of
      (Inl e, _) \<Rightarrow> Cipher_Decrypt P W S rn c r = (Inl e, r)
    | (Inr _, w) \<Rightarrow> \<exists>r'. Cipher_Decrypt P W S rn c r = (Inr p, r') \<and> group_window W S rn c r' = w"
proof -
  obtain g i st where "group_message P W g i p c" "receiver_state S rn (gk_dist g) (gk_id g) r = Some st" "receives P g st"
    using sender_key_store.group_run_inv [OF assms(1,2,4,5)] assms(6) by (fastforce simp: group_inv_def)
  with assms(1-3) show ?thesis by (intro sender_key_store.group_message_window)
qed

theorem group_refines_window_witness:
  "\<exists>s r c r'. group_run toy leb (mem_store (\<lambda>_. Address [] 0)) ex_name ex_name s (Some r) [([1, 2, 3], c)] \<and>
     Cipher_Decrypt toy leb (mem_store (\<lambda>_. Address [] 0)) ex_name c r = (Inr [1, 2, 3], r') \<and>
     group_window leb (mem_store (\<lambda>_. Address [] 0)) ex_name c r' = (1, [])"
proof -
  let ?S = "mem_store (\<lambda>_. Address [] 0)"
  obtain s r c where e: "group_run toy leb ?S ex_name ex_name s (Some r) [([1, 2, 3], c)]"
    "group_window leb ?S ex_name c r = (0, [])" "message_number leb c = 0"
    by (rule example_group [of "\<lambda>_. Address [] 0" "[1, 2, 3]"])
  from group_refines_window [OF mem.sender_key_store_axioms leb_ok toy_prims_ok toy_ed_ok e(1), of "[1, 2, 3]" c] e
  show ?thesis by (auto simp: win_recv_def unat_MaxUint32)
qed

text \<open>
  C27: A group message is opened at most once: after the receiver has decrypted a message of the group,
  decrypting it again fails as a duplicate, whatever was given to \<open>Decrypt\<close> in between.
\<close>

theorem group_no_replay:
  assumes "sender_key_store S" "pw_ok W" "prims_ok P" "ed_ok P"
    and "group_run P W S sn rn s (Some r) sent" "(p, c) \<in> set sent" "Cipher_Decrypt P W S rn c r = (Inr q, r')"
  shows "q = p \<and> Cipher_Decrypt P W S rn c (group_decrypts P W S rn cs r') =
    (Inl ErrDuplicateMessage, group_decrypts P W S rn cs r')"
proof -
  obtain g i st where g: "group_message P W g i p c" "receiver_state S rn (gk_dist g) (gk_id g) r = Some st" "receives P g st"
    using sender_key_store.group_run_inv [OF assms(1,2,4,5)] assms(6) by (fastforce simp: group_inv_def)
  obtain x st' where x: "getSenderMessageKey P i st = (x, st')" by fastforce
  then obtain mk where mk: "x = Inr mk" "receiver_state S rn (gk_dist g) (gk_id g) r' = Some st'" "q = p"
    using sender_key_store.Decrypt_group_message [OF assms(1-3) g] assms(7) by (cases x) auto
  have f: "sender_follows P (gk_start g) (gk_seed g) st" using g(3) by (simp add: receives_def)
  have "win_recv (unat i) (win_of st) = (Inr (unat (smk_iteration mk)), win_of st')"
    using getSenderMessageKey_window [of i st P] x mk(1) by simp
  then have closed: "unat i \<in> win_closed (win_of st')"
    using f by (intro win_recv_ok(3)) (simp_all add: sender_follows_def)
  have "receives P g st'"
    using g(3) getSenderMessageKey_follows [OF f x [unfolded mk(1)]] gs_frameD [of st' st] by (simp add: receives_def)
  from sender_key_store.group_decrypts_receives [OF assms(1) mk(2) this, of W cs] closed mk(3) show ?thesis
    using sender_key_store.group_closed_rejected [OF assms(1-3) g(1)] by blast
qed

theorem group_no_replay_witness:
  "\<exists>s r c r'. group_run toy leb (mem_store (\<lambda>_. Address [] 0)) ex_name ex_name s (Some r) [([1, 2, 3], c)] \<and>
     Cipher_Decrypt toy leb (mem_store (\<lambda>_. Address [] 0)) ex_name c r = (Inr [1, 2, 3], r') \<and>
     Cipher_Decrypt toy leb (mem_store (\<lambda>_. Address [] 0)) ex_name c r' = (Inl ErrDuplicateMessage, r')"
proof -
  let ?S = "mem_store (\<lambda>_. Address [] 0)"
  obtain s r c where e: "group_run toy leb ?S ex_name ex_name s (Some r) [([1, 2, 3], c)]"
    "group_window leb ?S ex_name c r = (0, [])" "message_number leb c = 0"
    by (rule example_group [of "\<lambda>_. Address [] 0" "[1, 2, 3]"])
  obtain g i st where g: "group_message toy leb g i [1, 2, 3] c"
    "receiver_state ?S ex_name (gk_dist g) (gk_id g) r = Some st" "receives toy g st"
    using mem.group_run_inv [OF leb_ok toy_ed_ok e(1)] by (fastforce simp: group_inv_def)
  obtain r' where "Cipher_Decrypt toy leb ?S ex_name c r = (Inr [1, 2, 3], r')"
    using mem.group_message_window [OF leb_ok toy_prims_ok g] e(2,3) by (auto simp: win_recv_def unat_MaxUint32)
  with group_no_replay [OF mem.sender_key_store_axioms leb_ok toy_prims_ok toy_ed_ok e(1), of "[1, 2, 3]" c _ r' "[]"] e(1)
  show ?thesis by (auto simp: group_decrypts_def)
qed

text \<open>
  C31: Processing the same distribution message a second time undoes the protection against replay: a
  message that was opened is opened again, because \<open>Process\<close> replaces the state of the distribution by
  a fresh one.
\<close>

theorem group_Process_rewinds:
  assumes "sender_key_store S"
    and "Builder_Process P W S name d r0 = (Inr (), r1)" "Cipher_Decrypt P W S name c r1 = (Inr p, r2)"
    and "Builder_Process P W S name d r2 = (Inr (), r3)"
    and "parseSenderKeyMessage W c = Inr (m, sb)" "parseDistributionMessage P W d = Inr dm"
    and "gm_distributionID m = dm_distributionID dm" "gm_keyID m = dm_keyID dm"
  shows "\<exists>r4. Cipher_Decrypt P W S name c r3 = (Inr p, r4)"
  using sender_key_store.Process_rewinds [OF assms] .

theorem group_Process_rewinds_witness:
  "\<exists>d r0 r1 c r2 r3 r4. Builder_Process toy leb (mem_store (\<lambda>_. Address [] 0)) ex_name d r0 = (Inr (), r1) \<and>
     Cipher_Decrypt toy leb (mem_store (\<lambda>_. Address [] 0)) ex_name c r1 = (Inr [1, 2, 3], r2) \<and>
     Builder_Process toy leb (mem_store (\<lambda>_. Address [] 0)) ex_name d r2 = (Inr (), r3) \<and>
     Cipher_Decrypt toy leb (mem_store (\<lambda>_. Address [] 0)) ex_name c r3 = (Inr [1, 2, 3], r4)"
proof -
  let ?S = "mem_store (\<lambda>_. Address [] 0)"
  obtain d r0 s r1 c where e: "group_run toy leb ?S ex_name ex_name s (Some r1) [([1, 2, 3], c)]"
    "group_window leb ?S ex_name c r1 = (0, [])" "message_number leb c = 0"
    "Builder_Process toy leb ?S ex_name d r0 = (Inr (), r1)"
    "\<exists>m sb dm. parseSenderKeyMessage leb c = Inr (m, sb) \<and> parseDistributionMessage toy leb d = Inr dm \<and>
       gm_distributionID m = dm_distributionID dm \<and> gm_keyID m = dm_keyID dm"
    by (rule example_group [of "\<lambda>_. Address [] 0" "[1, 2, 3]"])
  then obtain m sb dm where m: "parseSenderKeyMessage leb c = Inr (m, sb)" "parseDistributionMessage toy leb d = Inr dm"
    "gm_distributionID m = dm_distributionID dm" "gm_keyID m = dm_keyID dm" by blast
  obtain g i st where g: "group_message toy leb g i [1, 2, 3] c"
    "receiver_state ?S ex_name (gk_dist g) (gk_id g) r1 = Some st" "receives toy g st"
    using mem.group_run_inv [OF leb_ok toy_ed_ok e(1)] by (fastforce simp: group_inv_def)
  obtain r2 where r2: "Cipher_Decrypt toy leb ?S ex_name c r1 = (Inr [1, 2, 3], r2)"
    using mem.group_message_window [OF leb_ok toy_prims_ok g] e(2,3) by (auto simp: win_recv_def unat_MaxUint32)
  obtain rec where rec: "Cipher_loadRecord ?S ex_name r2 = Inr rec"
    using mem.Decrypt_receives [OF g(2,3) r2] by (auto elim: receiver_state_Some)
  have "SenderRecord_ok (Record_setState (distributed dm) rec)"
    using load_ok [OF rec] parseDistributionMessage_ok [OF m(2)] by (rule Record_setState_ok)
  then obtain r3 where "Cipher_persistRecord ?S ex_name (Record_setState (distributed dm) rec) r2 = (Inr (), r3)"
    by (rule mem.persist)
  then have r3: "Builder_Process toy leb ?S ex_name d r2 = (Inr (), r3)"
    by (simp add: Builder_Process_def Builder_is_Cipher m(2) rec distributed_def)
  from group_Process_rewinds [OF mem.sender_key_store_axioms e(4) r2 r3 m] e(4) r2 r3 show ?thesis by blast
qed

end
