(* ===== verification/SPQR_Field.thy ===== *)
theory SPQR_Field
  imports Prelude
begin

text \<open>
  The arithmetic of \<^verbatim>\<open>spqr/encoding_gf.go\<close>: 16-bit words with carry-less multiplication modulo
  \<open>x^16 + x^12 + x^3 + x + 1\<close>.  The type is shown to be a field, with the operations of the code as the
  operations of the class, so that the lemmas on fields apply to the erasure code.
\<close>

section \<open>The operations (encoding\_gf.go)\<close>

definition gf16Poly :: u32 where "gf16Poly = 0x1100b"

datatype gf16 = GF (gf_word: u16)

definition gf16_add :: "gf16 \<Rightarrow> gf16 \<Rightarrow> gf16" where
  "gf16_add a b = GF (gf_word a XOR gf_word b)"

definition gf16_sub :: "gf16 \<Rightarrow> gf16 \<Rightarrow> gf16" where
  "gf16_sub a b = GF (gf_word a XOR gf_word b)"

definition gf16Mul :: "u16 \<Rightarrow> u16 \<Rightarrow> u32" where
  "gf16Mul a b =
     (let aa = ucast a :: u32; bb = ucast b :: u32 in
      fold (\<lambda>i acc. if drop_bit i bb AND 1 = 1 then acc XOR push_bit i aa else acc) [0..<16] 0)"

definition gf16Reduce :: "u32 \<Rightarrow> u16" where
  "gf16Reduce v =
     ucast (fold (\<lambda>i v. if drop_bit i v AND 1 = 1 then v XOR push_bit (i - 16) gf16Poly else v) (rev [16..<32]) v)"

definition gf16_mul :: "gf16 \<Rightarrow> gf16 \<Rightarrow> gf16" where
  "gf16_mul a b = GF (gf16Reduce (gf16Mul (gf_word a) (gf_word b)))"

text \<open>The loop of \<^verbatim>\<open>gf16Pow\<close>, with its variables as arguments.\<close>

function gf16Pow_loop :: "gf16 \<Rightarrow> gf16 \<Rightarrow> u32 \<Rightarrow> gf16" where
  "gf16Pow_loop result base e =
     (if e > 0 then gf16Pow_loop (if e AND 1 = 1 then gf16_mul result base else result) (gf16_mul base base) (drop_bit 1 e)
      else result)"
  by pat_completeness auto
termination
  by (relation "measure (\<lambda>(r, b, e). unat e)")
    (auto simp: unat_drop_bit_eq drop_bit_eq_div word_less_nat_alt unat_div)

definition gf16Pow :: "gf16 \<Rightarrow> u32 \<Rightarrow> gf16" where
  "gf16Pow a e = gf16Pow_loop (GF 1) a e"

definition gf16_div :: "gf16 \<Rightarrow> gf16 \<Rightarrow> gf16" where
  "gf16_div a b = (if b = GF 0 then GF 0 else gf16_mul a (gf16Pow b 65534))"

declare gf16Pow_loop.simps [simp del]

section \<open>Addition\<close>

instantiation gf16 :: ab_group_add
begin

definition zero_gf16 :: gf16 where "zero_gf16 = GF 0"
definition plus_gf16 :: "gf16 \<Rightarrow> gf16 \<Rightarrow> gf16" where "plus_gf16 = gf16_add"
definition minus_gf16 :: "gf16 \<Rightarrow> gf16 \<Rightarrow> gf16" where "minus_gf16 = gf16_sub"
definition uminus_gf16 :: "gf16 \<Rightarrow> gf16" where "uminus_gf16 a = a"

instance
  by standard (simp_all add: zero_gf16_def plus_gf16_def minus_gf16_def uminus_gf16_def gf16_add_def gf16_sub_def ac_simps)

end

lemma gf_add: "GF a + GF b = GF (a XOR b)"
  by (simp add: plus_gf16_def gf16_add_def)

lemma gf_double [simp]: "(a :: gf16) + a = 0"
  by (cases a) (simp add: gf_add zero_gf16_def)

lemma gf_minus: "(a :: gf16) - b = a + b"
  by (simp add: minus_gf16_def plus_gf16_def gf16_sub_def gf16_add_def)

text \<open>Additive maps are determined by their values on the powers of two.\<close>

definition additive_gf :: "(gf16 \<Rightarrow> gf16) \<Rightarrow> bool" where
  "additive_gf f \<longleftrightarrow> (\<forall>a b. f (a + b) = f a + f b)"

definition unit_gf :: "nat \<Rightarrow> gf16" where
  "unit_gf i = GF (push_bit i 1)"

lemma additive_gf_0: "additive_gf f \<Longrightarrow> f 0 = 0"
  unfolding additive_gf_def by (metis add_cancel_right_right)

lemma additive_gf_sum: "finite I \<Longrightarrow> additive_gf f \<Longrightarrow> f (\<Sum>i\<in>I. g i) = (\<Sum>i\<in>I. f (g i))"
  by (induction I rule: finite_induct) (simp_all add: additive_gf_0, simp add: additive_gf_def)

lemma gf_sum_word: "finite I \<Longrightarrow> bit (gf_word (\<Sum>i\<in>I. if bit v i then unit_gf i else 0)) n \<longleftrightarrow> n \<in> I \<and> n < 16 \<and> bit (v :: u16) n"
  by (induction I rule: finite_induct)
    (auto simp: zero_gf16_def plus_gf16_def gf16_add_def unit_gf_def bit_simps)

lemma gf_expand: "a = (\<Sum>i<16. if bit (gf_word a) i then unit_gf i else 0)"
proof (cases a)
  case (GF v)
  have "v = gf_word (\<Sum>i<16. if bit v i then unit_gf i else 0)"
    by (rule bit_word_eqI) (simp add: gf_sum_word)
  then show ?thesis by (simp add: GF) (metis gf16.collapse)
qed

lemma additive_gf_ext:
  assumes "additive_gf f" "additive_gf g" "\<And>i. i < 16 \<Longrightarrow> f (unit_gf i) = g (unit_gf i)"
  shows "f a = g a"
proof -
  have "f a = (\<Sum>i<16. f (if bit (gf_word a) i then unit_gf i else 0))"
    by (subst gf_expand) (simp add: additive_gf_sum [OF _ assms(1)])
  also have "\<dots> = (\<Sum>i<16. g (if bit (gf_word a) i then unit_gf i else 0))"
    using assms(3) by (intro sum.cong) (simp_all add: additive_gf_0 [OF assms(1)] additive_gf_0 [OF assms(2)])
  also have "\<dots> = g a"
    by (subst (3) gf_expand) (simp add: additive_gf_sum [OF _ assms(2)])
  finally show ?thesis .
qed

section \<open>Multiplication\<close>

definition gf_x :: "u16 \<Rightarrow> u16" where
  "gf_x a = push_bit 1 a XOR (if bit a 15 then 0x100b else 0)"

text \<open>The powers of \<open>x\<close>.\<close>

definition gf_pow_x :: "nat \<Rightarrow> gf16" where
  "gf_pow_x n = GF ((gf_x ^^ n) 1)"

definition gf_shift :: "gf16 \<Rightarrow> gf16" where
  "gf_shift a = GF (gf_x (gf_word a))"

lemma gf_shift_pow: "gf_shift (gf_pow_x n) = gf_pow_x (Suc n)"
  by (simp add: gf_shift_def gf_pow_x_def)

lemma gf_shift_pows: "(gf_shift ^^ k) (gf_pow_x n) = gf_pow_x (n + k)"
  by (induction k) (simp_all add: gf_shift_pow)

lemma gf_shift_additive: "additive_gf gf_shift"
proof -
  have "gf_x (a XOR b) = gf_x a XOR gf_x b" for a b
    by (rule bit_word_eqI) (auto simp: gf_x_def bit_simps)
  then show ?thesis
    by (auto simp: additive_gf_def gf_shift_def plus_gf16_def gf16_add_def)
qed

lemma funpow_additive: "additive_gf f \<Longrightarrow> additive_gf (f ^^ k)"
  by (induction k) (simp_all add: additive_gf_def)

text \<open>The carry-less product and the reduction are additive.\<close>

lemma code_bit: "drop_bit i (w :: u32) AND 1 = 1 \<longleftrightarrow> bit w i"
  by (simp add: bit_iff_odd_drop_bit and_one_eq mod_2_eq_odd)

lemma gf16Mul_fold:
  "fold (\<lambda>i acc. if bit b i then acc XOR push_bit i a else acc) xs z =
     z XOR foldr (\<lambda>i acc. (if bit b i then push_bit i a else 0) XOR acc) xs (0 :: u32)"
  by (induction xs arbitrary: z) (auto simp: xor.assoc)

lemma gf16Mul_foldr:
  "gf16Mul a b = foldr (\<lambda>i acc. (if bit b i then push_bit i (ucast a) else 0) XOR acc) [0..<16] 0"
  unfolding gf16Mul_def Let_def code_bit gf16Mul_fold
  by (simp only: xor.left_neutral, rule foldr_cong) (simp_all add: bit_simps del: upt_Suc)

lemma foldr_xor_add:
  "foldr (\<lambda>i acc. (f i XOR g i) XOR acc) xs (0 :: u32) =
     foldr (\<lambda>i acc. f i XOR acc) xs 0 XOR foldr (\<lambda>i acc. g i XOR acc) xs 0"
  by (induction xs) (simp_all add: ac_simps)

lemma foldr_xor_last: "foldr (\<lambda>i acc. f i XOR acc) (xs @ [x]) (0 :: u32) = foldr (\<lambda>i acc. f i XOR acc) xs 0 XOR f x"
  by (induction xs) (simp_all add: ac_simps)

lemma gf16Mul_add:
  "gf16Mul (a XOR a') b = gf16Mul a b XOR gf16Mul a' b"
  "gf16Mul a (b XOR b') = gf16Mul a b XOR gf16Mul a b'"
proof -
  have f: "(if bit b i then push_bit i (ucast (a XOR a')) else 0) =
      (if bit b i then push_bit i (ucast a) else 0) XOR (if bit b i then push_bit i (ucast a') else (0 :: u32))" for i
    by (rule bit_word_eqI) (auto simp: bit_simps)
  have g: "(if bit (b XOR b') i then push_bit i (ucast a) else 0) =
      (if bit b i then push_bit i (ucast a) else 0) XOR (if bit b' i then push_bit i (ucast a) else (0 :: u32))" for i
    by (auto simp: bit_simps)
  show "gf16Mul (a XOR a') b = gf16Mul a b XOR gf16Mul a' b" unfolding gf16Mul_foldr f foldr_xor_add ..
  show "gf16Mul a (b XOR b') = gf16Mul a b XOR gf16Mul a b'" unfolding gf16Mul_foldr g foldr_xor_add ..
qed

lemma gf16Reduce_fold_add:
  fixes v w :: u32
  shows "fold (\<lambda>i v. if bit v i then v XOR push_bit (i - 16) gf16Poly else v) xs (v XOR w) =
     fold (\<lambda>i v. if bit v i then v XOR push_bit (i - 16) gf16Poly else v) xs v XOR
     fold (\<lambda>i v. if bit v i then v XOR push_bit (i - 16) gf16Poly else v) xs w"
proof (induction xs arbitrary: v w)
  case (Cons i xs)
  let ?s = "\<lambda>v. if bit v i then v XOR push_bit (i - 16) gf16Poly else v"
  have "?s (v XOR w) = ?s v XOR ?s w" by (auto simp: bit_simps ac_simps)
  then show ?case by (simp only: fold_simps Cons.IH)
qed simp

lemma gf16Reduce_add: "gf16Reduce (v XOR w) = gf16Reduce v XOR gf16Reduce w"
  unfolding gf16Reduce_def code_bit gf16Reduce_fold_add by (rule unsigned_xor_eq)

lemma gf16_mul_additive: "additive_gf (\<lambda>a. gf16_mul a b)" "additive_gf (gf16_mul a)"
  by (simp_all add: additive_gf_def gf16_mul_def plus_gf16_def gf16_add_def gf16Mul_add gf16Reduce_add)

text \<open>On powers of two, the product is a power of \<open>x\<close>: thirty-one values to compute.\<close>

lemma gf16Mul_unit:
  assumes "i < 16" "j < 16"
  shows "gf16Mul (push_bit i 1) (push_bit j 1) = push_bit (i + j) 1"
proof -
  have one: "foldr (\<lambda>k acc. (if k = j then v else 0) XOR acc) [0..<n] 0 = (if j < n then v else (0 :: u32))" for v n
    by (induction n) (auto simp: less_Suc_eq foldr_xor_last simp del: foldr_append)
  have "(if bit (push_bit j 1 :: u16) k then push_bit k (ucast (push_bit i 1 :: u16)) else 0) =
      (if k = j then push_bit (i + j) 1 else (0 :: u32))" if "k < 16" for k
    using assms by (auto simp: bit_simps intro!: bit_word_eqI)
  then have "gf16Mul (push_bit i 1) (push_bit j 1) = foldr (\<lambda>k acc. (if k = j then push_bit (i + j) 1 else 0) XOR acc) [0..<16] 0"
    unfolding gf16Mul_foldr by (intro foldr_cong) (simp_all del: push_bit_of_1)
  then show ?thesis using assms(2) unfolding one by (simp del: push_bit_of_1)
qed

lemma upt_16_32: "rev [16..<32] = [31, 30, 29, 28, 27, 26, 25, 24, 23, 22, 21, 20, 19, 18, 17, 16]"
  by (simp add: upt_rec)

lemma gf16Reduce_values:
  "gf16Reduce 1 = 1"
  "gf16Reduce 2 = 2" "gf16Reduce 4 = 4" "gf16Reduce 8 = 8" "gf16Reduce 16 = 16"
  "gf16Reduce 32 = 32" "gf16Reduce 64 = 64" "gf16Reduce 128 = 128" "gf16Reduce 256 = 256"
  "gf16Reduce 512 = 512" "gf16Reduce 1024 = 1024" "gf16Reduce 2048 = 2048" "gf16Reduce 4096 = 4096"
  "gf16Reduce 8192 = 8192" "gf16Reduce 16384 = 16384" "gf16Reduce 32768 = 32768" "gf16Reduce 65536 = 4107"
  "gf16Reduce 131072 = 8214" "gf16Reduce 262144 = 16428" "gf16Reduce 524288 = 32856" "gf16Reduce 1048576 = 4283"
  "gf16Reduce 2097152 = 8566" "gf16Reduce 4194304 = 17132" "gf16Reduce 8388608 = 34264" "gf16Reduce 16777216 = 7099"
  "gf16Reduce 33554432 = 14198" "gf16Reduce 67108864 = 28396" "gf16Reduce 134217728 = 56792" "gf16Reduce 268435456 = 43963"
  "gf16Reduce 536870912 = 18301" "gf16Reduce 1073741824 = 36602"
  unfolding gf16Reduce_def upt_16_32 gf16Poly_def code_bit by simp_all

lemma gf_x_values:
  "gf_x 1 = 2" "gf_x 2 = 4" "gf_x 4 = 8" "gf_x 8 = 16" "gf_x 16 = 32"
  "gf_x 32 = 64" "gf_x 64 = 128" "gf_x 128 = 256" "gf_x 256 = 512" "gf_x 512 = 1024"
  "gf_x 1024 = 2048" "gf_x 2048 = 4096" "gf_x 4096 = 8192" "gf_x 8192 = 16384" "gf_x 16384 = 32768"
  "gf_x 32768 = 4107" "gf_x 4107 = 8214" "gf_x 8214 = 16428" "gf_x 16428 = 32856" "gf_x 32856 = 4283"
  "gf_x 4283 = 8566" "gf_x 8566 = 17132" "gf_x 17132 = 34264" "gf_x 34264 = 7099" "gf_x 7099 = 14198"
  "gf_x 14198 = 28396" "gf_x 28396 = 56792" "gf_x 56792 = 43963" "gf_x 43963 = 18301" "gf_x 18301 = 36602"
  by (simp_all add: gf_x_def)

lemma gf16Reduce_step: "n < 30 \<Longrightarrow> gf16Reduce (push_bit (Suc n) 1) = gf_x (gf16Reduce (push_bit n 1))"
proof -
  have "[0..<30] = [0, 1, 2, 3, 4, 5, 6, 7, 8, 9, 10, 11, 12, 13, 14, 15, 16, 17, 18, 19, 20, 21, 22, 23, 24, 25, 26, 27, 28, 29]"
    by (simp add: upt_rec)
  then have "\<forall>n \<in> set [0..<30]. gf16Reduce (push_bit (Suc n) 1) = gf_x (gf16Reduce (push_bit n 1))"
    by (simp only: list.set ball_simps) (simp add: gf16Reduce_values gf_x_values)
  then show "n < 30 \<Longrightarrow> ?thesis" by simp
qed

lemma gf16Reduce_unit: "n < 31 \<Longrightarrow> gf16Reduce (push_bit n 1) = (gf_x ^^ n) 1"
  by (induction n) (simp_all add: gf16Reduce_values gf16Reduce_step del: push_bit_of_1 push_bit_Suc)

lemma unit_is_pow: "i < 16 \<Longrightarrow> unit_gf i = gf_pow_x i"
proof -
  have "gf16Reduce (push_bit i 1) = push_bit i 1" if "i < 16" for i
  proof -
    have "[0..<16] = [0, 1, 2, 3, 4, 5, 6, 7, 8, 9, 10, 11, 12, 13, 14, 15]" by (simp add: upt_rec)
    then have "\<forall>i \<in> set [0..<16]. gf16Reduce (push_bit i 1) = push_bit i 1"
      by (simp only: list.set ball_simps) (simp add: gf16Reduce_values)
    with that show ?thesis by simp
  qed
  then show "i < 16 \<Longrightarrow> unit_gf i = gf_pow_x i" using gf16Reduce_unit [of i] by (simp add: unit_gf_def gf_pow_x_def)
qed

lemma gf16_mul_unit: "i < 16 \<Longrightarrow> j < 16 \<Longrightarrow> gf16_mul (unit_gf i) (unit_gf j) = gf_pow_x (i + j)"
  by (simp add: gf16_mul_def unit_gf_def gf16Mul_unit gf16Reduce_unit gf_pow_x_def del: push_bit_of_1)

lemma gf16_mul_shift: "k < 16 \<Longrightarrow> gf16_mul a (unit_gf k) = (gf_shift ^^ k) a"
  by (rule additive_gf_ext [OF gf16_mul_additive(1) funpow_additive [OF gf_shift_additive]])
    (simp add: gf16_mul_unit, simp add: unit_is_pow gf_shift_pows)

lemma gf16_mul_commute: "gf16_mul a b = gf16_mul b a"
proof (rule additive_gf_ext [OF gf16_mul_additive(1) gf16_mul_additive(2)])
  fix i :: nat assume i: "i < 16"
  show "gf16_mul (unit_gf i) b = gf16_mul b (unit_gf i)"
    by (rule additive_gf_ext [OF gf16_mul_additive(2) gf16_mul_additive(1)]) (simp add: gf16_mul_unit i add.commute)
qed

lemma additive_comp: "additive_gf f \<Longrightarrow> additive_gf g \<Longrightarrow> additive_gf (\<lambda>x. f (g x))"
  by (simp add: additive_gf_def)

lemma gf16_mul_assoc: "gf16_mul (gf16_mul a b) c = gf16_mul a (gf16_mul b c)"
proof -
  have pow: "gf16_mul (gf_pow_x n) (unit_gf k) = gf_pow_x (n + k)" if "k < 16" for n k
    using that by (simp add: gf16_mul_shift gf_shift_pows)
  have units: "gf16_mul (gf16_mul (unit_gf i) (unit_gf j)) (unit_gf k) = gf16_mul (unit_gf i) (gf16_mul (unit_gf j) (unit_gf k))"
    if "i < 16" "j < 16" "k < 16" for i j k
    using that by (simp add: gf16_mul_unit pow gf16_mul_commute [of "unit_gf i"] ac_simps)
  note add = gf16_mul_additive additive_comp [OF gf16_mul_additive(1) gf16_mul_additive(1)]
    additive_comp [OF gf16_mul_additive(1) gf16_mul_additive(2)] additive_comp [OF gf16_mul_additive(2) gf16_mul_additive(1)]
    additive_comp [OF gf16_mul_additive(2) gf16_mul_additive(2)]
  have "gf16_mul (gf16_mul (unit_gf i) (unit_gf j)) c = gf16_mul (unit_gf i) (gf16_mul (unit_gf j) c)" if "i < 16" "j < 16" for i j
    by (rule additive_gf_ext [of "gf16_mul (gf16_mul (unit_gf i) (unit_gf j))" "\<lambda>c. gf16_mul (unit_gf i) (gf16_mul (unit_gf j) c)"])
      (use add units that in auto)
  then have "gf16_mul (gf16_mul (unit_gf i) b) c = gf16_mul (unit_gf i) (gf16_mul b c)" if "i < 16" for i
    by (rule additive_gf_ext [of "\<lambda>b. gf16_mul (gf16_mul (unit_gf i) b) c" "\<lambda>b. gf16_mul (unit_gf i) (gf16_mul b c)", rotated 2])
      (use add that in auto)
  then show ?thesis
    by (rule additive_gf_ext [of "\<lambda>a. gf16_mul (gf16_mul a b) c" "\<lambda>a. gf16_mul a (gf16_mul b c)", rotated 2])
      (use add in auto)
qed

lemma gf16_mul_1: "gf16_mul a (GF 1) = a"
  using gf16_mul_shift [of 0 a] by (simp add: unit_gf_def)

instantiation gf16 :: comm_ring_1
begin

definition one_gf16 :: gf16 where "one_gf16 = GF 1"
definition times_gf16 :: "gf16 \<Rightarrow> gf16 \<Rightarrow> gf16" where "times_gf16 = gf16_mul"

instance
proof
  fix a b c :: gf16
  show "(a * b) * c = a * (b * c)" "1 * a = a" "(0 :: gf16) \<noteq> 1"
    by (simp_all add: times_gf16_def one_gf16_def zero_gf16_def gf16_mul_assoc gf16_mul_commute [of "GF 1"] gf16_mul_1)
  show "a * b = b * a" unfolding times_gf16_def by (rule gf16_mul_commute)
  show "(a + b) * c = a * c + b * c"
    using gf16_mul_additive(1) [of c] by (simp add: times_gf16_def additive_gf_def)
qed

end

section \<open>Division\<close>

lemma gf16Pow_loop_eq: "gf16Pow_loop r a e = r * a ^ unat e"
proof (induction r a e rule: gf16Pow_loop.induct)
  case (1 r a e)
  show ?case
  proof (cases "e > 0")
    case True
    have e: "unat e = 2 * (unat e div 2) + (if e AND 1 = 1 then 1 else 0)"
      by (simp add: and_one_eq word_unat_eq_iff unat_mod) presburger
    have "unat (drop_bit 1 e) = unat e div 2" by (simp add: drop_bit_eq_div unat_div)
    then have "gf16Pow_loop r a e = (if e AND 1 = 1 then r * a else r) * (a * a) ^ (unat e div 2)"
      using True 1 by (subst gf16Pow_loop.simps) (simp add: times_gf16_def)
    moreover have "a ^ unat e = (a * a) ^ (unat e div 2) * (if e AND 1 = 1 then a else 1)"
      by (subst e) (simp add: power_mult power2_eq_square power_add)
    ultimately show ?thesis by (simp add: ac_simps)
  next
    case False
    then show ?thesis by (subst gf16Pow_loop.simps) (simp add: word_gt_0)
  qed
qed

lemma gf16Pow_eq: "gf16Pow a e = a ^ unat e"
  by (simp add: gf16Pow_def gf16Pow_loop_eq one_gf16_def [symmetric])

text \<open>Squaring is additive, and sixteen squarings give an element back.\<close>

lemma gf_two [simp]: "(2 :: gf16) = 0"
  unfolding one_add_one [symmetric] by (rule gf_double)

lemma gf_square_additive: "additive_gf (\<lambda>a. a ^ 2 ^ n)"
proof (induction n)
  case (Suc n)
  have p: "a ^ 2 ^ Suc n = (a ^ 2 ^ n)\<^sup>2" for a :: gf16 by (simp add: power_mult [symmetric] mult.commute)
  have "(x + y)\<^sup>2 = x\<^sup>2 + y\<^sup>2" for x y :: gf16
    by (simp add: power2_eq_square algebra_simps)
  then show ?case
    using Suc unfolding additive_gf_def p by simp
qed (simp add: additive_gf_def)

lemma gf_pow_x_power: "gf_pow_x n = gf_pow_x 1 ^ n"
proof (induction n)
  case 0
  then show ?case by (simp add: gf_pow_x_def one_gf16_def)
next
  case (Suc n)
  have "gf_pow_x (Suc n) = gf16_mul (gf_pow_x n) (unit_gf 1)" by (simp add: gf16_mul_shift gf_shift_pow)
  then show ?case using Suc by (simp add: unit_is_pow times_gf16_def [symmetric] mult.commute)
qed

lemma upt_0_16: "[0..<16] = [0, 1, 2, 3, 4, 5, 6, 7, 8, 9, 10, 11, 12, 13, 14, 15]"
  by (simp add: upt_rec)

lemma gf16_squares:
  "gf16_mul (GF 2) (GF 2) = GF 4" "gf16_mul (GF 4) (GF 4) = GF 16" "gf16_mul (GF 16) (GF 16) = GF 256"
  "gf16_mul (GF 256) (GF 256) = GF 4107" "gf16_mul (GF 4107) (GF 4107) = GF 7166" "gf16_mul (GF 7166) (GF 7166) = GF 23588"
  "gf16_mul (GF 23588) (GF 23588) = GF 58951" "gf16_mul (GF 58951) (GF 58951) = GF 2863" "gf16_mul (GF 2863) (GF 2863) = GF 5790"
  "gf16_mul (GF 5790) (GF 5790) = GF 2680" "gf16_mul (GF 2680) (GF 2680) = GF 6016" "gf16_mul (GF 6016) (GF 6016) = GF 6951"
  "gf16_mul (GF 6951) (GF 6951) = GF 3429" "gf16_mul (GF 3429) (GF 3429) = GF 22093" "gf16_mul (GF 22093) (GF 22093) = GF 61638"
  "gf16_mul (GF 61638) (GF 61638) = GF 2"
  unfolding gf16_mul_def gf16Mul_def gf16Reduce_def upt_0_16 upt_16_32 gf16Poly_def code_bit Let_def by simp_all

lemma gf16_unit_squares:
  "gf16_mul (GF 1) (GF 1) = GF 1" "gf16_mul (GF 8) (GF 8) = GF 64"
  "gf16_mul (GF 32) (GF 32) = GF 1024" "gf16_mul (GF 64) (GF 64) = GF 4096" "gf16_mul (GF 128) (GF 128) = GF 16384"
  "gf16_mul (GF 512) (GF 512) = GF 16428" "gf16_mul (GF 1024) (GF 1024) = GF 4283" "gf16_mul (GF 2048) (GF 2048) = GF 17132"
  "gf16_mul (GF 4096) (GF 4096) = GF 7099" "gf16_mul (GF 8192) (GF 8192) = GF 28396" "gf16_mul (GF 16384) (GF 16384) = GF 43963"
  "gf16_mul (GF 32768) (GF 32768) = GF 36602"
  unfolding gf16_mul_def gf16Mul_def gf16Reduce_def upt_0_16 upt_16_32 gf16Poly_def code_bit Let_def by simp_all

text \<open>The order of the field: every element is a root of \<open>a^65536 - a\<close>.\<close>

lemma gf_frobenius: "N = 65536 \<Longrightarrow> (a :: gf16) ^ N = a"
proof -
  assume N: "N = 65536"
  have sq: "b\<^sup>2 = gf16_mul b b" for b by (simp add: power2_eq_square times_gf16_def)
  have "GF 2 ^ 65536 = ((((((((((((((((GF 2)\<^sup>2)\<^sup>2)\<^sup>2)\<^sup>2)\<^sup>2)\<^sup>2)\<^sup>2)\<^sup>2)\<^sup>2)\<^sup>2)\<^sup>2)\<^sup>2)\<^sup>2)\<^sup>2)\<^sup>2)\<^sup>2"
    by (simp add: power_mult [symmetric])
  then have "GF 2 ^ N = GF 2" unfolding N by (simp only: sq gf16_squares)
  moreover have "gf_pow_x 1 = GF 2" by (simp add: gf_pow_x_def gf_x_def)
  ultimately have pow: "gf_pow_x n ^ N = gf_pow_x n" for n
    unfolding gf_pow_x_power [of n] by (simp add: power_mult [symmetric] mult.commute [of n] del: One_nat_def) (simp add: power_mult)
  have "N = 2 ^ 16" by (simp add: N)
  then have "additive_gf (\<lambda>a. a ^ N)" using gf_square_additive [of 16] by (simp only:)
  moreover have "additive_gf (\<lambda>a. a)" by (simp add: additive_gf_def)
  ultimately show ?thesis
    by (rule additive_gf_ext [of "\<lambda>a. a ^ N" "\<lambda>a. a"]) (simp only: unit_is_pow pow)
qed

text \<open>
  An element that is its own square is 0 or 1: the additive map \<open>gf_half\<close> takes \<open>a^2 + a\<close> to \<open>a\<close> without
  its lowest bit.
\<close>

definition gf_half_table :: "u16 list" where
  "gf_half_table = [350, 42420, 42422, 7412, 42418, 10272, 7420, 1328, 42402, 38610, 10240, 5068, 7356, 0, 1456, 21936]"

definition gf_half :: "gf16 \<Rightarrow> gf16" where
  "gf_half a = sum_list (map (\<lambda>i. if bit (gf_word a) i then GF (gf_half_table ! i) else 0) [0..<16])"

definition gf_rest :: "gf16 \<Rightarrow> gf16" where
  "gf_rest a = GF (gf_word a AND 0xfffe)"

lemma gf_half_additive: "additive_gf gf_half"
proof -
  have "sum_list (map (\<lambda>i. if bit (v XOR w) i then f i else 0) xs) =
      sum_list (map (\<lambda>i. if bit v i then f i else 0) xs) + sum_list (map (\<lambda>i. if bit w i then f i else 0) xs)"
    for v w :: u16 and f :: "nat \<Rightarrow> gf16" and xs
    by (induction xs) (auto simp: bit_simps algebra_simps)
  then show ?thesis by (simp add: additive_gf_def gf_half_def plus_gf16_def gf16_add_def)
qed

lemma gf_half_square: "gf_half (a * a + a) = gf_rest a"
proof -
  have "\<forall>i \<in> set [0..<16]. gf_half (unit_gf i * unit_gf i + unit_gf i) = gf_rest (unit_gf i)"
    (is "\<forall>i \<in> _. ?P i") unfolding upt_0_16 list.set ball_simps
    by (simp add: times_gf16_def unit_gf_def gf16_squares gf16_unit_squares gf_add gf_half_def upt_0_16 gf_half_table_def gf_rest_def zero_gf16_def)
  then have units: "i < 16 \<Longrightarrow> ?P i" for i by (simp only: set_upt atLeastLessThan_iff) simp
  have rest: "additive_gf gf_rest"
    by (auto simp: additive_gf_def gf_rest_def plus_gf16_def gf16_add_def intro!: bit_word_eqI simp: bit_simps)
  have "additive_gf (\<lambda>a. gf_half (a * a + a))"
    using gf_half_additive gf_square_additive [of 1] by (simp add: additive_gf_def power2_eq_square add.assoc add.left_commute)
  from additive_gf_ext [OF this rest units] show ?thesis .
qed

lemma gf_idempotent:
  assumes "a * a = (a :: gf16)"
  shows "a = 0 \<or> a = 1"
proof -
  have "gf_rest a = 0"
    using gf_half_square [of a] additive_gf_0 [OF gf_half_additive] by (simp add: assms)
  then have "gf_word a AND 0xfffe = 0" by (simp add: gf_rest_def zero_gf16_def)
  moreover have "(0xfffe :: u16) = NOT 1" by simp
  ultimately have v: "gf_word a AND NOT 1 = 0" by simp
  have "gf_word a = of_bool (bit (gf_word a) 0)"
  proof (rule bit_word_eqI)
    fix n assume n: "n < LENGTH(16)"
    have "bit (gf_word a AND NOT 1) n = bit (0 :: u16) n" by (simp only: v)
    then have "n \<noteq> 0 \<Longrightarrow> \<not> bit (gf_word a) n" using n by (simp only: bit_simps) simp
    then show "bit (gf_word a) n = bit (of_bool (bit (gf_word a) 0) :: u16) n" by (cases n) (simp_all only: bit_of_bool_iff, simp_all)
  qed
  then consider "gf_word a = 0" | "gf_word a = 1" by (cases "bit (gf_word a) 0") (simp_all only: of_bool_eq)
  then show ?thesis by cases (cases a; simp add: zero_gf16_def one_gf16_def)+
qed

lemma gf_inverse: "(a :: gf16) \<noteq> 0 \<Longrightarrow> a * a ^ 65534 = 1"
proof -
  assume a: "a \<noteq> 0"
  define n :: nat where "n = 65534"
  have frob: "a ^ Suc (Suc n) = a" by (rule gf_frobenius) (simp add: n_def)
  let ?e = "a ^ Suc n"
  have "?e * ?e = a ^ Suc (Suc n) * a ^ n" by (simp only: power_Suc ac_simps)
  also have "\<dots> = ?e" by (simp only: frob) (simp only: power_Suc)
  finally have "?e * ?e = ?e" .
  then consider "?e = 0" | "?e = 1" using gf_idempotent by blast
  then have "?e = 1"
  proof cases
    case 1
    then have "a = 0" using frob by (simp only: power_Suc [of a "Suc n"] mult_zero_right)
    with a show ?thesis ..
  qed
  then show "a * a ^ 65534 = 1" by (simp only: n_def power_Suc)
qed

instantiation gf16 :: field
begin

definition inverse_gf16 :: "gf16 \<Rightarrow> gf16" where "inverse_gf16 a = gf16Pow a 65534"
definition divide_gf16 :: "gf16 \<Rightarrow> gf16 \<Rightarrow> gf16" where "divide_gf16 = gf16_div"

instance
proof
  fix a b :: gf16
  have inv: "inverse c = c ^ 65534" for c :: gf16 by (simp add: inverse_gf16_def gf16Pow_eq)
  show "a \<noteq> 0 \<Longrightarrow> inverse a * a = 1" unfolding inv by (subst mult.commute) (rule gf_inverse)
  show "inverse (0 :: gf16) = 0" unfolding inv by (simp add: power_0_left)
  then show "a div b = a * inverse b"
    by (simp add: divide_gf16_def gf16_div_def zero_gf16_def [symmetric] times_gf16_def [symmetric] inverse_gf16_def)
qed

end

text \<open>The operations of the code are those of the field.\<close>

lemmas gf16_ops = plus_gf16_def [symmetric] times_gf16_def [symmetric] divide_gf16_def [symmetric]
  zero_gf16_def [symmetric] one_gf16_def [symmetric]

section \<open>Properties\<close>

text \<open>
  C32: The arithmetic of \<open>encoding_gf.go\<close> is that of the field with \<open>2^16\<close> elements: the product is
  commutative, associative and distributes over the exclusive or, and \<open>div\<close> undoes \<open>mul\<close> for every
  divisor but 0.
\<close>

theorem gf16_is_field:
  "gf16_mul a b = gf16_mul b a \<and> gf16_mul (gf16_mul a b) c = gf16_mul a (gf16_mul b c) \<and>
   gf16_mul a (gf16_add b c) = gf16_add (gf16_mul a b) (gf16_mul a c) \<and> gf16_mul a (GF 1) = a \<and>
   gf16_div (gf16_mul a b) b = (if b = GF 0 then GF 0 else a) \<and>
   gf16_sub (gf16_add a b) b = a"
  unfolding gf16_ops by (simp add: algebra_simps minus_gf16_def [symmetric])

end
