(* ===== verification/SPQR_Poly.thy ===== *)
theory SPQR_Poly
  imports SPQR_Field Errors
begin

text \<open>
  Polynomials over \<open>gf16\<close> as coefficient lists (\<^verbatim>\<open>spqr/encoding_polynomial.go\<close>): evaluation, sum, product and
  Lagrange interpolation, with the facts that the interpolation meets its points and that a polynomial
  is determined by as many values as it has coefficients.
\<close>

section \<open>Polynomials (encoding\_polynomial.go)\<close>

definition poly_eval :: "gf16 list \<Rightarrow> gf16 \<Rightarrow> gf16" where
  "poly_eval coeffs x =
     (if coeffs = [] then GF 0
      else fold (\<lambda>c out. gf16_add (gf16_mul out x) c) (rev (butlast coeffs)) (last coeffs))"

definition polyAdd :: "gf16 list \<Rightarrow> gf16 list \<Rightarrow> gf16 list" where
  "polyAdd a b =
     (let (a, b) = (if length a < length b then (b, a) else (a, b)) in
      map2 gf16_add (take (length b) a) b @ drop (length b) a)"

definition polyMul :: "gf16 list \<Rightarrow> gf16 list \<Rightarrow> gf16 list" where
  "polyMul a b =
     (if a = [] \<or> b = [] then []
      else
        fold (\<lambda>i out.
          fold (\<lambda>j out. out[i + j := gf16_add (out ! (i + j)) (gf16_mul (a ! i) (b ! j))]) [0..<length b] out)
          [0..<length a] (replicate (length a + length b - 1) (GF 0)))"

definition polyScale :: "gf16 list \<Rightarrow> gf16 \<Rightarrow> gf16 list" where
  "polyScale a s = map (\<lambda>c. gf16_mul c s) a"

type_synonym point = "gf16 \<times> gf16"

definition lagrange_basis :: "point list \<Rightarrow> nat \<Rightarrow> gf16 list \<times> gf16" where
  "lagrange_basis points i =
     fold (\<lambda>j (basis, denom).
       if i = j then (basis, denom)
       else (polyMul basis [fst (points ! j), GF 1], gf16_mul denom (gf16_add (fst (points ! i)) (fst (points ! j)))))
       [0..<length points] ([GF 1], GF 1)"

definition lagrangeInterpolate :: "point list \<Rightarrow> gf16 list" where
  "lagrangeInterpolate points =
     (if points = [] then []
      else
        fold (\<lambda>i coeffs.
          let (basis, denom) = lagrange_basis points i in
          if denom = GF 0 then coeffs
          else polyAdd coeffs (polyScale basis (gf16_div (snd (points ! i)) denom)))
          [0..<length points] (replicate (length points) (GF 0)))"

section \<open>Values\<close>

text \<open>The value of a coefficient list by structural recursion, and as a sum of powers.\<close>

fun horner :: "gf16 list \<Rightarrow> gf16 \<Rightarrow> gf16" where
  "horner [] x = 0"
| "horner (c # cs) x = horner cs x * x + c"

lemma horner_snoc: "fold (\<lambda>c out. out * x + c) (rev cs) a = horner (cs @ [a]) x"
  by (induction cs) simp_all

lemma poly_eval_horner: "poly_eval cs x = horner cs x"
  unfolding poly_eval_def gf16_ops
  by (cases "cs = []") (simp_all add: horner_snoc)

lemma horner_sum: "horner cs x = (\<Sum>i<length cs. cs ! i * x ^ i)"
proof (induction cs)
  case (Cons c cs)
  then show ?case
    by (simp add: sum.lessThan_Suc_shift sum_distrib_left ac_simps del: sum.lessThan_Suc)
qed simp

lemma horner_update:
  assumes "k < length cs"
  shows "horner (cs[k := cs ! k + v]) x = horner cs x + v * x ^ k"
  using assms by (induction cs arbitrary: k) (auto simp: nth_Cons ring_distribs ac_simps split: nat.splits)

lemma horner_scale: "horner (polyScale cs s) x = horner cs x * s"
  unfolding polyScale_def gf16_ops by (induction cs) (simp_all add: ring_distribs ac_simps)

lemma length_polyScale [simp]: "length (polyScale cs s) = length cs"
  by (simp add: polyScale_def)

lemma horner_map2: "length a = length b \<Longrightarrow> horner (map2 (+) a b @ c) x = horner (a @ c) x + horner (b @ replicate (length c) 0) x"
  by (induction a b rule: list_induct2) (simp_all add: ring_distribs ac_simps, induction c, simp_all)

lemma horner_replicate_0 [simp]: "horner (replicate n 0) x = 0"
  by (induction n) simp_all

lemma horner_append: "horner (a @ b) x = horner a x + horner b x * x ^ length a"
  by (induction a) (simp_all add: ring_distribs ac_simps)

lemma horner_add: "horner (polyAdd a b) x = horner a x + horner b x"
proof -
  have le: "horner (map2 (+) (take (length b) a) b @ drop (length b) a) x = horner a x + horner b x"
    if "length b \<le> length a" for a b
    using that by (subst horner_map2) (simp_all add: horner_append)
  show ?thesis
    unfolding polyAdd_def gf16_ops by (simp add: le add.commute)
qed

lemma length_polyAdd [simp]: "length (polyAdd a b) = max (length a) (length b)"
  by (auto simp: polyAdd_def)

text \<open>A loop that adds a term to the value in each round adds their sum.\<close>

lemma horner_fold:
  assumes "\<And>k out. k \<in> set ks \<Longrightarrow> length out = n \<Longrightarrow> length (f k out) = n \<and> horner (f k out) x = horner out x + w k"
    and "length out = n"
  shows "length (fold f ks out) = n \<and> horner (fold f ks out) x = horner out x + sum_list (map w ks)"
  using assms by (induction ks arbitrary: out) (simp_all add: add.assoc)

lemma horner_mul: "horner (polyMul a b) x = horner a x * horner b x"
  and length_polyMul: "a \<noteq> [] \<Longrightarrow> b \<noteq> [] \<Longrightarrow> length (polyMul a b) = length a + length b - 1"
proof -
  let ?n = "length a + length b - 1"
  let ?inner = "\<lambda>i out. fold (\<lambda>j out. out[i + j := out ! (i + j) + a ! i * b ! j]) [0..<length b] out"
  have inner: "length (?inner i out) = ?n \<and> horner (?inner i out) x = horner out x + a ! i * x ^ i * horner b x"
    if "i < length a" "length out = ?n" for i out
  proof -
    have "length (?inner i out) = ?n \<and>
        horner (?inner i out) x = horner out x + sum_list (map (\<lambda>j. a ! i * b ! j * x ^ (i + j)) [0..<length b])"
      using that by (intro horner_fold) (auto simp: horner_update)
    then show ?thesis
      by (simp add: horner_sum [of b] interv_sum_list_conv_sum_set_nat atLeast0LessThan sum_distrib_left power_add ac_simps)
  qed
  have "length (fold ?inner [0..<length a] (replicate ?n 0)) = ?n \<and>
      horner (fold ?inner [0..<length a] (replicate ?n 0)) x = horner a x * horner b x"
    using horner_fold [of "[0..<length a]" ?n ?inner x "\<lambda>i. a ! i * x ^ i * horner b x" "replicate ?n 0"] inner
    by (simp add: horner_sum [of a] interv_sum_list_conv_sum_set_nat atLeast0LessThan sum_distrib_left ac_simps)
  then show "horner (polyMul a b) x = horner a x * horner b x"
    and "a \<noteq> [] \<Longrightarrow> b \<noteq> [] \<Longrightarrow> length (polyMul a b) = ?n"
    by (auto simp: polyMul_def gf16_ops)
qed

section \<open>Interpolation\<close>

text \<open>Evaluation is injective on lists of bounded length: division by a linear factor.\<close>

fun synth :: "gf16 \<Rightarrow> gf16 list \<Rightarrow> gf16 list" where
  "synth r [] = []"
| "synth r (c # cs) = horner (c # cs) r # synth r cs"

lemma length_synth [simp]: "length (synth r cs) = length cs"
  by (induction cs) simp_all

lemma horner_synth: "horner (c # cs) x = (x - r) * horner (synth r cs) x + horner (c # cs) r"
proof (induction cs arbitrary: c)
  case (Cons d cs)
  define A where "A = horner (d # cs) r"
  define H where "H = horner (synth r cs) x"
  have "horner (d # cs) x = (x - r) * H + A" unfolding A_def H_def by (rule Cons)
  then show ?case
    unfolding synth.simps horner.simps(2) [of c] horner.simps(2) [of _ "synth r cs"] A_def [symmetric] H_def [symmetric]
    by (simp only:) (simp only: algebra_simps)
qed simp

lemma horner_roots:
  assumes "finite S" "length cs \<le> card S" "\<And>x. x \<in> S \<Longrightarrow> horner cs x = 0"
  shows "horner cs y = 0"
  using assms
proof (induction "length cs" arbitrary: cs S y)
  case (Suc n)
  then obtain c cs' where cs: "cs = c # cs'" "length cs' = n" by (cases cs) auto
  then have "S \<noteq> {}" using Suc.prems(2) by auto
  then obtain r where r: "r \<in> S" by blast
  have "horner (synth r cs') y = 0" for y
  proof (rule Suc.hyps(1) [of _ "S - {r}"])
    show "length (synth r cs') \<le> card (S - {r})" using Suc.prems r cs by simp
    fix x assume "x \<in> S - {r}"
    then have "horner (c # cs') x = 0" "horner (c # cs') r = 0" "x - r \<noteq> 0" using Suc.prems(3) r cs by auto
    then show "horner (synth r cs') x = 0" using horner_synth [of c cs' x r] by simp
  qed (use Suc.prems cs in simp_all)
  then show ?case using horner_synth [of c cs' y r] Suc.prems(3) [OF r] cs by simp
qed simp

lemma horner_unique:
  assumes "finite S" "length p \<le> card S" "length q \<le> card S" "\<And>x. x \<in> S \<Longrightarrow> horner p x = horner q x"
  shows "horner p y = horner q y"
proof -
  have "horner (polyAdd p q) y = 0"
    by (rule horner_roots [of S]) (use assms in \<open>simp_all add: horner_add\<close>)
  then show ?thesis by (simp add: horner_add flip: gf_minus)
qed

lemma lagrange_basis_value:
  assumes "i < length points"
  shows "length (fst (lagrange_basis points i)) = length points"
    and "horner (fst (lagrange_basis points i)) x = (\<Prod>j\<in>{..<length points} - {i}. x + fst (points ! j))"
    and "snd (lagrange_basis points i) = (\<Prod>j\<in>{..<length points} - {i}. fst (points ! i) + fst (points ! j))"
proof -
  let ?f = "\<lambda>j (basis, denom).
       if i = j then (basis, denom)
       else (polyMul basis [fst (points ! j), 1], denom * (fst (points ! i) + fst (points ! j)))"
  have gen: "length (fst (fold ?f [0..<n] ([1], 1))) = Suc (card ({..<n} - {i})) \<and>
      horner (fst (fold ?f [0..<n] ([1], 1))) x = (\<Prod>j\<in>{..<n} - {i}. x + fst (points ! j)) \<and>
      snd (fold ?f [0..<n] ([1], 1)) = (\<Prod>j\<in>{..<n} - {i}. fst (points ! i) + fst (points ! j))" for n
  proof (induction n)
    case (Suc n)
    obtain b d where bd: "fold ?f [0..<n] ([1], 1) = (b, d)" by (cases "fold ?f [0..<n] ([1], 1)")
    have s: "{..<Suc n} - {i} = (if n = i then {..<n} - {i} else insert n ({..<n} - {i}))" by auto
    from Suc bd have "b \<noteq> []" by auto
    with Suc bd show ?case
      unfolding s by (auto simp: horner_mul length_polyMul ac_simps)
  qed simp
  have "Suc (card ({..<length points} - {i})) = length points" using assms by simp
  with gen [of "length points"] show "length (fst (lagrange_basis points i)) = length points"
    "horner (fst (lagrange_basis points i)) x = (\<Prod>j\<in>{..<length points} - {i}. x + fst (points ! j))"
    "snd (lagrange_basis points i) = (\<Prod>j\<in>{..<length points} - {i}. fst (points ! i) + fst (points ! j))"
    unfolding lagrange_basis_def gf16_ops by simp_all
qed

lemma lagrangeInterpolate_value:
  shows "length (lagrangeInterpolate points) = length points"
    and "distinct (map fst points) \<Longrightarrow> (x, y) \<in> set points \<Longrightarrow> horner (lagrangeInterpolate points) x = y"
proof -
  let ?n = "length points"
  let ?f = "\<lambda>i coeffs. let (basis, denom) = lagrange_basis points i in
          if denom = 0 then coeffs else polyAdd coeffs (polyScale basis (snd (points ! i) / denom))"
  let ?w = "\<lambda>i. let (basis, denom) = lagrange_basis points i in
          if denom = 0 then 0 else horner basis x * (snd (points ! i) / denom)"
  have fold: "length (fold ?f [0..<?n] (replicate ?n 0)) = ?n \<and>
      horner (fold ?f [0..<?n] (replicate ?n 0)) x = (\<Sum>i<?n. ?w i)"
  proof -
    have step: "length (?f i out) = ?n \<and> horner (?f i out) x = horner out x + ?w i"
      if "i \<in> set [0..<?n]" "length out = ?n" for i out
      using that lagrange_basis_value(1) [of i points]
      by (cases "lagrange_basis points i") (simp add: horner_add horner_scale)
    show ?thesis
      using horner_fold [of "[0..<?n]" ?n ?f x ?w "replicate ?n 0", OF step]
      by (simp add: interv_sum_list_conv_sum_set_nat atLeast0LessThan)
  qed
  have eq: "lagrangeInterpolate points = fold ?f [0..<?n] (replicate ?n 0)"
    unfolding lagrangeInterpolate_def gf16_ops by simp
  show "length (lagrangeInterpolate points) = ?n" using fold eq by simp
  assume d: "distinct (map fst points)" and "(x, y) \<in> set points"
  then obtain k where k: "k < ?n" "points ! k = (x, y)" by (auto simp: in_set_conv_nth)
  have "?w i = (if i = k then y else 0)" if i: "i < ?n" for i
  proof (cases "i = k")
    case True
    have "(\<Prod>j\<in>{..<?n} - {k}. x + fst (points ! j)) \<noteq> 0"
    proof -
      have "x + fst (points ! j) \<noteq> 0" if "j \<in> {..<?n} - {k}" for j
      proof
        assume "x + fst (points ! j) = 0"
        then have "fst (points ! k) = fst (points ! j)" using k by (simp flip: gf_minus)
        then show False using nth_eq_iff_index_eq [OF d, of k j] k(1) that by simp
      qed
      then show ?thesis by simp
    qed
    then show ?thesis
      using lagrange_basis_value [OF i] k True by (auto simp: split_beta Let_def)
  next
    case False
    then have "horner (fst (lagrange_basis points i)) x = 0"
      using lagrange_basis_value(2) [OF i, of x] k by (force intro: prod_zero)
    then show ?thesis using False by (auto simp: split_beta Let_def)
  qed
  then have "(\<Sum>i<?n. ?w i) = y" using k by simp
  then show "horner (lagrangeInterpolate points) x = y" using fold eq by simp
qed

end
