(* ===== verification/SPQR_Code.thy ===== *)
theory SPQR_Code
  imports SPQR_Poly
begin

text \<open>
  The erasure code of \<^verbatim>\<open>spqr/encoding_polynomial.go\<close>.  A message is cut into 16-bit values that are dealt
  out to 16 polynomials; chunk \<open>k\<close> holds the value of each polynomial at \<open>k\<close>, and any large enough set of
  chunks determines the message.  The polynomials that the encoder caches are functions of its points and
  are no part of the model's state.
\<close>

section \<open>Encoder\<close>

definition polyNumPolys :: nat where "polyNumPolys = 16"
definition polyChunkDataSize :: nat where "polyChunkDataSize = 32"

datatype chunk = Chunk (chunk_index: u16) (chunk_data: bytes)


record polyEncoder =
  pe_idx :: u32
  pe_msg :: bytes
  pe_points :: "gf16 list list"

definition newPolyEncoder :: "bytes \<Rightarrow> polyEncoder res" where
  "newPolyEncoder msg =
     (if length msg mod 2 \<noteq> 0 then Inl (ErrText ''spqr: polynomial message length must be even'')
      else if length msg > 2 ^ 16 * polyNumPolys then Inl (ErrText ''spqr: polynomial message length too long'')
      else Inr \<lparr>pe_idx = 0, pe_msg = msg, pe_points =
        fold (\<lambda>k points. let idx = k mod polyNumPolys; value = get_u16 (drop (2 * k) msg) in
            points[idx := points ! idx @ [GF value]])
          [0..<length msg div 2] (replicate polyNumPolys [])\<rparr>)"

definition pointAt :: "polyEncoder \<Rightarrow> nat \<Rightarrow> nat \<Rightarrow> gf16" where
  "pointAt e polyIdx idx =
     (if idx < length (pe_points e ! polyIdx) then pe_points e ! polyIdx ! idx
      else
        let pts = map (\<lambda>j. (GF (of_nat j), pe_points e ! polyIdx ! j)) [0..<length (pe_points e ! polyIdx)] in
        poly_eval (lagrangeInterpolate pts) (GF (of_nat idx)))"

definition chunkAt :: "polyEncoder \<Rightarrow> u16 \<Rightarrow> chunk" where
  "chunkAt e idx = Chunk idx (concat (map (\<lambda>i.
     let totalIdx = unat idx * polyNumPolys + i;
         p = totalIdx mod polyNumPolys; polyIdx = totalIdx div polyNumPolys
     in put_u16 (gf_word (pointAt e p polyIdx))) [0..<polyNumPolys]))"

definition nextChunk :: "polyEncoder \<Rightarrow> chunk \<times> polyEncoder" where
  "nextChunk e = (chunkAt e (ucast (pe_idx e)), e\<lparr>pe_idx := pe_idx e + 1\<rparr>)"

section \<open>Decoder\<close>

record polyDecoder =
  pd_ptsNeeded :: nat
  pd_points :: "(u16, gf16) fmap list"
  pd_isComplete :: bool

definition newPolyDecoder :: "nat \<Rightarrow> polyDecoder res" where
  "newPolyDecoder lenBytes =
     (if lenBytes mod 2 \<noteq> 0 then Inl (ErrText ''spqr: polynomial message length must be even'')
      else Inr \<lparr>pd_ptsNeeded = lenBytes div 2, pd_points = replicate polyNumPolys fmempty, pd_isComplete = False\<rparr>)"

definition necessaryPoints :: "polyDecoder \<Rightarrow> nat \<Rightarrow> nat" where
  "necessaryPoints d p =
     (let pointsPerPoly = pd_ptsNeeded d div polyNumPolys; pointsRemaining = pd_ptsNeeded d mod polyNumPolys in
      if p < pointsRemaining then pointsPerPoly + 1 else pointsPerPoly)"

definition addChunk_point :: "chunk \<Rightarrow> nat \<Rightarrow> polyDecoder \<Rightarrow> polyDecoder" where
  "addChunk_point c i d =
     (let totalIdx = unat (chunk_index c) * polyNumPolys + i;
          p = totalIdx mod polyNumPolys; polyIdx = totalIdx div polyNumPolys;
          x = of_nat polyIdx; value = get_u16 (drop (2 * i) (chunk_data c));
          needed = necessaryPoints d i; pts = pd_points d ! p in
      if (polyIdx < needed \<or> fm_size pts < needed) \<and> x |\<notin>| fmdom pts
      then d\<lparr>pd_points := (pd_points d)[p := fmupd x (GF value) pts]\<rparr> else d)"

definition addChunk :: "chunk \<Rightarrow> polyDecoder \<Rightarrow> polyDecoder" where
  "addChunk c d = fold (addChunk_point c) [0..<polyNumPolys] d"

definition sortedPoints :: "polyDecoder \<Rightarrow> nat \<Rightarrow> nat \<Rightarrow> point list" where
  "sortedPoints d polyIdx needed = map (\<lambda>(x, y). (GF x, y)) (take needed (fm_entries (pd_points d ! polyIdx)))"

text \<open>The first loop of \<^verbatim>\<open>decodedMessage\<close>; \<open>None\<close> stands for the result \<^verbatim>\<open>nil, nil\<close>.\<close>

fun points_vecs :: "polyDecoder \<Rightarrow> nat list \<Rightarrow> point list list option res" where
  "points_vecs d [] = Inr (Some [])"
| "points_vecs d (i # is) =
     (let needed = necessaryPoints d i in
      if fm_size (pd_points d ! i) < needed then Inr None
      else
        let v = sortedPoints d i needed in
        if v = [] then Inl (ErrText ''spqr: polynomial decode missing points'')
        else bindR (points_vecs d is) (\<lambda>r. case r of None \<Rightarrow> Inr None | Some vs \<Rightarrow> Inr (Some (v # vs))))"

definition decodedMessage :: "polyDecoder \<Rightarrow> bytes option res" where
  "decodedMessage d =
     (if pd_isComplete d then Inr None
      else bindR (points_vecs d [0..<polyNumPolys]) (\<lambda>r.
        case r of
          None \<Rightarrow> Inr None
        | Some pointsVecs \<Rightarrow>
            Inr (Some (concat (map (\<lambda>i.
              let p = i mod polyNumPolys; polyIdx = i div polyNumPolys; x = of_nat polyIdx;
                  value = (case fmlookup (pd_points d ! p) x of
                      Some y \<Rightarrow> y
                    | None \<Rightarrow> poly_eval (lagrangeInterpolate (pointsVecs ! p)) (GF x))
              in put_u16 (gf_word value)) [0..<pd_ptsNeeded d])))))"

section \<open>What the encoder sends\<close>

text \<open>The number of the values \<open>0, \<dots>, n - 1\<close> that are dealt to polynomial \<open>p\<close>.\<close>

definition share :: "nat \<Rightarrow> nat \<Rightarrow> nat" where
  "share n p = (if p < n mod 16 then n div 16 + 1 else n div 16)"

lemma necessaryPoints_share: "necessaryPoints d p = share (pd_ptsNeeded d) p"
  by (simp add: necessaryPoints_def share_def polyNumPolys_def Let_def)

lemma filter_share: "p < 16 \<Longrightarrow> filter (\<lambda>k. k mod 16 = p) [0..<m] = map (\<lambda>q. 16 * q + p) [0..<share m p]"
proof (induction m)
  case (Suc m)
  have "share (Suc m) p = (if m mod 16 = p then Suc (share m p) else share m p)"
    using Suc.prems by (auto simp: share_def div_Suc mod_Suc)
  moreover have "m mod 16 = p \<Longrightarrow> 16 * share m p + p = m" by (auto simp: share_def)
  ultimately show ?case using Suc by simp
qed (simp add: share_def)

lemma share_bound: "n \<le> 2 ^ 19 \<Longrightarrow> share n p \<le> 2 ^ 15"
proof -
  assume n: "n \<le> 2 ^ 19"
  then have "n div 16 \<le> 2 ^ 15" by simp
  moreover have "n div 16 = 2 ^ 15 \<Longrightarrow> n mod 16 = 0" using n div_mult_mod_eq [of n 16] by simp
  ultimately show ?thesis by (cases "n div 16 = 2 ^ 15") (auto simp: share_def)
qed

lemma share_index: "i < n \<Longrightarrow> i div 16 < share n (i mod 16)"
proof -
  assume i: "i < n"
  then have "i div 16 \<le> n div 16" by (intro div_le_mono) simp
  moreover have "i mod 16 < n mod 16" if "i div 16 = n div 16"
    using i that div_mult_mod_eq [of i 16] div_mult_mod_eq [of n 16] by linarith
  ultimately show ?thesis by (cases "i div 16 = n div 16") (auto simp: share_def)
qed

definition msg_value :: "bytes \<Rightarrow> nat \<Rightarrow> gf16" where
  "msg_value msg k = GF (get_u16 (drop (2 * k) msg))"

definition encoder_ok :: "polyEncoder \<Rightarrow> bool" where
  "encoder_ok e \<longleftrightarrow> newPolyEncoder (pe_msg e) = Inr (e\<lparr>pe_idx := 0\<rparr>)"

lemma newPolyEncoder_ok: "newPolyEncoder msg = Inr e \<Longrightarrow> encoder_ok e \<and> pe_msg e = msg"
  by (auto simp: encoder_ok_def newPolyEncoder_def split: if_splits)

lemma nextChunk_ok [simp]: "encoder_ok (snd (nextChunk e)) = encoder_ok e" "pe_msg (snd (nextChunk e)) = pe_msg e"
  by (simp_all add: encoder_ok_def nextChunk_def)

lemma encoder_points:
  assumes "encoder_ok e"
  shows "pe_points e = map (\<lambda>p. map (\<lambda>q. msg_value (pe_msg e) (16 * q + p)) [0..<share (length (pe_msg e) div 2) p]) [0..<16]"
proof -
  let ?v = "msg_value (pe_msg e)"
  have "fold (\<lambda>k points. points[k mod 16 := points ! (k mod 16) @ [?v k]]) [0..<m] (replicate 16 [])
      = map (\<lambda>p. map ?v (filter (\<lambda>k. k mod 16 = p) [0..<m])) [0..<16]" for m
  proof (induction m)
    case 0
    show ?case by (rule nth_equalityI) simp_all
  next
    case (Suc m)
    show ?case by (rule nth_equalityI) (auto simp: Suc nth_list_update)
  qed
  moreover have "pe_points e = fold (\<lambda>k points. points[k mod 16 := points ! (k mod 16) @ [?v k]])
      [0..<length (pe_msg e) div 2] (replicate 16 [])"
    using assms unfolding encoder_ok_def newPolyEncoder_def Let_def msg_value_def polyNumPolys_def
    by (auto split: if_splits dest!: arg_cong [where f = pe_points])
  ultimately show ?thesis by (simp add: filter_share)
qed

lemma encoder_len:
  assumes "encoder_ok e"
  shows "even (length (pe_msg e))" "length (pe_msg e) \<le> 2 ^ 20"
  using assms by (auto simp: encoder_ok_def newPolyEncoder_def polyNumPolys_def even_iff_mod_2_eq_zero split: if_splits)

text \<open>The polynomial whose values at \<open>0, 1, \<dots>\<close> are the values dealt to it.\<close>

definition curve :: "polyEncoder \<Rightarrow> nat \<Rightarrow> gf16 list" where
  "curve e p = lagrangeInterpolate (map (\<lambda>j. (GF (of_nat j), pe_points e ! p ! j)) [0..<length (pe_points e ! p)])"

lemma inj_GF: "inj_on (\<lambda>j. GF (of_nat j)) {..<65536}"
  by (auto intro!: inj_onI simp: word_of_nat_eq_iff take_bit_eq_mod)

lemma curve_value:
  assumes "encoder_ok e" "p < 16"
  shows "length (curve e p) = share (length (pe_msg e) div 2) p"
    and "q < share (length (pe_msg e) div 2) p \<Longrightarrow> horner (curve e p) (GF (of_nat q)) = msg_value (pe_msg e) (16 * q + p)"
    and "pointAt e p k = horner (curve e p) (GF (of_nat k))"
proof -
  let ?n = "share (length (pe_msg e) div 2) p"
  have pts: "pe_points e ! p = map (\<lambda>q. msg_value (pe_msg e) (16 * q + p)) [0..<?n]"
    using encoder_points [OF assms(1)] assms(2) by simp
  show "length (curve e p) = ?n" by (simp add: curve_def lagrangeInterpolate_value pts)
  have "length (pe_msg e) div 2 \<le> 2 ^ 19" using encoder_len [OF assms(1)] by simp
  from share_bound [OF this] have "?n \<le> 2 ^ 15" .
  then have "{0..<?n} \<subseteq> {..<65536}" by auto
  then have d: "distinct (map fst (map (\<lambda>j. (GF (of_nat j), pe_points e ! p ! j)) [0..<?n]))"
    using inj_on_subset [OF inj_GF] by (simp add: distinct_map o_def)
  show val: "horner (curve e p) (GF (of_nat q)) = msg_value (pe_msg e) (16 * q + p)" if "q < ?n" for q
    using that unfolding curve_def by (intro lagrangeInterpolate_value(2)) (use d in \<open>auto simp: pts\<close>)
  show "pointAt e p k = horner (curve e p) (GF (of_nat k))"
    using val by (auto simp: pointAt_def poly_eval_horner curve_def Let_def pts)
qed

section \<open>What the decoder holds\<close>

lemma drop_concat_fixed:
  "(\<And>x. x \<in> set xs \<Longrightarrow> length (g x) = c) \<Longrightarrow> drop (c * i) (concat (map g xs)) = concat (map g (drop i xs))"
proof (induction xs arbitrary: i)
  case (Cons x xs)
  then show ?case by (cases i) simp_all
qed simp

lemma chunk_value:
  assumes "encoder_ok e" "i < 16"
  shows "GF (get_u16 (drop (2 * i) (chunk_data (chunkAt e k)))) = horner (curve e i) (GF k)"
proof -
  let ?g = "\<lambda>i. put_u16 (gf_word (pointAt e i (unat k)))"
  have data: "chunk_data (chunkAt e k) = concat (map ?g [0..<16])"
    unfolding chunkAt_def polyNumPolys_def Let_def chunk.sel
    by (intro arg_cong [where f = concat] map_cong) simp_all
  have "drop (2 * i) (chunk_data (chunkAt e k)) = ?g i @ concat (map ?g [Suc i..<16])"
    unfolding data using drop_concat_fixed [of "[0..<16]" ?g 2 i] assms(2) upt_conv_Cons [of i 16]
    by (simp only: drop_upt length_put) simp
  then show ?thesis using curve_value(3) [OF assms, of "unat k"] by simp
qed

text \<open>The effect of a chunk on the points of one polynomial.\<close>

definition add_point :: "nat \<Rightarrow> u16 \<Rightarrow> gf16 \<Rightarrow> (u16, gf16) fmap \<Rightarrow> (u16, gf16) fmap" where
  "add_point needed k y pts =
     (if (unat k < needed \<or> fm_size pts < needed) \<and> k |\<notin>| fmdom pts then fmupd k y pts else pts)"

lemma addChunk_point_eq:
  assumes "i < 16"
  shows "addChunk_point c i d = d\<lparr>pd_points := (pd_points d)[i :=
     add_point (necessaryPoints d i) (chunk_index c) (GF (get_u16 (drop (2 * i) (chunk_data c)))) (pd_points d ! i)]\<rparr>"
  using assms by (simp add: addChunk_point_def add_point_def polyNumPolys_def Let_def)

lemma addChunk_eq:
  assumes "length (pd_points d) = 16"
  shows "addChunk c d = d\<lparr>pd_points := map (\<lambda>p. add_point (necessaryPoints d p) (chunk_index c)
     (GF (get_u16 (drop (2 * p) (chunk_data c)))) (pd_points d ! p)) [0..<16]\<rparr>"
proof -
  let ?f = "\<lambda>p. add_point (necessaryPoints d p) (chunk_index c) (GF (get_u16 (drop (2 * p) (chunk_data c)))) (pd_points d ! p)"
  have nec: "necessaryPoints (d\<lparr>pd_points := ps\<rparr>) p = necessaryPoints d p" for ps p
    by (simp add: necessaryPoints_def)
  have "m \<le> 16 \<Longrightarrow> fold (addChunk_point c) [0..<m] d
      = d\<lparr>pd_points := map (\<lambda>p. if p < m then ?f p else pd_points d ! p) [0..<16]\<rparr>" for m
  proof (induction m)
    case 0
    have "pd_points d = map ((!) (pd_points d)) [0..<16]" using assms map_nth [of "pd_points d"] by simp
    then show ?case by simp
  next
    case (Suc m)
    have "(map (\<lambda>p. if p < m then ?f p else pd_points d ! p) [0..<16])[m := ?f m]
        = map (\<lambda>p. if p < Suc m then ?f p else pd_points d ! p) [0..<16]"
      using Suc.prems by (intro nth_equalityI) (auto simp: nth_list_update less_Suc_eq)
    with Suc show ?case by (simp add: addChunk_point_eq nec del: upt_Suc add: upt_Suc_append)
  qed
  from this [of 16] show ?thesis by (simp add: addChunk_def polyNumPolys_def cong: map_cong)
qed

text \<open>
  A decoder that has seen the chunks with indices \<open>S\<close> of one encoder: every point lies on the curve, and
  no point was left out before enough of them are there.
\<close>

definition fed :: "polyEncoder \<Rightarrow> u16 set \<Rightarrow> polyDecoder \<Rightarrow> bool" where
  "fed e S d \<longleftrightarrow> pd_ptsNeeded d = length (pe_msg e) div 2 \<and> \<not> pd_isComplete d \<and> length (pd_points d) = 16 \<and>
     (\<forall>p<16. (\<forall>x y. fmlookup (pd_points d ! p) x = Some y \<longrightarrow> y = horner (curve e p) (GF x)) \<and>
       fset (fmdom (pd_points d ! p)) \<subseteq> S \<and>
       (necessaryPoints d p \<le> fm_size (pd_points d ! p) \<or> fset (fmdom (pd_points d ! p)) = S))"

lemma fed_new: "newPolyDecoder (length (pe_msg e)) = Inr d \<Longrightarrow> fed e {} d"
  by (auto simp: fed_def newPolyDecoder_def polyNumPolys_def split: if_splits)

lemma fed_addChunk:
  assumes "encoder_ok e" "fed e S d"
  shows "fed e (insert k S) (addChunk (chunkAt e k) d)"
proof -
  let ?f = "\<lambda>p. add_point (necessaryPoints d p) k (horner (curve e p) (GF k)) (pd_points d ! p)"
  have len: "length (pd_points d) = 16" using assms by (simp add: fed_def)
  have eq: "addChunk (chunkAt e k) d = d\<lparr>pd_points := map ?f [0..<16]\<rparr>"
    using chunk_value [OF assms(1)] by (simp add: addChunk_eq [OF len] chunkAt_def [THEN arg_cong [where f = chunk_index]] cong: map_cong)
  have "fmlookup (?f p) x = Some y \<Longrightarrow> y = horner (curve e p) (GF x)"
    "fset (fmdom (?f p)) \<subseteq> insert k S" "necessaryPoints d p \<le> fm_size (?f p) \<or> fset (fmdom (?f p)) = insert k S"
    if "p < 16" for p x y
    using that assms(2) by (auto simp: fed_def add_point_def fm_size_upd split: if_splits)
  then show ?thesis
    using assms(2) by (simp add: fed_def eq necessaryPoints_def)
qed

lemma fed_enough:
  assumes "fed e S d" "finite S" "p < 16"
  shows "necessaryPoints d p \<le> fm_size (pd_points d ! p) \<longleftrightarrow> necessaryPoints d p \<le> card S"
proof -
  have "fset (fmdom (pd_points d ! p)) \<subseteq> S" and
    "necessaryPoints d p \<le> fm_size (pd_points d ! p) \<or> fset (fmdom (pd_points d ! p)) = S"
    using assms by (auto simp: fed_def)
  with card_mono [OF assms(2) this(1)] show ?thesis by (auto simp: fm_size_def fcard.rep_eq)
qed

lemma fed_sortedPoints:
  assumes "encoder_ok e" "fed e S d" "p < 16" "necessaryPoints d p \<le> fm_size (pd_points d ! p)"
  shows "horner (lagrangeInterpolate (sortedPoints d p (necessaryPoints d p))) x = horner (curve e p) x"
proof -
  let ?n = "necessaryPoints d p" and ?v = "sortedPoints d p (necessaryPoints d p)"
  have len: "length ?v = ?n" using assms(4) by (simp add: sortedPoints_def)
  have "map fst ?v = map GF (take ?n (sorted_list_of_fset (fmdom (pd_points d ! p))))"
    by (simp add: sortedPoints_def fm_entries_def take_map o_def split_beta)
  then have dist: "distinct (map fst ?v)" by (simp add: distinct_map inj_on_def distinct_take)
  have on: "y = horner (curve e p) x" if "(x, y) \<in> set ?v" for x y
    using that assms(2,3) by (auto simp: sortedPoints_def fed_def set_fm_entries dest!: in_set_takeD)
  have card: "card (fst ` set ?v) = ?n" using distinct_card [OF dist] len by simp
  show ?thesis
  proof (rule horner_unique [of "fst ` set ?v"])
    show "length (curve e p) \<le> card (fst ` set ?v)"
      using curve_value(1) [OF assms(1,3)] assms(2) card by (simp add: fed_def necessaryPoints_share)
    show "horner (lagrangeInterpolate ?v) x = horner (curve e p) x" if "x \<in> fst ` set ?v" for x
      using that on lagrangeInterpolate_value(2) [OF dist] by auto
  qed (simp_all add: lagrangeInterpolate_value len card)
qed

section \<open>Decoding\<close>

lemma points_vecs_all:
  assumes "\<And>p. p \<in> set ps \<Longrightarrow> 0 < necessaryPoints d p \<and> necessaryPoints d p \<le> fm_size (pd_points d ! p)"
  shows "points_vecs d ps = Inr (Some (map (\<lambda>p. sortedPoints d p (necessaryPoints d p)) ps))"
  using assms
proof (induction ps)
  case (Cons p ps)
  have "0 < necessaryPoints d p" "necessaryPoints d p \<le> fm_size (pd_points d ! p)" using Cons.prems [of p] by simp_all
  moreover have "sortedPoints d p (necessaryPoints d p) \<noteq> []"
    using calculation by (simp add: sortedPoints_def flip: length_greater_0_conv)
  ultimately show ?case using Cons by (simp add: Let_def del: length_greater_0_conv) (simp add: leD)
qed simp

lemma msg_values:
  assumes "even (length msg)"
  shows "concat (map (\<lambda>i. put_u16 (gf_word (msg_value msg i))) [0..<length msg div 2]) = msg"
proof -
  have "m \<le> length msg div 2 \<Longrightarrow> concat (map (\<lambda>i. put_u16 (gf_word (msg_value msg i))) [0..<m]) = take (2 * m) msg" for m
  proof (induction m)
    case (Suc m)
    then have "put_u16 (gf_word (msg_value msg m)) = take 2 (drop (2 * m) msg)"
      using assms by (simp add: msg_value_def put_get_u16)
    with Suc show ?case using take_add [of "2 * m" 2 msg] by simp
  qed simp
  from this [of "length msg div 2"] show ?thesis using assms by simp
qed

lemma share_pos: "16 \<le> n \<Longrightarrow> 0 < share n p"
  by (simp add: share_def div_greater_zero_iff)

lemma share_le: "share n p \<le> share n 0"
  by (simp add: share_def)

lemma share_0: "share n 0 = (n + 15) div 16"
proof -
  have "(n + 15) div 16 = n div 16 + (n mod 16 + 15) div 16"
    using div_mult_mod_eq [of n 16] div_mult_self1 [of 16 "n mod 16 + 15" "n div 16"] by (simp add: add.commute add.assoc)
  moreover have "(m + 15) div 16 = (if 0 < m then 1 else 0)" if "m < 16" for m :: nat
    using that by (auto intro: div_nat_eqI)
  ultimately show ?thesis by (simp add: share_def)
qed

lemma fed_decode:
  assumes "encoder_ok e" "fed e S d" "finite S" "32 \<le> length (pe_msg e)"
  shows "decodedMessage d = Inr (if card S < (length (pe_msg e) + 31) div 32 then None else Some (pe_msg e))"
proof -
  let ?msg = "pe_msg e" let ?n = "length ?msg div 2"
  have n: "pd_ptsNeeded d = ?n" "\<not> pd_isComplete d" and nec: "necessaryPoints d p = share ?n p" for p
    using assms(2) by (simp_all add: fed_def necessaryPoints_share)
  have bound: "(length ?msg + 31) div 32 = share ?n 0"
    using encoder_len(1) [OF assms(1)] by (auto simp: share_0 elim!: evenE)
  have enough: "share ?n p \<le> fm_size (pd_points d ! p) \<longleftrightarrow> share ?n p \<le> card S" if "p < 16" for p
    using fed_enough [OF assms(2,3) that] by (simp add: nec)
  show ?thesis
  proof (cases "card S < share ?n 0")
    case True
    then have "points_vecs d [0..<polyNumPolys] = Inr None"
      using enough [of 0] by (simp add: polyNumPolys_def upt_conv_Cons nec)
    with True show ?thesis by (simp add: decodedMessage_def n bound)
  next
    case False
    then have le: "share ?n p \<le> fm_size (pd_points d ! p)" if "p < 16" for p
      using enough [OF that] share_le [of ?n p] by simp
    let ?vs = "map (\<lambda>p. sortedPoints d p (necessaryPoints d p)) [0..<16]"
    have vs: "points_vecs d [0..<16] = Inr (Some ?vs)"
      using le assms(4) by (intro points_vecs_all) (simp add: nec share_pos)
    have val: "(case fmlookup (pd_points d ! (i mod 16)) (of_nat (i div 16)) of Some y \<Rightarrow> y
        | None \<Rightarrow> poly_eval (lagrangeInterpolate (?vs ! (i mod 16))) (GF (of_nat (i div 16)))) = msg_value ?msg i"
      if i: "i < ?n" for i
    proof -
      have "horner (curve e (i mod 16)) (GF (of_nat (i div 16))) = msg_value ?msg i"
        using curve_value(2) [OF assms(1), of "i mod 16" "i div 16"] share_index [OF i] by simp
      moreover have "fmlookup (pd_points d ! (i mod 16)) x = Some y \<Longrightarrow> y = horner (curve e (i mod 16)) (GF x)" for x y
        using assms(2) by (simp add: fed_def)
      ultimately show ?thesis
        using fed_sortedPoints [OF assms(1,2), of "i mod 16"] le
        by (auto simp: poly_eval_horner nec split: option.split)
    qed
    have "decodedMessage d = Inr (Some (concat (map (\<lambda>i. put_u16 (gf_word (msg_value ?msg i))) [0..<?n])))"
      unfolding decodedMessage_def polyNumPolys_def Let_def vs n(1) using n(2)
      by (auto simp only: if_False bindR_simps option.case intro!: arg_cong [where f = concat] map_cong val [THEN arg_cong])
        simp
    with False show ?thesis by (simp add: bound msg_values [OF encoder_len(1) [OF assms(1)]])
  qed
qed

lemma fed_chunks:
  assumes "encoder_ok e" "fed e S d"
  shows "fed e (S \<union> set idxs) (fold addChunk (map (chunkAt e) idxs) d)"
  using assms(2)
proof (induction idxs arbitrary: S d)
  case (Cons k idxs)
  from Cons.IH [OF fed_addChunk [OF assms(1) Cons.prems, of k]] show ?case by simp
qed simp

section \<open>Property\<close>

text \<open>
  C33: The chunks of a message are an erasure code.  For an even message length of at least 32 and at most
  \<open>2^20\<close> bytes, whatever chunks arrive, in any order and with repetitions, the decoder reports that it
  needs more as long as there are fewer than \<open>\<lceil>length / 32\<rceil>\<close> different ones, and returns the message from
  then on.
\<close>

theorem erasure_code_correct:
  assumes "newPolyEncoder msg = Inr e" "newPolyDecoder (length msg) = Inr d" "32 \<le> length msg"
  shows "decodedMessage (fold addChunk (map (chunkAt e) idxs) d)
     = Inr (if card (set idxs) < (length msg + 31) div 32 then None else Some msg)"
proof -
  have e: "encoder_ok e" "pe_msg e = msg" using newPolyEncoder_ok [OF assms(1)] by simp_all
  have "fed e {} d" using assms(2) e by (intro fed_new) simp
  from fed_chunks [OF e(1) this, of idxs] show ?thesis
    using fed_decode [OF e(1), of "set idxs"] assms(3) e(2) by simp
qed

theorem erasure_code_correct_witness:
  "let msg = replicate 40 7 @ replicate 24 9 in
     \<exists>e d. newPolyEncoder msg = Inr e \<and> newPolyDecoder (length msg) = Inr d \<and>
       decodedMessage (fold addChunk (map (chunkAt e) [900, 3, 900]) d) = Inr (Some msg) \<and>
       decodedMessage (fold addChunk (map (chunkAt e) [900, 900]) d) = Inr None"
proof -
  let ?msg = "replicate 40 7 @ replicate 24 9 :: bytes"
  obtain e where e: "newPolyEncoder ?msg = Inr e" by (simp add: newPolyEncoder_def polyNumPolys_def)
  obtain d where d: "newPolyDecoder (length ?msg) = Inr d" by (simp add: newPolyDecoder_def)
  show ?thesis
    using erasure_code_correct [OF e d, of "[900, 3, 900]"] erasure_code_correct [OF e d, of "[900, 900]"] e d
    by (simp add: Let_def insert_commute)
qed

end
