(* ===== verification/SPQR_Message.thy ===== *)
theory SPQR_Message
  imports SPQR_Code
begin

text \<open>
  Versions, directions and the messages of the post-quantum ratchet (\<^verbatim>\<open>spqr/types.go\<close>, \<^verbatim>\<open>spqr/message.go\<close>), and the
  length-prefixed byte strings of \<^verbatim>\<open>spqr/util.go\<close>.  The decoder's position is the list of bytes it has not
  read yet.
\<close>

section \<open>Versions, directions, byte strings (types.go, util.go)\<close>

type_synonym Version = u8
definition VersionDisabled :: Version where "VersionDisabled = 0"
definition VersionV1 :: Version where "VersionV1 = 1"

type_synonym Direction = u8
definition DirectionA2B :: Direction where "DirectionA2B = 0"
definition DirectionB2A :: Direction where "DirectionB2A = 1"

definition Direction_Switch :: "Direction \<Rightarrow> Direction" where
  "Direction_Switch d = (if d = DirectionA2B then DirectionB2A else DirectionA2B)"

definition epochBytes :: "u64 \<Rightarrow> bytes" where
  "epochBytes epoch = put_u64 epoch"

definition appendBytes :: "bytes \<Rightarrow> bytes" where
  "appendBytes b = put_u32 (of_nat (length b)) @ b"

definition readBytes :: "bytes \<Rightarrow> (bytes \<times> bytes) res" where
  "readBytes bs =
     (if length bs < 4 then Inl ErrSpqrStateDecode
      else
        let n = unat (get_u32 bs); bs = drop 4 bs in
        if n > length bs then Inl ErrSpqrStateDecode else Inr (take n bs, drop n bs))"

lemma readBytes_append [codec, simp]: "length b < 2 ^ 32 \<Longrightarrow> readBytes (appendBytes b @ r) = Inr (b, r)"
  by (simp add: readBytes_def appendBytes_def unat_of_nat Let_def)

lemma length_appendBytes [simp]: "length (appendBytes b) = 4 + length b"
  by (simp add: appendBytes_def)

lemma readBytes_sound: "readBytes bs = Inr (b, r) \<Longrightarrow> length b < 2 ^ 32 \<and> bs = appendBytes b @ r"
proof -
  assume a: "readBytes bs = Inr (b, r)"
  then have l: "4 \<le> length bs" and n: "unat (get_u32 bs) \<le> length (drop 4 bs)"
    and b: "b = take (unat (get_u32 bs)) (drop 4 bs)" and r: "r = drop (unat (get_u32 bs)) (drop 4 bs)"
    by (auto simp: readBytes_def Let_def split: if_splits)
  have len: "length b = unat (get_u32 bs)" using n b by simp
  then have "put_u32 (of_nat (length b)) = take 4 bs" by (simp add: put_get_u32 [OF l])
  moreover have "b @ r = drop 4 bs" unfolding b r by (rule append_take_drop_id)
  ultimately show ?thesis
    using len unat_u32_less [of "get_u32 bs"] by (simp add: appendBytes_def)
qed

interpretation byte_string: strict_codec appendBytes readBytes "\<lambda>b. length b < 2 ^ 32"
  by unfold_locales (simp, rule readBytes_sound)

section \<open>Messages (message.go)\<close>

type_synonym MessageType = u8
definition MessageTypeNone :: MessageType where "MessageTypeNone = 0"
definition MessageTypeHdr :: MessageType where "MessageTypeHdr = 1"
definition MessageTypeEk :: MessageType where "MessageTypeEk = 2"
definition MessageTypeEkCt1Ack :: MessageType where "MessageTypeEkCt1Ack = 3"
definition MessageTypeCt1Ack :: MessageType where "MessageTypeCt1Ack = 4"
definition MessageTypeCt1 :: MessageType where "MessageTypeCt1 = 5"
definition MessageTypeCt2 :: MessageType where "MessageTypeCt2 = 6"

lemmas MessageType_defs = MessageTypeNone_def MessageTypeHdr_def MessageTypeEk_def MessageTypeEkCt1Ack_def
  MessageTypeCt1Ack_def MessageTypeCt1_def MessageTypeCt2_def

record messagePayload =
  mp_kind :: MessageType
  mp_chunk :: "chunk option"
  mp_ack :: bool

record v1Message =
  vm_epoch :: u64
  vm_payload :: messagePayload

record PqMessage =
  pm_Version :: Version
  pm_Epoch :: u64
  pm_Index :: u32
  pm_Type :: MessageType
  pm_ChunkIndex :: u32
  pm_ChunkData :: bytes

definition hasChunk :: "MessageType \<Rightarrow> bool" where
  "hasChunk t \<longleftrightarrow> t \<in> {MessageTypeHdr, MessageTypeEk, MessageTypeEkCt1Ack, MessageTypeCt1, MessageTypeCt2}"

text \<open>The loop of \<^verbatim>\<open>encodeVarint\<close>, which runs at most ten times.\<close>

fun encodeVarint_loop :: "nat \<Rightarrow> u64 \<Rightarrow> bytes" where
  "encodeVarint_loop 0 v = []"
| "encodeVarint_loop (Suc n) v =
     (let b = ucast (v AND 0x7f) in
      if v < 0x80 then [b] else (b OR 0x80) # encodeVarint_loop n (drop_bit 7 v))"

definition encodeVarint :: "u64 \<Rightarrow> bytes" where
  "encodeVarint v = encodeVarint_loop 10 v"

fun consumeVarint_loop :: "u64 \<Rightarrow> nat \<Rightarrow> bytes \<Rightarrow> (u64 \<times> bytes) res" where
  "consumeVarint_loop x s [] = Inl ErrSpqrInvalidMessage"
| "consumeVarint_loop x s (b # bs) =
     (if b < 0x80 then if s \<ge> 64 then Inl ErrSpqrInvalidMessage else Inr (x OR push_bit s (ucast b), bs)
      else consumeVarint_loop (x OR push_bit s (ucast (b AND 0x7f))) (s + 7) bs)"

definition consumeVarint :: "bytes \<Rightarrow> (u64 \<times> bytes) res" where
  "consumeVarint bs = consumeVarint_loop 0 0 bs"

definition v1Message_serialize :: "v1Message \<Rightarrow> u32 \<Rightarrow> bytes" where
  "v1Message_serialize m index =
     [VersionV1] @ encodeVarint (vm_epoch m) @ encodeVarint (ucast index) @ [mp_kind (vm_payload m)]
     @ (if hasChunk (mp_kind (vm_payload m))
        then case mp_chunk (vm_payload m) of
               None \<Rightarrow> []
             | Some c \<Rightarrow> encodeVarint (ucast (chunk_index c)) @ arr polyChunkDataSize (chunk_data c)
        else [])"

text \<open>The position behind the message, which no caller uses, is left out.\<close>

definition deserializeV1Message :: "bytes \<Rightarrow> (v1Message \<times> u32) res" where
  "deserializeV1Message data =
     (if data = [] \<or> hd data \<noteq> VersionV1 then Inl ErrSpqrInvalidMessage
      else
        bindR (consumeVarint (tl data)) (\<lambda>(epoch, bs).
        bindR (consumeVarint bs) (\<lambda>(index, bs).
        if bs = [] then Inl ErrSpqrInvalidMessage
        else
          let msgType = hd bs; bs = tl bs in
          if hasChunk msgType
          then
            bindR (consumeVarint bs) (\<lambda>(chunkIndex, bs).
            if length bs < polyChunkDataSize then Inl ErrSpqrInvalidMessage
            else Inr (\<lparr>vm_epoch = epoch, vm_payload = \<lparr>mp_kind = msgType,
                mp_chunk = Some (Chunk (ucast chunkIndex) (take polyChunkDataSize bs)), mp_ack = False\<rparr>\<rparr>, ucast index))
          else Inr (\<lparr>vm_epoch = epoch, vm_payload = \<lparr>mp_kind = msgType, mp_chunk = None, mp_ack = False\<rparr>\<rparr>, ucast index))))"

definition ParseMessage :: "bytes \<Rightarrow> PqMessage res" where
  "ParseMessage data =
     (if data = [] then Inl ErrSpqrInvalidMessage
      else
        let version = hd data in
        if version = VersionDisabled
        then Inr \<lparr>pm_Version = version, pm_Epoch = 0, pm_Index = 0, pm_Type = 0, pm_ChunkIndex = 0, pm_ChunkData = []\<rparr>
        else if version \<noteq> VersionV1 then Inl ErrSpqrUnsupportedVersion
        else
          bindR (deserializeV1Message data) (\<lambda>(msg, idx).
          Inr \<lparr>pm_Version = version, pm_Epoch = vm_epoch msg, pm_Index = idx, pm_Type = mp_kind (vm_payload msg),
               pm_ChunkIndex = (case mp_chunk (vm_payload msg) of None \<Rightarrow> 0 | Some c \<Rightarrow> ucast (chunk_index c)),
               pm_ChunkData = (case mp_chunk (vm_payload msg) of None \<Rightarrow> [] | Some c \<Rightarrow> chunk_data c)\<rparr>))"

section \<open>Round trip\<close>

lemma byte_high: "(b :: byte) < 0x80 \<longleftrightarrow> \<not> bit b 7"
proof -
  have "unat b < 2 ^ LENGTH(8)" by (rule unsigned_less)
  then have "unat b div 128 < 2" by simp
  moreover have "bit b 7 \<longleftrightarrow> odd (unat b div 128)"
    using bit_unsigned_iff [of b 7, where 'a = nat] by (simp add: bit_iff_odd)
  moreover have "b < 0x80 \<longleftrightarrow> unat b div 128 = 0" by (simp add: word_less_nat_alt div_eq_0_iff)
  ultimately show ?thesis by (cases "unat b div 128") auto
qed

lemma bit_7f: "bit (0x7f :: int) k \<longleftrightarrow> k < 7"
  using bit_mask_iff [of 7 k, where 'a = int] by (simp add: mask_eq_exp_minus_1)

lemma bit_80: "bit (0x80 :: int) k \<longleftrightarrow> k = 7"
  using bit_exp_iff [of 7 k, where 'a = int] by auto

lemma varint_small: "(v :: u64) < 0x80 \<Longrightarrow> ucast (ucast (v AND 0x7f) :: byte) = v"
proof -
  assume "v < 0x80"
  then have "unat v < 128" by (simp add: word_less_nat_alt)
  moreover have "v AND 0x7f = take_bit 7 v" by (simp add: take_bit_eq_mask mask_eq_exp_minus_1)
  ultimately have "v AND 0x7f = v"
    by (simp only:) (simp add: word_eq_iff_unsigned [where 'a = nat] unsigned_take_bit_eq take_bit_nat_eq_self)
  moreover have "unat (ucast (ucast v :: byte) :: u64) = unat v"
    using \<open>unat v < 128\<close> by (simp add: unsigned_ucast_eq unsigned_take_bit_eq take_bit_nat_eq_self)
  ultimately show ?thesis by (simp only: unsigned_word_eqI)
qed

lemma varint_byte:
  "ucast (v AND (0x7f :: u64)) < (0x80 :: byte)" "\<not> ucast (v AND (0x7f :: u64)) OR 0x80 < (0x80 :: byte)"
  "(ucast (v AND (0x7f :: u64)) OR 0x80) AND 0x7f = (ucast (v AND 0x7f) :: byte)"
  by (simp_all add: byte_high bit_simps bit_7f bit_80) (auto intro!: bit_word_eqI simp: bit_simps bit_7f bit_80)

lemma varint_piece:
  "(x OR push_bit s (ucast (ucast (v AND 0x7f) :: byte))) OR push_bit (s + 7) (drop_bit 7 v) = x OR push_bit s (v :: u64)"
proof (rule bit_word_eqI)
  fix n assume "n < LENGTH(64)"
  then show "bit ((x OR push_bit s (ucast (ucast (v AND 0x7f) :: byte))) OR push_bit (s + 7) (drop_bit 7 v)) n = bit (x OR push_bit s v) n"
    by (cases "s + 7 \<le> n") (auto simp: bit_simps bit_7f)
qed

lemma consume_encode_loop:
  assumes "s + 7 * n = 70" "drop_bit (64 - s) v = (0 :: u64)" "s < 64"
  shows "consumeVarint_loop x s (encodeVarint_loop n v @ r) = Inr (x OR push_bit s v, r)"
  using assms
proof (induction n arbitrary: s v x)
  case (Suc n)
  show ?case
  proof (cases "v < 0x80")
    case True
    then show ?thesis using Suc.prems by (simp add: varint_byte varint_small Let_def)
  next
    case False
    have s: "s + 7 < 64"
    proof (rule ccontr)
      assume "\<not> s + 7 < 64"
      then have "64 - s \<le> 7" by simp
      have "drop_bit 7 v = drop_bit (7 - (64 - s)) (drop_bit (64 - s) v)"
        using \<open>64 - s \<le> 7\<close> by (simp add: drop_bit_drop_bit)
      then have "drop_bit 7 v = 0" using Suc.prems(2) by simp
      then have "unat (drop_bit 7 v) = 0" by simp
      then have "drop_bit 7 (unat v) = 0" by (simp only: unat_drop_bit_eq)
      then have "unat v div 128 = 0" by (simp add: drop_bit_eq_div)
      then show False using False by (simp add: word_less_nat_alt div_eq_0_iff)
    qed
    have d: "drop_bit (64 - (s + 7)) (drop_bit 7 v) = 0"
      using s Suc.prems(2) by (simp add: drop_bit_drop_bit)
    have n: "s + 7 + 7 * n = 70" using Suc.prems(1) by simp
    have "consumeVarint_loop (x OR push_bit s (ucast (ucast (v AND 0x7f) :: byte))) (s + 7) (encodeVarint_loop n (drop_bit 7 v) @ r)
        = Inr (x OR push_bit s v, r)"
      by (simp only: Suc.IH [OF n d s] varint_piece)
    then show ?thesis
      by (simp only: encodeVarint_loop.simps Let_def if_not_P [OF False] append_Cons consumeVarint_loop.simps
          if_not_P [OF varint_byte(2)] varint_byte(3))
  qed
qed simp

lemma consume_encode [codec, simp]: "consumeVarint (encodeVarint v @ r) = Inr (v, r)"
proof -
  have "drop_bit 64 v = 0" by (rule bit_word_eqI) (simp add: bit_simps)
  then show ?thesis using consume_encode_loop [of 0 10 v 0 r] by (simp add: consumeVarint_def encodeVarint_def)
qed

text \<open>The messages that the state machine builds: a chunk where the kind has one, and nothing else.\<close>

definition message_ok :: "v1Message \<Rightarrow> bool" where
  "message_ok m \<longleftrightarrow> (case mp_chunk (vm_payload m) of
       None \<Rightarrow> \<not> hasChunk (mp_kind (vm_payload m))
     | Some c \<Rightarrow> hasChunk (mp_kind (vm_payload m)) \<and> length (chunk_data c) = polyChunkDataSize)"

text \<open>The flag \<^verbatim>\<open>ack\<close> of a payload is never sent.\<close>

lemma v1Message_roundtrip:
  assumes "message_ok m"
  shows "deserializeV1Message (v1Message_serialize m index) = Inr (m\<lparr>vm_payload := (vm_payload m)\<lparr>mp_ack := False\<rparr>\<rparr>, index)"
proof -
  have idx: "ucast (ucast i :: u64) = i" for i :: u32 by (rule bit_word_eqI) (simp add: bit_simps)
  have cidx: "ucast (ucast i :: u64) = i" for i :: u16 by (rule bit_word_eqI) (simp add: bit_simps)
  show ?thesis
    using assms
    by (cases m; cases "mp_chunk (vm_payload m)"; cases "the (mp_chunk (vm_payload m))")
      (auto simp: message_ok_def v1Message_serialize_def deserializeV1Message_def idx cidx Let_def)
qed

lemma chunkAt_length [simp]: "length (chunk_data (chunkAt e k)) = polyChunkDataSize"
  by (simp add: chunkAt_def Let_def length_concat o_def polyNumPolys_def polyChunkDataSize_def sum_list_triv)

end
