(* ===== verification/SPQR_Chain.thy ===== *)
theory SPQR_Chain
  imports SPQR_Message Chain Crypto
begin

text \<open>
  The message-key chains of the post-quantum ratchet (\<^verbatim>\<open>spqr/chain.go\<close>).  Every epoch has a chain per direction;
  the receiving side serves keys out of order within a window.  A missing map of stored keys is the empty
  map, and an absent \<^verbatim>\<open>next\<close> is the empty byte string, as in Go's \<^verbatim>\<open>len\<close>.  The methods are modelled for the
  receiver that their callers have, which is never \<^verbatim>\<open>nil\<close>.
\<close>

section \<open>Parameters and stored keys\<close>

definition chainDefaultMaxJump :: u32 where "chainDefaultMaxJump = 25000"
definition chainDefaultMaxOOO :: u32 where "chainDefaultMaxOOO = 2000"
definition epochsToKeepPriorToSend :: nat where "epochsToKeepPriorToSend = 1"

record ChainParams =
  cp_MaxJump :: u32
  cp_MaxOOO :: u32

definition maxJump :: "ChainParams \<Rightarrow> u32" where
  "maxJump p = (if cp_MaxJump p = 0 then chainDefaultMaxJump else cp_MaxJump p)"

definition maxOOO :: "ChainParams \<Rightarrow> u32" where
  "maxOOO p = (if cp_MaxOOO p = 0 then chainDefaultMaxOOO else cp_MaxOOO p)"

type_synonym keyHistory = "(u32, bytes) fmap"

definition keyHistory_add :: "u32 \<Rightarrow> bytes \<Rightarrow> keyHistory \<Rightarrow> keyHistory" where
  "keyHistory_add idx key h = fmupd idx key h"

definition keyHistory_clear :: "keyHistory \<Rightarrow> keyHistory" where
  "keyHistory_clear h = fmempty"

definition keyHistory_gc :: "u32 \<Rightarrow> u32 \<Rightarrow> keyHistory \<Rightarrow> keyHistory" where
  "keyHistory_gc current ooo h = fmfilter (\<lambda>idx. \<not> idx + ooo < current) h"

definition keyHistory_get :: "u32 \<Rightarrow> u32 \<Rightarrow> u32 \<Rightarrow> keyHistory \<Rightarrow> bytes res \<times> keyHistory" where
  "keyHistory_get idx current ooo h =
     (if idx + ooo < current then (Inl ErrSpqrKeyTrimmed, h)
      else case fmlookup h idx of
        None \<Rightarrow> (Inl ErrSpqrKeyAlreadyRequested, h)
      | Some key \<Rightarrow> (Inr key, fmdrop idx h))"

section \<open>One direction of one epoch\<close>

record chainEpochDirection =
  cd_ctr :: u32
  cd_next :: bytes
  cd_prev :: keyHistory

definition newChainEpochDirection :: "bytes \<Rightarrow> chainEpochDirection" where
  "newChainEpochDirection seed = \<lparr>cd_ctr = 0, cd_next = seed, cd_prev = fmempty\<rparr>"

definition chainInfoStart :: bytes where "chainInfoStart = ascii ''Signal PQ Ratchet V1 Chain  Start''"
definition chainInfoAddEpoch :: bytes where "chainInfoAddEpoch = ascii ''Signal PQ Ratchet V1 Chain Add Epoch''"
definition chainInfoNext :: bytes where "chainInfoNext = ascii ''Signal PQ Ratchet V1 Chain Next''"

definition hkdfTo :: "'z prims_scheme \<Rightarrow> bytes \<Rightarrow> bytes option \<Rightarrow> bytes \<Rightarrow> nat \<Rightarrow> bytes res" where
  "hkdfTo P ikm salt info len =
     HKDF P ikm (case salt of None \<Rightarrow> replicate 32 0 | Some s \<Rightarrow> s) info len"

text \<open>Go's \<^verbatim>\<open>copy(dst, src)\<close> keeps the length of the destination.\<close>

definition copy_into :: "bytes \<Rightarrow> bytes \<Rightarrow> bytes" where
  "copy_into dst src = take (length dst) src @ drop (length src) dst"

definition nextKey :: "'z prims_scheme \<Rightarrow> chainEpochDirection \<Rightarrow> (u32 \<times> bytes) res \<times> chainEpochDirection" where
  "nextKey P d =
     (if cd_next d = [] then (Inl ErrSpqrKeyAlreadyRequested, d)
      else
        let ctr = cd_ctr d + 1; d = d\<lparr>cd_ctr := ctr\<rparr> in
        case hkdfTo P (cd_next d) None (put_u32 ctr @ chainInfoNext) 64 of
          Inl e \<Rightarrow> (Inl e, d)
        | Inr okm \<Rightarrow> (Inr (ctr, arr 32 (drop 32 okm)), d\<lparr>cd_next := copy_into (cd_next d) (take 32 okm)\<rparr>))"

lemma nextKey_ctr: "nextKey P d = (Inr r, d') \<Longrightarrow> cd_ctr d' = cd_ctr d + 1"
  by (auto simp: nextKey_def Let_def split: if_splits sum.splits)

text \<open>The loop that skips to the key before \<open>at\<close>.\<close>

function key_loop :: "'z prims_scheme \<Rightarrow> u32 \<Rightarrow> u32 \<Rightarrow> chainEpochDirection \<Rightarrow> unit res \<times> chainEpochDirection" where
  "key_loop P ooo at d =
     (if cd_ctr d + 1 < at
      then case nextKey P d of
          (Inl e, d) \<Rightarrow> (Inl e, d)
        | (Inr (idx, key), d) \<Rightarrow>
            key_loop P ooo at (if idx + ooo \<ge> at then d\<lparr>cd_prev := keyHistory_add idx key (cd_prev d)\<rparr> else d)
      else (Inr (), d))"
  by pat_completeness auto
termination
proof (relation "measure (\<lambda>(P, ooo, at, d). unat (at - (cd_ctr d + 1)))", goal_cases)
  case (2 P ooo at d x d' y idx key)
  let ?c = "cd_ctr d + 1"
  have "cd_ctr d' = ?c" using 2 nextKey_ctr [of P d "(idx, key)" d'] by simp
  moreover have "unat (at - (?c + 1)) < unat (at - ?c)"
  proof -
    define m where "m = at - ?c"
    have "m \<noteq> 0" using 2(1) by (auto simp: m_def)
    then have "unat (m - 1) < unat m" by (simp add: unat_minus_one unat_gt_0)
    moreover have "at - (?c + 1) = m - 1" by (simp add: m_def)
    ultimately show ?thesis by (simp only: m_def)
  qed
  ultimately show ?case by simp
qed simp

definition direction_key :: "'z prims_scheme \<Rightarrow> u32 \<Rightarrow> ChainParams \<Rightarrow> chainEpochDirection \<Rightarrow> bytes res \<times> chainEpochDirection" where
  "direction_key P at params d =
     (let jump = maxJump params; ooo = maxOOO params in
      if at < cd_ctr d
      then let (r, h) = keyHistory_get at (cd_ctr d) ooo (cd_prev d) in (r, d\<lparr>cd_prev := h\<rparr>)
      else if at = cd_ctr d then (Inl ErrSpqrKeyAlreadyRequested, d)
      else if at - cd_ctr d > jump then (Inl ErrSpqrKeyJump, d)
      else
        let d = (if at > cd_ctr d + ooo then d\<lparr>cd_prev := keyHistory_clear (cd_prev d)\<rparr> else d) in
        bindS (key_loop P ooo at d) (\<lambda>_ d.
        let d = d\<lparr>cd_prev := keyHistory_gc (cd_ctr d) ooo (cd_prev d)\<rparr> in
        bindS (nextKey P d) (\<lambda>(_, key) d. (Inr key, d))))"

section \<open>The chain\<close>

record chainEpoch =
  ce_send :: chainEpochDirection
  ce_recv :: chainEpochDirection

record Chain =
  ch_dir :: Direction
  ch_currentEpoch :: u64
  ch_sendEpoch :: u64
  ch_links :: "chainEpoch list"
  ch_nextRoot :: bytes
  ch_params :: ChainParams

definition chainSeedsForDirection :: "bytes \<Rightarrow> Direction \<Rightarrow> bytes \<times> bytes" where
  "chainSeedsForDirection okm dir =
     (let first = take 32 (drop 32 okm); second = take 32 (drop 64 okm) in
      if dir = DirectionA2B then (first, second)
      else if dir = DirectionB2A then (second, first)
      else (first, second))"

definition newLink :: "bytes \<Rightarrow> Direction \<Rightarrow> chainEpoch" where
  "newLink okm dir =
     (let (sendSeed, recvSeed) = chainSeedsForDirection okm dir in
      \<lparr>ce_send = newChainEpochDirection sendSeed, ce_recv = newChainEpochDirection recvSeed\<rparr>)"

definition NewChain :: "'z prims_scheme \<Rightarrow> bytes \<Rightarrow> Direction \<Rightarrow> ChainParams \<Rightarrow> Chain res" where
  "NewChain P authKey dir params =
     bindR (hkdfTo P authKey None chainInfoStart 96) (\<lambda>okm.
     Inr \<lparr>ch_dir = dir, ch_currentEpoch = 0, ch_sendEpoch = 0, ch_links = [newLink okm dir],
          ch_nextRoot = arr 32 (take 32 okm), ch_params = params\<rparr>)"

definition AddEpoch :: "'z prims_scheme \<Rightarrow> u64 \<Rightarrow> bytes \<Rightarrow> Chain \<Rightarrow> unit res \<times> Chain" where
  "AddEpoch P epoch secret c =
     (if epoch \<noteq> ch_currentEpoch c + 1 then (Inl ErrSpqrEpochOutOfRange, c)
      else case hkdfTo P secret (Some (ch_nextRoot c)) chainInfoAddEpoch 96 of
        Inl e \<Rightarrow> (Inl e, c)
      | Inr okm \<Rightarrow> (Inr (), c\<lparr>ch_nextRoot := copy_into (ch_nextRoot c) (take 32 okm), ch_currentEpoch := epoch,
            ch_links := ch_links c @ [newLink okm (ch_dir c)]\<rparr>))"

text \<open>
  The difference of the epochs is converted to a signed number; the index that comes out is in range
  unless the epochs are more than \<open>2^63\<close> apart, and indexing with it panics then.
\<close>

definition epochIndex :: "Chain \<Rightarrow> u64 \<Rightarrow> int res" where
  "epochIndex c epoch =
     (if epoch > ch_currentEpoch c then Inl ErrSpqrEpochOutOfRange
      else
        let back = sint (ch_currentEpoch c - epoch) in
        if back \<ge> int (length (ch_links c)) then Inl ErrSpqrEpochOutOfRange
        else Inr (int (length (ch_links c)) - 1 - back))"

definition link_index :: "Chain \<Rightarrow> u64 \<Rightarrow> nat res" where
  "link_index c epoch =
     bindR (epochIndex c epoch) (\<lambda>idx. if idx \<ge> int (length (ch_links c)) then Inl EPanic else Inr (nat idx))"

definition drop_send :: "chainEpoch \<Rightarrow> chainEpoch" where
  "drop_send l = l\<lparr>ce_send := (ce_send l)\<lparr>cd_next := []\<rparr>\<rparr>"

definition SendKey :: "'z prims_scheme \<Rightarrow> u64 \<Rightarrow> Chain \<Rightarrow> (u32 \<times> bytes) res \<times> Chain" where
  "SendKey P epoch c =
     (if epoch < ch_sendEpoch c then (Inl ErrSpqrSendKeyEpochDecreased, c)
      else case link_index c epoch of
        Inl e \<Rightarrow> (Inl e, c)
      | Inr idx \<Rightarrow>
          let (c, idx) =
            (if epoch \<noteq> ch_sendEpoch c
             then let links = drop (idx - epochsToKeepPriorToSend) (ch_links c); idx = min idx epochsToKeepPriorToSend in
               (c\<lparr>ch_sendEpoch := epoch, ch_links := map drop_send (take idx links) @ drop idx links\<rparr>, idx)
             else (c, idx));
            link = ch_links c ! idx; (r, d) = nextKey P (ce_send link)
          in (r, c\<lparr>ch_links := (ch_links c)[idx := link\<lparr>ce_send := d\<rparr>]\<rparr>))"

definition RecvKey :: "'z prims_scheme \<Rightarrow> u64 \<Rightarrow> u32 \<Rightarrow> Chain \<Rightarrow> bytes res \<times> Chain" where
  "RecvKey P epoch index c =
     (case link_index c epoch of
        Inl e \<Rightarrow> (Inl e, c)
      | Inr idx \<Rightarrow>
          let link = ch_links c ! idx; (r, d) = direction_key P index (ch_params c) (ce_recv link)
          in (r, c\<lparr>ch_links := (ch_links c)[idx := link\<lparr>ce_recv := d\<rparr>]\<rparr>))"

section \<open>The keys of a direction\<close>

definition hkdf_bytes :: "'z prims_scheme \<Rightarrow> bytes \<Rightarrow> bytes \<Rightarrow> bytes \<Rightarrow> nat \<Rightarrow> bytes" where
  "hkdf_bytes P ikm salt info len = map (hkdf_stream P (HKDFExtract P salt ikm) info) [0..<len]"

lemma hkdfTo_bytes: "len \<le> 255 * 32 \<Longrightarrow> hkdfTo P ikm salt info len = Inr (hkdf_bytes P ikm (case salt of None \<Rightarrow> replicate 32 0 | Some s \<Rightarrow> s) info len)"
  by (simp add: hkdfTo_def HKDF_def HKDFExpand_def hkdfMaxLength_def hkdf_bytes_def)

lemma length_hkdf_bytes [simp]: "length (hkdf_bytes P ikm salt info len) = len"
  by (simp add: hkdf_bytes_def)

text \<open>A step of the chain: counter and key to the next counter and key, and the message key.\<close>

definition dir_kdf :: "'z prims_scheme \<Rightarrow> u32 \<times> bytes \<Rightarrow> (u32 \<times> bytes) \<times> bytes" where
  "dir_kdf P s =
     (let okm = hkdf_bytes P (snd s) (replicate 32 0) (put_u32 (fst s + 1) @ chainInfoNext) 64 in
      ((fst s + 1, take 32 okm), drop 32 okm))"

definition dir_key :: "'z prims_scheme \<Rightarrow> bytes \<Rightarrow> u32 \<Rightarrow> bytes" where
  "dir_key P seed i = chain_msg (dir_kdf P) (0, seed) (unat i - 1)"

definition dir_at :: "'z prims_scheme \<Rightarrow> bytes \<Rightarrow> chainEpochDirection \<Rightarrow> bool" where
  "dir_at P seed d \<longleftrightarrow> length seed = 32 \<and> chain_key (dir_kdf P) (0, seed) (unat (cd_ctr d)) = (cd_ctr d, cd_next d)"

lemma chain_key_ctr: "fst (chain_key (dir_kdf P) (0, seed) n) = of_nat n"
  by (induction n) (simp_all add: dir_kdf_def Let_def)

lemma length_dir_chain_key: "length seed = 32 \<Longrightarrow> length (snd (chain_key (dir_kdf P) (0, seed) n)) = 32"
  by (induction n) (simp_all add: dir_kdf_def Let_def)

lemma length_dir_key [simp]: "length (dir_key P seed i) = 32"
  by (simp add: dir_key_def chain_msg_def dir_kdf_def Let_def)

lemma dir_at_length: "dir_at P seed d \<Longrightarrow> length (cd_next d) = 32"
  using length_dir_chain_key [of seed P "unat (cd_ctr d)"] by (auto simp: dir_at_def)

lemma dir_at_new: "length seed = 32 \<Longrightarrow> dir_at P seed (newChainEpochDirection seed)"
  by (simp add: dir_at_def newChainEpochDirection_def)

text \<open>Short of the last counter value, the next key of a direction is the one its seed determines.\<close>

lemma nextKey_at:
  assumes "dir_at P seed d" "cd_ctr d \<noteq> MaxUint32"
  shows "\<exists>d'. nextKey P d = (Inr (cd_ctr d + 1, dir_key P seed (cd_ctr d + 1)), d') \<and> dir_at P seed d' \<and>
     cd_ctr d' = cd_ctr d + 1 \<and> cd_prev d' = cd_prev d"
proof -
  have l: "length (cd_next d) = 32" by (rule dir_at_length [OF assms(1)])
  have n: "unat (cd_ctr d + 1) = Suc (unat (cd_ctr d))" by (rule unat_inc_Max [OF assms(2)])
  have s: "chain_key (dir_kdf P) (0, seed) (unat (cd_ctr d)) = (cd_ctr d, cd_next d)" "length seed = 32"
    using assms(1) by (simp_all add: dir_at_def)
  let ?okm = "hkdf_bytes P (cd_next d) (replicate 32 0) (put_u32 (cd_ctr d + 1) @ chainInfoNext) 64"
  have "nextKey P d = (Inr (cd_ctr d + 1, drop 32 ?okm), d\<lparr>cd_ctr := cd_ctr d + 1, cd_next := take 32 ?okm\<rparr>)"
    using l by (auto simp: nextKey_def Let_def hkdfTo_bytes copy_into_def)
  moreover have "dir_at P seed (d\<lparr>cd_ctr := cd_ctr d + 1, cd_next := take 32 ?okm\<rparr>)"
    using s by (simp add: dir_at_def n dir_kdf_def Let_def)
  moreover have "dir_key P seed (cd_ctr d + 1) = drop 32 ?okm"
    using s by (simp add: dir_key_def n chain_msg_def dir_kdf_def Let_def)
  ultimately show ?thesis by simp
qed

section \<open>The receiving window\<close>

text \<open>What the skipping loop leaves behind: the keys that the window still covers.\<close>

lemma key_loop_at:
  assumes "dir_at P seed d" "cd_ctr d < at"
  shows "\<exists>d'. key_loop P ooo at d = (Inr (), d') \<and> dir_at P seed d' \<and> cd_ctr d' + 1 = at \<and>
     (\<forall>i. fmlookup (cd_prev d') i =
        (if cd_ctr d < i \<and> i < at \<and> at \<le> i + ooo then Some (dir_key P seed i) else fmlookup (cd_prev d) i))"
  using assms
proof (induction P ooo at d rule: key_loop.induct)
  case (1 P ooo at d)
  have "cd_ctr d \<noteq> MaxUint32"
    using 1(3) by (auto simp: MaxUint32_def)
  then have inc: "unat (cd_ctr d + 1) = Suc (unat (cd_ctr d))" by (rule unat_inc_Max)
  show ?case
  proof (cases "cd_ctr d + 1 < at")
    case True
    obtain d1 where d1: "nextKey P d = (Inr (cd_ctr d + 1, dir_key P seed (cd_ctr d + 1)), d1)" "dir_at P seed d1"
      "cd_ctr d1 = cd_ctr d + 1" "cd_prev d1 = cd_prev d"
      using nextKey_at [OF 1(2) \<open>cd_ctr d \<noteq> MaxUint32\<close>] by blast
    let ?k = "cd_ctr d + 1"
    let ?d2 = "if ?k + ooo \<ge> at then d1\<lparr>cd_prev := keyHistory_add ?k (dir_key P seed ?k) (cd_prev d1)\<rparr> else d1"
    have d2: "dir_at P seed ?d2" "cd_ctr ?d2 = ?k" using d1 by (simp_all add: dir_at_def)
    obtain d' where d': "key_loop P ooo at ?d2 = (Inr (), d')" "dir_at P seed d'" "cd_ctr d' + 1 = at"
      "\<And>i. fmlookup (cd_prev d') i =
        (if ?k < i \<and> i < at \<and> at \<le> i + ooo then Some (dir_key P seed i) else fmlookup (cd_prev ?d2) i)"
      using 1(1) [OF True d1(1) [symmetric] refl refl] d2 True by auto
    have "key_loop P ooo at d = (Inr (), d')"
      using True d1(1) d'(1) by (subst key_loop.simps) simp
    moreover have "cd_ctr d < i \<longleftrightarrow> i = ?k \<or> ?k < i" for i
      by (simp add: word_less_nat_alt inc less_Suc_eq_le) (metis inc le_eq_less_or_eq less_eq_Suc_le word_unat_eq_iff)
    ultimately show ?thesis
      using d' d1(4) True by (auto simp: keyHistory_add_def)
  next
    case False
    then have "cd_ctr d + 1 = at"
      using 1(3) by (simp add: word_less_nat_alt word_unat_eq_iff inc)
    moreover have "\<not> (cd_ctr d < i \<and> i < at)" for i
      using calculation inc by (auto simp: word_less_nat_alt)
    ultimately show ?thesis using 1(2) by (subst key_loop.simps) auto
  qed
qed

text \<open>
  The receiving side with the set \<open>R\<close> of indices that were asked for: the counter is the highest of them,
  and what is stored are the keys of the other indices, as far back as the window reaches.
\<close>

definition recv_inv :: "'z prims_scheme \<Rightarrow> u32 \<Rightarrow> bytes \<Rightarrow> u32 set \<Rightarrow> chainEpochDirection \<Rightarrow> bool" where
  "recv_inv P ooo seed R d \<longleftrightarrow> dir_at P seed d \<and> unat (cd_ctr d) + unat ooo < 2 ^ 32 \<and>
     (\<forall>i \<in> R. i \<le> cd_ctr d) \<and> (cd_ctr d = 0 \<or> cd_ctr d \<in> R) \<and> 0 \<notin> R \<and>
     (\<forall>i k. fmlookup (cd_prev d) i = Some k \<longrightarrow> 0 < i \<and> i < cd_ctr d \<and> i \<notin> R \<and> k = dir_key P seed i) \<and>
     (\<forall>i. 0 < i \<longrightarrow> i < cd_ctr d \<longrightarrow> i \<notin> R \<longrightarrow> cd_ctr d \<le> i + ooo \<longrightarrow> i |\<in>| fmdom (cd_prev d))"

text \<open>The specification of the window: which request is answered, and with which error the others fail.\<close>

definition window_error :: "ChainParams \<Rightarrow> u32 set \<Rightarrow> u32 \<Rightarrow> err option" where
  "window_error params R at =
     (let ctr = Max (insert 0 R) in
      if at < ctr \<and> unat at + unat (maxOOO params) < unat ctr then Some ErrSpqrKeyTrimmed
      else if at = 0 \<or> at \<in> R then Some ErrSpqrKeyAlreadyRequested
      else if ctr < at \<and> unat at - unat ctr > unat (maxJump params) then Some ErrSpqrKeyJump
      else None)"

lemma recv_inv_ctr: "recv_inv P ooo seed R d \<Longrightarrow> Max (insert 0 R) = cd_ctr d"
  by (rule Max_eqI) (auto simp: recv_inv_def)

lemma recv_inv_new: "length seed = 32 \<Longrightarrow> recv_inv P ooo seed {} (newChainEpochDirection seed)"
  using dir_at_new [of seed P] unat_u32_less [of ooo] by (simp add: recv_inv_def newChainEpochDirection_def)

lemma direction_key_old:
  assumes "recv_inv P (maxOOO params) seed R d" "at \<le> cd_ctr d"
  shows "case window_error params R at of
      Some e \<Rightarrow> direction_key P at params d = (Inl e, d)
    | None \<Rightarrow> \<exists>d'. direction_key P at params d = (Inr (dir_key P seed at), d') \<and>
        recv_inv P (maxOOO params) seed (insert at R) d' \<and> cd_ctr d' = cd_ctr d"
proof -
  let ?o = "maxOOO params"
  have inv: "dir_at P seed d" "unat (cd_ctr d) + unat ?o < 2 ^ 32" "\<And>i. i \<in> R \<Longrightarrow> i \<le> cd_ctr d"
    "cd_ctr d = 0 \<or> cd_ctr d \<in> R" "0 \<notin> R"
    "\<And>i k. fmlookup (cd_prev d) i = Some k \<Longrightarrow> 0 < i \<and> i < cd_ctr d \<and> i \<notin> R \<and> k = dir_key P seed i"
    "\<And>i. 0 < i \<Longrightarrow> i < cd_ctr d \<Longrightarrow> i \<notin> R \<Longrightarrow> cd_ctr d \<le> i + ?o \<Longrightarrow> i |\<in>| fmdom (cd_prev d)"
    using assms(1) unfolding recv_inv_def by blast+
  have sum: "unat (i + ?o) = unat i + unat ?o" if "i \<le> cd_ctr d" for i
    using inv(2) that by (simp add: word_le_nat_alt unat_word_ariths)
  show ?thesis
  proof (cases "at < cd_ctr d")
    case False
    then have at: "at = cd_ctr d" using assms(2) by simp
    then show ?thesis
      using inv(4) by (auto simp: window_error_def recv_inv_ctr [OF assms(1)] Let_def direction_key_def Let_def)
  next
    case True
    have trim: "at + ?o < cd_ctr d \<longleftrightarrow> unat at + unat ?o < unat (cd_ctr d)"
      using sum [OF assms(2)] by (simp add: word_less_nat_alt)
    show ?thesis
    proof (cases "fmlookup (cd_prev d) at")
      case None
      then have "at + ?o < cd_ctr d \<or> at = 0 \<or> at \<in> R"
        using inv(7) [of at] True by (metis fmdom_notI not_less word_gt_0)
      with None True trim show ?thesis
        by (auto simp: window_error_def recv_inv_ctr [OF assms(1)] Let_def direction_key_def keyHistory_get_def Let_def)
    next
      case (Some k)
      then have k: "0 < at" "at \<notin> R" "k = dir_key P seed at" using inv(6) by blast+
      have "recv_inv P ?o seed (insert at R) (d\<lparr>cd_prev := fmdrop at (cd_prev d)\<rparr>)"
        using inv k True unfolding recv_inv_def by (auto simp: dir_at_def split: if_splits)
      with Some k True trim show ?thesis
        by (auto simp: window_error_def recv_inv_ctr [OF assms(1)] Let_def direction_key_def keyHistory_get_def Let_def)
    qed
  qed
qed

lemma direction_key_new:
  assumes "recv_inv P (maxOOO params) seed R d" "cd_ctr d < at" "unat at + unat (maxOOO params) < 2 ^ 32"
  shows "case window_error params R at of
      Some e \<Rightarrow> direction_key P at params d = (Inl e, d)
    | None \<Rightarrow> \<exists>d'. direction_key P at params d = (Inr (dir_key P seed at), d') \<and>
        recv_inv P (maxOOO params) seed (insert at R) d' \<and> cd_ctr d' = at"
proof -
  let ?o = "maxOOO params"
  have inv: "dir_at P seed d" "unat (cd_ctr d) + unat ?o < 2 ^ 32" "\<And>i. i \<in> R \<Longrightarrow> i \<le> cd_ctr d"
    "cd_ctr d = 0 \<or> cd_ctr d \<in> R" "0 \<notin> R"
    "\<And>i k. fmlookup (cd_prev d) i = Some k \<Longrightarrow> 0 < i \<and> i < cd_ctr d \<and> i \<notin> R \<and> k = dir_key P seed i"
    "\<And>i. 0 < i \<Longrightarrow> i < cd_ctr d \<Longrightarrow> i \<notin> R \<Longrightarrow> cd_ctr d \<le> i + ?o \<Longrightarrow> i |\<in>| fmdom (cd_prev d)"
    using assms(1) unfolding recv_inv_def by blast+
  have sum: "unat (i + ?o) = unat i + unat ?o" if "i \<le> at" for i
    using assms(3) that by (simp add: word_le_nat_alt unat_word_ariths)
  have notin: "at \<notin> R" using inv(3) [of at] assms(2) by auto
  have diff: "unat (at - cd_ctr d) = unat at - unat (cd_ctr d)"
    using assms(2) by (simp add: unat_sub word_le_nat_alt word_less_nat_alt)
  have "0 < at" using assms(2) by (metis word_gt_0 word_not_simps(1))
  show ?thesis
  proof (cases "at - cd_ctr d > maxJump params")
    case True
    then show ?thesis
      using assms(2) notin diff \<open>0 < at\<close>
      by (auto simp: window_error_def recv_inv_ctr [OF assms(1)] Let_def direction_key_def Let_def word_less_nat_alt)
  next
    case False
    let ?d1 = "if at > cd_ctr d + ?o then d\<lparr>cd_prev := keyHistory_clear (cd_prev d)\<rparr> else d"
    have d1: "dir_at P seed ?d1" "cd_ctr ?d1 = cd_ctr d" using inv(1) by (simp_all add: dir_at_def)
    obtain d2 where d2: "key_loop P ?o at ?d1 = (Inr (), d2)" "dir_at P seed d2" "cd_ctr d2 + 1 = at"
      "\<And>i. fmlookup (cd_prev d2) i =
        (if cd_ctr d < i \<and> i < at \<and> at \<le> i + ?o then Some (dir_key P seed i) else fmlookup (cd_prev ?d1) i)"
      using key_loop_at [OF d1(1), of at ?o] assms(2) d1(2) by auto
    let ?d3 = "d2\<lparr>cd_prev := keyHistory_gc (cd_ctr d2) ?o (cd_prev d2)\<rparr>"
    have c2: "cd_ctr d2 \<noteq> MaxUint32" using d2(3) \<open>0 < at\<close> by (auto simp: MaxUint32_def)
    have d3: "dir_at P seed ?d3" "cd_ctr ?d3 \<noteq> MaxUint32" using d2 c2 by (simp_all add: dir_at_def)
    obtain d4 where d4: "nextKey P ?d3 = (Inr (at, dir_key P seed at), d4)" "dir_at P seed d4" "cd_ctr d4 = at" "cd_prev d4 = cd_prev ?d3"
      using nextKey_at [OF d3] d2(3) by auto
    have res: "direction_key P at params d = (Inr (dir_key P seed at), d4)"
      using assms(2) False d2(1) d4(1) by (auto simp: direction_key_def Let_def)
    have look: "fmlookup (cd_prev d4) i = (if i + ?o < cd_ctr d2 then None else fmlookup (cd_prev d2) i)" for i
      using d4(4) by (simp add: keyHistory_gc_def)
    have c2at: "unat at = Suc (unat (cd_ctr d2))" using d2(3) unat_inc_Max [OF c2] by simp
    have "recv_inv P ?o seed (insert at R) d4"
      unfolding recv_inv_def
    proof (intro conjI allI impI ballI)
      show "dir_at P seed d4" by (fact d4)
      show "unat (cd_ctr d4) + unat ?o < 2 ^ 32" using assms(3) d4(3) by simp
      show "cd_ctr d4 = 0 \<or> cd_ctr d4 \<in> insert at R" using d4(3) by simp
      show "0 \<notin> insert at R" using inv(5) \<open>0 < at\<close> by auto
      show "i \<le> cd_ctr d4" if "i \<in> insert at R" for i
        using that inv(3) [of i] assms(2) d4(3) by auto
      show "0 < i" "i < cd_ctr d4" "i \<notin> insert at R" "k = dir_key P seed i" if "fmlookup (cd_prev d4) i = Some k" for i k
        using that inv(3) [of i] inv(6) [of i k] assms(2) d4(3) le_less_trans [OF word_zero_le, of "cd_ctr d" i]
        by (auto simp: look d2(4) keyHistory_clear_def split: if_splits dest: order.strict_trans le_less_trans)
      show "i |\<in>| fmdom (cd_prev d4)"
        if i: "0 < i" "i < cd_ctr d4" "i \<notin> insert at R" "cd_ctr d4 \<le> i + ?o" for i
      proof -
        have iat: "i < at" "at \<le> i + ?o" using i d4(3) by simp_all
        then have keep: "\<not> i + ?o < cd_ctr d2" using c2at by (simp add: word_less_nat_alt word_le_nat_alt)
        show ?thesis
        proof (cases "cd_ctr d < i")
          case True
          then show ?thesis using keep iat by (simp add: look d2(4) fmlookup_dom_iff)
        next
          case False
          then have "i < cd_ctr d" using i(3) inv(4) i(1) by (metis insert_iff linorder_less_linear not_less_iff_gr_or_eq)
          moreover have "\<not> at > cd_ctr d + ?o"
            using iat calculation sum [of i] sum [of "cd_ctr d"] assms(2) by (simp add: word_less_nat_alt word_le_nat_alt)
          moreover have "cd_ctr d \<le> i + ?o" using iat(2) assms(2) by simp
          ultimately show ?thesis
            using inv(7) [of i] i keep False by (auto simp: look d2(4) fmlookup_dom_iff)
        qed
      qed
    qed
    with res d4(3) show ?thesis
      using assms(2) False notin diff \<open>0 < at\<close> by (auto simp: window_error_def recv_inv_ctr [OF assms(1)] Let_def word_less_nat_alt)
  qed
qed

lemma direction_key_window:
  assumes "recv_inv P (maxOOO params) seed R d" "unat at + unat (maxOOO params) < 2 ^ 32"
  shows "case window_error params R at of
      Some e \<Rightarrow> direction_key P at params d = (Inl e, d)
    | None \<Rightarrow> \<exists>d'. direction_key P at params d = (Inr (dir_key P seed at), d') \<and>
        recv_inv P (maxOOO params) seed (insert at R) d'"
proof (cases "at \<le> cd_ctr d")
  case True
  from direction_key_old [OF assms(1) this] show ?thesis by (auto split: option.splits)
next
  case False
  then have "cd_ctr d < at" by simp
  from direction_key_new [OF assms(1) this assms(2)] show ?thesis by (auto split: option.splits)
qed

section \<open>The chain of epochs\<close>

text \<open>The key material of epoch \<open>n\<close>, given the authentication key and the secrets of the epochs.\<close>

primrec epoch_okm :: "'z prims_scheme \<Rightarrow> bytes \<Rightarrow> (nat \<Rightarrow> bytes) \<Rightarrow> nat \<Rightarrow> bytes" where
  "epoch_okm P auth sec 0 = hkdf_bytes P auth (replicate 32 0) chainInfoStart 96"
| "epoch_okm P auth sec (Suc n) = hkdf_bytes P (sec (Suc n)) (take 32 (epoch_okm P auth sec n)) chainInfoAddEpoch 96"

definition send_seed :: "'z prims_scheme \<Rightarrow> bytes \<Rightarrow> (nat \<Rightarrow> bytes) \<Rightarrow> Direction \<Rightarrow> nat \<Rightarrow> bytes" where
  "send_seed P auth sec dir e = fst (chainSeedsForDirection (epoch_okm P auth sec e) dir)"

definition recv_seed :: "'z prims_scheme \<Rightarrow> bytes \<Rightarrow> (nat \<Rightarrow> bytes) \<Rightarrow> Direction \<Rightarrow> nat \<Rightarrow> bytes" where
  "recv_seed P auth sec dir e = snd (chainSeedsForDirection (epoch_okm P auth sec e) dir)"

lemma length_epoch_okm [simp]: "length (epoch_okm P auth sec e) = 96"
  by (cases e) simp_all

lemma length_seeds [simp]: "length (send_seed P auth sec dir e) = 32" "length (recv_seed P auth sec dir e) = 32"
  by (simp_all add: send_seed_def recv_seed_def chainSeedsForDirection_def Let_def)

lemma seeds_switch:
  assumes "dir \<in> {DirectionA2B, DirectionB2A}"
  shows "recv_seed P auth sec (Direction_Switch dir) e = send_seed P auth sec dir e"
  using assms by (auto simp: send_seed_def recv_seed_def chainSeedsForDirection_def Direction_Switch_def
      DirectionA2B_def DirectionB2A_def Let_def)

lemma epoch_okm_cong: "(\<And>n. 0 < n \<Longrightarrow> n \<le> e \<Longrightarrow> sec n = sec' n) \<Longrightarrow> epoch_okm P auth sec e = epoch_okm P auth sec' e"
  by (induction e) simp_all

text \<open>
  A chain that has followed the secrets up to its current epoch: \<open>R e\<close> is the set of indices asked for in
  epoch \<open>e\<close>, \<open>S e\<close> that of the indices sent, and no sending counter is above \<open>N\<close>.
\<close>

definition chain_base :: "Chain \<Rightarrow> nat" where
  "chain_base c = Suc (unat (ch_currentEpoch c)) - length (ch_links c)"

definition chain_inv ::
  "'z prims_scheme \<Rightarrow> bytes \<Rightarrow> (nat \<Rightarrow> bytes) \<Rightarrow> Direction \<Rightarrow> ChainParams \<Rightarrow> nat \<Rightarrow>
    (nat \<Rightarrow> u32 set) \<Rightarrow> (nat \<Rightarrow> u32 set) \<Rightarrow> Chain \<Rightarrow> bool" where
  "chain_inv P auth sec dir params N S R c \<longleftrightarrow>
     ch_dir c = dir \<and> ch_params c = params \<and> ch_links c \<noteq> [] \<and>
     length (ch_links c) \<le> Suc (unat (ch_currentEpoch c)) \<and> unat (ch_currentEpoch c) < 2 ^ 63 \<and>
     ch_nextRoot c = take 32 (epoch_okm P auth sec (unat (ch_currentEpoch c))) \<and>
     chain_base c \<le> unat (ch_sendEpoch c) - 1 \<and> ch_sendEpoch c \<le> ch_currentEpoch c \<and>
     (\<forall>e. unat (ch_currentEpoch c) < e \<longrightarrow> R e = {} \<and> S e = {}) \<and>
     (\<forall>i < length (ch_links c).
        recv_inv P (maxOOO params) (recv_seed P auth sec dir (chain_base c + i)) (R (chain_base c + i)) (ce_recv (ch_links c ! i)) \<and>
        (unat (ch_sendEpoch c) \<le> chain_base c + i \<longrightarrow>
           dir_at P (send_seed P auth sec dir (chain_base c + i)) (ce_send (ch_links c ! i)) \<and>
           unat (cd_ctr (ce_send (ch_links c ! i))) \<le> N \<and> (\<forall>n \<in> S (chain_base c + i). n \<le> cd_ctr (ce_send (ch_links c ! i)))))"

lemma chain_inv_cong:
  assumes "\<And>n. n \<le> unat (ch_currentEpoch c) \<Longrightarrow> sec n = sec' n"
  shows "chain_inv P auth sec dir params N S R c \<longleftrightarrow> chain_inv P auth sec' dir params N S R c"
proof -
  have "epoch_okm P auth sec e = epoch_okm P auth sec' e" if "e \<le> unat (ch_currentEpoch c)" for e
    using assms that by (intro epoch_okm_cong) simp
  moreover have "chain_base c + i \<le> unat (ch_currentEpoch c)" if "i < length (ch_links c)" "length (ch_links c) \<le> Suc (unat (ch_currentEpoch c))" for i
    using that by (simp add: chain_base_def)
  ultimately show ?thesis
    unfolding chain_inv_def send_seed_def recv_seed_def by (auto cong: conj_cong)
qed

lemma chain_invD:
  assumes "chain_inv P auth sec dir params N S R c"
  shows "ch_links c \<noteq> []" "length (ch_links c) \<le> Suc (unat (ch_currentEpoch c))" "unat (ch_currentEpoch c) < 2 ^ 63"
    "chain_base c \<le> unat (ch_sendEpoch c)" "chain_base c \<le> unat (ch_sendEpoch c) - 1" "ch_sendEpoch c \<le> ch_currentEpoch c" "ch_params c = params" "ch_dir c = dir"
  using assms le_trans [OF _ diff_le_self, of "chain_base c" "unat (ch_sendEpoch c)" 1] by (auto simp add: chain_inv_def)

lemma chain_inv_mono: "chain_inv P auth sec dir params N S R c \<Longrightarrow> N \<le> N' \<Longrightarrow> chain_inv P auth sec dir params N' S R c"
  unfolding chain_inv_def by (meson le_trans)

lemma NewChain_inv:
  assumes "NewChain P auth dir params = Inr c"
  shows "chain_inv P auth sec dir params 0 (\<lambda>_. {}) (\<lambda>_. {}) c \<and> ch_currentEpoch c = 0 \<and> ch_sendEpoch c = 0"
proof -
  have c: "c = \<lparr>ch_dir = dir, ch_currentEpoch = 0, ch_sendEpoch = 0, ch_links = [newLink (epoch_okm P auth sec 0) dir],
      ch_nextRoot = take 32 (epoch_okm P auth sec 0), ch_params = params\<rparr>"
    using assms by (simp add: NewChain_def hkdfTo_bytes)
  have "newLink (epoch_okm P auth sec 0) dir = \<lparr>ce_send = newChainEpochDirection (send_seed P auth sec dir 0),
      ce_recv = newChainEpochDirection (recv_seed P auth sec dir 0)\<rparr>"
    by (simp add: newLink_def send_seed_def recv_seed_def split_beta)
  then show ?thesis
    by (simp add: c chain_inv_def chain_base_def recv_inv_new dir_at_new del: epoch_okm.simps)
      (simp add: newChainEpochDirection_def)
qed

lemma AddEpoch_inv:
  assumes "chain_inv P auth sec dir params N S R c" "unat epoch = Suc (unat (ch_currentEpoch c))"
    "secret = sec (unat epoch)" "unat epoch < 2 ^ 63"
  shows "\<exists>c'. AddEpoch P epoch secret c = (Inr (), c') \<and> chain_inv P auth sec dir params N S R c' \<and>
     ch_currentEpoch c' = epoch \<and> ch_sendEpoch c' = ch_sendEpoch c"
proof -
  note inv = assms(1) [unfolded chain_inv_def]
  define okm where "okm = epoch_okm P auth sec (unat epoch)"
  have e: "epoch = ch_currentEpoch c + 1"
    using assms(2,4) by (simp add: word_unat_eq_iff unat_word_ariths)
  have "hkdfTo P secret (Some (ch_nextRoot c)) chainInfoAddEpoch 96 = Inr okm"
    using inv by (simp add: hkdfTo_bytes assms(2,3) okm_def)
  moreover define c1 where "c1 = c\<lparr>ch_nextRoot := take 32 okm, ch_currentEpoch := epoch, ch_links := ch_links c @ [newLink okm (ch_dir c)]\<rparr>"
  ultimately have add: "AddEpoch P epoch secret c = (Inr (), c1)"
    using inv by (simp add: AddEpoch_def e copy_into_def okm_def)
  have link: "newLink okm dir = \<lparr>ce_send = newChainEpochDirection (send_seed P auth sec dir (unat epoch)),
      ce_recv = newChainEpochDirection (recv_seed P auth sec dir (unat epoch))\<rparr>"
    by (simp add: newLink_def send_seed_def recv_seed_def okm_def split_beta)
  have base: "chain_base c1 = chain_base c" "chain_base c + length (ch_links c) = unat epoch" "R (unat epoch) = {}" "S (unat epoch) = {}"
    using inv assms(2) by (simp_all add: chain_base_def c1_def)
  have "chain_inv P auth sec dir params N S R c1"
    unfolding chain_inv_def base(1)
  proof (intro conjI allI impI ballI)
    fix i assume "i < length (ch_links c1)"
    then consider "i < length (ch_links c)" "ch_links c1 ! i = ch_links c ! i"
      | "i = length (ch_links c)" "ch_links c1 ! i = newLink okm dir"
      using inv by (auto simp: c1_def nth_append less_Suc_eq)
    then show "recv_inv P (maxOOO params) (recv_seed P auth sec dir (chain_base c + i)) (R (chain_base c + i)) (ce_recv (ch_links c1 ! i))"
      by cases (use inv base in \<open>simp_all add: link recv_inv_new\<close>)
  next
    fix i assume "i < length (ch_links c1)" and s: "unat (ch_sendEpoch c1) \<le> chain_base c + i"
    then consider "i < length (ch_links c)" "ch_links c1 ! i = ch_links c ! i"
      | "i = length (ch_links c)" "ch_links c1 ! i = newLink okm dir"
      using inv by (auto simp: c1_def nth_append less_Suc_eq)
    then show "dir_at P (send_seed P auth sec dir (chain_base c + i)) (ce_send (ch_links c1 ! i))"
      "unat (cd_ctr (ce_send (ch_links c1 ! i))) \<le> N"
      by (cases; use inv base s in \<open>simp add: link dir_at_new c1_def\<close>; simp add: newChainEpochDirection_def)+
    fix n assume "n \<in> S (chain_base c + i)"
    with \<open>i < length (ch_links c1)\<close> have "i < length (ch_links c)" using base inv by (cases "i = length (ch_links c)") (auto simp: c1_def)
    then show "n \<le> cd_ctr (ce_send (ch_links c1 ! i))"
      using inv s \<open>n \<in> S (chain_base c + i)\<close> by (simp add: c1_def nth_append)
  qed (use inv assms(2,4) in \<open>auto simp: c1_def okm_def word_le_nat_alt\<close>)
  with add show ?thesis by (auto simp: c1_def)
qed

lemma sint_small: "unat (w :: u64) < 2 ^ 63 \<Longrightarrow> sint w = int (unat w)"
proof -
  assume "unat w < 2 ^ 63"
  then have "int (unat w) < int (2 ^ 63)" by (simp only: of_nat_less_iff)
  moreover have "- (2 ^ 63) \<le> uint w" by (rule order.trans [OF _ uint_ge_0]) simp
  ultimately have "signed_take_bit 63 (uint w) = uint w" by (intro signed_take_bit_int_eq_self) simp_all
  then show ?thesis by (simp add: sint_uint)
qed

lemma link_index_inv:
  assumes "chain_inv P auth sec dir params N S R c"
  shows "link_index c epoch = (if chain_base c \<le> unat epoch \<and> epoch \<le> ch_currentEpoch c
     then Inr (unat epoch - chain_base c) else Inl ErrSpqrEpochOutOfRange)"
    and "chain_base c \<le> unat epoch \<Longrightarrow> epoch \<le> ch_currentEpoch c \<Longrightarrow> unat epoch - chain_base c < length (ch_links c)"
proof -
  note inv = assms [unfolded chain_inv_def]
  show "chain_base c \<le> unat epoch \<Longrightarrow> epoch \<le> ch_currentEpoch c \<Longrightarrow> unat epoch - chain_base c < length (ch_links c)"
    using inv by (simp add: chain_base_def word_le_nat_alt)
  show "link_index c epoch = (if chain_base c \<le> unat epoch \<and> epoch \<le> ch_currentEpoch c
     then Inr (unat epoch - chain_base c) else Inl ErrSpqrEpochOutOfRange)"
  proof (cases "epoch \<le> ch_currentEpoch c")
    case True
    have "unat (ch_currentEpoch c - epoch) = unat (ch_currentEpoch c) - unat epoch" by (rule unat_sub [OF True])
    moreover have "unat (ch_currentEpoch c - epoch) < 2 ^ 63" using chain_invD(3) [OF assms] calculation by simp
    then have "sint (ch_currentEpoch c - epoch) = int (unat (ch_currentEpoch c - epoch))" by (rule sint_small)
    moreover define a b where "a = unat (ch_currentEpoch c)" and "b = unat epoch"
    ultimately have diff: "sint (ch_currentEpoch c - epoch) = int (a - b)" by simp
    have ab: "b \<le> a" "chain_base c = Suc a - length (ch_links c)" "length (ch_links c) \<le> Suc a"
      using True chain_invD(2) [OF assms] by (simp_all add: a_def b_def chain_base_def word_le_nat_alt)
    have "link_index c epoch = (if length (ch_links c) \<le> a - b then Inl ErrSpqrEpochOutOfRange
        else Inr (length (ch_links c) - 1 - (a - b)))"
      using True by (auto simp: link_index_def epochIndex_def Let_def diff nat_diff_distrib')
    with True ab show ?thesis by (auto simp flip: b_def)
  qed (simp add: link_index_def epochIndex_def not_le)
qed

text \<open>What a request for a key of the peer is answered with.\<close>

definition chain_error :: "ChainParams \<Rightarrow> nat \<Rightarrow> nat \<Rightarrow> (nat \<Rightarrow> u32 set) \<Rightarrow> nat \<Rightarrow> u32 \<Rightarrow> err option" where
  "chain_error params lo hi R e at =
     (if e < lo \<or> hi < e then Some ErrSpqrEpochOutOfRange else window_error params (R e) at)"

lemma RecvKey_window:
  assumes "chain_inv P auth sec dir params N S R c" "unat index + unat (maxOOO params) < 2 ^ 32"
  shows "case chain_error params (chain_base c) (unat (ch_currentEpoch c)) R (unat epoch) index of
      Some e \<Rightarrow> RecvKey P epoch index c = (Inl e, c)
    | None \<Rightarrow> \<exists>c'. RecvKey P epoch index c = (Inr (dir_key P (recv_seed P auth sec dir (unat epoch)) index), c') \<and>
        chain_inv P auth sec dir params N S (R(unat epoch := insert index (R (unat epoch)))) c' \<and>
        ch_currentEpoch c' = ch_currentEpoch c \<and> ch_sendEpoch c' = ch_sendEpoch c \<and> chain_base c' = chain_base c"
proof (cases "chain_base c \<le> unat epoch \<and> epoch \<le> ch_currentEpoch c")
  case False
  then show ?thesis
    by (auto simp: RecvKey_def link_index_inv [OF assms(1)] chain_error_def word_le_nat_alt)
next
  case True
  note inv = assms(1) [unfolded chain_inv_def]
  let ?i = "unat epoch - chain_base c"
  have i: "?i < length (ch_links c)" "chain_base c + ?i = unat epoch"
    using True link_index_inv(2) [OF assms(1)] by simp_all
  have idx: "link_index c epoch = Inr ?i" using True link_index_inv(1) [OF assms(1)] by simp
  have r: "recv_inv P (maxOOO params) (recv_seed P auth sec dir (unat epoch)) (R (unat epoch)) (ce_recv (ch_links c ! ?i))"
    using inv i by metis
  have err: "chain_error params (chain_base c) (unat (ch_currentEpoch c)) R (unat epoch) index = window_error params (R (unat epoch)) index"
    using True by (simp add: chain_error_def word_le_nat_alt)
  show ?thesis
  proof (cases "window_error params (R (unat epoch)) index")
    case (Some e)
    then show ?thesis
      using direction_key_window [OF r assms(2)] inv i by (simp add: err RecvKey_def idx Let_def)
  next
    case None
    then obtain d' where d': "direction_key P index params (ce_recv (ch_links c ! ?i)) = (Inr (dir_key P (recv_seed P auth sec dir (unat epoch)) index), d')"
      "recv_inv P (maxOOO params) (recv_seed P auth sec dir (unat epoch)) (insert index (R (unat epoch))) d'"
      using direction_key_window [OF r assms(2)] by auto
    let ?c = "c\<lparr>ch_links := (ch_links c)[?i := (ch_links c ! ?i)\<lparr>ce_recv := d'\<rparr>]\<rparr>"
    have base: "chain_base ?c = chain_base c" by (simp add: chain_base_def)
    have "chain_inv P auth sec dir params N S (R(unat epoch := insert index (R (unat epoch)))) ?c"
      unfolding chain_inv_def base using inv i d'(2) True by (auto simp: nth_list_update word_le_nat_alt)
    with None d'(1) inv base show ?thesis by (simp add: err RecvKey_def idx Let_def)
  qed
qed

text \<open>Sending in a later epoch drops the links of the epochs before its predecessor.\<close>

lemma chain_inv_trim:
  assumes "chain_inv P auth sec dir params N S R c" "ch_sendEpoch c < epoch" "epoch \<le> ch_currentEpoch c"
  defines "i \<equiv> unat epoch - chain_base c"
  defines "c1 \<equiv> c\<lparr>ch_sendEpoch := epoch, ch_links := drop_send (ch_links c ! (i - 1)) # drop i (ch_links c)\<rparr>"
  shows "chain_inv P auth sec dir params N S R c1 \<and> chain_base c1 + 1 = unat epoch \<and> 0 < i"
proof -
  note inv = assms(1) [unfolded chain_inv_def]
  have b: "chain_base c < unat epoch" using chain_invD(4) [OF assms(1)] assms(2) by (simp add: word_less_nat_alt)
  then have i: "0 < i" "i < length (ch_links c)" "chain_base c + i = unat epoch"
    using link_index_inv(2) [OF assms(1) _ assms(3)] by (simp_all add: i_def)
  have base: "chain_base c1 + 1 = unat epoch"
    using i chain_invD(1,2) [OF assms(1)] by (simp add: chain_base_def c1_def Suc_diff_le)
  have links: "ch_links c1 ! k = (if k = 0 then drop_send (ch_links c ! (i - 1)) else ch_links c ! (i - 1 + k))"
      "chain_base c1 + k = chain_base c + (i - 1 + k)" "i - 1 + k < length (ch_links c)" if "k < length (ch_links c1)" for k
    using that i base by (auto simp: c1_def nth_Cons split: nat.split)
  have "chain_inv P auth sec dir params N S R c1"
    unfolding chain_inv_def
  proof (intro conjI allI impI ballI)
    fix k assume k: "k < length (ch_links c1)"
    have l: "recv_inv P (maxOOO params) (recv_seed P auth sec dir (chain_base c + (i - 1 + k))) (R (chain_base c + (i - 1 + k)))
          (ce_recv (ch_links c ! (i - 1 + k))) \<and>
        (unat (ch_sendEpoch c) \<le> chain_base c + (i - 1 + k) \<longrightarrow>
           dir_at P (send_seed P auth sec dir (chain_base c + (i - 1 + k))) (ce_send (ch_links c ! (i - 1 + k))) \<and>
           unat (cd_ctr (ce_send (ch_links c ! (i - 1 + k)))) \<le> N \<and>
           (\<forall>n \<in> S (chain_base c + (i - 1 + k)). n \<le> cd_ctr (ce_send (ch_links c ! (i - 1 + k)))))"
      using inv links(3) [OF k] by blast
    then show "recv_inv P (maxOOO params) (recv_seed P auth sec dir (chain_base c1 + k)) (R (chain_base c1 + k)) (ce_recv (ch_links c1 ! k))"
      unfolding links(2) [OF k] using links(1) [OF k] by (cases "k = 0") (simp_all add: drop_send_def)
    assume "unat (ch_sendEpoch c1) \<le> chain_base c1 + k"
    then have "k \<noteq> 0" "unat (ch_sendEpoch c) \<le> chain_base c + (i - 1 + k)"
      using base assms(2) links(2) [OF k] by (auto simp: c1_def word_less_nat_alt)
    then show "dir_at P (send_seed P auth sec dir (chain_base c1 + k)) (ce_send (ch_links c1 ! k))" "unat (cd_ctr (ce_send (ch_links c1 ! k))) \<le> N"
      "\<And>n. n \<in> S (chain_base c1 + k) \<Longrightarrow> n \<le> cd_ctr (ce_send (ch_links c1 ! k))"
      unfolding links(2) [OF k] using l links(1) [OF k] by simp_all
  qed (use inv assms(3) i base in \<open>auto simp: c1_def\<close>)
  with base i(1) show ?thesis by simp
qed

lemma send_step:
  assumes "chain_inv P auth sec dir params N S R c" "Suc N < 2 ^ 32"
  defines "j \<equiv> unat (ch_sendEpoch c) - chain_base c"
  shows "\<exists>n d. nextKey P (ce_send (ch_links c ! j)) = (Inr (n, dir_key P (send_seed P auth sec dir (unat (ch_sendEpoch c))) n), d) \<and>
     chain_inv P auth sec dir params (Suc N) (S(unat (ch_sendEpoch c) := insert n (S (unat (ch_sendEpoch c))))) R
       (c\<lparr>ch_links := (ch_links c)[j := (ch_links c ! j)\<lparr>ce_send := d\<rparr>]\<rparr>) \<and>
     0 < n \<and> unat n \<le> Suc N \<and> (\<forall>i \<in> S (unat (ch_sendEpoch c)). i < n)"
proof -
  note inv = assms(1) [unfolded chain_inv_def]
  have j: "j < length (ch_links c)" "chain_base c + j = unat (ch_sendEpoch c)"
    using link_index_inv(2) [OF assms(1), of "ch_sendEpoch c"] chain_invD(4,6) [OF assms(1)] by (simp_all add: j_def)
  let ?d = "ce_send (ch_links c ! j)" and ?s = "send_seed P auth sec dir (unat (ch_sendEpoch c))"
  have d: "dir_at P ?s ?d" "unat (cd_ctr ?d) \<le> N" "\<And>i. i \<in> S (unat (ch_sendEpoch c)) \<Longrightarrow> i \<le> cd_ctr ?d"
    using inv j by force+
  have max: "cd_ctr ?d \<noteq> MaxUint32" using d(2) assms(2) by (auto simp: unat_MaxUint32)
  then obtain d' where d': "nextKey P ?d = (Inr (cd_ctr ?d + 1, dir_key P ?s (cd_ctr ?d + 1)), d')" "dir_at P ?s d'" "cd_ctr d' = cd_ctr ?d + 1"
    using nextKey_at [OF d(1)] by blast
  have n: "unat (cd_ctr ?d + 1) = Suc (unat (cd_ctr ?d))" using max by (rule unat_inc_Max)
  let ?c = "c\<lparr>ch_links := (ch_links c)[j := (ch_links c ! j)\<lparr>ce_send := d'\<rparr>]\<rparr>"
  have base: "chain_base ?c = chain_base c" by (simp add: chain_base_def)
  have less: "i < cd_ctr ?d + 1" if "i \<in> S (unat (ch_sendEpoch c))" for i
    using d(3) [OF that] n by (simp add: word_less_nat_alt word_le_nat_alt)
  have "chain_inv P auth sec dir params (Suc N) (S(unat (ch_sendEpoch c) := insert (cd_ctr ?d + 1) (S (unat (ch_sendEpoch c))))) R ?c"
    unfolding chain_inv_def base
  proof (intro conjI allI impI)
    fix i assume i: "i < length (ch_links ?c)" and s: "unat (ch_sendEpoch ?c) \<le> chain_base c + i"
    show "unat (cd_ctr (ce_send (ch_links ?c ! i))) \<le> Suc N"
      using inv i s d' d(2) n by (cases "i = j") (auto simp: le_SucI)
    show "\<forall>m \<in> (S(unat (ch_sendEpoch c) := insert (cd_ctr ?d + 1) (S (unat (ch_sendEpoch c))))) (chain_base c + i).
        m \<le> cd_ctr (ce_send (ch_links ?c ! i))"
      using inv i s j d' less by (cases "i = j") (auto intro: order.strict_implies_order)
  qed (use inv j d' in \<open>auto simp: nth_list_update word_le_nat_alt\<close>)
  with d'(1) n d(2) less show ?thesis by (auto simp: word_less_nat_alt)
qed

lemma SendKey_inv:
  assumes "chain_inv P auth sec dir params N S R c" "ch_sendEpoch c \<le> epoch" "epoch \<le> ch_currentEpoch c" "Suc N < 2 ^ 32"
  shows "\<exists>n c'. SendKey P epoch c = (Inr (n, dir_key P (send_seed P auth sec dir (unat epoch)) n), c') \<and>
     chain_inv P auth sec dir params (Suc N) (S(unat epoch := insert n (S (unat epoch)))) R c' \<and> 0 < n \<and> unat n \<le> Suc N \<and>
     (\<forall>i \<in> S (unat epoch). i < n) \<and> ch_currentEpoch c' = ch_currentEpoch c \<and> ch_sendEpoch c' = epoch"
proof -
  note inv = assms(1) [unfolded chain_inv_def]
  have range: "chain_base c \<le> unat epoch" using chain_invD(4) [OF assms(1)] assms(2) by (simp add: word_le_nat_alt)
  define i where "i = unat epoch - chain_base c"
  have idx: "link_index c epoch = Inr i" using range assms(3) link_index_inv(1) [OF assms(1)] by (simp add: i_def)
  show ?thesis
  proof (cases "epoch = ch_sendEpoch c")
    case True
    then show ?thesis
      using send_step [OF assms(1,4)] idx by (auto simp: SendKey_def Let_def i_def)
  next
    case False
    then have less: "ch_sendEpoch c < epoch" using assms(2) by simp
    let ?c1 = "c\<lparr>ch_sendEpoch := epoch, ch_links := drop_send (ch_links c ! (i - 1)) # drop i (ch_links c)\<rparr>"
    have t: "chain_inv P auth sec dir params N S R ?c1" "chain_base ?c1 + 1 = unat epoch" "0 < i"
      using chain_inv_trim [OF assms(1) less assms(3)] by (simp_all add: i_def)
    have len: "i < length (ch_links c)" using link_index_inv(2) [OF assms(1) range assms(3)] by (simp add: i_def)
    have cut: "map drop_send (take 1 (drop (i - 1) (ch_links c))) @ drop 1 (drop (i - 1) (ch_links c))
        = drop_send (ch_links c ! (i - 1)) # drop i (ch_links c)"
    proof -
      obtain m where "i = Suc m" using t(3) by (cases i) auto
      then show ?thesis using len Cons_nth_drop_Suc [of m "ch_links c", symmetric] by simp
    qed
    have "unat (ch_sendEpoch ?c1) - chain_base ?c1 = 1" using t(2) by simp
    then obtain n d where st: "nextKey P (ce_send (ch_links ?c1 ! 1)) = (Inr (n, dir_key P (send_seed P auth sec dir (unat epoch)) n), d)"
      "chain_inv P auth sec dir params (Suc N) (S(unat epoch := insert n (S (unat epoch)))) R (?c1\<lparr>ch_links := (ch_links ?c1)[1 := (ch_links ?c1 ! 1)\<lparr>ce_send := d\<rparr>]\<rparr>)"
      "0 < n" "unat n \<le> Suc N" "\<forall>i \<in> S (unat epoch). i < n"
      using send_step [OF t(1) assms(4)] by auto
    have "SendKey P epoch c = (Inr (n, dir_key P (send_seed P auth sec dir (unat epoch)) n),
        ?c1\<lparr>ch_links := (ch_links ?c1)[1 := (ch_links ?c1 ! 1)\<lparr>ce_send := d\<rparr>]\<rparr>)"
    proof -
      have "min i epochsToKeepPriorToSend = 1" using t(3) by (simp add: epochsToKeepPriorToSend_def)
      with assms(2) False st(1) cut show ?thesis
        by (simp add: SendKey_def idx Let_def epochsToKeepPriorToSend_def)
    qed
    with st show ?thesis by auto
  qed
qed

end
