(* ===== verification/SPQR_Format.thy ===== *)
theory SPQR_Format
  imports SPQR_Chain
begin

text \<open>
  The stored form of the encoders, decoders and chains of the post-quantum ratchet (the \<^verbatim>\<open>serialize\<close> and
  \<^verbatim>\<open>decode\<close> functions of \<^verbatim>\<open>spqr/encoding_polynomial.go\<close> and \<^verbatim>\<open>spqr/chain.go\<close>).
\<close>

section \<open>Encoders and decoders (encoding\_polynomial.go)\<close>

definition polyEncoder_serialize :: "polyEncoder \<Rightarrow> bytes" where
  "polyEncoder_serialize e = put_u32 (pe_idx e) @ put_u32 (of_nat (length (pe_msg e))) @ pe_msg e"

definition decodePolyEncoder :: "bytes \<Rightarrow> polyEncoder res" where
  "decodePolyEncoder data =
     (if length data < 8 then Inl ErrSpqrStateDecode
      else
        let idx = get_u32 data; msgLen = unat (get_u32 (drop 4 data)) in
        if 8 + msgLen > length data then Inl ErrSpqrStateDecode
        else bindR (newPolyEncoder (take msgLen (drop 8 data))) (\<lambda>enc. Inr (enc\<lparr>pe_idx := idx\<rparr>)))"

definition enc_point :: "u16 \<times> gf16 \<Rightarrow> bytes" where
  "enc_point p = put_u16 (fst p) @ put_u16 (gf_word (snd p))"

definition enc_points :: "(u16, gf16) fmap \<Rightarrow> bytes" where
  "enc_points m = put_u32 (of_nat (fm_size m)) @ concat (map enc_point (fm_entries m))"

definition polyDecoder_serialize :: "polyDecoder \<Rightarrow> bytes" where
  "polyDecoder_serialize d =
     put_u32 (of_nat (pd_ptsNeeded d)) @ [if pd_isComplete d then 1 else 0]
     @ concat (map (\<lambda>i. enc_points (pd_points d ! i)) [0..<polyNumPolys])"

definition dec_point :: "bytes \<Rightarrow> ((u16 \<times> gf16) \<times> bytes) res" where
  "dec_point bs =
     (if length bs < 4 then Inl ErrSpqrStateDecode
      else Inr ((get_u16 bs, GF (get_u16 (drop 2 bs))), drop 4 bs))"

definition dec_points :: "bytes \<Rightarrow> ((u16, gf16) fmap \<times> bytes) res" where
  "dec_points bs =
     (if length bs < 4 then Inl ErrSpqrStateDecode
      else bindR (read_many (unat (get_u32 bs)) dec_point (drop 4 bs)) (\<lambda>(ps, bs). Inr (fm_insert_all ps fmempty, bs)))"

definition decodePolyDecoder :: "bytes \<Rightarrow> polyDecoder res" where
  "decodePolyDecoder data =
     (if length data < 5 then Inl ErrSpqrStateDecode
      else
        bindR (read_many polyNumPolys dec_points (drop 5 data)) (\<lambda>(points, bs).
        if bs \<noteq> [] then Inl ErrSpqrStateDecode
        else Inr \<lparr>pd_ptsNeeded = unat (get_u32 data), pd_points = points, pd_isComplete = (data ! 4 = 1)\<rparr>))"

lemma decodePolyEncoder_roundtrip:
  assumes "encoder_ok e"
  shows "decodePolyEncoder (polyEncoder_serialize e) = Inr e"
proof -
  have "unat (of_nat (length (pe_msg e)) :: u32) = length (pe_msg e)"
    using encoder_len [OF assms] by (simp add: unat_of_nat)
  then show ?thesis
    using assms by (simp add: decodePolyEncoder_def polyEncoder_serialize_def encoder_ok_def Let_def)
qed

lemma decodePolyEncoder_ok: "decodePolyEncoder data = Inr e \<Longrightarrow> encoder_ok e"
  by (auto simp: decodePolyEncoder_def Let_def encoder_ok_def newPolyEncoder_def split: if_splits)

text \<open>What a decoder can hold: 16 maps, and a size that fits its field.\<close>

definition decoder_ok :: "polyDecoder \<Rightarrow> bool" where
  "decoder_ok d \<longleftrightarrow> length (pd_points d) = 16 \<and> pd_ptsNeeded d < 2 ^ 32"

interpretation poly_point: item_codec enc_point dec_point "\<lambda>_. True"
  by unfold_locales (simp add: enc_point_def dec_point_def)

lemma fm_size_u16: "fm_size (m :: (u16, 'a) fmap) < 2 ^ 32"
proof -
  have "fm_size m \<le> card (UNIV :: u16 set)"
    unfolding fm_size_def fcard.rep_eq by (rule card_mono) simp_all
  also have "\<dots> = 2 ^ 16" by (simp add: card_word)
  finally show ?thesis by simp
qed

interpretation poly_points: item_codec enc_points dec_points "\<lambda>_. True"
proof
  fix m :: "(u16, gf16) fmap" and r
  have "unat (of_nat (fm_size m) :: u32) = fm_size m" using fm_size_u16 [of m] by (simp add: unat_of_nat)
  then show "dec_points (enc_points m @ r) = Inr (m, r)"
    using poly_point.read_many_enc [of "fm_entries m" r] by (simp add: enc_points_def dec_points_def list_all_iff)
qed

lemma decodePolyDecoder_roundtrip:
  assumes "decoder_ok d"
  shows "decodePolyDecoder (polyDecoder_serialize d) = Inr d"
proof -
  have pts: "map ((!) (pd_points d)) [0..<16] = pd_points d" using assms map_nth [of "pd_points d"] by (simp add: decoder_ok_def)
  have "read_many 16 dec_points (concat (map enc_points (pd_points d)) @ []) = Inr (pd_points d, [])"
    using poly_points.read_many_enc [of "pd_points d" "[]"] assms by (simp add: decoder_ok_def list_all_iff)
  moreover have "map (\<lambda>i. enc_points (pd_points d ! i)) [0..<16] = map enc_points (pd_points d)"
    using arg_cong [OF pts, of "map enc_points"] by (simp add: o_def)
  moreover have "unat (of_nat (pd_ptsNeeded d) :: u32) = pd_ptsNeeded d"
    using assms by (simp add: decoder_ok_def unat_of_nat)
  ultimately show ?thesis
    by (simp add: decodePolyDecoder_def polyDecoder_serialize_def polyNumPolys_def nth_append)
qed

lemma decodePolyDecoder_ok: "decodePolyDecoder data = Inr d \<Longrightarrow> decoder_ok d"
  using unat_u32_less
  by (auto simp: decodePolyDecoder_def decoder_ok_def polyNumPolys_def split: if_splits dest: read_many_length)

section \<open>Chains (chain.go)\<close>

definition enc_history :: "u32 \<times> bytes \<Rightarrow> bytes" where
  "enc_history e = put_u32 (fst e) @ arr 32 (snd e)"

definition appendChainDir :: "chainEpochDirection \<Rightarrow> bytes" where
  "appendChainDir d =
     put_u32 (cd_ctr d) @ put_u32 (of_nat (length (cd_next d))) @ cd_next d
     @ put_u32 (of_nat (fm_size (cd_prev d))) @ concat (map enc_history (fm_entries (cd_prev d)))"

definition serializeChain :: "Chain \<Rightarrow> bytes" where
  "serializeChain c =
     [1, ch_dir c] @ put_u64 (ch_currentEpoch c) @ put_u64 (ch_sendEpoch c) @ arr 32 (ch_nextRoot c)
     @ put_u32 (cp_MaxJump (ch_params c)) @ put_u32 (cp_MaxOOO (ch_params c))
     @ put_u32 (of_nat (length (ch_links c)))
     @ concat (map (\<lambda>l. appendChainDir (ce_send l) @ appendChainDir (ce_recv l)) (ch_links c))"

definition dec_history :: "bytes \<Rightarrow> ((u32 \<times> bytes) \<times> bytes) res" where
  "dec_history bs =
     (if length bs < 4 + 32 then Inl ErrSpqrInvalidMessage
      else Inr ((get_u32 bs, arr 32 (take 32 (drop 4 bs))), drop 36 bs))"

definition consumeChainDir :: "bytes \<Rightarrow> (chainEpochDirection \<times> bytes) res" where
  "consumeChainDir bs =
     (if length bs < 8 then Inl ErrSpqrInvalidMessage
      else
        let ctr = get_u32 bs; nextLen = unat (get_u32 (drop 4 bs)); bs = drop 8 bs in
        if nextLen > length bs then Inl ErrSpqrInvalidMessage
        else
          let next = take nextLen bs; bs = drop nextLen bs in
          if length bs < 4 then Inl ErrSpqrInvalidMessage
          else
            bindR (read_many (unat (get_u32 bs)) dec_history (drop 4 bs)) (\<lambda>(keys, bs).
            Inr (\<lparr>cd_ctr = ctr, cd_next = next, cd_prev = fm_insert_all keys fmempty\<rparr>, bs)))"

definition dec_link :: "bytes \<Rightarrow> (chainEpoch \<times> bytes) res" where
  "dec_link bs =
     bindR (consumeChainDir bs) (\<lambda>(send, bs). bindR (consumeChainDir bs) (\<lambda>(recv, bs).
     Inr (\<lparr>ce_send = send, ce_recv = recv\<rparr>, bs)))"

text \<open>Empty input stands for no chain.\<close>

definition deserializeChain :: "bytes \<Rightarrow> Chain option res" where
  "deserializeChain data =
     (if data = [] then Inr None
      else if hd data \<noteq> 1 then Inl ErrSpqrInvalidMessage
      else if length data < 2 then Inl ErrSpqrInvalidMessage
      else
        let dir = data ! 1; bs = drop 2 data in
        if length bs < 8 + 8 + 32 + 4 + 4 + 4 then Inl ErrSpqrInvalidMessage
        else
          bindR (read_many (unat (get_u32 (drop 56 bs))) dec_link (drop 60 bs)) (\<lambda>(links, rest).
          if rest \<noteq> [] then Inl ErrSpqrInvalidMessage
          else Inr (Some \<lparr>ch_dir = dir, ch_currentEpoch = get_u64 bs, ch_sendEpoch = get_u64 (drop 8 bs), ch_links = links,
            ch_nextRoot = arr 32 (take 32 (drop 16 bs)),
            ch_params = \<lparr>cp_MaxJump = get_u32 (drop 48 bs), cp_MaxOOO = get_u32 (drop 52 bs)\<rparr>\<rparr>)))"

definition dir_storable :: "chainEpochDirection \<Rightarrow> bool" where
  "dir_storable d \<longleftrightarrow> length (cd_next d) < 2 ^ 32 \<and> fm_size (cd_prev d) < 2 ^ 32 \<and>
     (\<forall>i k. fmlookup (cd_prev d) i = Some k \<longrightarrow> length k = 32)"

definition link_storable :: "chainEpoch \<Rightarrow> bool" where
  "link_storable l \<longleftrightarrow> dir_storable (ce_send l) \<and> dir_storable (ce_recv l)"

definition chain_storable :: "Chain \<Rightarrow> bool" where
  "chain_storable c \<longleftrightarrow> length (ch_nextRoot c) = 32 \<and> length (ch_links c) < 2 ^ 32 \<and> list_all link_storable (ch_links c)"

interpretation history: item_codec enc_history dec_history "\<lambda>e. length (snd e) = 32"
  by unfold_locales (auto simp: enc_history_def dec_history_def)

interpretation chain_dir: item_codec appendChainDir consumeChainDir dir_storable
proof
  fix d r assume d: "dir_storable d"
  have "list_all (\<lambda>e. length (snd e) = 32) (fm_entries (cd_prev d))"
    using d by (auto simp: dir_storable_def list_all_iff set_fm_entries)
  from history.read_many_enc [OF this, of r] d show "consumeChainDir (appendChainDir d @ r) = Inr (d, r)"
    by (cases d) (simp add: appendChainDir_def consumeChainDir_def dir_storable_def unat_of_nat Let_def)
qed

interpretation chain_link: item_codec "\<lambda>l. appendChainDir (ce_send l) @ appendChainDir (ce_recv l)" dec_link link_storable
  by unfold_locales (auto simp: dec_link_def link_storable_def chain_dir.dec_enc)

lemma serializeChain_ne [simp]: "serializeChain c \<noteq> []"
  by (simp add: serializeChain_def)

lemma deserializeChain_roundtrip:
  assumes "chain_storable c"
  shows "deserializeChain (serializeChain c) = Inr (Some c)"
proof -
  have "list_all link_storable (ch_links c)" using assms by (simp add: chain_storable_def)
  from chain_link.read_many_enc [OF this, of "[]"] assms show ?thesis
    by (cases c) (simp add: serializeChain_def deserializeChain_def chain_storable_def unat_of_nat Let_def)
qed

lemma fm_insert_all_lookup:
  "fmlookup (fm_insert_all xs fmempty) k = Some v \<Longrightarrow> (k, v) \<in> set xs"
  by (auto simp: fmlookup_fm_insert_all dest: map_of_SomeD split: option.splits)

lemma fm_size_insert_all: "fm_size (fm_insert_all xs m) \<le> length xs + fm_size m"
proof (induction xs arbitrary: m)
  case (Cons x xs)
  from Cons.IH [of "fmupd (fst x) (snd x) m"] show ?case
    by (cases x) (auto simp: fm_insert_all_def fm_size_upd split: if_splits)
qed (simp add: fm_insert_all_def)

text \<open>Decoded items satisfy what every successful decoding of an item gives.\<close>

lemma consumeChainDir_storable: "consumeChainDir bs = Inr (d, r) \<Longrightarrow> dir_storable d"
proof -
  assume a: "consumeChainDir bs = Inr (d, r)"
  then obtain n :: u32 and bs1 keys where k: "read_many (unat n) dec_history bs1 = Inr (keys, r)"
    "cd_prev d = fm_insert_all keys fmempty" "length (cd_next d) \<le> unat (get_u32 (drop 4 bs))"
    by (auto simp: consumeChainDir_def Let_def split: if_splits)
  have "list_all (\<lambda>e. length (snd e) = 32) keys"
    by (rule read_many_all [OF _ k(1)]) (auto simp: dec_history_def split: if_splits)
  moreover have "length keys < 2 ^ 32" using read_many_length [OF k(1)] unat_u32_less [of n] by simp
  ultimately show ?thesis
    using k(2,3) fm_size_insert_all [of keys fmempty] unat_u32_less [of "get_u32 (drop 4 bs)"]
    by (auto simp: dir_storable_def list_all_iff dest!: fm_insert_all_lookup)
qed

lemma deserializeChain_storable: "deserializeChain data = Inr (Some c) \<Longrightarrow> chain_storable c"
proof -
  assume "deserializeChain data = Inr (Some c)"
  then obtain n bs where n: "read_many (unat (n :: u32)) dec_link bs = Inr (ch_links c, [])" "length (ch_nextRoot c) = 32"
    by (auto simp: deserializeChain_def Let_def split: if_splits)
  have "list_all link_storable (ch_links c)"
    by (rule read_many_all [OF _ n(1)]) (auto simp: dec_link_def link_storable_def dest: consumeChainDir_storable)
  then show ?thesis
    using n(2) read_many_length [OF n(1)] unat_u32_less [of n] by (simp add: chain_storable_def)
qed

end
