(* ===== verification/SPQR_V1.thy ===== *)
theory SPQR_V1
  imports SPQR_Format
begin

text \<open>
  The key agreement of the post-quantum ratchet: the authenticator (\<^verbatim>\<open>spqr/authenticator.go\<close>), ML-KEM 768 in
  pieces (\<^verbatim>\<open>spqr/incremental_mlkem768.go\<close>), and the state machine that sends headers, encapsulation keys
  and ciphertexts in chunks (\<^verbatim>\<open>spqr/v1_unchunked.go\<close>, \<^verbatim>\<open>spqr/v1_chunked.go\<close>).

  The Go states are pointers: a transition returns a new state, and a state that is left behind may
  have been written to (its encoder, its decoder, the authenticator it shares with its successor).
  The operations return both, the result and the receiver as the call leaves it.
\<close>

section \<open>The third-party primitives\<close>

text \<open>
  \<open>mlkem_keygen\<close> is \<^verbatim>\<open>mlkem768.NewKeyFromSeed\<close>, the packed keys; \<open>mlkem_sk_ok\<close> and \<open>kyber768_pk_ok\<close> say whether
  \<^verbatim>\<open>PrivateKey.Unpack\<close> of \<^verbatim>\<open>mlkem768\<close> and \<^verbatim>\<open>PublicKey.UnpackMLKEM\<close> of \<^verbatim>\<open>kyber768\<close> accept; \<open>mlkem_decaps\<close> is
  \<^verbatim>\<open>DecapsulateTo\<close>, \<open>kyber768_encrypt\<close> is \<^verbatim>\<open>EncryptTo\<close> under a packed public key, given plaintext and seed;
  \<open>sha3_256\<close>, \<open>sha3_512\<close> are \<^verbatim>\<open>golang.org/x/crypto/sha3\<close>.
\<close>

record pq_prims = prims +
  mlkem_keygen :: "bytes \<Rightarrow> bytes \<times> bytes"
  mlkem_sk_ok :: "bytes \<Rightarrow> bool"
  mlkem_decaps :: "bytes \<Rightarrow> bytes \<Rightarrow> bytes"
  kyber768_pk_ok :: "bytes \<Rightarrow> bool"
  kyber768_encrypt :: "bytes \<Rightarrow> bytes \<Rightarrow> bytes \<Rightarrow> bytes"
  sha3_256 :: "bytes \<Rightarrow> bytes"
  sha3_512 :: "bytes \<Rightarrow> bytes"

definition mlkem_pk :: "'z pq_prims_scheme \<Rightarrow> bytes \<Rightarrow> bytes" where
  "mlkem_pk P seed = arr 1184 (fst (mlkem_keygen P seed))"

definition mlkem_sk :: "'z pq_prims_scheme \<Rightarrow> bytes \<Rightarrow> bytes" where
  "mlkem_sk P seed = arr 2400 (snd (mlkem_keygen P seed))"

definition Sum256 :: "'z pq_prims_scheme \<Rightarrow> bytes \<Rightarrow> bytes" where
  "Sum256 P data = arr 32 (sha3_256 P data)"

definition Sum512 :: "'z pq_prims_scheme \<Rightarrow> bytes \<Rightarrow> bytes" where
  "Sum512 P data = arr 64 (sha3_512 P data)"

definition EncryptTo :: "'z pq_prims_scheme \<Rightarrow> bytes \<Rightarrow> bytes \<Rightarrow> bytes \<Rightarrow> bytes" where
  "EncryptTo P pk pt seed = arr 1088 (kyber768_encrypt P pk pt seed)"

text \<open>
  The documented laws of ML-KEM: generated keys unpack, decapsulation gives the secret that the
  encapsulation derived, and the first 960 bytes of a ciphertext depend on the public seed of the
  key and not on its vector.
\<close>

definition mlkem_ok :: "'z pq_prims_scheme \<Rightarrow> bool" where
  "mlkem_ok P \<longleftrightarrow>
     (\<forall>seed. length seed = 64 \<longrightarrow> mlkem_sk_ok P (mlkem_sk P seed) \<and> kyber768_pk_ok P (mlkem_pk P seed) \<and>
        (\<forall>m. length m = 32 \<longrightarrow>
           (let kr = Sum512 P (m @ Sum256 P (mlkem_pk P seed)) in
            arr 32 (mlkem_decaps P (mlkem_sk P seed) (EncryptTo P (mlkem_pk P seed) m (drop 32 kr))) = take 32 kr))) \<and>
     (\<forall>ek ek' rho m r. length ek = 1152 \<longrightarrow> length ek' = 1152 \<longrightarrow>
        take 960 (EncryptTo P (ek @ rho) m r) = take 960 (EncryptTo P (ek' @ rho) m r))"

section \<open>Authenticator (authenticator.go)\<close>

definition authenticatorMacSize :: nat where "authenticatorMacSize = 32"

definition authenticatorInfoUpdate :: bytes where
  "authenticatorInfoUpdate = ascii ''Signal_PQCKA_V1_MLKEM768:Authenticator Update''"
definition authenticatorInfoHdr :: bytes where
  "authenticatorInfoHdr = ascii ''Signal_PQCKA_V1_MLKEM768:ekheader''"
definition authenticatorInfoCt :: bytes where
  "authenticatorInfoCt = ascii ''Signal_PQCKA_V1_MLKEM768:ciphertext''"

record authenticator =
  au_rootKey :: bytes
  au_macKey :: bytes

definition hmacSha256 :: "'z prims_scheme \<Rightarrow> bytes \<Rightarrow> bytes \<Rightarrow> bytes" where
  "hmacSha256 P key data = arr 32 (hmac_sha256 P key data)"

definition auth_update :: "'z prims_scheme \<Rightarrow> u64 \<Rightarrow> bytes \<Rightarrow> authenticator \<Rightarrow> unit res \<times> authenticator" where
  "auth_update P epoch key a =
     (case HKDF P (au_rootKey a @ key) (replicate 32 0) (authenticatorInfoUpdate @ epochBytes epoch) 64 of
        Inl e \<Rightarrow> (Inl e, a)
      | Inr okm \<Rightarrow> (Inr (), a\<lparr>au_rootKey := take 32 okm, au_macKey := drop 32 okm\<rparr>))"

definition newAuthenticator :: "'z prims_scheme \<Rightarrow> bytes \<Rightarrow> u64 \<Rightarrow> authenticator" where
  "newAuthenticator P rootKey epoch =
     snd (auth_update P epoch rootKey \<lparr>au_rootKey = replicate 32 0, au_macKey = replicate 32 0\<rparr>)"

definition macHdr :: "'z prims_scheme \<Rightarrow> u64 \<Rightarrow> bytes \<Rightarrow> authenticator \<Rightarrow> bytes" where
  "macHdr P epoch hdr a = hmacSha256 P (au_macKey a) (authenticatorInfoHdr @ epochBytes epoch @ hdr)"

definition macCt :: "'z prims_scheme \<Rightarrow> u64 \<Rightarrow> bytes \<Rightarrow> authenticator \<Rightarrow> bytes" where
  "macCt P epoch ct a = hmacSha256 P (au_macKey a) (authenticatorInfoCt @ epochBytes epoch @ ct)"

definition verifyHdr :: "'z prims_scheme \<Rightarrow> u64 \<Rightarrow> bytes \<Rightarrow> bytes \<Rightarrow> authenticator \<Rightarrow> unit res" where
  "verifyHdr P epoch hdr expected a =
     (if length expected \<noteq> authenticatorMacSize then Inl ErrSpqrInvalidMessage
      else if expected \<noteq> macHdr P epoch hdr a then Inl ErrSpqrInvalidMAC else Inr ())"

definition verifyCt :: "'z prims_scheme \<Rightarrow> u64 \<Rightarrow> bytes \<Rightarrow> bytes \<Rightarrow> authenticator \<Rightarrow> unit res" where
  "verifyCt P epoch ct expected a =
     (if length expected \<noteq> authenticatorMacSize then Inl ErrSpqrInvalidMessage
      else if expected \<noteq> macCt P epoch ct a then Inl ErrSpqrInvalidMAC else Inr ())"

section \<open>Incremental ML-KEM (incremental\_mlkem768.go)\<close>

definition mlkemCiphertext1Size :: nat where "mlkemCiphertext1Size = 960"
definition mlkemCiphertext2Size :: nat where "mlkemCiphertext2Size = 128"
definition mlkemHeaderSize :: nat where "mlkemHeaderSize = 64"
definition mlkemEncapsulationKeySize :: nat where "mlkemEncapsulationKeySize = 1152"
definition mlkemDecapsulationKeySize :: nat where "mlkemDecapsulationKeySize = 2400"

lemmas mlkem_sizes = mlkemCiphertext1Size_def mlkemCiphertext2Size_def mlkemHeaderSize_def
  mlkemEncapsulationKeySize_def mlkemDecapsulationKeySize_def authenticatorMacSize_def

record mlkemEncapsulationState =
  es_seed :: bytes
  es_rho :: bytes
  es_pkHash :: bytes

record mlkemKeys =
  mk_hdr :: bytes
  mk_ek :: bytes
  mk_dk :: bytes

text \<open>The argument \<open>rand\<close> is what \<^verbatim>\<open>RandomBytes\<close> returns.\<close>

definition mlkemGenerateKeys :: "'z pq_prims_scheme \<Rightarrow> bytes res \<Rightarrow> mlkemKeys res" where
  "mlkemGenerateKeys P rand =
     bindR rand (\<lambda>seed.
     let seed = arr 64 seed; pkBytes = mlkem_pk P seed; hash = Sum256 P pkBytes in
     Inr \<lparr>mk_hdr = drop mlkemEncapsulationKeySize pkBytes @ hash, mk_ek = take mlkemEncapsulationKeySize pkBytes,
          mk_dk = mlkem_sk P seed\<rparr>)"

definition mlkemEKMatchesHeader :: "'z pq_prims_scheme \<Rightarrow> bytes \<Rightarrow> bytes \<Rightarrow> bool" where
  "mlkemEKMatchesHeader P ek hdr =
     (if length ek \<noteq> mlkemEncapsulationKeySize \<or> length hdr \<noteq> mlkemHeaderSize then False
      else
        let pkBytes = ek @ take 32 hdr in
        if Sum256 P pkBytes \<noteq> drop 32 hdr then False else kyber768_pk_ok P pkBytes)"

definition mlkemEncaps1 :: "'z pq_prims_scheme \<Rightarrow> bytes res \<Rightarrow> bytes \<Rightarrow> (bytes \<times> mlkemEncapsulationState \<times> bytes) res" where
  "mlkemEncaps1 P rand hdr =
     (if length hdr \<noteq> mlkemHeaderSize then Inl (ErrText ''spqr: invalid mlkem header size'')
      else
        bindR rand (\<lambda>seedBytes.
        let seed = arr 32 seedBytes; rho = arr 32 (take 32 hdr); pkHash = arr 32 (drop 32 hdr);
            kr = Sum512 P (seed @ pkHash); sharedSecret = take 32 kr; r = drop 32 kr;
            ct = EncryptTo P (replicate mlkemEncapsulationKeySize 0 @ rho) seed r in
        Inr (take mlkemCiphertext1Size ct, \<lparr>es_seed = seed, es_rho = rho, es_pkHash = pkHash\<rparr>, sharedSecret)))"

definition mlkemEncaps2 :: "'z pq_prims_scheme \<Rightarrow> bytes \<Rightarrow> mlkemEncapsulationState \<Rightarrow> bytes res" where
  "mlkemEncaps2 P ek state =
     (if length ek \<noteq> mlkemEncapsulationKeySize then Inl (ErrText ''spqr: invalid mlkem ek size'')
      else
        let kr = Sum512 P (es_seed state @ es_pkHash state) in
        Inr (drop mlkemCiphertext1Size (EncryptTo P (ek @ es_rho state) (es_seed state) (drop 32 kr))))"

text \<open>The text of the error of \<^verbatim>\<open>PrivateKey.Unpack\<close> stands for the error it returns.\<close>

definition mlkemDecaps :: "'z pq_prims_scheme \<Rightarrow> bytes \<Rightarrow> bytes \<Rightarrow> bytes \<Rightarrow> bytes res" where
  "mlkemDecaps P dk ct1 ct2 =
     (if length dk \<noteq> mlkemDecapsulationKeySize then Inl (ErrText ''spqr: invalid mlkem dk size'')
      else if length ct1 \<noteq> mlkemCiphertext1Size \<or> length ct2 \<noteq> mlkemCiphertext2Size
      then Inl (ErrText ''spqr: invalid mlkem ciphertext size'')
      else if \<not> mlkem_sk_ok P dk then Inl (ErrText ''kem: invalid private key'')
      else Inr (arr 32 (mlkem_decaps P dk (ct1 @ ct2))))"

section \<open>The agreement without chunks (v1\_unchunked.go)\<close>

definition pqrSckaKeyInfo :: bytes where "pqrSckaKeyInfo = ascii ''Signal_PQCKA_V1_MLKEM768:SCKA Key''"

record epochSecret =
  ep_epoch :: u64
  ep_secret :: bytes

definition deriveSckaKey :: "'z prims_scheme \<Rightarrow> u64 \<Rightarrow> bytes \<Rightarrow> bytes res" where
  "deriveSckaKey P epoch secret = HKDF P secret (replicate 32 0) (pqrSckaKeyInfo @ epochBytes epoch) 32"

record unchunkedKeysUnsampled =
  ku_epoch :: u64
  ku_auth :: authenticator

record unchunkedHeaderSent =
  hs_epoch :: u64
  hs_auth :: authenticator
  hs_ek :: bytes
  hs_dk :: bytes

record unchunkedEkSent =
  ks_epoch :: u64
  ks_auth :: authenticator
  ks_dk :: bytes

record unchunkedEkSentCt1Received =
  kc_epoch :: u64
  kc_auth :: authenticator
  kc_dk :: bytes
  kc_ct1 :: bytes

record unchunkedNoHeaderReceived =
  nh_epoch :: u64
  nh_auth :: authenticator

record unchunkedHeaderReceived =
  hr_epoch :: u64
  hr_auth :: authenticator
  hr_hdr :: bytes

record unchunkedCt1Sent =
  cs_epoch :: u64
  cs_auth :: authenticator
  cs_hdr :: bytes
  cs_encaps :: mlkemEncapsulationState
  cs_ct1 :: bytes

record unchunkedCt1SentEkReceived =
  ck_epoch :: u64
  ck_auth :: authenticator
  ck_encaps :: mlkemEncapsulationState
  ck_ek :: bytes
  ck_ct1 :: bytes

record unchunkedCt2Sent =
  ct_epoch :: u64
  ct_auth :: authenticator

definition newUnchunkedKeysUnsampled :: "'z prims_scheme \<Rightarrow> bytes \<Rightarrow> unchunkedKeysUnsampled res" where
  "newUnchunkedKeysUnsampled P authKey =
     (if authKey = [] then Inl ErrSpqrInvalidMessage
      else Inr \<lparr>ku_epoch = 1, ku_auth = newAuthenticator P authKey 1\<rparr>)"

definition sendHeader :: "'z pq_prims_scheme \<Rightarrow> bytes res \<Rightarrow> unchunkedKeysUnsampled \<Rightarrow> (unchunkedHeaderSent \<times> bytes \<times> bytes) res" where
  "sendHeader P rand s =
     bindR (mlkemGenerateKeys P rand) (\<lambda>keys.
     let mac = macHdr P (ku_epoch s) (mk_hdr keys) (ku_auth s) in
     Inr (\<lparr>hs_epoch = ku_epoch s, hs_auth = ku_auth s, hs_ek = mk_ek keys, hs_dk = mk_dk keys\<rparr>, mk_hdr keys, mac))"

definition sendEk :: "unchunkedHeaderSent \<Rightarrow> unchunkedEkSent \<times> bytes" where
  "sendEk s = (\<lparr>ks_epoch = hs_epoch s, ks_auth = hs_auth s, ks_dk = hs_dk s\<rparr>, hs_ek s)"

definition recvCt1 :: "u64 \<Rightarrow> bytes \<Rightarrow> unchunkedEkSent \<Rightarrow> unchunkedEkSentCt1Received" where
  "recvCt1 epoch ct1 s =
     (if epoch \<noteq> ks_epoch s
      then \<lparr>kc_epoch = ks_epoch s, kc_auth = ks_auth s, kc_dk = ks_dk s, kc_ct1 = ct1\<rparr>
      else \<lparr>kc_epoch = ks_epoch s, kc_auth = ks_auth s, kc_dk = ks_dk s, kc_ct1 = ct1\<rparr>)"

definition recvCt2 :: "'z pq_prims_scheme \<Rightarrow> bytes \<Rightarrow> bytes \<Rightarrow> unchunkedEkSentCt1Received \<Rightarrow>
    (unchunkedNoHeaderReceived \<times> epochSecret) res \<times> unchunkedEkSentCt1Received" where
  "recvCt2 P ct2 mac s =
     (if length ct2 \<noteq> mlkemCiphertext2Size then (Inl (ErrText ''spqr: invalid ct2 size''), s)
      else if length mac \<noteq> authenticatorMacSize then (Inl ErrSpqrInvalidMessage, s)
      else case bindR (mlkemDecaps P (kc_dk s) (kc_ct1 s) ct2) (deriveSckaKey P (kc_epoch s)) of
        Inl e \<Rightarrow> (Inl e, s)
      | Inr key \<Rightarrow>
          let (r, a) = auth_update P (kc_epoch s) key (kc_auth s); s = s\<lparr>kc_auth := a\<rparr> in
          (bindR r (\<lambda>_. bindR (verifyCt P (kc_epoch s) (kc_ct1 s @ ct2) mac a) (\<lambda>_.
             Inr (\<lparr>nh_epoch = kc_epoch s + 1, nh_auth = a\<rparr>, \<lparr>ep_epoch = kc_epoch s, ep_secret = key\<rparr>))), s))"

definition newUnchunkedNoHeaderReceived :: "'z prims_scheme \<Rightarrow> bytes \<Rightarrow> unchunkedNoHeaderReceived res" where
  "newUnchunkedNoHeaderReceived P authKey =
     (if authKey = [] then Inl ErrSpqrInvalidMessage
      else Inr \<lparr>nh_epoch = 1, nh_auth = newAuthenticator P authKey 1\<rparr>)"

definition recvHeader :: "'z prims_scheme \<Rightarrow> u64 \<Rightarrow> bytes \<Rightarrow> bytes \<Rightarrow> unchunkedNoHeaderReceived \<Rightarrow> unchunkedHeaderReceived res" where
  "recvHeader P epoch hdr mac s =
     (if epoch \<noteq> nh_epoch s then Inl ErrSpqrEpochOutOfRange
      else if length hdr \<noteq> mlkemHeaderSize then Inl ErrSpqrInvalidMessage
      else bindR (verifyHdr P epoch hdr mac (nh_auth s)) (\<lambda>_.
        Inr \<lparr>hr_epoch = nh_epoch s, hr_auth = nh_auth s, hr_hdr = hdr\<rparr>))"

definition sendCt1 :: "'z pq_prims_scheme \<Rightarrow> bytes res \<Rightarrow> unchunkedHeaderReceived \<Rightarrow>
    (unchunkedCt1Sent \<times> bytes \<times> epochSecret) res \<times> unchunkedHeaderReceived" where
  "sendCt1 P rand s =
     (case mlkemEncaps1 P rand (hr_hdr s) of
        Inl e \<Rightarrow> (Inl e, s)
      | Inr (ct1, encapsState, ss) \<Rightarrow>
          (case deriveSckaKey P (hr_epoch s) ss of
             Inl e \<Rightarrow> (Inl e, s)
           | Inr key \<Rightarrow>
               let (r, a) = auth_update P (hr_epoch s) key (hr_auth s); s = s\<lparr>hr_auth := a\<rparr> in
               (bindR r (\<lambda>_. Inr (\<lparr>cs_epoch = hr_epoch s, cs_auth = a, cs_hdr = hr_hdr s, cs_encaps = encapsState, cs_ct1 = ct1\<rparr>,
                  ct1, \<lparr>ep_epoch = hr_epoch s, ep_secret = key\<rparr>)), s)))"

definition recvEk :: "'z pq_prims_scheme \<Rightarrow> u64 \<Rightarrow> bytes \<Rightarrow> unchunkedCt1Sent \<Rightarrow> unchunkedCt1SentEkReceived res" where
  "recvEk P epoch ek s =
     (if epoch \<noteq> cs_epoch s then Inl ErrSpqrEpochOutOfRange
      else if \<not> mlkemEKMatchesHeader P ek (cs_hdr s) then Inl ErrSpqrErroneousData
      else Inr \<lparr>ck_epoch = cs_epoch s, ck_auth = cs_auth s, ck_encaps = cs_encaps s, ck_ek = ek, ck_ct1 = cs_ct1 s\<rparr>)"

definition sendCt2 :: "'z pq_prims_scheme \<Rightarrow> unchunkedCt1SentEkReceived \<Rightarrow> (unchunkedCt2Sent \<times> bytes \<times> bytes) res" where
  "sendCt2 P s =
     bindR (mlkemEncaps2 P (ck_ek s) (ck_encaps s)) (\<lambda>ct2.
     let mac = macCt P (ck_epoch s) (ck_ct1 s @ ct2) (ck_auth s) in
     Inr (\<lparr>ct_epoch = ck_epoch s, ct_auth = ck_auth s\<rparr>, ct2, mac))"

definition recvNextEpoch :: "u64 \<Rightarrow> unchunkedCt2Sent \<Rightarrow> unchunkedKeysUnsampled res" where
  "recvNextEpoch nextEpoch s =
     (if nextEpoch \<noteq> ct_epoch s + 1 then Inl ErrSpqrEpochOutOfRange
      else Inr \<lparr>ku_epoch = ct_epoch s + 1, ku_auth = ct_auth s\<rparr>)"

section \<open>The states (v1\_chunked.go)\<close>

datatype v1States =
    chunkedKeysUnsampled unchunkedKeysUnsampled
  | chunkedKeysSampled unchunkedHeaderSent polyEncoder
  | chunkedHeaderSent unchunkedEkSent polyEncoder polyDecoder
  | chunkedCt1Received unchunkedEkSentCt1Received polyEncoder
  | chunkedEkSentCt1Received unchunkedEkSentCt1Received polyDecoder
  | chunkedNoHeaderReceived unchunkedNoHeaderReceived polyDecoder
  | chunkedHeaderReceived unchunkedHeaderReceived polyDecoder
  | chunkedCt1Sampled unchunkedCt1Sent polyEncoder polyDecoder
  | chunkedEkReceivedCt1Sampled unchunkedCt1SentEkReceived polyEncoder
  | chunkedCt1Acknowledged unchunkedCt1Sent polyDecoder
  | chunkedCt2Sampled unchunkedCt2Sent polyEncoder

fun v1_epoch :: "v1States \<Rightarrow> u64" where
  "v1_epoch (chunkedKeysUnsampled uc) = ku_epoch uc"
| "v1_epoch (chunkedKeysSampled uc _) = hs_epoch uc"
| "v1_epoch (chunkedHeaderSent uc _ _) = ks_epoch uc"
| "v1_epoch (chunkedCt1Received uc _) = kc_epoch uc"
| "v1_epoch (chunkedEkSentCt1Received uc _) = kc_epoch uc"
| "v1_epoch (chunkedNoHeaderReceived uc _) = nh_epoch uc"
| "v1_epoch (chunkedHeaderReceived uc _) = hr_epoch uc"
| "v1_epoch (chunkedCt1Sampled uc _ _) = cs_epoch uc"
| "v1_epoch (chunkedEkReceivedCt1Sampled uc _) = ck_epoch uc"
| "v1_epoch (chunkedCt1Acknowledged uc _) = cs_epoch uc"
| "v1_epoch (chunkedCt2Sampled uc _) = ct_epoch uc"

definition initV1StateA :: "'z prims_scheme \<Rightarrow> bytes \<Rightarrow> v1States res" where
  "initV1StateA P authKey = bindR (newUnchunkedKeysUnsampled P authKey) (\<lambda>uc. Inr (chunkedKeysUnsampled uc))"

definition initV1StateB :: "'z prims_scheme \<Rightarrow> bytes \<Rightarrow> v1States res" where
  "initV1StateB P authKey =
     bindR (newUnchunkedNoHeaderReceived P authKey) (\<lambda>uc.
     bindR (newPolyDecoder (mlkemHeaderSize + authenticatorMacSize)) (\<lambda>dec.
     Inr (chunkedNoHeaderReceived uc dec)))"

section \<open>Sending\<close>

record v1Send =
  sn_msg :: v1Message
  sn_key :: "epochSecret option"
  sn_state :: v1States

definition chunk_msg :: "u64 \<Rightarrow> MessageType \<Rightarrow> chunk \<Rightarrow> v1Message" where
  "chunk_msg epoch kind c = \<lparr>vm_epoch = epoch, vm_payload = \<lparr>mp_kind = kind, mp_chunk = Some c, mp_ack = False\<rparr>\<rparr>"

definition plain_msg :: "u64 \<Rightarrow> MessageType \<Rightarrow> bool \<Rightarrow> v1Message" where
  "plain_msg epoch kind ack = \<lparr>vm_epoch = epoch, vm_payload = \<lparr>mp_kind = kind, mp_chunk = None, mp_ack = ack\<rparr>\<rparr>"

definition KeysUnsampled_sendHdrChunk :: "'z pq_prims_scheme \<Rightarrow> bytes res \<Rightarrow> unchunkedKeysUnsampled \<Rightarrow> (v1States \<times> chunk) res" where
  "KeysUnsampled_sendHdrChunk P rand s =
     bindR (sendHeader P rand s) (\<lambda>(uc, hdr, mac).
     bindR (newPolyEncoder (hdr @ mac)) (\<lambda>enc.
     let (c, enc) = nextChunk enc in Inr (chunkedKeysSampled uc enc, c)))"

definition HeaderReceived_sendCt1Chunk :: "'z pq_prims_scheme \<Rightarrow> bytes res \<Rightarrow> unchunkedHeaderReceived \<Rightarrow> polyDecoder \<Rightarrow>
    (v1States \<times> chunk \<times> epochSecret) res \<times> v1States" where
  "HeaderReceived_sendCt1Chunk P rand s receivingEk =
     (let (r, s) = sendCt1 P rand s in
      (bindR r (\<lambda>(uc, ct1, key).
       bindR (newPolyEncoder ct1) (\<lambda>enc.
       let (c, enc) = nextChunk enc in Inr (chunkedCt1Sampled uc enc receivingEk, c, key))),
       chunkedHeaderReceived s receivingEk))"

text \<open>Sending the next chunk writes the encoder of the state and stays in it.\<close>

definition send_chunk :: "(polyEncoder \<Rightarrow> v1States) \<Rightarrow> u64 \<Rightarrow> MessageType \<Rightarrow> polyEncoder \<Rightarrow> v1Send res \<times> v1States" where
  "send_chunk st epoch kind enc =
     (let (c, enc) = nextChunk enc in
      (Inr \<lparr>sn_msg = chunk_msg epoch kind c, sn_key = None, sn_state = st enc\<rparr>, st enc))"

fun v1_send :: "'z pq_prims_scheme \<Rightarrow> bytes res \<Rightarrow> v1States \<Rightarrow> v1Send res \<times> v1States" where
  "v1_send P rand (chunkedKeysUnsampled uc) =
     (bindR (KeysUnsampled_sendHdrChunk P rand uc) (\<lambda>(next, c).
        Inr \<lparr>sn_msg = chunk_msg (ku_epoch uc) MessageTypeHdr c, sn_key = None, sn_state = next\<rparr>),
      chunkedKeysUnsampled uc)"
| "v1_send P rand (chunkedKeysSampled uc enc) = send_chunk (chunkedKeysSampled uc) (hs_epoch uc) MessageTypeHdr enc"
| "v1_send P rand (chunkedHeaderSent uc enc dec) =
     send_chunk (\<lambda>enc. chunkedHeaderSent uc enc dec) (ks_epoch uc) MessageTypeEk enc"
| "v1_send P rand (chunkedCt1Received uc enc) = send_chunk (chunkedCt1Received uc) (kc_epoch uc) MessageTypeEkCt1Ack enc"
| "v1_send P rand (chunkedEkSentCt1Received uc dec) =
     (Inr \<lparr>sn_msg = plain_msg (kc_epoch uc) MessageTypeCt1Ack True, sn_key = None, sn_state = chunkedEkSentCt1Received uc dec\<rparr>,
      chunkedEkSentCt1Received uc dec)"
| "v1_send P rand (chunkedNoHeaderReceived uc dec) =
     (Inr \<lparr>sn_msg = plain_msg (nh_epoch uc) MessageTypeNone False, sn_key = None, sn_state = chunkedNoHeaderReceived uc dec\<rparr>,
      chunkedNoHeaderReceived uc dec)"
| "v1_send P rand (chunkedHeaderReceived uc dec) =
     (let (r, st) = HeaderReceived_sendCt1Chunk P rand uc dec in
      (bindR r (\<lambda>(next, c, key).
         Inr \<lparr>sn_msg = chunk_msg (hr_epoch uc) MessageTypeCt1 c, sn_key = Some key, sn_state = next\<rparr>), st))"
| "v1_send P rand (chunkedCt1Sampled uc enc dec) =
     send_chunk (\<lambda>enc. chunkedCt1Sampled uc enc dec) (cs_epoch uc) MessageTypeCt1 enc"
| "v1_send P rand (chunkedEkReceivedCt1Sampled uc enc) =
     send_chunk (chunkedEkReceivedCt1Sampled uc) (ck_epoch uc) MessageTypeCt1 enc"
| "v1_send P rand (chunkedCt1Acknowledged uc dec) =
     (Inr \<lparr>sn_msg = plain_msg (cs_epoch uc) MessageTypeNone False, sn_key = None, sn_state = chunkedCt1Acknowledged uc dec\<rparr>,
      chunkedCt1Acknowledged uc dec)"
| "v1_send P rand (chunkedCt2Sampled uc enc) = send_chunk (chunkedCt2Sampled uc) (ct_epoch uc) MessageTypeCt2 enc"

section \<open>Receiving\<close>

type_synonym v1Recv = "epochSecret option \<times> v1States"

text \<open>The message leaves the state as it is.\<close>

definition stay :: "v1States \<Rightarrow> v1Recv res \<times> v1States" where
  "stay st = (Inr (None, st), st)"

definition KeysSampled_recvCt1Chunk :: "chunk \<Rightarrow> unchunkedHeaderSent \<Rightarrow> v1States res" where
  "KeysSampled_recvCt1Chunk c s =
     bindR (newPolyDecoder mlkemCiphertext1Size) (\<lambda>dec.
     let dec = addChunk c dec; (uc, ek) = sendEk s in
     bindR (newPolyEncoder ek) (\<lambda>enc. Inr (chunkedHeaderSent uc enc dec)))"

definition HeaderSent_recvCt1Chunk :: "u64 \<Rightarrow> chunk \<Rightarrow> unchunkedEkSent \<Rightarrow> polyEncoder \<Rightarrow> polyDecoder \<Rightarrow> v1States res \<times> v1States" where
  "HeaderSent_recvCt1Chunk epoch c s sendingEk receivingCt1 =
     (let receivingCt1 = addChunk c receivingCt1; st = chunkedHeaderSent s sendingEk receivingCt1 in
      (bindR (decodedMessage receivingCt1) (\<lambda>decoded.
         case decoded of
           None \<Rightarrow> Inr st
         | Some ct1 \<Rightarrow> Inr (chunkedCt1Received (recvCt1 epoch ct1 s) sendingEk)), st))"

definition Ct1Received_recvCt2Chunk :: "chunk \<Rightarrow> unchunkedEkSentCt1Received \<Rightarrow> v1States res" where
  "Ct1Received_recvCt2Chunk c s =
     bindR (newPolyDecoder (mlkemCiphertext2Size + authenticatorMacSize)) (\<lambda>dec.
     Inr (chunkedEkSentCt1Received s (addChunk c dec)))"

definition EkSentCt1Received_recvCt2Chunk :: "'z pq_prims_scheme \<Rightarrow> chunk \<Rightarrow> unchunkedEkSentCt1Received \<Rightarrow> polyDecoder \<Rightarrow>
    (v1States \<times> epochSecret option) res \<times> v1States" where
  "EkSentCt1Received_recvCt2Chunk P c s receivingCt2 =
     (let receivingCt2 = addChunk c receivingCt2; st = chunkedEkSentCt1Received s receivingCt2 in
      case decodedMessage receivingCt2 of
        Inl e \<Rightarrow> (Inl e, st)
      | Inr None \<Rightarrow> (Inr (st, None), st)
      | Inr (Some decoded) \<Rightarrow>
          if length decoded < mlkemCiphertext2Size + authenticatorMacSize then (Inl ErrSpqrInvalidMessage, st)
          else
            let (r, s) = recvCt2 P (take mlkemCiphertext2Size decoded) (drop mlkemCiphertext2Size decoded) s in
            (bindR r (\<lambda>(nextUc, key).
             bindR (newPolyDecoder (mlkemHeaderSize + authenticatorMacSize)) (\<lambda>dec.
             Inr (chunkedNoHeaderReceived nextUc dec, Some key))), chunkedEkSentCt1Received s receivingCt2))"

definition NoHeaderReceived_recvHdrChunk :: "'z prims_scheme \<Rightarrow> u64 \<Rightarrow> chunk \<Rightarrow> unchunkedNoHeaderReceived \<Rightarrow> polyDecoder \<Rightarrow>
    v1States res \<times> v1States" where
  "NoHeaderReceived_recvHdrChunk P epoch c s receivingHdr =
     (let receivingHdr = addChunk c receivingHdr; st = chunkedNoHeaderReceived s receivingHdr in
      (bindR (decodedMessage receivingHdr) (\<lambda>decoded.
         case decoded of
           None \<Rightarrow> Inr st
         | Some decoded \<Rightarrow>
             if length decoded < mlkemHeaderSize + authenticatorMacSize then Inl ErrSpqrInvalidMessage
             else
               bindR (recvHeader P epoch (take mlkemHeaderSize decoded) (drop mlkemHeaderSize decoded) s) (\<lambda>uc.
               bindR (newPolyDecoder mlkemEncapsulationKeySize) (\<lambda>dec.
               Inr (chunkedHeaderReceived uc dec)))), st))"

text \<open>The ciphertext is completed: the step that three handlers share.\<close>

definition enter_Ct2Sampled :: "'z pq_prims_scheme \<Rightarrow> unchunkedCt1SentEkReceived \<Rightarrow> v1States res" where
  "enter_Ct2Sampled P uc =
     bindR (sendCt2 P uc) (\<lambda>(ct2State, ct2, mac).
     bindR (newPolyEncoder (ct2 @ mac)) (\<lambda>enc. Inr (chunkedCt2Sampled ct2State enc)))"

definition Ct1Sampled_recvEkChunk :: "'z pq_prims_scheme \<Rightarrow> u64 \<Rightarrow> chunk \<Rightarrow> bool \<Rightarrow> unchunkedCt1Sent \<Rightarrow> polyEncoder \<Rightarrow> polyDecoder \<Rightarrow>
    v1States res \<times> v1States" where
  "Ct1Sampled_recvEkChunk P epoch c ct1Ack s sendingCt1 receivingEk =
     (let receivingEk = addChunk c receivingEk; st = chunkedCt1Sampled s sendingCt1 receivingEk in
      (bindR (decodedMessage receivingEk) (\<lambda>decoded.
         case decoded of
           None \<Rightarrow> if ct1Ack then Inr (chunkedCt1Acknowledged s receivingEk) else Inr st
         | Some ek \<Rightarrow>
             bindR (recvEk P epoch ek s) (\<lambda>uc.
             if ct1Ack then enter_Ct2Sampled P uc else Inr (chunkedEkReceivedCt1Sampled uc sendingCt1))), st))"

definition Ct1Acknowledged_recvEkChunk :: "'z pq_prims_scheme \<Rightarrow> u64 \<Rightarrow> chunk \<Rightarrow> unchunkedCt1Sent \<Rightarrow> polyDecoder \<Rightarrow> v1States res \<times> v1States" where
  "Ct1Acknowledged_recvEkChunk P epoch c s receivingEk =
     (let receivingEk = addChunk c receivingEk; st = chunkedCt1Acknowledged s receivingEk in
      (bindR (decodedMessage receivingEk) (\<lambda>decoded.
         case decoded of
           None \<Rightarrow> Inr st
         | Some ek \<Rightarrow> bindR (recvEk P epoch ek s) (enter_Ct2Sampled P)), st))"

definition moved :: "v1States res \<times> v1States \<Rightarrow> v1Recv res \<times> v1States" where
  "moved r = (bindR (fst r) (\<lambda>st. Inr (None, st)), snd r)"

text \<open>
  The comparison of the epochs with which the states begin: a message of a later epoch is an error, one
  of an earlier epoch is ignored.
\<close>

definition by_epoch :: "v1Message \<Rightarrow> v1States \<Rightarrow> v1Recv res \<times> v1States \<Rightarrow> v1Recv res \<times> v1States" where
  "by_epoch msg st same =
     (if vm_epoch msg > v1_epoch st then (Inl ErrSpqrEpochOutOfRange, st)
      else if vm_epoch msg < v1_epoch st then stay st
      else same)"

definition KeysUnsampled_recv :: "v1Message \<Rightarrow> unchunkedKeysUnsampled \<Rightarrow> v1Recv res \<times> v1States" where
  "KeysUnsampled_recv msg uc =
     (let st = chunkedKeysUnsampled uc in
      if vm_epoch msg > v1_epoch st then (Inl ErrSpqrEpochOutOfRange, st) else stay st)"

definition KeysSampled_recv :: "v1Message \<Rightarrow> unchunkedHeaderSent \<Rightarrow> polyEncoder \<Rightarrow> v1Recv res \<times> v1States" where
  "KeysSampled_recv msg uc enc =
     (let st = chunkedKeysSampled uc enc in
      by_epoch msg st
        (if mp_kind (vm_payload msg) = MessageTypeCt1 \<and> mp_chunk (vm_payload msg) \<noteq> None
         then moved (KeysSampled_recvCt1Chunk (the (mp_chunk (vm_payload msg))) uc, st)
         else stay st))"

definition HeaderSent_recv :: "v1Message \<Rightarrow> unchunkedEkSent \<Rightarrow> polyEncoder \<Rightarrow> polyDecoder \<Rightarrow> v1Recv res \<times> v1States" where
  "HeaderSent_recv msg uc enc dec =
     (let st = chunkedHeaderSent uc enc dec in
      by_epoch msg st
        (if mp_kind (vm_payload msg) = MessageTypeCt1 \<and> mp_chunk (vm_payload msg) \<noteq> None
         then moved (HeaderSent_recvCt1Chunk (vm_epoch msg) (the (mp_chunk (vm_payload msg))) uc enc dec)
         else stay st))"

definition Ct1Received_recv :: "v1Message \<Rightarrow> unchunkedEkSentCt1Received \<Rightarrow> polyEncoder \<Rightarrow> v1Recv res \<times> v1States" where
  "Ct1Received_recv msg uc enc =
     (let st = chunkedCt1Received uc enc in
      by_epoch msg st
        (if mp_kind (vm_payload msg) = MessageTypeCt2 \<and> mp_chunk (vm_payload msg) \<noteq> None
         then moved (Ct1Received_recvCt2Chunk (the (mp_chunk (vm_payload msg))) uc, st)
         else stay st))"

definition EkSentCt1Received_recv :: "'z pq_prims_scheme \<Rightarrow> v1Message \<Rightarrow> unchunkedEkSentCt1Received \<Rightarrow> polyDecoder \<Rightarrow> v1Recv res \<times> v1States" where
  "EkSentCt1Received_recv P msg uc dec =
     (let st = chunkedEkSentCt1Received uc dec in
      by_epoch msg st
        (if mp_kind (vm_payload msg) = MessageTypeCt2 \<and> mp_chunk (vm_payload msg) \<noteq> None
         then
           let (r, st) = EkSentCt1Received_recvCt2Chunk P (the (mp_chunk (vm_payload msg))) uc dec in
           (bindR r (\<lambda>(next, key). Inr (key, next)), st)
         else stay st))"

definition NoHeaderReceived_recv :: "'z prims_scheme \<Rightarrow> v1Message \<Rightarrow> unchunkedNoHeaderReceived \<Rightarrow> polyDecoder \<Rightarrow> v1Recv res \<times> v1States" where
  "NoHeaderReceived_recv P msg uc dec =
     (let st = chunkedNoHeaderReceived uc dec in
      by_epoch msg st
        (if mp_kind (vm_payload msg) = MessageTypeHdr \<and> mp_chunk (vm_payload msg) \<noteq> None
         then moved (NoHeaderReceived_recvHdrChunk P (vm_epoch msg) (the (mp_chunk (vm_payload msg))) uc dec)
         else stay st))"

definition HeaderReceived_recv :: "v1Message \<Rightarrow> unchunkedHeaderReceived \<Rightarrow> polyDecoder \<Rightarrow> v1Recv res \<times> v1States" where
  "HeaderReceived_recv msg uc dec =
     (let st = chunkedHeaderReceived uc dec in by_epoch msg st (stay st))"

definition Ct1Sampled_recv :: "'z pq_prims_scheme \<Rightarrow> v1Message \<Rightarrow> unchunkedCt1Sent \<Rightarrow> polyEncoder \<Rightarrow> polyDecoder \<Rightarrow> v1Recv res \<times> v1States" where
  "Ct1Sampled_recv P msg uc enc dec =
     (let st = chunkedCt1Sampled uc enc dec in
      by_epoch msg st
        (let ack = (mp_kind (vm_payload msg) = MessageTypeEkCt1Ack);
             chunk = (if mp_kind (vm_payload msg) \<noteq> MessageTypeEk \<and> mp_kind (vm_payload msg) \<noteq> MessageTypeEkCt1Ack
                      then None else mp_chunk (vm_payload msg))
         in case chunk of
              None \<Rightarrow> stay st
            | Some c \<Rightarrow> moved (Ct1Sampled_recvEkChunk P (vm_epoch msg) c ack uc enc dec)))"

definition EkReceivedCt1Sampled_recv :: "'z pq_prims_scheme \<Rightarrow> v1Message \<Rightarrow> unchunkedCt1SentEkReceived \<Rightarrow> polyEncoder \<Rightarrow> v1Recv res \<times> v1States" where
  "EkReceivedCt1Sampled_recv P msg uc enc =
     (let st = chunkedEkReceivedCt1Sampled uc enc in
      by_epoch msg st
        (if mp_kind (vm_payload msg) = MessageTypeCt1Ack \<or> mp_kind (vm_payload msg) = MessageTypeEkCt1Ack
         then moved (enter_Ct2Sampled P uc, st)
         else stay st))"

definition Ct1Acknowledged_recv :: "'z pq_prims_scheme \<Rightarrow> v1Message \<Rightarrow> unchunkedCt1Sent \<Rightarrow> polyDecoder \<Rightarrow> v1Recv res \<times> v1States" where
  "Ct1Acknowledged_recv P msg uc dec =
     (let st = chunkedCt1Acknowledged uc dec in
      by_epoch msg st
        (let chunk = (if mp_kind (vm_payload msg) \<noteq> MessageTypeEk \<and> mp_kind (vm_payload msg) \<noteq> MessageTypeEkCt1Ack
                      then None else mp_chunk (vm_payload msg))
         in case chunk of
              None \<Rightarrow> stay st
            | Some c \<Rightarrow> moved (Ct1Acknowledged_recvEkChunk P (vm_epoch msg) c uc dec)))"

text \<open>Only the last state of an epoch follows a message into the next epoch.\<close>

definition Ct2Sampled_recv :: "v1Message \<Rightarrow> unchunkedCt2Sent \<Rightarrow> polyEncoder \<Rightarrow> v1Recv res \<times> v1States" where
  "Ct2Sampled_recv msg uc enc =
     (let st = chunkedCt2Sampled uc enc in
      if vm_epoch msg > v1_epoch st then
        if vm_epoch msg = v1_epoch st + 1
        then moved (bindR (recvNextEpoch (vm_epoch msg) uc) (\<lambda>uc. Inr (chunkedKeysUnsampled uc)), st)
        else (Inl ErrSpqrEpochOutOfRange, st)
      else stay st)"

fun v1_recv :: "'z pq_prims_scheme \<Rightarrow> v1Message \<Rightarrow> v1States \<Rightarrow> v1Recv res \<times> v1States" where
  "v1_recv P msg (chunkedKeysUnsampled uc) = KeysUnsampled_recv msg uc"
| "v1_recv P msg (chunkedKeysSampled uc enc) = KeysSampled_recv msg uc enc"
| "v1_recv P msg (chunkedHeaderSent uc enc dec) = HeaderSent_recv msg uc enc dec"
| "v1_recv P msg (chunkedCt1Received uc enc) = Ct1Received_recv msg uc enc"
| "v1_recv P msg (chunkedEkSentCt1Received uc dec) = EkSentCt1Received_recv P msg uc dec"
| "v1_recv P msg (chunkedNoHeaderReceived uc dec) = NoHeaderReceived_recv P msg uc dec"
| "v1_recv P msg (chunkedHeaderReceived uc dec) = HeaderReceived_recv msg uc dec"
| "v1_recv P msg (chunkedCt1Sampled uc enc dec) = Ct1Sampled_recv P msg uc enc dec"
| "v1_recv P msg (chunkedEkReceivedCt1Sampled uc enc) = EkReceivedCt1Sampled_recv P msg uc enc"
| "v1_recv P msg (chunkedCt1Acknowledged uc dec) = Ct1Acknowledged_recv P msg uc dec"
| "v1_recv P msg (chunkedCt2Sampled uc enc) = Ct2Sampled_recv msg uc enc"

section \<open>Receiving, by the epoch of the message\<close>

text \<open>What each state does with a message of its own epoch, and with one of a later epoch.\<close>

fun recv_same :: "'z pq_prims_scheme \<Rightarrow> v1Message \<Rightarrow> v1States \<Rightarrow> v1Recv res \<times> v1States" where
  "recv_same P msg (chunkedKeysUnsampled uc) = stay (chunkedKeysUnsampled uc)"
| "recv_same P msg (chunkedKeysSampled uc enc) =
     (if mp_kind (vm_payload msg) = MessageTypeCt1 \<and> mp_chunk (vm_payload msg) \<noteq> None
      then moved (KeysSampled_recvCt1Chunk (the (mp_chunk (vm_payload msg))) uc, chunkedKeysSampled uc enc)
      else stay (chunkedKeysSampled uc enc))"
| "recv_same P msg (chunkedHeaderSent uc enc dec) =
     (if mp_kind (vm_payload msg) = MessageTypeCt1 \<and> mp_chunk (vm_payload msg) \<noteq> None
      then moved (HeaderSent_recvCt1Chunk (vm_epoch msg) (the (mp_chunk (vm_payload msg))) uc enc dec)
      else stay (chunkedHeaderSent uc enc dec))"
| "recv_same P msg (chunkedCt1Received uc enc) =
     (if mp_kind (vm_payload msg) = MessageTypeCt2 \<and> mp_chunk (vm_payload msg) \<noteq> None
      then moved (Ct1Received_recvCt2Chunk (the (mp_chunk (vm_payload msg))) uc, chunkedCt1Received uc enc)
      else stay (chunkedCt1Received uc enc))"
| "recv_same P msg (chunkedEkSentCt1Received uc dec) =
     (if mp_kind (vm_payload msg) = MessageTypeCt2 \<and> mp_chunk (vm_payload msg) \<noteq> None
      then
        let (r, st) = EkSentCt1Received_recvCt2Chunk P (the (mp_chunk (vm_payload msg))) uc dec in
        (bindR r (\<lambda>(next, key). Inr (key, next)), st)
      else stay (chunkedEkSentCt1Received uc dec))"
| "recv_same P msg (chunkedNoHeaderReceived uc dec) =
     (if mp_kind (vm_payload msg) = MessageTypeHdr \<and> mp_chunk (vm_payload msg) \<noteq> None
      then moved (NoHeaderReceived_recvHdrChunk P (vm_epoch msg) (the (mp_chunk (vm_payload msg))) uc dec)
      else stay (chunkedNoHeaderReceived uc dec))"
| "recv_same P msg (chunkedHeaderReceived uc dec) = stay (chunkedHeaderReceived uc dec)"
| "recv_same P msg (chunkedCt1Sampled uc enc dec) =
     (if (mp_kind (vm_payload msg) = MessageTypeEk \<or> mp_kind (vm_payload msg) = MessageTypeEkCt1Ack) \<and> mp_chunk (vm_payload msg) \<noteq> None
      then moved (Ct1Sampled_recvEkChunk P (vm_epoch msg) (the (mp_chunk (vm_payload msg)))
             (mp_kind (vm_payload msg) = MessageTypeEkCt1Ack) uc enc dec)
      else stay (chunkedCt1Sampled uc enc dec))"
| "recv_same P msg (chunkedEkReceivedCt1Sampled uc enc) =
     (if mp_kind (vm_payload msg) = MessageTypeCt1Ack \<or> mp_kind (vm_payload msg) = MessageTypeEkCt1Ack
      then moved (enter_Ct2Sampled P uc, chunkedEkReceivedCt1Sampled uc enc)
      else stay (chunkedEkReceivedCt1Sampled uc enc))"
| "recv_same P msg (chunkedCt1Acknowledged uc dec) =
     (if (mp_kind (vm_payload msg) = MessageTypeEk \<or> mp_kind (vm_payload msg) = MessageTypeEkCt1Ack) \<and> mp_chunk (vm_payload msg) \<noteq> None
      then moved (Ct1Acknowledged_recvEkChunk P (vm_epoch msg) (the (mp_chunk (vm_payload msg))) uc dec)
      else stay (chunkedCt1Acknowledged uc dec))"
| "recv_same P msg (chunkedCt2Sampled uc enc) = stay (chunkedCt2Sampled uc enc)"

definition recv_later :: "v1Message \<Rightarrow> v1States \<Rightarrow> v1Recv res \<times> v1States" where
  "recv_later msg st =
     (case st of
        chunkedCt2Sampled uc enc \<Rightarrow>
          if vm_epoch msg = ct_epoch uc + 1
          then moved (bindR (recvNextEpoch (vm_epoch msg) uc) (\<lambda>uc. Inr (chunkedKeysUnsampled uc)), st)
          else (Inl ErrSpqrEpochOutOfRange, st)
      | _ \<Rightarrow> (Inl ErrSpqrEpochOutOfRange, st))"

lemmas recv_defs = KeysUnsampled_recv_def KeysSampled_recv_def HeaderSent_recv_def Ct1Received_recv_def EkSentCt1Received_recv_def
  NoHeaderReceived_recv_def HeaderReceived_recv_def Ct1Sampled_recv_def EkReceivedCt1Sampled_recv_def Ct1Acknowledged_recv_def
  Ct2Sampled_recv_def by_epoch_def

lemma v1_recv_epochs:
  "v1_recv P msg st =
     (if vm_epoch msg > v1_epoch st then recv_later msg st
      else if vm_epoch msg < v1_epoch st then stay st
      else recv_same P msg st)"
  by (cases st) (auto simp: recv_defs recv_later_def Let_def split: option.splits)

declare v1_recv.simps [simp del]

end
