(* ===== verification/SPQR_Agreement.thy ===== *)
theory SPQR_Agreement
  imports SPQR_V1
begin

text \<open>
  The key agreement between two parties.  In every epoch one of them sends the encapsulation key and
  the other the ciphertext; both run the state machine of \<^verbatim>\<open>v1_chunked.go\<close>, and their messages may be lost,
  repeated and reordered.  The invariant \<open>pair\<close> ties the two states together by the values of the epoch,
  and the step lemmas show that every operation keeps it, that no message of the other party is
  refused, and that both sides obtain the same epoch secret.
\<close>

section \<open>Payloads and their pieces\<close>

definition piece :: "bytes \<Rightarrow> u16 \<Rightarrow> chunk" where
  "piece payload k = (case newPolyEncoder payload of Inr e \<Rightarrow> chunkAt e k | Inl _ \<Rightarrow> Chunk k [])"

lemma chunkAt_idx: "chunkAt (e\<lparr>pe_idx := i\<rparr>) k = chunkAt e k"
proof -
  have "pointAt (e\<lparr>pe_idx := i\<rparr>) = pointAt e" by (intro ext) (simp add: pointAt_def)
  then show ?thesis by (simp add: chunkAt_def)
qed

lemma encoder_piece: "encoder_ok e \<Longrightarrow> chunkAt e k = piece (pe_msg e) k"
  by (simp add: encoder_ok_def piece_def chunkAt_idx)

definition sends :: "bytes \<Rightarrow> polyEncoder \<Rightarrow> bool" where
  "sends payload e \<longleftrightarrow> encoder_ok e \<and> pe_msg e = payload"

lemma sends_next:
  assumes "sends payload e"
  shows "\<exists>k e'. nextChunk e = (piece payload k, e') \<and> sends payload e'"
  using assms encoder_piece [of e "ucast (pe_idx e)"] nextChunk_ok [of e]
  by (auto simp: sends_def nextChunk_def)

lemma sends_new: "even (length payload) \<Longrightarrow> length payload \<le> 2 ^ 20 \<Longrightarrow> \<exists>e. newPolyEncoder payload = Inr e \<and> sends payload e"
  using newPolyEncoder_ok [of payload]
  by (auto simp: newPolyEncoder_def polyNumPolys_def sends_def even_iff_mod_2_eq_zero)

definition holds :: "bytes \<Rightarrow> polyDecoder \<Rightarrow> bool" where
  "holds payload d \<longleftrightarrow> (\<exists>e S. sends payload e \<and> fed e S d)"

lemma holds_new:
  assumes "newPolyDecoder n = Inr d" "length payload = n" "n \<le> 2 ^ 20"
  shows "holds payload d"
proof -
  have "even n" using assms(1) by (auto simp: newPolyDecoder_def even_iff_mod_2_eq_zero split: if_splits)
  then obtain e where e: "sends payload e" using sends_new [of payload] assms by auto
  then have "fed e {} d" using assms by (intro fed_new) (simp add: sends_def)
  with e show ?thesis unfolding holds_def by blast
qed

lemma holds_add: "holds payload d \<Longrightarrow> holds payload (addChunk (piece payload k) d)"
  unfolding holds_def sends_def using fed_addChunk encoder_piece by metis

lemma holds_decode:
  assumes "holds payload d" "32 \<le> length payload"
  shows "decodedMessage d = Inr None \<or> decodedMessage d = Inr (Some payload)"
proof -
  obtain e S where "sends payload e" "fed e S d" using assms(1) unfolding holds_def by blast
  then show ?thesis using fed_decode [of e S d] assms(2) by (auto simp: sends_def)
qed

lemma newPolyDecoder_even: "even n \<Longrightarrow> \<exists>d. newPolyDecoder n = Inr d"
  by (simp add: newPolyDecoder_def even_iff_mod_2_eq_zero)

section \<open>The values of an epoch\<close>

text \<open>The epoch, the authenticator at its start, and the random bytes both parties draw in it.\<close>

record ghost =
  g_epoch :: u64
  g_auth :: authenticator
  g_seed :: bytes
  g_rnd :: bytes

definition g_pk :: "'z pq_prims_scheme \<Rightarrow> ghost \<Rightarrow> bytes" where
  "g_pk P g = mlkem_pk P (arr 64 (g_seed g))"

definition g_hdr :: "'z pq_prims_scheme \<Rightarrow> ghost \<Rightarrow> bytes" where
  "g_hdr P g = drop 1152 (g_pk P g) @ Sum256 P (g_pk P g)"

definition g_ek :: "'z pq_prims_scheme \<Rightarrow> ghost \<Rightarrow> bytes" where
  "g_ek P g = take 1152 (g_pk P g)"

definition g_dk :: "'z pq_prims_scheme \<Rightarrow> ghost \<Rightarrow> bytes" where
  "g_dk P g = mlkem_sk P (arr 64 (g_seed g))"

definition g_hdr_payload :: "'z pq_prims_scheme \<Rightarrow> ghost \<Rightarrow> bytes" where
  "g_hdr_payload P g = g_hdr P g @ macHdr P (g_epoch g) (g_hdr P g) (g_auth g)"

definition g_encaps :: "'z pq_prims_scheme \<Rightarrow> ghost \<Rightarrow> mlkemEncapsulationState" where
  "g_encaps P g = \<lparr>es_seed = arr 32 (g_rnd g), es_rho = drop 1152 (g_pk P g), es_pkHash = Sum256 P (g_pk P g)\<rparr>"

definition g_kr :: "'z pq_prims_scheme \<Rightarrow> ghost \<Rightarrow> bytes" where
  "g_kr P g = Sum512 P (arr 32 (g_rnd g) @ Sum256 P (g_pk P g))"

definition g_ct :: "'z pq_prims_scheme \<Rightarrow> ghost \<Rightarrow> bytes" where
  "g_ct P g = EncryptTo P (g_pk P g) (arr 32 (g_rnd g)) (drop 32 (g_kr P g))"

definition g_key :: "'z pq_prims_scheme \<Rightarrow> ghost \<Rightarrow> bytes" where
  "g_key P g = hkdf_bytes P (take 32 (g_kr P g)) (replicate 32 0) (pqrSckaKeyInfo @ epochBytes (g_epoch g)) 32"

definition g_auth' :: "'z pq_prims_scheme \<Rightarrow> ghost \<Rightarrow> authenticator" where
  "g_auth' P g = snd (auth_update P (g_epoch g) (g_key P g) (g_auth g))"

definition g_ct2_payload :: "'z pq_prims_scheme \<Rightarrow> ghost \<Rightarrow> bytes" where
  "g_ct2_payload P g = drop 960 (g_ct P g) @ macCt P (g_epoch g) (g_ct P g) (g_auth' P g)"

lemma g_lengths [simp]:
  "length (g_pk P g) = 1184" "length (g_hdr P g) = 64" "length (g_ek P g) = 1152" "length (g_dk P g) = 2400"
  "length (g_hdr_payload P g) = 96" "length (g_kr P g) = 64" "length (g_ct P g) = 1088" "length (g_ct2_payload P g) = 160"
  by (simp_all add: g_pk_def mlkem_pk_def g_hdr_def Sum256_def g_ek_def g_dk_def mlkem_sk_def g_hdr_payload_def macHdr_def
      hmacSha256_def g_kr_def Sum512_def g_ct_def EncryptTo_def g_ct2_payload_def macCt_def)

lemma g_rnd_unused [simp]:
  "g_pk P (g\<lparr>g_rnd := r\<rparr>) = g_pk P g" "g_hdr P (g\<lparr>g_rnd := r\<rparr>) = g_hdr P g" "g_ek P (g\<lparr>g_rnd := r\<rparr>) = g_ek P g"
  "g_dk P (g\<lparr>g_rnd := r\<rparr>) = g_dk P g" "g_hdr_payload P (g\<lparr>g_rnd := r\<rparr>) = g_hdr_payload P g"
  by (simp_all add: g_pk_def g_hdr_def g_ek_def g_dk_def g_hdr_payload_def)

lemma HKDF_bytes: "len \<le> 255 * 32 \<Longrightarrow> HKDF P ikm salt info len = Inr (hkdf_bytes P ikm salt info len)"
  by (simp add: HKDF_def HKDFExpand_def hkdfMaxLength_def hkdf_bytes_def)

lemma auth_update_Inr: "auth_update P epoch key a = (Inr (), snd (auth_update P epoch key a))"
  by (simp add: auth_update_def HKDF_bytes)

lemma deriveSckaKey_g: "deriveSckaKey P (g_epoch g) (take 32 (g_kr P g)) = Inr (g_key P g)"
  by (simp add: deriveSckaKey_def HKDF_bytes g_key_def)

lemma mlkemGenerateKeys_g:
  "g_seed g = seed \<Longrightarrow> mlkemGenerateKeys P (Inr seed) = Inr \<lparr>mk_hdr = g_hdr P g, mk_ek = g_ek P g, mk_dk = g_dk P g\<rparr>"
  by (simp add: mlkemGenerateKeys_def g_hdr_def g_ek_def g_dk_def g_pk_def mlkem_sizes Let_def)

lemma g_pk_split: "g_ek P g @ drop 1152 (g_pk P g) = g_pk P g"
  by (simp add: g_ek_def)

lemma mlkemEncaps1_g:
  assumes "mlkem_ok P" "g_rnd g = rnd"
  shows "mlkemEncaps1 P (Inr rnd) (g_hdr P g) = Inr (take 960 (g_ct P g), g_encaps P g, take 32 (g_kr P g))"
proof -
  have "take 960 (EncryptTo P (replicate 1152 0 @ drop 1152 (g_pk P g)) m r) = take 960 (EncryptTo P (g_ek P g @ drop 1152 (g_pk P g)) m r)" for m r
    using assms(1) by (simp add: mlkem_ok_def)
  then show ?thesis
    using assms(2)
    by (simp add: mlkemEncaps1_def mlkem_sizes Let_def g_hdr_def g_ct_def g_kr_def g_encaps_def g_pk_split Sum256_def)
qed

lemma mlkemEncaps2_g: "mlkemEncaps2 P (g_ek P g) (g_encaps P g) = Inr (drop 960 (g_ct P g))"
  by (simp add: mlkemEncaps2_def g_encaps_def mlkem_sizes g_pk_split g_ct_def g_kr_def Let_def)

lemma mlkemDecaps_g:
  assumes "mlkem_ok P"
  shows "mlkemDecaps P (g_dk P g) (take 960 (g_ct P g)) (drop 960 (g_ct P g)) = Inr (take 32 (g_kr P g))"
proof -
  have "mlkem_sk_ok P (g_dk P g)" "arr 32 (mlkem_decaps P (g_dk P g) (g_ct P g)) = take 32 (g_kr P g)"
    using assms by (simp_all add: mlkem_ok_def g_dk_def g_ct_def g_kr_def g_pk_def Let_def)
  then show ?thesis by (simp add: mlkemDecaps_def mlkem_sizes)
qed

lemma mlkemEKMatchesHeader_g: "mlkem_ok P \<Longrightarrow> mlkemEKMatchesHeader P (g_ek P g) (g_hdr P g)"
  by (simp add: mlkemEKMatchesHeader_def mlkem_sizes g_hdr_def g_pk_split Let_def Sum256_def)
    (simp add: mlkem_ok_def g_pk_def)

section \<open>The two parties\<close>

text \<open>
  The phases of the party that sends the encapsulation key.  In phase 0 it still sends the second
  ciphertext of the epoch before.
\<close>

inductive x_at :: "'z pq_prims_scheme \<Rightarrow> ghost \<Rightarrow> nat \<Rightarrow> v1States \<Rightarrow> bool" for P g where
  x0: "sends payload enc \<Longrightarrow> x_at P g 0 (chunkedCt2Sampled \<lparr>ct_epoch = g_epoch g - 1, ct_auth = g_auth g\<rparr> enc)"
| x1: "x_at P g 1 (chunkedKeysUnsampled \<lparr>ku_epoch = g_epoch g, ku_auth = g_auth g\<rparr>)"
| x2: "sends (g_hdr_payload P g) enc \<Longrightarrow>
    x_at P g 2 (chunkedKeysSampled \<lparr>hs_epoch = g_epoch g, hs_auth = g_auth g, hs_ek = g_ek P g, hs_dk = g_dk P g\<rparr> enc)"
| x3: "sends (g_ek P g) enc \<Longrightarrow> holds (take 960 (g_ct P g)) dec \<Longrightarrow>
    x_at P g 3 (chunkedHeaderSent \<lparr>ks_epoch = g_epoch g, ks_auth = g_auth g, ks_dk = g_dk P g\<rparr> enc dec)"
| x4: "sends (g_ek P g) enc \<Longrightarrow>
    x_at P g 4 (chunkedCt1Received
      \<lparr>kc_epoch = g_epoch g, kc_auth = g_auth g, kc_dk = g_dk P g, kc_ct1 = take 960 (g_ct P g)\<rparr> enc)"
| x5: "holds (g_ct2_payload P g) dec \<Longrightarrow>
    x_at P g 5 (chunkedEkSentCt1Received
      \<lparr>kc_epoch = g_epoch g, kc_auth = g_auth g, kc_dk = g_dk P g, kc_ct1 = take 960 (g_ct P g)\<rparr> dec)"

text \<open>The phases of the party that sends the ciphertext; in phase 0 it has received no chunk of the header.\<close>

inductive y_at :: "'z pq_prims_scheme \<Rightarrow> ghost \<Rightarrow> nat \<Rightarrow> v1States \<Rightarrow> bool" for P g where
  y0: "newPolyDecoder 96 = Inr dec \<Longrightarrow> y_at P g 0 (chunkedNoHeaderReceived \<lparr>nh_epoch = g_epoch g, nh_auth = g_auth g\<rparr> dec)"
| y1: "holds (g_hdr_payload P g) dec \<Longrightarrow> y_at P g 1 (chunkedNoHeaderReceived \<lparr>nh_epoch = g_epoch g, nh_auth = g_auth g\<rparr> dec)"
| y2: "holds (g_ek P g) dec \<Longrightarrow>
    y_at P g 2 (chunkedHeaderReceived \<lparr>hr_epoch = g_epoch g, hr_auth = g_auth g, hr_hdr = g_hdr P g\<rparr> dec)"
| y3: "sends (take 960 (g_ct P g)) enc \<Longrightarrow> holds (g_ek P g) dec \<Longrightarrow>
    y_at P g 3 (chunkedCt1Sampled \<lparr>cs_epoch = g_epoch g, cs_auth = g_auth' P g, cs_hdr = g_hdr P g,
      cs_encaps = g_encaps P g, cs_ct1 = take 960 (g_ct P g)\<rparr> enc dec)"
| y4: "sends (take 960 (g_ct P g)) enc \<Longrightarrow>
    y_at P g 4 (chunkedEkReceivedCt1Sampled \<lparr>ck_epoch = g_epoch g, ck_auth = g_auth' P g, ck_encaps = g_encaps P g,
      ck_ek = g_ek P g, ck_ct1 = take 960 (g_ct P g)\<rparr> enc)"
| y5: "holds (g_ek P g) dec \<Longrightarrow>
    y_at P g 5 (chunkedCt1Acknowledged \<lparr>cs_epoch = g_epoch g, cs_auth = g_auth' P g, cs_hdr = g_hdr P g,
      cs_encaps = g_encaps P g, cs_ct1 = take 960 (g_ct P g)\<rparr> dec)"
| y6: "sends (g_ct2_payload P g) enc \<Longrightarrow>
    y_at P g 6 (chunkedCt2Sampled \<lparr>ct_epoch = g_epoch g, ct_auth = g_auth' P g\<rparr> enc)"

definition phases_ok :: "nat \<Rightarrow> nat \<Rightarrow> bool" where
  "phases_ok x y \<longleftrightarrow> (y = 0 \<and> x \<le> 2) \<or> (y \<in> {1, 2} \<and> x = 2) \<or> (y = 3 \<and> x \<in> {2, 3, 4}) \<or>
     (y = 4 \<and> x \<in> {3, 4}) \<or> (y = 5 \<and> x = 4) \<or> (y = 6 \<and> x \<in> {4, 5})"

text \<open>The messages of the epoch that the parties may have sent by then.\<close>

definition msg_is :: "v1Message \<Rightarrow> MessageType \<Rightarrow> bytes \<Rightarrow> bool" where
  "msg_is msg kind payload \<longleftrightarrow> mp_kind (vm_payload msg) = kind \<and> (\<exists>k. mp_chunk (vm_payload msg) = Some (piece payload k))"

definition x_msg :: "'z pq_prims_scheme \<Rightarrow> ghost \<Rightarrow> nat \<Rightarrow> v1Message \<Rightarrow> bool" where
  "x_msg P g x msg \<longleftrightarrow> vm_epoch msg < g_epoch g \<or> vm_epoch msg = g_epoch g \<and>
     (msg_is msg MessageTypeHdr (g_hdr_payload P g) \<and> 2 \<le> x \<or>
      msg_is msg MessageTypeEk (g_ek P g) \<and> 3 \<le> x \<or>
      msg_is msg MessageTypeEkCt1Ack (g_ek P g) \<and> 4 \<le> x \<or>
      mp_kind (vm_payload msg) = MessageTypeCt1Ack \<and> mp_chunk (vm_payload msg) = None \<and> 5 \<le> x)"

definition y_msg :: "'z pq_prims_scheme \<Rightarrow> ghost \<Rightarrow> nat \<Rightarrow> v1Message \<Rightarrow> bool" where
  "y_msg P g y msg \<longleftrightarrow> vm_epoch msg < g_epoch g \<or> vm_epoch msg = g_epoch g \<and>
     (mp_kind (vm_payload msg) = MessageTypeNone \<and> mp_chunk (vm_payload msg) = None \<or>
      msg_is msg MessageTypeCt1 (take 960 (g_ct P g)) \<and> 3 \<le> y \<or>
      msg_is msg MessageTypeCt2 (g_ct2_payload P g) \<and> 6 \<le> y)"

definition epoch_ok :: "u64 \<Rightarrow> bool" where
  "epoch_ok e \<longleftrightarrow> 0 < e \<and> unat e < 2 ^ 63"

definition pair :: "'z pq_prims_scheme \<Rightarrow> ghost \<Rightarrow> nat \<Rightarrow> nat \<Rightarrow> v1Message set \<Rightarrow> v1Message set \<Rightarrow> v1States \<Rightarrow> v1States \<Rightarrow> bool" where
  "pair P g x y MX MY X Y \<longleftrightarrow> epoch_ok (g_epoch g) \<and> x_at P g x X \<and> y_at P g y Y \<and> phases_ok x y \<and> (x = 0 \<longrightarrow> 1 < g_epoch g) \<and>
     (\<forall>msg \<in> MX. x_msg P g x msg) \<and> (\<forall>msg \<in> MY. y_msg P g y msg)"

inductive_cases x_atE: "x_at P g x X"
inductive_cases y_atE: "y_at P g y Y"

section \<open>Messages\<close>

lemma x_msg_mono: "x_msg P g x msg \<Longrightarrow> x \<le> x' \<Longrightarrow> x_msg P g x' msg"
  unfolding x_msg_def by force

lemma y_msg_mono: "y_msg P g y msg \<Longrightarrow> y \<le> y' \<Longrightarrow> y_msg P g y' msg"
  unfolding y_msg_def by force

text \<open>Before the random bytes of the epoch are drawn, messages do not depend on them.\<close>

lemma x_msg_seed: "x_msg P g x msg \<Longrightarrow> x < 2 \<Longrightarrow> x_msg P (g\<lparr>g_seed := s\<rparr>) x msg"
  unfolding x_msg_def by auto

lemma x_msg_rnd: "x_msg P (g\<lparr>g_rnd := r\<rparr>) x msg = x_msg P g x msg"
  by (simp add: x_msg_def g_hdr_payload_def g_hdr_def g_ek_def g_pk_def)

lemma y_msg_seed: "y_msg P g y msg \<Longrightarrow> y < 3 \<Longrightarrow> y_msg P (g\<lparr>g_seed := s\<rparr>) y msg"
  unfolding y_msg_def by auto

lemma y_msg_rnd: "y_msg P g y msg \<Longrightarrow> y < 3 \<Longrightarrow> y_msg P (g\<lparr>g_rnd := r\<rparr>) y msg"
  unfolding y_msg_def by auto

lemma msg_is_chunk: "msg_is (chunk_msg epoch kind (piece payload k)) kind' payload' \<longleftrightarrow> kind = kind' \<and> (\<exists>k'. piece payload k = piece payload' k')"
  by (auto simp: msg_is_def chunk_msg_def)

lemma msg_is_own [simp]: "msg_is (chunk_msg epoch kind (piece payload k)) kind payload"
  by (auto simp: msg_is_def chunk_msg_def)

lemma vm_epoch_msgs [simp]: "vm_epoch (chunk_msg e t c) = e" "vm_epoch (plain_msg e t a) = e"
  "mp_kind (vm_payload (plain_msg e t a)) = t" "mp_chunk (vm_payload (plain_msg e t a)) = None"
  by (simp_all add: chunk_msg_def plain_msg_def)

section \<open>Sending\<close>

lemma send_chunk_sends:
  assumes "sends payload enc"
  shows "\<exists>k enc'. send_chunk st epoch kind enc =
     (Inr \<lparr>sn_msg = chunk_msg epoch kind (piece payload k), sn_key = None, sn_state = st enc'\<rparr>, st enc') \<and> sends payload enc'"
  using sends_next [OF assms] by (auto simp: send_chunk_def)

lemma pair_MX: "pair P g x y MX MY X Y \<Longrightarrow> x_msg P g x msg \<Longrightarrow> pair P g x y (insert msg MX) MY X Y"
  by (simp add: pair_def)

lemma pair_MY: "pair P g x y MX MY X Y \<Longrightarrow> y_msg P g y msg \<Longrightarrow> pair P g x y MX (insert msg MY) X Y"
  by (simp add: pair_def)

lemma pair_X: "pair P g x y MX MY X Y \<Longrightarrow> x_at P g x X' \<Longrightarrow> pair P g x y MX MY X' Y"
  by (simp add: pair_def)

lemma pair_Y: "pair P g x y MX MY X Y \<Longrightarrow> y_at P g y Y' \<Longrightarrow> pair P g x y MX MY X Y'"
  by (simp add: pair_def)

lemma epoch_pred: "epoch_ok e \<Longrightarrow> e - 1 < e \<and> unat (e - 1) = unat e - 1"
  by (cases "e = 0") (auto simp: epoch_ok_def word_less_nat_alt unat_minus_one)

text \<open>The header is sampled and sent.\<close>

lemma pair_sample_keys:
  assumes "pair P g 1 y MX MY X Y"
  shows "\<exists>k enc. v1_send P (Inr seed) X = (Inr \<lparr>sn_msg = chunk_msg (g_epoch g) MessageTypeHdr (piece (g_hdr_payload P (g\<lparr>g_seed := seed\<rparr>)) k),
       sn_key = None, sn_state = chunkedKeysSampled \<lparr>hs_epoch = g_epoch g, hs_auth = g_auth g, hs_ek = g_ek P (g\<lparr>g_seed := seed\<rparr>),
         hs_dk = g_dk P (g\<lparr>g_seed := seed\<rparr>)\<rparr> enc\<rparr>, X) \<and> sends (g_hdr_payload P (g\<lparr>g_seed := seed\<rparr>)) enc"
proof -
  let ?g = "g\<lparr>g_seed := seed\<rparr>"
  have X: "X = chunkedKeysUnsampled \<lparr>ku_epoch = g_epoch g, ku_auth = g_auth g\<rparr>"
    using assms by (auto simp: pair_def elim: x_atE)
  obtain e where e: "newPolyEncoder (g_hdr_payload P ?g) = Inr e" "sends (g_hdr_payload P ?g) e"
    using sends_new [of "g_hdr_payload P ?g"] by auto
  obtain k e' where k: "nextChunk e = (piece (g_hdr_payload P ?g) k, e')" "sends (g_hdr_payload P ?g) e'"
    using sends_next [OF e(2)] by blast
  have "sendHeader P (Inr seed) \<lparr>ku_epoch = g_epoch g, ku_auth = g_auth g\<rparr> =
      Inr (\<lparr>hs_epoch = g_epoch g, hs_auth = g_auth g, hs_ek = g_ek P ?g, hs_dk = g_dk P ?g\<rparr>, g_hdr P ?g, macHdr P (g_epoch g) (g_hdr P ?g) (g_auth g))"
    by (simp add: sendHeader_def mlkemGenerateKeys_g [of ?g])
  moreover have "g_hdr_payload P ?g = g_hdr P ?g @ macHdr P (g_epoch g) (g_hdr P ?g) (g_auth g)" by (simp add: g_hdr_payload_def)
  ultimately show ?thesis
    using e(1) k by (auto simp: X KeysUnsampled_sendHdrChunk_def)
qed

lemma sends_message_ok: "sends payload e \<Longrightarrow> hasChunk kind \<Longrightarrow> message_ok (chunk_msg epoch kind (piece payload k))"
  using encoder_piece [of e k] chunkAt_length [of e k] by (simp add: sends_def message_ok_def chunk_msg_def)

text \<open>What sending does, for either party: a message that fits the phase, and the next state.\<close>

definition sends_ok :: "v1Send res \<times> v1States \<Rightarrow> epochSecret option \<Rightarrow> v1States \<Rightarrow> v1Message \<Rightarrow> v1States \<Rightarrow> bool" where
  "sends_ok r key st msg st' \<longleftrightarrow> fst r = Inr \<lparr>sn_msg = msg, sn_key = key, sn_state = st'\<rparr> \<and>
     vm_epoch msg = v1_epoch st \<and> v1_epoch st' = v1_epoch st \<and> message_ok msg"

lemma sends_ok_chunk:
  assumes "r = send_chunk st' epoch kind enc" "sends payload enc" "hasChunk kind" "epoch = v1_epoch st"
    "\<And>enc'. v1_epoch (st' enc') = v1_epoch st"
  shows "\<exists>k enc'. sends_ok r None st (chunk_msg epoch kind (piece payload k)) (st' enc') \<and> sends payload enc'"
  using send_chunk_sends [OF assms(2), of st' epoch kind] sends_message_ok [OF assms(2,3)] assms(1,4,5)
  by (auto simp: sends_ok_def)

lemmas kinds = MessageType_defs hasChunk_def

text \<open>A state that sends the chunks of a payload.\<close>

definition chunk_source :: "'z pq_prims_scheme \<Rightarrow> v1States \<Rightarrow> (polyEncoder \<Rightarrow> v1States) \<Rightarrow> MessageType \<Rightarrow> bytes \<Rightarrow> polyEncoder \<Rightarrow> bool" where
  "chunk_source P v st kind payload enc \<longleftrightarrow> v = st enc \<and> (\<forall>rand. v1_send P rand v = send_chunk st (v1_epoch v) kind enc) \<and>
     sends payload enc \<and> hasChunk kind \<and> (\<forall>enc'. v1_epoch (st enc') = v1_epoch v)"

lemma chunk_source_send:
  assumes "chunk_source P v st kind payload enc"
  shows "\<exists>k enc'. sends_ok (v1_send P rand v) None v (chunk_msg (v1_epoch v) kind (piece payload k)) (st enc') \<and> sends payload enc'"
proof (rule sends_ok_chunk)
  show "v1_send P rand v = send_chunk st (v1_epoch v) kind enc" "sends payload enc" "hasChunk kind" "\<And>enc'. v1_epoch (st enc') = v1_epoch v"
    using assms unfolding chunk_source_def by blast+
qed simp

lemma x_chunks:
  assumes "x_at P g x X" "x \<notin> {1, 5}" "epoch_ok (g_epoch g)"
  shows "\<exists>st kind payload enc. chunk_source P X st kind payload enc \<and> (\<forall>enc'. sends payload enc' \<longrightarrow> x_at P g x (st enc')) \<and>
     (\<forall>k. x_msg P g x (chunk_msg (v1_epoch X) kind (piece payload k)))"
  using assms(1)
proof cases
  case (x0 payload enc)
  have "chunk_source P X (chunkedCt2Sampled \<lparr>ct_epoch = g_epoch g - 1, ct_auth = g_auth g\<rparr>) MessageTypeCt2 payload enc"
    using x0 by (simp add: chunk_source_def kinds)
  then show ?thesis using x0 x_at.x0 epoch_pred [OF assms(3)] by (fastforce simp: x_msg_def)
next
  case (x2 enc)
  have "chunk_source P X (chunkedKeysSampled \<lparr>hs_epoch = g_epoch g, hs_auth = g_auth g, hs_ek = g_ek P g, hs_dk = g_dk P g\<rparr>) MessageTypeHdr
      (g_hdr_payload P g) enc"
    using x2 by (simp add: chunk_source_def kinds)
  then show ?thesis using x2 x_at.x2 by (fastforce simp: x_msg_def)
next
  case (x3 enc dec)
  have "chunk_source P X (\<lambda>enc. chunkedHeaderSent \<lparr>ks_epoch = g_epoch g, ks_auth = g_auth g, ks_dk = g_dk P g\<rparr> enc dec) MessageTypeEk (g_ek P g) enc"
    using x3 by (simp add: chunk_source_def kinds)
  then show ?thesis using x3 x_at.x3 by (fastforce simp: x_msg_def)
next
  case (x4 enc)
  have "chunk_source P X (chunkedCt1Received \<lparr>kc_epoch = g_epoch g, kc_auth = g_auth g, kc_dk = g_dk P g, kc_ct1 = take 960 (g_ct P g)\<rparr>)
      MessageTypeEkCt1Ack (g_ek P g) enc"
    using x4 by (simp add: chunk_source_def kinds)
  then show ?thesis using x4 x_at.x4 by (fastforce simp: x_msg_def)
qed (use assms(2) in simp_all)

lemma pair_send_keys:
  assumes "pair P g 1 y MX MY X Y"
  shows "\<exists>msg X'. sends_ok (v1_send P (Inr r) X) None X msg X' \<and> pair P (g\<lparr>g_seed := r\<rparr>) 2 y (insert msg MX) MY X' Y"
proof -
  let ?g = "g\<lparr>g_seed := r\<rparr>"
  have X: "X = chunkedKeysUnsampled \<lparr>ku_epoch = g_epoch g, ku_auth = g_auth g\<rparr>" using assms by (auto simp: pair_def elim: x_atE)
  obtain k enc where s: "fst (v1_send P (Inr r) X) = Inr \<lparr>sn_msg = chunk_msg (g_epoch g) MessageTypeHdr (piece (g_hdr_payload P ?g) k),
      sn_key = None, sn_state = chunkedKeysSampled \<lparr>hs_epoch = g_epoch g, hs_auth = g_auth g, hs_ek = g_ek P ?g, hs_dk = g_dk P ?g\<rparr> enc\<rparr>"
    and enc: "sends (g_hdr_payload P ?g) enc"
    using pair_sample_keys [OF assms, of r] by auto
  let ?m = "chunk_msg (g_epoch g) MessageTypeHdr (piece (g_hdr_payload P ?g) k)"
  have "message_ok ?m" by (rule sends_message_ok [OF enc]) (simp add: kinds)
  then have ok: "sends_ok (v1_send P (Inr r) X) None X ?m
      (chunkedKeysSampled \<lparr>hs_epoch = g_epoch g, hs_auth = g_auth g, hs_ek = g_ek P ?g, hs_dk = g_dk P ?g\<rparr> enc)"
    using s by (simp add: sends_ok_def X)
  have "y = 0" using assms by (auto simp: pair_def phases_ok_def)
  then have "y_at P ?g y Y" using assms y_at.y0 [of _ P ?g] by (auto simp: pair_def elim!: y_atE)
  then have "pair P ?g 2 y (insert ?m MX) MY
      (chunkedKeysSampled \<lparr>hs_epoch = g_epoch g, hs_auth = g_auth g, hs_ek = g_ek P ?g, hs_dk = g_dk P ?g\<rparr> enc) Y"
    using assms x_at.x2 [OF enc] \<open>y = 0\<close>
    by (auto simp: pair_def phases_ok_def intro: x_msg_mono [OF x_msg_seed] y_msg_seed) (simp add: x_msg_def)
  with ok show ?thesis by blast
qed

lemma pair_send_X:
  assumes "pair P g x y MX MY X Y"
  shows "\<exists>msg X' g' x'. sends_ok (v1_send P (Inr r) X) None X msg X' \<and>
     pair P g' x' y (insert msg MX) MY X' Y \<and> g_epoch g' = g_epoch g \<and> (y = 0 \<or> g' = g)"
proof -
  have inv: "epoch_ok (g_epoch g)" "x_at P g x X" using assms by (simp_all add: pair_def)
  consider "x = 1" | "x = 5" | "x \<notin> {1, 5}" by blast
  then show ?thesis
  proof cases
    case 1
    then have "y = 0" using assms by (auto simp: pair_def phases_ok_def)
    with pair_send_keys [OF assms [unfolded 1], of r] show ?thesis by force
  next
    case 2
    have "sends_ok (v1_send P (Inr r) X) None X (plain_msg (g_epoch g) MessageTypeCt1Ack True) X"
      using inv(2) unfolding 2 by (auto simp: sends_ok_def message_ok_def kinds elim: x_atE)
    then show ?thesis
      using pair_MX [OF assms, of "plain_msg (g_epoch g) MessageTypeCt1Ack True"] 2 by (force simp: x_msg_def)
  next
    case 3
    from x_chunks [OF inv(2) this inv(1)] obtain st kind payload enc where c: "chunk_source P X st kind payload enc"
      "\<And>enc'. sends payload enc' \<Longrightarrow> x_at P g x (st enc')" "\<And>k. x_msg P g x (chunk_msg (v1_epoch X) kind (piece payload k))" by blast
    from chunk_source_send [OF c(1)] obtain k enc' where
      "sends_ok (v1_send P (Inr r) X) None X (chunk_msg (v1_epoch X) kind (piece payload k)) (st enc')" "sends payload enc'" by blast
    with pair_MX [OF pair_X [OF assms c(2)] c(3)] show ?thesis by blast
  qed
qed

text \<open>The first ciphertext is sampled and sent, and gives the epoch secret.\<close>

lemma pair_sample_ct1:
  fixes P :: "'z pq_prims_scheme" and g x MX MY X Y rnd
  assumes "pair P g x 2 MX MY X Y" "mlkem_ok P"
  defines "g' \<equiv> g\<lparr>g_rnd := rnd\<rparr>"
  shows "\<exists>k enc dec. fst (v1_send P (Inr rnd) Y) = Inr \<lparr>sn_msg = chunk_msg (g_epoch g) MessageTypeCt1 (piece (take 960 (g_ct P g')) k),
       sn_key = Some \<lparr>ep_epoch = g_epoch g, ep_secret = g_key P g'\<rparr>,
       sn_state = chunkedCt1Sampled \<lparr>cs_epoch = g_epoch g, cs_auth = g_auth' P g', cs_hdr = g_hdr P g',
         cs_encaps = g_encaps P g', cs_ct1 = take 960 (g_ct P g')\<rparr> enc dec\<rparr> \<and>
     sends (take 960 (g_ct P g')) enc \<and> holds (g_ek P g') dec \<and> v1_epoch Y = g_epoch g"
proof -
  obtain dec where Y: "Y = chunkedHeaderReceived \<lparr>hr_epoch = g_epoch g, hr_auth = g_auth g, hr_hdr = g_hdr P g\<rparr> dec" "holds (g_ek P g) dec"
    using assms(1) by (auto simp: pair_def elim: y_atE)
  have same: "g_hdr P g' = g_hdr P g" "g_ek P g' = g_ek P g" "g_epoch g' = g_epoch g" "g_auth g' = g_auth g"
    by (simp_all add: g'_def g_hdr_def g_ek_def g_pk_def)
  have "mlkemEncaps1 P (Inr rnd) (g_hdr P g') = Inr (take 960 (g_ct P g'), g_encaps P g', take 32 (g_kr P g'))"
    by (rule mlkemEncaps1_g [OF assms(2)]) (simp add: g'_def)
  moreover have "auth_update P (g_epoch g) (g_key P g') (g_auth g) = (Inr (), g_auth' P g')"
    using auth_update_Inr [of P "g_epoch g" "g_key P g'" "g_auth g"] by (simp add: g_auth'_def same)
  moreover have "deriveSckaKey P (g_epoch g) (take 32 (g_kr P g')) = Inr (g_key P g')"
    using deriveSckaKey_g [of P g'] by (simp add: same)
  ultimately have ct1: "fst (sendCt1 P (Inr rnd) \<lparr>hr_epoch = g_epoch g, hr_auth = g_auth g, hr_hdr = g_hdr P g\<rparr>) =
      Inr (\<lparr>cs_epoch = g_epoch g, cs_auth = g_auth' P g', cs_hdr = g_hdr P g', cs_encaps = g_encaps P g', cs_ct1 = take 960 (g_ct P g')\<rparr>,
        take 960 (g_ct P g'), \<lparr>ep_epoch = g_epoch g, ep_secret = g_key P g'\<rparr>)"
    by (simp add: sendCt1_def same Let_def)
  obtain e where e: "newPolyEncoder (take 960 (g_ct P g')) = Inr e" "sends (take 960 (g_ct P g')) e"
    using sends_new [of "take 960 (g_ct P g')"] by auto
  obtain k e' where k: "nextChunk e = (piece (take 960 (g_ct P g')) k, e')" "sends (take 960 (g_ct P g')) e'"
    using sends_next [OF e(2)] by blast
  show ?thesis
    using ct1 e(1) k Y(2) by (auto simp: Y(1) HeaderReceived_sendCt1Chunk_def split_beta same)
qed

lemma y_chunks:
  assumes "y_at P g y Y" "y \<in> {3, 4, 6}"
  shows "\<exists>st kind payload enc. chunk_source P Y st kind payload enc \<and> (\<forall>enc'. sends payload enc' \<longrightarrow> y_at P g y (st enc')) \<and>
     (\<forall>k. y_msg P g y (chunk_msg (v1_epoch Y) kind (piece payload k)))"
  using assms(1)
proof cases
  case (y3 enc dec)
  have "chunk_source P Y (\<lambda>enc. chunkedCt1Sampled \<lparr>cs_epoch = g_epoch g, cs_auth = g_auth' P g, cs_hdr = g_hdr P g,
      cs_encaps = g_encaps P g, cs_ct1 = take 960 (g_ct P g)\<rparr> enc dec) MessageTypeCt1 (take 960 (g_ct P g)) enc"
    using y3 by (simp add: chunk_source_def kinds)
  then show ?thesis using y3 y_at.y3 by (fastforce simp: y_msg_def)
next
  case (y4 enc)
  have "chunk_source P Y (chunkedEkReceivedCt1Sampled \<lparr>ck_epoch = g_epoch g, ck_auth = g_auth' P g, ck_encaps = g_encaps P g,
      ck_ek = g_ek P g, ck_ct1 = take 960 (g_ct P g)\<rparr>) MessageTypeCt1 (take 960 (g_ct P g)) enc"
    using y4 by (simp add: chunk_source_def kinds)
  then show ?thesis using y4 y_at.y4 by (fastforce simp: y_msg_def)
next
  case (y6 enc)
  have "chunk_source P Y (chunkedCt2Sampled \<lparr>ct_epoch = g_epoch g, ct_auth = g_auth' P g\<rparr>) MessageTypeCt2 (g_ct2_payload P g) enc"
    using y6 by (simp add: chunk_source_def kinds)
  then show ?thesis using y6 y_at.y6 by (fastforce simp: y_msg_def)
qed (use assms(2) in simp_all)

lemma pair_send_ct1:
  assumes "pair P g x 2 MX MY X Y" "mlkem_ok P"
  shows "\<exists>msg Y'. sends_ok (v1_send P (Inr r) Y) (Some \<lparr>ep_epoch = g_epoch g, ep_secret = g_key P (g\<lparr>g_rnd := r\<rparr>)\<rparr>) Y msg Y' \<and>
     pair P (g\<lparr>g_rnd := r\<rparr>) x 3 MX (insert msg MY) X Y'"
proof -
  let ?g = "g\<lparr>g_rnd := r\<rparr>"
  obtain k enc dec where s: "fst (v1_send P (Inr r) Y) = Inr \<lparr>sn_msg = chunk_msg (g_epoch g) MessageTypeCt1 (piece (take 960 (g_ct P ?g)) k),
      sn_key = Some \<lparr>ep_epoch = g_epoch g, ep_secret = g_key P ?g\<rparr>,
      sn_state = chunkedCt1Sampled \<lparr>cs_epoch = g_epoch g, cs_auth = g_auth' P ?g, cs_hdr = g_hdr P ?g, cs_encaps = g_encaps P ?g, cs_ct1 = take 960 (g_ct P ?g)\<rparr> enc dec\<rparr>"
    "sends (take 960 (g_ct P ?g)) enc" "holds (g_ek P ?g) dec" "v1_epoch Y = g_epoch g"
    using pair_sample_ct1 [OF assms, of r] by blast
  let ?m = "chunk_msg (g_epoch g) MessageTypeCt1 (piece (take 960 (g_ct P ?g)) k)"
  let ?Y = "chunkedCt1Sampled \<lparr>cs_epoch = g_epoch g, cs_auth = g_auth' P ?g, cs_hdr = g_hdr P ?g, cs_encaps = g_encaps P ?g, cs_ct1 = take 960 (g_ct P ?g)\<rparr> enc dec"
  have "message_ok ?m" by (rule sends_message_ok [OF s(2)]) (simp add: kinds)
  then have ok: "sends_ok (v1_send P (Inr r) Y) (Some \<lparr>ep_epoch = g_epoch g, ep_secret = g_key P ?g\<rparr>) Y ?m ?Y"
    using s by (simp add: sends_ok_def)
  have x: "x = 2" using assms(1) by (auto simp: pair_def phases_ok_def)
  have "x_at P ?g 2 X" using assms(1) x_at.x2 [of P ?g] unfolding x by (auto simp: pair_def elim!: x_atE)
  then have "pair P ?g x 3 MX (insert ?m MY) X ?Y"
    using assms(1) x y_at.y3 [OF s(2,3)]
    by (auto simp: pair_def phases_ok_def x_msg_rnd intro: y_msg_mono [OF y_msg_rnd]) (simp add: y_msg_def)
  with ok show ?thesis by blast
qed

lemma pair_send_Y:
  assumes "pair P g x y MX MY X Y" "mlkem_ok P"
  shows "\<exists>msg Y' g' y'. sends_ok (v1_send P (Inr r) Y) (if y = 2 then Some \<lparr>ep_epoch = g_epoch g, ep_secret = g_key P g'\<rparr> else None) Y msg Y' \<and>
     pair P g' x y' MX (insert msg MY) X Y' \<and> g_epoch g' = g_epoch g \<and> (y \<noteq> 2 \<longrightarrow> g' = g \<and> y' = y) \<and> (y = 2 \<longrightarrow> y' = 3)"
proof -
  have inv: "y_at P g y Y" "y \<le> 6" using assms(1) by (auto simp: pair_def phases_ok_def)
  consider "y = 2" | "y \<in> {0, 1, 5}" | "y \<in> {3, 4, 6}" using inv(2) by fastforce
  then show ?thesis
  proof cases
    case 1
    with pair_send_ct1 [OF assms(1) [unfolded 1] assms(2), of r] show ?thesis by force
  next
    case 2
    then have "sends_ok (v1_send P (Inr r) Y) None Y (plain_msg (g_epoch g) MessageTypeNone False) Y"
      using inv(1) by (auto simp: sends_ok_def message_ok_def kinds elim: y_atE)
    then show ?thesis
      using pair_MY [OF assms(1), of "plain_msg (g_epoch g) MessageTypeNone False"] 2 by (force simp: y_msg_def)
  next
    case 3
    from y_chunks [OF inv(1) this] obtain st kind payload enc where c: "chunk_source P Y st kind payload enc"
      "\<And>enc'. sends payload enc' \<Longrightarrow> y_at P g y (st enc')" "\<And>k. y_msg P g y (chunk_msg (v1_epoch Y) kind (piece payload k))" by blast
    from chunk_source_send [OF c(1)] obtain k enc' where
      "sends_ok (v1_send P (Inr r) Y) None Y (chunk_msg (v1_epoch Y) kind (piece payload k)) (st enc')" "sends payload enc'" by blast
    moreover have "y \<noteq> 2" using 3 by auto
    ultimately show ?thesis using pair_MY [OF pair_Y [OF assms(1) c(2)] c(3)] by force
  qed
qed

section \<open>Receiving\<close>

lemma ct1_fact [simp]: "length (take 960 (g_ct P g)) = 960"
  by simp

text \<open>What each handler does with a chunk that the other party sent.\<close>

lemma KeysSampled_step:
  "\<exists>enc dec. KeysSampled_recvCt1Chunk (piece (take 960 (g_ct P g)) k)
      \<lparr>hs_epoch = g_epoch g, hs_auth = g_auth g, hs_ek = g_ek P g, hs_dk = g_dk P g\<rparr> =
     Inr (chunkedHeaderSent \<lparr>ks_epoch = g_epoch g, ks_auth = g_auth g, ks_dk = g_dk P g\<rparr> enc dec) \<and>
     sends (g_ek P g) enc \<and> holds (take 960 (g_ct P g)) dec"
proof -
  obtain d where d: "newPolyDecoder 960 = Inr d" using newPolyDecoder_even [of 960] by auto
  have "holds (take 960 (g_ct P g)) d" by (rule holds_new [OF d]) simp_all
  from holds_add [OF this, of k] show ?thesis
    using d sends_new [of "g_ek P g"] by (auto simp: KeysSampled_recvCt1Chunk_def sendEk_def mlkem_sizes)
qed

lemma HeaderSent_step:
  assumes "sends (g_ek P g) enc" "holds (take 960 (g_ct P g)) dec"
  shows "\<exists>x X'. fst (HeaderSent_recvCt1Chunk (g_epoch g) (piece (take 960 (g_ct P g)) k)
      \<lparr>ks_epoch = g_epoch g, ks_auth = g_auth g, ks_dk = g_dk P g\<rparr> enc dec) = Inr X' \<and> x_at P g x X' \<and> x \<in> {3, 4}"
proof -
  have h: "holds (take 960 (g_ct P g)) (addChunk (piece (take 960 (g_ct P g)) k) dec)" by (rule holds_add [OF assms(2)])
  from holds_decode [OF this] show ?thesis
    using x_at.x3 [OF assms(1) h] x_at.x4 [OF assms(1)]
    by (auto simp: HeaderSent_recvCt1Chunk_def recvCt1_def Let_def)
qed

lemma Ct1Received_step:
  "\<exists>dec. Ct1Received_recvCt2Chunk (piece (g_ct2_payload P g) k)
      \<lparr>kc_epoch = g_epoch g, kc_auth = g_auth g, kc_dk = g_dk P g, kc_ct1 = take 960 (g_ct P g)\<rparr> =
     Inr (chunkedEkSentCt1Received \<lparr>kc_epoch = g_epoch g, kc_auth = g_auth g, kc_dk = g_dk P g, kc_ct1 = take 960 (g_ct P g)\<rparr> dec) \<and>
     holds (g_ct2_payload P g) dec"
proof -
  obtain d where d: "newPolyDecoder 160 = Inr d" using newPolyDecoder_even [of 160] by auto
  have "holds (g_ct2_payload P g) d" by (rule holds_new [OF d]) simp_all
  from holds_add [OF this, of k] show ?thesis using d by (simp add: Ct1Received_recvCt2Chunk_def mlkem_sizes)
qed

definition next_ghost :: "'z pq_prims_scheme \<Rightarrow> ghost \<Rightarrow> ghost" where
  "next_ghost P g = \<lparr>g_epoch = g_epoch g + 1, g_auth = g_auth' P g, g_seed = [], g_rnd = []\<rparr>"

lemma recvCt2_g:
  assumes "mlkem_ok P"
  shows "fst (recvCt2 P (drop 960 (g_ct P g)) (macCt P (g_epoch g) (g_ct P g) (g_auth' P g))
      \<lparr>kc_epoch = g_epoch g, kc_auth = g_auth g, kc_dk = g_dk P g, kc_ct1 = take 960 (g_ct P g)\<rparr>) =
     Inr (\<lparr>nh_epoch = g_epoch g + 1, nh_auth = g_auth' P g\<rparr>, \<lparr>ep_epoch = g_epoch g, ep_secret = g_key P g\<rparr>)"
proof -
  have "auth_update P (g_epoch g) (g_key P g) (g_auth g) = (Inr (), g_auth' P g)"
    using auth_update_Inr [of P "g_epoch g" "g_key P g" "g_auth g"] by (simp add: g_auth'_def)
  moreover have "length (macCt P (g_epoch g) (g_ct P g) (g_auth' P g)) = 32" by (simp add: macCt_def hmacSha256_def)
  ultimately show ?thesis
    by (simp add: recvCt2_def mlkem_sizes mlkemDecaps_g [OF assms, unfolded mlkem_sizes] deriveSckaKey_g verifyCt_def Let_def)
qed

lemma EkSentCt1Received_step:
  assumes "holds (g_ct2_payload P g) dec" "mlkem_ok P"
  defines "uc \<equiv> \<lparr>kc_epoch = g_epoch g, kc_auth = g_auth g, kc_dk = g_dk P g, kc_ct1 = take 960 (g_ct P g)\<rparr>"
  shows "(\<exists>X'. fst (EkSentCt1Received_recvCt2Chunk P (piece (g_ct2_payload P g) k) uc dec) = Inr (X', None) \<and> x_at P g 5 X') \<or>
     (\<exists>X'. fst (EkSentCt1Received_recvCt2Chunk P (piece (g_ct2_payload P g) k) uc dec)
         = Inr (X', Some \<lparr>ep_epoch = g_epoch g, ep_secret = g_key P g\<rparr>) \<and> y_at P (next_ghost P g) 0 X')"
proof -
  let ?d = "addChunk (piece (g_ct2_payload P g) k) dec"
  have h: "holds (g_ct2_payload P g) ?d" by (rule holds_add [OF assms(1)])
  have cut: "take 128 (g_ct2_payload P g) = drop 960 (g_ct P g)" "drop 128 (g_ct2_payload P g) = macCt P (g_epoch g) (g_ct P g) (g_auth' P g)"
    by (simp_all add: g_ct2_payload_def)
  obtain d0 where d0: "newPolyDecoder 96 = Inr d0" using newPolyDecoder_even [of 96] by auto
  have "decodedMessage ?d = Inr None \<or> decodedMessage ?d = Inr (Some (g_ct2_payload P g))" using holds_decode [OF h] by simp
  then show ?thesis
  proof (elim disjE)
    assume "decodedMessage ?d = Inr None"
    then show ?thesis
      using x_at.x5 [OF h] by (auto simp: EkSentCt1Received_recvCt2Chunk_def uc_def Let_def)
  next
    assume "decodedMessage ?d = Inr (Some (g_ct2_payload P g))"
    then have "fst (EkSentCt1Received_recvCt2Chunk P (piece (g_ct2_payload P g) k) uc dec)
        = Inr (chunkedNoHeaderReceived \<lparr>nh_epoch = g_epoch g + 1, nh_auth = g_auth' P g\<rparr> d0, Some \<lparr>ep_epoch = g_epoch g, ep_secret = g_key P g\<rparr>)"
      using recvCt2_g [OF assms(2), of g] d0
      by (simp add: EkSentCt1Received_recvCt2Chunk_def mlkem_sizes cut uc_def Let_def split_beta)
    moreover have "y_at P (next_ghost P g) 0 (chunkedNoHeaderReceived \<lparr>nh_epoch = g_epoch g + 1, nh_auth = g_auth' P g\<rparr> d0)"
      using y_at.y0 [OF d0, of P "next_ghost P g"] by (simp add: next_ghost_def)
    ultimately show ?thesis by blast
  qed
qed

lemma NoHeaderReceived_step:
  assumes "holds (g_hdr_payload P g) dec"
  shows "\<exists>y Y'. fst (NoHeaderReceived_recvHdrChunk P (g_epoch g) (piece (g_hdr_payload P g) k)
      \<lparr>nh_epoch = g_epoch g, nh_auth = g_auth g\<rparr> dec) = Inr Y' \<and> y_at P g y Y' \<and> y \<in> {1, 2}"
proof -
  let ?d = "addChunk (piece (g_hdr_payload P g) k) dec"
  have h: "holds (g_hdr_payload P g) ?d" by (rule holds_add [OF assms])
  obtain d0 where d0: "newPolyDecoder 1152 = Inr d0" using newPolyDecoder_even [of 1152] by auto
  have ek: "holds (g_ek P g) d0" by (rule holds_new [OF d0]) simp_all
  have cut: "take 64 (g_hdr_payload P g) = g_hdr P g" "drop 64 (g_hdr_payload P g) = macHdr P (g_epoch g) (g_hdr P g) (g_auth g)"
    by (simp_all add: g_hdr_payload_def)
  have "recvHeader P (g_epoch g) (g_hdr P g) (macHdr P (g_epoch g) (g_hdr P g) (g_auth g)) \<lparr>nh_epoch = g_epoch g, nh_auth = g_auth g\<rparr>
      = Inr \<lparr>hr_epoch = g_epoch g, hr_auth = g_auth g, hr_hdr = g_hdr P g\<rparr>"
    by (simp add: recvHeader_def verifyHdr_def mlkem_sizes macHdr_def hmacSha256_def)
  with holds_decode [OF h] show ?thesis
    using y_at.y1 [OF h] y_at.y2 [OF ek] d0
    by (auto simp: NoHeaderReceived_recvHdrChunk_def mlkem_sizes cut Let_def)
qed

lemma enter_Ct2Sampled_g:
  "\<exists>Y'. enter_Ct2Sampled P \<lparr>ck_epoch = g_epoch g, ck_auth = g_auth' P g, ck_encaps = g_encaps P g, ck_ek = g_ek P g,
      ck_ct1 = take 960 (g_ct P g)\<rparr> = Inr Y' \<and> y_at P g 6 Y'"
proof -
  obtain e where e: "newPolyEncoder (g_ct2_payload P g) = Inr e" "sends (g_ct2_payload P g) e"
    using sends_new [of "g_ct2_payload P g"] by auto
  then show ?thesis
    using y_at.y6 [OF e(2)]
    by (simp add: enter_Ct2Sampled_def sendCt2_def mlkemEncaps2_g Let_def g_ct2_payload_def [symmetric] del: append_assoc)
qed

lemma recvEk_g:
  assumes "mlkem_ok P"
  shows "recvEk P (g_epoch g) (g_ek P g) \<lparr>cs_epoch = g_epoch g, cs_auth = g_auth' P g, cs_hdr = g_hdr P g,
      cs_encaps = g_encaps P g, cs_ct1 = take 960 (g_ct P g)\<rparr> =
     Inr \<lparr>ck_epoch = g_epoch g, ck_auth = g_auth' P g, ck_encaps = g_encaps P g, ck_ek = g_ek P g, ck_ct1 = take 960 (g_ct P g)\<rparr>"
  by (simp add: recvEk_def mlkemEKMatchesHeader_g [OF assms])

lemma Ct1Sampled_step:
  assumes "sends (take 960 (g_ct P g)) enc" "holds (g_ek P g) dec" "mlkem_ok P"
  shows "\<exists>y Y'. fst (Ct1Sampled_recvEkChunk P (g_epoch g) (piece (g_ek P g) k) ack \<lparr>cs_epoch = g_epoch g, cs_auth = g_auth' P g,
      cs_hdr = g_hdr P g, cs_encaps = g_encaps P g, cs_ct1 = take 960 (g_ct P g)\<rparr> enc dec) = Inr Y' \<and> y_at P g y Y' \<and>
      y \<in> (if ack then {5, 6} else {3, 4})"
proof -
  have h: "holds (g_ek P g) (addChunk (piece (g_ek P g) k) dec)" by (rule holds_add [OF assms(2)])
  from holds_decode [OF this] show ?thesis
    using y_at.y3 [OF assms(1) h] y_at.y4 [OF assms(1)] y_at.y5 [OF h] enter_Ct2Sampled_g [of P g]
    by (auto simp: Ct1Sampled_recvEkChunk_def recvEk_g [OF assms(3)] Let_def)
qed

lemma Ct1Acknowledged_step:
  assumes "holds (g_ek P g) dec" "mlkem_ok P"
  shows "\<exists>y Y'. fst (Ct1Acknowledged_recvEkChunk P (g_epoch g) (piece (g_ek P g) k) \<lparr>cs_epoch = g_epoch g, cs_auth = g_auth' P g,
      cs_hdr = g_hdr P g, cs_encaps = g_encaps P g, cs_ct1 = take 960 (g_ct P g)\<rparr> dec) = Inr Y' \<and> y_at P g y Y' \<and> y \<in> {5, 6}"
proof -
  have h: "holds (g_ek P g) (addChunk (piece (g_ek P g) k) dec)" by (rule holds_add [OF assms(1)])
  from holds_decode [OF this] show ?thesis
    using y_at.y5 [OF h] enter_Ct2Sampled_g [of P g]
    by (auto simp: Ct1Acknowledged_recvEkChunk_def recvEk_g [OF assms(2)] Let_def)
qed

text \<open>A message of the own epoch, at either party.\<close>

lemma y_msg_same:
  assumes "y_msg P g y msg" "vm_epoch msg = g_epoch g"
  obtains "mp_kind (vm_payload msg) = MessageTypeNone"
  | k where "mp_kind (vm_payload msg) = MessageTypeCt1" "mp_chunk (vm_payload msg) = Some (piece (take 960 (g_ct P g)) k)" "3 \<le> y"
  | k where "mp_kind (vm_payload msg) = MessageTypeCt2" "mp_chunk (vm_payload msg) = Some (piece (g_ct2_payload P g) k)" "6 \<le> y"
  using assms unfolding y_msg_def msg_is_def by auto

lemma x_msg_same:
  assumes "x_msg P g x msg" "vm_epoch msg = g_epoch g"
  obtains k where "mp_kind (vm_payload msg) = MessageTypeHdr" "mp_chunk (vm_payload msg) = Some (piece (g_hdr_payload P g) k)" "2 \<le> x"
  | k where "mp_kind (vm_payload msg) = MessageTypeEk" "mp_chunk (vm_payload msg) = Some (piece (g_ek P g) k)" "3 \<le> x"
  | k where "mp_kind (vm_payload msg) = MessageTypeEkCt1Ack" "mp_chunk (vm_payload msg) = Some (piece (g_ek P g) k)" "4 \<le> x"
  | "mp_kind (vm_payload msg) = MessageTypeCt1Ack" "5 \<le> x"
  using assms unfolding x_msg_def msg_is_def by auto

definition x_moves :: "'z pq_prims_scheme \<Rightarrow> ghost \<Rightarrow> nat \<Rightarrow> nat \<Rightarrow> v1Recv res \<Rightarrow> bool" where
  "x_moves P g x y r \<longleftrightarrow>
     (\<exists>x' X'. r = Inr (None, X') \<and> x_at P g x' X' \<and> phases_ok x' y \<and> x \<le> x') \<or>
     (y = 6 \<and> (\<exists>X'. r = Inr (Some \<lparr>ep_epoch = g_epoch g, ep_secret = g_key P g\<rparr>, X') \<and> y_at P (next_ghost P g) 0 X'))"

definition y_moves :: "'z pq_prims_scheme \<Rightarrow> ghost \<Rightarrow> nat \<Rightarrow> nat \<Rightarrow> v1Recv res \<Rightarrow> bool" where
  "y_moves P g x y r \<longleftrightarrow> (\<exists>y' Y'. r = Inr (None, Y') \<and> y_at P g y' Y' \<and> phases_ok x y' \<and> y \<le> y' \<and> (y' \<le> 2 \<longleftrightarrow> y \<le> 2))"

lemma x_stay: "x_at P g x X \<Longrightarrow> phases_ok x y \<Longrightarrow> x_moves P g x y (fst (stay X))"
  unfolding x_moves_def stay_def by auto

lemma y_stay: "y_at P g y Y \<Longrightarrow> phases_ok x y \<Longrightarrow> y_moves P g x y (fst (stay Y))"
  unfolding y_moves_def stay_def by auto

lemma x_recv_same:
  assumes "x_at P g x X" "1 \<le> x" "y_msg P g y msg" "vm_epoch msg = g_epoch g" "phases_ok x y" "mlkem_ok P"
  shows "x_moves P g x y (fst (recv_same P msg X))"
  using assms(1)
proof cases
  case x0
  then show ?thesis using assms(2) by simp
next
  case x1
  then show ?thesis using x_stay [OF assms(1,5)] by simp
next
  case (x2 enc)
  from assms(3,4) show ?thesis
  proof (cases rule: y_msg_same)
    case (2 k)
    then have "phases_ok 3 y" using assms(5) x2(1) by (auto simp: phases_ok_def)
    then show ?thesis
      using 2 KeysSampled_step [of P g k] x_at.x3 x2(1) by (fastforce simp: x2(2) moved_def x_moves_def)
  qed (use x_stay [OF assms(1,5)] x2(2) in \<open>simp_all add: kinds\<close>)
next
  case (x3 enc dec)
  from assms(3,4) show ?thesis
  proof (cases rule: y_msg_same)
    case (2 k)
    then have "phases_ok 3 y" "phases_ok 4 y" using assms(5) x3(1) by (auto simp: phases_ok_def)
    then show ?thesis
      using 2 HeaderSent_step [OF x3(3,4), of k] x3(1) assms(4) by (fastforce simp: x3(2) moved_def x_moves_def)
  qed (use x_stay [OF assms(1,5)] x3(2) in \<open>simp_all add: kinds\<close>)
next
  case (x4 enc)
  from assms(3,4) show ?thesis
  proof (cases rule: y_msg_same)
    case (3 k)
    then have "phases_ok 5 y" using assms(5) x4(1) by (auto simp: phases_ok_def)
    then show ?thesis
      using 3 Ct1Received_step [of P g k] x_at.x5 x4(1) by (fastforce simp: x4(2) moved_def x_moves_def)
  qed (use x_stay [OF assms(1,5)] x4(2) in \<open>simp_all add: kinds\<close>)
next
  case (x5 dec)
  from assms(3,4) show ?thesis
  proof (cases rule: y_msg_same)
    case (3 k)
    then have "y = 6" using assms(5) x5(1) by (auto simp: phases_ok_def)
    then show ?thesis
      using 3 EkSentCt1Received_step [OF x5(3) assms(6), of k] x5(1) assms(5) by (fastforce simp: x5(2) split_beta x_moves_def)
  qed (use x_stay [OF assms(1,5)] x5(2) in \<open>simp_all add: kinds\<close>)
qed

lemma y_recv_same:
  assumes "y_at P g y Y" "x_msg P g x msg" "vm_epoch msg = g_epoch g" "phases_ok x y" "mlkem_ok P"
  shows "y_moves P g x y (fst (recv_same P msg Y))"
  using assms(1)
proof cases
  case (y0 dec)
  from assms(2,3) show ?thesis
  proof (cases rule: x_msg_same)
    case (1 k)
    then have "phases_ok x 1" "phases_ok x 2" using assms(4) y0(1) by (auto simp: phases_ok_def)
    moreover have "holds (g_hdr_payload P g) dec" by (rule holds_new [OF y0(3)]) simp_all
    ultimately show ?thesis
      using 1 NoHeaderReceived_step [of P g dec k] y0(1) assms(3) by (fastforce simp: y0(2) moved_def y_moves_def)
  qed (use y_stay [OF assms(1,4)] y0(2) in \<open>simp_all add: kinds\<close>)
next
  case (y1 dec)
  from assms(2,3) show ?thesis
  proof (cases rule: x_msg_same)
    case (1 k)
    then have "phases_ok x 1" "phases_ok x 2" using assms(4) y1(1) by (auto simp: phases_ok_def)
    then show ?thesis
      using 1 NoHeaderReceived_step [OF y1(3), of k] y1(1) assms(3) by (fastforce simp: y1(2) moved_def y_moves_def)
  qed (use y_stay [OF assms(1,4)] y1(2) in \<open>simp_all add: kinds\<close>)
next
  case (y2 dec)
  then show ?thesis using y_stay [OF assms(1,4)] by simp
next
  case (y3 enc dec)
  from assms(2,3) show ?thesis
  proof (cases rule: x_msg_same)
    case (2 k)
    then have "phases_ok x 3" "phases_ok x 4" using assms(4) y3(1) by (auto simp: phases_ok_def)
    then show ?thesis
      using 2 Ct1Sampled_step [OF y3(3,4) assms(5), of k False] y3(1) assms(3) by (fastforce simp: y3(2) moved_def y_moves_def kinds)
  next
    case (3 k)
    then have "phases_ok x 5" "phases_ok x 6" using assms(4) y3(1) by (auto simp: phases_ok_def)
    then show ?thesis
      using 3 Ct1Sampled_step [OF y3(3,4) assms(5), of k True] y3(1) assms(3) by (fastforce simp: y3(2) moved_def y_moves_def kinds)
  qed (use y_stay [OF assms(1,4)] y3(2) in \<open>simp_all add: kinds\<close>)
next
  case (y4 enc)
  from assms(2,3) show ?thesis
  proof (cases rule: x_msg_same)
    case (3 k)
    then have "phases_ok x 6" using assms(4) y4(1) by (auto simp: phases_ok_def)
    then show ?thesis
      using 3 enter_Ct2Sampled_g [of P g] y4(1) by (fastforce simp: y4(2) moved_def y_moves_def kinds)
  next
    case 4
    then show ?thesis using assms(4) y4(1) by (auto simp: phases_ok_def)
  qed (use y_stay [OF assms(1,4)] y4(2) in \<open>simp_all add: kinds\<close>)
next
  case (y5 dec)
  then have "phases_ok x 5" "phases_ok x 6" using assms(4) by (auto simp: phases_ok_def)
  note step = this Ct1Acknowledged_step [OF y5(3) assms(5)] y5(1)
  from assms(2,3) show ?thesis
  proof (cases rule: x_msg_same)
    case (2 k)
    then show ?thesis using step(1,2) step(3) [of k] step(4) assms(3) by (fastforce simp: y5(2) moved_def y_moves_def kinds)
  next
    case (3 k)
    then show ?thesis using step(1,2) step(3) [of k] step(4) assms(3) by (fastforce simp: y5(2) moved_def y_moves_def kinds)
  qed (use y_stay [OF assms(1,4)] y5(2) in \<open>simp_all add: kinds\<close>)
next
  case (y6 enc)
  then show ?thesis using y_stay [OF assms(1,4)] by simp
qed

text \<open>Receiving at either party, whatever the epoch of the message.\<close>

lemma y_epoch: "y_at P g y Y \<Longrightarrow> v1_epoch Y = g_epoch g"
  by (auto elim: y_atE)

lemma x_epoch: "x_at P g x X \<Longrightarrow> v1_epoch X = (if x = 0 then g_epoch g - 1 else g_epoch g)"
  by (auto elim: x_atE)

lemma pair_recv_Y:
  assumes "pair P g x y MX MY X Y" "mlkem_ok P" "x_msg P g x msg"
  shows "\<exists>y' Y'. fst (v1_recv P msg Y) = Inr (None, Y') \<and> pair P g x y' MX MY X Y' \<and> (y' \<le> 2 \<longleftrightarrow> y \<le> 2)"
proof -
  have p: "y_at P g y Y" "phases_ok x y" using assms(1) by (simp_all add: pair_def)
  have "vm_epoch msg \<le> g_epoch g" using assms(3) by (auto simp: x_msg_def)
  then have "y_moves P g x y (fst (v1_recv P msg Y))"
    using y_recv_same [OF p(1) assms(3) _ p(2) assms(2)] y_stay [OF p] y_epoch [OF p(1)] by (auto simp: v1_recv_epochs)
  then obtain y' Y' where "fst (v1_recv P msg Y) = Inr (None, Y')" "y_at P g y' Y'" "phases_ok x y'" "y \<le> y'" "y' \<le> 2 \<longleftrightarrow> y \<le> 2"
    unfolding y_moves_def by blast
  moreover from this have "pair P g x y' MX MY X Y'" using assms(1) y_msg_mono [of P g y] by (simp add: pair_def)
  ultimately show ?thesis by blast
qed

lemma x_recv:
  assumes "x_at P g x X" "epoch_ok (g_epoch g)" "phases_ok x y" "y_msg P g y msg" "mlkem_ok P"
  shows "x_moves P g x y (fst (v1_recv P msg X))"
proof (cases "x = 0")
  case True
  from assms(1) obtain payload enc where X: "X = chunkedCt2Sampled \<lparr>ct_epoch = g_epoch g - 1, ct_auth = g_auth g\<rparr> enc"
    unfolding True by (auto elim: x_atE)
  have y: "phases_ok 1 y" using assms(3) True by (auto simp: phases_ok_def)
  consider "vm_epoch msg = g_epoch g" | "vm_epoch msg \<le> g_epoch g - 1"
    using assms(4) epoch_pred [OF assms(2)] by (auto simp: y_msg_def word_less_nat_alt word_le_nat_alt)
  then show ?thesis
  proof cases
    case 1
    then show ?thesis
      using epoch_pred [OF assms(2)] y x_at.x1 [of P g] True
      by (auto simp: v1_recv_epochs X recv_later_def recvNextEpoch_def moved_def x_moves_def)
  next
    case 2
    then show ?thesis using x_stay [OF assms(1,3)] by (auto simp: v1_recv_epochs X)
  qed
next
  case False
  have "vm_epoch msg \<le> g_epoch g" using assms(4) by (auto simp: y_msg_def)
  then show ?thesis
    using False x_recv_same [OF assms(1) _ assms(4) _ assms(3,5)] x_stay [OF assms(1,3)] x_epoch [OF assms(1)] by (auto simp: v1_recv_epochs)
qed

lemma epoch_ok_Suc: "epoch_ok e \<Longrightarrow> unat e + 1 < 2 ^ 63 \<Longrightarrow> epoch_ok (e + 1) \<and> e < e + 1 \<and> unat (e + 1) = unat e + 1"
  by (auto simp: epoch_ok_def word_less_nat_alt unat_word_ariths)

text \<open>Where the key party completes the epoch, the parties change their roles.\<close>

lemma pair_swap:
  assumes "pair P g x 6 MX MY X Y" "y_at P (next_ghost P g) 0 X'" "unat (g_epoch g) + 1 < 2 ^ 63"
  shows "pair P (next_ghost P g) 0 0 MY MX Y X'"
proof -
  have e: "epoch_ok (g_epoch g + 1)" "g_epoch g < g_epoch g + 1" using epoch_ok_Suc assms by (auto simp: pair_def)
  have "1 < g_epoch g + 1" using assms e by (auto simp: pair_def epoch_ok_def word_less_nat_alt unat_word_ariths)
  obtain enc where "Y = chunkedCt2Sampled \<lparr>ct_epoch = g_epoch g, ct_auth = g_auth' P g\<rparr> enc" "sends (g_ct2_payload P g) enc"
    using assms(1) by (auto simp: pair_def elim: y_atE)
  then have "x_at P (next_ghost P g) 0 Y" using x_at.x0 [of _ enc P "next_ghost P g"] by (simp add: next_ghost_def)
  then show ?thesis
    using assms e \<open>1 < g_epoch g + 1\<close> by (auto simp: pair_def phases_ok_def x_msg_def y_msg_def next_ghost_def)
qed

lemma pair_recv_X:
  assumes "pair P g x y MX MY X Y" "mlkem_ok P" "y_msg P g y msg" "unat (g_epoch g) + 1 < 2 ^ 63"
  shows "(\<exists>x' X'. fst (v1_recv P msg X) = Inr (None, X') \<and> pair P g x' y MX MY X' Y \<and> x \<le> x') \<or>
     (\<exists>X'. 3 \<le> y \<and> fst (v1_recv P msg X) = Inr (Some \<lparr>ep_epoch = g_epoch g, ep_secret = g_key P g\<rparr>, X') \<and>
        pair P (next_ghost P g) 0 0 MY MX Y X')"
proof -
  have p: "x_at P g x X" "epoch_ok (g_epoch g)" "phases_ok x y" using assms(1) by (simp_all add: pair_def)
  from x_recv [OF p assms(3,2)] show ?thesis
    unfolding x_moves_def
  proof (elim disjE exE conjE)
    fix x' X' assume "fst (v1_recv P msg X) = Inr (None, X')" "x_at P g x' X'" "phases_ok x' y" "x \<le> x'"
    moreover from this have "pair P g x' y MX MY X' Y" using assms(1) x_msg_mono [of P g x] by (simp add: pair_def)
    ultimately show ?thesis by blast
  next
    fix X' assume "y = 6" "fst (v1_recv P msg X) = Inr (Some \<lparr>ep_epoch = g_epoch g, ep_secret = g_key P g\<rparr>, X')"
      "y_at P (next_ghost P g) 0 X'"
    with pair_swap [of P g x MX MY X Y X'] assms(1,4) show ?thesis by auto
  qed
qed

section \<open>The start\<close>

lemma pair_init:
  assumes "authKey \<noteq> []"
  shows "\<exists>A B g. initV1StateA P authKey = Inr A \<and> initV1StateB P authKey = Inr B \<and> pair P g 1 0 {} {} A B \<and> g_epoch g = 1"
proof -
  let ?a = "newAuthenticator P authKey 1"
  obtain dec where dec: "newPolyDecoder 96 = Inr dec" using newPolyDecoder_even [of 96] by auto
  let ?A = "chunkedKeysUnsampled \<lparr>ku_epoch = 1, ku_auth = ?a\<rparr>"
  let ?B = "chunkedNoHeaderReceived \<lparr>nh_epoch = 1, nh_auth = ?a\<rparr> dec"
  let ?g = "\<lparr>g_epoch = 1, g_auth = ?a, g_seed = [], g_rnd = []\<rparr>"
  have "initV1StateA P authKey = Inr ?A" "initV1StateB P authKey = Inr ?B"
    using assms dec by (simp_all add: initV1StateA_def initV1StateB_def newUnchunkedKeysUnsampled_def newUnchunkedNoHeaderReceived_def mlkem_sizes)
  moreover have "pair P ?g 1 0 {} {} ?A ?B"
    using x_at.x1 [of P ?g] y_at.y0 [OF dec, of P ?g] by (simp add: pair_def epoch_ok_def phases_ok_def)
  ultimately show ?thesis by force
qed

end
