(* ===== verification/SPQR_State.thy ===== *)
theory SPQR_State
  imports SPQR_Agreement Concrete
begin

text \<open>
  The state of the post-quantum ratchet (\<^verbatim>\<open>spqr/state.go\<close>): version negotiation, the key agreement and the
  chains, with the operations that a session calls.  A method with a pointer receiver takes an option,
  \<open>None\<close> being \<^verbatim>\<open>nil\<close>, and returns the receiver as it leaves it, also where it fails: the messages of the key
  agreement and the chain are modified in place.
\<close>

section \<open>Data\<close>

record versionNegotiation =
  vn_authKey :: bytes
  vn_direction :: Direction
  vn_minVersion :: Version
  vn_chainParams :: ChainParams

record PqState =
  ps_version :: Version
  ps_v1 :: "v1States option"
  ps_chain :: "Chain option"
  ps_negotiation :: "versionNegotiation option"

section \<open>Creation\<close>

definition initV1StateForDirection :: "'z prims_scheme \<Rightarrow> Direction \<Rightarrow> bytes \<Rightarrow> v1States res" where
  "initV1StateForDirection P dir authKey =
     (if dir = DirectionA2B then initV1StateA P authKey
      else if dir = DirectionB2A then initV1StateB P authKey
      else initV1StateA P authKey)"

definition NewStateWithMinVersion :: "'z prims_scheme \<Rightarrow> bytes \<Rightarrow> Direction \<Rightarrow> ChainParams \<Rightarrow> Version \<Rightarrow> PqState res" where
  "NewStateWithMinVersion P authKey dir params minVersion =
     (if length authKey = 0 then Inl (ErrText ''spqr: auth key required'')
      else if minVersion > VersionV1 then Inl ErrSpqrUnsupportedVersion
      else
        bindR (initV1StateForDirection P dir authKey) (\<lambda>v1.
        Inr \<lparr>ps_version = VersionV1, ps_v1 = Some v1, ps_chain = None,
             ps_negotiation = Some \<lparr>vn_authKey = authKey, vn_direction = dir, vn_minVersion = minVersion, vn_chainParams = params\<rparr>\<rparr>))"

definition NewPqState :: "'z prims_scheme \<Rightarrow> bytes \<Rightarrow> Direction \<Rightarrow> ChainParams \<Rightarrow> PqState res" where
  "NewPqState P authKey dir params = NewStateWithMinVersion P authKey dir params VersionDisabled"

definition disable :: "PqState \<Rightarrow> PqState" where
  "disable s = s\<lparr>ps_version := VersionDisabled, ps_v1 := None, ps_chain := None, ps_negotiation := None\<rparr>"

definition msgVersion :: "bytes \<Rightarrow> Version option" where
  "msgVersion message =
     (case message of
        [] \<Rightarrow> Some VersionDisabled
      | b # _ \<Rightarrow> if b = VersionDisabled \<or> b = VersionV1 then Some b else None)"

definition chainFromNegotiation :: "'z prims_scheme \<Rightarrow> versionNegotiation option \<Rightarrow> Chain res" where
  "chainFromNegotiation P vn =
     (case vn of
        None \<Rightarrow> Inl ErrSpqrChainNotAvailable
      | Some vn \<Rightarrow> NewChain P (vn_authKey vn) (vn_direction vn) (vn_chainParams vn))"

definition chainForSend :: "'z prims_scheme \<Rightarrow> PqState \<Rightarrow> Chain option res \<times> PqState" where
  "chainForSend P s =
     (case ps_chain s of
        Some c \<Rightarrow> (Inr (Some c), s)
      | None \<Rightarrow>
          (case ps_negotiation s of
             None \<Rightarrow> (Inl ErrSpqrChainNotAvailable, s)
           | Some vn \<Rightarrow>
               if vn_minVersion vn \<le> VersionDisabled then (Inr None, s)
               else
                 case chainFromNegotiation P (Some vn) of
                   Inl e \<Rightarrow> (Inl e, s)
                 | Inr c \<Rightarrow> (Inr (Some c), s\<lparr>ps_chain := Some c\<rparr>)))"

definition chainForRecv :: "'z prims_scheme \<Rightarrow> PqState \<Rightarrow> Chain res" where
  "chainForRecv P s =
     (case ps_chain s of
        Some c \<Rightarrow> Inr c
      | None \<Rightarrow>
          if ps_negotiation s = None then Inl ErrSpqrChainNotAvailable
          else chainFromNegotiation P (ps_negotiation s))"

section \<open>Sending\<close>

definition add_epoch :: "'z prims_scheme \<Rightarrow> epochSecret option \<Rightarrow> Chain \<Rightarrow> unit res \<times> Chain" where
  "add_epoch P key c = (case key of None \<Rightarrow> (Inr (), c) | Some k \<Rightarrow> AddEpoch P (ep_epoch k) (ep_secret k) c)"

definition send_key :: "'z prims_scheme \<Rightarrow> v1Send \<Rightarrow> Chain \<Rightarrow> (u32 \<times> bytes) res \<times> Chain" where
  "send_key P send c =
     bindS (add_epoch P (sn_key send) c) (\<lambda>_ c.
     if vm_epoch (sn_msg send) = 0 then (Inl ErrSpqrEpochOutOfRange, c)
     else SendKey P (vm_epoch (sn_msg send) - 1) c)"

definition send_v1 :: "'z pq_prims_scheme \<Rightarrow> bytes res \<Rightarrow> v1States \<Rightarrow> PqState \<Rightarrow> (bytes \<times> bytes) res \<times> PqState" where
  "send_v1 P rand v1 s =
     (let (r, v1) = v1_send P rand v1 in
      bindS (r, s\<lparr>ps_v1 := Some v1\<rparr>) (\<lambda>send s.
      bindS (chainForSend P s) (\<lambda>chain s.
      case chain of
        Some c \<Rightarrow>
          let (r, c) = send_key P send c in
          bindS (r, s\<lparr>ps_chain := Some c\<rparr>) (\<lambda>(idx, msgKey) s.
          (Inr (v1Message_serialize (sn_msg send) idx, msgKey), s\<lparr>ps_v1 := Some (sn_state send)\<rparr>))
      | None \<Rightarrow>
          if sn_key send \<noteq> None then (Inl ErrSpqrChainNotAvailable, s)
          else (Inr (v1Message_serialize (sn_msg send) 0, []), s\<lparr>ps_v1 := Some (sn_state send)\<rparr>))))"

definition Pq_Send :: "'z pq_prims_scheme \<Rightarrow> bytes res \<Rightarrow> PqState option \<Rightarrow> (bytes \<times> bytes) res \<times> PqState option" where
  "Pq_Send P rand s =
     (case s of
        None \<Rightarrow> (Inl ErrSpqrChainNotAvailable, None)
      | Some s \<Rightarrow>
          if ps_version s = VersionDisabled \<or> ps_v1 s = None then (Inr ([], []), Some s)
          else let (r, s) = send_v1 P rand (the (ps_v1 s)) s in (r, Some s))"

section \<open>Receiving\<close>

definition receiveLegacy :: "'z prims_scheme \<Rightarrow> bytes \<Rightarrow> PqState \<Rightarrow> bytes res \<times> PqState" where
  "receiveLegacy P message s =
     (case ps_chain s of
        None \<Rightarrow> (Inl ErrSpqrChainNotAvailable, s)
      | Some c \<Rightarrow>
          if length message = 0 then (Inr [], s)
          else
            case ParseMessage message of
              Inl e \<Rightarrow> (if e = ErrSpqrUnsupportedVersion then Inr [] else Inl e, s)
            | Inr msg \<Rightarrow>
                if pm_Version msg \<noteq> VersionV1 then (Inr [], s)
                else if pm_Epoch msg = 0 then (Inl ErrSpqrEpochOutOfRange, s)
                else if pm_Epoch msg - 1 = 0 \<and> pm_Index msg = 0 then (Inr [], s)
                else let (r, c) = RecvKey P (pm_Epoch msg - 1) (pm_Index msg) c in (r, s\<lparr>ps_chain := Some c\<rparr>))"

text \<open>A chain that was only built for this message is not the state's own until the end.\<close>

definition recv_key :: "'z prims_scheme \<Rightarrow> epochSecret option \<Rightarrow> u64 \<Rightarrow> u32 \<Rightarrow> Chain \<Rightarrow> bytes res \<times> Chain" where
  "recv_key P key epoch idx c =
     bindS (add_epoch P key c) (\<lambda>_ c.
     if epoch - 1 \<noteq> 0 \<or> idx \<noteq> 0 then RecvKey P (epoch - 1) idx c else (Inr [], c))"

definition receive_v1 :: "'z pq_prims_scheme \<Rightarrow> bytes \<Rightarrow> v1States \<Rightarrow> PqState \<Rightarrow> bytes res \<times> PqState" where
  "receive_v1 P message v1 s =
     bindS (deserializeV1Message message, s) (\<lambda>(msg, idx) s.
     let (r, v1) = v1_recv P msg v1 in
     bindS (r, s\<lparr>ps_v1 := Some v1\<rparr>) (\<lambda>(key, next) s.
     if vm_epoch msg = 0 then (Inl ErrSpqrEpochOutOfRange, s)
     else
       bindS (chainForRecv P s, s) (\<lambda>c s.
       let (r, c) = recv_key P key (vm_epoch msg) idx c in
       bindS (r, if ps_chain s = None then s else s\<lparr>ps_chain := Some c\<rparr>) (\<lambda>msgKey s.
       (Inr msgKey, s\<lparr>ps_v1 := Some next, ps_chain := Some c, ps_negotiation := None\<rparr>)))))"

definition receive_live :: "'z pq_prims_scheme \<Rightarrow> bytes \<Rightarrow> v1States \<Rightarrow> PqState \<Rightarrow> bytes res \<times> PqState" where
  "receive_live P message v1 s =
     (case msgVersion message of
        None \<Rightarrow> (Inr [], s)
      | Some version \<Rightarrow>
          if ps_version s = VersionDisabled then (Inr [], s)
          else if version < ps_version s then
            (case ps_negotiation s of
               None \<Rightarrow> (Inl ErrSpqrVersionMismatch, s)
             | Some vn \<Rightarrow>
                 if version < vn_minVersion vn then (Inl ErrSpqrMinimumVersion, s)
                 else if version = VersionDisabled then (Inr [], disable s)
                 else receive_v1 P message v1 s)
          else if version = VersionDisabled then (Inr [], s)
          else receive_v1 P message v1 s)"

definition Pq_Receive :: "'z pq_prims_scheme \<Rightarrow> bytes \<Rightarrow> PqState option \<Rightarrow> bytes res \<times> PqState option" where
  "Pq_Receive P message s =
     (case s of
        None \<Rightarrow> (Inl ErrSpqrChainNotAvailable, None)
      | Some s \<Rightarrow>
          let (r, s) = (case ps_v1 s of None \<Rightarrow> receiveLegacy P message s | Some v1 \<Rightarrow> receive_live P message v1 s) in
          (r, Some s))"

definition cloneNegotiation :: "versionNegotiation option \<Rightarrow> versionNegotiation option" where
  "cloneNegotiation vn =
     (case vn of
        None \<Rightarrow> None
      | Some vn \<Rightarrow> Some \<lparr>vn_authKey = vn_authKey vn, vn_direction = vn_direction vn, vn_minVersion = vn_minVersion vn,
          vn_chainParams = vn_chainParams vn\<rparr>)"

section \<open>One party\<close>

text \<open>
  A state that has followed the secrets of the epochs up to \<open>cur\<close>.  It has no chain before it has
  received anything, unless it demands the first version.
\<close>

definition party :: "'z prims_scheme \<Rightarrow> bytes \<Rightarrow> (nat \<Rightarrow> bytes) \<Rightarrow> Direction \<Rightarrow> ChainParams \<Rightarrow> nat \<Rightarrow>
    (nat \<Rightarrow> u32 set) \<Rightarrow> (nat \<Rightarrow> u32 set) \<Rightarrow> nat \<Rightarrow> v1States \<Rightarrow> PqState \<Rightarrow> bool" where
  "party P auth sec dir params N S R cur v s \<longleftrightarrow> ps_version s = VersionV1 \<and> ps_v1 s = Some v \<and>
     (case ps_chain s of
        Some c \<Rightarrow> chain_inv P auth sec dir params N S R c \<and> unat (ch_currentEpoch c) = cur \<and>
          unat (ch_sendEpoch c) < unat (v1_epoch v)
      | None \<Rightarrow> (\<exists>minv. ps_negotiation s = Some \<lparr>vn_authKey = auth, vn_direction = dir, vn_minVersion = minv, vn_chainParams = params\<rparr>) \<and>
          cur = 0 \<and> (\<forall>e. R e = {} \<and> S e = {}) \<and> 0 < v1_epoch v)"

lemma NewChain_ok: "\<exists>c. NewChain P auth dir params = Inr c"
  by (simp add: NewChain_def hkdfTo_bytes)

text \<open>The chain that sending and receiving work on.\<close>

lemma party_new_chain:
  assumes "party P auth sec dir params N S R cur v s" "ps_chain s = None"
  shows "\<exists>c. NewChain P auth dir params = Inr c \<and> chain_inv P auth sec dir params N S R c \<and> unat (ch_currentEpoch c) = cur \<and>
     unat (ch_sendEpoch c) < unat (v1_epoch v)"
proof -
  obtain c where c: "NewChain P auth dir params = Inr c" using NewChain_ok by blast
  have "R = (\<lambda>_. {})" "S = (\<lambda>_. {})" "cur = 0" "0 < v1_epoch v" using assms by (auto simp: party_def)
  then show ?thesis
    using c NewChain_inv [OF c, of sec] chain_inv_mono [of P auth sec dir params 0 S R c N] by (auto simp: word_less_nat_alt)
qed

lemma party_chainForRecv:
  assumes "party P auth sec dir params N S R cur v s"
  shows "\<exists>c. chainForRecv P s = Inr c \<and> chain_inv P auth sec dir params N S R c \<and> unat (ch_currentEpoch c) = cur \<and>
     unat (ch_sendEpoch c) < unat (v1_epoch v)"
proof (cases "ps_chain s")
  case None
  with party_new_chain [OF assms None] assms show ?thesis
    by (auto simp: chainForRecv_def chainFromNegotiation_def party_def)
next
  case (Some c)
  with assms show ?thesis by (auto simp: chainForRecv_def party_def)
qed

lemma party_chainForSend:
  assumes "party P auth sec dir params N S R cur v s"
  shows "(chainForSend P s = (Inr None, s) \<and> ps_chain s = None) \<or>
    (\<exists>c s'. chainForSend P s = (Inr (Some c), s') \<and> chain_inv P auth sec dir params N S R c \<and> unat (ch_currentEpoch c) = cur \<and>
       unat (ch_sendEpoch c) < unat (v1_epoch v) \<and> ps_version s' = VersionV1)"
proof (cases "ps_chain s")
  case None
  obtain minv where minv: "ps_negotiation s = Some \<lparr>vn_authKey = auth, vn_direction = dir, vn_minVersion = minv, vn_chainParams = params\<rparr>"
    "ps_version s = VersionV1" using assms None by (auto simp: party_def)
  with party_new_chain [OF assms None] None show ?thesis
    by (cases "minv \<le> VersionDisabled") (auto simp: chainForSend_def chainFromNegotiation_def)
next
  case (Some c)
  with assms show ?thesis by (auto simp: chainForSend_def party_def)
qed

text \<open>A secret that the key agreement gives is that of the next epoch.\<close>

definition next_secret :: "(nat \<Rightarrow> bytes) \<Rightarrow> nat \<Rightarrow> nat \<Rightarrow> epochSecret option \<Rightarrow> bool" where
  "next_secret sec cur cur' key \<longleftrightarrow>
     (case key of
        None \<Rightarrow> cur' = cur
      | Some k \<Rightarrow> cur' = Suc cur \<and> unat (ep_epoch k) = cur' \<and> ep_secret k = sec cur' \<and> cur' < 2 ^ 63)"

lemma add_epoch_inv:
  assumes "chain_inv P auth sec dir params N S R c" "next_secret sec (unat (ch_currentEpoch c)) cur' key"
  shows "\<exists>c'. add_epoch P key c = (Inr (), c') \<and> chain_inv P auth sec dir params N S R c' \<and>
     unat (ch_currentEpoch c') = cur' \<and> ch_sendEpoch c' = ch_sendEpoch c"
proof (cases key)
  case None
  with assms show ?thesis by (auto simp: add_epoch_def next_secret_def)
next
  case (Some k)
  with AddEpoch_inv [OF assms(1), of "ep_epoch k" "ep_secret k"] assms(2) show ?thesis
    by (auto simp: add_epoch_def next_secret_def)
qed

lemma word_pred: "0 < (e :: u64) \<Longrightarrow> unat (e - 1) = unat e - 1"
  by (rule unat_minus_one) auto

lemma send_key_inv:
  assumes "chain_inv P auth sec dir params N S R c" "next_secret sec (unat (ch_currentEpoch c)) cur' (sn_key send)"
    "unat (ch_sendEpoch c) < unat (vm_epoch (sn_msg send))" "unat (vm_epoch (sn_msg send)) \<le> Suc cur'" "Suc N < 2 ^ 32"
  defines "E \<equiv> unat (vm_epoch (sn_msg send)) - 1"
  shows "\<exists>n c'. send_key P send c = (Inr (n, dir_key P (send_seed P auth sec dir E) n), c') \<and>
     chain_inv P auth sec dir params (Suc N) (S(E := insert n (S E))) R c' \<and> 0 < n \<and> unat n \<le> Suc N \<and> (\<forall>i \<in> S E. i < n) \<and>
     unat (ch_currentEpoch c') = cur' \<and> unat (ch_sendEpoch c') < unat (vm_epoch (sn_msg send))"
proof -
  obtain c1 where c1: "add_epoch P (sn_key send) c = (Inr (), c1)" "chain_inv P auth sec dir params N S R c1"
    "unat (ch_currentEpoch c1) = cur'" "ch_sendEpoch c1 = ch_sendEpoch c"
    using add_epoch_inv [OF assms(1,2)] by blast
  let ?e = "vm_epoch (sn_msg send)"
  have pos: "0 < ?e" using assms(3) by (auto simp: word_less_nat_alt)
  have E: "unat (?e - 1) = E" using word_pred [OF pos] by (simp add: E_def)
  have "ch_sendEpoch c1 \<le> ?e - 1" "?e - 1 \<le> ch_currentEpoch c1"
    using assms(3,4) c1(3,4) E pos by (auto simp: word_le_nat_alt E_def)
  from SendKey_inv [OF c1(2) this assms(5)] obtain n c' where "SendKey P (?e - 1) c1 = (Inr (n, dir_key P (send_seed P auth sec dir E) n), c')"
    "chain_inv P auth sec dir params (Suc N) (S(E := insert n (S E))) R c'" "0 < n" "unat n \<le> Suc N" "\<forall>i \<in> S E. i < n"
    "ch_currentEpoch c' = ch_currentEpoch c1" "ch_sendEpoch c' = ?e - 1"
    unfolding E by blast
  with c1 pos E assms(3) show ?thesis
    by (auto simp: send_key_def E_def)
qed

lemma party_send:
  assumes "party P auth sec dir params N S R cur v s" "fst (v1_send P rand v) = Inr \<lparr>sn_msg = msg, sn_key = key, sn_state = v'\<rparr>"
    "vm_epoch msg = v1_epoch v" "v1_epoch v' = v1_epoch v" "next_secret sec cur cur' key" "unat (v1_epoch v) \<le> Suc cur'"
    "key \<noteq> None \<longrightarrow> ps_chain s \<noteq> None" "Suc N < 2 ^ 32"
  defines "E \<equiv> unat (v1_epoch v) - 1"
  shows "\<exists>n k s'. Pq_Send P rand (Some s) = (Inr (v1Message_serialize msg n, k), Some s') \<and>
     party P auth sec dir params (Suc N) (if n = 0 then S else S(E := insert n (S E))) R cur' v' s' \<and>
     (ps_chain s \<noteq> None \<longrightarrow> ps_chain s' \<noteq> None) \<and> unat n \<le> Suc N \<and> (\<forall>i \<in> S E. i < n) \<and> 0 < v1_epoch v \<and>
     (if n = 0 then k = [] \<and> v1_epoch v = 1 else k = dir_key P (send_seed P auth sec dir E) n)"
proof -
  obtain v1 where v1: "v1_send P rand v = (Inr \<lparr>sn_msg = msg, sn_key = key, sn_state = v'\<rparr>, v1)"
    using assms(2) by (cases "v1_send P rand v") auto
  let ?s = "s\<lparr>ps_v1 := Some v1\<rparr>"
  have s: "ps_version s \<noteq> VersionDisabled" "ps_v1 s = Some v" using assms(1) by (auto simp: party_def VersionV1_def VersionDisabled_def)
  have fs: "chainForSend P ?s = (fst (chainForSend P s), (snd (chainForSend P s))\<lparr>ps_v1 := Some v1\<rparr>)"
    by (simp add: chainForSend_def split: option.splits sum.splits)
  from party_chainForSend [OF assms(1)] show ?thesis
  proof (elim disjE exE conjE)
    assume c: "chainForSend P s = (Inr None, s)" "ps_chain s = None"
    have none: "key = None" "cur' = 0" "0 < v1_epoch v" using assms(1,5,7) c(2) by (auto simp: party_def next_secret_def)
    then have "v1_epoch v = 1" using assms(6) by (simp add: word_less_nat_alt word_unat_eq_iff)
    moreover have "Pq_Send P rand (Some s) = (Inr (v1Message_serialize msg 0, []), Some (s\<lparr>ps_v1 := Some v'\<rparr>))"
      using s by (simp add: Pq_Send_def send_v1_def v1 fs c(1) none(1))
    moreover have "party P auth sec dir params (Suc N) S R cur' v' (s\<lparr>ps_v1 := Some v'\<rparr>)"
      using assms(1,4) c(2) none by (auto simp: party_def)
    ultimately show ?thesis
      using assms(1) c(2) by (intro exI [of _ 0]) (auto simp: party_def)
  next
    fix c s' assume c: "chainForSend P s = (Inr (Some c), s')" "chain_inv P auth sec dir params N S R c"
      "unat (ch_currentEpoch c) = cur" "unat (ch_sendEpoch c) < unat (v1_epoch v)" "ps_version s' = VersionV1"
    obtain n c' where n: "send_key P \<lparr>sn_msg = msg, sn_key = key, sn_state = v'\<rparr> c = (Inr (n, dir_key P (send_seed P auth sec dir E) n), c')"
      "chain_inv P auth sec dir params (Suc N) (S(E := insert n (S E))) R c'" "0 < n" "unat n \<le> Suc N" "\<forall>i \<in> S E. i < n"
      "unat (ch_currentEpoch c') = cur'" "unat (ch_sendEpoch c') < unat (v1_epoch v)"
      using send_key_inv [OF c(2), of cur' "\<lparr>sn_msg = msg, sn_key = key, sn_state = v'\<rparr>"] assms(3,5,6,8) c(3,4)
      by (auto simp: E_def)
    have "Pq_Send P rand (Some s) = (Inr (v1Message_serialize msg n, dir_key P (send_seed P auth sec dir E) n),
        Some (s'\<lparr>ps_v1 := Some v', ps_chain := Some c'\<rparr>))"
      using s by (simp add: Pq_Send_def send_v1_def v1 fs c(1) n(1))
    moreover have "party P auth sec dir params (Suc N) (S(E := insert n (S E))) R cur' v' (s'\<lparr>ps_v1 := Some v', ps_chain := Some c'\<rparr>)"
      using c(5) n assms(4) by (simp add: party_def)
    moreover have "0 < v1_epoch v" using c(4) by (auto simp: word_less_nat_alt)
    ultimately show ?thesis
      using n(3-5) by (intro exI [of _ n]) auto
  qed
qed

lemma recv_key_inv:
  assumes "chain_inv P auth sec dir params N S R c" "next_secret sec (unat (ch_currentEpoch c)) cur' key"
    "0 < epoch" "unat idx + unat (maxOOO params) < 2 ^ 32"
  defines "E \<equiv> unat epoch - 1"
  shows "if epoch = 1 \<and> idx = 0
     then \<exists>c'. recv_key P key epoch idx c = (Inr [], c') \<and> chain_inv P auth sec dir params N S R c' \<and>
       unat (ch_currentEpoch c') = cur' \<and> ch_sendEpoch c' = ch_sendEpoch c
     else case chain_error params (chain_base c) cur' R E idx of
        Some e \<Rightarrow> fst (recv_key P key epoch idx c) = Inl e
      | None \<Rightarrow> \<exists>c'. recv_key P key epoch idx c = (Inr (dir_key P (recv_seed P auth sec dir E) idx), c') \<and>
          chain_inv P auth sec dir params N S (R(E := insert idx (R E))) c' \<and> unat (ch_currentEpoch c') = cur' \<and>
          ch_sendEpoch c' = ch_sendEpoch c"
proof -
  obtain c1 where c1: "add_epoch P key c = (Inr (), c1)" "chain_inv P auth sec dir params N S R c1"
    "unat (ch_currentEpoch c1) = cur'" "ch_sendEpoch c1 = ch_sendEpoch c"
    using add_epoch_inv [OF assms(1,2)] by blast
  show ?thesis
  proof (cases "epoch = 1 \<and> idx = 0")
    case True
    then show ?thesis using c1 by (simp add: recv_key_def)
  next
    case False
    have b: "chain_base c1 = chain_base c"
      using c1(1) chain_invD(2) [OF assms(1)] assms(2)
      by (auto simp: add_epoch_def AddEpoch_def chain_base_def next_secret_def split: option.splits if_splits sum.splits)
    have E: "unat (epoch - 1) = E" using word_pred [OF assms(3)] by (simp add: E_def)
    have rk: "recv_key P key epoch idx c = RecvKey P (epoch - 1) idx c1"
      using False c1(1) by (auto simp: recv_key_def)
    show ?thesis
      using RecvKey_window [OF c1(2) assms(4), of "epoch - 1"] False c1(3,4)
      unfolding E rk b by (auto split: option.splits)
  qed
qed

lemma party_recv:
  assumes "party P auth sec dir params N S R cur v s" "message_ok msg" "0 < vm_epoch msg"
    "fst (v1_recv P (msg\<lparr>vm_payload := (vm_payload msg)\<lparr>mp_ack := False\<rparr>\<rparr>) v) = Inr (key, v')" "v1_epoch v \<le> v1_epoch v'"
    "next_secret sec cur cur' key" "unat idx + unat (maxOOO params) < 2 ^ 32"
  defines "E \<equiv> unat (vm_epoch msg) - 1" and "res \<equiv> Pq_Receive P (v1Message_serialize msg idx) (Some s)"
  shows "if vm_epoch msg = 1 \<and> idx = 0
     then \<exists>s'. res = (Inr [], Some s') \<and> party P auth sec dir params N S R cur' v' s' \<and> ps_chain s' \<noteq> None
     else \<exists>lo. lo \<le> unat (v1_epoch v) - 2 \<and>
       (case chain_error params lo cur' R E idx of
          Some e \<Rightarrow> fst res = Inl e
        | None \<Rightarrow> \<exists>s'. res = (Inr (dir_key P (recv_seed P auth sec dir E) idx), Some s') \<and>
            party P auth sec dir params N S (R(E := insert idx (R E))) cur' v' s' \<and> ps_chain s' \<noteq> None)"
proof -
  let ?m = "msg\<lparr>vm_payload := (vm_payload msg)\<lparr>mp_ack := False\<rparr>\<rparr>"
  obtain v1 where v1: "v1_recv P ?m v = (Inr (key, v'), v1)" using assms(4) by (cases "v1_recv P ?m v") auto
  obtain c where c: "chainForRecv P s = Inr c" "chain_inv P auth sec dir params N S R c" "unat (ch_currentEpoch c) = cur"
    "unat (ch_sendEpoch c) < unat (v1_epoch v)" using party_chainForRecv [OF assms(1)] by blast
  have fr: "chainForRecv P (s\<lparr>ps_v1 := Some v1\<rparr>) = Inr c" using c(1) by (auto simp: chainForRecv_def split: option.splits if_splits)
  have s: "ps_version s = VersionV1" "ps_v1 s = Some v" using assms(1) by (auto simp: party_def)
  have ver: "msgVersion (v1Message_serialize msg idx) = Some VersionV1"
    by (simp add: msgVersion_def v1Message_serialize_def)
  have "\<not> VersionV1 < VersionV1" "VersionV1 \<noteq> VersionDisabled" by (simp_all add: VersionV1_def VersionDisabled_def)
  then have res: "res = (case recv_key P key (vm_epoch msg) idx c of
      (Inl e, c') \<Rightarrow> (Inl e, Some (if ps_chain s = None then s\<lparr>ps_v1 := Some v1\<rparr> else s\<lparr>ps_v1 := Some v1, ps_chain := Some c'\<rparr>))
    | (Inr k, c') \<Rightarrow> (Inr k, Some (s\<lparr>ps_v1 := Some v', ps_chain := Some c', ps_negotiation := None\<rparr>)))"
    using s v1 assms(3) v1Message_roundtrip [OF assms(2), of idx] fr
    by (auto simp: res_def Pq_Receive_def receive_live_def ver receive_v1_def split: prod.splits sum.splits)
  have send: "unat (ch_sendEpoch c) < unat (v1_epoch v')" using c(4) assms(5) by (simp add: word_le_nat_alt)
  note rk = recv_key_inv [OF c(2) _ assms(3,7), of cur', unfolded c(3), OF assms(6), folded E_def]
  show ?thesis
  proof (cases "vm_epoch msg = 1 \<and> idx = 0")
    case True
    with rk obtain c' where "recv_key P key (vm_epoch msg) idx c = (Inr [], c')" "chain_inv P auth sec dir params N S R c'"
      "unat (ch_currentEpoch c') = cur'" "ch_sendEpoch c' = ch_sendEpoch c" by auto
    with True send s show ?thesis by (simp add: res party_def)
  next
    case False
    have "chain_base c \<le> unat (v1_epoch v) - 2" using chain_invD(5) [OF c(2)] c(4) by linarith
    moreover have "case chain_error params (chain_base c) cur' R E idx of
          Some e \<Rightarrow> fst res = Inl e
        | None \<Rightarrow> \<exists>s'. res = (Inr (dir_key P (recv_seed P auth sec dir E) idx), Some s') \<and>
            party P auth sec dir params N S (R(E := insert idx (R E))) cur' v' s' \<and> ps_chain s' \<noteq> None"
    proof (cases "chain_error params (chain_base c) cur' R E idx")
      case None
      then obtain c' where c': "recv_key P key (vm_epoch msg) idx c = (Inr (dir_key P (recv_seed P auth sec dir E) idx), c')"
        "chain_inv P auth sec dir params N S (R(E := insert idx (R E))) c'" "unat (ch_currentEpoch c') = cur'"
        "ch_sendEpoch c' = ch_sendEpoch c" using False rk by auto
      then have "res = (Inr (dir_key P (recv_seed P auth sec dir E) idx), Some (s\<lparr>ps_v1 := Some v', ps_chain := Some c', ps_negotiation := None\<rparr>))"
        "party P auth sec dir params N S (R(E := insert idx (R E))) cur' v' (s\<lparr>ps_v1 := Some v', ps_chain := Some c', ps_negotiation := None\<rparr>)"
        using send s by (simp_all add: res party_def)
      with None show ?thesis by force
    next
      case (Some e)
      with False rk show ?thesis by (auto simp: res split: prod.splits sum.splits)
    qed
    ultimately show ?thesis using False by (simp only: if_False) blast
  qed
qed

section \<open>Two parties\<close>

text \<open>
  An exchange between a state for each direction, with the messages each party has sent and their
  keys.  Messages may be lost, reordered and repeated.  A session works on a copy of the state and drops it
  where the operation fails, so only operations that succeed are steps.
\<close>

type_synonym sent = "(bytes \<times> bytes) list"

inductive exchange :: "'z pq_prims_scheme \<Rightarrow> bytes \<Rightarrow> ChainParams \<Rightarrow> PqState \<Rightarrow> PqState \<Rightarrow> sent \<Rightarrow> sent \<Rightarrow> bool"
  for P auth params where
  start: "NewStateWithMinVersion P auth DirectionA2B params minA = Inr a \<Longrightarrow>
    NewStateWithMinVersion P auth DirectionB2A params minB = Inr b \<Longrightarrow> exchange P auth params a b [] []"
| sendA: "exchange P auth params a b sA sB \<Longrightarrow> Pq_Send P (Inr r) (Some a) = (Inr (m, k), Some a') \<Longrightarrow>
    exchange P auth params a' b ((m, k) # sA) sB"
| sendB: "exchange P auth params a b sA sB \<Longrightarrow> Pq_Send P (Inr r) (Some b) = (Inr (m, k), Some b') \<Longrightarrow>
    exchange P auth params a b' sA ((m, k) # sB)"
| recvA: "exchange P auth params a b sA sB \<Longrightarrow> (m, k) \<in> set sB \<Longrightarrow> Pq_Receive P m (Some a) = (Inr k', Some a') \<Longrightarrow>
    exchange P auth params a' b sA sB"
| recvB: "exchange P auth params a b sA sB \<Longrightarrow> (m, k) \<in> set sA \<Longrightarrow> Pq_Receive P m (Some b) = (Inr k', Some b') \<Longrightarrow>
    exchange P auth params a b' sA sB"

text \<open>The indices that have been sent in an epoch.\<close>

definition sent_in :: "sent \<Rightarrow> nat \<Rightarrow> u32 set" where
  "sent_in sent e = {n. 0 < n \<and> (\<exists>(m, k) \<in> set sent. \<exists>msg. deserializeV1Message m = Inr (msg, n) \<and> unat (vm_epoch msg) = Suc e)}"

definition entry_ok :: "'z prims_scheme \<Rightarrow> bytes \<Rightarrow> (nat \<Rightarrow> bytes) \<Rightarrow> Direction \<Rightarrow> nat \<Rightarrow> nat \<Rightarrow> v1Message set \<Rightarrow> bytes \<times> bytes \<Rightarrow> bool" where
  "entry_ok P auth sec dir hi N M entry \<longleftrightarrow> (\<exists>msg \<in> M. \<exists>n. fst entry = v1Message_serialize msg n \<and> message_ok msg \<and>
     0 < vm_epoch msg \<and> unat (vm_epoch msg) \<le> Suc hi \<and> unat n \<le> N \<and>
     (if n = 0 then snd entry = [] \<and> vm_epoch msg = 1
      else snd entry = dir_key P (send_seed P auth sec dir (unat (vm_epoch msg) - 1)) n))"

definition sent_ok :: "'z prims_scheme \<Rightarrow> bytes \<Rightarrow> (nat \<Rightarrow> bytes) \<Rightarrow> Direction \<Rightarrow> nat \<Rightarrow> nat \<Rightarrow> sent \<Rightarrow> v1Message set \<Rightarrow> bool" where
  "sent_ok P auth sec dir hi N sent M \<longleftrightarrow> (\<forall>entry \<in> set sent. entry_ok P auth sec dir hi N M entry)"

lemma send_seed_cong: "(\<And>n. 0 < n \<Longrightarrow> n \<le> e \<Longrightarrow> sec n = sec' n) \<Longrightarrow> send_seed P auth sec dir e = send_seed P auth sec' dir e"
  by (simp add: send_seed_def epoch_okm_cong [of e sec sec'])

lemma sent_ok_cong:
  "(\<And>n. n \<le> hi \<Longrightarrow> sec n = sec' n) \<Longrightarrow> sent_ok P auth sec dir hi N sent M \<Longrightarrow> sent_ok P auth sec' dir hi N sent M"
proof -
  assume sec: "\<And>n. n \<le> hi \<Longrightarrow> sec n = sec' n"
  have "send_seed P auth sec dir (unat (vm_epoch msg) - 1) = send_seed P auth sec' dir (unat (vm_epoch msg) - 1)"
    if "unat (vm_epoch msg) \<le> Suc hi" for msg
    by (rule send_seed_cong) (use sec that in auto)
  then show "sent_ok P auth sec dir hi N sent M \<Longrightarrow> sent_ok P auth sec' dir hi N sent M"
    unfolding sent_ok_def entry_ok_def by metis
qed

lemma sent_ok_mono:
  "sent_ok P auth sec dir hi N sent M \<Longrightarrow> hi \<le> hi' \<Longrightarrow> N \<le> N' \<Longrightarrow> M \<subseteq> M' \<Longrightarrow> sent_ok P auth sec dir hi' N' sent M'"
  unfolding sent_ok_def entry_ok_def by (meson Suc_le_mono le_trans subsetD)

lemma sent_in_Cons:
  assumes "message_ok msg" "0 < vm_epoch msg"
  shows "sent_in ((v1Message_serialize msg n, k) # sent) =
    (if n = 0 then sent_in sent else (sent_in sent)(unat (vm_epoch msg) - 1 := insert n (sent_in sent (unat (vm_epoch msg) - 1))))"
proof -
  have pos: "0 < unat (vm_epoch msg)" using assms(2) by (simp add: word_less_nat_alt)
  show ?thesis
    using pos by (auto simp: sent_in_def v1Message_roundtrip [OF assms(1)] fun_eq_iff word_gt_0)
qed

text \<open>The states of both parties, in the phases of an epoch: \<open>X\<close> sends the encapsulation key, \<open>Y\<close> the ciphertext.\<close>

definition linked_at :: "'z pq_prims_scheme \<Rightarrow> bytes \<Rightarrow> ChainParams \<Rightarrow> Direction \<Rightarrow> PqState \<Rightarrow> PqState \<Rightarrow> sent \<Rightarrow> sent \<Rightarrow>
    ghost \<Rightarrow> nat \<Rightarrow> nat \<Rightarrow> v1Message set \<Rightarrow> v1Message set \<Rightarrow> v1States \<Rightarrow> v1States \<Rightarrow> (nat \<Rightarrow> bytes) \<Rightarrow>
    (nat \<Rightarrow> u32 set) \<Rightarrow> (nat \<Rightarrow> u32 set) \<Rightarrow> bool" where
  "linked_at P auth params dX X Y sX sY g x y MX MY vx vy sec RX RY \<longleftrightarrow>
     pair P g x y MX MY vx vy \<and>
     party P auth sec dX params (length sX) (sent_in sX) RX (unat (g_epoch g) - 1) vx X \<and>
     party P auth sec (Direction_Switch dX) params (length sY) (sent_in sY) RY (unat (g_epoch g) - (if y \<le> 2 then 1 else 0)) vy Y \<and>
     (y \<noteq> 0 \<longrightarrow> ps_chain Y \<noteq> None) \<and> (3 \<le> y \<longrightarrow> sec (unat (g_epoch g)) = g_key P g) \<and>
     (\<forall>e. RX e \<subseteq> sent_in sY e \<and> RY e \<subseteq> sent_in sX e) \<and>
     sent_ok P auth sec dX (unat (g_epoch g) - 1) (length sX) sX MX \<and>
     sent_ok P auth sec (Direction_Switch dX) (unat (g_epoch g) - 1) (length sY) sY MY \<and>
     unat (g_epoch g) \<le> length sX + length sY + (if y \<le> 2 then 1 else 0)"

lemma party_cong:
  assumes "\<And>n. n \<le> cur \<Longrightarrow> sec n = sec' n" "party P auth sec dir params N S R cur v s"
  shows "party P auth sec' dir params N S R cur v s"
proof (cases "ps_chain s")
  case (Some c)
  then have "\<And>n. n \<le> unat (ch_currentEpoch c) \<Longrightarrow> sec n = sec' n" using assms by (simp add: party_def)
  from chain_inv_cong [of c sec sec' P, OF this] show ?thesis using assms(2) Some by (simp add: party_def)
qed (use assms(2) in \<open>simp add: party_def\<close>)

lemma pair_epochs:
  assumes "pair P g x y MX MY vx vy"
  shows "v1_epoch vy = g_epoch g" "unat (v1_epoch vx) = unat (g_epoch g) - (if x = 0 then 1 else 0)" "0 < unat (g_epoch g)"
    "x = 0 \<longrightarrow> 1 < unat (g_epoch g)" "0 < v1_epoch vx" "0 < v1_epoch vy"
proof -
  have p: "epoch_ok (g_epoch g)" "x_at P g x vx" "y_at P g y vy" "x = 0 \<longrightarrow> 1 < g_epoch g" using assms by (simp_all add: pair_def)
  show y: "v1_epoch vy = g_epoch g" by (rule y_epoch [OF p(3)])
  show x: "unat (v1_epoch vx) = unat (g_epoch g) - (if x = 0 then 1 else 0)"
    using x_epoch [OF p(2)] epoch_pred [OF p(1)] by simp
  show e: "0 < unat (g_epoch g)" using p(1) by (simp add: epoch_ok_def word_less_nat_alt)
  show 1: "x = 0 \<longrightarrow> 1 < unat (g_epoch g)" using p(4) by (simp add: word_less_nat_alt)
  show "0 < v1_epoch vx" "0 < v1_epoch vy" using x y e 1 by (simp_all add: word_less_nat_alt)
qed

lemma sent_ok_Cons:
  assumes "sent_ok P auth sec dir hi N sent M" "message_ok msg" "0 < vm_epoch msg" "unat (vm_epoch msg) \<le> Suc hi" "unat n \<le> Suc N"
    "if n = 0 then k = [] \<and> vm_epoch msg = 1 else k = dir_key P (send_seed P auth sec dir (unat (vm_epoch msg) - 1)) n"
  shows "sent_ok P auth sec dir hi (Suc N) ((v1Message_serialize msg n, k) # sent) (insert msg M)"
proof -
  have "sent_ok P auth sec dir hi (Suc N) sent (insert msg M)" by (rule sent_ok_mono [OF assms(1)]) auto
  moreover have "entry_ok P auth sec dir hi (Suc N) (insert msg M) (v1Message_serialize msg n, k)"
    using assms(2-) unfolding entry_ok_def by (intro bexI [of _ msg] exI [of _ n]) auto
  ultimately show ?thesis by (simp add: sent_ok_def)
qed

subsection \<open>Sending\<close>

text \<open>What is sent: a message whose index is above those sent before it in its epoch.\<close>

definition fresh :: "'z pq_prims_scheme \<Rightarrow> bytes \<Rightarrow> (nat \<Rightarrow> bytes) \<Rightarrow> Direction \<Rightarrow> v1States \<Rightarrow> sent \<Rightarrow> v1Message \<Rightarrow> u32 \<Rightarrow> bytes \<Rightarrow> bool" where
  "fresh P auth sec dir v sent msg n k \<longleftrightarrow> message_ok msg \<and> vm_epoch msg = v1_epoch v \<and> unat n \<le> Suc (length sent) \<and>
     (\<forall>i \<in> sent_in sent (unat (vm_epoch msg) - 1). i < n) \<and>
     (if n = 0 then k = [] \<and> vm_epoch msg = 1 else k = dir_key P (send_seed P auth sec dir (unat (vm_epoch msg) - 1)) n)"

lemma send_X_at:
  assumes "linked_at P auth params dX X Y sX sY g x y MX MY vx vy sec RX RY" "Suc (length sX) < 2 ^ 32"
  shows "\<exists>msg n k X' g' x' vx'. Pq_Send P (Inr r) (Some X) = (Inr (v1Message_serialize msg n, k), Some X') \<and>
     linked_at P auth params dX X' Y ((v1Message_serialize msg n, k) # sX) sY g' x' y (insert msg MX) MY vx' vy sec RX RY \<and>
     fresh P auth sec dX vx sX msg n k \<and> v1_epoch vx' = v1_epoch vx"
proof -
  note L = assms(1) [unfolded linked_at_def]
  note ep = pair_epochs [OF conjunct1 [OF L]]
  obtain msg vx' g' x' where v: "sends_ok (v1_send P (Inr r) vx) None vx msg vx'" "pair P g' x' y (insert msg MX) MY vx' vy"
    "g_epoch g' = g_epoch g" "y = 0 \<or> g' = g"
    using pair_send_X [of P g x y MX MY vx vy r] L by blast
  have v': "fst (v1_send P (Inr r) vx) = Inr \<lparr>sn_msg = msg, sn_key = None, sn_state = vx'\<rparr>" "vm_epoch msg = v1_epoch vx"
    "v1_epoch vx' = v1_epoch vx" "message_ok msg" using v(1) by (simp_all add: sends_ok_def)
  let ?E = "unat (v1_epoch vx) - 1"
  have "unat (v1_epoch vx) \<le> Suc (unat (g_epoch g) - 1)" using ep by auto
  then obtain n k X' where n: "Pq_Send P (Inr r) (Some X) = (Inr (v1Message_serialize msg n, k), Some X')"
    "party P auth sec dX params (Suc (length sX)) (if n = 0 then sent_in sX else (sent_in sX)(?E := insert n (sent_in sX ?E))) RX (unat (g_epoch g) - 1) vx' X'"
    "unat n \<le> Suc (length sX)" "\<forall>i \<in> sent_in sX ?E. i < n" "0 < v1_epoch vx"
    "if n = 0 then k = [] \<and> v1_epoch vx = 1 else k = dir_key P (send_seed P auth sec dX ?E) n"
    using party_send [OF _ v'(1-3), of auth sec dX params "length sX" "sent_in sX" RX "unat (g_epoch g) - 1" X "unat (g_epoch g) - 1"] L assms(2)
    by (auto simp: next_secret_def)
  have f: "fresh P auth sec dX vx sX msg n k" using n v' by (simp add: fresh_def)
  have "sent_in sX e \<subseteq> sent_in ((v1Message_serialize msg n, k) # sX) e" for e by (auto simp: sent_in_def)
  then have sub: "RX e \<subseteq> sent_in sY e \<and> RY e \<subseteq> sent_in ((v1Message_serialize msg n, k) # sX) e" for e using L by blast
  have "sent_ok P auth sec dX (unat (g_epoch g) - 1) (Suc (length sX)) ((v1Message_serialize msg n, k) # sX) (insert msg MX)"
    by (rule sent_ok_Cons) (use L n v' ep in auto)
  then have "linked_at P auth params dX X' Y ((v1Message_serialize msg n, k) # sX) sY g' x' y (insert msg MX) MY vx' vy sec RX RY"
    unfolding linked_at_def v(3) using L v(2,4) n(2) sub sent_in_Cons [OF v'(4), of n k sX] n(5) v'(2) by auto
  with n(1) f v'(3) show ?thesis by blast
qed

lemma send_Y_at:
  assumes "linked_at P auth params dX X Y sX sY g x y MX MY vx vy sec RX RY" "mlkem_ok P"
    "Suc (length sX + length sY) < 2 ^ 32"
  shows "\<exists>msg n k Y' g' y' vy' sec'. Pq_Send P (Inr r) (Some Y) = (Inr (v1Message_serialize msg n, k), Some Y') \<and>
     linked_at P auth params dX X Y' sX ((v1Message_serialize msg n, k) # sY) g' x y' MX (insert msg MY) vx vy' sec' RX RY \<and>
     fresh P auth sec' (Direction_Switch dX) vy sY msg n k \<and> v1_epoch vy' = v1_epoch vy \<and> g_epoch g' = g_epoch g"
proof -
  note L = assms(1) [unfolded linked_at_def]
  note ep = pair_epochs [OF conjunct1 [OF L]]
  let ?e = "unat (g_epoch g)"
  obtain msg vy' g' y' where v: "sends_ok (v1_send P (Inr r) vy) (if y = 2 then Some \<lparr>ep_epoch = g_epoch g, ep_secret = g_key P g'\<rparr> else None) vy msg vy'"
    "pair P g' x y' MX (insert msg MY) vx vy'" "g_epoch g' = g_epoch g" "y \<noteq> 2 \<longrightarrow> g' = g \<and> y' = y" "y = 2 \<longrightarrow> y' = 3"
    using pair_send_Y [OF conjunct1 [OF L] assms(2), of r] by blast
  let ?key = "if y = 2 then Some \<lparr>ep_epoch = g_epoch g, ep_secret = g_key P g'\<rparr> else None"
  have v': "fst (v1_send P (Inr r) vy) = Inr \<lparr>sn_msg = msg, sn_key = ?key, sn_state = vy'\<rparr>" "vm_epoch msg = v1_epoch vy"
    "v1_epoch vy' = v1_epoch vy" "message_ok msg" using v(1) by (simp_all add: sends_ok_def)
  define sec' where "sec' = (if y = 2 then sec(?e := g_key P g') else sec)"
  have sec: "sec n = sec' n" if "n \<le> ?e - 1" for n using that ep(3) by (auto simp: sec'_def)
  have sec3: "sec' n = sec n" if "3 \<le> y" for n using that by (simp add: sec'_def)
  let ?cur = "?e - (if y \<le> 2 then 1 else 0)" and ?cur' = "?e - (if y' \<le> 2 then 1 else 0)"
  have X: "party P auth sec' dX params (length sX) (sent_in sX) RX (?e - 1) vx X"
    by (rule party_cong [of _ sec]) (use sec L in auto)
  have Y: "party P auth sec' (Direction_Switch dX) params (length sY) (sent_in sY) RY ?cur vy Y"
    by (rule party_cong [of _ sec]) (use sec sec3 L in \<open>auto split: if_splits\<close>)
  have nxt: "next_secret sec' ?cur ?cur' ?key"
    using v(4,5) ep(3) L assms(3) by (auto simp: next_secret_def sec'_def)
  let ?E = "unat (v1_epoch vy) - 1"
  have le: "unat (v1_epoch vy) \<le> Suc ?cur'" using ep by auto
  have ch: "?key \<noteq> None \<longrightarrow> ps_chain Y \<noteq> None" using L by auto
  have len: "Suc (length sY) < 2 ^ 32" using assms(3) by simp
  obtain n k Y' where n: "Pq_Send P (Inr r) (Some Y) = (Inr (v1Message_serialize msg n, k), Some Y')"
    "party P auth sec' (Direction_Switch dX) params (Suc (length sY)) (if n = 0 then sent_in sY else (sent_in sY)(?E := insert n (sent_in sY ?E))) RY ?cur' vy' Y'"
    "ps_chain Y \<noteq> None \<longrightarrow> ps_chain Y' \<noteq> None" "unat n \<le> Suc (length sY)" "\<forall>i \<in> sent_in sY ?E. i < n" "0 < v1_epoch vy"
    "if n = 0 then k = [] \<and> v1_epoch vy = 1 else k = dir_key P (send_seed P auth sec' (Direction_Switch dX) ?E) n"
    using party_send [OF Y v'(1-3) nxt le ch len] by blast
  have f: "fresh P auth sec' (Direction_Switch dX) vy sY msg n k" using n v' by (simp add: fresh_def)
  have eq: "(if n = 0 then sent_in sY else (sent_in sY)(?E := insert n (sent_in sY ?E))) = sent_in ((v1Message_serialize msg n, k) # sY)"
    using sent_in_Cons [OF v'(4), of n k sY] n(6) v'(2) by simp
  have "sent_in sY e \<subseteq> sent_in ((v1Message_serialize msg n, k) # sY) e" for e by (auto simp: sent_in_def)
  then have sub: "RX e \<subseteq> sent_in ((v1Message_serialize msg n, k) # sY) e \<and> RY e \<subseteq> sent_in sX e" for e using L by blast
  have sX: "sent_ok P auth sec' dX (?e - 1) (length sX) sX MX" and sY: "sent_ok P auth sec' (Direction_Switch dX) (?e - 1) (length sY) sY MY"
    by (rule sent_ok_cong [of _ sec]; use sec L in auto)+
  have "sent_ok P auth sec' (Direction_Switch dX) (?e - 1) (Suc (length sY)) ((v1Message_serialize msg n, k) # sY) (insert msg MY)"
    by (rule sent_ok_Cons [OF sY]) (use n v' ep in auto)
  moreover have "y' \<noteq> 0 \<longrightarrow> ps_chain Y' \<noteq> None" "3 \<le> y' \<longrightarrow> sec' ?e = g_key P g'"
    using L n(3) v(4,5) by (auto simp: sec'_def)
  moreover have "?e \<le> length sX + Suc (length sY) + (if y' \<le> 2 then 1 else 0)" using L v(4,5) by auto
  ultimately have "linked_at P auth params dX X Y' sX ((v1Message_serialize msg n, k) # sY) g' x y' MX (insert msg MY) vx vy' sec' RX RY"
    unfolding linked_at_def v(3) using v(2) X sX n(2) sub by (simp add: eq)
  with n(1) f v'(3) v(3) show ?thesis by blast
qed

subsection \<open>Receiving\<close>

lemma msg_ack [simp]:
  "x_msg P g x (msg\<lparr>vm_payload := (vm_payload msg)\<lparr>mp_ack := a\<rparr>\<rparr>) = x_msg P g x msg"
  "y_msg P g y (msg\<lparr>vm_payload := (vm_payload msg)\<lparr>mp_ack := a\<rparr>\<rparr>) = y_msg P g y msg"
  by (simp_all add: x_msg_def y_msg_def msg_is_def)

text \<open>The message that has been sent with index \<open>n\<close>, and its key.\<close>

definition sent_as :: "'z prims_scheme \<Rightarrow> bytes \<Rightarrow> (nat \<Rightarrow> bytes) \<Rightarrow> Direction \<Rightarrow> sent \<Rightarrow> v1Message \<Rightarrow> u32 \<Rightarrow> bytes \<Rightarrow> bool" where
  "sent_as P auth sec dir sent msg n k \<longleftrightarrow> message_ok msg \<and> 0 < vm_epoch msg \<and> (v1Message_serialize msg n, k) \<in> set sent \<and>
     (if n = 0 then k = [] \<and> vm_epoch msg = 1 else k = dir_key P (send_seed P auth sec dir (unat (vm_epoch msg) - 1)) n)"

lemma sent_as_in: "sent_as P auth sec dir sent msg n k \<Longrightarrow> n \<noteq> 0 \<Longrightarrow> n \<in> sent_in sent (unat (vm_epoch msg) - 1)"
proof -
  assume a: "sent_as P auth sec dir sent msg n k" "n \<noteq> 0"
  then have "(v1Message_serialize msg n, k) \<in> set sent" "unat (vm_epoch msg) = Suc (unat (vm_epoch msg) - 1)"
    by (auto simp: sent_as_def word_less_nat_alt)
  with a v1Message_roundtrip [of msg n] show ?thesis by (force simp: sent_in_def sent_as_def word_gt_0)
qed

text \<open>What receiving a message comes to: its key, or an error of the window.\<close>

definition received :: "ChainParams \<Rightarrow> nat \<Rightarrow> nat \<Rightarrow> (nat \<Rightarrow> u32 set) \<Rightarrow> v1Message \<Rightarrow> u32 \<Rightarrow> bytes \<Rightarrow> bytes res \<times> PqState option \<Rightarrow>
    (PqState \<Rightarrow> (nat \<Rightarrow> u32 set) \<Rightarrow> bool) \<Rightarrow> bool" where
  "received params hi e R msg n k res ok \<longleftrightarrow>
     (if n = 0 then \<exists>s'. res = (Inr k, Some s') \<and> ok s' R
      else \<exists>lo \<le> e - 2. let E = unat (vm_epoch msg) - 1 in
        case chain_error params lo hi R E n of
          Some err \<Rightarrow> fst res = Inl err
        | None \<Rightarrow> \<exists>s'. res = (Inr k, Some s') \<and> ok s' (R(E := insert n (R E))))"

lemma received_mono:
  assumes "received params hi e R msg n k res ok" "sent_as P auth sec dir sent msg n k" "\<And>e. R e \<subseteq> sent_in sent e"
    "\<And>s' R'. ok s' R' \<Longrightarrow> (\<And>e. R' e \<subseteq> sent_in sent e) \<Longrightarrow> ok' s' R'"
  shows "received params hi e R msg n k res ok'"
proof -
  have "(R(unat (vm_epoch msg) - 1 := insert n (R (unat (vm_epoch msg) - 1)))) e \<subseteq> sent_in sent e" if "n \<noteq> 0" for e
    using sent_as_in [OF assms(2) that] assms(3) by auto
  then show ?thesis
    using assms(1,3,4) unfolding received_def Let_def by (cases "n = 0") (fastforce split: option.splits)+
qed

lemma party_received:
  assumes "party P auth sec (Direction_Switch dir) params N S R cur v s" "sent_as P auth sec dir sent msg n k"
    "fst (v1_recv P (msg\<lparr>vm_payload := (vm_payload msg)\<lparr>mp_ack := False\<rparr>\<rparr>) v) = Inr (key, v')" "v1_epoch v \<le> v1_epoch v'"
    "next_secret sec cur cur' key" "unat n + unat (maxOOO params) < 2 ^ 32" "dir \<in> {DirectionA2B, DirectionB2A}"
  shows "received params cur' (unat (v1_epoch v)) R msg n k (Pq_Receive P (v1Message_serialize msg n) (Some s))
     (\<lambda>s' R'. party P auth sec (Direction_Switch dir) params N S R' cur' v' s' \<and> ps_chain s' \<noteq> None)"
proof -
  have m: "message_ok msg" "0 < vm_epoch msg" "n = 0 \<longrightarrow> vm_epoch msg = 1"
    "k = (if n = 0 then [] else dir_key P (send_seed P auth sec dir (unat (vm_epoch msg) - 1)) n)"
    using assms(2) by (auto simp: sent_as_def split: if_splits)
  note r = party_recv [OF assms(1) m(1,2) assms(3-6)]
  show ?thesis
  proof (cases "n = 0")
    case True
    then show ?thesis using r m(3,4) by (simp add: received_def)
  next
    case False
    then have k: "dir_key P (recv_seed P auth sec (Direction_Switch dir) (unat (vm_epoch msg) - 1)) n = k"
      using m(4) seeds_switch [OF assms(7), of P auth sec] by simp
    show ?thesis using r [unfolded k] False unfolding received_def Let_def by simp
  qed
qed

lemma recv_Y_at:
  assumes "linked_at P auth params dX X Y sX sY g x y MX MY vx vy sec RX RY" "mlkem_ok P" "sent_as P auth sec dX sX msg n k" "msg \<in> MX"
    "unat n + unat (maxOOO params) < 2 ^ 32" "dX \<in> {DirectionA2B, DirectionB2A}"
  shows "received params (unat (g_epoch g) - (if y \<le> 2 then 1 else 0)) (unat (g_epoch g)) RY msg n k
     (Pq_Receive P (v1Message_serialize msg n) (Some Y))
     (\<lambda>Y' RY'. \<exists>y' vy'. linked_at P auth params dX X Y' sX sY g x y' MX MY vx vy' sec RX RY')"
proof -
  note L = assms(1) [unfolded linked_at_def]
  note ep = pair_epochs [OF conjunct1 [OF L]]
  let ?cur = "unat (g_epoch g) - (if y \<le> 2 then 1 else 0)"
  let ?m = "msg\<lparr>vm_payload := (vm_payload msg)\<lparr>mp_ack := False\<rparr>\<rparr>"
  have m: "x_msg P g x ?m" using L assms(4) by (simp add: pair_def)
  obtain y' vy' where v: "fst (v1_recv P ?m vy) = Inr (None, vy')" "pair P g x y' MX MY vx vy'" "y' \<le> 2 \<longleftrightarrow> y \<le> 2"
    using pair_recv_Y [OF conjunct1 [OF L] assms(2) m] by blast
  have e: "v1_epoch vy \<le> v1_epoch vy'" using ep(1) pair_epochs(1) [OF v(2)] by simp
  have nxt: "next_secret sec ?cur ?cur None" by (simp add: next_secret_def)
  have Y: "party P auth sec (Direction_Switch dX) params (length sY) (sent_in sY) RY ?cur vy Y" using L by blast
  have RY: "RY e \<subseteq> sent_in sX e" for e using L by blast
  show ?thesis
  proof (rule received_mono [OF party_received [OF Y assms(3) v(1) e nxt assms(5,6), unfolded ep(1)] assms(3) RY])
    fix Y' RY' assume "party P auth sec (Direction_Switch dX) params (length sY) (sent_in sY) RY' ?cur vy' Y' \<and> ps_chain Y' \<noteq> None"
      "\<And>e. RY' e \<subseteq> sent_in sX e"
    then show "\<exists>y' vy'. linked_at P auth params dX X Y' sX sY g x y' MX MY vx vy' sec RX RY'"
      using L v(2,3) unfolding linked_at_def by (intro exI [of _ y'] exI [of _ vy']) auto
  qed
qed

lemma Switch_Switch: "d \<in> {DirectionA2B, DirectionB2A} \<Longrightarrow> Direction_Switch (Direction_Switch d) = d \<and> Direction_Switch d \<in> {DirectionA2B, DirectionB2A}"
  by (auto simp: Direction_Switch_def DirectionA2B_def DirectionB2A_def)

lemma recv_X_at:
  assumes "linked_at P auth params dX X Y sX sY g x y MX MY vx vy sec RX RY" "mlkem_ok P"
    "sent_as P auth sec (Direction_Switch dX) sY msg n k" "msg \<in> MY"
    "unat n + unat (maxOOO params) < 2 ^ 32" "dX \<in> {DirectionA2B, DirectionB2A}" "length sX + length sY < 2 ^ 32"
  shows "\<exists>hi \<ge> unat (g_epoch g) - 1. received params hi (unat (v1_epoch vx)) RX msg n k (Pq_Receive P (v1Message_serialize msg n) (Some X))
     (\<lambda>X' RX'. (\<exists>x' vx'. linked_at P auth params dX X' Y sX sY g x' y MX MY vx' vy sec RX' RY) \<or>
       (\<exists>vx'. linked_at P auth params (Direction_Switch dX) Y X' sY sX (next_ghost P g) 0 0 MY MX vy vx' sec RY RX'))"
proof -
  note L = assms(1) [unfolded linked_at_def]
  note ep = pair_epochs [OF conjunct1 [OF L]]
  let ?e = "unat (g_epoch g)"
  let ?m = "msg\<lparr>vm_payload := (vm_payload msg)\<lparr>mp_ack := False\<rparr>\<rparr>"
  have m: "y_msg P g y ?m" using L assms(4) by (simp add: pair_def)
  have e63: "?e + 1 < 2 ^ 63" using L assms(7) by (auto split: if_splits)
  have X: "party P auth sec (Direction_Switch (Direction_Switch dX)) params (length sX) (sent_in sX) RX (?e - 1) vx X"
    using L Switch_Switch [OF assms(6)] by simp
  have RX: "RX e \<subseteq> sent_in sY e" for e using L by blast
  note rec = received_mono [OF party_received [OF X assms(3) _ _ _ assms(5) conjunct2 [OF Switch_Switch [OF assms(6)]]] assms(3) RX]
  from pair_recv_X [OF conjunct1 [OF L] assms(2) m e63] show ?thesis
  proof (elim disjE exE conjE)
    fix x' vx' assume v: "fst (v1_recv P ?m vx) = Inr (None, vx')" "pair P g x' y MX MY vx' vy" "x \<le> x'"
    have "v1_epoch vx \<le> v1_epoch vx'" using ep(2) pair_epochs(2) [OF v(2)] v(3) by (simp add: word_le_nat_alt)
    moreover have "next_secret sec (?e - 1) (?e - 1) None" by (simp add: next_secret_def)
    ultimately show ?thesis
      using L v(2) Switch_Switch [OF assms(6)] unfolding linked_at_def
      by (intro exI [of _ "?e - 1"] conjI rec [OF v(1)] disjI1 exI [of _ x'] exI [of _ vx']) auto
  next
    fix vx' assume v: "3 \<le> y" "fst (v1_recv P ?m vx) = Inr (Some \<lparr>ep_epoch = g_epoch g, ep_secret = g_key P g\<rparr>, vx')"
      "pair P (next_ghost P g) 0 0 MY MX vy vx'"
    have g: "unat (g_epoch (next_ghost P g)) = Suc ?e"
      using epoch_ok_Suc [of "g_epoch g"] e63 L by (auto simp: next_ghost_def pair_def)
    have "v1_epoch vx \<le> v1_epoch vx'" using ep(2) pair_epochs(1) [OF v(3)] g by (simp add: word_le_nat_alt)
    moreover have "next_secret sec (?e - 1) ?e (Some \<lparr>ep_epoch = g_epoch g, ep_secret = g_key P g\<rparr>)"
      using L v(1) ep(3) e63 by (simp add: next_secret_def)
    moreover have "sent_ok P auth sec (Direction_Switch dX) ?e (length sY) sY MY" "sent_ok P auth sec dX ?e (length sX) sX MX"
      using L by (auto intro: sent_ok_mono)
    ultimately show ?thesis
      using L v(1,3) Switch_Switch [OF assms(6)] unfolding linked_at_def g
      by (intro exI [of _ ?e] conjI rec [OF v(2)] disjI2 exI [of _ vx']) auto
  qed
qed

subsection \<open>The exchange\<close>

definition linked :: "'z pq_prims_scheme \<Rightarrow> bytes \<Rightarrow> ChainParams \<Rightarrow> Direction \<Rightarrow> PqState \<Rightarrow> PqState \<Rightarrow> sent \<Rightarrow> sent \<Rightarrow> bool" where
  "linked P auth params dX X Y sX sY \<longleftrightarrow>
     (\<exists>g x y MX MY vx vy sec RX RY. linked_at P auth params dX X Y sX sY g x y MX MY vx vy sec RX RY)"

definition window_errors :: "err set" where
  "window_errors = {ErrSpqrEpochOutOfRange, ErrSpqrKeyTrimmed, ErrSpqrKeyAlreadyRequested, ErrSpqrKeyJump}"

lemma chain_error_errors: "chain_error params lo hi R E n = Some e \<Longrightarrow> e \<in> window_errors"
  by (auto simp: chain_error_def window_error_def window_errors_def Let_def split: if_splits)

lemma received_result:
  "received params hi e R msg n k res ok \<Longrightarrow> (\<exists>s' R'. res = (Inr k, Some s') \<and> ok s' R') \<or> (\<exists>err \<in> window_errors. fst res = Inl err)"
  unfolding received_def Let_def using chain_error_errors by (fastforce split: if_splits option.splits)

text \<open>A message is received that is above those received before it, and not too far above.\<close>

lemma received_fresh:
  assumes "received params hi e R msg n k res ok" "\<And>i. i \<in> R (unat (vm_epoch msg) - 1) \<Longrightarrow> i < n" "unat n \<le> unat (maxJump params)"
    "e - 2 \<le> unat (vm_epoch msg) - 1" "unat (vm_epoch msg) - 1 \<le> hi"
  shows "\<exists>s'. res = (Inr k, Some s')"
proof (cases "n = 0")
  case False
  let ?E = "unat (vm_epoch msg) - 1"
  define c where "c = Max (insert 0 (R ?E))"
  have "c < n" unfolding c_def using False assms(2) by (subst Max_less_iff) (auto simp: word_gt_0)
  moreover have "n \<notin> R ?E" using assms(2) by blast
  ultimately have "window_error params (R ?E) n = None"
    using False assms(3) unfolding window_error_def Let_def c_def [symmetric] by auto
  then have "chain_error params lo hi R ?E n = None" if "lo \<le> e - 2" for lo
    using that assms(4,5) by (simp add: chain_error_def)
  with assms(1) False show ?thesis unfolding received_def Let_def by auto
qed (use assms(1) in \<open>auto simp: received_def\<close>)

lemma fresh_sent_as:
  "fresh P auth sec dir v sent msg n k \<Longrightarrow> 0 < v1_epoch v \<Longrightarrow> sent_as P auth sec dir ((v1Message_serialize msg n, k) # sent) msg n k"
  by (auto simp: fresh_def sent_as_def split: if_splits)

lemma linked_send_X:
  assumes "linked P auth params dX X Y sX sY" "mlkem_ok P" "Suc (length sX + length sY) + unat (maxOOO params) < 2 ^ 32"
    "dX \<in> {DirectionA2B, DirectionB2A}"
  shows "\<exists>m k X'. Pq_Send P (Inr r) (Some X) = (Inr (m, k), Some X') \<and> linked P auth params dX X' Y ((m, k) # sX) sY \<and>
     (Suc (length sX) \<le> unat (maxJump params) \<longrightarrow> (\<exists>Y'. Pq_Receive P m (Some Y) = (Inr k, Some Y')))"
proof -
  obtain g x y MX MY vx vy sec RX RY where L: "linked_at P auth params dX X Y sX sY g x y MX MY vx vy sec RX RY"
    using assms(1) unfolding linked_def by blast
  note ep = pair_epochs [OF conjunct1 [OF L [unfolded linked_at_def]]]
  have "Suc (length sX) < 2 ^ 32" using assms(3) by simp
  from send_X_at [OF L this] obtain msg n k X' g' x' vx' where
    s: "Pq_Send P (Inr r) (Some X) = (Inr (v1Message_serialize msg n, k), Some X')"
      "linked_at P auth params dX X' Y ((v1Message_serialize msg n, k) # sX) sY g' x' y (insert msg MX) MY vx' vy sec RX RY"
      "fresh P auth sec dX vx sX msg n k" "v1_epoch vx' = v1_epoch vx" by blast
  have n: "unat n \<le> Suc (length sX)" "vm_epoch msg = v1_epoch vx" "\<And>i. i \<in> RY (unat (vm_epoch msg) - 1) \<Longrightarrow> i < n"
    using s(3) L unfolding fresh_def linked_at_def by blast+
  have ep': "unat (v1_epoch vx) - 1 \<le> unat (g_epoch g') - 1" "unat (g_epoch g') - 2 \<le> unat (v1_epoch vx) - 1"
    using pair_epochs [OF conjunct1 [OF s(2) [unfolded linked_at_def]]] s(4) by auto
  have lim: "unat n + unat (maxOOO params) < 2 ^ 32" using n(1) assms(3) by simp
  note r = recv_Y_at [OF s(2) assms(2) fresh_sent_as [OF s(3) ep(5)] insertI1 lim assms(4)]
  have "\<exists>Y'. Pq_Receive P (v1Message_serialize msg n) (Some Y) = (Inr k, Some Y')" if "Suc (length sX) \<le> unat (maxJump params)"
    by (rule received_fresh [OF r n(3)]) (use that n(1,2) ep' in auto)
  with s show ?thesis unfolding linked_def by blast
qed

lemma linked_send_Y:
  assumes "linked P auth params dX X Y sX sY" "mlkem_ok P" "Suc (length sX + length sY) + unat (maxOOO params) < 2 ^ 32"
    "dX \<in> {DirectionA2B, DirectionB2A}"
  shows "\<exists>m k Y'. Pq_Send P (Inr r) (Some Y) = (Inr (m, k), Some Y') \<and> linked P auth params dX X Y' sX ((m, k) # sY) \<and>
     (Suc (length sY) \<le> unat (maxJump params) \<longrightarrow> (\<exists>X'. Pq_Receive P m (Some X) = (Inr k, Some X')))"
proof -
  obtain g x y MX MY vx vy sec RX RY where L: "linked_at P auth params dX X Y sX sY g x y MX MY vx vy sec RX RY"
    using assms(1) unfolding linked_def by blast
  note ep = pair_epochs [OF conjunct1 [OF L [unfolded linked_at_def]]]
  have "Suc (length sX + length sY) < 2 ^ 32" using assms(3) by simp
  from send_Y_at [OF L assms(2) this] obtain msg n k Y' g' y' vy' sec' where
    s: "Pq_Send P (Inr r) (Some Y) = (Inr (v1Message_serialize msg n, k), Some Y')"
      "linked_at P auth params dX X Y' sX ((v1Message_serialize msg n, k) # sY) g' x y' MX (insert msg MY) vx vy' sec' RX RY"
      "fresh P auth sec' (Direction_Switch dX) vy sY msg n k" "v1_epoch vy' = v1_epoch vy" "g_epoch g' = g_epoch g" by blast
  have n: "unat n \<le> Suc (length sY)" "vm_epoch msg = v1_epoch vy" "\<And>i. i \<in> RX (unat (vm_epoch msg) - 1) \<Longrightarrow> i < n"
    using s(3) L unfolding fresh_def linked_at_def by blast+
  have lim: "unat n + unat (maxOOO params) < 2 ^ 32" "length sX + length ((v1Message_serialize msg n, k) # sY) < 2 ^ 32"
    using n(1) assms(3) by simp_all
  obtain hi ok where r: "unat (g_epoch g) - 1 \<le> hi"
    "received params hi (unat (v1_epoch vx)) RX msg n k (Pq_Receive P (v1Message_serialize msg n) (Some X)) ok"
    using recv_X_at [OF s(2) assms(2) fresh_sent_as [OF s(3) ep(6)] insertI1 lim(1) assms(4) lim(2)] s(5) by auto
  have "\<exists>X'. Pq_Receive P (v1Message_serialize msg n) (Some X) = (Inr k, Some X')" if "Suc (length sY) \<le> unat (maxJump params)"
    by (rule received_fresh [OF r(2) n(3)]) (use that n(1,2) ep r(1) in \<open>auto split: if_splits\<close>)
  with s show ?thesis unfolding linked_def by blast
qed

lemma sent_entry:
  assumes "sent_ok P auth sec dir hi (length sent) sent M" "(m, k) \<in> set sent"
  obtains msg n where "m = v1Message_serialize msg n" "sent_as P auth sec dir sent msg n k" "msg \<in> M" "unat n \<le> length sent"
  using assms unfolding sent_ok_def entry_ok_def sent_as_def by fastforce

lemma linked_recv_Y:
  assumes "linked P auth params dX X Y sX sY" "mlkem_ok P" "length sX + length sY + unat (maxOOO params) < 2 ^ 32"
    "dX \<in> {DirectionA2B, DirectionB2A}" "(m, k) \<in> set sX"
  shows "(\<exists>Y'. Pq_Receive P m (Some Y) = (Inr k, Some Y') \<and> linked P auth params dX X Y' sX sY) \<or>
     (\<exists>err \<in> window_errors. fst (Pq_Receive P m (Some Y)) = Inl err)"
proof -
  obtain g x y MX MY vx vy sec RX RY where L: "linked_at P auth params dX X Y sX sY g x y MX MY vx vy sec RX RY"
    using assms(1) unfolding linked_def by blast
  have "sent_ok P auth sec dX (unat (g_epoch g) - 1) (length sX) sX MX" using L unfolding linked_at_def by blast
  then obtain msg n where m: "m = v1Message_serialize msg n" "sent_as P auth sec dX sX msg n k" "msg \<in> MX" "unat n \<le> length sX"
    using assms(5) by (rule sent_entry)
  have "unat n + unat (maxOOO params) < 2 ^ 32" using m(4) assms(3) by simp
  from received_result [OF recv_Y_at [OF L assms(2) m(2,3) this assms(4)]] show ?thesis
    unfolding linked_def m(1) by blast
qed

lemma linked_recv_X:
  assumes "linked P auth params dX X Y sX sY" "mlkem_ok P" "length sX + length sY + unat (maxOOO params) < 2 ^ 32"
    "dX \<in> {DirectionA2B, DirectionB2A}" "(m, k) \<in> set sY"
  shows "(\<exists>X'. Pq_Receive P m (Some X) = (Inr k, Some X') \<and>
       (linked P auth params dX X' Y sX sY \<or> linked P auth params (Direction_Switch dX) Y X' sY sX)) \<or>
     (\<exists>err \<in> window_errors. fst (Pq_Receive P m (Some X)) = Inl err)"
proof -
  obtain g x y MX MY vx vy sec RX RY where L: "linked_at P auth params dX X Y sX sY g x y MX MY vx vy sec RX RY"
    using assms(1) unfolding linked_def by blast
  have "sent_ok P auth sec (Direction_Switch dX) (unat (g_epoch g) - 1) (length sY) sY MY" using L unfolding linked_at_def by blast
  then obtain msg n where m: "m = v1Message_serialize msg n" "sent_as P auth sec (Direction_Switch dX) sY msg n k" "msg \<in> MY" "unat n \<le> length sY"
    using assms(5) by (rule sent_entry)
  have lim: "unat n + unat (maxOOO params) < 2 ^ 32" "length sX + length sY < 2 ^ 32" using m(4) assms(3) by simp_all
  obtain hi where r: "received params hi (unat (v1_epoch vx)) RX msg n k (Pq_Receive P (v1Message_serialize msg n) (Some X))
     (\<lambda>X' RX'. (\<exists>x' vx'. linked_at P auth params dX X' Y sX sY g x' y MX MY vx' vy sec RX' RY) \<or>
       (\<exists>vx'. linked_at P auth params (Direction_Switch dX) Y X' sY sX (next_ghost P g) 0 0 MY MX vy vx' sec RY RX'))"
    using recv_X_at [OF L assms(2) m(2,3) lim(1) assms(4) lim(2)] by blast
  have "linked P auth params dX X' Y sX sY \<or> linked P auth params (Direction_Switch dX) Y X' sY sX"
    if "(\<exists>x' vx'. linked_at P auth params dX X' Y sX sY g x' y MX MY vx' vy sec RX' RY) \<or>
       (\<exists>vx'. linked_at P auth params (Direction_Switch dX) Y X' sY sX (next_ghost P g) 0 0 MY MX vy vx' sec RY RX')" for X' RX'
    using that unfolding linked_def by (elim disjE exE) (rule disjI1, blast, rule disjI2, blast)
  with received_result [OF r] show ?thesis
    unfolding m(1) by blast
qed

definition agreed :: "'z pq_prims_scheme \<Rightarrow> bytes \<Rightarrow> ChainParams \<Rightarrow> PqState \<Rightarrow> PqState \<Rightarrow> sent \<Rightarrow> sent \<Rightarrow> bool" where
  "agreed P auth params a b sA sB \<longleftrightarrow> linked P auth params DirectionA2B a b sA sB \<or> linked P auth params DirectionB2A b a sB sA"

lemma switches: "Direction_Switch DirectionA2B = DirectionB2A" "Direction_Switch DirectionB2A = DirectionA2B"
  by (simp_all add: Direction_Switch_def DirectionA2B_def DirectionB2A_def)

text \<open>What each party can do in such a state.\<close>

lemma agreed_send:
  assumes "agreed P auth params a b sA sB" "mlkem_ok P" "Suc (length sA + length sB) + unat (maxOOO params) < 2 ^ 32"
  shows "\<exists>m k a'. Pq_Send P (Inr r) (Some a) = (Inr (m, k), Some a') \<and> agreed P auth params a' b ((m, k) # sA) sB \<and>
       (Suc (length sA) \<le> unat (maxJump params) \<longrightarrow> (\<exists>b'. Pq_Receive P m (Some b) = (Inr k, Some b')))"
    and "\<exists>m k b'. Pq_Send P (Inr r) (Some b) = (Inr (m, k), Some b') \<and> agreed P auth params a b' sA ((m, k) # sB) \<and>
       (Suc (length sB) \<le> unat (maxJump params) \<longrightarrow> (\<exists>a'. Pq_Receive P m (Some a) = (Inr k, Some a')))"
proof -
  have len: "Suc (length sB + length sA) + unat (maxOOO params) < 2 ^ 32" using assms(3) by simp
  from assms(1) consider (A) "linked P auth params DirectionA2B a b sA sB" | (B) "linked P auth params DirectionB2A b a sB sA"
    by (auto simp: agreed_def)
  then show "\<exists>m k a'. Pq_Send P (Inr r) (Some a) = (Inr (m, k), Some a') \<and> agreed P auth params a' b ((m, k) # sA) sB \<and>
       (Suc (length sA) \<le> unat (maxJump params) \<longrightarrow> (\<exists>b'. Pq_Receive P m (Some b) = (Inr k, Some b')))"
    and "\<exists>m k b'. Pq_Send P (Inr r) (Some b) = (Inr (m, k), Some b') \<and> agreed P auth params a b' sA ((m, k) # sB) \<and>
       (Suc (length sB) \<le> unat (maxJump params) \<longrightarrow> (\<exists>a'. Pq_Receive P m (Some a) = (Inr k, Some a')))"
    unfolding agreed_def
    by (cases; use linked_send_X [of P auth params DirectionA2B a b sA sB r] linked_send_Y [of P auth params DirectionB2A b a sB sA r]
          linked_send_Y [of P auth params DirectionA2B a b sA sB r] linked_send_X [of P auth params DirectionB2A b a sB sA r] assms(2,3) len in blast)+
qed

lemma agreed_recv:
  assumes "agreed P auth params a b sA sB" "mlkem_ok P" "length sA + length sB + unat (maxOOO params) < 2 ^ 32"
  shows "(m, k) \<in> set sB \<Longrightarrow> (\<exists>a'. Pq_Receive P m (Some a) = (Inr k, Some a') \<and> agreed P auth params a' b sA sB) \<or>
       (\<exists>err \<in> window_errors. fst (Pq_Receive P m (Some a)) = Inl err)"
    and "(m, k) \<in> set sA \<Longrightarrow> (\<exists>b'. Pq_Receive P m (Some b) = (Inr k, Some b') \<and> agreed P auth params a b' sA sB) \<or>
       (\<exists>err \<in> window_errors. fst (Pq_Receive P m (Some b)) = Inl err)"
proof -
  have len: "length sB + length sA + unat (maxOOO params) < 2 ^ 32" using assms(3) by simp
  from assms(1) consider (A) "linked P auth params DirectionA2B a b sA sB" | (B) "linked P auth params DirectionB2A b a sB sA"
    by (auto simp: agreed_def)
  then show "(m, k) \<in> set sB \<Longrightarrow> (\<exists>a'. Pq_Receive P m (Some a) = (Inr k, Some a') \<and> agreed P auth params a' b sA sB) \<or>
       (\<exists>err \<in> window_errors. fst (Pq_Receive P m (Some a)) = Inl err)"
    and "(m, k) \<in> set sA \<Longrightarrow> (\<exists>b'. Pq_Receive P m (Some b) = (Inr k, Some b') \<and> agreed P auth params a b' sA sB) \<or>
       (\<exists>err \<in> window_errors. fst (Pq_Receive P m (Some b)) = Inl err)"
    unfolding agreed_def
    by (cases; use linked_recv_X [of P auth params DirectionA2B a b sA sB m k] linked_recv_Y [of P auth params DirectionB2A b a sB sA m k]
          linked_recv_Y [of P auth params DirectionA2B a b sA sB m k] linked_recv_X [of P auth params DirectionB2A b a sB sA m k]
          assms(2,3) len in \<open>simp only: switches insert_iff simp_thms; blast\<close>)+
qed

lemma agreed_start:
  assumes "NewStateWithMinVersion P auth DirectionA2B params minA = Inr a" "NewStateWithMinVersion P auth DirectionB2A params minB = Inr b"
  shows "agreed P auth params a b [] []"
proof -
  have auth: "auth \<noteq> []" using assms(1) by (auto simp: NewStateWithMinVersion_def split: if_splits)
  obtain A B g where v: "initV1StateA P auth = Inr A" "initV1StateB P auth = Inr B" "pair P g 1 0 {} {} A B" "g_epoch g = 1"
    using pair_init [OF auth] by blast
  have ab: "ps_version a = VersionV1" "ps_v1 a = Some A" "ps_chain a = None" "ps_version b = VersionV1" "ps_v1 b = Some B" "ps_chain b = None"
    "\<exists>minv. ps_negotiation a = Some \<lparr>vn_authKey = auth, vn_direction = DirectionA2B, vn_minVersion = minv, vn_chainParams = params\<rparr>"
    "\<exists>minv. ps_negotiation b = Some \<lparr>vn_authKey = auth, vn_direction = DirectionB2A, vn_minVersion = minv, vn_chainParams = params\<rparr>"
    using assms v by (auto simp: NewStateWithMinVersion_def initV1StateForDirection_def DirectionA2B_def DirectionB2A_def split: if_splits)
  have "linked_at P auth params DirectionA2B a b [] [] g 1 0 {} {} A B (\<lambda>_. []) (\<lambda>_. {}) (\<lambda>_. {})"
    using v(3,4) ab pair_epochs(5,6) [OF v(3)] unfolding linked_at_def switches
    by (simp add: party_def sent_in_def sent_ok_def)
  then show ?thesis unfolding agreed_def linked_def by blast
qed

lemma exchange_agreed:
  assumes "exchange P auth params a b sA sB" "mlkem_ok P" "length sA + length sB + unat (maxOOO params) < 2 ^ 32"
  shows "agreed P auth params a b sA sB"
  using assms
proof (induction rule: exchange.induct)
  case (start minA a minB b)
  then show ?case by (simp add: agreed_start)
next
  case (sendA a b sA sB r m k a')
  then show ?case using agreed_send(1) [of P auth params a b sA sB r] by auto
next
  case (sendB a b sA sB r m k b')
  then show ?case using agreed_send(2) [of P auth params a b sA sB r] by auto
next
  case (recvA a b sA sB m k k' a')
  then show ?case using agreed_recv(1) [of P auth params a b sA sB m k] by auto
next
  case (recvB a b sA sB m k k' b')
  then show ?case using agreed_recv(2) [of P auth params a b sA sB m k] by auto
qed

text \<open>
  C34: two parties that start from the same authentication key and exchange messages in any order, with
  loss and repetition, agree on the keys of all messages: what a party receives for a message of
  the other is the key that was returned when it was sent, or an error that the message is
  outside of the window.  Sending never fails, and the newest message can be received as long as no
  more messages were sent than a jump may skip.  The bounds keep counters within 32 bits.
\<close>

theorem spqr_agreement:
  assumes "exchange P auth params a b sA sB" "mlkem_ok P" "Suc (length sA + length sB) + unat (maxOOO params) < 2 ^ 32"
  shows "(\<forall>(m, k) \<in> set sB. case fst (Pq_Receive P m (Some a)) of Inr k' \<Rightarrow> k' = k | Inl e \<Rightarrow> e \<in> window_errors) \<and>
     (\<forall>(m, k) \<in> set sA. case fst (Pq_Receive P m (Some b)) of Inr k' \<Rightarrow> k' = k | Inl e \<Rightarrow> e \<in> window_errors) \<and>
     (\<exists>m k a'. Pq_Send P (Inr r) (Some a) = (Inr (m, k), Some a') \<and>
       (Suc (length sA) \<le> unat (maxJump params) \<longrightarrow> (\<exists>b'. Pq_Receive P m (Some b) = (Inr k, Some b')))) \<and>
     (\<exists>m k b'. Pq_Send P (Inr r) (Some b) = (Inr (m, k), Some b') \<and>
       (Suc (length sB) \<le> unat (maxJump params) \<longrightarrow> (\<exists>a'. Pq_Receive P m (Some a) = (Inr k, Some a'))))"
proof (intro conjI)
  have ag: "agreed P auth params a b sA sB" by (rule exchange_agreed [OF assms(1,2)]) (use assms(3) in simp)
  have len: "length sA + length sB + unat (maxOOO params) < 2 ^ 32" using assms(3) by simp
  show "\<forall>(m, k) \<in> set sB. case fst (Pq_Receive P m (Some a)) of Inr k' \<Rightarrow> k' = k | Inl e \<Rightarrow> e \<in> window_errors"
    using agreed_recv(1) [OF ag assms(2) len] by (fastforce split: sum.splits)
  show "\<forall>(m, k) \<in> set sA. case fst (Pq_Receive P m (Some b)) of Inr k' \<Rightarrow> k' = k | Inl e \<Rightarrow> e \<in> window_errors"
    using agreed_recv(2) [OF ag assms(2) len] by (fastforce split: sum.splits)
qed (use agreed_send [OF exchange_agreed [OF assms(1,2)] assms(2,3), of r] assms(3) in auto)

text \<open>A concrete key encapsulation.\<close>

definition pq_toy :: pq_prims where
  "pq_toy = prims.extend toy (pq_prims.fields
     (\<lambda>seed. (arr 1184 seed, arr 1184 seed)) (\<lambda>sk. True)
     (\<lambda>sk ct. take 32 (rev (take 32 ct @ replicate 32 (csum (take 1184 sk)))))
     (\<lambda>pk. True) (\<lambda>pk m r. m @ r) (\<lambda>d. replicate 32 (csum d)) rev)"

lemma pq_toy_simps [simp]:
  "mlkem_keygen pq_toy seed = (arr 1184 seed, arr 1184 seed)" "mlkem_sk_ok pq_toy sk" "kyber768_pk_ok pq_toy pk"
  "mlkem_decaps pq_toy sk ct = take 32 (rev (take 32 ct @ replicate 32 (csum (take 1184 sk))))"
  "kyber768_encrypt pq_toy pk m r = m @ r" "sha3_256 pq_toy d = replicate 32 (csum d)" "sha3_512 pq_toy = rev"
  by (simp_all add: pq_toy_def prims.defs pq_prims.defs toy_def)

lemma pq_toy_ok: "mlkem_ok pq_toy"
proof -
  have "take 1184 (arr 2400 (arr 1184 seed)) = arr 1184 seed" for seed
    by (simp add: arr_def)
  moreover have "take 32 (arr 1088 (m @ r)) = m" if "length m = 32" for m r :: bytes
    using that by (simp add: arr_def)
  ultimately show ?thesis
    by (simp add: mlkem_ok_def Sum256_def Sum512_def EncryptTo_def mlkem_pk_def mlkem_sk_def Let_def)
qed

text \<open>An exchange in which the first party has sent a message.\<close>

lemma exchange_one:
  "\<exists>a b m k. exchange pq_toy [1] \<lparr>cp_MaxJump = 0, cp_MaxOOO = 0\<rparr> a b [(m, k)] []"
proof -
  let ?p = "\<lparr>cp_MaxJump = 0, cp_MaxOOO = 0\<rparr>"
  obtain A B where "initV1StateA pq_toy [1] = Inr A" "initV1StateB pq_toy [1] = Inr B" using pair_init [of "[1]" pq_toy] by auto
  then have "\<exists>a. NewStateWithMinVersion pq_toy [1] DirectionA2B ?p VersionV1 = Inr a" "\<exists>b. NewStateWithMinVersion pq_toy [1] DirectionB2A ?p VersionV1 = Inr b"
    by (simp_all add: NewStateWithMinVersion_def initV1StateForDirection_def DirectionA2B_def DirectionB2A_def)
  then obtain a b where ab: "NewStateWithMinVersion pq_toy [1] DirectionA2B ?p VersionV1 = Inr a"
    "NewStateWithMinVersion pq_toy [1] DirectionB2A ?p VersionV1 = Inr b" by blast
  have len: "Suc (length ([] :: sent) + length ([] :: sent)) + unat (maxOOO ?p) < 2 ^ 32"
    by (simp add: maxOOO_def chainDefaultMaxOOO_def)
  show ?thesis
    using agreed_send(1) [OF agreed_start [OF ab] pq_toy_ok len, of "[]"] exchange.sendA [OF exchange.start [OF ab]] by blast
qed

theorem spqr_agreement_witness:
  "\<exists>a b m k m' k'. exchange pq_toy [1] \<lparr>cp_MaxJump = 0, cp_MaxOOO = 0\<rparr> a b [(m, k)] [] \<and>
     (case fst (Pq_Receive pq_toy m (Some b)) of Inr k' \<Rightarrow> k' = k | Inl e \<Rightarrow> e \<in> window_errors) \<and>
     (\<exists>a'. Pq_Send pq_toy (Inr []) (Some a) = (Inr (m', k'), Some a')) \<and> (\<exists>b'. Pq_Receive pq_toy m' (Some b) = (Inr k', Some b'))"
proof -
  let ?p = "\<lparr>cp_MaxJump = 0, cp_MaxOOO = 0\<rparr>"
  obtain a b m k where x: "exchange pq_toy [1] ?p a b [(m, k)] []" using exchange_one by blast
  have lim: "Suc (length [(m, k)] + length ([] :: sent)) + unat (maxOOO ?p) < 2 ^ 32" "Suc (length [(m, k)]) \<le> unat (maxJump ?p)"
    by (simp_all add: maxOOO_def chainDefaultMaxOOO_def maxJump_def chainDefaultMaxJump_def)
  note t = spqr_agreement [OF x pq_toy_ok lim(1), of "[]"]
  have "case fst (Pq_Receive pq_toy m (Some b)) of Inr k' \<Rightarrow> k' = k | Inl e \<Rightarrow> e \<in> window_errors" using t by simp
  moreover obtain m' k' a' b' where "Pq_Send pq_toy (Inr []) (Some a) = (Inr (m', k'), Some a')" "Pq_Receive pq_toy m' (Some b) = (Inr k', Some b')"
    using t lim(2) by blast
  ultimately show ?thesis using x by blast
qed

end
