(* ===== verification/SPQR_State_Format.thy ===== *)
theory SPQR_State_Format
  imports SPQR_State SPQR_Format
begin

text \<open>
  The stored form of the state of the post-quantum ratchet (\<^verbatim>\<open>spqr/v1_state_serialize.go\<close> and the functions
  \<^verbatim>\<open>Serialize\<close>, \<^verbatim>\<open>DeserializeState\<close> and \<^verbatim>\<open>Clone\<close> of \<^verbatim>\<open>spqr/state.go\<close>).  The errors for a \<^verbatim>\<open>nil\<close> component cannot
  arise: the states of the model have all their components.
\<close>

section \<open>Parts (v1\_state\_serialize.go)\<close>

definition at_end :: "'a \<Rightarrow> bytes \<Rightarrow> 'a res" where
  "at_end x bs = (if bs \<noteq> [] then Inl ErrSpqrStateDecode else Inr x)"

definition appendAuthenticator :: "authenticator \<Rightarrow> bytes" where
  "appendAuthenticator a = appendBytes (au_rootKey a) @ appendBytes (au_macKey a)"

definition readAuthenticator :: "bytes \<Rightarrow> (authenticator \<times> bytes) res" where
  "readAuthenticator bs =
     bindR (readBytes bs) (\<lambda>(rootKey, bs). bindR (readBytes bs) (\<lambda>(macKey, bs).
     if length rootKey \<noteq> 32 \<or> length macKey \<noteq> 32 then Inl ErrSpqrStateDecode
     else Inr (\<lparr>au_rootKey = rootKey, au_macKey = macKey\<rparr>, bs)))"

definition appendEncapsulationState :: "mlkemEncapsulationState \<Rightarrow> bytes" where
  "appendEncapsulationState s = appendBytes (es_seed s) @ appendBytes (es_rho s) @ appendBytes (es_pkHash s)"

definition readEncapsulationState :: "bytes \<Rightarrow> (mlkemEncapsulationState \<times> bytes) res" where
  "readEncapsulationState bs =
     bindR (readBytes bs) (\<lambda>(seed, bs). bindR (readBytes bs) (\<lambda>(rho, bs). bindR (readBytes bs) (\<lambda>(pkHash, bs).
     if length seed \<noteq> 32 \<or> length rho \<noteq> 32 \<or> length pkHash \<noteq> 32 then Inl ErrSpqrStateDecode
     else Inr (\<lparr>es_seed = seed, es_rho = rho, es_pkHash = pkHash\<rparr>, bs))))"

definition decodePolyEncoderWithSize :: "bytes \<Rightarrow> nat \<Rightarrow> polyEncoder res" where
  "decodePolyEncoderWithSize data sz =
     bindR (decodePolyEncoder data) (\<lambda>enc. if length (pe_msg enc) \<noteq> sz then Inl ErrSpqrStateDecode else Inr enc)"

definition decodePolyDecoderWithSize :: "bytes \<Rightarrow> nat \<Rightarrow> polyDecoder res" where
  "decodePolyDecoderWithSize data sz =
     bindR (decodePolyDecoder data) (\<lambda>dec. if pd_ptsNeeded dec * 2 \<noteq> sz then Inl ErrSpqrStateDecode else Inr dec)"

text \<open>The epoch and the authenticator, with which every part begins.\<close>

definition read_epoch_auth :: "bytes \<Rightarrow> (u64 \<times> authenticator \<times> bytes) res" where
  "read_epoch_auth data =
     (if length data < 8 then Inl ErrSpqrStateDecode
      else bindR (readAuthenticator (drop 8 data)) (\<lambda>(auth, bs). Inr (get_u64 data, auth, bs)))"

section \<open>The agreement without chunks\<close>

definition serializeUnchunkedKeysUnsampled :: "unchunkedKeysUnsampled \<Rightarrow> bytes" where
  "serializeUnchunkedKeysUnsampled s = put_u64 (ku_epoch s) @ appendAuthenticator (ku_auth s)"

definition deserializeUnchunkedKeysUnsampled :: "bytes \<Rightarrow> unchunkedKeysUnsampled res" where
  "deserializeUnchunkedKeysUnsampled data =
     bindR (read_epoch_auth data) (\<lambda>(epoch, auth, bs).
     at_end \<lparr>ku_epoch = epoch, ku_auth = auth\<rparr> bs)"

definition serializeUnchunkedHeaderSent :: "unchunkedHeaderSent \<Rightarrow> bytes" where
  "serializeUnchunkedHeaderSent s = put_u64 (hs_epoch s) @ appendAuthenticator (hs_auth s) @ appendBytes (hs_ek s) @ appendBytes (hs_dk s)"

definition deserializeUnchunkedHeaderSent :: "bytes \<Rightarrow> unchunkedHeaderSent res" where
  "deserializeUnchunkedHeaderSent data =
     bindR (read_epoch_auth data) (\<lambda>(epoch, auth, bs).
     bindR (readBytes bs) (\<lambda>(ek, bs).
     bindR (readBytes bs) (\<lambda>(dk, bs).
     if length ek \<noteq> mlkemEncapsulationKeySize \<or> length dk \<noteq> mlkemDecapsulationKeySize then Inl ErrSpqrStateDecode
     else at_end \<lparr>hs_epoch = epoch, hs_auth = auth, hs_ek = ek, hs_dk = dk\<rparr> bs)))"

definition serializeUnchunkedEkSent :: "unchunkedEkSent \<Rightarrow> bytes" where
  "serializeUnchunkedEkSent s = put_u64 (ks_epoch s) @ appendAuthenticator (ks_auth s) @ appendBytes (ks_dk s)"

definition deserializeUnchunkedEkSent :: "bytes \<Rightarrow> unchunkedEkSent res" where
  "deserializeUnchunkedEkSent data =
     bindR (read_epoch_auth data) (\<lambda>(epoch, auth, bs).
     bindR (readBytes bs) (\<lambda>(dk, bs).
     if length dk \<noteq> mlkemDecapsulationKeySize then Inl ErrSpqrStateDecode
     else at_end \<lparr>ks_epoch = epoch, ks_auth = auth, ks_dk = dk\<rparr> bs))"

definition serializeUnchunkedEkSentCt1Received :: "unchunkedEkSentCt1Received \<Rightarrow> bytes" where
  "serializeUnchunkedEkSentCt1Received s = put_u64 (kc_epoch s) @ appendAuthenticator (kc_auth s) @ appendBytes (kc_dk s) @ appendBytes (kc_ct1 s)"

definition deserializeUnchunkedEkSentCt1Received :: "bytes \<Rightarrow> unchunkedEkSentCt1Received res" where
  "deserializeUnchunkedEkSentCt1Received data =
     bindR (read_epoch_auth data) (\<lambda>(epoch, auth, bs).
     bindR (readBytes bs) (\<lambda>(dk, bs).
     bindR (readBytes bs) (\<lambda>(ct1, bs).
     if length dk \<noteq> mlkemDecapsulationKeySize \<or> length ct1 \<noteq> mlkemCiphertext1Size then Inl ErrSpqrStateDecode
     else at_end \<lparr>kc_epoch = epoch, kc_auth = auth, kc_dk = dk, kc_ct1 = ct1\<rparr> bs)))"

definition serializeUnchunkedNoHeaderReceived :: "unchunkedNoHeaderReceived \<Rightarrow> bytes" where
  "serializeUnchunkedNoHeaderReceived s = put_u64 (nh_epoch s) @ appendAuthenticator (nh_auth s)"

definition deserializeUnchunkedNoHeaderReceived :: "bytes \<Rightarrow> unchunkedNoHeaderReceived res" where
  "deserializeUnchunkedNoHeaderReceived data =
     bindR (read_epoch_auth data) (\<lambda>(epoch, auth, bs).
     at_end \<lparr>nh_epoch = epoch, nh_auth = auth\<rparr> bs)"

definition serializeUnchunkedHeaderReceived :: "unchunkedHeaderReceived \<Rightarrow> bytes" where
  "serializeUnchunkedHeaderReceived s = put_u64 (hr_epoch s) @ appendAuthenticator (hr_auth s) @ appendBytes (hr_hdr s)"

definition deserializeUnchunkedHeaderReceived :: "bytes \<Rightarrow> unchunkedHeaderReceived res" where
  "deserializeUnchunkedHeaderReceived data =
     bindR (read_epoch_auth data) (\<lambda>(epoch, auth, bs).
     bindR (readBytes bs) (\<lambda>(hdr, bs).
     if length hdr \<noteq> mlkemHeaderSize then Inl ErrSpqrStateDecode
     else at_end \<lparr>hr_epoch = epoch, hr_auth = auth, hr_hdr = hdr\<rparr> bs))"

definition serializeUnchunkedCt1Sent :: "unchunkedCt1Sent \<Rightarrow> bytes" where
  "serializeUnchunkedCt1Sent s = put_u64 (cs_epoch s) @ appendAuthenticator (cs_auth s) @ appendBytes (cs_hdr s) @ appendEncapsulationState (cs_encaps s) @ appendBytes (cs_ct1 s)"

definition deserializeUnchunkedCt1Sent :: "bytes \<Rightarrow> unchunkedCt1Sent res" where
  "deserializeUnchunkedCt1Sent data =
     bindR (read_epoch_auth data) (\<lambda>(epoch, auth, bs).
     bindR (readBytes bs) (\<lambda>(hdr, bs).
     bindR (readEncapsulationState bs) (\<lambda>(encaps, bs).
     bindR (readBytes bs) (\<lambda>(ct1, bs).
     if length hdr \<noteq> mlkemHeaderSize \<or> length ct1 \<noteq> mlkemCiphertext1Size then Inl ErrSpqrStateDecode
     else at_end \<lparr>cs_epoch = epoch, cs_auth = auth, cs_hdr = hdr, cs_encaps = encaps, cs_ct1 = ct1\<rparr> bs))))"

definition serializeUnchunkedCt1SentEkReceived :: "unchunkedCt1SentEkReceived \<Rightarrow> bytes" where
  "serializeUnchunkedCt1SentEkReceived s = put_u64 (ck_epoch s) @ appendAuthenticator (ck_auth s) @ appendEncapsulationState (ck_encaps s) @ appendBytes (ck_ek s) @ appendBytes (ck_ct1 s)"

definition deserializeUnchunkedCt1SentEkReceived :: "bytes \<Rightarrow> unchunkedCt1SentEkReceived res" where
  "deserializeUnchunkedCt1SentEkReceived data =
     bindR (read_epoch_auth data) (\<lambda>(epoch, auth, bs).
     bindR (readEncapsulationState bs) (\<lambda>(encaps, bs).
     bindR (readBytes bs) (\<lambda>(ek, bs).
     bindR (readBytes bs) (\<lambda>(ct1, bs).
     if length ek \<noteq> mlkemEncapsulationKeySize \<or> length ct1 \<noteq> mlkemCiphertext1Size then Inl ErrSpqrStateDecode
     else at_end \<lparr>ck_epoch = epoch, ck_auth = auth, ck_encaps = encaps, ck_ek = ek, ck_ct1 = ct1\<rparr> bs))))"

definition serializeUnchunkedCt2Sent :: "unchunkedCt2Sent \<Rightarrow> bytes" where
  "serializeUnchunkedCt2Sent s = put_u64 (ct_epoch s) @ appendAuthenticator (ct_auth s)"

definition deserializeUnchunkedCt2Sent :: "bytes \<Rightarrow> unchunkedCt2Sent res" where
  "deserializeUnchunkedCt2Sent data =
     bindR (read_epoch_auth data) (\<lambda>(epoch, auth, bs).
     at_end \<lparr>ct_epoch = epoch, ct_auth = auth\<rparr> bs)"

section \<open>The states\<close>

definition v1StateKeysUnsampled :: u8 where "v1StateKeysUnsampled = 1"
definition v1StateKeysSampled :: u8 where "v1StateKeysSampled = 2"
definition v1StateHeaderSent :: u8 where "v1StateHeaderSent = 3"
definition v1StateCt1Received :: u8 where "v1StateCt1Received = 4"
definition v1StateEkSentCt1Received :: u8 where "v1StateEkSentCt1Received = 5"
definition v1StateNoHeaderReceived :: u8 where "v1StateNoHeaderReceived = 6"
definition v1StateHeaderReceived :: u8 where "v1StateHeaderReceived = 7"
definition v1StateCt1Sampled :: u8 where "v1StateCt1Sampled = 8"
definition v1StateEkReceivedCt1Sampled :: u8 where "v1StateEkReceivedCt1Sampled = 9"
definition v1StateCt1Acknowledged :: u8 where "v1StateCt1Acknowledged = 10"
definition v1StateCt2Sampled :: u8 where "v1StateCt2Sampled = 11"

lemmas v1State_defs = v1StateKeysUnsampled_def v1StateKeysSampled_def v1StateHeaderSent_def v1StateCt1Received_def v1StateEkSentCt1Received_def v1StateNoHeaderReceived_def v1StateHeaderReceived_def v1StateCt1Sampled_def v1StateEkReceivedCt1Sampled_def v1StateCt1Acknowledged_def v1StateCt2Sampled_def

fun serializeV1States :: "v1States \<Rightarrow> bytes" where
  "serializeV1States (chunkedKeysUnsampled uc) = v1StateKeysUnsampled # appendBytes (serializeUnchunkedKeysUnsampled uc)"
| "serializeV1States (chunkedKeysSampled uc enc) = v1StateKeysSampled # appendBytes (serializeUnchunkedHeaderSent uc) @ appendBytes (polyEncoder_serialize enc)"
| "serializeV1States (chunkedHeaderSent uc enc dec) = v1StateHeaderSent # appendBytes (serializeUnchunkedEkSent uc) @ appendBytes (polyEncoder_serialize enc) @ appendBytes (polyDecoder_serialize dec)"
| "serializeV1States (chunkedCt1Received uc enc) = v1StateCt1Received # appendBytes (serializeUnchunkedEkSentCt1Received uc) @ appendBytes (polyEncoder_serialize enc)"
| "serializeV1States (chunkedEkSentCt1Received uc dec) = v1StateEkSentCt1Received # appendBytes (serializeUnchunkedEkSentCt1Received uc) @ appendBytes (polyDecoder_serialize dec)"
| "serializeV1States (chunkedNoHeaderReceived uc dec) = v1StateNoHeaderReceived # appendBytes (serializeUnchunkedNoHeaderReceived uc) @ appendBytes (polyDecoder_serialize dec)"
| "serializeV1States (chunkedHeaderReceived uc dec) = v1StateHeaderReceived # appendBytes (serializeUnchunkedHeaderReceived uc) @ appendBytes (polyDecoder_serialize dec)"
| "serializeV1States (chunkedCt1Sampled uc enc dec) = v1StateCt1Sampled # appendBytes (serializeUnchunkedCt1Sent uc) @ appendBytes (polyEncoder_serialize enc) @ appendBytes (polyDecoder_serialize dec)"
| "serializeV1States (chunkedEkReceivedCt1Sampled uc enc) = v1StateEkReceivedCt1Sampled # appendBytes (serializeUnchunkedCt1SentEkReceived uc) @ appendBytes (polyEncoder_serialize enc)"
| "serializeV1States (chunkedCt1Acknowledged uc dec) = v1StateCt1Acknowledged # appendBytes (serializeUnchunkedCt1Sent uc) @ appendBytes (polyDecoder_serialize dec)"
| "serializeV1States (chunkedCt2Sampled uc enc) = v1StateCt2Sampled # appendBytes (serializeUnchunkedCt2Sent uc) @ appendBytes (polyEncoder_serialize enc)"

definition deserializeV1States :: "bytes \<Rightarrow> v1States res" where
  "deserializeV1States data =
     (case data of
        [] \<Rightarrow> Inl ErrSpqrStateDecode
      | b # bs \<Rightarrow>
          if b = v1StateKeysUnsampled then
            bindR (readBytes bs) (\<lambda>(ucBytes, bs). bindR (deserializeUnchunkedKeysUnsampled ucBytes) (\<lambda>uc. at_end (chunkedKeysUnsampled uc) bs))
          else if b = v1StateKeysSampled then
            bindR (readBytes bs) (\<lambda>(ucBytes, bs). bindR (readBytes bs) (\<lambda>(encBytes, bs).
            bindR (deserializeUnchunkedHeaderSent ucBytes) (\<lambda>uc. bindR (decodePolyEncoderWithSize encBytes (mlkemHeaderSize + authenticatorMacSize)) (\<lambda>enc.
            at_end (chunkedKeysSampled uc enc) bs))))
          else if b = v1StateHeaderSent then
            bindR (readBytes bs) (\<lambda>(ucBytes, bs). bindR (readBytes bs) (\<lambda>(encBytes, bs).
            bindR (readBytes bs) (\<lambda>(decBytes, bs).
            bindR (deserializeUnchunkedEkSent ucBytes) (\<lambda>uc. bindR (decodePolyEncoderWithSize encBytes mlkemEncapsulationKeySize) (\<lambda>enc.
            bindR (decodePolyDecoderWithSize decBytes mlkemCiphertext1Size) (\<lambda>dec.
            at_end (chunkedHeaderSent uc enc dec) bs))))))
          else if b = v1StateCt1Received then
            bindR (readBytes bs) (\<lambda>(ucBytes, bs). bindR (readBytes bs) (\<lambda>(encBytes, bs).
            bindR (deserializeUnchunkedEkSentCt1Received ucBytes) (\<lambda>uc. bindR (decodePolyEncoderWithSize encBytes mlkemEncapsulationKeySize) (\<lambda>enc.
            at_end (chunkedCt1Received uc enc) bs))))
          else if b = v1StateEkSentCt1Received then
            bindR (readBytes bs) (\<lambda>(ucBytes, bs). bindR (readBytes bs) (\<lambda>(decBytes, bs).
            bindR (deserializeUnchunkedEkSentCt1Received ucBytes) (\<lambda>uc. bindR (decodePolyDecoderWithSize decBytes (mlkemCiphertext2Size + authenticatorMacSize)) (\<lambda>dec.
            at_end (chunkedEkSentCt1Received uc dec) bs))))
          else if b = v1StateNoHeaderReceived then
            bindR (readBytes bs) (\<lambda>(ucBytes, bs). bindR (readBytes bs) (\<lambda>(decBytes, bs).
            bindR (deserializeUnchunkedNoHeaderReceived ucBytes) (\<lambda>uc. bindR (decodePolyDecoderWithSize decBytes (mlkemHeaderSize + authenticatorMacSize)) (\<lambda>dec.
            at_end (chunkedNoHeaderReceived uc dec) bs))))
          else if b = v1StateHeaderReceived then
            bindR (readBytes bs) (\<lambda>(ucBytes, bs). bindR (readBytes bs) (\<lambda>(decBytes, bs).
            bindR (deserializeUnchunkedHeaderReceived ucBytes) (\<lambda>uc. bindR (decodePolyDecoderWithSize decBytes mlkemEncapsulationKeySize) (\<lambda>dec.
            at_end (chunkedHeaderReceived uc dec) bs))))
          else if b = v1StateCt1Sampled then
            bindR (readBytes bs) (\<lambda>(ucBytes, bs). bindR (readBytes bs) (\<lambda>(encBytes, bs).
            bindR (readBytes bs) (\<lambda>(decBytes, bs).
            bindR (deserializeUnchunkedCt1Sent ucBytes) (\<lambda>uc. bindR (decodePolyEncoderWithSize encBytes mlkemCiphertext1Size) (\<lambda>enc.
            bindR (decodePolyDecoderWithSize decBytes mlkemEncapsulationKeySize) (\<lambda>dec.
            at_end (chunkedCt1Sampled uc enc dec) bs))))))
          else if b = v1StateEkReceivedCt1Sampled then
            bindR (readBytes bs) (\<lambda>(ucBytes, bs). bindR (readBytes bs) (\<lambda>(encBytes, bs).
            bindR (deserializeUnchunkedCt1SentEkReceived ucBytes) (\<lambda>uc. bindR (decodePolyEncoderWithSize encBytes mlkemCiphertext1Size) (\<lambda>enc.
            at_end (chunkedEkReceivedCt1Sampled uc enc) bs))))
          else if b = v1StateCt1Acknowledged then
            bindR (readBytes bs) (\<lambda>(ucBytes, bs). bindR (readBytes bs) (\<lambda>(decBytes, bs).
            bindR (deserializeUnchunkedCt1Sent ucBytes) (\<lambda>uc. bindR (decodePolyDecoderWithSize decBytes mlkemEncapsulationKeySize) (\<lambda>dec.
            at_end (chunkedCt1Acknowledged uc dec) bs))))
          else if b = v1StateCt2Sampled then
            bindR (readBytes bs) (\<lambda>(ucBytes, bs). bindR (readBytes bs) (\<lambda>(encBytes, bs).
            bindR (deserializeUnchunkedCt2Sent ucBytes) (\<lambda>uc. bindR (decodePolyEncoderWithSize encBytes (mlkemCiphertext2Size + authenticatorMacSize)) (\<lambda>enc.
            at_end (chunkedCt2Sampled uc enc) bs))))
          else Inl ErrSpqrStateDecode)"

section \<open>What can be stored\<close>

definition auth_ok :: "authenticator \<Rightarrow> bool" where
  "auth_ok a \<longleftrightarrow> length (au_rootKey a) = 32 \<and> length (au_macKey a) = 32"

definition encaps_ok :: "mlkemEncapsulationState \<Rightarrow> bool" where
  "encaps_ok s \<longleftrightarrow> length (es_seed s) = 32 \<and> length (es_rho s) = 32 \<and> length (es_pkHash s) = 32"

definition encoder_sized :: "nat \<Rightarrow> polyEncoder \<Rightarrow> bool" where
  "encoder_sized sz e \<longleftrightarrow> encoder_ok e \<and> length (pe_msg e) = sz"

definition decoder_sized :: "nat \<Rightarrow> polyDecoder \<Rightarrow> bool" where
  "decoder_sized sz d \<longleftrightarrow> decoder_ok d \<and> pd_ptsNeeded d * 2 = sz"

definition uc_KeysUnsampled :: "unchunkedKeysUnsampled \<Rightarrow> bool" where
  "uc_KeysUnsampled s \<longleftrightarrow> auth_ok (ku_auth s)"

definition uc_HeaderSent :: "unchunkedHeaderSent \<Rightarrow> bool" where
  "uc_HeaderSent s \<longleftrightarrow> auth_ok (hs_auth s) \<and> length (hs_ek s) = mlkemEncapsulationKeySize \<and> length (hs_dk s) = mlkemDecapsulationKeySize"

definition uc_EkSent :: "unchunkedEkSent \<Rightarrow> bool" where
  "uc_EkSent s \<longleftrightarrow> auth_ok (ks_auth s) \<and> length (ks_dk s) = mlkemDecapsulationKeySize"

definition uc_EkSentCt1Received :: "unchunkedEkSentCt1Received \<Rightarrow> bool" where
  "uc_EkSentCt1Received s \<longleftrightarrow> auth_ok (kc_auth s) \<and> length (kc_dk s) = mlkemDecapsulationKeySize \<and> length (kc_ct1 s) = mlkemCiphertext1Size"

definition uc_NoHeaderReceived :: "unchunkedNoHeaderReceived \<Rightarrow> bool" where
  "uc_NoHeaderReceived s \<longleftrightarrow> auth_ok (nh_auth s)"

definition uc_HeaderReceived :: "unchunkedHeaderReceived \<Rightarrow> bool" where
  "uc_HeaderReceived s \<longleftrightarrow> auth_ok (hr_auth s) \<and> length (hr_hdr s) = mlkemHeaderSize"

definition uc_Ct1Sent :: "unchunkedCt1Sent \<Rightarrow> bool" where
  "uc_Ct1Sent s \<longleftrightarrow> auth_ok (cs_auth s) \<and> length (cs_hdr s) = mlkemHeaderSize \<and> encaps_ok (cs_encaps s) \<and> length (cs_ct1 s) = mlkemCiphertext1Size"

definition uc_Ct1SentEkReceived :: "unchunkedCt1SentEkReceived \<Rightarrow> bool" where
  "uc_Ct1SentEkReceived s \<longleftrightarrow> auth_ok (ck_auth s) \<and> encaps_ok (ck_encaps s) \<and> length (ck_ek s) = mlkemEncapsulationKeySize \<and> length (ck_ct1 s) = mlkemCiphertext1Size"

definition uc_Ct2Sent :: "unchunkedCt2Sent \<Rightarrow> bool" where
  "uc_Ct2Sent s \<longleftrightarrow> auth_ok (ct_auth s)"

fun v1_storable :: "v1States \<Rightarrow> bool" where
  "v1_storable (chunkedKeysUnsampled uc) = (uc_KeysUnsampled uc)"
| "v1_storable (chunkedKeysSampled uc enc) = (uc_HeaderSent uc \<and> encoder_sized (mlkemHeaderSize + authenticatorMacSize) enc)"
| "v1_storable (chunkedHeaderSent uc enc dec) = (uc_EkSent uc \<and> encoder_sized (mlkemEncapsulationKeySize) enc \<and> decoder_sized (mlkemCiphertext1Size) dec)"
| "v1_storable (chunkedCt1Received uc enc) = (uc_EkSentCt1Received uc \<and> encoder_sized (mlkemEncapsulationKeySize) enc)"
| "v1_storable (chunkedEkSentCt1Received uc dec) = (uc_EkSentCt1Received uc \<and> decoder_sized (mlkemCiphertext2Size + authenticatorMacSize) dec)"
| "v1_storable (chunkedNoHeaderReceived uc dec) = (uc_NoHeaderReceived uc \<and> decoder_sized (mlkemHeaderSize + authenticatorMacSize) dec)"
| "v1_storable (chunkedHeaderReceived uc dec) = (uc_HeaderReceived uc \<and> decoder_sized (mlkemEncapsulationKeySize) dec)"
| "v1_storable (chunkedCt1Sampled uc enc dec) = (uc_Ct1Sent uc \<and> encoder_sized (mlkemCiphertext1Size) enc \<and> decoder_sized (mlkemEncapsulationKeySize) dec)"
| "v1_storable (chunkedEkReceivedCt1Sampled uc enc) = (uc_Ct1SentEkReceived uc \<and> encoder_sized (mlkemCiphertext1Size) enc)"
| "v1_storable (chunkedCt1Acknowledged uc dec) = (uc_Ct1Sent uc \<and> decoder_sized (mlkemEncapsulationKeySize) dec)"
| "v1_storable (chunkedCt2Sampled uc enc) = (uc_Ct2Sent uc \<and> encoder_sized (mlkemCiphertext2Size + authenticatorMacSize) enc)"

section \<open>Round trips\<close>

interpretation authenticator: strict_codec appendAuthenticator readAuthenticator auth_ok
proof
  show "readAuthenticator (appendAuthenticator a @ r) = Inr (a, r)" if "auth_ok a" for a r
    using that by (cases a) (simp add: readAuthenticator_def appendAuthenticator_def auth_ok_def)
  show "auth_ok a \<and> bs = appendAuthenticator a @ r" if "readAuthenticator bs = Inr (a, r)" for bs a r
    using that by (auto simp: readAuthenticator_def appendAuthenticator_def auth_ok_def split: if_splits dest!: readBytes_sound)
qed

interpretation encaps_state: strict_codec appendEncapsulationState readEncapsulationState encaps_ok
proof
  show "readEncapsulationState (appendEncapsulationState s @ r) = Inr (s, r)" if "encaps_ok s" for s r
    using that by (cases s) (simp add: readEncapsulationState_def appendEncapsulationState_def encaps_ok_def)
  show "encaps_ok s \<and> bs = appendEncapsulationState s @ r" if "readEncapsulationState bs = Inr (s, r)" for bs s r
    using that by (auto simp: readEncapsulationState_def appendEncapsulationState_def encaps_ok_def split: if_splits dest!: readBytes_sound)
qed

lemma read_epoch_auth_append [simp]:
  "auth_ok a \<Longrightarrow> read_epoch_auth (put_u64 e @ appendAuthenticator a @ r) = Inr (e, a, r)"
  by (simp add: read_epoch_auth_def authenticator.dec_enc)

lemma read_epoch_auth_end [simp]: "auth_ok a \<Longrightarrow> read_epoch_auth (put_u64 e @ appendAuthenticator a) = Inr (e, a, [])"
  using read_epoch_auth_append [of a e "[]"] by simp

lemma readEncapsulationState_append [simp]: "encaps_ok s \<Longrightarrow> readEncapsulationState (appendEncapsulationState s @ r) = Inr (s, r)"
  by (rule encaps_state.dec_enc)

lemma readBytes_end [simp]: "length b < 2 ^ 32 \<Longrightarrow> readBytes (appendBytes b) = Inr (b, [])"
  using readBytes_append [of b "[]"] by simp

lemma read_epoch_auth_ok: "read_epoch_auth data = Inr (e, a, r) \<Longrightarrow> auth_ok a"
  by (auto simp: read_epoch_auth_def split: if_splits dest: authenticator.dec_sound)

lemma readEncapsulationState_ok: "readEncapsulationState bs = Inr (s, r) \<Longrightarrow> encaps_ok s"
  by (auto dest: encaps_state.dec_sound)

lemma uc_KeysUnsampled_roundtrip: "uc_KeysUnsampled s \<Longrightarrow> deserializeUnchunkedKeysUnsampled (serializeUnchunkedKeysUnsampled s) = Inr s"
  by (cases s) (simp add: uc_KeysUnsampled_def deserializeUnchunkedKeysUnsampled_def serializeUnchunkedKeysUnsampled_def at_end_def mlkem_sizes)

lemma uc_HeaderSent_roundtrip: "uc_HeaderSent s \<Longrightarrow> deserializeUnchunkedHeaderSent (serializeUnchunkedHeaderSent s) = Inr s"
  by (cases s) (simp add: uc_HeaderSent_def deserializeUnchunkedHeaderSent_def serializeUnchunkedHeaderSent_def at_end_def mlkem_sizes)

lemma uc_EkSent_roundtrip: "uc_EkSent s \<Longrightarrow> deserializeUnchunkedEkSent (serializeUnchunkedEkSent s) = Inr s"
  by (cases s) (simp add: uc_EkSent_def deserializeUnchunkedEkSent_def serializeUnchunkedEkSent_def at_end_def mlkem_sizes)

lemma uc_EkSentCt1Received_roundtrip: "uc_EkSentCt1Received s \<Longrightarrow> deserializeUnchunkedEkSentCt1Received (serializeUnchunkedEkSentCt1Received s) = Inr s"
  by (cases s) (simp add: uc_EkSentCt1Received_def deserializeUnchunkedEkSentCt1Received_def serializeUnchunkedEkSentCt1Received_def at_end_def mlkem_sizes)

lemma uc_NoHeaderReceived_roundtrip: "uc_NoHeaderReceived s \<Longrightarrow> deserializeUnchunkedNoHeaderReceived (serializeUnchunkedNoHeaderReceived s) = Inr s"
  by (cases s) (simp add: uc_NoHeaderReceived_def deserializeUnchunkedNoHeaderReceived_def serializeUnchunkedNoHeaderReceived_def at_end_def mlkem_sizes)

lemma uc_HeaderReceived_roundtrip: "uc_HeaderReceived s \<Longrightarrow> deserializeUnchunkedHeaderReceived (serializeUnchunkedHeaderReceived s) = Inr s"
  by (cases s) (simp add: uc_HeaderReceived_def deserializeUnchunkedHeaderReceived_def serializeUnchunkedHeaderReceived_def at_end_def mlkem_sizes)

lemma uc_Ct1Sent_roundtrip: "uc_Ct1Sent s \<Longrightarrow> deserializeUnchunkedCt1Sent (serializeUnchunkedCt1Sent s) = Inr s"
  by (cases s) (simp add: uc_Ct1Sent_def deserializeUnchunkedCt1Sent_def serializeUnchunkedCt1Sent_def at_end_def mlkem_sizes)

lemma uc_Ct1SentEkReceived_roundtrip: "uc_Ct1SentEkReceived s \<Longrightarrow> deserializeUnchunkedCt1SentEkReceived (serializeUnchunkedCt1SentEkReceived s) = Inr s"
  by (cases s) (simp add: uc_Ct1SentEkReceived_def deserializeUnchunkedCt1SentEkReceived_def serializeUnchunkedCt1SentEkReceived_def at_end_def mlkem_sizes)

lemma uc_Ct2Sent_roundtrip: "uc_Ct2Sent s \<Longrightarrow> deserializeUnchunkedCt2Sent (serializeUnchunkedCt2Sent s) = Inr s"
  by (cases s) (simp add: uc_Ct2Sent_def deserializeUnchunkedCt2Sent_def serializeUnchunkedCt2Sent_def at_end_def mlkem_sizes)

lemma uc_KeysUnsampled_length: "uc_KeysUnsampled s \<Longrightarrow> length (serializeUnchunkedKeysUnsampled s) < 2 ^ 16"
  by (simp add: uc_KeysUnsampled_def serializeUnchunkedKeysUnsampled_def auth_ok_def encaps_ok_def appendAuthenticator_def appendEncapsulationState_def mlkem_sizes)

lemma uc_HeaderSent_length: "uc_HeaderSent s \<Longrightarrow> length (serializeUnchunkedHeaderSent s) < 2 ^ 16"
  by (simp add: uc_HeaderSent_def serializeUnchunkedHeaderSent_def auth_ok_def encaps_ok_def appendAuthenticator_def appendEncapsulationState_def mlkem_sizes)

lemma uc_EkSent_length: "uc_EkSent s \<Longrightarrow> length (serializeUnchunkedEkSent s) < 2 ^ 16"
  by (simp add: uc_EkSent_def serializeUnchunkedEkSent_def auth_ok_def encaps_ok_def appendAuthenticator_def appendEncapsulationState_def mlkem_sizes)

lemma uc_EkSentCt1Received_length: "uc_EkSentCt1Received s \<Longrightarrow> length (serializeUnchunkedEkSentCt1Received s) < 2 ^ 16"
  by (simp add: uc_EkSentCt1Received_def serializeUnchunkedEkSentCt1Received_def auth_ok_def encaps_ok_def appendAuthenticator_def appendEncapsulationState_def mlkem_sizes)

lemma uc_NoHeaderReceived_length: "uc_NoHeaderReceived s \<Longrightarrow> length (serializeUnchunkedNoHeaderReceived s) < 2 ^ 16"
  by (simp add: uc_NoHeaderReceived_def serializeUnchunkedNoHeaderReceived_def auth_ok_def encaps_ok_def appendAuthenticator_def appendEncapsulationState_def mlkem_sizes)

lemma uc_HeaderReceived_length: "uc_HeaderReceived s \<Longrightarrow> length (serializeUnchunkedHeaderReceived s) < 2 ^ 16"
  by (simp add: uc_HeaderReceived_def serializeUnchunkedHeaderReceived_def auth_ok_def encaps_ok_def appendAuthenticator_def appendEncapsulationState_def mlkem_sizes)

lemma uc_Ct1Sent_length: "uc_Ct1Sent s \<Longrightarrow> length (serializeUnchunkedCt1Sent s) < 2 ^ 16"
  by (simp add: uc_Ct1Sent_def serializeUnchunkedCt1Sent_def auth_ok_def encaps_ok_def appendAuthenticator_def appendEncapsulationState_def mlkem_sizes)

lemma uc_Ct1SentEkReceived_length: "uc_Ct1SentEkReceived s \<Longrightarrow> length (serializeUnchunkedCt1SentEkReceived s) < 2 ^ 16"
  by (simp add: uc_Ct1SentEkReceived_def serializeUnchunkedCt1SentEkReceived_def auth_ok_def encaps_ok_def appendAuthenticator_def appendEncapsulationState_def mlkem_sizes)

lemma uc_Ct2Sent_length: "uc_Ct2Sent s \<Longrightarrow> length (serializeUnchunkedCt2Sent s) < 2 ^ 16"
  by (simp add: uc_Ct2Sent_def serializeUnchunkedCt2Sent_def auth_ok_def encaps_ok_def appendAuthenticator_def appendEncapsulationState_def mlkem_sizes)

lemma uc_KeysUnsampled_ok: "deserializeUnchunkedKeysUnsampled data = Inr s \<Longrightarrow> uc_KeysUnsampled s"
  by (auto simp: uc_KeysUnsampled_def deserializeUnchunkedKeysUnsampled_def at_end_def split: if_splits dest: read_epoch_auth_ok readEncapsulationState_ok)

lemma uc_HeaderSent_ok: "deserializeUnchunkedHeaderSent data = Inr s \<Longrightarrow> uc_HeaderSent s"
  by (auto simp: uc_HeaderSent_def deserializeUnchunkedHeaderSent_def at_end_def split: if_splits dest: read_epoch_auth_ok readEncapsulationState_ok)

lemma uc_EkSent_ok: "deserializeUnchunkedEkSent data = Inr s \<Longrightarrow> uc_EkSent s"
  by (auto simp: uc_EkSent_def deserializeUnchunkedEkSent_def at_end_def split: if_splits dest: read_epoch_auth_ok readEncapsulationState_ok)

lemma uc_EkSentCt1Received_ok: "deserializeUnchunkedEkSentCt1Received data = Inr s \<Longrightarrow> uc_EkSentCt1Received s"
  by (auto simp: uc_EkSentCt1Received_def deserializeUnchunkedEkSentCt1Received_def at_end_def split: if_splits dest: read_epoch_auth_ok readEncapsulationState_ok)

lemma uc_NoHeaderReceived_ok: "deserializeUnchunkedNoHeaderReceived data = Inr s \<Longrightarrow> uc_NoHeaderReceived s"
  by (auto simp: uc_NoHeaderReceived_def deserializeUnchunkedNoHeaderReceived_def at_end_def split: if_splits dest: read_epoch_auth_ok readEncapsulationState_ok)

lemma uc_HeaderReceived_ok: "deserializeUnchunkedHeaderReceived data = Inr s \<Longrightarrow> uc_HeaderReceived s"
  by (auto simp: uc_HeaderReceived_def deserializeUnchunkedHeaderReceived_def at_end_def split: if_splits dest: read_epoch_auth_ok readEncapsulationState_ok)

lemma uc_Ct1Sent_ok: "deserializeUnchunkedCt1Sent data = Inr s \<Longrightarrow> uc_Ct1Sent s"
  by (auto simp: uc_Ct1Sent_def deserializeUnchunkedCt1Sent_def at_end_def split: if_splits dest: read_epoch_auth_ok readEncapsulationState_ok)

lemma uc_Ct1SentEkReceived_ok: "deserializeUnchunkedCt1SentEkReceived data = Inr s \<Longrightarrow> uc_Ct1SentEkReceived s"
  by (auto simp: uc_Ct1SentEkReceived_def deserializeUnchunkedCt1SentEkReceived_def at_end_def split: if_splits dest: read_epoch_auth_ok readEncapsulationState_ok)

lemma uc_Ct2Sent_ok: "deserializeUnchunkedCt2Sent data = Inr s \<Longrightarrow> uc_Ct2Sent s"
  by (auto simp: uc_Ct2Sent_def deserializeUnchunkedCt2Sent_def at_end_def split: if_splits dest: read_epoch_auth_ok readEncapsulationState_ok)

lemma decoder_roundtrip: "decoder_sized sz d \<Longrightarrow> decodePolyDecoderWithSize (polyDecoder_serialize d) sz = Inr d"
  by (simp add: decoder_sized_def decodePolyDecoderWithSize_def decodePolyDecoder_roundtrip)

lemma encoder_decoded: "decodePolyEncoderWithSize data sz = Inr e \<Longrightarrow> encoder_sized sz e"
  by (auto simp: encoder_sized_def decodePolyEncoderWithSize_def split: if_splits dest: decodePolyEncoder_ok)

lemma decoder_decoded: "decodePolyDecoderWithSize data sz = Inr d \<Longrightarrow> decoder_sized sz d"
  by (auto simp: decoder_sized_def decodePolyDecoderWithSize_def split: if_splits dest: decodePolyDecoder_ok)

lemma encoder_length: "encoder_ok e \<Longrightarrow> length (polyEncoder_serialize e) < 2 ^ 24"
  using encoder_len [of e] by (simp add: polyEncoder_serialize_def)

lemma enc_points_length: "length (enc_points m) \<le> 4 + 4 * 2 ^ 16"
proof -
  have "fm_size m \<le> card (UNIV :: u16 set)"
    unfolding fm_size_def fcard.rep_eq by (rule card_mono) simp_all
  moreover have "length (concat (map enc_point es)) = 4 * length es" for es
    by (induction es) (simp_all add: enc_point_def)
  ultimately show ?thesis by (simp add: enc_points_def card_word)
qed

lemma decoder_length: "length (polyDecoder_serialize d) < 2 ^ 24"
proof -
  have "length (concat (map (\<lambda>i. enc_points (pd_points d ! i)) is)) \<le> length is * (4 + 4 * 2 ^ 16)" for "is"
    using enc_points_length by (induction "is") (simp_all add: add_mono)
  from this [of "[0..<16]"] show ?thesis by (simp add: polyDecoder_serialize_def polyNumPolys_def)
qed

lemmas uc_roundtrips = uc_KeysUnsampled_roundtrip uc_HeaderSent_roundtrip uc_EkSent_roundtrip uc_EkSentCt1Received_roundtrip
  uc_NoHeaderReceived_roundtrip uc_HeaderReceived_roundtrip uc_Ct1Sent_roundtrip uc_Ct1SentEkReceived_roundtrip uc_Ct2Sent_roundtrip

lemmas uc_oks = uc_KeysUnsampled_ok uc_HeaderSent_ok uc_EkSent_ok uc_EkSentCt1Received_ok uc_NoHeaderReceived_ok
  uc_HeaderReceived_ok uc_Ct1Sent_ok uc_Ct1SentEkReceived_ok uc_Ct2Sent_ok

lemma deserializeV1States_roundtrip: "v1_storable st \<Longrightarrow> deserializeV1States (serializeV1States st) = Inr st"
  by (cases st)
    (simp_all add: deserializeV1States_def v1State_defs at_end_def uc_roundtrips encoder_sized_def decodePolyEncoderWithSize_def
      decodePolyEncoder_roundtrip decoder_roundtrip mlkem_sizes
      less_trans [OF uc_KeysUnsampled_length] less_trans [OF uc_HeaderSent_length] less_trans [OF uc_EkSent_length]
      less_trans [OF uc_EkSentCt1Received_length] less_trans [OF uc_NoHeaderReceived_length] less_trans [OF uc_HeaderReceived_length]
      less_trans [OF uc_Ct1Sent_length] less_trans [OF uc_Ct1SentEkReceived_length] less_trans [OF uc_Ct2Sent_length]
      less_trans [OF encoder_length] less_trans [OF decoder_length])

lemma deserializeV1States_storable: "deserializeV1States data = Inr st \<Longrightarrow> v1_storable st"
  by (cases data) (auto simp: deserializeV1States_def at_end_def split: if_splits dest: uc_oks encoder_decoded decoder_decoded)

section \<open>The state (state.go)\<close>

definition stateSerializeVersionV1 :: u8 where "stateSerializeVersionV1 = 1"
definition stateSerializeVersionV2 :: u8 where "stateSerializeVersionV2 = 2"

definition serializeChain_opt :: "Chain option \<Rightarrow> bytes" where
  "serializeChain_opt c = (case c of None \<Rightarrow> [] | Some c \<Rightarrow> serializeChain c)"

definition serializeLegacyState :: "PqState \<Rightarrow> bytes" where
  "serializeLegacyState s =
     (let chainBytes = serializeChain_opt (ps_chain s);
          dir = (case ps_chain s of
                   Some c \<Rightarrow> ch_dir c
                 | None \<Rightarrow> (case ps_negotiation s of Some vn \<Rightarrow> vn_direction vn | None \<Rightarrow> DirectionA2B))
      in [stateSerializeVersionV1, dir] @ put_u32 (of_nat (length chainBytes)) @ chainBytes)"

definition enc_negotiation :: "versionNegotiation \<Rightarrow> bytes" where
  "enc_negotiation vn = [vn_minVersion vn, vn_direction vn] @ put_u32 (cp_MaxJump (vn_chainParams vn))
     @ put_u32 (cp_MaxOOO (vn_chainParams vn)) @ appendBytes (vn_authKey vn)"

definition state_flags :: "PqState \<Rightarrow> u8" where
  "state_flags s = (if ps_negotiation s \<noteq> None then 1 else 0) OR (if ps_chain s \<noteq> None then 2 else 0)"

definition Pq_Serialize :: "PqState option \<Rightarrow> bytes" where
  "Pq_Serialize s =
     (case s of
        None \<Rightarrow> []
      | Some s \<Rightarrow>
          if ps_version s = VersionDisabled then []
          else
            case ps_v1 s of
              None \<Rightarrow> serializeLegacyState s
            | Some v1 \<Rightarrow>
                [stateSerializeVersionV2, ps_version s, state_flags s]
                @ (case ps_negotiation s of None \<Rightarrow> [] | Some vn \<Rightarrow> enc_negotiation vn)
                @ appendBytes (serializeV1States v1)
                @ (case ps_chain s of None \<Rightarrow> [] | Some c \<Rightarrow> appendBytes (serializeChain c)))"

definition dec_negotiation :: "bytes \<Rightarrow> (versionNegotiation \<times> bytes) res" where
  "dec_negotiation bs =
     (if length bs < 2 + 4 + 4 then Inl ErrSpqrStateDecode
      else
        let minVersion = bs ! 0; direction = bs ! 1 in
        if minVersion > VersionV1 then Inl ErrSpqrStateDecode
        else if direction \<noteq> DirectionA2B \<and> direction \<noteq> DirectionB2A then Inl ErrSpqrStateDecode
        else
          bindR (readBytes (drop 10 bs)) (\<lambda>(authKey, rest).
          if length authKey = 0 then Inl ErrSpqrStateDecode
          else Inr (\<lparr>vn_authKey = authKey, vn_direction = direction, vn_minVersion = minVersion,
                 vn_chainParams = \<lparr>cp_MaxJump = get_u32 (drop 2 bs), cp_MaxOOO = get_u32 (drop 6 bs)\<rparr>\<rparr>, rest)))"

definition dec_state_v1 :: "bytes \<Rightarrow> PqState option res" where
  "dec_state_v1 bs =
     (if length bs < 1 then Inl ErrSpqrStateDecode
      else
        bindR (readBytes (drop 1 bs)) (\<lambda>(chainBytes, bs).
        bindR (deserializeChain chainBytes) (\<lambda>chain.
        at_end (Some \<lparr>ps_version = VersionV1, ps_v1 = None, ps_chain = chain, ps_negotiation = None\<rparr>) bs)))"

definition dec_state_v2 :: "bytes \<Rightarrow> PqState option res" where
  "dec_state_v2 bs =
     (if length bs < 2 then Inl ErrSpqrStateDecode
      else
        let version = bs ! 0; flags = bs ! 1 in
        if version \<noteq> VersionV1 then Inl ErrSpqrStateDecode
        else
          bindR (if flags AND 1 \<noteq> 0 then bindR (dec_negotiation (drop 2 bs)) (\<lambda>(vn, bs). Inr (Some vn, bs))
                 else Inr (None, drop 2 bs)) (\<lambda>(negotiation, bs).
          bindR (readBytes bs) (\<lambda>(v1Bytes, bs).
          bindR (deserializeV1States v1Bytes) (\<lambda>v1.
          bindR (if flags AND 2 \<noteq> 0 then bindR (readBytes bs) (\<lambda>(chainBytes, bs).
                   bindR (deserializeChain chainBytes) (\<lambda>chain. Inr (chain, bs)))
                 else Inr (None, bs)) (\<lambda>(chain, bs).
          at_end (Some \<lparr>ps_version = version, ps_v1 = Some v1, ps_chain = chain, ps_negotiation = negotiation\<rparr>) bs)))))"

definition DeserializePqState :: "bytes \<Rightarrow> PqState option res" where
  "DeserializePqState data =
     (case data of
        [] \<Rightarrow> Inr None
      | b # bs \<Rightarrow>
          if b = stateSerializeVersionV1 then dec_state_v1 bs
          else if b = stateSerializeVersionV2 then dec_state_v2 bs
          else Inl ErrSpqrStateDecode)"

text \<open>A copy of the parts by way of their stored form; a part that cannot be restored gives no copy.\<close>

definition clone_v1 :: "v1States option \<Rightarrow> v1States option res" where
  "clone_v1 v = (case v of None \<Rightarrow> Inr None | Some v1 \<Rightarrow> bindR (deserializeV1States (serializeV1States v1)) (\<lambda>v1. Inr (Some v1)))"

definition clone_chain :: "Chain option \<Rightarrow> Chain option res" where
  "clone_chain c = (case c of None \<Rightarrow> Inr None | Some c \<Rightarrow> deserializeChain (serializeChain c))"

definition Pq_Clone :: "PqState option \<Rightarrow> PqState option" where
  "Pq_Clone s =
     (case s of
        None \<Rightarrow> None
      | Some s \<Rightarrow>
          (case clone_v1 (ps_v1 s) of
             Inl _ \<Rightarrow> None
           | Inr v1 \<Rightarrow>
               (case clone_chain (ps_chain s) of
                  Inl _ \<Rightarrow> None
                | Inr chain \<Rightarrow> Some \<lparr>ps_version = ps_version s, ps_v1 = v1, ps_chain = chain,
                    ps_negotiation = cloneNegotiation (ps_negotiation s)\<rparr>)))"

section \<open>The operations keep the state storable\<close>

lemma auth_update_ok: "auth_ok (snd (auth_update P epoch key a))"
  by (simp add: auth_update_def HKDF_bytes auth_ok_def)

lemma newAuthenticator_ok: "auth_ok (newAuthenticator P key epoch)"
  by (simp add: newAuthenticator_def auth_update_ok)

lemma decodedMessage_length:
  assumes "decodedMessage d = Inr (Some m)" "decoder_sized sz d"
  shows "length m = sz"
proof -
  have len: "length (concat (map (\<lambda>i. put_u16 (f i)) is)) = 2 * length is" for f and "is" :: "nat list"
    by (induction "is") simp_all
  show ?thesis
    using assms by (auto simp: decodedMessage_def decoder_sized_def len Let_def split: if_splits option.splits)
qed

lemma addChunk_sized: "decoder_sized sz (addChunk c d) = decoder_sized sz d"
proof -
  have "decoder_sized sz (fold (addChunk_point c) is d) = decoder_sized sz d" for "is" d
    by (induction "is" arbitrary: d) (simp_all add: addChunk_point_def decoder_sized_def decoder_ok_def Let_def)
  then show ?thesis by (simp add: addChunk_def)
qed

lemma newPolyDecoder_sized: "newPolyDecoder sz = Inr d \<Longrightarrow> sz < 2 ^ 32 \<Longrightarrow> decoder_sized sz d"
  by (auto simp: newPolyDecoder_def decoder_sized_def decoder_ok_def polyNumPolys_def split: if_splits)

lemma newPolyEncoder_sized: "newPolyEncoder m = Inr e \<Longrightarrow> encoder_sized (length m) e"
  using newPolyEncoder_ok [of m e] by (simp add: encoder_sized_def)

lemma encoder_sized_idx [simp]: "encoder_sized sz (e\<lparr>pe_idx := i\<rparr>) = encoder_sized sz e"
  by (simp add: encoder_sized_def encoder_ok_def)

text \<open>Sending.\<close>

lemma send_chunk_storable:
  assumes "\<And>e. encoder_sized sz e \<Longrightarrow> v1_storable (st e)" "encoder_sized sz enc" "send_chunk st epoch kind enc = (r, st')"
  shows "v1_storable st' \<and> (\<forall>s. r = Inr s \<longrightarrow> v1_storable (sn_state s))"
  using assms by (auto simp: send_chunk_def nextChunk_def)

lemma sendHdrChunk_storable:
  assumes "auth_ok (ku_auth uc)" "KeysUnsampled_sendHdrChunk P rand uc = Inr (st, c)"
  shows "v1_storable st"
proof -
  obtain keys enc where k: "mlkemGenerateKeys P rand = Inr keys"
    "newPolyEncoder (mk_hdr keys @ macHdr P (ku_epoch uc) (mk_hdr keys) (ku_auth uc)) = Inr enc"
    "st = chunkedKeysSampled \<lparr>hs_epoch = ku_epoch uc, hs_auth = ku_auth uc, hs_ek = mk_ek keys, hs_dk = mk_dk keys\<rparr> (enc\<lparr>pe_idx := pe_idx enc + 1\<rparr>)"
    using assms(2) by (auto simp: KeysUnsampled_sendHdrChunk_def sendHeader_def Let_def nextChunk_def)
  have "length (mk_hdr keys) = 64" "length (mk_ek keys) = 1152" "length (mk_dk keys) = 2400"
    using k(1) by (auto simp: mlkemGenerateKeys_def Let_def mlkem_sizes mlkem_pk_def mlkem_sk_def Sum256_def)
  then show ?thesis
    using newPolyEncoder_sized [OF k(2)] assms(1)
    by (simp add: k(3) uc_HeaderSent_def mlkem_sizes macHdr_def hmacSha256_def)
qed

lemma sendCt1Chunk_storable:
  assumes "uc_HeaderReceived uc" "decoder_sized mlkemEncapsulationKeySize dec" "HeaderReceived_sendCt1Chunk P rand uc dec = (r, st)"
  shows "v1_storable st \<and> (\<forall>next c key. r = Inr (next, c, key) \<longrightarrow> v1_storable next)"
proof -
  have enc: "length ct1 = 960 \<and> encaps_ok es" if "mlkemEncaps1 P rand (hr_hdr uc) = Inr (ct1, es, ss)" for ct1 es ss
    using that assms(1) by (auto simp: mlkemEncaps1_def Let_def encaps_ok_def mlkem_sizes EncryptTo_def uc_HeaderReceived_def split: if_splits)
  have auth: "auth_ok a" if "auth_update P e k b = (x, a)" for e k b x a
    using auth_update_ok [of P e k b] that by simp
  show ?thesis
    using assms
    by (auto simp: HeaderReceived_sendCt1Chunk_def sendCt1_def Let_def uc_HeaderReceived_def uc_Ct1Sent_def mlkem_sizes nextChunk_def
        split: prod.splits sum.splits dest!: enc auth newPolyEncoder_sized)
qed

lemma v1_send_storable:
  assumes "v1_storable st" "v1_send P rand st = (r, st')"
  shows "v1_storable st' \<and> (\<forall>s. r = Inr s \<longrightarrow> v1_storable (sn_state s))"
proof (cases st)
  case (chunkedKeysUnsampled uc)
  then show ?thesis
    using assms sendHdrChunk_storable [of uc P rand] by (auto simp: uc_KeysUnsampled_def)
next
  case (chunkedHeaderReceived uc dec)
  then show ?thesis
    using assms sendCt1Chunk_storable [of uc dec P rand] by (auto split: prod.splits)
qed (use assms send_chunk_storable in \<open>force+\<close>)

text \<open>Receiving.\<close>

lemma recvCt2_storable:
  assumes "uc_EkSentCt1Received uc" "recvCt2 P ct2 mac uc = (r, uc')"
  shows "uc_EkSentCt1Received uc' \<and> (\<forall>nx key. r = Inr (nx, key) \<longrightarrow> uc_NoHeaderReceived nx)"
proof -
  have auth: "auth_ok a" if "auth_update P e k b = (x, a)" for e k b x a
    using auth_update_ok [of P e k b] that by simp
  show ?thesis
    using assms by (auto simp: recvCt2_def uc_EkSentCt1Received_def uc_NoHeaderReceived_def Let_def
        split: if_splits sum.splits prod.splits dest!: auth)
qed

lemma enter_Ct2Sampled_storable:
  assumes "uc_Ct1SentEkReceived uc" "enter_Ct2Sampled P uc = Inr st"
  shows "v1_storable st"
proof -
  obtain ct2 enc where k: "mlkemEncaps2 P (ck_ek uc) (ck_encaps uc) = Inr ct2"
    "newPolyEncoder (ct2 @ macCt P (ck_epoch uc) (ck_ct1 uc @ ct2) (ck_auth uc)) = Inr enc"
    "st = chunkedCt2Sampled \<lparr>ct_epoch = ck_epoch uc, ct_auth = ck_auth uc\<rparr> enc"
    using assms(2) by (auto simp: enter_Ct2Sampled_def sendCt2_def Let_def)
  have "length ct2 = 128" using k(1) by (auto simp: mlkemEncaps2_def Let_def mlkem_sizes EncryptTo_def split: if_splits)
  then show ?thesis
    using newPolyEncoder_sized [OF k(2)] assms(1)
    by (simp add: k(3) uc_Ct2Sent_def uc_Ct1SentEkReceived_def macCt_def hmacSha256_def mlkem_sizes)
qed

lemma recvEk_storable: "uc_Ct1Sent uc \<Longrightarrow> recvEk P epoch ek uc = Inr uc' \<Longrightarrow> uc_Ct1SentEkReceived uc'"
  by (auto simp: recvEk_def mlkemEKMatchesHeader_def uc_Ct1Sent_def uc_Ct1SentEkReceived_def split: if_splits)

lemma recvHdrChunk_storable:
  assumes "uc_NoHeaderReceived uc" "decoder_sized (mlkemHeaderSize + authenticatorMacSize) dec"
    "NoHeaderReceived_recvHdrChunk P epoch c uc dec = (r, st')"
  shows "v1_storable st' \<and> (\<forall>st. r = Inr st \<longrightarrow> v1_storable st)"
proof -
  have "uc_HeaderReceived h" if "recvHeader P epoch hdr mac uc = Inr h" for hdr mac h
    using that assms(1) by (auto simp: recvHeader_def uc_HeaderReceived_def uc_NoHeaderReceived_def split: if_splits)
  moreover have "decoder_sized mlkemEncapsulationKeySize d" if "newPolyDecoder mlkemEncapsulationKeySize = Inr d" for d
    using newPolyDecoder_sized [OF that] by (simp add: mlkem_sizes)
  note laws = calculation this
  consider e where "decodedMessage (addChunk c dec) = Inl e" | "decodedMessage (addChunk c dec) = Inr None"
    | m where "decodedMessage (addChunk c dec) = Inr (Some m)"
    by (cases "decodedMessage (addChunk c dec)"; cases "projr (decodedMessage (addChunk c dec))") auto
  then show ?thesis
    by cases (use assms laws in \<open>auto simp: NoHeaderReceived_recvHdrChunk_def Let_def addChunk_sized split: if_splits\<close>)
qed

lemma recvEkChunk_storable:
  assumes "uc_Ct1Sent uc" "decoder_sized mlkemEncapsulationKeySize dec"
  shows "encoder_sized mlkemCiphertext1Size enc \<Longrightarrow> Ct1Sampled_recvEkChunk P epoch c ack uc enc dec = (r, st') \<Longrightarrow>
      v1_storable st' \<and> (\<forall>st. r = Inr st \<longrightarrow> v1_storable st)"
    and "Ct1Acknowledged_recvEkChunk P epoch c uc dec = (r, st') \<Longrightarrow> v1_storable st' \<and> (\<forall>st. r = Inr st \<longrightarrow> v1_storable st)"
  using assms
  by (auto simp: Ct1Sampled_recvEkChunk_def Ct1Acknowledged_recvEkChunk_def Let_def addChunk_sized split: if_splits option.splits
      dest!: recvEk_storable [OF assms(1)]) (erule (1) enter_Ct2Sampled_storable)+

lemma recv_ct1_storable:
  shows "uc_HeaderSent uc \<Longrightarrow> KeysSampled_recvCt1Chunk c uc = Inr st \<Longrightarrow> v1_storable st"
    and "uc_EkSent ue \<Longrightarrow> encoder_sized mlkemEncapsulationKeySize enc \<Longrightarrow> decoder_sized mlkemCiphertext1Size dec \<Longrightarrow>
      HeaderSent_recvCt1Chunk epoch c ue enc dec = (r, st') \<Longrightarrow> v1_storable st' \<and> (\<forall>st. r = Inr st \<longrightarrow> v1_storable st)"
proof -
  have d: "decoder_sized mlkemCiphertext1Size d" if "newPolyDecoder mlkemCiphertext1Size = Inr d" for d
    using newPolyDecoder_sized [OF that] by (simp add: mlkem_sizes)
  show "v1_storable st" if "uc_HeaderSent uc" "KeysSampled_recvCt1Chunk c uc = Inr st"
    using that d by (auto simp: KeysSampled_recvCt1Chunk_def sendEk_def Let_def uc_HeaderSent_def uc_EkSent_def addChunk_sized
        dest!: newPolyEncoder_sized)
  show "v1_storable st' \<and> (\<forall>st. r = Inr st \<longrightarrow> v1_storable st)"
    if "uc_EkSent ue" "encoder_sized mlkemEncapsulationKeySize enc" "decoder_sized mlkemCiphertext1Size dec"
      "HeaderSent_recvCt1Chunk epoch c ue enc dec = (r, st')"
    using that decodedMessage_length [of "addChunk c dec" _ mlkemCiphertext1Size]
    by (auto simp: HeaderSent_recvCt1Chunk_def recvCt1_def Let_def uc_EkSent_def uc_EkSentCt1Received_def addChunk_sized
        split: if_splits option.splits)
qed

lemma recv_ct2_storable:
  assumes "uc_EkSentCt1Received uc"
  shows "Ct1Received_recvCt2Chunk c uc = Inr st \<Longrightarrow> v1_storable st"
    and "decoder_sized (mlkemCiphertext2Size + authenticatorMacSize) dec \<Longrightarrow> EkSentCt1Received_recvCt2Chunk P c uc dec = (r, st') \<Longrightarrow>
      v1_storable st' \<and> (\<forall>st key. r = Inr (st, key) \<longrightarrow> v1_storable st)"
proof -
  have d: "decoder_sized sz d" if "newPolyDecoder sz = Inr d" "sz < 2 ^ 32" for d sz
    by (rule newPolyDecoder_sized [OF that])
  show "v1_storable st" if "Ct1Received_recvCt2Chunk c uc = Inr st"
    using that d assms by (auto simp: Ct1Received_recvCt2Chunk_def addChunk_sized mlkem_sizes)
  show "v1_storable st' \<and> (\<forall>st key. r = Inr (st, key) \<longrightarrow> v1_storable st)"
    if "decoder_sized (mlkemCiphertext2Size + authenticatorMacSize) dec" "EkSentCt1Received_recvCt2Chunk P c uc dec = (r, st')"
    using that d assms
    by (auto simp: EkSentCt1Received_recvCt2Chunk_def Let_def addChunk_sized mlkem_sizes
        split: if_splits option.splits sum.splits prod.splits dest!: recvCt2_storable [OF assms])
qed

lemma recv_same_storable:
  assumes "v1_storable st" "recv_same P msg st = (r, st')"
  shows "v1_storable st' \<and> (\<forall>key next. r = Inr (key, next) \<longrightarrow> v1_storable next)"
proof (cases st)
  case (chunkedKeysSampled uc enc)
  then show ?thesis using assms recv_ct1_storable(1) by (auto simp: moved_def stay_def split: if_splits)
next
  case (chunkedHeaderSent uc enc dec)
  then show ?thesis
    using assms recv_ct1_storable(2) [of uc enc dec "vm_epoch msg" "the (mp_chunk (vm_payload msg))", OF _ _ _ surjective_pairing]
    by (auto simp: moved_def stay_def split: if_splits)
next
  case (chunkedCt1Received uc enc)
  then show ?thesis using assms recv_ct2_storable(1) by (auto simp: moved_def stay_def split: if_splits)
next
  case (chunkedEkSentCt1Received uc dec)
  then show ?thesis
    using assms recv_ct2_storable(2) [of uc dec P "the (mp_chunk (vm_payload msg))", OF _ _ surjective_pairing]
    by (auto simp: stay_def split_beta split: if_splits)
next
  case (chunkedNoHeaderReceived uc dec)
  then show ?thesis
    using assms recvHdrChunk_storable [of uc dec P "vm_epoch msg" "the (mp_chunk (vm_payload msg))", OF _ _ surjective_pairing]
    by (auto simp: moved_def stay_def split: if_splits)
next
  case (chunkedCt1Sampled uc enc dec)
  then show ?thesis
    using assms recvEkChunk_storable(1) [of uc dec enc P "vm_epoch msg" "the (mp_chunk (vm_payload msg))" _, OF _ _ _ surjective_pairing]
    by (auto simp: moved_def stay_def split: if_splits)
next
  case (chunkedEkReceivedCt1Sampled uc enc)
  then show ?thesis using assms enter_Ct2Sampled_storable [of uc P] by (auto simp: moved_def stay_def split: if_splits)
next
  case (chunkedCt1Acknowledged uc dec)
  then show ?thesis
    using assms recvEkChunk_storable(2) [of uc dec P "vm_epoch msg" "the (mp_chunk (vm_payload msg))", OF _ _ surjective_pairing]
    by (auto simp: moved_def stay_def split: if_splits)
qed (use assms in \<open>auto simp: stay_def\<close>)

lemma v1_recv_storable:
  assumes "v1_storable st" "v1_recv P msg st = (r, st')"
  shows "v1_storable st' \<and> (\<forall>key next. r = Inr (key, next) \<longrightarrow> v1_storable next)"
proof -
  have "recv_later msg st = (r, st') \<Longrightarrow> ?thesis"
    using assms(1) by (cases st) (auto simp: recv_later_def moved_def recvNextEpoch_def uc_Ct2Sent_def uc_KeysUnsampled_def split: if_splits)
  then show ?thesis
    using assms recv_same_storable [of st P msg r st'] by (auto simp: v1_recv_epochs stay_def split: if_splits)
qed

section \<open>The state\<close>

definition dir_wf :: "chainEpochDirection \<Rightarrow> bool" where
  "dir_wf d \<longleftrightarrow> length (cd_next d) \<le> 32 \<and> (\<forall>i k. fmlookup (cd_prev d) i = Some k \<longrightarrow> length k = 32)"

definition link_wf :: "chainEpoch \<Rightarrow> bool" where
  "link_wf l \<longleftrightarrow> dir_wf (ce_send l) \<and> dir_wf (ce_recv l)"

definition chain_wf :: "Chain \<Rightarrow> bool" where
  "chain_wf c \<longleftrightarrow> length (ch_nextRoot c) = 32 \<and> list_all link_wf (ch_links c)"

lemma nextKey_wf: "dir_wf d \<Longrightarrow> nextKey P d = (r, d') \<Longrightarrow> dir_wf d' \<and> cd_prev d' = cd_prev d \<and> (\<forall>i k. r = Inr (i, k) \<longrightarrow> length k = 32)"
  by (auto simp: dir_wf_def nextKey_def hkdfTo_bytes copy_into_def Let_def split: if_splits sum.splits)

lemma key_loop_wf: "dir_wf d \<Longrightarrow> key_loop P ooo at d = (r, d') \<Longrightarrow> dir_wf d'"
proof (induction P ooo at d rule: key_loop.induct)
  case (1 P ooo at d)
  show ?case
  proof (cases "cd_ctr d + 1 < at")
    case True
    obtain x d1 where n: "nextKey P d = (x, d1)" by (cases "nextKey P d")
    note wf = nextKey_wf [OF 1(2) n]
    show ?thesis
    proof (cases x)
      case (Inl e)
      then show ?thesis using 1(3) True n wf by (subst (asm) key_loop.simps) simp
    next
      case (Inr y)
      obtain idx key where y: "y = (idx, key)" by (cases y)
      let ?d = "if idx + ooo \<ge> at then d1\<lparr>cd_prev := keyHistory_add idx key (cd_prev d1)\<rparr> else d1"
      have "dir_wf ?d" using wf Inr y by (auto simp: dir_wf_def keyHistory_add_def split: if_splits)
      moreover have "key_loop P ooo at ?d = (r, d')"
        using 1(3) True n Inr y by (subst (asm) key_loop.simps) simp
      ultimately show ?thesis using 1(1) [OF True n [unfolded Inr y, symmetric] refl refl] by blast
    qed
  qed (use 1 in \<open>subst (asm) key_loop.simps, simp\<close>)
qed

lemma direction_key_wf:
  assumes "dir_wf d" "direction_key P at params d = (r, d')"
  shows "dir_wf d'"
proof -
  have prev: "dir_wf (e\<lparr>cd_prev := keyHistory_clear (cd_prev e)\<rparr>)" "dir_wf (e\<lparr>cd_prev := keyHistory_gc ctr ooo (cd_prev e)\<rparr>)"
    "dir_wf (e\<lparr>cd_prev := snd (keyHistory_get idx ctr ooo (cd_prev e))\<rparr>)" if "dir_wf e" for e ctr ooo idx
    using that by (auto simp: dir_wf_def keyHistory_clear_def keyHistory_gc_def keyHistory_get_def split: if_splits option.splits)
  let ?d = "if at > cd_ctr d + maxOOO params then d\<lparr>cd_prev := keyHistory_clear (cd_prev d)\<rparr> else d"
  have d: "dir_wf ?d" using assms(1) prev(1) by simp
  obtain x d1 where k: "key_loop P (maxOOO params) at ?d = (x, d1)" by (cases "key_loop P (maxOOO params) at ?d")
  have d1: "dir_wf d1" by (rule key_loop_wf [OF d k])
  let ?d2 = "d1\<lparr>cd_prev := keyHistory_gc (cd_ctr d1) (maxOOO params) (cd_prev d1)\<rparr>"
  obtain y d3 where n: "nextKey P ?d2 = (y, d3)" by (cases "nextKey P ?d2")
  have d3: "dir_wf d3" using nextKey_wf [OF prev(2) [OF d1] n] by simp
  consider "at < cd_ctr d" | "at = cd_ctr d" | "at > cd_ctr d" "at - cd_ctr d > maxJump params" | "at > cd_ctr d" "\<not> at - cd_ctr d > maxJump params"
    by fastforce
  then show ?thesis
  proof cases
    case 1
    then show ?thesis using assms(2) prev(3) [OF assms(1), of at "cd_ctr d" "maxOOO params"] by (auto simp: direction_key_def Let_def split: prod.splits)
  next
    case 4
    then have "direction_key P at params d = bindS (x, d1) (\<lambda>_ d. bindS (y, d3) (\<lambda>(_, key) d. (Inr key, d)))"
      using k n by (cases x) (auto simp: direction_key_def Let_def)
    then show ?thesis using assms(2) d1 d3 by (cases x; cases y) auto
  qed (use assms in \<open>auto simp: direction_key_def Let_def split: if_splits\<close>)
qed

lemma NewChain_wf: "NewChain P auth dir params = Inr c \<Longrightarrow> chain_wf c"
  by (auto simp: NewChain_def hkdfTo_bytes newLink_def chainSeedsForDirection_def newChainEpochDirection_def chain_wf_def
      link_wf_def dir_wf_def Let_def split_beta)

lemma AddEpoch_wf: "chain_wf c \<Longrightarrow> AddEpoch P epoch secret c = (r, c') \<Longrightarrow> chain_wf c'"
  by (auto simp: AddEpoch_def hkdfTo_bytes copy_into_def newLink_def chainSeedsForDirection_def newChainEpochDirection_def chain_wf_def
      link_wf_def dir_wf_def Let_def split: if_splits)

lemma list_all_update: "list_all Q xs \<Longrightarrow> (i < length xs \<Longrightarrow> Q x) \<Longrightarrow> list_all Q (xs[i := x])"
  by (cases "i < length xs") (auto simp: list_all_length nth_list_update)

lemma RecvKey_wf: 
  assumes "chain_wf c" "RecvKey P epoch idx c = (r, c')"
  shows "chain_wf c'"
proof (cases "link_index c epoch")
  case (Inr i)
  let ?l = "ch_links c ! i"
  obtain d' where d': "direction_key P idx (ch_params c) (ce_recv ?l) = (r, d')" "c' = c\<lparr>ch_links := (ch_links c)[i := ?l\<lparr>ce_recv := d'\<rparr>]\<rparr>"
    using assms(2) Inr by (auto simp: RecvKey_def Let_def split: prod.splits)
  have "link_wf (?l\<lparr>ce_recv := d'\<rparr>)" if "i < length (ch_links c)"
    using assms(1) that direction_key_wf [OF _ d'(1)] by (auto simp: chain_wf_def link_wf_def list_all_length)
  then show ?thesis using assms(1) by (simp add: d'(2) chain_wf_def list_all_update)
qed (use assms in \<open>simp add: RecvKey_def\<close>)

lemma SendKey_wf:
  assumes "chain_wf c" "SendKey P epoch c = (r, c')"
  shows "chain_wf c'"
proof -
  have send: "chain_wf (c1\<lparr>ch_links := (ch_links c1)[i := (ch_links c1 ! i)\<lparr>ce_send := snd (nextKey P (ce_send (ch_links c1 ! i)))\<rparr>]\<rparr>)"
    if "chain_wf c1" for c1 i
  proof -
    have "link_wf ((ch_links c1 ! i)\<lparr>ce_send := snd (nextKey P (ce_send (ch_links c1 ! i)))\<rparr>)" if "i < length (ch_links c1)"
      using that \<open>chain_wf c1\<close> nextKey_wf [OF _ surjective_pairing, of "ce_send (ch_links c1 ! i)" P]
      by (auto simp: chain_wf_def link_wf_def list_all_length)
    then show ?thesis using that by (simp add: chain_wf_def list_all_update)
  qed
  have trim: "chain_wf (c\<lparr>ch_sendEpoch := epoch, ch_links := map drop_send (take j (drop i (ch_links c))) @ drop j (drop i (ch_links c))\<rparr>)" for i j
    using assms(1) by (auto simp: chain_wf_def list_all_iff link_wf_def drop_send_def dir_wf_def dest!: in_set_takeD in_set_dropD)
  show ?thesis
  proof (cases "epoch < ch_sendEpoch c \<or> (\<exists>e. link_index c epoch = Inl e)")
    case False
    then obtain i where i: "link_index c epoch = Inr i" by (cases "link_index c epoch") auto
    show ?thesis
      using assms(2) False i send [OF assms(1), of i]
        send [OF trim [of "min i epochsToKeepPriorToSend" "i - epochsToKeepPriorToSend"], of "min i epochsToKeepPriorToSend"]
      by (cases "epoch = ch_sendEpoch c") (auto simp: SendKey_def Let_def split_beta)
  qed (use assms in \<open>auto simp: SendKey_def split: if_splits\<close>)
qed

definition negotiation_ok :: "versionNegotiation \<Rightarrow> bool" where
  "negotiation_ok vn \<longleftrightarrow> vn_minVersion vn \<le> VersionV1 \<and> vn_direction vn \<in> {DirectionA2B, DirectionB2A} \<and>
     vn_authKey vn \<noteq> [] \<and> length (vn_authKey vn) < 2 ^ 32"

text \<open>The well-formed states, and those of them whose chain is small enough for the length fields.\<close>

definition state_wf :: "PqState \<Rightarrow> bool" where
  "state_wf s \<longleftrightarrow> pred_option v1_storable (ps_v1 s) \<and> pred_option chain_wf (ps_chain s) \<and> pred_option negotiation_ok (ps_negotiation s)"

definition state_storable :: "PqState \<Rightarrow> bool" where
  "state_storable s \<longleftrightarrow> ps_version s = VersionV1 \<and> pred_option v1_storable (ps_v1 s) \<and>
     pred_option (\<lambda>c. chain_storable c \<and> length (serializeChain c) < 2 ^ 32) (ps_chain s) \<and>
     pred_option negotiation_ok (ps_negotiation s) \<and> (ps_v1 s = None \<longrightarrow> ps_negotiation s = None)"

lemma chain_storableI:
  assumes "chain_wf c" "length (serializeChain c) < 2 ^ 32"
  shows "chain_storable c"
proof -
  have hist: "length (concat (map enc_history es)) = 36 * length es" for es
    by (induction es) (simp_all add: enc_history_def)
  have dir: "length (cd_next d) + fm_size (cd_prev d) < length (appendChainDir d)" for d
    by (simp add: appendChainDir_def hist)
  have links: "length (appendChainDir (ce_send l) @ appendChainDir (ce_recv l)) \<le> length (serializeChain c)" if "l \<in> set (ch_links c)" for l
    using member_le_sum_list [of "length (appendChainDir (ce_send l) @ appendChainDir (ce_recv l))"
        "map (\<lambda>l. length (appendChainDir (ce_send l) @ appendChainDir (ce_recv l))) (ch_links c)"] that
    by (simp add: serializeChain_def length_concat o_def)
  have "length ls \<le> sum_list (map (\<lambda>l. length (appendChainDir (ce_send l) @ appendChainDir (ce_recv l))) ls)" for ls
    by (induction ls) (auto simp: appendChainDir_def)
  from this [of "ch_links c"] have n: "length (ch_links c) \<le> length (serializeChain c)"
    by (simp add: serializeChain_def length_concat o_def)
  have "link_storable l" if "l \<in> set (ch_links c)" for l
    using assms links [OF that] dir [of "ce_send l"] dir [of "ce_recv l"] that
    by (auto simp: chain_wf_def list_all_iff link_wf_def link_storable_def dir_wf_def dir_storable_def)
  then show ?thesis using assms n by (simp add: chain_storable_def chain_wf_def list_all_iff)
qed

lemma state_storableI:
  "state_wf s \<Longrightarrow> ps_version s = VersionV1 \<Longrightarrow> ps_v1 s \<noteq> None \<Longrightarrow> (\<And>c. ps_chain s = Some c \<Longrightarrow> length (serializeChain c) < 2 ^ 32) \<Longrightarrow>
     state_storable s"
  by (cases "ps_chain s") (auto simp: state_wf_def state_storable_def chain_storableI)

text \<open>Well-formedness from creation on, through every operation, also one that fails.\<close>

lemma NewState_wf:
  assumes "NewStateWithMinVersion P auth dir params minv = Inr s" "length auth < 2 ^ 32" "dir \<in> {DirectionA2B, DirectionB2A}"
  shows "state_wf s"
proof -
  have d: "decoder_sized (mlkemHeaderSize + authenticatorMacSize) dec" if "newPolyDecoder (mlkemHeaderSize + authenticatorMacSize) = Inr dec" for dec
    using newPolyDecoder_sized [OF that] by (simp add: mlkem_sizes)
  have v: "v1_storable v1" if "initV1StateForDirection P dir auth = Inr v1" for v1
    using that d newAuthenticator_ok [of P auth 1]
    by (auto simp: initV1StateForDirection_def initV1StateA_def initV1StateB_def newUnchunkedKeysUnsampled_def newUnchunkedNoHeaderReceived_def
        uc_KeysUnsampled_def uc_NoHeaderReceived_def split: if_splits)
  show ?thesis
    using assms v by (auto simp: NewStateWithMinVersion_def state_wf_def negotiation_ok_def split: if_splits)
qed

lemma add_epoch_wf: "chain_wf c \<Longrightarrow> add_epoch P key c = (r, c') \<Longrightarrow> chain_wf c'"
  by (auto simp: add_epoch_def split: option.splits dest: AddEpoch_wf)

lemma send_key_wf: "chain_wf c \<Longrightarrow> send_key P send c = (r, c') \<Longrightarrow> chain_wf c'"
  using add_epoch_wf [OF _ surjective_pairing, of c P "sn_key send"] SendKey_wf
  by (auto simp: send_key_def bindS_def split: prod.splits sum.splits if_splits)

lemma recv_key_wf: "chain_wf c \<Longrightarrow> recv_key P key epoch idx c = (r, c') \<Longrightarrow> chain_wf c'"
  using add_epoch_wf [OF _ surjective_pairing, of c P key] RecvKey_wf
  by (auto simp: recv_key_def bindS_def split: prod.splits sum.splits if_splits)

lemma chainForSend_wf: "state_wf s \<Longrightarrow> chainForSend P s = (r, s') \<Longrightarrow> state_wf s' \<and> (\<forall>c. r = Inr (Some c) \<longrightarrow> chain_wf c)"
  by (auto simp: chainForSend_def chainFromNegotiation_def state_wf_def split: option.splits if_splits sum.splits dest: NewChain_wf)

lemma chainForRecv_wf: "state_wf s \<Longrightarrow> chainForRecv P s = Inr c \<Longrightarrow> chain_wf c"
  by (auto simp: chainForRecv_def chainFromNegotiation_def state_wf_def split: option.splits if_splits dest: NewChain_wf)

lemma state_wf_upd:
  "state_wf s \<Longrightarrow> v1_storable v \<Longrightarrow> state_wf (s\<lparr>ps_v1 := Some v\<rparr>)" "state_wf s \<Longrightarrow> chain_wf c \<Longrightarrow> state_wf (s\<lparr>ps_chain := Some c\<rparr>)"
  "state_wf s \<Longrightarrow> state_wf (s\<lparr>ps_negotiation := None\<rparr>)" "state_wf (disable s)"
  by (simp_all add: state_wf_def disable_def)

lemma send_v1_wf:
  assumes "state_wf s" "v1_storable v1" "send_v1 P rand v1 s = (r, s')"
  shows "state_wf s'"
proof -
  obtain x v where x: "v1_send P rand v1 = (x, v)" by (cases "v1_send P rand v1")
  note v = v1_send_storable [OF assms(2) x]
  show ?thesis
  proof (cases x)
    case (Inr send)
    obtain y s1 where y: "chainForSend P (s\<lparr>ps_v1 := Some v\<rparr>) = (y, s1)" by (cases "chainForSend P (s\<lparr>ps_v1 := Some v\<rparr>)")
    have s1: "state_wf s1" "\<And>c. y = Inr (Some c) \<Longrightarrow> chain_wf c"
      using chainForSend_wf [OF state_wf_upd(1) y] assms(1) v by auto
    consider e where "y = Inl e" | "y = Inr None" | c where "y = Inr (Some c)" by (cases y; cases "projr y") auto
    then show ?thesis
    proof cases
      case (3 c)
      obtain z c' where z: "send_key P send c = (z, c')" by (cases "send_key P send c")
      have "chain_wf c'" by (rule send_key_wf [OF s1(2) [OF 3] z])
      then show ?thesis
        using assms(3) x y z Inr 3 s1(1) v by (cases z) (auto simp: send_v1_def state_wf_upd)
    qed (use assms(3) x y Inr s1(1) v in \<open>auto simp: send_v1_def state_wf_upd split: if_splits\<close>)
  qed (use assms x v in \<open>auto simp: send_v1_def state_wf_upd\<close>)
qed

lemma receive_v1_wf:
  assumes "state_wf s" "v1_storable v1" "receive_v1 P message v1 s = (r, s')"
  shows "state_wf s'"
proof (cases "deserializeV1Message message")
  case (Inr p)
  obtain msg idx where p: "p = (msg, idx)" by (cases p)
  obtain x v where x: "v1_recv P msg v1 = (x, v)" by (cases "v1_recv P msg v1")
  note v = v1_recv_storable [OF assms(2) x]
  show ?thesis
  proof (cases x)
    case Inr': (Inr q)
    obtain key nx where q: "q = (key, nx)" by (cases q)
    show ?thesis
    proof (cases "vm_epoch msg = 0 \<or> (\<exists>e. chainForRecv P (s\<lparr>ps_v1 := Some v\<rparr>) = Inl e)")
      case False
      then obtain c where c: "chainForRecv P (s\<lparr>ps_v1 := Some v\<rparr>) = Inr c" by (cases "chainForRecv P (s\<lparr>ps_v1 := Some v\<rparr>)") auto
      obtain z c' where z: "recv_key P key (vm_epoch msg) idx c = (z, c')" by (cases "recv_key P key (vm_epoch msg) idx c")
      have "chain_wf c'" using recv_key_wf [OF chainForRecv_wf [OF state_wf_upd(1) c] z] assms(1) v by simp
      then show ?thesis
        using assms(1,3) Inr p x Inr' q c z False v by (cases z) (auto simp: receive_v1_def state_wf_upd split: if_splits)
    qed (use assms(1,3) Inr p x Inr' q v in \<open>auto simp: receive_v1_def state_wf_upd split: if_splits\<close>)
  qed (use assms(1,3) Inr p x v in \<open>auto simp: receive_v1_def state_wf_upd\<close>)
qed (use assms in \<open>auto simp: receive_v1_def\<close>)

lemma receive_wf:
  assumes "state_wf s" "Pq_Receive P message (Some s) = (r, s')"
  shows "\<exists>t. s' = Some t \<and> state_wf t"
proof (cases "ps_v1 s")
  case None
  have "state_wf t" if "receiveLegacy P message s = (r, t)" for t
    using that assms(1) by (auto simp: receiveLegacy_def state_wf_def split: option.splits if_splits sum.splits prod.splits dest: RecvKey_wf)
  then show ?thesis using assms(2) None by (auto simp: Pq_Receive_def split: prod.splits)
next
  case (Some v1)
  then have "v1_storable v1" using assms(1) by (simp add: state_wf_def)
  then have "state_wf t" if "receive_live P message v1 s = (r, t)" for t
    using that assms(1) receive_v1_wf [OF assms(1), of v1 P message r t]
    by (auto simp: receive_live_def state_wf_upd split: option.splits if_splits)
  then show ?thesis using assms(2) Some by (auto simp: Pq_Receive_def split: prod.splits)
qed

lemma send_wf:
  assumes "state_wf s" "Pq_Send P rand (Some s) = (r, s')"
  shows "\<exists>t. s' = Some t \<and> state_wf t"
  using assms send_v1_wf [OF assms(1), of _ P rand]
  by (auto simp: Pq_Send_def state_wf_def split: if_splits prod.splits)

section \<open>The codec of the state\<close>

interpretation negotiation: item_codec enc_negotiation dec_negotiation negotiation_ok
proof
  fix vn r assume "negotiation_ok vn"
  then show "dec_negotiation (enc_negotiation vn @ r) = Inr (vn, r)"
    by (cases vn; cases "vn_chainParams vn") (auto simp: dec_negotiation_def enc_negotiation_def negotiation_ok_def Let_def)
qed

lemma state_flags_bits: "state_flags s AND 1 \<noteq> 0 \<longleftrightarrow> ps_negotiation s \<noteq> None" "state_flags s AND 2 \<noteq> 0 \<longleftrightarrow> ps_chain s \<noteq> None"
  by (simp_all add: state_flags_def)

lemma v1_length:
  assumes "v1_storable v"
  shows "length (serializeV1States v) < 2 ^ 32"
proof (cases v)
  case (chunkedKeysUnsampled uc)
  then show ?thesis using assms uc_KeysUnsampled_length [of uc] by (simp add: encoder_sized_def)
next
  case (chunkedKeysSampled uc enc)
  then show ?thesis using assms uc_HeaderSent_length [of uc] encoder_length [of enc] by (simp add: encoder_sized_def)
next
  case (chunkedHeaderSent uc enc dec)
  then show ?thesis using assms uc_EkSent_length [of uc] encoder_length [of enc] decoder_length [of dec] by (simp add: encoder_sized_def)
next
  case (chunkedCt1Received uc enc)
  then show ?thesis using assms uc_EkSentCt1Received_length [of uc] encoder_length [of enc] by (simp add: encoder_sized_def)
next
  case (chunkedEkSentCt1Received uc dec)
  then show ?thesis using assms uc_EkSentCt1Received_length [of uc] decoder_length [of dec] by (simp add: encoder_sized_def)
next
  case (chunkedNoHeaderReceived uc dec)
  then show ?thesis using assms uc_NoHeaderReceived_length [of uc] decoder_length [of dec] by (simp add: encoder_sized_def)
next
  case (chunkedHeaderReceived uc dec)
  then show ?thesis using assms uc_HeaderReceived_length [of uc] decoder_length [of dec] by (simp add: encoder_sized_def)
next
  case (chunkedCt1Sampled uc enc dec)
  then show ?thesis using assms uc_Ct1Sent_length [of uc] encoder_length [of enc] decoder_length [of dec] by (simp add: encoder_sized_def)
next
  case (chunkedEkReceivedCt1Sampled uc enc)
  then show ?thesis using assms uc_Ct1SentEkReceived_length [of uc] encoder_length [of enc] by (simp add: encoder_sized_def)
next
  case (chunkedCt1Acknowledged uc dec)
  then show ?thesis using assms uc_Ct1Sent_length [of uc] decoder_length [of dec] by (simp add: encoder_sized_def)
next
  case (chunkedCt2Sampled uc enc)
  then show ?thesis using assms uc_Ct2Sent_length [of uc] encoder_length [of enc] by (simp add: encoder_sized_def)
qed

lemma state_roundtrip:
  assumes "state_storable s"
  shows "DeserializePqState (Pq_Serialize (Some s)) = Inr (Some s)"
proof (cases "ps_v1 s")
  case None
  then show ?thesis
    using assms
    by (cases s; cases "ps_chain s")
      (auto simp: state_storable_def Pq_Serialize_def serializeLegacyState_def DeserializePqState_def dec_state_v1_def stateSerializeVersionV1_def
        VersionV1_def VersionDisabled_def serializeChain_opt_def deserializeChain_roundtrip at_end_def appendBytes_def [symmetric] Let_def
        deserializeChain_def [of "[]"])
next
  case (Some v)
  then have v: "v1_storable v" using assms by (simp add: state_storable_def)
  show ?thesis
    using assms Some v v1_length [OF v] state_flags_bits [of s] negotiation.dec_enc
    by (cases s; cases "ps_chain s"; cases "ps_negotiation s")
      (auto simp: state_storable_def Pq_Serialize_def DeserializePqState_def dec_state_v2_def stateSerializeVersionV1_def stateSerializeVersionV2_def
        VersionV1_def VersionDisabled_def deserializeChain_roundtrip deserializeV1States_roundtrip at_end_def Let_def)
qed

text \<open>The stored form of a decoded chain is not longer than what it was decoded from.\<close>

lemma read_many_measure:
  assumes "\<And>bs x r. item bs = Inr (x, r) \<Longrightarrow> f x + length r \<le> length bs"
  shows "read_many n item bs = Inr (xs, r) \<Longrightarrow> sum_list (map f xs) + length r \<le> length bs"
proof (induction n arbitrary: bs xs)
  case (Suc n)
  then obtain x bs1 ys where x: "item bs = Inr (x, bs1)" "read_many n item bs1 = Inr (ys, r)" "xs = x # ys" by auto
  with Suc.IH [OF x(2)] assms [OF x(1)] show ?case by simp
qed simp

lemma hist_length: "length (concat (map enc_history es)) = 36 * length es"
  by (induction es) (simp_all add: enc_history_def)

lemma consumeChainDir_length:
  assumes "consumeChainDir bs = Inr (d, r)"
  shows "length (appendChainDir d) + length r \<le> length bs"
proof -
  define n where "n = unat (get_u32 (drop 4 bs))"
  define bs1 where "bs1 = drop n (drop 8 bs)"
  obtain keys where k: "read_many (unat (get_u32 bs1)) dec_history (drop 4 bs1) = Inr (keys, r)" "8 \<le> length bs" "n \<le> length bs - 8" "4 \<le> length bs1"
    "d = \<lparr>cd_ctr = get_u32 bs, cd_next = take n (drop 8 bs), cd_prev = fm_insert_all keys fmempty\<rparr>"
    using assms by (auto simp: consumeChainDir_def Let_def n_def bs1_def split: if_splits)
  have "sum_list (map (\<lambda>_. 36) keys) + length r \<le> length (drop 4 bs1)"
    by (rule read_many_measure [OF _ k(1)]) (auto simp: dec_history_def split: if_splits)
  then have "36 * length keys + length r \<le> length bs - 8 - n - 4" by (simp add: sum_list_triv bs1_def)
  moreover have "fm_size (fm_insert_all keys fmempty) \<le> length keys" using fm_size_insert_all [of keys fmempty] by simp
  ultimately show ?thesis
    using k(2-4) by (simp add: k(5) appendChainDir_def hist_length bs1_def)
qed

lemma deserializeChain_length:
  assumes "deserializeChain data = Inr (Some c)"
  shows "length (serializeChain c) \<le> length data"
proof -
  obtain n where n: "read_many n dec_link (drop 62 data) = Inr (ch_links c, [])" "62 \<le> length data"
    using assms by (auto simp: deserializeChain_def Let_def split: if_splits)
  have "sum_list (map (\<lambda>l. length (appendChainDir (ce_send l)) + length (appendChainDir (ce_recv l))) (ch_links c)) + length ([] :: bytes) \<le> length (drop 62 data)"
    by (rule read_many_measure [OF _ n(1)]) (auto simp: dec_link_def dest!: consumeChainDir_length)
  then show ?thesis using n(2) by (simp add: serializeChain_def length_concat o_def)
qed

lemma chain_decoded:
  assumes "readBytes bs = Inr (data, r)" "deserializeChain data = Inr c"
  shows "pred_option (\<lambda>c. chain_storable c \<and> length (serializeChain c) < 2 ^ 32) c"
  using assms readBytes_sound [OF assms(1)] deserializeChain_length [of data] deserializeChain_storable [of data]
  by (cases c) (auto intro: le_less_trans)

lemma dec_negotiation_ok: "dec_negotiation bs = Inr (vn, r) \<Longrightarrow> negotiation_ok vn"
  by (auto simp: dec_negotiation_def negotiation_ok_def Let_def split: if_splits dest!: readBytes_sound)

lemma state_decoded:
  assumes "DeserializePqState data = Inr (Some s)"
  shows "state_storable s"
  using assms
  by (cases data)
    (auto simp: DeserializePqState_def dec_state_v1_def dec_state_v2_def at_end_def state_storable_def Let_def split: if_splits
      dest: chain_decoded dest: deserializeV1States_storable dec_negotiation_ok)

lemma clone_state:
  assumes "state_storable s"
  shows "Pq_Clone (Some s) = Some s"
  using assms
  by (cases s; cases "ps_v1 s"; cases "ps_chain s"; cases "ps_negotiation s")
    (auto simp: state_storable_def Pq_Clone_def clone_v1_def clone_chain_def cloneNegotiation_def deserializeV1States_roundtrip
      deserializeChain_roundtrip)

section \<open>Every state that a run reaches\<close>

text \<open>
  The states that a party reaches from a new state by sending and receiving, whatever it receives and
  whether or not the calls succeed.
\<close>

inductive pq_run :: "'z pq_prims_scheme \<Rightarrow> Version \<Rightarrow> PqState \<Rightarrow> bool" for P minv where
  new: "NewStateWithMinVersion P auth dir params minv = Inr s \<Longrightarrow> length auth < 2 ^ 32 \<Longrightarrow>
     dir \<in> {DirectionA2B, DirectionB2A} \<Longrightarrow> pq_run P minv s"
| send: "pq_run P minv s \<Longrightarrow> Pq_Send P rand (Some s) = (r, Some s') \<Longrightarrow> pq_run P minv s'"
| receive: "pq_run P minv s \<Longrightarrow> Pq_Receive P message (Some s) = (q, Some s') \<Longrightarrow> pq_run P minv s'"

definition pq_live :: "Version \<Rightarrow> PqState \<Rightarrow> bool" where
  "pq_live minv s \<longleftrightarrow> ps_version s = VersionV1 \<and> ps_v1 s \<noteq> None \<and> (\<forall>vn. ps_negotiation s = Some vn \<longrightarrow> vn_minVersion vn = minv)"

definition pq_disabled :: PqState where
  "pq_disabled = \<lparr>ps_version = VersionDisabled, ps_v1 = None, ps_chain = None, ps_negotiation = None\<rparr>"

lemma send_v1_live: "send_v1 P rand v1 s = (r, s') \<Longrightarrow> pq_live minv s \<Longrightarrow> pq_live minv s'"
  by (auto simp: send_v1_def chainForSend_def bindS_def Let_def pq_live_def split: prod.splits sum.splits option.splits if_splits)

lemma receive_v1_live: "receive_v1 P message v1 s = (r, s') \<Longrightarrow> pq_live minv s \<Longrightarrow> pq_live minv s'"
  by (auto simp: receive_v1_def bindS_def Let_def pq_live_def split: prod.splits sum.splits if_splits)

lemma receive_live_live:
  assumes "receive_live P message v1 s = (r, s')" "pq_live minv s"
  shows "pq_live minv s' \<or> s' = pq_disabled \<and> minv = VersionDisabled"
proof -
  have "s' = pq_disabled" if "s' = disable s" using that by (simp add: disable_def pq_disabled_def)
  moreover have "minv = VersionDisabled" if "\<not> VersionDisabled < minv" using that by (simp add: VersionDisabled_def word_gt_0)
  ultimately show ?thesis
    using assms receive_v1_live [of P message v1 s r s' minv]
    by (auto simp: receive_live_def pq_live_def split: option.splits if_splits)
qed

lemma pq_disabled_stays:
  "Pq_Send P rand (Some pq_disabled) = (r, Some s') \<Longrightarrow> s' = pq_disabled"
  "Pq_Receive P message (Some pq_disabled) = (q, Some s') \<Longrightarrow> s' = pq_disabled"
  by (auto simp: Pq_Send_def Pq_Receive_def receiveLegacy_def pq_disabled_def)

text \<open>
  A state that has been switched off cannot receive: \<open>Receive\<close> looks for the key agreement before it
  looks at the version.
\<close>

lemma pq_disabled_receive:
  "Pq_Receive P message (Some pq_disabled) = (Inl ErrSpqrChainNotAvailable, Some pq_disabled)"
  by (simp add: Pq_Receive_def receiveLegacy_def pq_disabled_def)

lemma pq_run_inv:
  "pq_run P minv s \<Longrightarrow> state_wf s \<and> (pq_live minv s \<or> s = pq_disabled \<and> minv = VersionDisabled)"
proof (induction rule: pq_run.induct)
  case (new auth dir params s)
  then show ?case using NewState_wf [OF new] by (auto simp: NewStateWithMinVersion_def pq_live_def split: if_splits)
next
  case (send s rand r s')
  then have "state_wf s'" using send_wf [OF _ send.hyps(2)] by blast
  moreover have "pq_live minv s'" if "pq_live minv s"
    using send.hyps(2) that send_v1_live [of P rand _ s r s' minv] by (auto simp: Pq_Send_def split: if_splits prod.splits)
  ultimately show ?case using send pq_disabled_stays(1) by blast
next
  case (receive s message q s')
  then have "state_wf s'" using receive_wf [OF _ receive.hyps(2)] by blast
  moreover have "pq_live minv s' \<or> s' = pq_disabled \<and> minv = VersionDisabled" if l: "pq_live minv s"
  proof -
    obtain v1 where "ps_v1 s = Some v1" using l by (auto simp: pq_live_def)
    then have "receive_live P message v1 s = (q, s')" using receive.hyps(2) by (auto simp: Pq_Receive_def split: prod.splits)
    then show ?thesis using l by (rule receive_live_live)
  qed
  ultimately show ?case using receive pq_disabled_stays(2) by blast
qed

text \<open>
  C35: the stored form of the post-quantum state.  Take any state that a party reaches from a new
  state by sends and receives, failing ones included, and whose chain fits the 32-bit length field
  of its encoding.  Either it is a state of version 1, and decoding its encoding and cloning it both
  give exactly that state; or the party accepted the disabled version and has been switched off by a
  peer, its encoding is empty, and decoding that gives no state.  Whatever a byte string decodes to is
  likewise restored exactly when it is stored and read again.
\<close>

theorem pq_state_storage:
  assumes "pq_run P minv s" "\<And>c. ps_chain s = Some c \<Longrightarrow> length (serializeChain c) < 2 ^ 32"
  shows "(ps_version s = VersionV1 \<and> DeserializePqState (Pq_Serialize (Some s)) = Inr (Some s) \<and> Pq_Clone (Some s) = Some s \<or>
      minv = VersionDisabled \<and> ps_version s = VersionDisabled \<and> Pq_Serialize (Some s) = [] \<and>
        DeserializePqState (Pq_Serialize (Some s)) = Inr None) \<and>
     (\<forall>data t. DeserializePqState data = Inr (Some t) \<longrightarrow>
        DeserializePqState (Pq_Serialize (Some t)) = Inr (Some t) \<and> Pq_Clone (Some t) = Some t)"
proof -
  have "state_storable s" if "pq_live minv s"
    using that pq_run_inv [OF assms(1)] assms(2) by (intro state_storableI) (auto simp: pq_live_def)
  moreover have "Pq_Serialize (Some pq_disabled) = []" "DeserializePqState [] = Inr None"
    by (simp_all add: Pq_Serialize_def pq_disabled_def DeserializePqState_def)
  ultimately show ?thesis
    using pq_run_inv [OF assms(1)] state_roundtrip clone_state state_decoded by (auto simp: pq_live_def pq_disabled_def)
qed

text \<open>
  Two states of the concrete instance: one that has sent a message, and one that has been switched
  off by an empty message.
\<close>

theorem pq_state_storage_witness:
  "\<exists>s m k s'. NewStateWithMinVersion pq_toy [1] DirectionA2B \<lparr>cp_MaxJump = 0, cp_MaxOOO = 0\<rparr> VersionDisabled = Inr s \<and>
     Pq_Send pq_toy (Inr []) (Some s) = (Inr (m, k), Some s') \<and> DeserializePqState (Pq_Serialize (Some s')) = Inr (Some s') \<and>
     Pq_Receive pq_toy [] (Some s) = (Inr [], Some pq_disabled) \<and> DeserializePqState (Pq_Serialize (Some pq_disabled)) = Inr None"
proof -
  let ?p = "\<lparr>cp_MaxJump = 0, cp_MaxOOO = 0\<rparr>"
  obtain A B where "initV1StateA pq_toy [1] = Inr A" "initV1StateB pq_toy [1] = Inr B" using pair_init [of "[1]" pq_toy] by auto
  then obtain a b where ab: "NewStateWithMinVersion pq_toy [1] DirectionA2B ?p VersionDisabled = Inr a"
    "NewStateWithMinVersion pq_toy [1] DirectionB2A ?p VersionDisabled = Inr b"
    by (simp add: NewStateWithMinVersion_def initV1StateForDirection_def DirectionA2B_def DirectionB2A_def VersionDisabled_def VersionV1_def)
  have len: "Suc (length ([] :: sent) + length ([] :: sent)) + unat (maxOOO ?p) < 2 ^ 32"
    by (simp add: maxOOO_def chainDefaultMaxOOO_def)
  obtain m k a' where s: "Pq_Send pq_toy (Inr []) (Some a) = (Inr (m, k), Some a')"
    using agreed_send(1) [OF agreed_start [OF ab] pq_toy_ok len, of "[]"] by blast
  have a: "ps_version a = VersionV1" "ps_v1 a \<noteq> None" "ps_chain a = None" "\<exists>vn. ps_negotiation a = Some vn \<and> vn_minVersion vn = VersionDisabled"
    using ab(1) by (auto simp: NewStateWithMinVersion_def split: if_splits)
  then have a': "ps_version a' = VersionV1" "ps_chain a' = None"
    using s by (auto simp: Pq_Send_def send_v1_def chainForSend_def VersionV1_def VersionDisabled_def split: if_splits prod.splits sum.splits)
  have off: "Pq_Receive pq_toy [] (Some a) = (Inr [], Some pq_disabled)"
    using a by (auto simp: Pq_Receive_def receive_live_def msgVersion_def disable_def pq_disabled_def VersionV1_def VersionDisabled_def)
  have r: "pq_run pq_toy VersionDisabled a" using ab(1) by (rule pq_run.new) simp_all
  have "DeserializePqState (Pq_Serialize (Some a')) = Inr (Some a')"
    using pq_state_storage [OF pq_run.send [OF r s]] a' by (auto simp: VersionV1_def VersionDisabled_def)
  moreover have "DeserializePqState (Pq_Serialize (Some pq_disabled)) = Inr None"
    using pq_state_storage [OF pq_run.receive [OF r off]] by (auto simp: pq_disabled_def VersionV1_def VersionDisabled_def)
  ultimately show ?thesis using ab(1) s off by blast
qed

end
