(* ===== verification/Session.thy ===== *)
theory Session
  imports Ratchet_Init Ratchet_Serialize SPQR_State_Format Wire
begin

text \<open>
  Sessions and session records (\<^verbatim>\<open>session/session.go\<close>, \<^verbatim>\<open>version.go\<close>, \<^verbatim>\<open>pqr.go\<close>, \<^verbatim>\<open>record.go\<close>): a ratchet state with
  the post-quantum state and the identities of both sides, the record of the current session and the
  archived ones, and the format in which a record is stored.  A \<^verbatim>\<open>nil\<close> pointer is \<open>None\<close>.
\<close>

section \<open>Sessions (session.go)\<close>

definition CurrentVersion :: u8 where
  "CurrentVersion = 1"

record Session =
  se_ratchetState :: "State option"
  se_pqrState :: "PqState option"
  se_localIdentity :: "IdentityKey option"
  se_remoteIdentity :: "IdentityKey option"
  se_associatedData :: bytes
  se_previousStates :: "State option list"
  se_version :: u8

definition NewSession :: "State option \<Rightarrow> IdentityKey option \<Rightarrow> IdentityKey option \<Rightarrow> bytes \<Rightarrow> Session res" where
  "NewSession state localIdentity remoteIdentity associatedData =
     (case state of
        None \<Rightarrow> Inl (ErrText ''session: ratchet state required'')
      | Some state \<Rightarrow>
          if localIdentity = None \<or> remoteIdentity = None then Inl (ErrText ''session: identity keys required'')
          else Inr \<lparr>se_ratchetState = Some (Clone state), se_pqrState = None, se_localIdentity = localIdentity,
                    se_remoteIdentity = remoteIdentity, se_associatedData = associatedData,
                    se_previousStates = [], se_version = CurrentVersion\<rparr>)"

definition Session_Version :: "Session option \<Rightarrow> u8" where
  "Session_Version s = (case s of None \<Rightarrow> 0 | Some s \<Rightarrow> se_version s)"

definition Session_AssociatedData :: "Session option \<Rightarrow> bytes" where
  "Session_AssociatedData s = (case s of None \<Rightarrow> [] | Some s \<Rightarrow> se_associatedData s)"

definition CurrentState :: "Session option \<Rightarrow> State option" where
  "CurrentState s = (case s of None \<Rightarrow> None | Some s \<Rightarrow> se_ratchetState s)"

definition ArchiveState :: "State option \<Rightarrow> int \<Rightarrow> Session option \<Rightarrow> unit res \<times> Session option" where
  "ArchiveState newState maxPrevious s =
     (case s of
        None \<Rightarrow> (Inl (ErrText ''session: nil session''), s)
      | Some s \<Rightarrow>
     (case newState of
        None \<Rightarrow> (Inl (ErrText ''session: new state required''), Some s)
      | Some newState \<Rightarrow>
          let previousStates =
                (case se_ratchetState s of
                   None \<Rightarrow> se_previousStates s
                 | Some st \<Rightarrow> Some (Clone st) # se_previousStates s);
              previousStates =
                (if maxPrevious > 0 \<and> int (length previousStates) > maxPrevious
                 then take (nat maxPrevious) previousStates else previousStates)
          in (Inr (), Some (s\<lparr>se_previousStates := previousStates, se_ratchetState := Some (Clone newState),
                              se_version := CurrentVersion\<rparr>))))"

definition PreviousStates :: "Session option \<Rightarrow> State option list" where
  "PreviousStates s = (case s of None \<Rightarrow> [] | Some s \<Rightarrow> se_previousStates s)"

definition cloneStateSlice :: "State option list \<Rightarrow> State option list" where
  "cloneStateSlice states = map (map_option Clone) (filter (\<lambda>st. st \<noteq> None) states)"

definition Session_clone :: "Session \<Rightarrow> Session" where
  "Session_clone s =
     \<lparr>se_ratchetState = map_option Clone (se_ratchetState s), se_pqrState = Pq_Clone (se_pqrState s),
      se_localIdentity = se_localIdentity s, se_remoteIdentity = se_remoteIdentity s,
      se_associatedData = se_associatedData s, se_previousStates = cloneStateSlice (se_previousStates s),
      se_version = se_version s\<rparr>"

section \<open>Ciphertext versions (version.go)\<close>

definition normalizeCiphertextVersion :: "u8 \<Rightarrow> u8 option" where
  "normalizeCiphertextVersion version =
     (if version \<ge> CiphertextMessagePreKyberVersion \<and> version \<le> CiphertextMessageCurrentVersion
      then Some version else None)"

definition setSessionCiphertextVersion :: "u8 \<Rightarrow> Session \<Rightarrow> Session" where
  "setSessionCiphertextVersion version session =
     (case normalizeCiphertextVersion version of None \<Rightarrow> session | Some v \<Rightarrow> session\<lparr>se_version := v\<rparr>)"

definition ciphertextVersionForSession :: "Session option \<Rightarrow> u8" where
  "ciphertextVersionForSession session =
     (case session of
        None \<Rightarrow> CiphertextMessageCurrentVersion
      | Some session \<Rightarrow>
          (case normalizeCiphertextVersion (se_version session) of
             Some v \<Rightarrow> v
           | None \<Rightarrow> CiphertextMessageCurrentVersion))"

definition ciphertextVersionFromX3DH :: "X3Message option \<Rightarrow> u8" where
  "ciphertextVersionFromX3DH msg =
     (case msg of
        None \<Rightarrow> CiphertextMessagePreKyberVersion
      | Some msg \<Rightarrow>
          if x3m_KyberPreKeyID msg \<noteq> None \<or> length (x3m_KyberCiphertext msg) > 0
          then CiphertextMessageCurrentVersion else CiphertextMessagePreKyberVersion)"

section \<open>The post-quantum part (pqr.go)\<close>

definition initSessionPQR :: "'z prims_scheme \<Rightarrow> X3Result \<Rightarrow> bool \<Rightarrow> Session \<Rightarrow> Session res" where
  "initSessionPQR P result isInitiator session =
     (case x3r_PQRKey result of
        None \<Rightarrow> Inr session
      | Some key \<Rightarrow>
          let dir = (if isInitiator then DirectionA2B else DirectionB2A) in
          bindR (NewPqState P key dir \<lparr>cp_MaxJump = 0, cp_MaxOOO = 0\<rparr>) (\<lambda>state.
          Inr (session\<lparr>se_pqrState := Some state\<rparr>)))"

section \<open>Records (record.go)\<close>

definition DefaultMaxArchivedSessions :: int where
  "DefaultMaxArchivedSessions = 5"

record Record =
  rec_current :: "Session option"
  rec_archived :: "Session option list"
  rec_maxArchived :: int

definition NewRecord :: "Session option \<Rightarrow> int \<Rightarrow> Record res" where
  "NewRecord current maxArchived =
     (case current of
        None \<Rightarrow> Inl (ErrText ''record: current session required'')
      | Some current \<Rightarrow>
          Inr \<lparr>rec_current = Some (Session_clone current), rec_archived = [],
               rec_maxArchived = (if maxArchived \<le> 0 then DefaultMaxArchivedSessions else maxArchived)\<rparr>)"

definition Current :: "Record option \<Rightarrow> Session option" where
  "Current r = (case r of None \<Rightarrow> None | Some r \<Rightarrow> rec_current r)"

definition Previous :: "Record option \<Rightarrow> Session option list" where
  "Previous r = (case r of None \<Rightarrow> [] | Some r \<Rightarrow> rec_archived r)"

definition MaxArchived :: "Record option \<Rightarrow> int" where
  "MaxArchived r = (case r of None \<Rightarrow> 0 | Some r \<Rightarrow> rec_maxArchived r)"

text \<open>
  \<open>Promote\<close> compares pointers: the archived entry that is the session to promote is taken out.  \<open>ptr\<close>
  says which one that is, \<open>None\<close> for a session that is not in the archive.  A negative bound makes the
  slice expression panic.
\<close>

definition Promote :: "nat option \<Rightarrow> Session option \<Rightarrow> Record \<Rightarrow> unit res \<times> Record" where
  "Promote ptr nxt r =
     (case nxt of
        None \<Rightarrow> (Inl (ErrText ''record: next session required''), r)
      | Some nxt \<Rightarrow>
          let r = (case ptr of
                     None \<Rightarrow> r
                   | Some i \<Rightarrow> r\<lparr>rec_archived := take i (rec_archived r) @ drop (Suc i) (rec_archived r)\<rparr>) in
          bindS (case rec_current r of
                   None \<Rightarrow> (Inr (), r)
                 | Some cur \<Rightarrow>
                     let archived = Some (Session_clone cur) # rec_archived r in
                     if int (length archived) > rec_maxArchived r
                     then if rec_maxArchived r < 0 then (Inl EPanic, r\<lparr>rec_archived := archived\<rparr>)
                          else (Inr (), r\<lparr>rec_archived := take (nat (rec_maxArchived r)) archived\<rparr>)
                     else (Inr (), r\<lparr>rec_archived := archived\<rparr>)) (\<lambda>_ r.
          (Inr (), r\<lparr>rec_current := Some (Session_clone nxt)\<rparr>)))"

section \<open>The stored format (record.go)\<close>

definition recordSerializeMagic :: bytes where
  "recordSerializeMagic = ascii ''SIGR''"

definition recordSerializeVersion :: byte where "recordSerializeVersion = 1"
definition recordMinSize :: nat where "recordMinSize = 4 + 1 + 2 + 4 + 2"
definition sessionSerializeVersion :: byte where "sessionSerializeVersion = 2"
definition sessionIdentitySize :: nat where "sessionIdentitySize = 1 + 32 + 32"

text \<open>A byte string behind its length, and the checks with which it is read.\<close>

definition put_sized :: "bytes \<Rightarrow> bytes" where
  "put_sized b = put_u32 (of_nat (length b)) @ b"

definition read_sized :: "bytes \<Rightarrow> (bytes \<times> bytes) res" where
  "read_sized bs =
     (if length bs < 4 then Inl ErrInvalidMessage
      else let n = unat (get_u32 bs); bs = drop 4 bs in
        if length bs < n then Inl ErrInvalidMessage else Inr (take n bs, drop n bs))"

definition enc_previous :: "State option \<Rightarrow> bytes" where
  "enc_previous st = (case st of None \<Rightarrow> put_u32 0 | Some st \<Rightarrow> put_sized (State_Serialize st))"

definition serializeSession :: "Session option \<Rightarrow> bytes res" where
  "serializeSession s =
     (case s of
        None \<Rightarrow> Inl ErrInvalidMessage
      | Some s \<Rightarrow>
     (case (se_ratchetState s, se_localIdentity s, se_remoteIdentity s) of
        (Some state, Some localID, Some remoteID) \<Rightarrow>
          let localBytes = IdentityKey_Serialize localID; remoteBytes = IdentityKey_Serialize remoteID in
          if length localBytes \<noteq> sessionIdentitySize \<or> length remoteBytes \<noteq> sessionIdentitySize
          then Inl ErrInvalidMessage
          else Inr ([sessionSerializeVersion, if se_version s = 0 then CurrentVersion else se_version s]
            @ localBytes @ remoteBytes @ put_sized (se_associatedData s)
            @ put_sized (Pq_Serialize (se_pqrState s)) @ put_sized (State_Serialize state)
            @ put_u32 (of_nat (length (se_previousStates s)))
            @ concat (map enc_previous (se_previousStates s)))
      | _ \<Rightarrow> Inl ErrInvalidMessage))"

definition dec_previous :: "bytes \<Rightarrow> (State option \<times> bytes) res" where
  "dec_previous bs =
     bindR (read_sized bs) (\<lambda>(sb, bs).
     if sb = [] then Inr (None, bs)
     else bindR (DeserializeState sb) (\<lambda>st. Inr (Some st, bs)))"

text \<open>The parts of a stored session behind the associated data.\<close>

definition dec_pqr :: "byte \<Rightarrow> bytes \<Rightarrow> (PqState option \<times> bytes) res" where
  "dec_pqr ver bs =
     (if ver = sessionSerializeVersion
      then bindR (read_sized bs) (\<lambda>(pqr, bs).
        if length pqr > 0 then bindR (DeserializePqState pqr) (\<lambda>st. Inr (st, bs)) else Inr (None, bs))
      else Inr (None, bs))"

definition dec_ratchet :: "bytes \<Rightarrow> (State \<times> bytes) res" where
  "dec_ratchet bs =
     bindR (read_sized bs) (\<lambda>(sb, bs).
     if length sb \<le> 0 then Inl ErrInvalidMessage
     else bindR (DeserializeState sb) (\<lambda>st. Inr (st, bs)))"

definition dec_previous_list :: "bytes \<Rightarrow> (State option list \<times> bytes) res" where
  "dec_previous_list bs =
     (if length bs < 4 then Inl ErrInvalidMessage
      else let prevCount = unat (get_u32 bs) in
        if prevCount > 1000 then Inl ErrInvalidMessage
        else read_many prevCount dec_previous (drop 4 bs))"

text \<open>The code turns an error of the identity key decoder into \<^verbatim>\<open>ErrInvalidMessage\<close>.\<close>

definition dec_identity_key :: "'z prims_scheme \<Rightarrow> bytes \<Rightarrow> IdentityKey res" where
  "dec_identity_key P bs = (case DeserializeIdentityKey P bs of Inl _ \<Rightarrow> Inl ErrInvalidMessage | Inr k \<Rightarrow> Inr k)"

definition deserializeSession :: "'z prims_scheme \<Rightarrow> bytes \<Rightarrow> Session res" where
  "deserializeSession P data =
     (if length data < 1 + 1 + sessionIdentitySize * 2 + 4 then Inl ErrInvalidMessage
      else let ver = data ! 0 in
        if ver \<noteq> 1 \<and> ver \<noteq> sessionSerializeVersion then Inl ErrInvalidMessage
        else
          let sessionVersion = (if data ! 1 = 0 then CurrentVersion else data ! 1) in
          bindR (dec_identity_key P (take sessionIdentitySize (drop 2 data))) (\<lambda>localID.
          bindR (dec_identity_key P (take sessionIdentitySize (drop (2 + sessionIdentitySize) data))) (\<lambda>remoteID.
          bindR (read_sized (drop (2 + 2 * sessionIdentitySize) data)) (\<lambda>(ad, bs).
          bindR (dec_pqr ver bs) (\<lambda>(pqrState, bs).
          bindR (dec_ratchet bs) (\<lambda>(st, bs).
          bindR (dec_previous_list bs) (\<lambda>(prev, bs).
          if bs \<noteq> [] then Inl ErrInvalidMessage
          else Inr \<lparr>se_ratchetState = Some st, se_pqrState = pqrState, se_localIdentity = Some localID,
                    se_remoteIdentity = Some remoteID, se_associatedData = ad, se_previousStates = prev,
                    se_version = sessionVersion\<rparr>)))))))"

fun enc_archived :: "Session option list \<Rightarrow> bytes res" where
  "enc_archived [] = Inr []"
| "enc_archived (s # ss) =
     bindR (serializeSession s) (\<lambda>sb.
     bindR (enc_archived ss) (\<lambda>rest. Inr (put_sized sb @ rest)))"

definition Record_Serialize :: "Record option \<Rightarrow> bytes res" where
  "Record_Serialize r =
     (case r of
        None \<Rightarrow> Inl ErrInvalidMessage
      | Some r \<Rightarrow>
          if rec_current r = None then Inl ErrInvalidMessage
          else
            let maxArchived = (if rec_maxArchived r \<le> 0 then DefaultMaxArchivedSessions else rec_maxArchived r) in
            bindR (serializeSession (rec_current r)) (\<lambda>currentBytes.
            let archived = (if int (length (rec_archived r)) > maxArchived
                            then take (nat maxArchived) (rec_archived r) else rec_archived r) in
            bindR (enc_archived archived) (\<lambda>archivedBytes.
            Inr (recordSerializeMagic @ [recordSerializeVersion] @ put_u16 (of_int maxArchived)
              @ put_sized currentBytes @ put_u16 (of_nat (length archived)) @ archivedBytes))))"

fun dec_archived :: "'z prims_scheme \<Rightarrow> nat \<Rightarrow> int \<Rightarrow> Session option list \<Rightarrow> bytes \<Rightarrow>
    (Session option list \<times> bytes) res" where
  "dec_archived P 0 maxArchived acc bs = Inr (acc, bs)"
| "dec_archived P (Suc n) maxArchived acc bs =
     bindR (read_sized bs) (\<lambda>(sb, bs).
     if length sb \<le> 0 then Inl ErrInvalidMessage
     else
       bindR (if int (length acc) < maxArchived
              then bindR (deserializeSession P sb) (\<lambda>sess. Inr (acc @ [Some sess])) else Inr acc) (\<lambda>acc.
       dec_archived P n maxArchived acc bs))"

text \<open>
  The number of archived sessions behind the current one is read without a check that its two bytes
  are there; the slice expression panics where the record ends, given that \<open>data\<close> has no spare capacity.
\<close>

definition DeserializeRecord :: "'z prims_scheme \<Rightarrow> bytes \<Rightarrow> Record res" where
  "DeserializeRecord P data =
     (if length data = 0 then Inl ErrInvalidMessage
      else if length data < recordMinSize \<or> take 4 data \<noteq> recordSerializeMagic then Inl ErrInvalidMessage
      else if data ! 4 \<noteq> recordSerializeVersion then Inl ErrInvalidMessage
      else if length data < 5 + 2 + 4 + 2 then Inl ErrInvalidMessage
      else
        let maxArchived = int (unat (get_u16 (drop 5 data)));
            maxArchived = (if maxArchived \<le> 0 then DefaultMaxArchivedSessions else maxArchived) in
        bindR (read_sized (drop 7 data)) (\<lambda>(cur, bs).
        if length cur \<le> 0 then Inl ErrInvalidMessage
        else
          bindR (deserializeSession P cur) (\<lambda>current.
          if length bs < 2 then Inl EPanic
          else
            bindR (dec_archived P (unat (get_u16 bs)) maxArchived [] (drop 2 bs)) (\<lambda>(archived, bs).
            if bs \<noteq> [] then Inl ErrInvalidMessage
            else Inr \<lparr>rec_current = Some current, rec_archived = archived, rec_maxArchived = maxArchived\<rparr>))))"

section \<open>Round trip of the format\<close>

lemma read_sized_put [simp]: "length b < 2 ^ 32 \<Longrightarrow> read_sized (put_sized b @ r) = Inr (b, r)"
  by (simp add: read_sized_def put_sized_def Let_def unat_of_nat)

lemma read_sized_end [simp]: "length b < 2 ^ 32 \<Longrightarrow> read_sized (put_sized b) = Inr (b, [])"
  using read_sized_put [of b "[]"] by simp

lemma length_put_sized [simp]: "length (put_sized b) = 4 + length b"
  by (simp add: put_sized_def)

lemma State_Serialize_nonempty [simp]: "State_Serialize st \<noteq> []"
  by (simp add: State_Serialize_def Let_def)

lemma Pq_Serialize_nonempty: "state_storable s \<Longrightarrow> Pq_Serialize (Some s) \<noteq> []"
  by (simp add: state_storable_def Pq_Serialize_def serializeLegacyState_def VersionV1_def VersionDisabled_def
      Let_def split: option.splits)

definition previous_ok :: "State option \<Rightarrow> bool" where
  "previous_ok st \<longleftrightarrow> pred_option (\<lambda>st. storable st \<and> length (State_Serialize st) < 2 ^ 32) st"

interpretation previous: item_codec enc_previous dec_previous previous_ok
proof unfold_locales
  fix st r assume "previous_ok st"
  then show "dec_previous (enc_previous st @ r) = Inr (st, r)"
    using read_sized_put [of "[]" r]
    by (cases st) (simp_all add: previous_ok_def dec_previous_def enc_previous_def storable_roundtrip
        put_sized_def [of "[]"])
qed

text \<open>A session that has all its parts, each of a shape that its own format can hold.\<close>

definition session_ok :: "'z prims_scheme \<Rightarrow> Session \<Rightarrow> bool" where
  "session_ok P s \<longleftrightarrow> (\<exists>st. se_ratchetState s = Some st \<and> storable st) \<and>
     (\<exists>k. se_localIdentity s = Some k \<and> ik_ok P k) \<and> (\<exists>k. se_remoteIdentity s = Some k \<and> ik_ok P k) \<and>
     pred_option state_storable (se_pqrState s) \<and> list_all (pred_option storable) (se_previousStates s) \<and>
     length (se_previousStates s) \<le> 1000 \<and> se_version s \<noteq> 0"

lemma serializeSession_ok: "session_ok P s \<Longrightarrow> \<exists>data. serializeSession (Some s) = Inr data"
  by (auto simp: session_ok_def serializeSession_def sessionIdentitySize_def)

lemma concat_part: "x \<in> set xs \<Longrightarrow> length (f x) \<le> length (concat (map f xs))"
  by (induction xs) auto

lemma previous_ok_all:
  assumes "list_all (pred_option storable) xs" "length (concat (map enc_previous xs)) < 2 ^ 32"
  shows "list_all previous_ok xs"
proof -
  have "previous_ok x" if "x \<in> set xs" for x
    using assms concat_part [OF that, of enc_previous] that
    by (cases x) (auto simp: previous_ok_def enc_previous_def list_all_iff)
  then show ?thesis by (simp add: list_all_iff)
qed

lemma dec_previous_list_roundtrip:
  assumes "list_all (pred_option storable) xs" "length xs \<le> 1000" "length (concat (map enc_previous xs)) < 2 ^ 32"
  shows "dec_previous_list (put_u32 (of_nat (length xs)) @ concat (map enc_previous xs)) = Inr (xs, [])"
  using previous.read_many_enc [OF previous_ok_all [OF assms(1,3)], of "[]"] assms(2)
  by (simp add: dec_previous_list_def unat_of_nat)

lemma dec_pqr_roundtrip:
  assumes "pred_option state_storable p" "length (Pq_Serialize p) < 2 ^ 32"
  shows "dec_pqr sessionSerializeVersion (put_sized (Pq_Serialize p) @ r) = Inr (p, r)"
  using assms by (cases p) (simp_all add: dec_pqr_def Pq_Serialize_nonempty state_roundtrip, simp add: Pq_Serialize_def)

lemma dec_ratchet_roundtrip:
  "storable st \<Longrightarrow> length (State_Serialize st) < 2 ^ 32 \<Longrightarrow> dec_ratchet (put_sized (State_Serialize st) @ r) = Inr (st, r)"
  by (simp add: dec_ratchet_def storable_roundtrip)

lemma session_roundtrip:
  assumes "session_ok P s" "serializeSession (Some s) = Inr data" "length data < 2 ^ 32"
  shows "deserializeSession P data = Inr s"
proof -
  obtain st l r where s: "se_ratchetState s = Some st" "storable st" "se_localIdentity s = Some l" "ik_ok P l"
    "se_remoteIdentity s = Some r" "ik_ok P r" using assms(1) by (auto simp: session_ok_def)
  define prev where "prev = put_u32 (of_nat (length (se_previousStates s))) @ concat (map enc_previous (se_previousStates s))"
  have d: "data = [sessionSerializeVersion, se_version s] @ IdentityKey_Serialize l @ IdentityKey_Serialize r
      @ put_sized (se_associatedData s) @ put_sized (Pq_Serialize (se_pqrState s)) @ put_sized (State_Serialize st) @ prev"
    using assms(1,2) s by (auto simp: serializeSession_def sessionIdentitySize_def session_ok_def prev_def)
  have p: "dec_previous_list prev = Inr (se_previousStates s, [])"
    unfolding prev_def
    by (rule dec_previous_list_roundtrip) (use assms(1,3) d in \<open>simp_all add: session_ok_def prev_def\<close>)
  have "length (se_associatedData s) < 2 ^ 32" "length (Pq_Serialize (se_pqrState s)) < 2 ^ 32"
    "length (State_Serialize st) < 2 ^ 32" using assms(3) d by simp_all
  then show ?thesis
    using assms(1) s p dec_pqr_roundtrip [of "se_pqrState s"] dec_ratchet_roundtrip [of st]
    by (simp add: d deserializeSession_def sessionIdentitySize_def dec_identity_key_def IdentityKey_roundtrip Let_def
        sessionSerializeVersion_def session_ok_def)
qed

text \<open>Whatever the decoder accepts is such a session.\<close>

lemma read_sized_Inr: "read_sized bs = Inr (b, r) \<Longrightarrow> bs = put_sized b @ r \<and> length b < 2 ^ 32"
proof -
  assume a: "read_sized bs = Inr (b, r)"
  then have b: "4 \<le> length bs" "b = take (unat (get_u32 bs)) (drop 4 bs)" "r = drop (unat (get_u32 bs)) (drop 4 bs)"
    "unat (get_u32 bs) \<le> length bs - 4"
    by (auto simp: read_sized_def Let_def split: if_splits)
  then have "length b = unat (get_u32 bs)" by simp
  then have "put_sized b @ r = take 4 bs @ drop 4 bs"
    using b put_get_u32 [OF b(1)] take_drop_glue [of "unat (get_u32 bs)" 4 bs] by (simp add: put_sized_def add.commute)
  then show ?thesis using \<open>length b = _\<close> unat_u32_less [of "get_u32 bs"] by simp
qed

lemma dec_previous_storable: "dec_previous bs = Inr (st, r) \<Longrightarrow> pred_option storable st"
  by (auto simp: dec_previous_def split: if_splits dest: DeserializeState_storable)

lemma dec_pqr_storable: "dec_pqr ver bs = Inr (p, r) \<Longrightarrow> pred_option state_storable p"
  by (cases p) (auto simp: dec_pqr_def split: if_splits dest: state_decoded)

lemma deserializeSession_ok:
  assumes "deserializeSession P data = Inr s"
  shows "session_ok P s"
proof -
  have "list_all (pred_option storable) prev \<and> length prev \<le> 1000" if "dec_previous_list bs = Inr (prev, r)" for bs prev r
  proof -
    have "read_many (unat (get_u32 bs)) dec_previous (drop 4 bs) = Inr (prev, r)" "unat (get_u32 bs) \<le> 1000"
      using that by (auto simp: dec_previous_list_def Let_def split: if_splits)
    then show ?thesis
      using read_many_all [of dec_previous "pred_option storable" "unat (get_u32 bs)" "drop 4 bs" prev r] dec_previous_storable
        read_many_length [of "unat (get_u32 bs)" dec_previous "drop 4 bs" prev r] by simp
  qed
  moreover have "ik_ok P k" if "dec_identity_key P bs = Inr k" for bs k
    using that DeserializeIdentityKey_sound by (auto simp: dec_identity_key_def split: sum.splits)
  moreover have "storable st" if "dec_ratchet bs = Inr (st, r)" for bs st r
    using that DeserializeState_storable by (auto simp: dec_ratchet_def split: if_splits)
  ultimately show ?thesis
    using assms dec_pqr_storable
    by (auto simp: deserializeSession_def Let_def session_ok_def CurrentVersion_def split: if_splits)
qed

section \<open>Records\<close>

definition record_ok :: "'z prims_scheme \<Rightarrow> Record \<Rightarrow> bool" where
  "record_ok P r \<longleftrightarrow> (\<exists>s. rec_current r = Some s \<and> session_ok P s) \<and>
     list_all (\<lambda>a. \<exists>s. a = Some s \<and> session_ok P s) (rec_archived r) \<and>
     int (length (rec_archived r)) \<le> rec_maxArchived r \<and> 0 < rec_maxArchived r \<and> rec_maxArchived r < 2 ^ 16"

lemma enc_archived_ok:
  "list_all (\<lambda>a. \<exists>s. a = Some s \<and> session_ok P s) ss \<Longrightarrow> \<exists>bs. enc_archived ss = Inr bs"
  using serializeSession_ok by (induction ss) fastforce+

lemma Record_Serialize_ok:
  assumes "record_ok P r"
  shows "\<exists>data. Record_Serialize (Some r) = Inr data"
proof -
  obtain s where s: "rec_current r = Some s" "session_ok P s" using assms by (auto simp: record_ok_def)
  obtain cur where "serializeSession (Some s) = Inr cur" using serializeSession_ok [OF s(2)] by blast
  moreover obtain bs where "enc_archived (rec_archived r) = Inr bs"
    using assms enc_archived_ok unfolding record_ok_def by blast
  ultimately show ?thesis using s assms by (simp add: Record_Serialize_def record_ok_def)
qed

lemma serializeSession_nonempty: "serializeSession s = Inr data \<Longrightarrow> data \<noteq> []"
  by (auto simp: serializeSession_def Let_def split: option.splits if_splits)

lemma dec_archived_roundtrip:
  assumes "list_all (\<lambda>a. \<exists>s. a = Some s \<and> session_ok P s) ss" "enc_archived ss = Inr bs" "length bs < 2 ^ 32"
    "int (length acc + length ss) \<le> n"
  shows "dec_archived P (length ss) n acc (bs @ r) = Inr (acc @ ss, r)"
  using assms
proof (induction ss arbitrary: acc bs)
  case (Cons a ss)
  then obtain s sb rest where s: "a = Some s" "session_ok P s" "serializeSession (Some s) = Inr sb"
    "enc_archived ss = Inr rest" "bs = put_sized sb @ rest" by auto
  have "deserializeSession P sb = Inr s"
    by (rule session_roundtrip [OF s(2,3)]) (use Cons.prems(3) s(5) in simp)
  moreover have "dec_archived P (length ss) n (acc @ [Some s]) (rest @ r) = Inr ((acc @ [Some s]) @ ss, r)"
    by (rule Cons.IH) (use Cons.prems s in auto)
  ultimately show ?case
    using Cons.prems(3,4) s serializeSession_nonempty [OF s(3)] by simp
qed simp

lemma record_roundtrip:
  assumes "record_ok P r" "Record_Serialize (Some r) = Inr data" "length data < 2 ^ 32"
  shows "DeserializeRecord P data = Inr r"
proof -
  have n: "int (length (rec_archived r)) \<le> rec_maxArchived r" "0 < rec_maxArchived r" "rec_maxArchived r < 2 ^ 16"
    using assms(1) by (simp_all add: record_ok_def)
  obtain s where cur: "rec_current r = Some s" "session_ok P s" using assms(1) by (auto simp: record_ok_def)
  then obtain cur bs where s: "rec_current r = Some s" "session_ok P s" "serializeSession (Some s) = Inr cur"
    "enc_archived (rec_archived r) = Inr bs"
    using assms(2) n by (auto simp: Record_Serialize_def Let_def)
  have d: "data = recordSerializeMagic @ [recordSerializeVersion] @ put_u16 (of_int (rec_maxArchived r))
      @ put_sized cur @ put_u16 (of_nat (length (rec_archived r))) @ bs"
    using assms(2) s n by (simp add: Record_Serialize_def)
  have u: "unat (of_int (rec_maxArchived r) :: u16) = nat (rec_maxArchived r)"
    "unat (of_nat (length (rec_archived r)) :: u16) = length (rec_archived r)"
    using n by (simp_all add: unat_of_nat unsigned_of_int take_bit_int_eq_self)
  have m: "length recordSerializeMagic = 4" by (simp add: recordSerializeMagic_def ascii_def)
  have "deserializeSession P cur = Inr s"
    by (rule session_roundtrip [OF s(2,3)]) (use assms(3) d in simp)
  moreover have "dec_archived P (length (rec_archived r)) (rec_maxArchived r) [] (bs @ []) = Inr ([] @ rec_archived r, [])"
    by (rule dec_archived_roundtrip) (use assms(1,3) s(4) d in \<open>simp_all add: record_ok_def\<close>)
  ultimately show ?thesis
    using serializeSession_nonempty [OF s(3)] assms(3) n(2) u m s(1)
    by (simp add: d DeserializeRecord_def recordMinSize_def nth_append)
qed

lemma dec_archived_ok:
  "dec_archived P k n acc bs = Inr (ss, r) \<Longrightarrow> list_all (\<lambda>a. \<exists>s. a = Some s \<and> session_ok P s) acc \<Longrightarrow> int (length acc) \<le> n \<Longrightarrow>
     list_all (\<lambda>a. \<exists>s. a = Some s \<and> session_ok P s) ss \<and> int (length ss) \<le> n"
proof (induction k arbitrary: acc bs)
  case (Suc k)
  obtain sb bs' where sb: "read_sized bs = Inr (sb, bs')" using Suc.prems(1) by auto
  obtain acc' where a: "dec_archived P k n acc' bs' = Inr (ss, r)"
    "acc' = acc \<or> (\<exists>s. session_ok P s \<and> acc' = acc @ [Some s] \<and> int (length acc) < n)"
    using Suc.prems(1) sb by (auto split: if_splits dest: deserializeSession_ok)
  show ?case by (rule Suc.IH [OF a(1)]) (use a(2) Suc.prems(2,3) in auto)
qed simp

lemma session_record_decoded:
  assumes "DeserializeRecord P data = Inr r"
  shows "record_ok P r"
proof -
  have pos: "0 < (if int m \<le> 0 then DefaultMaxArchivedSessions else int m)"
    "(if int m \<le> 0 then DefaultMaxArchivedSessions else int m) < 2 ^ 16" if "m < 65536" for m
    using that by (simp_all add: DefaultMaxArchivedSessions_def)
  define n where "n = (if int (unat (get_u16 (drop 5 data))) \<le> 0 then DefaultMaxArchivedSessions
    else int (unat (get_u16 (drop 5 data))))"
  have n: "0 < n" "n < 2 ^ 16" unfolding n_def by (rule pos [OF unat_u16_less])+
  obtain cur bs s where r: "read_sized (drop 7 data) = Inr (cur, bs)" "deserializeSession P cur = Inr s"
    using assms by (auto simp: DeserializeRecord_def Let_def split: if_splits)
  then have d: "dec_archived P (unat (get_u16 bs)) n [] (drop 2 bs) = Inr (rec_archived r, [])"
    "n = rec_maxArchived r" "rec_current r = Some s"
    using assms unfolding DeserializeRecord_def Let_def n_def [symmetric] by (auto split: if_splits)
  then show ?thesis using dec_archived_ok [OF d(1)] deserializeSession_ok [OF r(2)] n by (simp add: record_ok_def)
qed

section \<open>Properties\<close>

text \<open>
  A record that ends right behind its current session makes the decoder panic instead of returning an
  error.
\<close>

lemma DeserializeRecord_truncated:
  assumes "session_ok P s" "serializeSession (Some s) = Inr cur" "length cur < 2 ^ 32"
  shows "DeserializeRecord P (recordSerializeMagic @ [recordSerializeVersion] @ put_u16 n @ put_sized cur) = Inl EPanic"
proof -
  have "2 \<le> length cur"
    using assms(1,2) by (auto simp: serializeSession_def session_ok_def sessionIdentitySize_def)
  moreover have "length recordSerializeMagic = 4" by (simp add: recordSerializeMagic_def ascii_def)
  ultimately show ?thesis
    using session_roundtrip [OF assms] assms(3)
    by (auto simp: DeserializeRecord_def recordMinSize_def Let_def nth_append)
qed

text \<open>
  C37: every record of complete sessions is stored, and it is loaded back unchanged as long as
  its stored form is shorter than 4 GiB.  Whatever bytes are given, a record that the decoder
  accepts consists of complete sessions with valid identity keys and well-formed ratchet states, has
  no more archived sessions than its bound, and no session with more than 1000 previous states.
\<close>

theorem session_record_codec:
  "(record_ok P r \<longrightarrow> (\<exists>data. Record_Serialize (Some r) = Inr data \<and>
      (length data < 2 ^ 32 \<longrightarrow> DeserializeRecord P data = Inr r))) \<and>
   (DeserializeRecord P bytes = Inr r \<longrightarrow> record_ok P r)"
  using Record_Serialize_ok record_roundtrip session_record_decoded by blast

definition ex_session_identity :: IdentityKey where
  "ex_session_identity = \<lparr>ik_PublicKey = kp_PublicKey (ex_kp 3), ik_SigningPublic = zero32\<rparr>"

definition ex_session :: Session where
  "ex_session = \<lparr>se_ratchetState = Some ex_bob_cur, se_pqrState = None, se_localIdentity = Some ex_session_identity,
     se_remoteIdentity = Some ex_session_identity, se_associatedData = [1, 2], se_previousStates = [None, Some ex_bob_cur],
     se_version = 3\<rparr>"

definition ex_record :: Record where
  "ex_record = \<lparr>rec_current = Some ex_session, rec_archived = [Some ex_session], rec_maxArchived = 5\<rparr>"

lemma ex_record_ok: "record_ok toy ex_record"
proof -
  have "storable ex_bob_cur"
    by (simp add: storable_def state_ok_def ex_bob_cur_def ex_kp_def kp_ok_def fcard.rep_eq)
  moreover have "ik_ok toy ex_session_identity"
    by (simp add: ik_ok_def ex_session_identity_def ex_kp_def toy_def IsValidPublicKey_def zero32_def
        replicate_app_Cons_same numeral_eq_Suc)
  ultimately show ?thesis
    by (simp add: record_ok_def ex_record_def session_ok_def ex_session_def)
qed

theorem session_record_codec_witness:
  "\<exists>data. Record_Serialize (Some ex_record) = Inr data \<and> DeserializeRecord toy data = Inr ex_record"
proof -
  have "length (State_Serialize ex_bob_cur) < 1000"
    by (simp add: State_Serialize_def Let_def ex_bob_cur_def fm_entries_def sorted_list_of_fset.rep_eq)
  then have "length data < 2 ^ 32" if "Record_Serialize (Some ex_record) = Inr data" for data
    using that
    by (auto simp: Record_Serialize_def ex_record_def serializeSession_def ex_session_def sessionIdentitySize_def
        enc_previous_def Pq_Serialize_def recordSerializeMagic_def ascii_def Let_def)
  then show ?thesis using session_record_codec [of toy ex_record] ex_record_ok by blast
qed

end
