(* ===== verification/Session_Cipher.thy ===== *)
theory Session_Cipher
  imports Session
begin

text \<open>
  The session ciphers (\<^verbatim>\<open>session/builder.go\<close>, \<^verbatim>\<open>wire_cipher.go\<close>, \<^verbatim>\<open>cipher.go\<close>, \<^verbatim>\<open>prekey_cipher.go\<close>): operations on a
  store \<open>S\<close> for the peer at \<open>addr\<close>.  The state of the store is threaded through, so that what an operation
  has written before it fails is part of its result.  A record that was loaded and changed in memory is
  lost when the operation fails before it is stored.  The \<open>rnd\<close> arguments are the draws of randomness of a
  call, one number for each place that draws.
\<close>

section \<open>Building sessions (builder.go)\<close>

definition Builder_ProcessPreKeyBundle ::
    "'z prims_scheme \<Rightarrow> (nat \<Rightarrow> bytes res) \<Rightarrow> 's ProtocolStore \<Rightarrow> Address \<Rightarrow> PreKeyBundle option \<Rightarrow> 's \<Rightarrow>
     (Session \<times> X3Message) res \<times> 's" where
  "Builder_ProcessPreKeyBundle P rnd S addr bundle st =
     (case bundle of
        None \<Rightarrow> (Inl (ErrText ''pre-key bundle is nil''), st)
      | Some bundle \<Rightarrow>
     bindS (GetIdentityKeyPair S st, st) (\<lambda>localID st.
     if \<not> IsTrustedIdentity S addr (Some (b_IdentityKey bundle)) DirectionSending st
     then (Inl ErrUntrustedIdentity, st)
     else case localID of
       None \<Rightarrow> (Inl (ErrText ''initiator: identity key required''), st)
     | Some localID \<Rightarrow>
     bindS (NewInitiator_Process P (rnd 0) (rnd 1) localID bundle, st) (\<lambda>result st.
     bindS (InitializeState P (\<lambda>i. rnd (2 + i)) (Some result) True, st) (\<lambda>state st.
     bindS (NewSession (Some state) (Some (ikp_PublicKey localID)) (Some (b_IdentityKey bundle))
              (x3r_AssociatedData result), st) (\<lambda>session st.
     bindS (initSessionPQR P result True session, st) (\<lambda>session st.
     let session = setSessionCiphertextVersion
           (ciphertextVersionFromX3DH (Some (x3r_InitialMessage result))) session in
     bindS (SaveIdentity S addr (Some (b_IdentityKey bundle)) st) (\<lambda>_ st.
     (Inr (session, x3r_InitialMessage result), st))))))))"

definition Builder_ProcessPreKeyMessage ::
    "'z prims_scheme \<Rightarrow> (nat \<Rightarrow> bytes res) \<Rightarrow> int \<Rightarrow> 's ProtocolStore \<Rightarrow> Address \<Rightarrow> X3Message \<Rightarrow> 's \<Rightarrow>
     (Session \<times> bytes) res \<times> 's" where
  "Builder_ProcessPreKeyMessage P rnd now S addr msg st =
     bindS (GetIdentityKeyPair S st, st) (\<lambda>identityKey st.
     if \<not> IsTrustedIdentity S addr (Some (x3m_IdentityKey msg)) DirectionReceiving st
     then (Inl ErrUntrustedIdentity, st)
     else
     bindS (LoadSignedPreKey S (x3m_SignedPreKeyID msg) st, st) (\<lambda>signedPreKey st.
     case signedPreKey of
       None \<Rightarrow> (Inl ErrPreKeyNotFound, st)
     | Some signedPreKey \<Rightarrow>
     if SignedPreKeyExpired S (Some signedPreKey) now st then (Inl ErrPreKeyExpired, st)
     else case identityKey of
       None \<Rightarrow> (Inl (ErrText ''responder: missing keys''), st)
     | Some identityKey \<Rightarrow>
     bindS (ProcessInitialMessage P S True identityKey signedPreKey msg st) (\<lambda>result st.
     bindS (InitializeState P rnd (Some result) False, st) (\<lambda>state st.
     bindS (NewSession (Some state) (Some (ikp_PublicKey identityKey)) (Some (x3m_IdentityKey msg))
              (x3r_AssociatedData result), st) (\<lambda>session st.
     bindS (initSessionPQR P result False session, st) (\<lambda>session st.
     let session = setSessionCiphertextVersion (ciphertextVersionFromX3DH (Some msg)) session in
     bindS (SaveIdentity S addr (Some (x3m_IdentityKey msg)) st) (\<lambda>_ st.
     (Inr (session, x3r_AssociatedData result), st))))))))"

section \<open>Loading and storing records\<close>

definition loadRecordOptional ::
    "'z prims_scheme \<Rightarrow> 's ProtocolStore \<Rightarrow> Address \<Rightarrow> 's \<Rightarrow> Record option res" where
  "loadRecordOptional P S addr st =
     bindR (LoadSession S addr st) (\<lambda>rc.
     case rc of
       None \<Rightarrow> Inr None
     | Some data \<Rightarrow>
         if length data = 0 then Inr None
         else case DeserializeRecord P data of
           Inl e \<Rightarrow> Inl (if e = EPanic then EPanic else ErrInvalidMessage)
         | Inr record \<Rightarrow> if Current (Some record) = None then Inl ErrInvalidMessage else Inr (Some record))"

definition loadRecordRequired ::
    "'z prims_scheme \<Rightarrow> 's ProtocolStore \<Rightarrow> Address \<Rightarrow> 's \<Rightarrow> Record res" where
  "loadRecordRequired P S addr st =
     bindR (loadRecordOptional P S addr st) (\<lambda>record.
     case record of None \<Rightarrow> Inl ErrNoSession | Some record \<Rightarrow> Inr record)"

definition persistRecord :: "'s ProtocolStore \<Rightarrow> Address \<Rightarrow> Record option \<Rightarrow> 's \<Rightarrow> unit res \<times> 's" where
  "persistRecord S addr record st =
     (if Current record = None then (Inl ErrNoSession, st)
      else case Record_Serialize record of
        Inl _ \<Rightarrow> (Inl ErrInvalidMessage, st)
      | Inr data \<Rightarrow>
          bindS (StoreSession S addr (Some data) st) (\<lambda>_ st.
          EnforceSessionLimit S addr st))"

section \<open>Trying the sessions of a record\<close>

text \<open>
  Both ciphers try the current session and then the archived ones, and promote the one that
  decrypts.  \<open>dec i\<close> decrypts with a session that it updates in place; \<open>i\<close> counts the attempts.
\<close>

function try_archived ::
    "(nat \<Rightarrow> Session \<Rightarrow> bytes res \<times> Session) \<Rightarrow> err \<Rightarrow> nat \<Rightarrow> Record \<Rightarrow> bytes res \<times> Record" where
  "try_archived dec e i record =
     (if length (rec_archived record) \<le> i then (Inl e, record)
      else case rec_archived record ! i of
        None \<Rightarrow> try_archived dec e (Suc i) record
      | Some candidate \<Rightarrow>
          (case dec (Suc i) candidate of
             (r, candidate) \<Rightarrow>
               let record = record\<lparr>rec_archived := (rec_archived record)[i := Some candidate]\<rparr> in
               case r of
                 Inr plaintext \<Rightarrow>
                   bindS (Promote (Some i) (Some candidate) record) (\<lambda>_ record. (Inr plaintext, record))
               | Inl candErr \<Rightarrow>
                   if candErr = ErrDuplicateMessage then (Inl candErr, record)
                   else try_archived dec e (Suc i) record))"
  by pat_completeness auto
termination by (relation "measure (\<lambda>(dec, e, i, record). length (rec_archived record) - i)") auto

definition decrypt_record ::
    "(nat \<Rightarrow> Session \<Rightarrow> bytes res \<times> Session) \<Rightarrow> Record \<Rightarrow> bytes res \<times> Record" where
  "decrypt_record dec record =
     (case rec_current record of
        None \<Rightarrow> (Inl ErrNoSession, record)
      | Some cur \<Rightarrow>
          (case dec 0 cur of
             (r, cur) \<Rightarrow>
               let record = record\<lparr>rec_current := Some cur\<rparr> in
               case r of
                 Inr plaintext \<Rightarrow> (Inr plaintext, record)
               | Inl e \<Rightarrow>
                   if e = ErrDuplicateMessage then (Inl e, record) else try_archived dec e 0 record))"

section \<open>The wire cipher (wire\_cipher.go)\<close>

definition encryptSignalMessage ::
    "'z pq_prims_scheme \<Rightarrow> pwire \<Rightarrow> bytes res \<Rightarrow> bytes \<Rightarrow> Session \<Rightarrow> SignalMessage res \<times> Session" where
  "encryptSignalMessage P W rand plaintext session =
     (case CurrentState (Some session) of
        None \<Rightarrow> (Inl (ErrText ''encrypt: state is nil''), session)
      | Some state \<Rightarrow>
     (let (r, state) = NextSendingMessageKey P state in
      bindS (r, session\<lparr>se_ratchetState := Some state\<rparr>) (\<lambda>(header, mk) session.
      bindS (case se_pqrState session of
               None \<Rightarrow> (Inr ([], []), session)
             | Some pqr \<Rightarrow>
                 (case Pq_Clone (Some pqr) of
                    None \<Rightarrow> (Inl ErrSpqrStateDecode, session)
                  | Some pqrNext \<Rightarrow>
                      let (r, pqrNext) = Pq_Send P rand (Some pqrNext) in
                      bindS (r, session) (\<lambda>sent session. (Inr sent, session\<lparr>se_pqrState := pqrNext\<rparr>))))
        (\<lambda>(pqRatchet, salt) session.
      let (encKey, macKey, iv) = DeriveMessageKeysWithSalt P mk salt in
      bindS (AESCBCEncrypt P encKey iv plaintext, session) (\<lambda>ciphertext session.
      case (se_localIdentity session, se_remoteIdentity session) of
        (Some localID, Some remoteID) \<Rightarrow>
          (NewSignalMessage P W (ciphertextVersionForSession (Some session)) macKey (h_DH header) (h_N header)
             (h_PN header) ciphertext localID remoteID pqRatchet, session)
      | _ \<Rightarrow> (Inl ErrInvalidKey, session))))))"

text \<open>
  Decryption works on copies of the two ratchets and commits both at the end.  An error of the block
  cipher is joined with \<^verbatim>\<open>ErrInvalidMAC\<close>, which is what the callers see.
\<close>

definition decryptSignalWithSession ::
    "'z pq_prims_scheme \<Rightarrow> bytes res \<Rightarrow> SignalMessage \<Rightarrow> Session \<Rightarrow> bytes res \<times> Session" where
  "decryptSignalWithSession P rnd msg session =
     (case (se_localIdentity session, se_remoteIdentity session) of
        (Some localID, Some remoteID) \<Rightarrow>
          let msgVersion = sm_messageVersion msg;
              sessionVersion = normalizeCiphertextVersion (se_version session) in
          if sessionVersion \<noteq> None \<and> Some msgVersion \<noteq> sessionVersion then (Inl ErrInvalidMessage, session)
          else case CurrentState (Some session) of
            None \<Rightarrow> (Inl ErrNoSession, session)
          | Some state \<Rightarrow>
          let header = \<lparr>h_DH = sm_senderRatchet msg, h_PN = sm_previousCounter msg, h_N = sm_counter msg\<rparr>;
              (r, nxt) = AdvanceForHeader P rnd header (Clone state) in
          bindS (r, session) (\<lambda>mk session.
          bindS (case se_pqrState session of
                   Some pqr \<Rightarrow>
                     (case Pq_Clone (Some pqr) of
                        None \<Rightarrow> (Inl ErrSpqrStateDecode, session)
                      | Some pqrNext \<Rightarrow>
                          let (r, pqrNext) = Pq_Receive P (sm_pqRatchet msg) (Some pqrNext) in
                          bindS (r, session) (\<lambda>salt session. (Inr (salt, pqrNext), session)))
                 | None \<Rightarrow>
                     if length (sm_pqRatchet msg) > 0 then (Inl ErrInvalidMessage, session)
                     else (Inr ([], None), session)) (\<lambda>(salt, pqrNext) session.
          let (encKey, macKey, iv) = DeriveMessageKeysWithSalt P mk salt in
          bindS (VerifyMAC P msg remoteID localID macKey, session) (\<lambda>ok session.
          if \<not> ok then (Inl ErrInvalidMAC, session)
          else case AESCBCDecrypt P encKey iv (sm_ciphertext msg) of
            Inl _ \<Rightarrow> (Inl ErrInvalidMAC, session)
          | Inr plaintext \<Rightarrow>
              let session = (if sessionVersion = None then setSessionCiphertextVersion msgVersion session else session);
                  session = session\<lparr>se_ratchetState := Some nxt\<rparr>;
                  session = (if pqrNext \<noteq> None then session\<lparr>se_pqrState := pqrNext\<rparr> else session)
              in (Inr plaintext, session))))
      | _ \<Rightarrow> (Inl ErrInvalidKey, session))"

definition decryptSignalMessage ::
    "'z pq_prims_scheme \<Rightarrow> (nat \<Rightarrow> bytes res) \<Rightarrow> SignalMessage \<Rightarrow> Record \<Rightarrow> bytes res \<times> Record" where
  "decryptSignalMessage P rnd msg record = decrypt_record (\<lambda>i. decryptSignalWithSession P (rnd i) msg) record"

definition WireCipher_Encrypt ::
    "'z pq_prims_scheme \<Rightarrow> pwire \<Rightarrow> bytes res \<Rightarrow> 's ProtocolStore \<Rightarrow> Address \<Rightarrow> bytes \<Rightarrow> 's \<Rightarrow> bytes res \<times> 's" where
  "WireCipher_Encrypt P W rand S addr plaintext st =
     bindS (loadRecordRequired P S addr st, st) (\<lambda>record st.
     case Current (Some record) of
       None \<Rightarrow> (Inl ErrNoSession, st)
     | Some session \<Rightarrow>
         let (r, session) = encryptSignalMessage P W rand plaintext session in
         bindS (r, st) (\<lambda>msg st.
         bindS (persistRecord S addr (Some (record\<lparr>rec_current := Some session\<rparr>)) st) (\<lambda>_ st.
         (Inr (sm_serialized msg), st))))"

definition WireCipher_decryptPreKeyMessage ::
    "'z pq_prims_scheme \<Rightarrow> (nat \<Rightarrow> bytes res) \<Rightarrow> (nat \<Rightarrow> bytes res) \<Rightarrow> int \<Rightarrow> 's ProtocolStore \<Rightarrow> Address \<Rightarrow>
     Record option \<Rightarrow> PreKeySignalMessage \<Rightarrow> 's \<Rightarrow> bytes res \<times> 's" where
  "WireCipher_decryptPreKeyMessage P rnd rndB now S addr record msg st =
     (let (r, record) =
        (case record of
           None \<Rightarrow> (None, None)
         | Some rc \<Rightarrow> let (r, rc) = decryptSignalMessage P rnd (pm_message msg) rc in (Some r, Some rc)) in
      case r of
        Some (Inr plaintext) \<Rightarrow> bindS (persistRecord S addr record st) (\<lambda>_ st. (Inr plaintext, st))
      | _ \<Rightarrow>
      if r = Some (Inl ErrDuplicateMessage) then (Inl ErrDuplicateMessage, st)
      else
      let x3msg = \<lparr>x3m_IdentityKey = pm_identityKey msg, x3m_EphemeralKey = pm_baseKey msg,
            x3m_PreKeyID = pm_preKeyID msg, x3m_SignedPreKeyID = pm_signedPreKeyID msg,
            x3m_KyberPreKeyID = pm_kyberPreKeyID msg, x3m_KyberCiphertext = pm_kyberCiphertext msg,
            x3m_Ciphertext = sm_serialized (pm_message msg)\<rparr> in
      bindS (Builder_ProcessPreKeyMessage P rndB now S addr x3msg st) (\<lambda>(session, _) st.
      let (r, session) = decryptSignalWithSession P (rndB 2) (pm_message msg) session in
      bindS (r, st) (\<lambda>plaintext st.
      bindS (case record of
               None \<Rightarrow> (NewRecord (Some session) DefaultMaxArchivedSessions, st)
             | Some rc \<Rightarrow> let (r, rc) = Promote None (Some session) rc in (bindR r (\<lambda>_. Inr rc), st)) (\<lambda>record st.
      bindS (persistRecord S addr (Some record) st) (\<lambda>_ st.
      (Inr plaintext, st))))))"

definition WireCipher_Decrypt ::
    "'z pq_prims_scheme \<Rightarrow> pwire \<Rightarrow> (nat \<Rightarrow> bytes res) \<Rightarrow> (nat \<Rightarrow> bytes res) \<Rightarrow> int \<Rightarrow> 's ProtocolStore \<Rightarrow> Address \<Rightarrow>
     bytes \<Rightarrow> 's \<Rightarrow> bytes res \<times> 's" where
  "WireCipher_Decrypt P W rnd rndB now S addr ciphertext st =
     bindS (loadRecordOptional P S addr st, st) (\<lambda>record st.
     case ParseSignalMessage P W ciphertext of
       Inr msg \<Rightarrow>
         (case record of
            None \<Rightarrow> (Inl ErrNoSession, st)
          | Some record \<Rightarrow>
              let (r, record) = decryptSignalMessage P rnd msg record in
              bindS (r, st) (\<lambda>plaintext st.
              bindS (persistRecord S addr (Some record) st) (\<lambda>_ st.
              (Inr plaintext, st))))
     | Inl _ \<Rightarrow>
         bindS (ParsePreKeySignalMessage P W ciphertext, st) (\<lambda>preKeyMsg st.
         WireCipher_decryptPreKeyMessage P rnd rndB now S addr record preKeyMsg st))"

definition WireCipher_EncryptWithPreKeyBundle ::
    "'z pq_prims_scheme \<Rightarrow> pwire \<Rightarrow> (nat \<Rightarrow> bytes res) \<Rightarrow> 's ProtocolStore \<Rightarrow> Address \<Rightarrow> PreKeyBundle option \<Rightarrow>
     bytes \<Rightarrow> 's \<Rightarrow> bytes res \<times> 's" where
  "WireCipher_EncryptWithPreKeyBundle P W rnd S addr bundle plaintext st =
     (if ContainsSession S addr st then (Inl ErrStaleKeyExchange, st)
      else
      bindS (Builder_ProcessPreKeyBundle P rnd S addr bundle st) (\<lambda>(session, x3msg) st.
      let (r, session) = encryptSignalMessage P W (rnd 4) plaintext session in
      bindS (r, st) (\<lambda>signalMsg st.
      bindS (GetLocalRegistrationID S st, st) (\<lambda>registrationID st.
      bindS (NewPreKeySignalMessage W (ciphertextVersionForSession (Some session)) registrationID
               (x3m_PreKeyID x3msg) (x3m_SignedPreKeyID x3msg) (x3m_KyberPreKeyID x3msg)
               (x3m_KyberCiphertext x3msg) (x3m_EphemeralKey x3msg) (x3m_IdentityKey x3msg) (Some signalMsg), st)
        (\<lambda>preKeyMsg st.
      bindS (NewRecord (Some session) DefaultMaxArchivedSessions, st) (\<lambda>record st.
      bindS (persistRecord S addr (Some record) st) (\<lambda>_ st.
      (Inr (pm_serialized preKeyMsg), st))))))))"

section \<open>The envelope cipher (cipher.go, prekey\_cipher.go)\<close>

definition envelopeVersion :: byte where "envelopeVersion = 1"
definition envelopeTypeSignal :: byte where "envelopeTypeSignal = 1"
definition envelopeTypePreKey :: byte where "envelopeTypePreKey = 2"

definition encodeEnvelope :: "byte \<Rightarrow> bytes \<Rightarrow> bytes" where
  "encodeEnvelope msgType payload = [envelopeVersion, msgType] @ put_u32 (of_nat (length payload)) @ payload"

definition decodeEnvelope :: "bytes \<Rightarrow> (byte \<times> bytes) res" where
  "decodeEnvelope data =
     (if length data < 6 then Inl ErrInvalidMessage
      else if data ! 0 \<noteq> envelopeVersion then Inl ErrInvalidMessage
      else if length (drop 6 data) \<noteq> unat (get_u32 (drop 2 data)) then Inl ErrInvalidMessage
      else Inr (data ! 1, drop 6 data))"

definition encodeRatchetMessage :: "Message \<Rightarrow> bytes" where
  "encodeRatchetMessage msg = Header_Serialize (m_Header msg) @ put_u32 (of_nat (length (m_Ciphertext msg))) @ m_Ciphertext msg"

definition decodeRatchetMessage :: "bytes \<Rightarrow> Message res" where
  "decodeRatchetMessage data =
     (if length data < 40 + 4 then Inl ErrInvalidMessage
      else case DeserializeHeader (take 40 data) of
        Inl _ \<Rightarrow> Inl ErrInvalidMessage
      | Inr header \<Rightarrow>
          if length (drop 44 data) \<noteq> unat (get_u32 (drop 40 data)) then Inl ErrInvalidMessage
          else Inr \<lparr>m_Header = header, m_Ciphertext = drop 44 data\<rparr>)"

text \<open>The calls \<^verbatim>\<open>session.CurrentState().Encrypt\<close> and \<^verbatim>\<open>Decrypt\<close> with the session's associated data.\<close>

definition session_Encrypt :: "'z prims_scheme \<Rightarrow> bytes \<Rightarrow> Session \<Rightarrow> Message res \<times> Session" where
  "session_Encrypt P plaintext session =
     (case CurrentState (Some session) of
        None \<Rightarrow> (Inl (ErrText ''encrypt: state is nil''), session)
      | Some state \<Rightarrow>
          let (r, state) = Encrypt P plaintext (Session_AssociatedData (Some session)) state in
          (r, session\<lparr>se_ratchetState := Some state\<rparr>))"

definition session_Decrypt :: "'z prims_scheme \<Rightarrow> bytes res \<Rightarrow> Message \<Rightarrow> Session \<Rightarrow> bytes res \<times> Session" where
  "session_Decrypt P rnd msg session =
     (case CurrentState (Some session) of
        None \<Rightarrow> (Inl (ErrText ''decrypt: state is nil''), session)
      | Some state \<Rightarrow>
          let (r, state) = Decrypt P rnd msg (Session_AssociatedData (Some session)) state in
          (r, session\<lparr>se_ratchetState := Some state\<rparr>))"

definition decryptRatchetMessage ::
    "'z prims_scheme \<Rightarrow> (nat \<Rightarrow> bytes res) \<Rightarrow> Message \<Rightarrow> Record \<Rightarrow> bytes res \<times> Record" where
  "decryptRatchetMessage P rnd msg record = decrypt_record (\<lambda>i. session_Decrypt P (rnd i) msg) record"

definition Cipher_Encrypt ::
    "'z prims_scheme \<Rightarrow> 's ProtocolStore \<Rightarrow> Address \<Rightarrow> bytes \<Rightarrow> 's \<Rightarrow> bytes res \<times> 's" where
  "Cipher_Encrypt P S addr plaintext st =
     bindS (loadRecordRequired P S addr st, st) (\<lambda>record st.
     case Current (Some record) of
       None \<Rightarrow> (Inl ErrNoSession, st)
     | Some session \<Rightarrow>
         let (r, session) = session_Encrypt P plaintext session in
         bindS (r, st) (\<lambda>msg st.
         bindS (persistRecord S addr (Some (record\<lparr>rec_current := Some session\<rparr>)) st) (\<lambda>_ st.
         (Inr (encodeEnvelope envelopeTypeSignal (encodeRatchetMessage msg)), st))))"

definition Cipher_decryptPreKeyMessage ::
    "'z prims_scheme \<Rightarrow> (nat \<Rightarrow> bytes res) \<Rightarrow> (nat \<Rightarrow> bytes res) \<Rightarrow> int \<Rightarrow> 's ProtocolStore \<Rightarrow> Address \<Rightarrow> bytes \<Rightarrow> 's \<Rightarrow>
     bytes res \<times> 's" where
  "Cipher_decryptPreKeyMessage P rnd rndB now S addr payload st =
     (case DeserializeMessage P payload of
        Inl e \<Rightarrow> (Inl (if e = EPanic then EPanic else ErrInvalidMessage), st)
      | Inr msg \<Rightarrow>
      if length (x3m_Ciphertext msg) = 0 then (Inl ErrInvalidMessage, st)
      else
      bindS (decodeRatchetMessage (x3m_Ciphertext msg), st) (\<lambda>ratchetMsg st.
      bindS (loadRecordOptional P S addr st, st) (\<lambda>record st.
      let (r, record) =
        (case record of
           None \<Rightarrow> (None, None)
         | Some rc \<Rightarrow> let (r, rc) = decryptRatchetMessage P rnd ratchetMsg rc in (Some r, Some rc)) in
      case r of
        Some (Inr plaintext) \<Rightarrow> bindS (persistRecord S addr record st) (\<lambda>_ st. (Inr plaintext, st))
      | _ \<Rightarrow>
      if r = Some (Inl ErrDuplicateMessage) then (Inl ErrDuplicateMessage, st)
      else
      bindS (Builder_ProcessPreKeyMessage P rndB now S addr msg st) (\<lambda>(session, _) st.
      let (r, session) = session_Decrypt P (rndB 2) ratchetMsg session in
      bindS (r, st) (\<lambda>plaintext st.
      bindS (case record of
               None \<Rightarrow> (NewRecord (Some session) DefaultMaxArchivedSessions, st)
             | Some rc \<Rightarrow> let (r, rc) = Promote None (Some session) rc in (bindR r (\<lambda>_. Inr rc), st)) (\<lambda>record st.
      bindS (persistRecord S addr (Some record) st) (\<lambda>_ st.
      (Inr plaintext, st))))))))"

definition Cipher_Decrypt ::
    "'z prims_scheme \<Rightarrow> (nat \<Rightarrow> bytes res) \<Rightarrow> (nat \<Rightarrow> bytes res) \<Rightarrow> int \<Rightarrow> 's ProtocolStore \<Rightarrow> Address \<Rightarrow> bytes \<Rightarrow> 's \<Rightarrow>
     bytes res \<times> 's" where
  "Cipher_Decrypt P rnd rndB now S addr data st =
     bindS (decodeEnvelope data, st) (\<lambda>(msgType, payload) st.
     if msgType = envelopeTypeSignal then
       bindS (decodeRatchetMessage payload, st) (\<lambda>msg st.
       bindS (loadRecordRequired P S addr st, st) (\<lambda>record st.
       let (r, record) = decryptRatchetMessage P rnd msg record in
       bindS (r, st) (\<lambda>plaintext st.
       bindS (persistRecord S addr (Some record) st) (\<lambda>_ st.
       (Inr plaintext, st)))))
     else if msgType = envelopeTypePreKey then Cipher_decryptPreKeyMessage P rnd rndB now S addr payload st
     else (Inl ErrInvalidMessage, st))"

definition Cipher_EncryptWithPreKeyBundle ::
    "'z prims_scheme \<Rightarrow> (nat \<Rightarrow> bytes res) \<Rightarrow> 's ProtocolStore \<Rightarrow> Address \<Rightarrow> PreKeyBundle option \<Rightarrow> bytes \<Rightarrow> 's \<Rightarrow>
     bytes res \<times> 's" where
  "Cipher_EncryptWithPreKeyBundle P rnd S addr bundle plaintext st =
     (if ContainsSession S addr st then (Inl ErrStaleKeyExchange, st)
      else
      bindS (Builder_ProcessPreKeyBundle P rnd S addr bundle st) (\<lambda>(session, msg) st.
      let (r, session) = session_Encrypt P plaintext session in
      bindS (r, st) (\<lambda>ratchetMsg st.
      let msg = msg\<lparr>x3m_Ciphertext := encodeRatchetMessage ratchetMsg\<rparr> in
      bindS (NewRecord (Some session) DefaultMaxArchivedSessions, st) (\<lambda>record st.
      bindS (persistRecord S addr (Some record) st) (\<lambda>_ st.
      case X3Message_Serialize msg of
        Inl _ \<Rightarrow> (Inl ErrInvalidMessage, st)
      | Inr preKeyPayload \<Rightarrow> (Inr (encodeEnvelope envelopeTypePreKey preKeyPayload), st))))))"

end
