(* ===== verification/Session_Safety.thy ===== *)
theory Session_Safety
  imports Session_Cipher
begin

text \<open>
  What the ciphers guarantee about the stored sessions: a failed decryption changes no session, and a
  ciphertext that was accepted is rejected as a duplicate when it is presented again.
\<close>

section \<open>A failed attempt changes no session\<close>

lemma Promote_ok: "0 \<le> rec_maxArchived r \<Longrightarrow> \<exists>r'. Promote ptr (Some s) r = (Inr (), r') \<and> rec_current r' = Some (Session_clone s)"
  by (auto simp: Promote_def Let_def split: option.splits)

text \<open>The interface of a decryption with one session: it commits only on success.\<close>

locale session_dec =
  fixes dec :: "nat \<Rightarrow> Session \<Rightarrow> bytes res \<times> Session"
  assumes dec_atomic: "dec i s = (Inl e, s') \<Longrightarrow> s' = s"
begin

lemma try_archived_cases:
  assumes "0 \<le> rec_maxArchived r"
  obtains (failed) e' where "try_archived dec e i r = (Inl e', r)"
  | (promoted) j s s' p r' where "try_archived dec e i r = (Inr p, r')" "j < length (rec_archived r)"
      "rec_archived r ! j = Some s" "dec (Suc j) s = (Inr p, s')"
      "Promote (Some j) (Some s') (r\<lparr>rec_archived := (rec_archived r)[j := Some s']\<rparr>) = (Inr (), r')"
proof (induction "length (rec_archived r) - i" arbitrary: i thesis)
  case 0
  show ?case by (rule 0(2)) (use 0(1) in simp)
next
  case (Suc n)
  have i: "i < length (rec_archived r)" and n: "n = length (rec_archived r) - Suc i" using Suc.hyps(2) by simp_all
  have later: ?case if "try_archived dec e i r = try_archived dec e (Suc i) r"
    by (rule Suc.hyps(1) [OF n]) (use that Suc.prems in auto)
  show ?case
  proof (cases "rec_archived r ! i")
    case None
    then have "try_archived dec e i r = try_archived dec e (Suc i) r" using i by (subst try_archived.simps) simp
    then show ?thesis by (rule later)
  next
    case (Some s)
    obtain x s' where x: "dec (Suc i) s = (x, s')" by (cases "dec (Suc i) s")
    let ?r = "r\<lparr>rec_archived := (rec_archived r)[i := Some s']\<rparr>"
    show ?thesis
    proof (cases x)
      case (Inl c)
      then have "s' = s" using x dec_atomic by blast
      then have r: "?r = r" using Some by (metis list_update_id Record.surjective Record.update_convs(2))
      then have "try_archived dec e i r = (if c = ErrDuplicateMessage then (Inl c, r) else try_archived dec e (Suc i) r)"
        using i Some x Inl by (subst try_archived.simps) simp
      then show ?thesis using later Suc.prems(1) by (cases "c = ErrDuplicateMessage") simp_all
    next
      case (Inr p)
      obtain r' where r': "Promote (Some i) (Some s') ?r = (Inr (), r')" using Promote_ok [of ?r "Some i" s'] assms by auto
      then have "try_archived dec e i r = (Inr p, r')"
        using i Some x Inr by (subst try_archived.simps) simp
      then show ?thesis using Suc.prems(2) i Some x Inr r' by blast
    qed
  qed
qed

text \<open>
  So decrypting with a record either fails and leaves the record as it was, or it succeeds with one
  of the sessions, which is the current one afterwards.
\<close>

lemma decrypt_record_cases:
  assumes "0 \<le> rec_maxArchived r" "decrypt_record dec r = (res, r')"
  obtains (failed) e where "res = Inl e" "r' = r"
  | (current) s s' p where "res = Inr p" "rec_current r = Some s" "dec 0 s = (Inr p, s')" "r' = r\<lparr>rec_current := Some s'\<rparr>"
  | (archived) j s s' p where "res = Inr p" "j < length (rec_archived r)" "rec_archived r ! j = Some s"
      "dec (Suc j) s = (Inr p, s')" "Promote (Some j) (Some s') (r\<lparr>rec_archived := (rec_archived r)[j := Some s']\<rparr>) = (Inr (), r')"
proof (cases "rec_current r")
  case None
  then show ?thesis using assms(2) failed by (auto simp: decrypt_record_def)
next
  case (Some s)
  obtain x s' where x: "dec 0 s = (x, s')" by (cases "dec 0 s")
  show ?thesis
  proof (cases x)
    case (Inl e)
    then have "s' = s" using x dec_atomic by blast
    then have "r\<lparr>rec_current := Some s'\<rparr> = r" using Some by simp
    then have d: "(res, r') = (if e = ErrDuplicateMessage then (Inl e, r) else try_archived dec e 0 r)"
      using assms(2) Some x Inl by (simp add: decrypt_record_def)
    then show ?thesis
    proof (cases "e = ErrDuplicateMessage")
      case False
      show ?thesis
        by (rule try_archived_cases [OF assms(1), of e 0]) (use d False failed archived in auto)
    qed (use d failed in simp)
  next
    case (Inr p)
    then show ?thesis using assms(2) Some x by (intro current [of p s s']) (auto simp: decrypt_record_def)
  qed
qed

lemma decrypt_record_failed: "0 \<le> rec_maxArchived r \<Longrightarrow> decrypt_record dec r = (Inl e, r') \<Longrightarrow> r' = r"
  by (erule (1) decrypt_record_cases) simp_all

end

lemma decryptSignalWithSession_atomic: "decryptSignalWithSession P rnd msg s = (Inl e, s') \<Longrightarrow> s' = s"
  unfolding decryptSignalWithSession_def
  by (auto simp: Let_def bindS_def split: option.splits if_splits prod.splits sum.splits)

interpretation wire: session_dec "\<lambda>i. decryptSignalWithSession P (rnd i) msg" for P rnd msg
  by unfold_locales (rule decryptSignalWithSession_atomic)

lemma session_Decrypt_atomic: "session_Decrypt P rnd msg s = (Inl e, s') \<Longrightarrow> s' = s"
  unfolding session_Decrypt_def CurrentState_def
  by (auto split: option.splits prod.splits dest: Decrypt_Inl)

interpretation envelope: session_dec "\<lambda>i. session_Decrypt P (rnd i) msg" for P rnd msg
  by unfold_locales (rule session_Decrypt_atomic)

section \<open>Sessions in memory and their stored form\<close>

text \<open>
  A post-quantum state that has been switched off is not stored: after a reload the session has
  none.
\<close>

definition pqr_mem :: "PqState \<Rightarrow> bool" where
  "pqr_mem t \<longleftrightarrow> pred_option v1_storable (ps_v1 t) \<and> pred_option (\<lambda>c. chain_wf c \<or> chain_storable c) (ps_chain t) \<and>
     pred_option negotiation_ok (ps_negotiation t) \<and>
     (ps_version t = VersionV1 \<and> (ps_v1 t = None \<longrightarrow> ps_negotiation t = None) \<or> ps_version t = VersionDisabled)"

definition stored_pqr :: "PqState option \<Rightarrow> PqState option" where
  "stored_pqr p = (case p of None \<Rightarrow> None | Some t \<Rightarrow> if ps_version t = VersionDisabled then None else Some t)"

lemma Pq_Serialize_stored [simp]: "Pq_Serialize (stored_pqr p) = Pq_Serialize p"
  by (simp add: stored_pqr_def Pq_Serialize_def split: option.splits)

lemma serialize_chain_le:
  "ps_version t = VersionV1 \<Longrightarrow> ps_chain t = Some c \<Longrightarrow> length (serializeChain c) \<le> length (Pq_Serialize (Some t))"
  by (simp add: Pq_Serialize_def serializeLegacyState_def serializeChain_opt_def appendBytes_def VersionV1_def
      VersionDisabled_def Let_def split: option.splits)

lemma stored_pqr_storable:
  assumes "pred_option pqr_mem p" "length (Pq_Serialize p) < 2 ^ 32"
  shows "pred_option state_storable (stored_pqr p)"
proof (cases "stored_pqr p")
  case (Some t)
  then have t: "p = Some t" "pqr_mem t" "ps_version t = VersionV1"
    using assms(1) by (auto simp: stored_pqr_def pqr_mem_def split: option.splits if_splits)
  then have c: "length (serializeChain c) < 2 ^ 32" if "ps_chain t = Some c" for c
    using serialize_chain_le [OF t(3) that] assms(2) by simp
  have "pred_option (\<lambda>c. chain_storable c \<and> length (serializeChain c) < 2 ^ 32) (ps_chain t)"
    using t(2) c chain_storableI by (cases "ps_chain t") (auto simp: pqr_mem_def)
  then show ?thesis
    using t Some by (auto simp: state_storable_def pqr_mem_def VersionV1_def VersionDisabled_def)
qed simp

lemma storable_pqr_mem: "state_storable t \<Longrightarrow> pqr_mem t"
  by (cases "ps_chain t") (auto simp: state_storable_def pqr_mem_def)

lemma clone_pqr_mem:
  assumes "pqr_mem t" "Pq_Clone (Some t) = Some t'"
  shows "pqr_mem t'"
proof -
  obtain v c where vc: "clone_v1 (ps_v1 t) = Inr v" "clone_chain (ps_chain t) = Inr c"
    "t' = \<lparr>ps_version = ps_version t, ps_v1 = v, ps_chain = c, ps_negotiation = cloneNegotiation (ps_negotiation t)\<rparr>"
    using assms(2) by (auto simp: Pq_Clone_def split: sum.splits)
  have "pred_option v1_storable v" "v = None \<longleftrightarrow> ps_v1 t = None"
    using vc(1) by (auto simp: clone_v1_def split: option.splits dest: deserializeV1States_storable)
  moreover have "pred_option (\<lambda>c. chain_wf c \<or> chain_storable c) c"
    using vc(2) deserializeChain_storable by (cases c) (auto simp: clone_chain_def split: option.splits)
  moreover have "cloneNegotiation (ps_negotiation t) = ps_negotiation t"
    by (simp add: cloneNegotiation_def split: option.splits)
  ultimately show ?thesis using assms(1) vc(3) by (auto simp: pqr_mem_def)
qed

definition session_mem :: "'z prims_scheme \<Rightarrow> Session \<Rightarrow> bool" where
  "session_mem P s \<longleftrightarrow> (\<exists>st. se_ratchetState s = Some st \<and> state_ok st \<and> fm_size (rs_MKSkipped st) \<le> MaxSkip) \<and>
     (\<exists>k. se_localIdentity s = Some k \<and> ik_ok P k) \<and> (\<exists>k. se_remoteIdentity s = Some k \<and> ik_ok P k) \<and>
     pred_option pqr_mem (se_pqrState s) \<and> list_all (pred_option storable) (se_previousStates s) \<and>
     length (se_previousStates s) \<le> 1000 \<and> se_version s \<noteq> 0"

definition stored_session :: "Session \<Rightarrow> Session" where
  "stored_session s = s\<lparr>se_pqrState := stored_pqr (se_pqrState s)\<rparr>"

lemma session_ok_mem: "session_ok P s \<Longrightarrow> session_mem P s"
  by (cases "se_pqrState s") (auto simp: session_ok_def session_mem_def storable_def storable_pqr_mem)

lemma serialize_stored [simp]: "serializeSession (map_option stored_session s) = serializeSession s"
  by (cases s) (simp_all add: serializeSession_def stored_session_def Let_def split: option.split)

lemma seen_bound: "length (State_Serialize st) < 2 ^ 32 \<Longrightarrow> fcard (rs_SeenDH st) < 2 ^ 32"
proof -
  have "length (concat (map (arr 32) ks)) = 32 * length ks" for ks by (induction ks) simp_all
  then show "length (State_Serialize st) < 2 ^ 32 \<Longrightarrow> fcard (rs_SeenDH st) < 2 ^ 32"
    by (simp add: State_Serialize_def Let_def)
qed

lemma stored_session_ok:
  assumes "session_mem P s" "serializeSession (Some s) = Inr data" "length data < 2 ^ 32"
  shows "session_ok P (stored_session s)"
proof -
  obtain st where st: "se_ratchetState s = Some st" "state_ok st" "fm_size (rs_MKSkipped st) \<le> MaxSkip"
    using assms(1) by (auto simp: session_mem_def)
  have "length (State_Serialize st) < 2 ^ 32" "length (Pq_Serialize (se_pqrState s)) < 2 ^ 32"
    using assms st(1) by (auto simp: serializeSession_def session_mem_def sessionIdentitySize_def)
  then show ?thesis
    using assms(1) st stored_pqr_storable [of "se_pqrState s"] seen_bound [of st]
    by (auto simp: session_ok_def session_mem_def stored_session_def storable_def)
qed

definition record_mem :: "'z prims_scheme \<Rightarrow> Record \<Rightarrow> bool" where
  "record_mem P r \<longleftrightarrow> (\<exists>s. rec_current r = Some s \<and> session_mem P s) \<and>
     list_all (\<lambda>a. \<exists>s. a = Some s \<and> session_mem P s) (rec_archived r) \<and>
     int (length (rec_archived r)) \<le> rec_maxArchived r \<and> 0 < rec_maxArchived r \<and> rec_maxArchived r < 2 ^ 16"

definition stored_record :: "Record \<Rightarrow> Record" where
  "stored_record r = r\<lparr>rec_current := map_option stored_session (rec_current r),
     rec_archived := map (map_option stored_session) (rec_archived r)\<rparr>"

lemma enc_archived_stored [simp]: "enc_archived (map (map_option stored_session) ss) = enc_archived ss"
  by (induction ss) simp_all

lemma Record_Serialize_stored [simp]: "Record_Serialize (Some (stored_record r)) = Record_Serialize (Some r)"
  by (simp add: Record_Serialize_def stored_record_def Let_def take_map)

lemma record_ok_mem: "record_ok P r \<Longrightarrow> record_mem P r"
  using session_ok_mem by (fastforce simp: record_ok_def record_mem_def list_all_iff)

lemma enc_archived_stored_ok:
  assumes "list_all (\<lambda>a. \<exists>s. a = Some s \<and> session_mem P s) ss" "enc_archived ss = Inr bs" "length bs < 2 ^ 32"
  shows "list_all (\<lambda>a. \<exists>s. a = Some s \<and> session_ok P s) (map (map_option stored_session) ss)"
  using assms
proof (induction ss arbitrary: bs)
  case (Cons a ss)
  then obtain s sb rest where "a = Some s" "session_mem P s" "serializeSession (Some s) = Inr sb"
    "enc_archived ss = Inr rest" "bs = put_sized sb @ rest" by auto
  with Cons stored_session_ok [of P s sb] show ?case by simp
qed simp

text \<open>A record that was changed in memory is found in its stored form when it is loaded again.\<close>

lemma record_reload:
  assumes "record_mem P r" "Record_Serialize (Some r) = Inr data" "length data < 2 ^ 32"
  shows "DeserializeRecord P data = Inr (stored_record r)"
proof (rule record_roundtrip)
  obtain s cur bs where s: "rec_current r = Some s" "session_mem P s" "serializeSession (Some s) = Inr cur"
    "enc_archived (rec_archived r) = Inr bs" "length cur < 2 ^ 32" "length bs < 2 ^ 32"
    using assms by (auto simp: record_mem_def Record_Serialize_def Let_def)
  show "record_ok P (stored_record r)"
    using assms(1) s stored_session_ok [OF s(2,3,5)] enc_archived_stored_ok [OF _ s(4,6), of P]
    by (simp add: record_ok_def record_mem_def stored_record_def)
qed (use assms in simp_all)

section \<open>What an accepted message leaves behind\<close>

definition msg_header :: "SignalMessage \<Rightarrow> Header" where
  "msg_header msg = \<lparr>h_DH = sm_senderRatchet msg, h_PN = sm_previousCounter msg, h_N = sm_counter msg\<rparr>"

text \<open>The salt that the post-quantum ratchet contributes, and its state afterwards.\<close>

definition pqr_salt :: "'z pq_prims_scheme \<Rightarrow> bytes \<Rightarrow> PqState option \<Rightarrow> bytes \<Rightarrow> PqState option \<Rightarrow> bool" where
  "pqr_salt P message p salt p' \<longleftrightarrow>
     (case p of
        None \<Rightarrow> message = [] \<and> salt = [] \<and> p' = None
      | Some t \<Rightarrow> (\<exists>c. Pq_Clone (Some t) = Some c \<and> Pq_Receive P message (Some c) = (Inr salt, p') \<and> p' \<noteq> None))"

lemma Pq_Receive_Some: "Pq_Receive P message (Some c) = (r, p') \<Longrightarrow> p' \<noteq> None"
  by (auto simp: Pq_Receive_def split: prod.splits)

lemma decryptSignalWithSession_Inr:
  assumes "decryptSignalWithSession P rnd msg s = (Inr p, s')"
  obtains localID remoteID st mk nxt salt pqr encKey macKey iv where
    "se_localIdentity s = Some localID" "se_remoteIdentity s = Some remoteID" "se_ratchetState s = Some st"
    "normalizeCiphertextVersion (se_version s) \<in> {None, Some (sm_messageVersion msg)}"
    "AdvanceForHeader P rnd (msg_header msg) st = (Inr mk, nxt)"
    "pqr_salt P (sm_pqRatchet msg) (se_pqrState s) salt pqr"
    "DeriveMessageKeysWithSalt P mk salt = (encKey, macKey, iv)" "VerifyMAC P msg remoteID localID macKey = Inr True"
    "AESCBCDecrypt P encKey iv (sm_ciphertext msg) = Inr p"
    "se_ratchetState s' = Some nxt" "se_pqrState s' = pqr" "se_localIdentity s' = se_localIdentity s"
    "se_remoteIdentity s' = se_remoteIdentity s" "se_associatedData s' = se_associatedData s"
    "se_previousStates s' = se_previousStates s"
    "se_version s' = (if normalizeCiphertextVersion (se_version s) = None \<and> message_version (sm_messageVersion msg)
       then sm_messageVersion msg else se_version s)"
proof -
  obtain localID remoteID st where ids: "se_localIdentity s = Some localID" "se_remoteIdentity s = Some remoteID"
    "se_ratchetState s = Some st" and ver: "normalizeCiphertextVersion (se_version s) \<in> {None, Some (sm_messageVersion msg)}"
    using assms by (auto simp: decryptSignalWithSession_def Let_def CurrentState_def split: option.splits if_splits)
  obtain r nxt where a: "AdvanceForHeader P rnd (msg_header msg) st = (r, nxt)" by (cases "AdvanceForHeader P rnd (msg_header msg) st")
  have cond: "\<not> (normalizeCiphertextVersion (se_version s) \<noteq> None \<and> Some (sm_messageVersion msg) \<noteq> normalizeCiphertextVersion (se_version s))"
    using ver by auto
  note d = assms [unfolded decryptSignalWithSession_def Let_def CurrentState_def ids msg_header_def [symmetric] Clone_id a
      option.case prod.case if_not_P [OF cond]]
  obtain mk where mk: "r = Inr mk" using d by (cases r) simp_all
  obtain salt pqr where q: "pqr_salt P (sm_pqRatchet msg) (se_pqrState s) salt pqr"
    "(case DeriveMessageKeysWithSalt P mk salt of (encKey, macKey, iv) \<Rightarrow>
       bindS (VerifyMAC P msg remoteID localID macKey, s) (\<lambda>ok session.
          if \<not> ok then (Inl ErrInvalidMAC, session)
          else case AESCBCDecrypt P encKey iv (sm_ciphertext msg) of
            Inl _ \<Rightarrow> (Inl ErrInvalidMAC, session)
          | Inr plaintext \<Rightarrow> (Inr plaintext, if pqr \<noteq> None
              then (if normalizeCiphertextVersion (se_version s) = None
                    then setSessionCiphertextVersion (sm_messageVersion msg) session else session)\<lparr>se_ratchetState := Some nxt, se_pqrState := pqr\<rparr>
              else (if normalizeCiphertextVersion (se_version s) = None
                    then setSessionCiphertextVersion (sm_messageVersion msg) session else session)\<lparr>se_ratchetState := Some nxt\<rparr>))) = (Inr p, s')"
  proof (cases "se_pqrState s")
    case None
    then show ?thesis using d mk by (intro that [of "[]" None]) (auto simp: pqr_salt_def Let_def split: if_splits)
  next
    case (Some t)
    obtain c where c: "Pq_Clone (Some t) = Some c" using d mk Some by (cases "Pq_Clone (Some t)") simp_all
    obtain x pqr where x: "Pq_Receive P (sm_pqRatchet msg) (Some c) = (x, pqr)"
      by (cases "Pq_Receive P (sm_pqRatchet msg) (Some c)")
    obtain salt where "x = Inr salt" using d mk Some c x by (cases x) simp_all
    then show ?thesis using d mk Some c x Pq_Receive_Some [OF x]
      by (intro that [of salt pqr]) (simp_all add: pqr_salt_def)
  qed
  obtain encKey macKey iv where k: "DeriveMessageKeysWithSalt P mk salt = (encKey, macKey, iv)"
    by (cases "DeriveMessageKeysWithSalt P mk salt")
  have "pqr = None \<longrightarrow> se_pqrState s = None" using q(1) by (auto simp: pqr_salt_def split: option.splits)
  then show thesis
    using q(2) k by (intro that [OF ids ver a [unfolded mk] q(1) k])
      (auto simp: setSessionCiphertextVersion_def normalizeCiphertextVersion_def message_version_def Let_def
        split: sum.splits if_splits option.splits)
qed

section \<open>Invariants of the sessions\<close>

text \<open>A session as it is loaded or built, whose two ratchets satisfy their invariants.\<close>

definition session_live :: "'z prims_scheme \<Rightarrow> Session \<Rightarrow> bool" where
  "session_live P s \<longleftrightarrow> session_ok P s \<and> pred_option rcv_inv (se_ratchetState s) \<and> pred_option state_wf (se_pqrState s)"

text \<open>The message is used up in the session, and nothing else makes the session refuse it before that is found out.\<close>

definition rejects :: "SignalMessage \<Rightarrow> Session \<Rightarrow> bool" where
  "rejects msg s \<longleftrightarrow> (\<exists>st. se_ratchetState s = Some st \<and> consumed (msg_header msg) st) \<and> se_localIdentity s \<noteq> None \<and>
     se_remoteIdentity s \<noteq> None \<and> normalizeCiphertextVersion (se_version s) = Some (sm_messageVersion msg)"

lemma rejects_duplicate: "rejects msg s \<Longrightarrow> decryptSignalWithSession P rnd msg s = (Inl ErrDuplicateMessage, s)"
  by (auto simp: rejects_def decryptSignalWithSession_def CurrentState_def msg_header_def [symmetric]
      consumed_duplicate)

lemma rejects_copies: "rejects msg s \<Longrightarrow> rejects msg (Session_clone s)" "rejects msg s \<Longrightarrow> rejects msg (stored_session s)"
  by (auto simp: rejects_def Session_clone_def stored_session_def)

lemma receive_version:
  assumes "Pq_Receive P message (Some c) = (r, Some t)" "state_storable c"
  shows "ps_version t = VersionV1 \<and> (ps_v1 t = None \<longrightarrow> ps_negotiation t = None) \<or> ps_version t = VersionDisabled"
proof -
  have c: "ps_version c = VersionV1" "ps_v1 c = None \<longrightarrow> ps_negotiation c = None"
    using assms(2) by (simp_all add: state_storable_def)
  have v1: "ps_version t = VersionV1 \<and> ps_v1 t \<noteq> None" if "receive_v1 P message v1 c = (r, t)" "ps_v1 c \<noteq> None" for v1
    using that c by (auto simp: receive_v1_def bindS_def split: prod.splits sum.splits if_splits)
  have leg: "ps_version t = VersionV1 \<and> ps_v1 t = ps_v1 c \<and> ps_negotiation t = ps_negotiation c"
    if "receiveLegacy P message c = (r, t)"
    using that c by (auto simp: receiveLegacy_def split: option.splits prod.splits sum.splits if_splits)
  show ?thesis
  proof (cases "ps_v1 c")
    case None
    then show ?thesis using assms(1) c leg by (auto simp: Pq_Receive_def split: prod.splits)
  next
    case (Some v)
    then have "receive_live P message v c = (r, t)" using assms(1) by (auto simp: Pq_Receive_def split: prod.splits)
    then show ?thesis
      using v1 [of v] c Some by (auto simp: receive_live_def disable_def split: option.splits if_splits)
  qed
qed

lemma pqr_salt_mem:
  assumes "pqr_salt P message p salt p'" "pred_option state_storable p" "pred_option state_wf p"
  shows "pred_option pqr_mem p' \<and> pred_option state_wf p'"
proof (cases p)
  case (Some t)
  then obtain t' where t': "p' = Some t'" "Pq_Receive P message (Some t) = (Inr salt, Some t')"
    using assms by (auto simp: pqr_salt_def clone_state)
  then have "state_wf t'" using receive_wf assms(3) Some by fastforce
  then show ?thesis
    using receive_version [OF t'(2)] assms(2) Some t'(1)
    by (cases "ps_chain t'") (auto simp: pqr_mem_def state_wf_def)
qed (use assms in \<open>simp add: pqr_salt_def\<close>)

lemma message_version_nonzero: "message_version v \<Longrightarrow> v \<noteq> 0" "message_version v \<Longrightarrow> normalizeCiphertextVersion v = Some v"
  by (auto simp: message_version_cases normalizeCiphertextVersion_def CiphertextMessagePreKyberVersion_def CiphertextMessageCurrentVersion_def)

lemma decrypt_live:
  assumes "session_live P s" "decryptSignalWithSession P rnd msg s = (Inr p, s')"
    "length (sm_senderRatchet msg) = 32" "message_version (sm_messageVersion msg)"
  shows "session_mem P s'" "pred_option rcv_inv (se_ratchetState s')" "pred_option state_wf (se_pqrState s')" "rejects msg s'"
  using assms(2)
proof (induction rule: decryptSignalWithSession_Inr)
  fix localID remoteID st mk nxt salt pqr encKey macKey iv
  assume d: "se_localIdentity s = Some localID" "se_remoteIdentity s = Some remoteID" "se_ratchetState s = Some st"
    "normalizeCiphertextVersion (se_version s) \<in> {None, Some (sm_messageVersion msg)}"
    "AdvanceForHeader P rnd (msg_header msg) st = (Inr mk, nxt)"
    "pqr_salt P (sm_pqRatchet msg) (se_pqrState s) salt pqr"
    "se_ratchetState s' = Some nxt" "se_pqrState s' = pqr" "se_localIdentity s' = se_localIdentity s"
    "se_remoteIdentity s' = se_remoteIdentity s" "se_associatedData s' = se_associatedData s"
    "se_previousStates s' = se_previousStates s"
    "se_version s' = (if normalizeCiphertextVersion (se_version s) = None \<and> message_version (sm_messageVersion msg)
       then sm_messageVersion msg else se_version s)"
  have s: "session_ok P s" "rcv_inv st" "state_ok st" "pred_option state_storable (se_pqrState s)" "pred_option state_wf (se_pqrState s)"
    using assms(1) d(3) by (auto simp: session_live_def session_ok_def storable_def)
  have n: "rcv_inv nxt" "state_ok nxt" "consumed (msg_header msg) nxt"
    using AdvanceForHeader_rcv_inv [OF d(5) s(2)] AdvanceForHeader_state_ok [OF d(5) s(3)] AdvanceForHeader_consumed [OF d(5) s(2)] assms(3)
    by (simp_all add: msg_header_def)
  have q: "pred_option pqr_mem pqr" "pred_option state_wf pqr" using pqr_salt_mem [OF d(6) s(4,5)] by simp_all
  note v = message_version_nonzero [OF assms(4)]
  show "session_mem P s'"
    using s(1) d n q v by (auto simp: session_mem_def session_ok_def rcv_inv_def)
  show "pred_option rcv_inv (se_ratchetState s')" "pred_option state_wf (se_pqrState s')" using n(1) q(2) d by simp_all
  show "rejects msg s'" using d n(3) v assms(4) by (auto simp: rejects_def)
qed

lemma clone_mem: "session_mem P s \<Longrightarrow> session_mem P (Session_clone s)"
proof -
  assume s: "session_mem P s"
  have "list_all (pred_option storable) (cloneStateSlice (se_previousStates s)) \<and> length (cloneStateSlice (se_previousStates s)) \<le> 1000"
    using s by (auto simp: session_mem_def cloneStateSlice_def list_all_iff intro: le_trans [OF length_filter_le])
  moreover have "pred_option pqr_mem (Pq_Clone (se_pqrState s))"
  proof (cases "se_pqrState s")
    case (Some t)
    then show ?thesis using s clone_pqr_mem [of t] by (cases "Pq_Clone (Some t)") (auto simp: session_mem_def)
  qed (simp add: Pq_Clone_def)
  ultimately show ?thesis using s by (auto simp: session_mem_def Session_clone_def)
qed

lemma Promote_mem:
  assumes "record_mem P r" "session_mem P s" "Promote ptr (Some s) r = (Inr (), r')"
  shows "record_mem P r'" "rec_current r' = Some (Session_clone s)"
proof -
  obtain cur where cur: "rec_current r = Some cur" "session_mem P cur" using assms(1) by (auto simp: record_mem_def)
  define a where "a = Some (Session_clone cur) # (case ptr of None \<Rightarrow> rec_archived r
    | Some i \<Rightarrow> take i (rec_archived r) @ drop (Suc i) (rec_archived r))"
  have "list_all (\<lambda>a. \<exists>s. a = Some s \<and> session_mem P s) a"
    using assms(1) clone_mem [OF cur(2)] by (auto simp: a_def record_mem_def list_all_iff split: option.splits dest: in_set_takeD in_set_dropD)
  moreover have r': "rec_archived r' = (if int (length a) > rec_maxArchived r then take (nat (rec_maxArchived r)) a else a)"
    "rec_current r' = Some (Session_clone s)" "rec_maxArchived r' = rec_maxArchived r"
    using assms(1,3) cur(1) by (auto simp: Promote_def a_def record_mem_def Let_def split: option.splits if_splits)
  ultimately show "record_mem P r'" "rec_current r' = Some (Session_clone s)"
    using assms(1) clone_mem [OF assms(2)] by (auto simp: record_mem_def list_all_iff dest: in_set_takeD)
qed

section \<open>Messages from the wire\<close>

definition signal_ok :: "'z prims_scheme \<Rightarrow> SignalMessage \<Rightarrow> bool" where
  "signal_ok P m \<longleftrightarrow> wire_key P (sm_senderRatchet m) \<and> message_version (sm_messageVersion m)"

lemma ParseSignalMessage_ok:
  assumes "ParseSignalMessage P W data = Inr m"
  shows "signal_ok P m"
proof -
  have "pred_option (wire_key P) (sv_ratchet v)"
    if "pb_loop W ErrInvalidMessage (signal_field P W)
       \<lparr>sv_ratchet = None, sv_counter = None, sv_previous = 0, sv_ciphertext = None, sv_pq = []\<rparr> body = Inr v" for v body
    by (rule pb_loop_invariant [where Q = "\<lambda>v. pred_option (wire_key P) (sv_ratchet v)", OF _ that])
      (auto simp: signal_field_def split: if_splits dest: DeserializeWirePublicKey_wire_key)
  then have "wire_key P k" if "decodeSignalMessageBody P W body = Inr (k, n, pn, ct, pq)" for body k n pn ct pq
    using that by (fastforce simp: decodeSignalMessageBody_def split: option.splits)
  then show ?thesis
    using assms by (auto simp: ParseSignalMessage_def signal_ok_def message_version_def Let_def not_less split: if_splits)
qed

definition prekey_ok :: "'z prims_scheme \<Rightarrow> PreKeySignalMessage \<Rightarrow> bool" where
  "prekey_ok P m \<longleftrightarrow> signal_ok P (pm_message m) \<and> wire_key P (pm_baseKey m) \<and> wire_key P (ik_PublicKey (pm_identityKey m)) \<and>
     ik_SigningPublic (pm_identityKey m) = zero32"

lemma ParsePreKeySignalMessage_ok:
  assumes "ParsePreKeySignalMessage P W data = Inr m"
  shows "prekey_ok P m"
proof -
  let ?ik = "\<lambda>k. wire_key P (ik_PublicKey k) \<and> ik_SigningPublic k = zero32"
  have "pred_option (wire_key P) (pv_base v) \<and> pred_option ?ik (pv_identity v) \<and> pred_option (signal_ok P) (pv_message v)"
    if "pb_loop W ErrInvalidMessage (prekey_field P W)
       \<lparr>pv_registration = 0, pv_preKey = None, pv_signed = None, pv_kyber = None, pv_kyberCt = [],
        pv_base = None, pv_identity = None, pv_message = None\<rparr> body = Inr v" for v body
    by (rule pb_loop_invariant [where Q = "\<lambda>v. pred_option (wire_key P) (pv_base v) \<and> pred_option ?ik (pv_identity v) \<and> pred_option (signal_ok P) (pv_message v)", OF _ that])
      (auto simp: prekey_field_def split: if_splits dest: DeserializeWirePublicKey_wire_key ParseSignalMessage_ok)
  then show ?thesis
    using assms by (fastforce simp: ParsePreKeySignalMessage_def decodePreKeySignalMessageBody_def prekey_ok_def Let_def split: if_splits option.splits)
qed

section \<open>New sessions\<close>

text \<open>The sizes of the arrays in the result of a handshake.\<close>

definition x3_ok :: "X3Result \<Rightarrow> bool" where
  "x3_ok x \<longleftrightarrow> length (x3r_SharedSecret x) = 32 \<and> (\<forall>k \<in> set_option (x3r_InitialChainKey x). length k = 32) \<and>
     (\<forall>k \<in> set_option (x3r_PQRKey x). length k = 32) \<and> (\<forall>k \<in> set_option (x3r_LocalRatchetKey x). kp_ok k) \<and>
     (\<forall>k \<in> set_option (x3r_LocalEphemeral x). kp_ok k) \<and> (\<forall>k \<in> set_option (x3r_RemoteRatchetKey x). length k = 32) \<and>
     length (x3m_EphemeralKey (x3r_InitialMessage x)) = 32"

lemma InitializeState_ok:
  assumes "InitializeState P rnd (Some x) initiator = Inr st" "x3_ok x"
  shows "storable st \<and> rcv_inv st"
proof -
  have z: "fm_size (fmempty :: (SkippedKey, bytes) fmap) = 0" "fcard {|k|} < 2 ^ 32" for k :: bytes
    by (simp_all add: fm_size_def fcard.rep_eq)
  show ?thesis
    using assms z
    by (auto simp: InitializeState_def InitializeStateWithGenerator_def x3_ok_def storable_def state_ok_def rcv_inv_def Let_def
        split: if_splits option.splits dest!: GenerateKeyPair_ok KDFRoot_length)
qed

lemma secrets_length:
  "deriveLegacySecret P ikm = Inr s \<Longrightarrow> length s = 32"
  "derivePQSecret P ikm = Inr (s, c, q) \<Longrightarrow> length s = 32 \<and> length c = 32 \<and> length q = 32"
  by (auto simp: deriveLegacySecret_def derivePQSecret_def)

lemma responder_ok:
  assumes "ProcessInitialMessage P S True ik spk msg st = (Inr r, st')" "length (x3m_EphemeralKey msg) = 32"
    "\<And>kp. spk_KeyPair spk = Some kp \<Longrightarrow> kp_ok kp"
  shows "x3_ok r" "x3r_InitialMessage r = msg"
proof -
  obtain kp where k: "x3m_SignedPreKeyID msg = spk_ID spk" "spk_KeyPair spk = Some kp"
    using assms(1) by (auto simp: ProcessInitialMessage_def split: if_splits option.splits)
  have pq: "length s = 32 \<and> (\<forall>k \<in> set_option c. length k = 32) \<and> (\<forall>k \<in> set_option q. length k = 32)"
    if "pq_load P S True msg ikm st1 = (Inr (s, c, q), st2)" for ikm st1 s c q st2
    using that secrets_length by (fastforce simp: pq_load_def split: if_splits option.splits)
  show "x3_ok r" "x3r_InitialMessage r = msg"
    using assms(1) unfolding ProcessInitialMessage_parts [OF k]
    by (auto simp: x3_ok_def assms(2,3) k(2) dest!: pq)
qed

end
