(* ===== verification/Session_Store.thy ===== *)
theory Session_Store
  imports Session_Safety
begin

text \<open>
  The ciphers on a store: which sessions an operation changes, when it fails and when it succeeds.
\<close>

lemma case_prod_eq: "(case q of (a, b) \<Rightarrow> f a b) = z \<longleftrightarrow> (\<exists>a b. q = (a, b) \<and> f a b = z)"
  by (cases q) simp

section \<open>The store the ciphers work on\<close>

text \<open>
  Trimming never fails and keeps the session it was called for; identities and pre-keys are kept apart
  from the sessions.
\<close>

locale wire_store = session_store S for S :: "'s ProtocolStore" +
  assumes enforce_ok: "fst (EnforceSessionLimit S a st) = Inr ()"
    and enforce_keeps: "LoadSession S a (snd (EnforceSessionLimit S a st)) = LoadSession S a st"
    and save_identity_sessions: "LoadSession S b (snd (SaveIdentity S a k st)) = LoadSession S b st"
    and remove_prekey_sessions: "LoadSession S b (snd (RemovePreKey S i st)) = LoadSession S b st"

interpretation mem: wire_store "mem_store pick" for pick
  by unfold_locales (auto simp: mem_defs mem_EnforceSessionLimit_def mem_SaveIdentity_def EnforceSessionLimit_loop_keeps
      Let_def split: option.splits)

definition same_sessions :: "'s ProtocolStore \<Rightarrow> 's \<Rightarrow> 's \<Rightarrow> bool" where
  "same_sessions S st st' \<longleftrightarrow> (\<forall>a. LoadSession S a st' = LoadSession S a st)"

lemma same_sessions_refl [simp]: "same_sessions S st st"
  by (simp add: same_sessions_def)

lemma same_sessions_trans: "same_sessions S st st1 \<Longrightarrow> same_sessions S st1 st2 \<Longrightarrow> same_sessions S st st2"
  by (simp add: same_sessions_def)

definition failure_keeps :: "('s \<Rightarrow> 's \<Rightarrow> bool) \<Rightarrow> 's \<Rightarrow> 'a res \<times> 's \<Rightarrow> bool" where
  "failure_keeps R st r \<longleftrightarrow> (\<forall>e st'. r = (Inl e, st') \<longrightarrow> R st st')"

lemma loadRecordOptional_iff:
  "loadRecordOptional P S addr st = Inr (Some r) \<longleftrightarrow>
     (\<exists>d. LoadSession S addr st = Inr (Some d) \<and> d \<noteq> [] \<and> DeserializeRecord P d = Inr r)"
proof (cases "LoadSession S addr st")
  case (Inr rc)
  have "\<exists>s. Current (Some r) = Some s" if "DeserializeRecord P d = Inr r" for d r
    using session_record_decoded [OF that] by (auto simp: record_ok_def Current_def)
  then show ?thesis using Inr by (cases rc) (fastforce simp: loadRecordOptional_def split: if_splits sum.splits)+
qed (simp add: loadRecordOptional_def)

lemma loaded_record_ok: "loadRecordOptional P S addr st = Inr (Some r) \<Longrightarrow> record_ok P r"
  by (auto simp: loadRecordOptional_iff dest: session_record_decoded)

lemma loaded_record_required: "loadRecordRequired P S addr st = Inr r \<Longrightarrow> loadRecordOptional P S addr st = Inr (Some r)"
  by (auto simp: loadRecordRequired_def split: option.splits)

context wire_store
begin

lemma persistRecord_cases:
  obtains (failed) e where "persistRecord S a r st = (Inl e, st)"
  | (stored) s d st' where "persistRecord S a r st = (Inr (), st')" "r = Some s" "rec_current s \<noteq> None" "Record_Serialize r = Inr d"
      "LoadSession S a st' = Inr (Some d)"
proof (cases "\<exists>d s. Record_Serialize r = Inr d \<and> r = Some s \<and> rec_current s \<noteq> None")
  case True
  then obtain d s where d: "Record_Serialize r = Inr d" "r = Some s" "rec_current s \<noteq> None" by blast
  obtain st1 where 1: "StoreSession S a (Some d) st = (Inr (), st1)"
    using store_session_ok [of a d st] by (cases "StoreSession S a (Some d) st") simp
  obtain st2 where 2: "EnforceSessionLimit S a st1 = (Inr (), st2)"
    using enforce_ok [of a st1] by (cases "EnforceSessionLimit S a st1") simp
  have "LoadSession S a st2 = Inr (Some d)"
    using enforce_keeps [of a st1] store_session [OF 1, of a] 2 by simp
  then show ?thesis using d 1 2 by (intro stored) (auto simp: persistRecord_def Current_def)
next
  case False
  then show ?thesis
    by (intro failed [of "if Current r = None then ErrNoSession else ErrInvalidMessage"])
      (auto simp: persistRecord_def Current_def split: sum.splits option.splits)
qed

lemma persistRecord_Inl: "persistRecord S a r st = (Inl e, st') \<Longrightarrow> st' = st"
  by (rule persistRecord_cases [of a r st]) simp_all

end

section \<open>What a failed decryption leaves in the store\<close>

text \<open>
  The ciphers touch the store in three places before they can fail: they record the identity of the
  address, remove the one-time pre-key that a pre-key message names, and store the record, which
  comes last.  A relation between stores that allows the first two therefore relates the store before
  a failed decryption to the store after it.
\<close>

locale store_frame =
  fixes S :: "'s ProtocolStore" and addr :: Address and R :: "'s \<Rightarrow> 's \<Rightarrow> bool"
  assumes R_refl [simp]: "R st st"
    and R_trans: "R st st1 \<Longrightarrow> R st1 st2 \<Longrightarrow> R st st2"
    and R_identity: "R st (snd (SaveIdentity S addr k st))"
    and R_prekey: "R st (snd (RemovePreKey S i st))"
    and R_persist: "persistRecord S addr r st = (Inl e, st') \<Longrightarrow> R st st'"
begin

lemma bindS_keeps:
  assumes "R st (snd r)" "\<And>a s. r = (Inr a, s) \<Longrightarrow> R s (snd (f a s))"
  shows "R st (snd (bindS r f))"
  using assms by (auto simp: bindS_def intro: R_trans split: prod.splits sum.splits)

lemma failure_keeps_bind:
  assumes "R st (snd r)" "\<And>a s. r = (Inr a, s) \<Longrightarrow> failure_keeps R s (f a s)"
  shows "failure_keeps R st (bindS r f)"
  using assms by (auto simp: bindS_def failure_keeps_def intro: R_trans split: prod.splits sum.splits)

lemma failure_keeps_simps [simp]: "failure_keeps R st (Inl e, st)" "failure_keeps R st (Inr a, st')"
  by (simp_all add: failure_keeps_def)

lemma persistRecord_failure: "failure_keeps R st (bindS (persistRecord S addr r st) (\<lambda>_ st. (Inr p, st)))"
  using R_persist by (auto simp: bindS_def failure_keeps_def split: prod.splits sum.splits)

lemma ProcessInitialMessage_keeps: "R st (snd (ProcessInitialMessage P S k ik spk msg st))"
proof (cases "\<exists>kp. x3m_SignedPreKeyID msg = spk_ID spk \<and> spk_KeyPair spk = Some kp")
  case True
  then obtain kp where k: "x3m_SignedPreKeyID msg = spk_ID spk" "spk_KeyPair spk = Some kp" by blast
  have "R st (snd (otp_load P S msg ikm st))" for ikm st
    unfolding otp_load_def by (auto intro!: bindS_keeps R_prekey split: option.splits)
  moreover have "R st (snd (pq_load P S k msg ikm st))" for ikm st
    unfolding pq_load_def by (auto intro!: bindS_keeps split: option.splits)
  ultimately show ?thesis
    unfolding ProcessInitialMessage_parts [OF k] by (intro bindS_keeps) (simp_all split: prod.splits)
qed (auto simp: ProcessInitialMessage_def split: option.splits)

lemma Builder_ProcessPreKeyMessage_keeps: "R st (snd (Builder_ProcessPreKeyMessage P rnd now S addr msg st))"
  unfolding Builder_ProcessPreKeyMessage_def Let_def
  by (auto intro!: bindS_keeps ProcessInitialMessage_keeps R_identity split: option.splits)

text \<open>The last part of a decryption with a pre-key message: a new session, tried and then stored.\<close>

lemma new_session_failure:
  "failure_keeps R st (bindS (Builder_ProcessPreKeyMessage P rnd now S addr msg st) (\<lambda>(session, _) st.
      let (r, session) = dec session in
      bindS (r, st) (\<lambda>plaintext st.
      bindS (mk session st) (\<lambda>record st.
      bindS (persistRecord S addr (Some record) st) (\<lambda>_ st.
      (Inr plaintext, st))))))"
  if "\<And>session st. snd (mk session st) = st"
  using that by (intro failure_keeps_bind Builder_ProcessPreKeyMessage_keeps)
    (auto intro!: failure_keeps_bind persistRecord_failure split: prod.splits)

lemma WireCipher_decryptPreKeyMessage_failure:
  "failure_keeps R st (WireCipher_decryptPreKeyMessage P rnd rndB now S addr record msg st)"
  unfolding WireCipher_decryptPreKeyMessage_def
  by (cases "record")
    (auto simp: Let_def split: prod.splits sum.splits intro!: persistRecord_failure new_session_failure [unfolded Let_def])

lemma WireCipher_Decrypt_failure:
  "failure_keeps R st (WireCipher_Decrypt P W rnd rndB now S addr ciphertext st)"
  unfolding WireCipher_Decrypt_def
  by (auto intro!: failure_keeps_bind persistRecord_failure WireCipher_decryptPreKeyMessage_failure
      split: sum.splits option.splits prod.splits)

lemma Cipher_decryptPreKeyMessage_failure:
  "failure_keeps R st (Cipher_decryptPreKeyMessage P rnd rndB now S addr payload st)"
  unfolding Cipher_decryptPreKeyMessage_def
  by (auto simp: Let_def intro!: failure_keeps_bind persistRecord_failure new_session_failure [unfolded Let_def]
      split: sum.splits option.splits prod.splits)

lemma Session_Cipher_Decrypt_failure:
  "failure_keeps R st (Cipher_Decrypt P rnd rndB now S addr data st)"
  unfolding Cipher_Decrypt_def
  by (auto intro!: failure_keeps_bind persistRecord_failure Cipher_decryptPreKeyMessage_failure split: prod.splits)

end

sublocale wire_store \<subseteq> frame: store_frame S addr "same_sessions S" for addr
  by unfold_locales
    (auto simp: same_sessions_def save_identity_sessions remove_prekey_sessions dest: persistRecord_Inl)

text \<open>
  On the store in memory, more exactly: at most the identity recorded for the address differs, and
  one-time pre-keys are missing.
\<close>

definition keys_touched :: "Address \<Rightarrow> Store \<Rightarrow> Store \<Rightarrow> bool" where
  "keys_touched addr m m' \<longleftrightarrow> m' = m\<lparr>s_preKeys := s_preKeys m', s_identities := s_identities m'\<rparr> \<and>
     fmsubset (s_preKeys m') (s_preKeys m) \<and>
     (\<forall>a. a \<noteq> addr \<longrightarrow> fmlookup (s_identities m') a = fmlookup (s_identities m) a)"

interpretation mem_frame: store_frame "mem_store pick" addr "keys_touched addr" for pick addr
proof unfold_locales
  fix m m1 m2 assume a: "keys_touched addr m m1" "keys_touched addr m1 m2"
  have "m2 = m\<lparr>s_preKeys := s_preKeys m2, s_identities := s_identities m2\<rparr>"
    using a by (cases m; cases m1; cases m2) (simp add: keys_touched_def)
  with a show "keys_touched addr m m2" by (auto simp: keys_touched_def fmsubset.rep_eq intro: map_le_trans)
next
  fix k m show "keys_touched addr m (snd (SaveIdentity (mem_store pick) addr k m))"
    by (auto simp: keys_touched_def mem_store_def mem_SaveIdentity_def Let_def fmsubset.rep_eq split: option.splits)
next
  fix i m show "keys_touched addr m (snd (RemovePreKey (mem_store pick) i m))"
    by (auto simp: keys_touched_def mem_store_def mem_RemovePreKey_def fmsubset.rep_eq map_le_def)
next
  fix r m e m' assume "persistRecord (mem_store pick) addr r m = (Inl e, m')"
  then have "m' = m" by (rule mem.persistRecord_Inl)
  then show "keys_touched addr m m'" by (simp add: keys_touched_def fmsubset.rep_eq)
qed (simp add: keys_touched_def fmsubset.rep_eq)

context wire_store
begin

text \<open>Where no session is built, nothing is touched.\<close>

lemma persist_untouched: "bindS (persistRecord S a r st) (\<lambda>_ st. (Inr p, st)) = (Inl e, st') \<Longrightarrow> st' = st"
  by (rule persistRecord_cases [of a r st]) simp_all

lemma Decrypt_signal_failure:
  assumes "WireCipher_Decrypt P W rnd rndB now S addr data st = (Inl e, st')" "ParseSignalMessage P W data = Inr m"
  shows "st' = st"
proof (cases "loadRecordOptional P S addr st")
  case (Inr rc)
  show ?thesis
  proof (cases rc)
    case (Some r)
    obtain q r' where q: "decryptSignalMessage P rnd m r = (q, r')" by (cases "decryptSignalMessage P rnd m r")
    show ?thesis
      using assms Inr Some q by (cases q) (auto simp: WireCipher_Decrypt_def dest: persist_untouched)
  qed (use assms Inr in \<open>simp add: WireCipher_Decrypt_def\<close>)
qed (use assms in \<open>simp add: WireCipher_Decrypt_def\<close>)

lemma WireCipher_Decrypt_untouched:
  assumes "WireCipher_Decrypt P W rnd rndB now S addr data st = (Inl e, st')"
    and "isOk (ParseSignalMessage P W data) \<or> \<not> isOk (ParsePreKeySignalMessage P W data)"
  shows "st' = st"
proof (cases "ParseSignalMessage P W data")
  case (Inl e1)
  then obtain e2 where "ParsePreKeySignalMessage P W data = Inl e2"
    using assms(2) by (cases "ParsePreKeySignalMessage P W data") auto
  with assms(1) Inl show ?thesis
    by (cases "loadRecordOptional P S addr st") (simp_all add: WireCipher_Decrypt_def)
qed (rule Decrypt_signal_failure [OF assms(1)])

lemma Cipher_Decrypt_untouched:
  assumes "Cipher_Decrypt P rnd rndB now S addr data st = (Inl e, st')"
    and "\<And>payload. decodeEnvelope data \<noteq> Inr (envelopeTypePreKey, payload)"
  shows "st' = st"
proof (cases "decodeEnvelope data")
  case (Inr x)
  obtain ty payload where x: "x = (ty, payload)" by (cases x)
  show ?thesis
  proof (cases "ty = envelopeTypeSignal")
    case True
    show ?thesis
    proof (cases "decodeRatchetMessage payload"; cases "loadRecordRequired P S addr st")
      fix m r assume m: "decodeRatchetMessage payload = Inr m" "loadRecordRequired P S addr st = Inr r"
      obtain q r' where q: "decryptRatchetMessage P rnd m r = (q, r')" by (cases "decryptRatchetMessage P rnd m r")
      show ?thesis
        using assms(1) Inr x True m q by (cases q) (auto simp: Cipher_Decrypt_def dest: persist_untouched)
    qed (use assms(1) Inr x True in \<open>simp_all add: Cipher_Decrypt_def\<close>)
  qed (use assms Inr x in \<open>auto simp: Cipher_Decrypt_def split: if_splits\<close>)
qed (use assms(1) in \<open>simp add: Cipher_Decrypt_def\<close>)

end

section \<open>What an accepted ciphertext leaves in the store\<close>

definition record_sessions :: "Record \<Rightarrow> Session set" where
  "record_sessions r = {s. rec_current r = Some s \<or> Some s \<in> set (rec_archived r)}"

definition record_live :: "'z prims_scheme \<Rightarrow> Record \<Rightarrow> bool" where
  "record_live P r \<longleftrightarrow> record_ok P r \<and> (\<forall>s \<in> record_sessions r. session_live P s)"

text \<open>The record is stored, and a copy of the message will be found to be one by the current session.\<close>

definition accepted :: "'z prims_scheme \<Rightarrow> SignalMessage \<Rightarrow> Record \<Rightarrow> bool" where
  "accepted P msg r \<longleftrightarrow> record_mem P r \<and> (\<exists>s. rec_current r = Some s \<and> rejects msg s)"

lemma decryptSignalMessage_accepted:
  assumes "record_live P r" "signal_ok P msg" "decryptSignalMessage P rnd msg r = (Inr p, r')"
  shows "accepted P msg r'"
proof -
  have r: "record_mem P r" "0 \<le> rec_maxArchived r"
    using assms(1) by (auto simp: record_live_def record_ok_mem record_ok_def)
  have m: "length (sm_senderRatchet msg) = 32" "message_version (sm_messageVersion msg)"
    using assms(2) by (auto simp: signal_ok_def wire_key_def)
  from r(2) assms(3) [unfolded decryptSignalMessage_def] show ?thesis
  proof (cases rule: wire.decrypt_record_cases)
    case (current s s' p)
    then have "session_live P s" using assms(1) by (auto simp: record_live_def record_sessions_def)
    with current m have "session_mem P s'" "rejects msg s'" by (blast intro: decrypt_live)+
    then show ?thesis using current r(1) by (auto simp: accepted_def record_mem_def)
  next
    case (archived j s s' p)
    then have "session_live P s" using assms(1) nth_mem [of j "rec_archived r"] by (auto simp: record_live_def record_sessions_def)
    with archived m have s': "session_mem P s'" "rejects msg s'" by (blast intro: decrypt_live)+
    then have "record_mem P (r\<lparr>rec_archived := (rec_archived r)[j := Some s']\<rparr>)"
      using r(1) by (auto simp: record_mem_def list_all_iff dest: set_update_subset_insert [THEN subsetD])
    then show ?thesis using Promote_mem [OF _ s'(1) archived(5)] rejects_copies(1) [OF s'(2)] by (auto simp: accepted_def)
  qed simp
qed

text \<open>What the keys in the store have to satisfy for the sessions built with them to be stored.\<close>

definition keys_ok :: "'z prims_scheme \<Rightarrow> 's ProtocolStore \<Rightarrow> 's \<Rightarrow> bool" where
  "keys_ok P S st \<longleftrightarrow> (\<forall>ik. GetIdentityKeyPair S st = Inr (Some ik) \<longrightarrow> ik_ok P (ikp_PublicKey ik)) \<and>
     (\<forall>i spk kp. LoadSignedPreKey S i st = Inr (Some spk) \<and> spk_KeyPair spk = Some kp \<longrightarrow> kp_ok kp)"

lemma NewPqState_live:
  assumes "NewPqState P key dir params = Inr t" "length key = 32" "dir \<in> {DirectionA2B, DirectionB2A}"
  shows "state_storable t \<and> state_wf t"
proof -
  have "state_wf t" using assms by (auto simp: NewPqState_def intro: NewState_wf)
  moreover have "ps_version t = VersionV1 \<and> ps_v1 t \<noteq> None \<and> ps_chain t = None"
    using assms by (auto simp: NewPqState_def NewStateWithMinVersion_def split: if_splits)
  ultimately show ?thesis by (auto intro: state_storableI)
qed

lemma new_session_live:
  assumes "InitializeState P rnd (Some x) initiator = Inr state" "x3_ok x" "ik_ok P l" "ik_ok P r"
    "NewSession (Some state) (Some l) (Some r) ad = Inr s" "initSessionPQR P x initiator s = Inr s'"
  shows "session_live P (setSessionCiphertextVersion v s')"
proof -
  have st: "storable state" "rcv_inv state" using InitializeState_ok [OF assms(1,2)] by simp_all
  have s: "s = \<lparr>se_ratchetState = Some state, se_pqrState = None, se_localIdentity = Some l, se_remoteIdentity = Some r,
      se_associatedData = ad, se_previousStates = [], se_version = CurrentVersion\<rparr>"
    using assms(5) by (simp add: NewSession_def)
  have q: "state_storable t \<and> state_wf t" if "NewPqState P key (if initiator then DirectionA2B else DirectionB2A) ps = Inr t"
    "x3r_PQRKey x = Some key" for key t ps
    using NewPqState_live [OF that(1)] that(2) assms(2) by (simp add: x3_ok_def)
  have "session_live P s'"
    using assms(3,4,6) st q by (auto simp: initSessionPQR_def s session_live_def session_ok_def CurrentVersion_def Let_def split: option.splits)
  moreover have "normalizeCiphertextVersion v = Some w \<Longrightarrow> w \<noteq> 0" for w
    by (auto simp: normalizeCiphertextVersion_def CiphertextMessagePreKyberVersion_def split: if_splits)
  ultimately show ?thesis
    by (auto simp: setSessionCiphertextVersion_def session_live_def session_ok_def split: option.splits)
qed

lemma Builder_ProcessPreKeyMessage_live:
  assumes "Builder_ProcessPreKeyMessage P rnd now S addr msg st = (Inr (s, ad), st')" "keys_ok P S st"
    "length (x3m_EphemeralKey msg) = 32" "ik_ok P (x3m_IdentityKey msg)"
  shows "session_live P s"
proof -
  obtain ik where ik: "GetIdentityKeyPair S st = Inr (Some ik)"
    and tr: "IsTrustedIdentity S addr (Some (x3m_IdentityKey msg)) DirectionReceiving st"
    using assms(1) by (auto simp: Builder_ProcessPreKeyMessage_def split: if_splits option.splits)
  obtain spk where spk: "LoadSignedPreKey S (x3m_SignedPreKeyID msg) st = Inr (Some spk)"
    and ex: "\<not> SignedPreKeyExpired S (Some spk) now st"
    using assms(1) ik tr by (auto simp: Builder_ProcessPreKeyMessage_def split: if_splits option.splits)
  obtain x st1 state s1 s2 where x: "ProcessInitialMessage P S True ik spk msg st = (Inr x, st1)"
    "InitializeState P rnd (Some x) False = Inr state"
    "NewSession (Some state) (Some (ikp_PublicKey ik)) (Some (x3m_IdentityKey msg)) (x3r_AssociatedData x) = Inr s1"
    "initSessionPQR P x False s1 = Inr s2" "s = setSessionCiphertextVersion (ciphertextVersionFromX3DH (Some msg)) s2"
    using assms(1) ik tr spk ex by (auto simp: Builder_ProcessPreKeyMessage_def Let_def)
  have "x3_ok x" using responder_ok(1) [OF x(1) assms(3)] assms(2) spk by (auto simp: keys_ok_def)
  then show ?thesis
    using new_session_live [OF x(2) _ _ assms(4) x(3,4)] assms(2) ik x(5) by (auto simp: keys_ok_def)
qed

text \<open>The signal message of a ciphertext of either kind.\<close>

definition message_of :: "'z prims_scheme \<Rightarrow> pwire \<Rightarrow> bytes \<Rightarrow> SignalMessage option" where
  "message_of P W ciphertext =
     (case ParseSignalMessage P W ciphertext of
        Inr msg \<Rightarrow> Some msg
      | Inl _ \<Rightarrow> (case ParsePreKeySignalMessage P W ciphertext of Inr m \<Rightarrow> Some (pm_message m) | Inl _ \<Rightarrow> None))"

definition live_sessions :: "'z prims_scheme \<Rightarrow> 's ProtocolStore \<Rightarrow> Address \<Rightarrow> 's \<Rightarrow> bool" where
  "live_sessions P S addr st \<longleftrightarrow> (\<forall>r. loadRecordOptional P S addr st = Inr (Some r) \<longrightarrow> record_live P r)"

lemma clone_accepted:
  "session_mem P s \<Longrightarrow> rejects msg s \<Longrightarrow> NewRecord (Some s) DefaultMaxArchivedSessions = Inr r \<Longrightarrow> accepted P msg r"
  by (auto simp: NewRecord_def accepted_def record_mem_def DefaultMaxArchivedSessions_def clone_mem rejects_copies)

lemma WireCipher_decryptPreKeyMessage_accepted:
  assumes "WireCipher_decryptPreKeyMessage P rnd rndB now S addr record msg st = (Inr p, st')" "prekey_ok P msg"
    "\<And>r. record = Some r \<Longrightarrow> record_live P r" "keys_ok P S st"
  shows "\<exists>r st1. persistRecord S addr (Some r) st1 = (Inr (), st') \<and> accepted P (pm_message msg) r"
proof -
  let ?m = "pm_message msg"
  let ?x = "\<lparr>x3m_IdentityKey = pm_identityKey msg, x3m_EphemeralKey = pm_baseKey msg,
      x3m_PreKeyID = pm_preKeyID msg, x3m_SignedPreKeyID = pm_signedPreKeyID msg,
      x3m_KyberPreKeyID = pm_kyberPreKeyID msg, x3m_KyberCiphertext = pm_kyberCiphertext msg,
      x3m_Ciphertext = sm_serialized (pm_message msg)\<rparr>"
  have ok: "signal_ok P ?m" "length (pm_baseKey msg) = 32" "ik_ok P (pm_identityKey msg)"
    "length (sm_senderRatchet ?m) = 32" "message_version (sm_messageVersion ?m)"
    using assms(2) by (auto simp: prekey_ok_def signal_ok_def wire_key_def ik_ok_def zero32_def)
  have new: "session_mem P s' \<and> rejects ?m s'"
    if "Builder_ProcessPreKeyMessage P rndB now S addr ?x st = (Inr (s, ad), st1)" "decryptSignalWithSession P (rndB 2) ?m s = (Inr p, s')"
    for s ad st1 s' p
  proof -
    have "session_live P s" by (rule Builder_ProcessPreKeyMessage_live [OF that(1) assms(4)]) (simp_all add: ok)
    then show ?thesis using that(2) ok(4,5) by (blast intro: decrypt_live)
  qed
  show ?thesis
  proof (cases "record")
    case None
    then obtain s ad st1 s' r where "Builder_ProcessPreKeyMessage P rndB now S addr ?x st = (Inr (s, ad), st1)"
      "decryptSignalWithSession P (rndB 2) ?m s = (Inr p, s')" "NewRecord (Some s') DefaultMaxArchivedSessions = Inr r"
      "persistRecord S addr (Some r) st1 = (Inr (), st')"
      using assms(1) by (auto simp: WireCipher_decryptPreKeyMessage_def Let_def case_prod_eq)
    then show ?thesis using new clone_accepted by blast
  next
    case (Some rc)
    have live: "record_live P rc" "record_mem P rc" "0 \<le> rec_maxArchived rc"
      using assms(3) [OF Some] by (auto simp: record_live_def record_ok_mem record_ok_def)
    obtain res rc' where d: "decryptSignalMessage P rnd ?m rc = (res, rc')" by (cases "decryptSignalMessage P rnd ?m rc")
    show ?thesis
    proof (cases res)
      case (Inr q)
      then show ?thesis
        using assms(1) Some d decryptSignalMessage_accepted [OF live(1) ok(1) d [unfolded Inr]]
        by (auto simp: WireCipher_decryptPreKeyMessage_def)
    next
      case (Inl e)
      then have "rc' = rc" using d live(3) by (auto simp: decryptSignalMessage_def dest: wire.decrypt_record_failed [rotated])
      moreover have "accepted P ?m r" if "session_mem P s'" "rejects ?m s'" "Promote None (Some s') rc = (Inr (), r)" for s' r
        using Promote_mem [OF live(2) that(1,3)] rejects_copies(1) [OF that(2)] by (simp add: accepted_def)
      moreover obtain s ad st1 s' r where "Builder_ProcessPreKeyMessage P rndB now S addr ?x st = (Inr (s, ad), st1)"
        "decryptSignalWithSession P (rndB 2) ?m s = (Inr p, s')" "Promote None (Some s') rc' = (Inr (), r)"
        "persistRecord S addr (Some r) st1 = (Inr (), st')"
        using assms(1) Some d Inl by (auto simp: WireCipher_decryptPreKeyMessage_def Let_def case_prod_eq split: if_splits)
      ultimately show ?thesis using new by blast
    qed
  qed
qed

lemma WireCipher_Decrypt_accepted:
  assumes "WireCipher_Decrypt P W rnd rndB now S addr ciphertext st = (Inr p, st')" "live_sessions P S addr st" "keys_ok P S st"
  obtains msg r st1 where "message_of P W ciphertext = Some msg" "persistRecord S addr (Some r) st1 = (Inr (), st')" "accepted P msg r"
proof -
  obtain rc where rc: "loadRecordOptional P S addr st = Inr rc" using assms(1) by (auto simp: WireCipher_Decrypt_def)
  then have live: "\<And>r. rc = Some r \<Longrightarrow> record_live P r" using assms(2) by (simp add: live_sessions_def)
  show thesis
  proof (cases "ParseSignalMessage P W ciphertext")
    case (Inr msg)
    obtain r where r: "rc = Some r" using assms(1) rc Inr by (cases rc) (auto simp: WireCipher_Decrypt_def)
    then show thesis
      using assms(1) rc Inr decryptSignalMessage_accepted [OF live [OF r] ParseSignalMessage_ok [OF Inr]]
      by (auto simp: WireCipher_Decrypt_def message_of_def split: prod.splits intro!: that)
  next
    case (Inl e)
    then obtain m where "ParsePreKeySignalMessage P W ciphertext = Inr m"
      "WireCipher_decryptPreKeyMessage P rnd rndB now S addr rc m st = (Inr p, st')"
      using assms(1) rc by (auto simp: WireCipher_Decrypt_def)
    then show thesis
      using WireCipher_decryptPreKeyMessage_accepted [OF _ ParsePreKeySignalMessage_ok live assms(3)] Inl
      by (fastforce simp: message_of_def intro: that)
  qed
qed

lemma rejected_again:
  assumes "message_of P W ciphertext = Some msg" "loadRecordOptional P S addr st = Inr (Some r)" "rec_current r = Some s" "rejects msg s"
  shows "WireCipher_Decrypt P W rnd rndB now S addr ciphertext st = (Inl ErrDuplicateMessage, st)"
proof -
  have "decryptSignalMessage P rnd msg r = (Inl ErrDuplicateMessage, r)"
    using assms(3) rejects_duplicate [OF assms(4), of P "rnd 0"] by (simp add: decryptSignalMessage_def decrypt_record_def)
  then show ?thesis
    using assms(1,2) by (auto simp: WireCipher_Decrypt_def WireCipher_decryptPreKeyMessage_def message_of_def split: sum.splits)
qed

context wire_store
begin

lemma persist_reload:
  assumes "persistRecord S a (Some r) st = (Inr (), st')" "record_mem P r"
    "\<And>d. LoadSession S a st' = Inr (Some d) \<Longrightarrow> length d < 2 ^ 32"
  shows "loadRecordOptional P S a st' = Inr (Some (stored_record r))"
proof (rule persistRecord_cases [of a "Some r" st])
  fix d st1 assume d: "persistRecord S a (Some r) st = (Inr (), st1)" "Record_Serialize (Some r) = Inr d" "LoadSession S a st1 = Inr (Some d)"
  then have "DeserializeRecord P d = Inr (stored_record r)" using assms record_reload by auto
  moreover have "d \<noteq> []" using calculation by (auto simp: DeserializeRecord_def recordMinSize_def)
  ultimately show ?thesis using d(1,3) assms(1) by (auto simp: loadRecordOptional_iff)
qed (use assms(1) in simp)

lemma no_replay:
  assumes "WireCipher_Decrypt P W rnd rndB now S addr ciphertext st = (Inr p, st')" "live_sessions P S addr st" "keys_ok P S st"
    "\<And>d. LoadSession S addr st' = Inr (Some d) \<Longrightarrow> length d < 2 ^ 32"
  shows "WireCipher_Decrypt P W rnd' rndB' now' S addr ciphertext st' = (Inl ErrDuplicateMessage, st')"
  using assms(1-3)
proof (rule WireCipher_Decrypt_accepted)
  fix msg r st1 assume a: "message_of P W ciphertext = Some msg" "persistRecord S addr (Some r) st1 = (Inr (), st')" "accepted P msg r"
  then obtain s where s: "rec_current r = Some s" "rejects msg s" by (auto simp: accepted_def)
  have "loadRecordOptional P S addr st' = Inr (Some (stored_record r))"
    using a(2,3) assms(4) by (auto simp: accepted_def intro: persist_reload)
  then show ?thesis
    by (rule rejected_again [where s = "stored_session s", OF a(1)]) (use s rejects_copies in \<open>simp_all add: stored_record_def\<close>)
qed

end

end
