(* ===== verification/Session_Network.thy ===== *)
theory Session_Network
  imports Session_Store
begin

text \<open>
  Two parties with a session each: from a handshake over a published bundle, through any interleaving of
  encryptions and deliveries, with every session written to a store and read back between two
  operations.  The double ratchet and the post-quantum ratchet stay in step, so that a ciphertext that
  is accepted gives the plaintext that was sent.
\<close>

section \<open>The post-quantum ratchets of the two sides\<close>

abbreviation pq_params :: ChainParams where
  "pq_params \<equiv> \<lparr>cp_MaxJump = 0, cp_MaxOOO = 0\<rparr>"

type_synonym pq_log = "party \<Rightarrow> (bytes \<times> bytes) list"

definition log_size :: "pq_log \<Rightarrow> nat" where
  "log_size L = length (L Alice) + length (L Bob)"

definition pq_linked :: "'z pq_prims_scheme \<Rightarrow> bool \<Rightarrow> (party \<Rightarrow> PqState option) \<Rightarrow> pq_log \<Rightarrow> bool" where
  "pq_linked P pq q L \<longleftrightarrow>
     (if pq then \<exists>auth a b. q Alice = Some a \<and> q Bob = Some b \<and> agreed P auth pq_params a b (L Alice) (L Bob)
      else \<forall>x. q x = None)"

lemma agreed_live:
  assumes "agreed P auth params a b sA sB"
  shows "ps_version a = VersionV1 \<and> ps_v1 a \<noteq> None \<and> ps_version b = VersionV1 \<and> ps_v1 b \<noteq> None"
  using assms by (auto simp: agreed_def SPQR_State.linked_def SPQR_State.linked_at_def party_def)

lemma pq_linked_live:
  assumes "pq_linked P pq q L" "q x = Some t"
  shows "pq" "ps_version t = VersionV1" "ps_v1 t \<noteq> None"
  using assms agreed_live by (cases x; fastforce simp: pq_linked_def split: if_splits)+

lemma pq_linked_send:
  assumes "pq_linked P pq q L" "mlkem_ok P" "log_size L + 3000 < 2 ^ 32" "q x = Some t"
  shows "\<exists>m k t'. Pq_Send P (Inr r) (Some t) = (Inr (m, k), Some t') \<and> pq_linked P pq (q(x := Some t')) (L(x := (m, k) # L x)) \<and>
     (Suc (length (L x)) \<le> 25000 \<longrightarrow> (\<exists>u u'. q (peer x) = Some u \<and> Pq_Receive P m (Some u) = (Inr k, Some u')))"
proof -
  obtain auth a b where ab: "pq" "q Alice = Some a" "q Bob = Some b" "agreed P auth pq_params a b (L Alice) (L Bob)"
    using assms(1,4) pq_linked_live(1) by (fastforce simp: pq_linked_def)
  have n: "Suc (length (L Alice) + length (L Bob)) + unat (maxOOO pq_params) < 2 ^ 32" "unat (maxJump pq_params) = 25000"
    using assms(3) by (simp_all add: log_size_def maxOOO_def maxJump_def chainDefaultMaxOOO_def chainDefaultMaxJump_def)
  show ?thesis
    using agreed_send [OF ab(4) assms(2) n(1), of r] ab assms(4) n(2)
    by (cases x) (auto simp: pq_linked_def)
qed

lemma pq_linked_recv:
  assumes "pq_linked P pq q L" "mlkem_ok P" "log_size L + 3000 < 2 ^ 32" "q x = Some t"
    "(m, k) \<in> set (L (peer x))" "Pq_Receive P m (Some t) = (Inr k', t')"
  shows "k' = k \<and> pq_linked P pq (q(x := t')) L"
proof -
  obtain auth a b where ab: "pq" "q Alice = Some a" "q Bob = Some b" "agreed P auth pq_params a b (L Alice) (L Bob)"
    using assms(1,4) pq_linked_live(1) by (fastforce simp: pq_linked_def)
  have n: "length (L Alice) + length (L Bob) + unat (maxOOO pq_params) < 2 ^ 32"
    using assms(3) by (simp add: log_size_def maxOOO_def chainDefaultMaxOOO_def)
  show ?thesis
    using agreed_recv [OF ab(4) assms(2) n, of m k] ab assms(4-)
    by (cases x) (fastforce simp: pq_linked_def)+
qed

section \<open>Linked sessions\<close>

text \<open>
  \<open>K\<close> holds the message keys each side has sent under, \<open>L\<close> what its post-quantum ratchet has sent, \<open>ident\<close> the
  public identities, \<open>v\<close> the version of the messages.
\<close>

definition ratchets :: "(party \<Rightarrow> Session) \<Rightarrow> party \<Rightarrow> State" where
  "ratchets s x = the (se_ratchetState (s x))"

definition sessions_linked :: "'z pq_prims_scheme \<Rightarrow> bool \<Rightarrow> byte \<Rightarrow> (party \<Rightarrow> bytes) \<Rightarrow> (party \<Rightarrow> Session) \<Rightarrow>
    (party \<Rightarrow> sent_key set) \<Rightarrow> pq_log \<Rightarrow> bool" where
  "sessions_linked P pq v ident s K L \<longleftrightarrow>
     paired P (ratchets s) K \<and> pq_linked P pq (\<lambda>x. se_pqrState (s x)) L \<and>
     (\<forall>x. se_ratchetState (s x) \<noteq> None \<and> normalizeCiphertextVersion (se_version (s x)) = Some v \<and>
        map_option ik_PublicKey (se_localIdentity (s x)) = Some (ident x) \<and>
        map_option ik_PublicKey (se_remoteIdentity (s x)) = Some (ident (peer x)))"

lemma sessions_linked_identities:
  assumes "sessions_linked P pq v ident s K L"
  shows "se_localIdentity (s x) = Some i \<Longrightarrow> ik_PublicKey i = ident x" "se_remoteIdentity (s x) = Some j \<Longrightarrow> ik_PublicKey j = ident (peer x)"
  using assms unfolding sessions_linked_def by (auto elim!: allE [of _ x])

lemma sessions_linked_upd:
  assumes "sessions_linked P pq v ident s K L" "paired P ((ratchets s)(x := st')) K'" "pq_linked P pq ((\<lambda>x. se_pqrState (s x))(x := se_pqrState s')) L'"
    "se_ratchetState s' = Some st'" "se_version s' = se_version (s x)" "se_localIdentity s' = se_localIdentity (s x)"
    "se_remoteIdentity s' = se_remoteIdentity (s x)"
  shows "sessions_linked P pq v ident (s(x := s')) K' L'"
proof -
  have "ratchets (s(x := s')) = (ratchets s)(x := st')" using assms(4) by (auto simp: ratchets_def)
  moreover have "(\<lambda>z. se_pqrState ((s(x := s')) z)) = (\<lambda>x. se_pqrState (s x))(x := se_pqrState s')" by auto
  ultimately show ?thesis using assms by (auto simp: sessions_linked_def)
qed

text \<open>A message that a party has sealed.\<close>

definition sealed_by :: "'z pq_prims_scheme \<Rightarrow> pwire \<Rightarrow> bool \<Rightarrow> byte \<Rightarrow> (party \<Rightarrow> bytes) \<Rightarrow>
    (party \<Rightarrow> sent_key set) \<Rightarrow> pq_log \<Rightarrow> party \<Rightarrow> SignalMessage \<Rightarrow> bytes \<Rightarrow> bool" where
  "sealed_by P W pq v ident K L x m p \<longleftrightarrow>
     (\<exists>mk salt encKey macKey iv i j. (msg_header m, mk) \<in> K x \<and>
        (if pq then (sm_pqRatchet m, salt) \<in> set (L x) else sm_pqRatchet m = [] \<and> salt = []) \<and>
        DeriveMessageKeysWithSalt P mk salt = (encKey, macKey, iv) \<and>
        AESCBCEncrypt P encKey iv p = Inr (sm_ciphertext m) \<and> ik_PublicKey i = ident x \<and> ik_PublicKey j = ident (peer x) \<and>
        NewSignalMessage P W v macKey (sm_senderRatchet m) (sm_counter m) (sm_previousCounter m) (sm_ciphertext m) i j
          (sm_pqRatchet m) = Inr m)"

lemma sealed_by_mono:
  "sealed_by P W pq v ident K L x m p \<Longrightarrow> K x \<subseteq> K' x \<Longrightarrow> set (L x) \<subseteq> set (L' x) \<Longrightarrow> sealed_by P W pq v ident K' L' x m p"
  unfolding sealed_by_def by (auto split: if_splits; blast)

lemma VerifyMAC_identity:
  "ik_PublicKey i = ik_PublicKey i' \<Longrightarrow> ik_PublicKey j = ik_PublicKey j' \<Longrightarrow> VerifyMAC P m i j k = VerifyMAC P m i' j' k"
  by (simp add: VerifyMAC_def computeSignalMAC_def Let_def)

text \<open>An accepted message gives the plaintext, and the sessions stay linked.\<close>

lemma linked_decrypt:
  assumes "prims_ok P" "dh_comm P" "mlkem_ok P" "sessions_linked P pq v ident s K L" "log_size L + 3000 < 2 ^ 32"
    "session_live P (s x)" "sealed_by P W pq v ident K L (peer x) m p"
    "decryptSignalWithSession P rnd m (s x) = (Inr q, s')"
  shows "q = p" "pq_linked P pq ((\<lambda>x. se_pqrState (s x))(x := se_pqrState s')) L"
    "(rs_DHr (the (se_ratchetState s')) \<noteq> rs_DHr (ratchets s x) \<longrightarrow> fresh_for (ratchets s (peer x)) (the (se_ratchetState s'))) \<Longrightarrow>
      sessions_linked P pq v ident (s(x := s')) K L"
  using assms(8)
proof (induction rule: decryptSignalWithSession_Inr)
  fix localID remoteID st mk' nxt salt' pqr encKey' macKey' iv'
  assume d: "se_localIdentity (s x) = Some localID" "se_remoteIdentity (s x) = Some remoteID" "se_ratchetState (s x) = Some st"
    "AdvanceForHeader P rnd (msg_header m) st = (Inr mk', nxt)"
    "pqr_salt P (sm_pqRatchet m) (se_pqrState (s x)) salt' pqr"
    "DeriveMessageKeysWithSalt P mk' salt' = (encKey', macKey', iv')" "AESCBCDecrypt P encKey' iv' (sm_ciphertext m) = Inr q"
    "se_ratchetState s' = Some nxt" "se_pqrState s' = pqr" "se_localIdentity s' = se_localIdentity (s x)"
    "se_remoteIdentity s' = se_remoteIdentity (s x)"
    "se_version s' = (if normalizeCiphertextVersion (se_version (s x)) = None \<and> message_version (sm_messageVersion m)
       then sm_messageVersion m else se_version (s x))"
  note l = assms(4) [unfolded sessions_linked_def]
  obtain mk salt encKey macKey iv where m: "(msg_header m, mk) \<in> K (peer x)"
    "if pq then (sm_pqRatchet m, salt) \<in> set (L (peer x)) else sm_pqRatchet m = [] \<and> salt = []"
    "DeriveMessageKeysWithSalt P mk salt = (encKey, macKey, iv)" "AESCBCEncrypt P encKey iv p = Inr (sm_ciphertext m)"
    using assms(7) by (auto simp: sealed_by_def)
  have a: "AdvanceForHeader P rnd (msg_header m) (ratchets s x) = (Inr mk', nxt)" using d(3,4) by (simp add: ratchets_def)
  have mk: "mk' = mk" using assms(2) l m(1) a by (blast dest: paired_recv(1))
  have q: "salt' = salt \<and> pq_linked P pq ((\<lambda>x. se_pqrState (s x))(x := pqr)) L"
  proof (cases "se_pqrState (s x)")
    case None
    then have "\<not> pq" using l by (cases x) (auto simp: pq_linked_def)
    then show ?thesis using None d(5) m(2) l by (auto simp: pqr_salt_def pq_linked_def)
  next
    case (Some t)
    then have "Pq_Clone (Some t) = Some t" using assms(6) by (simp add: session_live_def session_ok_def clone_state)
    then have r: "Pq_Receive P (sm_pqRatchet m) (Some t) = (Inr salt', pqr)" using d(5) Some by (simp add: pqr_salt_def)
    have pq: "pq" using l Some pq_linked_live(1) by blast
    show ?thesis by (rule pq_linked_recv [where q = "\<lambda>x. se_pqrState (s x)" and x = x, OF _ assms(3,5) Some _ r]) (use l m(2) pq in auto)
  qed
  show "q = p" using AESCBC_roundtrip [OF assms(1) m(4)] d(6,7) m(3) mk q by simp
  show "pq_linked P pq ((\<lambda>x. se_pqrState (s x))(x := se_pqrState s')) L" using q d(9) by simp
  show "sessions_linked P pq v ident (s(x := s')) K L"
    if f: "(rs_DHr (the (se_ratchetState s')) \<noteq> rs_DHr (ratchets s x) \<longrightarrow> fresh_for (ratchets s (peer x)) (the (se_ratchetState s')))"
  proof -
    have "paired P ((ratchets s)(x := nxt)) K"
      using assms(2) l m(1) a f d(8) by (intro paired_recv(2)) auto
    moreover have "se_version s' = se_version (s x)" using l d(12) by simp
    ultimately show ?thesis
      using q d(8-11) by (intro sessions_linked_upd [OF assms(4), where st' = nxt]) simp_all
  qed
qed

text \<open>What an encryption does, by its parts.\<close>

definition pqr_sent :: "'z pq_prims_scheme \<Rightarrow> bytes res \<Rightarrow> PqState option \<Rightarrow> bytes \<Rightarrow> bytes \<Rightarrow> PqState option \<Rightarrow> bool" where
  "pqr_sent P rand p message salt p' \<longleftrightarrow>
     (case p of
        None \<Rightarrow> message = [] \<and> salt = [] \<and> p' = None
      | Some t \<Rightarrow> (\<exists>c. Pq_Clone (Some t) = Some c \<and> Pq_Send P rand (Some c) = (Inr (message, salt), p')))"

lemma encryptSignalMessage_Inr:
  assumes "encryptSignalMessage P W rand p s = (Inr m, s')"
  obtains localID remoteID st h mk st' message salt pqr encKey macKey iv ct where
    "se_localIdentity s = Some localID" "se_remoteIdentity s = Some remoteID" "se_ratchetState s = Some st"
    "NextSendingMessageKey P st = (Inr (h, mk), st')" "pqr_sent P rand (se_pqrState s) message salt pqr"
    "DeriveMessageKeysWithSalt P mk salt = (encKey, macKey, iv)" "AESCBCEncrypt P encKey iv p = Inr ct"
    "NewSignalMessage P W (ciphertextVersionForSession (Some s)) macKey (h_DH h) (h_N h) (h_PN h) ct localID remoteID message = Inr m"
    "s' = s\<lparr>se_ratchetState := Some st', se_pqrState := pqr\<rparr>"
proof -
  obtain st where st: "se_ratchetState s = Some st"
    using assms by (cases "se_ratchetState s") (auto simp: encryptSignalMessage_def CurrentState_def)
  obtain h mk st' where n: "NextSendingMessageKey P st = (Inr (h, mk), st')"
    using assms st by (auto simp: encryptSignalMessage_def CurrentState_def case_prod_eq)
  obtain message salt pqr s1 where q: "pqr_sent P rand (se_pqrState s) message salt pqr"
    "s1 = s\<lparr>se_ratchetState := Some st', se_pqrState := pqr\<rparr>"
    "(case DeriveMessageKeysWithSalt P mk salt of (encKey, macKey, iv) \<Rightarrow>
      bindS (AESCBCEncrypt P encKey iv p, s1) (\<lambda>ciphertext session.
      case (se_localIdentity session, se_remoteIdentity session) of
        (Some localID, Some remoteID) \<Rightarrow>
          (NewSignalMessage P W (ciphertextVersionForSession (Some session)) macKey (h_DH h) (h_N h)
             (h_PN h) ciphertext localID remoteID message, session)
      | _ \<Rightarrow> (Inl ErrInvalidKey, session))) = (Inr m, s')"
  proof (cases "se_pqrState s")
    case None
    then have "s\<lparr>se_ratchetState := Some st', se_pqrState := None\<rparr> = s\<lparr>se_ratchetState := Some st'\<rparr>" by simp
    then show ?thesis
      using assms st n None by (intro that [of "[]" "[]" None]) (auto simp: encryptSignalMessage_def CurrentState_def pqr_sent_def Let_def)
  next
    case (Some t)
    obtain c where c: "Pq_Clone (Some t) = Some c"
      using assms st n Some by (cases "Pq_Clone (Some t)") (auto simp: encryptSignalMessage_def CurrentState_def Let_def)
    obtain x pqr where x: "Pq_Send P rand (Some c) = (x, pqr)" by (cases "Pq_Send P rand (Some c)")
    obtain message salt where "x = Inr (message, salt)"
      using assms st n Some c x by (cases x) (auto simp: encryptSignalMessage_def CurrentState_def Let_def)
    then show ?thesis
      using assms st n Some c x by (intro that [of message salt pqr]) (auto simp: encryptSignalMessage_def CurrentState_def pqr_sent_def Let_def)
  qed
  obtain encKey macKey iv where k: "DeriveMessageKeysWithSalt P mk salt = (encKey, macKey, iv)"
    by (cases "DeriveMessageKeysWithSalt P mk salt")
  obtain ct where ct: "AESCBCEncrypt P encKey iv p = Inr ct" using q(3) k by auto
  obtain localID where l: "se_localIdentity s = Some localID" using q(2,3) k ct by (cases "se_localIdentity s") auto
  obtain remoteID where r: "se_remoteIdentity s = Some remoteID" using q(2,3) k ct l by (cases "se_remoteIdentity s") auto
  show thesis
    by (rule that [OF l r st n q(1) k ct]) (use q(2,3) k ct l r in \<open>auto simp: ciphertextVersionForSession_def\<close>)
qed

lemma paired_honest: "paired P st K \<Longrightarrow> rs_DHs (st x) = Some k \<Longrightarrow> honest_pair P k"
proof -
  assume p: "paired P st K" "rs_DHs (st x) = Some k"
  then obtain z where "Ratchet_Network.linked P (st z) (st (peer z)) (K z) (K (peer z))" by (auto simp: paired_def)
  with p(2) party_side [of x z] show "honest_pair P k"
    by (auto simp: Ratchet_Network.linked_def Ratchet_Network.linked_at_def)
qed

text \<open>A session that is in memory, before it is stored.\<close>

definition session_run :: "'z prims_scheme \<Rightarrow> Session \<Rightarrow> bool" where
  "session_run P s \<longleftrightarrow> session_mem P s \<and> pred_option rcv_inv (se_ratchetState s) \<and> pred_option state_wf (se_pqrState s)"

lemma linked_encrypt:
  assumes "mlkem_ok P" "dh_valid P" "pw_ok W" "sessions_linked P pq v ident s K L" "log_size L + 3000 < 2 ^ 32"
    "session_live P (s x)" "encryptSignalMessage P W (Inr r) p (s x) = (Inr m, s')"
  obtains K' L' where "sessions_linked P pq v ident (s(x := s')) K' L'" "sealed_by P W pq v ident K' L' x m p"
    "\<And>y. K y \<subseteq> K' y \<and> set (L y) \<subseteq> set (L' y)" "log_size L' \<le> Suc (log_size L)" "session_run P s'"
    "ParseSignalMessage P W (sm_serialized m) = Inr m"
    "h_DH (msg_header m) = kp_PublicKey (the (rs_DHs (ratchets s x)))" "h_N (msg_header m) = rs_Ns (ratchets s x)"
    "h_PN (msg_header m) = rs_PN (ratchets s x)" "rs_DHs (ratchets (s(x := s')) x) = rs_DHs (ratchets s x)" "rs_DHs (ratchets s x) \<noteq> None"
    "pq \<Longrightarrow> Suc (length (L x)) \<le> 25000 \<Longrightarrow> \<exists>u u' k. se_pqrState (s (peer x)) = Some u \<and> Pq_Receive P (sm_pqRatchet m) (Some u) = (Inr k, Some u')"
    "pq \<Longrightarrow> \<exists>salt. Pq_Send P (Inr r) (se_pqrState (s x)) = (Inr (sm_pqRatchet m, salt), se_pqrState s') \<and> (sm_pqRatchet m, salt) \<in> set (L' x)"
  using assms(7)
proof (rule encryptSignalMessage_Inr)
  fix localID remoteID st h mk st' message salt pqr encKey macKey iv ct
  assume e: "se_localIdentity (s x) = Some localID" "se_remoteIdentity (s x) = Some remoteID" "se_ratchetState (s x) = Some st"
    "NextSendingMessageKey P st = (Inr (h, mk), st')" "pqr_sent P (Inr r) (se_pqrState (s x)) message salt pqr"
    "DeriveMessageKeysWithSalt P mk salt = (encKey, macKey, iv)" "AESCBCEncrypt P encKey iv p = Inr ct"
    "NewSignalMessage P W (ciphertextVersionForSession (Some (s x))) macKey (h_DH h) (h_N h) (h_PN h) ct localID remoteID message = Inr m"
    "s' = (s x)\<lparr>se_ratchetState := Some st', se_pqrState := pqr\<rparr>"
  note l = assms(4) [unfolded sessions_linked_def]
  let ?q = "\<lambda>x. se_pqrState (s x)"
  let ?K = "K(x := insert (h, mk) (K x))"
  obtain L' where q: "pq_linked P pq (?q(x := pqr)) L'" "if pq then (message, salt) \<in> set (L' x) else message = [] \<and> salt = []"
    "\<And>y. set (L y) \<subseteq> set (L' y)" "log_size L' \<le> Suc (log_size L)" "pred_option state_wf pqr"
    "pq \<Longrightarrow> Suc (length (L x)) \<le> 25000 \<Longrightarrow> \<exists>u u' k. ?q (peer x) = Some u \<and> Pq_Receive P message (Some u) = (Inr k, Some u')"
    "pq \<Longrightarrow> Pq_Send P (Inr r) (?q x) = (Inr (message, salt), pqr)"
  proof (cases "?q x")
    case None
    then have "\<not> pq" using l by (cases x) (auto simp: pq_linked_def)
    then show ?thesis using None e(5) l by (intro that [of L]) (simp_all add: pqr_sent_def pq_linked_def)
  next
    case (Some t)
    then have c: "Pq_Clone (Some t) = Some t" and wf: "state_wf t"
      using assms(6) by (simp_all add: session_live_def session_ok_def clone_state)
    have s: "Pq_Send P (Inr r) (Some t) = (Inr (message, salt), pqr)" using e(5) Some c by (simp add: pqr_sent_def)
    have "pq" using l Some pq_linked_live(1) by blast
    moreover have "pred_option state_wf pqr" using send_wf [OF wf s] by auto
    moreover have "pq_linked P pq ?q L" using l by simp
    then obtain t' where "pqr = Some t'" "pq_linked P pq (?q(x := Some t')) (L(x := (message, salt) # L x))"
      "Suc (length (L x)) \<le> 25000 \<longrightarrow> (\<exists>u u'. ?q (peer x) = Some u \<and> Pq_Receive P message (Some u) = (Inr salt, Some u'))"
      using pq_linked_send [where q = ?q and r = r and x = x, OF _ assms(1,5) Some] s by fastforce
    ultimately show ?thesis
      using s Some by (intro that [of "L(x := (message, salt) # L x)"]) (simp_all add: log_size_def, auto)
  qed
  have st: "ratchets s x = st" "state_ok st" "rcv_inv st" using e(3) assms(6) by (auto simp: ratchets_def session_live_def session_ok_def storable_def)
  have v: "ciphertextVersionForSession (Some (s x)) = v" using l by (simp add: ciphertextVersionForSession_def)
  obtain dhs where n: "rs_DHs st = Some dhs" "h = \<lparr>h_DH = kp_PublicKey dhs, h_PN = rs_PN st, h_N = rs_Ns st\<rparr>"
    "st' = st\<lparr>rs_CKs := fst (KDFChain P (rs_CKs st)), rs_Ns := rs_Ns st + 1\<rparr>"
    using e(4) by (rule NextSendingMessageKey_Inr)
  have m: "msg_header m = h" "sm_senderRatchet m = h_DH h" "sm_counter m = h_N h" "sm_previousCounter m = h_PN h"
    "sm_ciphertext m = ct" "sm_pqRatchet m = message"
    using e(8) by (auto elim!: NewSignalMessage_Inr simp: msg_header_def)
  have "paired P ((ratchets s)(x := st')) ?K"
    using l e(4) st(1) by (intro paired_send) auto
  then have 1: "sessions_linked P pq v ident (s(x := s')) ?K L'"
    using q(1) e(9) by (intro sessions_linked_upd [OF assms(4), where st' = st']) simp_all
  have 2: "sealed_by P W pq v ident ?K L' x m p"
    unfolding sealed_by_def
  proof (intro exI conjI)
    show "NewSignalMessage P W v macKey (sm_senderRatchet m) (sm_counter m) (sm_previousCounter m) (sm_ciphertext m)
        localID remoteID (sm_pqRatchet m) = Inr m" unfolding m(2-) using e(8) v by simp
    show "ik_PublicKey localID = ident x" "ik_PublicKey remoteID = ident (peer x)"
      using sessions_linked_identities [OF assms(4)] e(1,2) by blast+
    show "DeriveMessageKeysWithSalt P mk salt = (encKey, macKey, iv)" "AESCBCEncrypt P encKey iv p = Inr (sm_ciphertext m)"
      "(msg_header m, mk) \<in> ?K x" "if pq then (sm_pqRatchet m, salt) \<in> set (L' x) else sm_pqRatchet m = [] \<and> salt = []"
      using e(6,7) m q(2) by simp_all
  qed
  have "pred_option pqr_mem pqr"
  proof (cases pqr)
    case (Some t)
    then have "ps_version t = VersionV1" "ps_v1 t \<noteq> None" using pq_linked_live [OF q(1), of x] by auto
    then show ?thesis using q(5) Some by (cases "ps_chain t") (auto simp: pqr_mem_def state_wf_def)
  qed simp
  moreover have "state_ok st'" "rcv_inv st'" "fm_size (rs_MKSkipped st') \<le> MaxSkip"
    using st n(3) by (simp_all add: state_ok_def rcv_inv_def)
  ultimately have 3: "session_run P s'"
    using assms(6) e(3,9) q(5) by (auto simp: session_run_def session_live_def session_ok_def session_mem_def)
  have "honest_pair P dhs" using paired_honest [of P "ratchets s" K x] l st(1) n(1) by simp
  then have "wire_key P (h_DH h)"
    using assms(2) st(2) n(1,2) by (auto simp: wire_key_def dh_valid_def honest_pair_def state_ok_def kp_ok_def)
  then have 4: "ParseSignalMessage P W (sm_serialized m) = Inr m" by (rule ParseSignalMessage_New [OF assms(3) _ e(8)])
  show thesis
    by (rule that [OF 1 2 _ q(4) 3 4]) (use q(2,3,6,7) m n st(1) e(9) in \<open>auto simp: ratchets_def\<close>)
qed

text \<open>A decryption all of whose parts succeed.\<close>

lemma decryptSignalWithSession_ok:
  assumes "se_localIdentity s = Some localID" "se_remoteIdentity s = Some remoteID" "se_ratchetState s = Some st"
    "normalizeCiphertextVersion (se_version s) = Some (sm_messageVersion msg)"
    "AdvanceForHeader P rnd (msg_header msg) st = (Inr mk, nxt)"
    "pqr_salt P (sm_pqRatchet msg) (se_pqrState s) salt pqr"
    "DeriveMessageKeysWithSalt P mk salt = (encKey, macKey, iv)" "VerifyMAC P msg remoteID localID macKey = Inr True"
    "AESCBCDecrypt P encKey iv (sm_ciphertext msg) = Inr p"
  shows "\<exists>s'. decryptSignalWithSession P rnd msg s = (Inr p, s')"
  using assms
  by (auto simp: decryptSignalWithSession_def CurrentState_def msg_header_def [symmetric] pqr_salt_def Let_def split: option.splits)

lemma linked_delivers:
  assumes "prims_ok P" "dh_comm P" "sessions_linked P pq v ident s K L" "sealed_by P W pq v ident K L (peer x) m p"
    "session_live P (s x)" "mlkem_ok P" "log_size L + 3000 < 2 ^ 32" "deliverable P rnd (msg_header m) (ratchets s (peer x)) (ratchets s x)"
    "pq \<Longrightarrow> \<exists>u u' k. se_pqrState (s x) = Some u \<and> Pq_Receive P (sm_pqRatchet m) (Some u) = (Inr k, Some u')"
  shows "\<exists>s'. decryptSignalWithSession P rnd m (s x) = (Inr p, s')"
proof -
  note l = assms(3) [unfolded sessions_linked_def]
  obtain mk salt encKey macKey iv i j where m: "(msg_header m, mk) \<in> K (peer x)"
    "if pq then (sm_pqRatchet m, salt) \<in> set (L (peer x)) else sm_pqRatchet m = [] \<and> salt = []"
    "DeriveMessageKeysWithSalt P mk salt = (encKey, macKey, iv)" "AESCBCEncrypt P encKey iv p = Inr (sm_ciphertext m)"
    "ik_PublicKey i = ident (peer x)" "ik_PublicKey j = ident x"
    "NewSignalMessage P W v macKey (sm_senderRatchet m) (sm_counter m) (sm_previousCounter m) (sm_ciphertext m) i j (sm_pqRatchet m) = Inr m"
    using assms(4) by (auto simp: sealed_by_def)
  obtain st lid rid where s: "se_ratchetState (s x) = Some st" "se_localIdentity (s x) = Some lid" "se_remoteIdentity (s x) = Some rid"
    using assms(5) by (auto simp: session_live_def session_ok_def)
  have p: "paired P (ratchets s) K" using l by blast
  obtain nxt where a: "AdvanceForHeader P rnd (msg_header m) st = (Inr mk, nxt)"
    using paired_deliverable [OF assms(2) p m(1) assms(8)] s(1) by (auto simp: ratchets_def)
  have "\<exists>pqr. pqr_salt P (sm_pqRatchet m) (se_pqrState (s x)) salt pqr"
  proof (cases pq)
    case True
    then obtain u u' k where u: "se_pqrState (s x) = Some u" "Pq_Receive P (sm_pqRatchet m) (Some u) = (Inr k, Some u')"
      using assms(9) by blast
    moreover have "k = salt"
      using pq_linked_recv [where q = "\<lambda>x. se_pqrState (s x)" and x = x, OF _ assms(6,7) u(1) _ u(2)] l m(2) True by fastforce
    moreover have "Pq_Clone (Some u) = Some u" using assms(5) u(1) by (simp add: session_live_def session_ok_def clone_state)
    ultimately show ?thesis by (auto simp: pqr_salt_def)
  next
    case False
    then show ?thesis using l m(2) by (auto simp: pqr_salt_def pq_linked_def)
  qed
  then obtain pqr where q: "pqr_salt P (sm_pqRatchet m) (se_pqrState (s x)) salt pqr" by blast
  have "sm_messageVersion m = v" using m(7) by (rule NewSignalMessage_Inr) (metis SignalMessage.select_convs(1))
  then have v: "normalizeCiphertextVersion (se_version (s x)) = Some (sm_messageVersion m)" using l by simp
  have "ik_PublicKey lid = ident x" "ik_PublicKey rid = ident (peer x)"
    using sessions_linked_identities [OF assms(3)] s(2,3) by blast+
  then have "VerifyMAC P m rid lid macKey = Inr True"
    using VerifyMAC_New [OF m(7)] VerifyMAC_identity [of rid i lid j P m macKey] m(5,6) by simp
  with s v a q m(3) AESCBC_roundtrip [OF assms(1) m(4)] show ?thesis by (intro decryptSignalWithSession_ok)
qed

section \<open>Conversations over two stores\<close>

text \<open>The store holds the session, and no archived ones.\<close>

definition holds :: "'z prims_scheme \<Rightarrow> 's ProtocolStore \<Rightarrow> Address \<Rightarrow> 's \<Rightarrow> Session \<Rightarrow> bool" where
  "holds P S a st s \<longleftrightarrow> (\<exists>n. loadRecordOptional P S a st = Inr (Some \<lparr>rec_current = Some s, rec_archived = [], rec_maxArchived = n\<rparr>))"

definition small :: "'s ProtocolStore \<Rightarrow> Address \<Rightarrow> 's \<Rightarrow> bool" where
  "small S a st \<longleftrightarrow> (\<forall>d. LoadSession S a st = Inr (Some d) \<longrightarrow> length d < 2 ^ 32)"

lemma holds_same: "same_sessions S st st' \<Longrightarrow> holds P S a st' s \<longleftrightarrow> holds P S a st s"
  by (simp add: holds_def loadRecordOptional_def same_sessions_def)

lemma decrypt_holds:
  assumes "holds P S a st s" "ParseSignalMessage P W ct = Inr m" "WireCipher_Decrypt P W rnd rndB now S a ct st = (Inr q, st')"
  obtains s' n where "decryptSignalWithSession P (rnd 0) m s = (Inr q, s')" "0 < n" "n < 2 ^ 16"
    "persistRecord S a (Some \<lparr>rec_current = Some s', rec_archived = [], rec_maxArchived = n\<rparr>) st = (Inr (), st')"
proof -
  obtain n where n: "loadRecordOptional P S a st = Inr (Some \<lparr>rec_current = Some s, rec_archived = [], rec_maxArchived = n\<rparr>)"
    (is "_ = Inr (Some ?r)") using assms(1) by (auto simp: holds_def)
  then have b: "0 < n" "n < 2 ^ 16" by (auto dest: loaded_record_ok simp: record_ok_def)
  obtain r' where d: "decryptSignalMessage P rnd m ?r = (Inr q, r')" "persistRecord S a (Some r') st = (Inr (), st')"
    using assms(2,3) n by (auto simp: WireCipher_Decrypt_def case_prod_eq)
  have "0 \<le> rec_maxArchived ?r" using b by simp
  from this d(1) [unfolded decryptSignalMessage_def] show thesis
    by (cases rule: wire.decrypt_record_cases) (use d(2) b that in auto)
qed

lemma encrypt_holds:
  assumes "holds P S a st s" "WireCipher_Encrypt P W rand S a p st = (Inr ct, st')"
  obtains m s' n where "encryptSignalMessage P W rand p s = (Inr m, s')" "ct = sm_serialized m" "0 < n" "n < 2 ^ 16"
    "persistRecord S a (Some \<lparr>rec_current = Some s', rec_archived = [], rec_maxArchived = n\<rparr>) st = (Inr (), st')"
proof -
  obtain n where n: "loadRecordOptional P S a st = Inr (Some \<lparr>rec_current = Some s, rec_archived = [], rec_maxArchived = n\<rparr>)"
    using assms(1) by (auto simp: holds_def)
  then have "0 < n" "n < 2 ^ 16" by (auto dest: loaded_record_ok simp: record_ok_def)
  then show thesis
    using assms(2) n that by (auto simp: WireCipher_Encrypt_def loadRecordRequired_def Current_def case_prod_eq)
qed

record 's wire_net =
  w_store :: "party \<Rightarrow> 's"
  w_sent :: "party \<Rightarrow> (bytes \<times> bytes) list"

definition ratchet_at :: "'z prims_scheme \<Rightarrow> 's ProtocolStore \<Rightarrow> Address \<Rightarrow> 's \<Rightarrow> State option" where
  "ratchet_at P S a st =
     (case loadRecordOptional P S a st of
        Inr (Some r) \<Rightarrow> Option.bind (rec_current r) se_ratchetState
      | _ \<Rightarrow> None)"

text \<open>A key pair that is drawn when the ratchet turns is new to the other side.\<close>

definition fresh_turn :: "'z prims_scheme \<Rightarrow> 's ProtocolStore \<Rightarrow> (party \<Rightarrow> Address) \<Rightarrow> (party \<Rightarrow> 's) \<Rightarrow> party \<Rightarrow> 's \<Rightarrow> bool" where
  "fresh_turn P S A store x st' \<longleftrightarrow>
     (\<forall>X X' Y. ratchet_at P S (A x) (store x) = Some X \<and> ratchet_at P S (A x) st' = Some X' \<and>
        ratchet_at P S (A (peer x)) (store (peer x)) = Some Y \<and> rs_DHr X' \<noteq> rs_DHr X \<longrightarrow> fresh_for Y X')"

text \<open>
  The runs of two parties that have a session in their stores; \<open>A x\<close> is the address under which \<open>x\<close> knows the
  other one.  What a party sends may be delivered late, repeatedly, out of order or never; anything else
  may be presented to it as well; and it may use its store for other purposes in between.
\<close>

inductive wire_step :: "'z pq_prims_scheme \<Rightarrow> pwire \<Rightarrow> 's ProtocolStore \<Rightarrow> (party \<Rightarrow> Address) \<Rightarrow> 's wire_net \<Rightarrow> 's wire_net \<Rightarrow> bool"
  for P W S A where
  send: "WireCipher_Encrypt P W (Inr rand) S (A x) p (w_store N x) = (Inr ct, st') \<Longrightarrow> small S (A x) st' \<Longrightarrow>
    wire_step P W S A N (N\<lparr>w_store := (w_store N)(x := st'), w_sent := (w_sent N)(x := (ct, p) # w_sent N x)\<rparr>)"
| deliver: "(ct, p) \<in> set (w_sent N (peer x)) \<Longrightarrow>
    WireCipher_Decrypt P W rnd rndB now S (A x) ct (w_store N x) = (Inr q, st') \<Longrightarrow> small S (A x) st' \<Longrightarrow>
    fresh_turn P S A (w_store N) x st' \<Longrightarrow> wire_step P W S A N (N\<lparr>w_store := (w_store N)(x := st')\<rparr>)"
| reject: "WireCipher_Decrypt P W rnd rndB now S (A x) ct (w_store N x) = (Inl e, st') \<Longrightarrow>
    wire_step P W S A N (N\<lparr>w_store := (w_store N)(x := st')\<rparr>)"
| other: "same_sessions S (w_store N x) st' \<Longrightarrow> wire_step P W S A N (N\<lparr>w_store := (w_store N)(x := st')\<rparr>)"

definition net_size :: "'s wire_net \<Rightarrow> nat" where
  "net_size N = length (w_sent N Alice) + length (w_sent N Bob)"

definition wire_linked :: "'z pq_prims_scheme \<Rightarrow> pwire \<Rightarrow> 's ProtocolStore \<Rightarrow> (party \<Rightarrow> Address) \<Rightarrow> 's wire_net \<Rightarrow>
    bool \<Rightarrow> byte \<Rightarrow> (party \<Rightarrow> bytes) \<Rightarrow> (party \<Rightarrow> Session) \<Rightarrow> (party \<Rightarrow> sent_key set) \<Rightarrow> pq_log \<Rightarrow> bool" where
  "wire_linked P W S A N pq v ident s K L \<longleftrightarrow>
     sessions_linked P pq v ident s K L \<and> (\<forall>x. holds P S (A x) (w_store N x) (s x) \<and> session_live P (s x)) \<and>
     (\<forall>x. \<forall>(ct, p) \<in> set (w_sent N x). \<exists>m. ParseSignalMessage P W ct = Inr m \<and> sealed_by P W pq v ident K L x m p) \<and>
     log_size L \<le> Suc (net_size N)"

definition wire_inv :: "'z pq_prims_scheme \<Rightarrow> pwire \<Rightarrow> 's ProtocolStore \<Rightarrow> (party \<Rightarrow> Address) \<Rightarrow> 's wire_net \<Rightarrow> bool" where
  "wire_inv P W S A N \<longleftrightarrow> (\<exists>pq v ident s K L. wire_linked P W S A N pq v ident s K L)"

lemma holds_ratchet: "holds P S a st s \<Longrightarrow> ratchet_at P S a st = se_ratchetState s"
  by (auto simp: holds_def ratchet_at_def)

lemma wire_linked_sent:
  assumes "wire_linked P W S A N pq v ident s K L" "(ct, p) \<in> set (w_sent N x)"
  obtains m where "ParseSignalMessage P W ct = Inr m" "sealed_by P W pq v ident K L x m p"
proof -
  have "case (ct, p) of (ct, p) \<Rightarrow> \<exists>m. ParseSignalMessage P W ct = Inr m \<and> sealed_by P W pq v ident K L x m p"
    using assms unfolding wire_linked_def by blast
  then show thesis using that by auto
qed

lemma wire_linked_same:
  assumes "wire_linked P W S A N pq v ident s K L" "same_sessions S (w_store N x) st'"
  shows "wire_linked P W S A (N\<lparr>w_store := (w_store N)(x := st')\<rparr>) pq v ident s K L"
  using assms by (auto simp: wire_linked_def net_size_def holds_same)

context wire_store
begin

lemma persist_ok:
  assumes "Record_Serialize (Some r) = Inr d" "rec_current r \<noteq> None"
  shows "\<exists>st'. persistRecord S a (Some r) st = (Inr (), st')"
  using assms store_session_ok [of a d st] enforce_ok [of a "snd (StoreSession S a (Some d) st)"]
  by (cases "StoreSession S a (Some d) st"; cases "EnforceSessionLimit S a (snd (StoreSession S a (Some d) st))")
    (auto simp: persistRecord_def Current_def)

lemma persist_holds:
  assumes "persistRecord S a (Some \<lparr>rec_current = Some s, rec_archived = [], rec_maxArchived = n\<rparr>) st = (Inr (), st')"
    "0 < n" "n < 2 ^ 16" "session_run P s" "\<And>t. se_pqrState s = Some t \<Longrightarrow> ps_version t = VersionV1" "small S a st'"
  shows "holds P S a st' s" "session_live P s"
proof -
  let ?r = "\<lparr>rec_current = Some s, rec_archived = [], rec_maxArchived = n\<rparr>"
  have "stored_session s = s"
    using assms(5) by (cases "se_pqrState s") (auto simp: stored_session_def stored_pqr_def VersionV1_def VersionDisabled_def)
  moreover have "loadRecordOptional P S a st' = Inr (Some (stored_record ?r))"
    by (rule persist_reload [OF assms(1)]) (use assms in \<open>auto simp: record_mem_def session_run_def small_def\<close>)
  ultimately have l: "loadRecordOptional P S a st' = Inr (Some ?r)" by (simp add: stored_record_def)
  then show "holds P S a st' s" by (auto simp: holds_def)
  show "session_live P s" using loaded_record_ok [OF l] assms(4) by (simp add: record_ok_def session_run_def session_live_def)
qed

lemma wire_linked_deliver:
  assumes laws: "prims_ok P" "dh_comm P" "mlkem_ok P" and inv: "wire_linked P W S A N pq v ident s K L" "net_size N + 3002 < 2 ^ 32"
    and d: "(ct, p) \<in> set (w_sent N (peer x))" "WireCipher_Decrypt P W rnd rndB now S (A x) ct (w_store N x) = (Inr q, st')"
  shows "q = p" "small S (A x) st' \<Longrightarrow> fresh_turn P S A (w_store N) x st' \<Longrightarrow>
      \<exists>s'. wire_linked P W S A (N\<lparr>w_store := (w_store N)(x := st')\<rparr>) pq v ident (s(x := s')) K L"
proof -
  note l = inv(1) [unfolded wire_linked_def]
  have h: "holds P S (A x) (w_store N x) (s x)" "session_live P (s x)" using l by blast+
  obtain m where m: "ParseSignalMessage P W ct = Inr m" "sealed_by P W pq v ident K L (peer x) m p"
    using inv(1) d(1) by (rule wire_linked_sent)
  have sz: "log_size L + 3000 < 2 ^ 32" using l inv(2) by linarith
  have sl: "sessions_linked P pq v ident s K L" using l by blast
  obtain s' n where s': "decryptSignalWithSession P (rnd 0) m (s x) = (Inr q, s')" "0 < n" "n < 2 ^ 16"
    "persistRecord S (A x) (Some \<lparr>rec_current = Some s', rec_archived = [], rec_maxArchived = n\<rparr>) (w_store N x) = (Inr (), st')"
    using h(1) m(1) d(2) by (rule decrypt_holds)
  note dec = linked_decrypt [OF laws sl sz h(2) m(2) s'(1)]
  show "q = p" by (rule dec(1))
  assume small: "small S (A x) st'" and fresh: "fresh_turn P S A (w_store N) x st'"
  have "signal_ok P m" using m(1) by (rule ParseSignalMessage_ok)
  then have run: "session_run P s'"
    using decrypt_live [OF h(2) s'(1)] by (simp add: session_run_def signal_ok_def wire_key_def)
  obtain st where st: "se_ratchetState s' = Some st" using run by (auto simp: session_run_def session_mem_def)
  have v1: "ps_version t = VersionV1" if "se_pqrState s' = Some t" for t
    using pq_linked_live(2) [OF dec(2), of x] that by simp
  note ph = persist_holds [OF s'(4,2,3) run v1 small]
  have "ratchet_at P S (A x) st' = Some st" using holds_ratchet [OF ph(1)] st by simp
  moreover have "ratchet_at P S (A y) (w_store N y) = Some (ratchets s y)" for y
    using holds_ratchet l sl by (fastforce simp: sessions_linked_def ratchets_def)
  ultimately have "rs_DHr (the (se_ratchetState s')) \<noteq> rs_DHr (ratchets s x) \<longrightarrow> fresh_for (ratchets s (peer x)) (the (se_ratchetState s'))"
    using fresh st by (simp add: fresh_turn_def)
  then have "sessions_linked P pq v ident (s(x := s')) K L" by (rule dec(3))
  then show "\<exists>s'. wire_linked P W S A (N\<lparr>w_store := (w_store N)(x := st')\<rparr>) pq v ident (s(x := s')) K L"
    using l ph by (intro exI [of _ s']) (auto simp: wire_linked_def net_size_def)
qed

lemma wire_linked_send:
  assumes laws: "mlkem_ok P" "dh_valid P" "pw_ok W" and inv: "wire_linked P W S A N pq v ident s K L" "net_size N + 3002 < 2 ^ 32"
    and e: "WireCipher_Encrypt P W (Inr rand) S (A x) p (w_store N x) = (Inr ct, st')" "small S (A x) st'"
  shows "wire_inv P W S A (N\<lparr>w_store := (w_store N)(x := st'), w_sent := (w_sent N)(x := (ct, p) # w_sent N x)\<rparr>)"
proof -
  note l = inv(1) [unfolded wire_linked_def]
  have h: "holds P S (A x) (w_store N x) (s x)" "session_live P (s x)" and sl: "sessions_linked P pq v ident s K L" using l by blast+
  have sz: "log_size L + 3000 < 2 ^ 32" using l inv(2) by linarith
  obtain m s' n where s': "encryptSignalMessage P W (Inr rand) p (s x) = (Inr m, s')" "ct = sm_serialized m" "0 < n" "n < 2 ^ 16"
    "persistRecord S (A x) (Some \<lparr>rec_current = Some s', rec_archived = [], rec_maxArchived = n\<rparr>) (w_store N x) = (Inr (), st')"
    using h(1) e(1) by (rule encrypt_holds)
  obtain K' L' where k: "sessions_linked P pq v ident (s(x := s')) K' L'" "sealed_by P W pq v ident K' L' x m p"
    "\<And>y. K y \<subseteq> K' y \<and> set (L y) \<subseteq> set (L' y)" "log_size L' \<le> Suc (log_size L)" "session_run P s'"
    "ParseSignalMessage P W (sm_serialized m) = Inr m"
    using laws sl sz h(2) s'(1) by (rule linked_encrypt) blast
  have v1: "ps_version t = VersionV1" if "se_pqrState s' = Some t" for t
    using k(1) that pq_linked_live(2) [of P pq "\<lambda>y. se_pqrState ((s(x := s')) y)" L' x] by (simp add: sessions_linked_def)
  note ph = persist_holds [OF s'(5,3,4) k(5) v1 e(2)]
  have "\<exists>m. ParseSignalMessage P W c = Inr m \<and> sealed_by P W pq v ident K' L' y m q"
    if sent: "(c, q) \<in> set (w_sent N y)" for y c q
  proof -
    obtain m where "ParseSignalMessage P W c = Inr m" "sealed_by P W pq v ident K L y m q"
      using inv(1) sent by (rule wire_linked_sent)
    then show ?thesis using k(3) [of y] sealed_by_mono by blast
  qed
  moreover have "log_size L' \<le> Suc (Suc (net_size N))" using k(4) l by linarith
  ultimately have "wire_linked P W S A (N\<lparr>w_store := (w_store N)(x := st'), w_sent := (w_sent N)(x := (ct, p) # w_sent N x)\<rparr>)
      pq v ident (s(x := s')) K' L'"
    using l k(1,2,6) ph s'(2) by (cases x) (auto simp: wire_linked_def net_size_def)
  then show ?thesis unfolding wire_inv_def by blast
qed

lemma wire_inv_step:
  assumes "prims_ok P" "dh_comm P" "mlkem_ok P" "dh_valid P" "pw_ok W"
    and "wire_step P W S A N N'" "wire_inv P W S A N" "net_size N + 3002 < 2 ^ 32"
  shows "wire_inv P W S A N'"
proof -
  obtain pq v ident s K L where l: "wire_linked P W S A N pq v ident s K L" using assms(7) by (auto simp: wire_inv_def)
  from assms(6) show ?thesis
  proof cases
    case (send rand x p ct st')
    then show ?thesis using wire_linked_send [OF assms(3-5) l assms(8)] by blast
  next
    case (deliver ct p x rnd rndB now q st')
    then show ?thesis using wire_linked_deliver(2) [OF assms(1-3) l assms(8)] unfolding wire_inv_def by blast
  next
    case (reject rnd rndB now x ct e st')
    then have "same_sessions S (w_store N x) st'"
      using frame.WireCipher_Decrypt_failure [of "w_store N x" P W rnd rndB now "A x" ct] by (simp add: failure_keeps_def)
    with l reject(1) show ?thesis unfolding wire_inv_def by (blast dest: wire_linked_same)
  next
    case (other x st')
    with l show ?thesis unfolding wire_inv_def by (blast dest: wire_linked_same)
  qed
qed

lemma decrypt_stored:
  assumes "holds P S a st s" "session_live P s" "ParseSignalMessage P W ct = Inr m" "decryptSignalWithSession P (rnd 0) m s = (Inr p, s')"
  shows "\<exists>st'. WireCipher_Decrypt P W rnd rndB now S a ct st = (Inr p, st')"
proof -
  obtain n where n: "loadRecordOptional P S a st = Inr (Some \<lparr>rec_current = Some s, rec_archived = [], rec_maxArchived = n\<rparr>)"
    using assms(1) by (auto simp: holds_def)
  let ?r = "Some \<lparr>rec_current = Some s', rec_archived = [], rec_maxArchived = n\<rparr>"
  have "signal_ok P m" using assms(3) by (rule ParseSignalMessage_ok)
  then have "session_mem P s'" using decrypt_live(1) [OF assms(2,4)] by (simp add: signal_ok_def wire_key_def)
  then obtain d where "Record_Serialize ?r = Inr d"
    by (auto simp: session_mem_def serializeSession_def Record_Serialize_def sessionIdentitySize_def Let_def)
  then obtain st' where "persistRecord S a ?r st = (Inr (), st')" using persist_ok by fastforce
  with n assms(3,4) show ?thesis
    by (auto simp: WireCipher_Decrypt_def decryptSignalMessage_def decrypt_record_def)
qed

lemma wire_delivery:
  assumes "prims_ok P" "dh_comm P" "mlkem_ok P" "dh_valid P" "pw_ok W" "wire_inv P W S A N" "net_size N + 2 \<le> 25000"
    and "WireCipher_Encrypt P W (Inr rand) S (A x) p (w_store N x) = (Inr ct, st')"
    and "ratchet_at P S (A x) (w_store N x) = Some X" "ratchet_at P S (A (peer x)) (w_store N (peer x)) = Some Y"
    and "\<And>k. rs_DHs X = Some k \<Longrightarrow> deliverable P (rnd 0) \<lparr>h_DH = kp_PublicKey k, h_PN = rs_PN X, h_N = rs_Ns X\<rparr> X Y"
  shows "\<exists>st''. WireCipher_Decrypt P W rnd rndB now S (A (peer x)) ct (w_store N (peer x)) = (Inr p, st'')"
proof -
  obtain pq v ident s K L where l: "wire_linked P W S A N pq v ident s K L" using assms(6) by (auto simp: wire_inv_def)
  then have h: "\<And>x. holds P S (A x) (w_store N x) (s x)" "\<And>x. session_live P (s x)" and sl: "sessions_linked P pq v ident s K L"
    and sz: "log_size L \<le> Suc (net_size N)" by (auto simp: wire_linked_def)
  obtain m s' n where s': "encryptSignalMessage P W (Inr rand) p (s x) = (Inr m, s')" "ct = sm_serialized m"
    using h(1) assms(8) by (rule encrypt_holds)
  have sz': "log_size L + 3000 < 2 ^ 32" "Suc (length (L x)) \<le> 25000" using sz assms(7) by (cases x; simp add: log_size_def)+
  obtain K' L' where k: "sessions_linked P pq v ident (s(x := s')) K' L'" "sealed_by P W pq v ident K' L' x m p"
    "log_size L' \<le> Suc (log_size L)" "ParseSignalMessage P W (sm_serialized m) = Inr m"
    "h_DH (msg_header m) = kp_PublicKey (the (rs_DHs (ratchets s x)))" "h_N (msg_header m) = rs_Ns (ratchets s x)"
    "h_PN (msg_header m) = rs_PN (ratchets s x)" "rs_DHs (ratchets (s(x := s')) x) = rs_DHs (ratchets s x)" "rs_DHs (ratchets s x) \<noteq> None"
    "pq \<Longrightarrow> \<exists>u u' k. se_pqrState (s (peer x)) = Some u \<and> Pq_Receive P (sm_pqRatchet m) (Some u) = (Inr k, Some u')"
    using assms(3-5) sl sz'(1) h(2) s'(1) by (rule linked_encrypt) (use sz'(2) in blast)
  have XY: "ratchets s x = X" "ratchets s (peer x) = Y"
    using assms(9,10) holds_ratchet [OF h(1)] by (simp_all add: ratchets_def)
  obtain kp where kp: "rs_DHs X = Some kp" using k(9) XY by auto
  have hdr: "msg_header m = \<lparr>h_DH = kp_PublicKey kp, h_PN = rs_PN X, h_N = rs_Ns X\<rparr>"
    using k(5-7) kp XY(1) by (cases "msg_header m") simp
  have p: "peer x \<noteq> x" "peer (peer x) = x" by (cases x; simp)+
  have "ratchets (s(x := s')) (peer x) = Y" using XY(2) p by (simp add: ratchets_def)
  then have "deliverable P (rnd 0) (msg_header m) (ratchets (s(x := s')) (peer (peer x))) (ratchets (s(x := s')) (peer x))"
    using assms(11) [OF kp] k(8) kp XY(1) p(2) unfolding hdr deliverable_def by simp
  then have "\<exists>s''. decryptSignalWithSession P (rnd 0) m ((s(x := s')) (peer x)) = (Inr p, s'')"
    using k(2,10) p h(2) k(3) sz' sz assms(7) by (intro linked_delivers [OF assms(1,2) k(1) _ _ assms(3)]) auto
  then obtain s'' where "decryptSignalWithSession P (rnd 0) m (s (peer x)) = (Inr p, s'')" using p by auto
  with h k(4) s'(2) show ?thesis by (blast intro: decrypt_stored)
qed

lemma net_size_step: "wire_step P W S A N N' \<Longrightarrow> net_size N \<le> net_size N'"
  by (induction rule: wire_step.induct) (auto simp: net_size_def)

lemma wire_inv_run:
  assumes "prims_ok P" "dh_comm P" "mlkem_ok P" "dh_valid P" "pw_ok W"
    and "(wire_step P W S A)\<^sup>*\<^sup>* N0 N" "wire_inv P W S A N0" "net_size N + 3002 < 2 ^ 32"
  shows "wire_inv P W S A N"
  using assms(6,8)
proof (induction rule: rtranclp_induct)
  case (step M N)
  then show ?case using net_size_step [OF step(2)] by (intro wire_inv_step [OF assms(1-5) step(2)]) simp_all
qed (rule assms(7))

end

end
