(* ===== verification/Session_Handshake.thy ===== *)
theory Session_Handshake
  imports Session_Network
begin

text \<open>
  The first message: the initiator takes a published bundle, builds a session and sends a pre-key
  message; the responder builds its session from the message and opens it.  From there on the two stores
  hold linked sessions, which is where the runs of the session network start.
\<close>

section \<open>The first message of the post-quantum ratchet\<close>

lemma first_send:
  assumes "NewPqState P key dir params = Inr t" "Pq_Send P rand (Some t) = (Inr (m, k), Some t')"
  shows "ps_chain t' = None" "k = []"
  using assms
  by (auto simp: NewPqState_def NewStateWithMinVersion_def Pq_Send_def send_v1_def chainForSend_def VersionV1_def VersionDisabled_def
      case_prod_eq split: if_splits option.splits)

text \<open>A chain in which no key has been stored is short.\<close>

lemma length_dir: "dir_wf d \<Longrightarrow> cd_prev d = fmempty \<Longrightarrow> length (appendChainDir d) \<le> 44"
proof -
  have "sorted_list_of_fset ({||} :: u32 fset) = []" by (metis bot_fset.rep_eq set_empty set_sorted_fset)
  then show "dir_wf d \<Longrightarrow> cd_prev d = fmempty \<Longrightarrow> length (appendChainDir d) \<le> 44"
    by (simp add: appendChainDir_def dir_wf_def fm_entries_def fm_size_def)
qed

lemma length_chain:
  assumes "chain_wf c" "\<forall>l \<in> set (ch_links c). cd_prev (ce_send l) = fmempty \<and> cd_prev (ce_recv l) = fmempty"
  shows "length (serializeChain c) \<le> 62 + 88 * length (ch_links c)"
proof -
  have "length (appendChainDir (ce_send l) @ appendChainDir (ce_recv l)) \<le> 88" if "l \<in> set (ch_links c)" for l
    using that assms length_dir [of "ce_send l"] length_dir [of "ce_recv l"] by (auto simp: chain_wf_def list_all_iff link_wf_def)
  then have "length (concat (map (\<lambda>l. appendChainDir (ce_send l) @ appendChainDir (ce_recv l)) ls)) \<le> 88 * length ls"
    if "set ls \<subseteq> set (ch_links c)" for ls
    using that by (induction ls) fastforce+
  then show ?thesis by (simp add: serializeChain_def)
qed

definition new_chain :: "Chain \<Rightarrow> bool" where
  "new_chain c \<longleftrightarrow> length (ch_links c) \<le> 2 \<and> (\<forall>l \<in> set (ch_links c). cd_prev (ce_send l) = fmempty \<and> cd_prev (ce_recv l) = fmempty)"

lemma new_chain_epoch:
  assumes "NewChain P auth dir params = Inr c0" "add_epoch P key c0 = (Inr (), c)"
  shows "new_chain c"
  using assms
  by (auto simp: new_chain_def NewChain_def add_epoch_def AddEpoch_def newLink_def newChainEpochDirection_def split_beta
      split: option.splits sum.splits if_splits)

lemma chainless_message:
  assumes "agreed P auth params a b sA sB" "(m, []) \<in> set sA"
  shows "\<exists>msg. deserializeV1Message m = Inr (msg, 0) \<and> vm_epoch msg = 1"
proof -
  have "\<exists>msg. deserializeV1Message m = Inr (msg, 0) \<and> vm_epoch msg = 1" if ok: "entry_ok P auth sec dir hi N M (m, [])" for sec dir hi N M
  proof -
    obtain msg n where e: "m = v1Message_serialize msg n" "message_ok msg"
      "if n = 0 then vm_epoch msg = 1 else [] = dir_key P (send_seed P auth sec dir (unat (vm_epoch msg) - 1)) n"
      using ok unfolding entry_ok_def by (metis fst_conv snd_conv)
    have "n = 0" using e(3) by (auto simp: dir_key_def chain_msg_def dir_kdf_def hkdf_bytes_def Let_def split: if_splits dest: arg_cong [of _ _ length])
    then show ?thesis using e by (auto simp: v1Message_roundtrip)
  qed
  then show ?thesis
    using assms by (fastforce simp: agreed_def SPQR_State.linked_def SPQR_State.linked_at_def sent_ok_def)
qed

lemma first_receive:
  assumes "deserializeV1Message m = Inr (msg, 0)" "vm_epoch msg = 1" "ps_chain t = None" "Pq_Receive P m (Some t) = (Inr k, Some t')"
    "ps_v1 t = Some v1" "ps_chain t' = Some c"
  shows "new_chain c"
proof -
  have r: "receive_live P m v1 t = (Inr k, t')" using assms(4,5) by (auto simp: Pq_Receive_def case_prod_eq)
  then have "receive_v1 P m v1 t = (Inr k, t')"
    using assms(3,6) by (auto simp: receive_live_def disable_def split: option.splits if_splits)
  then show ?thesis
    using assms(1-3,6) by (auto simp: receive_v1_def case_prod_eq chainForRecv_def chainFromNegotiation_def recv_key_def
        split: if_splits option.splits intro: new_chain_epoch)
qed

section \<open>The two sides of a handshake\<close>

text \<open>The session that the builder makes of a handshake result.\<close>

definition built :: "'z prims_scheme \<Rightarrow> bool \<Rightarrow> X3Result \<Rightarrow> State \<Rightarrow> IdentityKey \<Rightarrow> IdentityKey \<Rightarrow> Session \<Rightarrow> bool" where
  "built P initiator x X l r s \<longleftrightarrow>
     (\<exists>s0 s1. NewSession (Some X) (Some l) (Some r) (x3r_AssociatedData x) = Inr s0 \<and> initSessionPQR P x initiator s0 = Inr s1 \<and>
        s = setSessionCiphertextVersion (ciphertextVersionFromX3DH (Some (x3r_InitialMessage x))) s1)"

lemma version_x3dh: "normalizeCiphertextVersion (ciphertextVersionFromX3DH m) = Some (ciphertextVersionFromX3DH m)"
  by (simp add: ciphertextVersionFromX3DH_def normalizeCiphertextVersion_def CiphertextMessagePreKyberVersion_def
      CiphertextMessageCurrentVersion_def split: option.splits)

lemma built_parts:
  assumes "built P initiator x X l r s"
  shows "se_ratchetState s = Some X" "se_localIdentity s = Some l" "se_remoteIdentity s = Some r" "se_previousStates s = []"
    "normalizeCiphertextVersion (se_version s) = Some (ciphertextVersionFromX3DH (Some (x3r_InitialMessage x)))"
    "x3r_PQRKey x = None \<Longrightarrow> se_pqrState s = None"
    "x3r_PQRKey x = Some key \<Longrightarrow> \<exists>t. se_pqrState s = Some t \<and> NewPqState P key (if initiator then DirectionA2B else DirectionB2A) pq_params = Inr t"
  using assms
  by (auto simp: built_def NewSession_def initSessionPQR_def setSessionCiphertextVersion_def version_x3dh Let_def split: option.splits)

lemma built_live:
  assumes "built P initiator x X l r s" "InitializeState P rnd (Some x) initiator = Inr X" "x3_ok x" "ik_ok P l" "ik_ok P r"
  shows "session_live P s"
  using assms new_session_live unfolding built_def by blast

definition both :: "'a \<Rightarrow> 'a \<Rightarrow> party \<Rightarrow> 'a" where
  "both a b p = (case p of Alice \<Rightarrow> a | Bob \<Rightarrow> b)"

lemma both_simps [simp]: "both a b Alice = a" "both a b Bob = b" "(both a b)(Alice := c) = both c b" "(both a b)(Bob := c) = both a c"
  by (auto simp: both_def split: party.splits)

lemma built_linked:
  assumes "built P True a X la ra sA" "built P False r Y lb rb sB" "x3r_PQRKey r = x3r_PQRKey a"
    "ciphertextVersionFromX3DH (Some (x3r_InitialMessage r)) = ciphertextVersionFromX3DH (Some (x3r_InitialMessage a))"
    "ik_PublicKey rb = ik_PublicKey la" "ik_PublicKey ra = ik_PublicKey lb" "paired P (both X Y) (\<lambda>_. {})"
  shows "sessions_linked P (x3r_PQRKey a \<noteq> None) (ciphertextVersionFromX3DH (Some (x3r_InitialMessage a)))
    (both (ik_PublicKey la) (ik_PublicKey lb)) (both sA sB) (\<lambda>_. {}) (\<lambda>_. [])"
proof -
  note a = built_parts [OF assms(1)] and b = built_parts [OF assms(2)]
  have "ratchets (both sA sB) = both X Y" using a(1) b(1) by (auto simp: ratchets_def both_def split: party.splits)
  moreover have "pq_linked P (x3r_PQRKey a \<noteq> None) (\<lambda>x. se_pqrState (both sA sB x)) (\<lambda>_. [])"
  proof (cases "x3r_PQRKey a")
    case None
    then show ?thesis using a(6) b(6) assms(3) by (auto simp: pq_linked_def both_def split: party.splits)
  next
    case (Some key)
    then show ?thesis
      using a(7) b(7) assms(3) by (auto simp: pq_linked_def NewPqState_def intro: agreed_start)
  qed
  ultimately show ?thesis
    unfolding sessions_linked_def using a b assms(4-7) by (auto simp: both_def split: party.splits)
qed

lemma initiator_ok:
  assumes "NewInitiator_Process P r1 r2 ik b = Inr a" "length (b_SignedPreKeyPublic b) = 32"
  shows "x3_ok a"
  using assms(1)
proof (rule NewInitiator_Process_Inr)
  fix eph :: KeyPair and dh1 dh2 dh3 ikm ch pq ct
  assume e: "GenerateKeyPair P r1 = Inr eph" "pq_part P r2 b ikm = Inr (x3r_SharedSecret a, ch, pq, ct)"
    "x3r_InitialChainKey a = ch" "x3r_PQRKey a = pq"
    "x3r_InitialMessage a = \<lparr>x3m_IdentityKey = ikp_PublicKey ik, x3m_EphemeralKey = kp_PublicKey eph,
       x3m_PreKeyID = b_PreKeyID b, x3m_SignedPreKeyID = b_SignedPreKeyID b,
       x3m_KyberPreKeyID = b_KyberPreKeyID b, x3m_KyberCiphertext = ct, x3m_Ciphertext = []\<rparr>"
    "x3r_LocalEphemeral a = Some eph" "x3r_RemoteRatchetKey a = Some (b_SignedPreKeyPublic b)"
  have "x3r_LocalRatchetKey a = None" using assms(1) by (auto simp: NewInitiator_Process_def ProcessPreKeyBundle_def Let_def)
  moreover have "length (x3r_SharedSecret a) = 32 \<and> (\<forall>k \<in> set_option ch. length k = 32) \<and> (\<forall>k \<in> set_option pq. length k = 32)"
    using e(2) secrets_length by (fastforce simp: pq_part_def split: option.splits)
  ultimately show ?thesis using e GenerateKeyPair_ok [OF e(1)] assms(2) by (simp add: x3_ok_def kp_ok_def)
qed

text \<open>
  A pre-key message carries the identity without its signing key, and the message inside; the
  responder computes with neither.
\<close>

lemma ProcessInitialMessage_cong:
  assumes "ProcessInitialMessage P S True ik spk msg st = (Inr r, st')"
    "ik_PublicKey (x3m_IdentityKey msg') = ik_PublicKey (x3m_IdentityKey msg)" "x3m_EphemeralKey msg' = x3m_EphemeralKey msg"
    "x3m_PreKeyID msg' = x3m_PreKeyID msg" "x3m_SignedPreKeyID msg' = x3m_SignedPreKeyID msg"
    "x3m_KyberPreKeyID msg' = x3m_KyberPreKeyID msg" "x3m_KyberCiphertext msg' = x3m_KyberCiphertext msg"
  shows "ProcessInitialMessage P S True ik spk msg' st =
     (Inr (r\<lparr>x3r_RemoteIdentity := x3m_IdentityKey msg', x3r_InitialMessage := msg'\<rparr>), st')"
proof -
  obtain kp where k: "x3m_SignedPreKeyID msg = spk_ID spk" "spk_KeyPair spk = Some kp"
    using assms(1) by (auto simp: ProcessInitialMessage_def split: if_splits option.splits)
  have k': "x3m_SignedPreKeyID msg' = spk_ID spk" using k(1) assms(5) by simp
  have eq: "otp_load P S msg' ikm st = otp_load P S msg ikm st" "pq_load P S True msg' ikm st = pq_load P S True msg ikm st"
    "AssociatedData (x3m_IdentityKey msg') i = AssociatedData (x3m_IdentityKey msg) i" for ikm st i
    unfolding otp_load_def pq_load_def AssociatedData_def assms(2-7) by simp_all
  show ?thesis
    using assms(1) unfolding ProcessInitialMessage_parts [OF k] ProcessInitialMessage_parts [OF k' k(2)] eq assms(2,3)
    by (auto simp: eq)
qed

lemma InitializeState_cong:
  "x3m_EphemeralKey (x3m) = x3m_EphemeralKey (x3r_InitialMessage r) \<Longrightarrow>
     InitializeState P rnd (Some (r\<lparr>x3r_RemoteIdentity := i, x3r_InitialMessage := x3m\<rparr>)) False = InitializeState P rnd (Some r) False"
  by (simp add: InitializeState_def InitializeStateWithGenerator_def Let_def)

text \<open>The key pairs that are drawn have public keys that the other side has not seen.\<close>

definition fresh_draws :: "'z prims_scheme \<Rightarrow> (nat \<Rightarrow> bytes res) \<Rightarrow> (nat \<Rightarrow> bytes res) \<Rightarrow> PreKeyBundle \<Rightarrow> bool" where
  "fresh_draws P rndA rndB b \<longleftrightarrow>
     (\<forall>e k. GenerateKeyPair P (rndA 0) = Inr e \<and> GenerateKeyPair P (rndA 2) = Inr k \<longrightarrow> kp_PublicKey k \<noteq> kp_PublicKey e) \<and>
     (\<forall>i \<in> {1, 2}. \<forall>k. GenerateKeyPair P (rndB i) = Inr k \<longrightarrow> kp_PublicKey k \<noteq> b_SignedPreKeyPublic b)"

text \<open>The message of the initiator, as the responder reads it.\<close>

definition same_offer :: "X3Message \<Rightarrow> X3Message \<Rightarrow> bool" where
  "same_offer m m' \<longleftrightarrow> ik_PublicKey (x3m_IdentityKey m') = ik_PublicKey (x3m_IdentityKey m) \<and> x3m_EphemeralKey m' = x3m_EphemeralKey m \<and>
    x3m_PreKeyID m' = x3m_PreKeyID m \<and> x3m_SignedPreKeyID m' = x3m_SignedPreKeyID m \<and>
    x3m_KyberPreKeyID m' = x3m_KyberPreKeyID m \<and> x3m_KyberCiphertext m' = x3m_KyberCiphertext m"

context prekey_store
begin

lemma offer_accepted:
  assumes "dh_comm P" "kem_ok P" "honest_identity P ikA" "published P S ikB spk b st" "NewInitiator_Process P r1 r2 ikA b = Inr a"
    "same_offer (x3r_InitialMessage a) msg"
  obtains r st' where "agrees a r" "x3r_LocalRatchetKey r = spk_KeyPair spk"
    "ProcessInitialMessage P S True ikB spk msg st = (Inr (r\<lparr>x3r_RemoteIdentity := x3m_IdentityKey msg, x3r_InitialMessage := msg\<rparr>), st')"
    "\<And>rnd. InitializeState P rnd (Some (r\<lparr>x3r_RemoteIdentity := x3m_IdentityKey msg, x3r_InitialMessage := msg\<rparr>)) False =
       InitializeState P rnd (Some r) False"
proof -
  obtain r st' where r: "ProcessInitialMessage P S True ikB spk (x3r_InitialMessage a) st = (Inr r, st')" "agrees a r"
    "x3r_LocalRatchetKey r = spk_KeyPair spk"
    using responder_agrees [OF assms(1-5)] by blast
  have "ProcessInitialMessage P S True ikB spk msg st =
      (Inr (r\<lparr>x3r_RemoteIdentity := x3m_IdentityKey msg, x3r_InitialMessage := msg\<rparr>), st')"
    using r(1) by (rule ProcessInitialMessage_cong) (use assms(6) in \<open>simp_all add: same_offer_def\<close>)
  then show thesis
    by (rule that [OF r(2,3)]) (use assms(6) r(2) in \<open>auto intro!: InitializeState_cong simp: same_offer_def agrees_def\<close>)
qed

end

lemma first_paired:
  assumes "dh_comm P" "NewInitiator_Process P (rndA 0) r2 ikA b = Inr a" "agrees a r" "x3r_LocalRatchetKey r = Some y" "honest_pair P y"
    "InitializeState P (\<lambda>i. rndA (2 + i)) (Some a) True = Inr X" "InitializeState P rndB (Some r) False = Inr Y" "fresh_draws P rndA rndB b"
  shows "paired P (both X Y) (\<lambda>_. {})"
proof -
  obtain eph where eph: "GenerateKeyPair P (rndA 0) = Inr eph" "x3r_LocalEphemeral a = Some eph"
    "x3m_EphemeralKey (x3r_InitialMessage a) = kp_PublicKey eph"
    using assms(2) by (rule initiator_ephemeral)
  have sp: "x3r_RemoteRatchetKey a = Some (b_SignedPreKeyPublic b)" using assms(2) by (rule NewInitiator_Process_Inr)
  have im: "x3r_InitialMessage r = x3r_InitialMessage a" "x3r_InitialChainKey r = x3r_InitialChainKey a" using assms(3) by (simp_all add: agrees_def)
  have "if x3r_InitialChainKey a = None then fresh_for X Y else fresh_for Y X"
  proof (cases "x3r_InitialChainKey a")
    case None
    obtain z where "GenerateKeyPair P (rndB 1) = Inr z" "rs_DHs Y = Some z"
      using assms(7,4) by (rule responder_cases) (use None im in auto)
    moreover have "rs_SeenDH X = {|b_SignedPreKeyPublic b|}" using assms(6) by (rule initiator_cases) (use sp in auto)
    ultimately show ?thesis using None assms(8) by (auto simp: fresh_for_def fresh_draws_def)
  next
    case (Some ck)
    obtain x where "GenerateKeyPair P (rndA 2) = Inr x" "rs_DHs X = Some x"
      using assms(6) by (rule initiator_cases) (use Some in auto)
    moreover have "rs_SeenDH Y = {|kp_PublicKey eph|}" using assms(7,4) by (rule responder_cases) (use im eph in auto)
    ultimately show ?thesis using Some assms(8) eph(1) by (auto simp: fresh_for_def fresh_draws_def)
  qed
  moreover have "\<forall>e. x3r_LocalEphemeral a = Some e \<longrightarrow> honest_pair P e" using eph by (auto intro: GenerateKeyPair_honest)
  ultimately have "paired P (\<lambda>p. case p of Alice \<Rightarrow> X | Bob \<Rightarrow> Y) (\<lambda>_. {})"
    using start_linked [OF assms(1,3) _ assms(4-7)] by blast
  then show ?thesis unfolding both_def .
qed

lemma AdvanceForHeader_turn:
  assumes "AdvanceForHeader P rnd h s = (Inr mk, s')" "rs_DHr s' \<noteq> rs_DHr s"
  shows "\<exists>z. GenerateKeyPair P rnd = Inr z \<and> rs_DHs s' = Some z"
  using assms(1)
proof (cases rule: AdvanceForHeader_Inr)
  case (ratchet s0 s1 s2)
  from ratchet(5) show ?thesis
    by (cases rule: DHRatchet_Inr) (use ratchet(6,12) in \<open>auto simp: skips_def\<close>)
qed (use assms(2) in \<open>auto simp: skips_def\<close>)

section \<open>The first message\<close>

lemma EncryptWithPreKeyBundle_Inr:
  assumes "WireCipher_EncryptWithPreKeyBundle P W rnd S a (Some b) p st = (Inr ct, st')"
  obtains ik x X s m s' reg pm st1 where "GetIdentityKeyPair S st = Inr (Some ik)" "NewInitiator_Process P (rnd 0) (rnd 1) ik b = Inr x"
    "InitializeState P (\<lambda>i. rnd (2 + i)) (Some x) True = Inr X" "built P True x X (ikp_PublicKey ik) (b_IdentityKey b) s"
    "encryptSignalMessage P W (rnd 4) p s = (Inr m, s')"
    "NewPreKeySignalMessage W (ciphertextVersionForSession (Some s')) reg (x3m_PreKeyID (x3r_InitialMessage x))
       (x3m_SignedPreKeyID (x3r_InitialMessage x)) (x3m_KyberPreKeyID (x3r_InitialMessage x)) (x3m_KyberCiphertext (x3r_InitialMessage x))
       (x3m_EphemeralKey (x3r_InitialMessage x)) (x3m_IdentityKey (x3r_InitialMessage x)) (Some m) = Inr pm"
    "ct = pm_serialized pm"
    "persistRecord S a (Some \<lparr>rec_current = Some (Session_clone s'), rec_archived = [], rec_maxArchived = DefaultMaxArchivedSessions\<rparr>) st1 = (Inr (), st')"
proof -
  obtain s x3 st1 where b: "Builder_ProcessPreKeyBundle P rnd S a (Some b) st = (Inr (s, x3), st1)"
    using assms by (auto simp: WireCipher_EncryptWithPreKeyBundle_def split: if_splits)
  obtain ik where ik: "GetIdentityKeyPair S st = Inr (Some ik)"
    using b by (auto simp: Builder_ProcessPreKeyBundle_def split: if_splits option.splits)
  obtain x X where x: "NewInitiator_Process P (rnd 0) (rnd 1) ik b = Inr x" "InitializeState P (\<lambda>i. rnd (2 + i)) (Some x) True = Inr X"
    "x3 = x3r_InitialMessage x" "built P True x X (ikp_PublicKey ik) (b_IdentityKey b) s"
    using b ik by (fastforce simp: Builder_ProcessPreKeyBundle_def built_def Let_def split: if_splits)
  have "NewRecord (Some s') DefaultMaxArchivedSessions =
      Inr \<lparr>rec_current = Some (Session_clone s'), rec_archived = [], rec_maxArchived = DefaultMaxArchivedSessions\<rparr>" for s'
    by (simp add: NewRecord_def DefaultMaxArchivedSessions_def)
  with assms b x(3) show thesis
    by (auto simp: WireCipher_EncryptWithPreKeyBundle_def case_prod_eq split: if_splits intro: that [OF ik x(1,2,4)])
qed

lemma Builder_ProcessPreKeyMessage_Inr:
  assumes "Builder_ProcessPreKeyMessage P rnd now S addr msg st = (Inr (s, ad), st')" "GetIdentityKeyPair S st = Inr (Some ik)"
    "LoadSignedPreKey S (x3m_SignedPreKeyID msg) st = Inr (Some spk)"
  obtains x st1 Y where "ProcessInitialMessage P S True ik spk msg st = (Inr x, st1)" "InitializeState P rnd (Some x) False = Inr Y"
    "built P False (x\<lparr>x3r_InitialMessage := msg\<rparr>) Y (ikp_PublicKey ik) (x3m_IdentityKey msg) s"
  using assms
  by (fastforce simp: Builder_ProcessPreKeyMessage_def built_def initSessionPQR_def Let_def split: if_splits)

lemma honest_wire_key: "dh_valid P \<Longrightarrow> GenerateKeyPair P rnd = Inr k \<Longrightarrow> wire_key P (kp_PublicKey k)"
  using GenerateKeyPair_honest [of P rnd k] GenerateKeyPair_ok [of P rnd k]
  by (auto simp: wire_key_def dh_valid_def honest_pair_def kp_ok_def)

text \<open>What the responder reads from the initiator's first message.\<close>

abbreviation offer_of :: "PreKeySignalMessage \<Rightarrow> X3Message" where
  "offer_of msg \<equiv> \<lparr>x3m_IdentityKey = pm_identityKey msg, x3m_EphemeralKey = pm_baseKey msg,
      x3m_PreKeyID = pm_preKeyID msg, x3m_SignedPreKeyID = pm_signedPreKeyID msg,
      x3m_KyberPreKeyID = pm_kyberPreKeyID msg, x3m_KyberCiphertext = pm_kyberCiphertext msg,
      x3m_Ciphertext = sm_serialized (pm_message msg)\<rparr>"

lemma first_parse:
  assumes laws: "dh_valid P" "pw_ok W"
    and a: "NewInitiator_Process P r1 r2 ik b = Inr x" "InitializeState P rnd (Some x) True = Inr X" "ik_ok P (ikp_PublicKey ik)"
      "se_ratchetState s = Some X" "encryptSignalMessage P W rand p s = (Inr m, s')"
      "NewPreKeySignalMessage W v reg (x3m_PreKeyID (x3r_InitialMessage x)) (x3m_SignedPreKeyID (x3r_InitialMessage x))
         (x3m_KyberPreKeyID (x3r_InitialMessage x)) (x3m_KyberCiphertext (x3r_InitialMessage x))
         (x3m_EphemeralKey (x3r_InitialMessage x)) (x3m_IdentityKey (x3r_InitialMessage x)) (Some m) = Inr pm"
  obtains msg where "ParseSignalMessage P W (pm_serialized pm) = Inl ErrInvalidMessage"
    "ParsePreKeySignalMessage P W (pm_serialized pm) = Inr msg" "pm_message msg = m" "same_offer (x3r_InitialMessage x) (offer_of msg)"
    "x3m_SignedPreKeyID (offer_of msg) = b_SignedPreKeyID b" "ik_PublicKey (pm_identityKey msg) = ik_PublicKey (ikp_PublicKey ik)"
proof -
  obtain eph where eph: "GenerateKeyPair P r1 = Inr eph" "x3r_LocalEphemeral x = Some eph"
    "x3m_EphemeralKey (x3r_InitialMessage x) = kp_PublicKey eph"
    using a(1) by (rule initiator_ephemeral)
  have im: "x3m_IdentityKey (x3r_InitialMessage x) = ikp_PublicKey ik" "x3m_SignedPreKeyID (x3r_InitialMessage x) = b_SignedPreKeyID b"
    using a(1) by (auto elim!: NewInitiator_Process_Inr)
  have "\<exists>k r. rs_DHs X = Some k \<and> GenerateKeyPair P r = Inr k" using a(2) by (rule initiator_cases) (use eph in auto)
  then obtain k where k: "rs_DHs X = Some k" "wire_key P (kp_PublicKey k)" using laws(1) honest_wire_key by blast
  have "ParseSignalMessage P W (sm_serialized m) = Inr m"
    using a(5)
  proof (rule encryptSignalMessage_Inr)
    fix localID remoteID st h mk st' message macKey ct
    assume e: "se_ratchetState s = Some st" "NextSendingMessageKey P st = (Inr (h, mk), st')"
      "NewSignalMessage P W (ciphertextVersionForSession (Some s)) macKey (h_DH h) (h_N h) (h_PN h) ct localID remoteID message = Inr m"
    have "h_DH h = kp_PublicKey k" using e(2) by (rule NextSendingMessageKey_Inr) (use e(1) a(4) k(1) in auto)
    then show ?thesis using ParseSignalMessage_New [OF laws(2) _ e(3)] k(2) by simp
  qed
  then have "ParsePreKeySignalMessage P W (pm_serialized pm) =
      Inr (pm\<lparr>pm_identityKey := \<lparr>ik_PublicKey = ik_PublicKey (ikp_PublicKey ik), ik_SigningPublic = zero32\<rparr>\<rparr>)"
    using ParsePreKeySignalMessage_New [where P = P, OF laws(2) _ _ _ a(6)] honest_wire_key [OF laws(1) eph(1)] a(3) im eph(3)
    by (simp add: wire_key_def ik_ok_def)
  moreover have "pm_message pm = m" "pm_baseKey pm = x3m_EphemeralKey (x3r_InitialMessage x)" "pm_preKeyID pm = x3m_PreKeyID (x3r_InitialMessage x)"
    "pm_signedPreKeyID pm = x3m_SignedPreKeyID (x3r_InitialMessage x)" "pm_kyberPreKeyID pm = x3m_KyberPreKeyID (x3r_InitialMessage x)"
    "pm_kyberCiphertext pm = x3m_KyberCiphertext (x3r_InitialMessage x)"
    using a(6) by (auto simp: NewPreKeySignalMessage_def Let_def split: if_splits)
  ultimately show thesis
    using prekey_not_signal [OF laws(2) a(6)] im
    by (intro that [of "pm\<lparr>pm_identityKey := \<lparr>ik_PublicKey = ik_PublicKey (ikp_PublicKey ik), ik_SigningPublic = zero32\<rparr>\<rparr>"])
      (auto simp: same_offer_def)
qed

lemma Session_clone_id:
  "pred_option state_storable (se_pqrState s) \<Longrightarrow> se_previousStates s = [] \<Longrightarrow> Session_clone s = s"
proof -
  assume s: "pred_option state_storable (se_pqrState s)" "se_previousStates s = []"
  have "Pq_Clone (se_pqrState s) = se_pqrState s"
    using s(1) by (cases "se_pqrState s") (simp_all add: clone_state, simp add: Pq_Clone_def)
  then show ?thesis using s(2) by (cases "se_ratchetState s") (simp_all add: Session_clone_def cloneStateSlice_def)
qed

lemma chain_small_storable:
  assumes "state_wf t" "ps_version t = VersionV1" "ps_v1 t \<noteq> None" "\<And>c. ps_chain t = Some c \<Longrightarrow> new_chain c"
  shows "state_storable t"
proof (rule state_storableI [OF assms(1-3)])
  fix c assume c: "ps_chain t = Some c"
  then have "length (serializeChain c) \<le> 62 + 88 * length (ch_links c)" "length (ch_links c) \<le> 2"
    using assms(1,4) length_chain by (auto simp: state_wf_def new_chain_def)
  then show "length (serializeChain c) < 2 ^ 32" by simp
qed

text \<open>The responder's keys are in its store, and it has published the bundle.\<close>

definition ready :: "'z prims_scheme \<Rightarrow> 's ProtocolStore \<Rightarrow> IdentityKeyPair \<Rightarrow> SignedPreKey \<Rightarrow> PreKeyBundle \<Rightarrow> 's \<Rightarrow> bool" where
  "ready P S ik spk b st \<longleftrightarrow> published P S ik spk b st \<and> GetIdentityKeyPair S st = Inr (Some ik) \<and>
     LoadSignedPreKey S (b_SignedPreKeyID b) st = Inr (Some spk) \<and> keys_ok P S st"

text \<open>The sessions of the two sides when the first message is on its way.\<close>

lemma first_linked:
  assumes laws: "dh_comm P" "mlkem_ok P" "dh_valid P" "pw_ok W"
    and a: "NewInitiator_Process P (rndA 0) r2 ikA b = Inr x" "InitializeState P (\<lambda>i. rndA (2 + i)) (Some x) True = Inr X"
      "built P True x X (ikp_PublicKey ikA) ikB sA" "encryptSignalMessage P W (Inr r) p sA = (Inr m, sA')"
    and b: "agrees x y" "x3r_LocalRatchetKey y = Some k" "honest_pair P k" "InitializeState P rndB (Some y) False = Inr Y"
      "built P False (y\<lparr>x3r_RemoteIdentity := i, x3r_InitialMessage := msg\<rparr>) Y ikB i sB" "same_offer (x3r_InitialMessage x) msg" "x3m_IdentityKey msg = i"
    and "fresh_draws P rndA rndB b" "x3_ok x" "x3_ok y" "ik_ok P (ikp_PublicKey ikA)" "ik_ok P ikB" "ik_ok P i"
  obtains pq v ident K L where "sessions_linked P pq v ident (both sA' sB) K L" "sealed_by P W pq v ident K L Alice m p"
    "log_size L \<le> 1" "session_run P sA'" "session_live P sB" "Session_clone sA' = sA'"
    "msg_header m = \<lparr>h_DH = kp_PublicKey (the (rs_DHs X)), h_PN = rs_PN X, h_N = rs_Ns X\<rparr>"
    "rs_DHs (ratchets (both sA' sB) Alice) = rs_DHs X" "rs_DHs X \<noteq> None" "rs_SeenDH (ratchets (both sA' sB) Alice) = rs_SeenDH X"
    "ratchets (both sA' sB) Bob = Y"
    "pq \<Longrightarrow> \<exists>u u' k. se_pqrState sB = Some u \<and> ps_chain u = None \<and> Pq_Receive P (sm_pqRatchet m) (Some u) = (Inr k, Some u')"
    "pq \<Longrightarrow> \<exists>msg. deserializeV1Message (sm_pqRatchet m) = Inr (msg, 0) \<and> vm_epoch msg = 1"
    "\<not> pq \<Longrightarrow> se_pqrState sB = None"
proof -
  let ?pq = "x3r_PQRKey x \<noteq> None" and ?v = "ciphertextVersionFromX3DH (Some (x3r_InitialMessage x))"
  let ?id = "both (ik_PublicKey (ikp_PublicKey ikA)) (ik_PublicKey ikB)"
  have i: "ik_PublicKey i = ik_PublicKey (ikp_PublicKey ikA)"
    using b(6,7) a(1) by (auto simp: same_offer_def elim!: NewInitiator_Process_Inr)
  have pair: "paired P (both X Y) (\<lambda>_. {})" by (rule first_paired [OF laws(1) a(1) b(1-3) a(2) b(4) assms(16)])
  have l: "sessions_linked P ?pq ?v ?id (both sA sB) (\<lambda>_. {}) (\<lambda>_. [])"
    by (rule built_linked [OF a(3) b(5)])
      (use b(1,6) i pair in \<open>auto simp: agrees_def same_offer_def ciphertextVersionFromX3DH_def\<close>)
  have y': "InitializeState P rndB (Some (y\<lparr>x3r_RemoteIdentity := i, x3r_InitialMessage := msg\<rparr>)) False = Inr Y"
    "x3_ok (y\<lparr>x3r_RemoteIdentity := i, x3r_InitialMessage := msg\<rparr>)"
    using InitializeState_cong [of msg y P rndB i] b(1,4,6) assms(18) by (auto simp: agrees_def same_offer_def x3_ok_def)
  have live: "session_live P sA" "session_live P sB"
    using built_live [OF a(3,2) assms(17,19,20)] built_live [OF b(5) y'(1,2) assms(20,21)] by simp_all
  have sA: "session_live P (both sA sB Alice)" "encryptSignalMessage P W (Inr r) p (both sA sB Alice) = (Inr m, sA')"
    using live(1) a(4) by simp_all
  show thesis
  proof (rule linked_encrypt [OF laws(2-4) l _ sA])
    fix K L assume k: "sessions_linked P ?pq ?v ?id ((both sA sB)(Alice := sA')) K L" "sealed_by P W ?pq ?v ?id K L Alice m p"
      "log_size L \<le> Suc (log_size (\<lambda>_. []))" "session_run P sA'"
      "h_DH (msg_header m) = kp_PublicKey (the (rs_DHs (ratchets (both sA sB) Alice)))" "h_N (msg_header m) = rs_Ns (ratchets (both sA sB) Alice)"
      "h_PN (msg_header m) = rs_PN (ratchets (both sA sB) Alice)"
      "rs_DHs (ratchets ((both sA sB)(Alice := sA')) Alice) = rs_DHs (ratchets (both sA sB) Alice)" "rs_DHs (ratchets (both sA sB) Alice) \<noteq> None"
      "?pq \<Longrightarrow> Suc (length []) \<le> 25000 \<Longrightarrow> \<exists>u u' k. se_pqrState (both sA sB (peer Alice)) = Some u \<and> Pq_Receive P (sm_pqRatchet m) (Some u) = (Inr k, Some u')"
      "?pq \<Longrightarrow> \<exists>salt. Pq_Send P (Inr r) (se_pqrState (both sA sB Alice)) = (Inr (sm_pqRatchet m, salt), se_pqrState sA') \<and> (sm_pqRatchet m, salt) \<in> set (L Alice)"
    have X: "ratchets (both sA sB) Alice = X" using built_parts(1) [OF a(3)] by (simp add: ratchets_def)
    have Y: "ratchets (both sA' sB) Bob = Y" using built_parts(1) [OF b(5)] by (simp add: ratchets_def)
    have seen: "rs_SeenDH (ratchets (both sA' sB) Alice) = rs_SeenDH X"
      using a(4) by (rule encryptSignalMessage_Inr) (use built_parts(1) [OF a(3)] in \<open>auto simp: ratchets_def elim!: NextSendingMessageKey_Inr\<close>)
    have prev: "se_previousStates sA' = []"
      using a(4) by (rule encryptSignalMessage_Inr) (use built_parts(4) [OF a(3)] in simp)
    have first: "ps_chain t' = None \<and> (\<exists>msg. deserializeV1Message (sm_pqRatchet m) = Inr (msg, 0) \<and> vm_epoch msg = 1)"
      if on: "?pq" "se_pqrState sA' = Some t'" for t'
    proof -
      obtain salt t where st: "Pq_Send P (Inr r) (Some t) = (Inr (sm_pqRatchet m, salt), Some t')" "(sm_pqRatchet m, salt) \<in> set (L Alice)"
        "\<exists>key. NewPqState P key DirectionA2B pq_params = Inr t"
        using k(11) [OF on(1)] on built_parts(7) [OF a(3)] by fastforce
      then have "ps_chain t' = None" "salt = []" using first_send by blast+
      moreover have "\<exists>auth aa bb. agreed P auth pq_params aa bb (L Alice) (L Bob)"
        using k(1) on(1) by (auto simp: sessions_linked_def pq_linked_def)
      ultimately show ?thesis using st(2) chainless_message by blast
    qed
    have "pred_option state_storable (se_pqrState sA')"
    proof (cases "se_pqrState sA'")
      case (Some t')
      have "pq_linked P ?pq (\<lambda>y. se_pqrState (((both sA sB)(Alice := sA')) y)) L" using k(1) by (simp add: sessions_linked_def)
      from pq_linked_live [OF this, of Alice t'] show ?thesis
        using Some first [OF _ Some] k(4) by (auto simp: session_run_def intro!: chain_small_storable)
    qed simp
    then have clone: "Session_clone sA' = sA'" using prev by (rule Session_clone_id)
    have "se_pqrState sA' \<noteq> None" if ?pq using k(1) that by (auto simp: sessions_linked_def pq_linked_def)
    then have msg1: "\<exists>msg. deserializeV1Message (sm_pqRatchet m) = Inr (msg, 0) \<and> vm_epoch msg = 1" if ?pq using that first by blast
    have chain: "ps_chain u = None" if "se_pqrState sB = Some u" for u
      using that built_parts(6,7) [OF b(5)] by (cases "x3r_PQRKey y") (auto simp: NewPqState_def NewStateWithMinVersion_def split: if_splits)
    have nopq: "\<not> ?pq \<Longrightarrow> se_pqrState sB = None" using built_parts(6) [OF b(5)] b(1) by (simp add: agrees_def)
    show thesis
      by (rule that [OF _ k(2) _ k(4) live(2) clone _ _ _ seen Y _ msg1 nopq])
        (use k chain X in \<open>auto simp: log_size_def\<close>)
  qed (simp add: log_size_def)
qed

lemma decrypt_first:
  assumes "LoadSession S a st = Inr None" "ParseSignalMessage P W ct = Inl e" "ParsePreKeySignalMessage P W ct = Inr msg"
    "WireCipher_Decrypt P W rnd rndB now S a ct st = (Inr q, st')"
  obtains s ad st1 s' where "Builder_ProcessPreKeyMessage P rndB now S a (offer_of msg) st = (Inr (s, ad), st1)"
    "decryptSignalWithSession P (rndB 2) (pm_message msg) s = (Inr q, s')"
    "persistRecord S a (Some \<lparr>rec_current = Some (Session_clone s'), rec_archived = [], rec_maxArchived = DefaultMaxArchivedSessions\<rparr>) st1 = (Inr (), st')"
proof -
  have n: "NewRecord (Some s') DefaultMaxArchivedSessions =
      Inr \<lparr>rec_current = Some (Session_clone s'), rec_archived = [], rec_maxArchived = DefaultMaxArchivedSessions\<rparr>" for s'
    by (simp add: NewRecord_def DefaultMaxArchivedSessions_def)
  have "loadRecordOptional P S a st = Inr None" using assms(1) by (simp add: loadRecordOptional_def)
  with assms(2-) show thesis
    by (auto simp: WireCipher_Decrypt_def WireCipher_decryptPreKeyMessage_def Let_def case_prod_eq n intro: that)
qed

text \<open>The responder's session can be copied: its post-quantum chain is a new one.\<close>

lemma first_clone:
  assumes "session_live P s" "decryptSignalWithSession P rnd m s = (Inr q, s')" "signal_ok P m" "se_previousStates s = []"
    "\<And>u. se_pqrState s = Some u \<Longrightarrow> ps_chain u = None \<and> ps_v1 u \<noteq> None \<and> (\<exists>msg. deserializeV1Message (sm_pqRatchet m) = Inr (msg, 0) \<and> vm_epoch msg = 1)"
    "\<And>t. se_pqrState s' = Some t \<Longrightarrow> ps_version t = VersionV1 \<and> ps_v1 t \<noteq> None"
  shows "Session_clone s' = s'"
proof (rule Session_clone_id)
  show "se_previousStates s' = []" using assms(2) by (rule decryptSignalWithSession_Inr) (use assms(4) in simp)
  have q: "\<exists>salt. pqr_salt P (sm_pqRatchet m) (se_pqrState s) salt (se_pqrState s')" using assms(2) by (rule decryptSignalWithSession_Inr) auto
  have "state_wf t" if "se_pqrState s' = Some t" for t
    using decrypt_live(3) [OF assms(1,2)] assms(3) that by (simp add: signal_ok_def wire_key_def)
  moreover have "new_chain c" if t: "se_pqrState s' = Some t" "ps_chain t = Some c" for t c
  proof -
    obtain u k v where "se_pqrState s = Some u" "Pq_Receive P (sm_pqRatchet m) (Some u) = (Inr k, Some t)" "ps_v1 u = Some v"
      using q t(1) assms(1,5) by (cases "se_pqrState s") (auto simp: pqr_salt_def session_live_def session_ok_def clone_state)
    then show ?thesis using assms(5) first_receive t(2) by blast
  qed
  ultimately show "pred_option state_storable (se_pqrState s')"
    using assms(6) by (cases "se_pqrState s'") (auto intro: chain_small_storable)
qed

locale peer_store = wire_store S + prekey_store S for S :: "'s ProtocolStore"

interpretation mem: peer_store "mem_store pick" for pick
  by unfold_locales

text \<open>The key pair can be drawn, and no exchange with an honest key fails.\<close>

definition draws :: "'z prims_scheme \<Rightarrow> bytes res \<Rightarrow> bool" where
  "draws P rnd \<longleftrightarrow> (\<exists>z. GenerateKeyPair P rnd = Inr z \<and> (\<forall>e. honest_pair P e \<longrightarrow> isOk (DH P (kp_PrivateKey z) (kp_PublicKey e))))"

lemma first_responder:
  assumes "dh_comm P" "NewInitiator_Process P r1 r2 ikA b = Inr x" "InitializeState P rnd (Some x) True = Inr X"
    "agrees x y" "x3r_LocalRatchetKey y = Some k" "honest_pair P k" "draws P (rndB 1)"
  shows "\<exists>Y. InitializeState P rndB (Some y) False = Inr Y"
proof -
  obtain eph where eph: "GenerateKeyPair P r1 = Inr eph" "x3r_LocalEphemeral x = Some eph"
    "x3m_EphemeralKey (x3r_InitialMessage x) = kp_PublicKey eph"
    using assms(2) by (rule initiator_ephemeral)
  have h: "honest_pair P eph" using eph(1) by (rule GenerateKeyPair_honest)
  note ag = assms(4) [unfolded agrees_def]
  have secret: "x3r_SharedSecret y \<noteq> zero32"
    using assms(3) ag by (auto simp: InitializeState_def InitializeStateWithGenerator_def split: if_splits)
  show ?thesis
  proof (cases "x3r_InitialChainKey y")
    case None
    have "\<exists>d. DH P (kp_PrivateKey eph) (kp_PublicKey k) = Inr d"
      using assms(3) by (rule initiator_cases) (use None ag assms(5) eph(2) in auto)
    then obtain d where d: "DH P (kp_PrivateKey k) (kp_PublicKey eph) = Inr d" using DH_agree [OF assms(1) h assms(6)] by auto
    obtain rk c where rk: "KDFRoot P (x3r_SharedSecret y) d = Inr (rk, c)" using KDFRoot_total by blast
    obtain z d2 where z: "GenerateKeyPair P (rndB 1) = Inr z" "DH P (kp_PrivateKey z) (kp_PublicKey eph) = Inr d2"
      using assms(7) h unfolding draws_def by (metis isOk.elims(2))
    obtain rk2 c2 where "KDFRoot P rk d2 = Inr (rk2, c2)" using KDFRoot_total by blast
    then show ?thesis
      using None secret ag eph(3) assms(5) d rk z by (simp add: InitializeState_def InitializeStateWithGenerator_def Let_def)
  qed (use secret assms(5) in \<open>simp add: InitializeState_def InitializeStateWithGenerator_def Let_def\<close>)
qed

text \<open>The first message is within reach of the responder's new ratchet.\<close>

lemma first_deliverable:
  assumes "NewInitiator_Process P (rndA 0) r2 ikA b = Inr x"
    "InitializeState P (\<lambda>i. rndA (2 + i)) (Some x) True = Inr X" "rs_DHs X = Some kp"
    "agrees x y" "x3r_LocalRatchetKey y = Some k" "InitializeState P rndB (Some y) False = Inr Y" "fresh_draws P rndA rndB b" "draws P rnd"
  shows "deliverable P rnd \<lparr>h_DH = kp_PublicKey kp, h_PN = rs_PN X, h_N = rs_Ns X\<rparr> X Y"
proof -
  obtain eph where eph: "GenerateKeyPair P (rndA 0) = Inr eph" "x3r_LocalEphemeral x = Some eph"
    "x3m_EphemeralKey (x3r_InitialMessage x) = kp_PublicKey eph"
    using assms(1) by (rule initiator_ephemeral)
  have im: "x3r_InitialMessage y = x3r_InitialMessage x" "x3r_InitialChainKey y = x3r_InitialChainKey x" using assms(4) by (simp_all add: agrees_def)
  have X: "rs_PN X = 0" "rs_Ns X = 0" using assms(2) by (rule initiator_cases; simp)+
  have Y: "rs_DHr Y = Some (kp_PublicKey eph)" "rs_Nr Y = 0" "rs_MKSkipped Y = fmempty" "rs_SeenDH Y = {|kp_PublicKey eph|}"
    using assms(6,5) by (rule responder_cases; use im eph(3) in simp)+
  show ?thesis
  proof (cases "x3r_InitialChainKey x")
    case None
    have "kp = eph" using assms(2) by (rule initiator_cases) (use None eph(2) assms(3) in auto)
    then show ?thesis using assms(3) X Y by (auto simp: deliverable_def consumed_def)
  next
    case (Some ck)
    have g: "GenerateKeyPair P (rndA 2) = Inr kp" using assms(2) by (rule initiator_cases) (use Some assms(3) in auto)
    then have "kp_PublicKey kp \<noteq> kp_PublicKey eph" using assms(7) eph(1) by (auto simp: fresh_draws_def)
    moreover have "\<exists>z. GenerateKeyPair P rnd = Inr z \<and> isOk (DH P (kp_PrivateKey z) (kp_PublicKey kp))"
      using assms(8) GenerateKeyPair_honest [OF g] by (auto simp: draws_def)
    ultimately show ?thesis using assms(3) X Y by (auto simp: deliverable_def consumed_def)
  qed
qed

lemma NewPqState_total:
  fixes P :: "'z pq_prims_scheme"
  shows "key \<noteq> [] \<Longrightarrow> dir \<in> {DirectionA2B, DirectionB2A} \<Longrightarrow> \<exists>t. NewPqState P key dir params = Inr t"
  using pair_init [of key P]
  by (auto simp: NewPqState_def NewStateWithMinVersion_def initV1StateForDirection_def VersionV1_def VersionDisabled_def DirectionA2B_def DirectionB2A_def)

lemma built_total:
  fixes P :: "'z pq_prims_scheme"
  assumes "x3_ok x"
  shows "\<exists>s. built P initiator x X l r s"
proof (cases "x3r_PQRKey x")
  case (Some key)
  then have "key \<noteq> []" using assms by (auto simp: x3_ok_def)
  then obtain t where "NewPqState P key (if initiator then DirectionA2B else DirectionB2A) pq_params = Inr t"
    using NewPqState_total [of key "if initiator then DirectionA2B else DirectionB2A" P pq_params] by (cases initiator) auto
  then show ?thesis using Some by (auto simp: built_def NewSession_def initSessionPQR_def Let_def)
qed (auto simp: built_def NewSession_def initSessionPQR_def)

context peer_store
begin

lemma first_offer:
  assumes laws: "dh_comm P" "kem_ok P" "dh_valid P" "pw_ok W"
    and a: "WireCipher_EncryptWithPreKeyBundle P W rndA S aA (Some b) p stA = (Inr ct, stA')" "keys_ok P S stA"
      "\<And>ik. GetIdentityKeyPair S stA = Inr (Some ik) \<Longrightarrow> honest_identity P ik"
    and b: "ready P S ikB spk b stB"
  obtains ikA x X sA m sA' msg y k st1 st2 where
    "NewInitiator_Process P (rndA 0) (rndA 1) ikA b = Inr x" "InitializeState P (\<lambda>i. rndA (2 + i)) (Some x) True = Inr X"
    "built P True x X (ikp_PublicKey ikA) (ikp_PublicKey ikB) sA" "encryptSignalMessage P W (rndA 4) p sA = (Inr m, sA')"
    "persistRecord S aA (Some \<lparr>rec_current = Some (Session_clone sA'), rec_archived = [], rec_maxArchived = DefaultMaxArchivedSessions\<rparr>) st1 = (Inr (), stA')"
    "ParseSignalMessage P W ct = Inl ErrInvalidMessage" "ParsePreKeySignalMessage P W ct = Inr msg" "pm_message msg = m"
    "same_offer (x3r_InitialMessage x) (offer_of msg)" "agrees x y" "x3r_LocalRatchetKey y = Some k" "honest_pair P k"
    "ProcessInitialMessage P S True ikB spk (offer_of msg) stB =
       (Inr (y\<lparr>x3r_RemoteIdentity := pm_identityKey msg, x3r_InitialMessage := offer_of msg\<rparr>), st2)"
    "\<And>rnd. InitializeState P rnd (Some (y\<lparr>x3r_RemoteIdentity := pm_identityKey msg, x3r_InitialMessage := offer_of msg\<rparr>)) False =
       InitializeState P rnd (Some y) False"
    "LoadSignedPreKey S (pm_signedPreKeyID msg) stB = Inr (Some spk)"
    "x3_ok x" "x3_ok y" "ik_ok P (ikp_PublicKey ikA)" "ik_ok P (ikp_PublicKey ikB)" "ik_ok P (pm_identityKey msg)"
  using a(1)
proof (rule EncryptWithPreKeyBundle_Inr)
  fix ikA x X sA m sA' reg pm st1
  assume e: "GetIdentityKeyPair S stA = Inr (Some ikA)" "NewInitiator_Process P (rndA 0) (rndA 1) ikA b = Inr x"
    "InitializeState P (\<lambda>i. rndA (2 + i)) (Some x) True = Inr X" "built P True x X (ikp_PublicKey ikA) (b_IdentityKey b) sA"
    "encryptSignalMessage P W (rndA 4) p sA = (Inr m, sA')"
    "NewPreKeySignalMessage W (ciphertextVersionForSession (Some sA')) reg (x3m_PreKeyID (x3r_InitialMessage x))
       (x3m_SignedPreKeyID (x3r_InitialMessage x)) (x3m_KyberPreKeyID (x3r_InitialMessage x)) (x3m_KyberCiphertext (x3r_InitialMessage x))
       (x3m_EphemeralKey (x3r_InitialMessage x)) (x3m_IdentityKey (x3r_InitialMessage x)) (Some m) = Inr pm"
    "ct = pm_serialized pm"
    "persistRecord S aA (Some \<lparr>rec_current = Some (Session_clone sA'), rec_archived = [], rec_maxArchived = DefaultMaxArchivedSessions\<rparr>) st1 = (Inr (), stA')"
  have ik: "ik_ok P (ikp_PublicKey ikA)" "honest_identity P ikA" using e(1) a(2,3) by (auto simp: keys_ok_def)
  obtain k where k: "spk_KeyPair spk = Some k" "honest_pair P k" "b_SignedPreKeyPublic b = kp_PublicKey k"
    and pub: "b_IdentityKey b = ikp_PublicKey ikB" "published P S ikB spk b stB"
    using b unfolding ready_def published_def by blast
  have kp: "kp_ok k" "ik_ok P (ikp_PublicKey ikB)" using b k(1) by (auto simp: ready_def keys_ok_def)
  obtain msg where m: "ParseSignalMessage P W ct = Inl ErrInvalidMessage" "ParsePreKeySignalMessage P W ct = Inr msg" "pm_message msg = m"
    "same_offer (x3r_InitialMessage x) (offer_of msg)" "pm_signedPreKeyID msg = b_SignedPreKeyID b"
    using first_parse [OF laws(3,4) e(2,3) ik(1) built_parts(1) [OF e(4)] e(5,6)] e(7) by auto
  have i: "ik_ok P (pm_identityKey msg)"
    using ParsePreKeySignalMessage_ok [OF m(2)] by (auto simp: prekey_ok_def ik_ok_def wire_key_def zero32_def)
  obtain y st2 where y: "agrees x y" "x3r_LocalRatchetKey y = spk_KeyPair spk"
    "ProcessInitialMessage P S True ikB spk (offer_of msg) stB =
       (Inr (y\<lparr>x3r_RemoteIdentity := pm_identityKey msg, x3r_InitialMessage := offer_of msg\<rparr>), st2)"
    "\<And>rnd. InitializeState P rnd (Some (y\<lparr>x3r_RemoteIdentity := pm_identityKey msg, x3r_InitialMessage := offer_of msg\<rparr>)) False =
       InitializeState P rnd (Some y) False"
    using offer_accepted [OF laws(1,2) ik(2) pub(2) e(2) m(4)] by auto
  have "x3_ok x" using initiator_ok [OF e(2)] k(3) kp(1) by (simp add: kp_ok_def)
  moreover have "x3_ok (y\<lparr>x3r_RemoteIdentity := pm_identityKey msg, x3r_InitialMessage := offer_of msg\<rparr>)"
    by (rule responder_ok(1) [OF y(3)]) (use m(4) calculation kp k(1) in \<open>auto simp: same_offer_def x3_ok_def\<close>)
  ultimately have ok: "x3_ok x" "x3_ok y" using y(1) by (auto simp: x3_ok_def agrees_def)
  have "built P True x X (ikp_PublicKey ikA) (ikp_PublicKey ikB) sA" "x3r_LocalRatchetKey y = Some k"
    "LoadSignedPreKey S (pm_signedPreKeyID msg) stB = Inr (Some spk)"
    using e(4) y(2) k(1) pub(1) m(5) b by (simp_all add: ready_def)
  then show thesis by (rule that [OF e(2,3) _ e(5,8) m(1-4) y(1) _ k(2) y(3,4) _ ok ik(1) kp(2) i])
qed

text \<open>The sessions that are stored when the responder accepts a first message.\<close>

lemma first_sessions:
  assumes laws: "prims_ok P" "dh_comm P" "kem_ok P" "mlkem_ok P" "dh_valid P" "pw_ok W"
    and a: "WireCipher_EncryptWithPreKeyBundle P W rndA S (A Alice) (Some b) p stA = (Inr ct, stA')" "rndA 4 = Inr r" "keys_ok P S stA"
      "\<And>ik. GetIdentityKeyPair S stA = Inr (Some ik) \<Longrightarrow> honest_identity P ik"
    and b: "ready P S ikB spk b stB" "LoadSession S (A Bob) stB = Inr None" "fresh_draws P rndA rndB b"
      "WireCipher_Decrypt P W rnd rndB now S (A Bob) ct stB = (Inr q, stB')"
  obtains ikA x X sA m sA' st1 y k msg i Y sB sB' st3 pq v ident K L where
    "NewInitiator_Process P (rndA 0) (rndA 1) ikA b = Inr x" "InitializeState P (\<lambda>i. rndA (2 + i)) (Some x) True = Inr X"
    "built P True x X (ikp_PublicKey ikA) (ikp_PublicKey ikB) sA" "encryptSignalMessage P W (rndA 4) p sA = (Inr m, sA')"
    "agrees x y" "x3r_LocalRatchetKey y = Some k" "InitializeState P rndB (Some y) False = Inr Y"
    "built P False (y\<lparr>x3r_RemoteIdentity := i, x3r_InitialMessage := msg\<rparr>) Y (ikp_PublicKey ikB) i sB"
    "decryptSignalWithSession P (rndB 2) m sB = (Inr q, sB')"
    "persistRecord S (A Alice) (Some \<lparr>rec_current = Some sA', rec_archived = [], rec_maxArchived = DefaultMaxArchivedSessions\<rparr>) st1 = (Inr (), stA')"
    "persistRecord S (A Bob) (Some \<lparr>rec_current = Some sB', rec_archived = [], rec_maxArchived = DefaultMaxArchivedSessions\<rparr>) st3 = (Inr (), stB')"
    "session_run P sA'" "session_run P sB'" "sessions_linked P pq v ident (both sA' sB') K L" "log_size L \<le> 1" "q = p"
    "\<And>z t. se_pqrState (both sA' sB' z) = Some t \<Longrightarrow> ps_version t = VersionV1 \<and> ps_v1 t \<noteq> None"
proof (rule first_offer [OF laws(2,3,5,6) a(1,3,4) b(1)])
  fix ikA x X sA m sA' msg y k st1 st2
  assume o: "NewInitiator_Process P (rndA 0) (rndA 1) ikA b = Inr x" "InitializeState P (\<lambda>i. rndA (2 + i)) (Some x) True = Inr X"
    "built P True x X (ikp_PublicKey ikA) (ikp_PublicKey ikB) sA" "encryptSignalMessage P W (rndA 4) p sA = (Inr m, sA')"
    "persistRecord S (A Alice) (Some \<lparr>rec_current = Some (Session_clone sA'), rec_archived = [], rec_maxArchived = DefaultMaxArchivedSessions\<rparr>) st1 = (Inr (), stA')"
    "ParseSignalMessage P W ct = Inl ErrInvalidMessage" "ParsePreKeySignalMessage P W ct = Inr msg" "pm_message msg = m"
    "same_offer (x3r_InitialMessage x) (offer_of msg)" "agrees x y" "x3r_LocalRatchetKey y = Some k" "honest_pair P k"
    "ProcessInitialMessage P S True ikB spk (offer_of msg) stB =
       (Inr (y\<lparr>x3r_RemoteIdentity := pm_identityKey msg, x3r_InitialMessage := offer_of msg\<rparr>), st2)"
    "\<And>rnd. InitializeState P rnd (Some (y\<lparr>x3r_RemoteIdentity := pm_identityKey msg, x3r_InitialMessage := offer_of msg\<rparr>)) False =
       InitializeState P rnd (Some y) False"
    "LoadSignedPreKey S (pm_signedPreKeyID msg) stB = Inr (Some spk)"
    "x3_ok x" "x3_ok y" "ik_ok P (ikp_PublicKey ikA)" "ik_ok P (ikp_PublicKey ikB)" "ik_ok P (pm_identityKey msg)"
  obtain sB ad st3 sB' where d: "Builder_ProcessPreKeyMessage P rndB now S (A Bob) (offer_of msg) stB = (Inr (sB, ad), st3)"
    "decryptSignalWithSession P (rndB 2) m sB = (Inr q, sB')"
    "persistRecord S (A Bob) (Some \<lparr>rec_current = Some (Session_clone sB'), rec_archived = [], rec_maxArchived = DefaultMaxArchivedSessions\<rparr>) st3 = (Inr (), stB')"
    using decrypt_first [OF b(2) o(6,7) b(4)] o(8) by blast
  have ikB: "GetIdentityKeyPair S stB = Inr (Some ikB)" "LoadSignedPreKey S (x3m_SignedPreKeyID (offer_of msg)) stB = Inr (Some spk)"
    using b(1) o(15) by (simp_all add: ready_def)
  obtain Y where Y: "InitializeState P rndB (Some y) False = Inr Y"
    "built P False (y\<lparr>x3r_RemoteIdentity := pm_identityKey msg, x3r_InitialMessage := offer_of msg\<rparr>) Y (ikp_PublicKey ikB) (pm_identityKey msg) sB"
    by (rule Builder_ProcessPreKeyMessage_Inr [OF d(1) ikB]) (use o(13,14) in auto)
  obtain pq v ident K L where l: "sessions_linked P pq v ident (both sA' sB) K L" "sealed_by P W pq v ident K L Alice m p"
    "log_size L \<le> 1" "session_run P sA'" "session_live P sB" "Session_clone sA' = sA'"
    "rs_SeenDH (ratchets (both sA' sB) Alice) = rs_SeenDH X" "ratchets (both sA' sB) Bob = Y"
    "pq \<Longrightarrow> \<exists>u u' k. se_pqrState sB = Some u \<and> ps_chain u = None \<and> Pq_Receive P (sm_pqRatchet m) (Some u) = (Inr k, Some u')"
    "pq \<Longrightarrow> \<exists>msg. deserializeV1Message (sm_pqRatchet m) = Inr (msg, 0) \<and> vm_epoch msg = 1"
    "\<not> pq \<Longrightarrow> se_pqrState sB = None"
    by (rule first_linked [OF laws(2,4,5,6) o(1-3) o(4) [unfolded a(2)] o(10-12) Y(1,2) o(9) _ b(3) o(16-20)]) auto
  have sz: "log_size L + 3000 < 2 ^ 32" using l(3) by simp
  have B: "session_live P (both sA' sB Bob)" "sealed_by P W pq v ident K L (peer Bob) m p"
    "decryptSignalWithSession P (rndB 2) m (both sA' sB Bob) = (Inr q, sB')"
    using l(2,5) d(2) by simp_all
  note dec = linked_decrypt [OF laws(1,2,4) l(1) sz B]
  have adv: "\<exists>mk. AdvanceForHeader P (rndB 2) (msg_header m) Y = (Inr mk, the (se_ratchetState sB'))"
    using d(2) by (rule decryptSignalWithSession_Inr) (use built_parts(1) [OF Y(2)] in auto)
  have "rs_SeenDH X = {|b_SignedPreKeyPublic b|}"
    using o(2) by (rule initiator_cases) (use o(1) in \<open>auto elim!: NewInitiator_Process_Inr\<close>)
  then have "rs_DHr (the (se_ratchetState sB')) \<noteq> rs_DHr (ratchets (both sA' sB) Bob) \<longrightarrow>
      fresh_for (ratchets (both sA' sB) (peer Bob)) (the (se_ratchetState sB'))"
    using l(7,8) adv AdvanceForHeader_turn b(3) by (fastforce simp: fresh_for_def fresh_draws_def)
  from dec(3) [OF this] have lk: "sessions_linked P pq v ident (both sA' sB') K L" by simp
  then have pql: "pq_linked P pq (\<lambda>x. se_pqrState (both sA' sB' x)) L" by (simp add: sessions_linked_def)
  have v1: "ps_version t = VersionV1 \<and> ps_v1 t \<noteq> None" if "se_pqrState (both sA' sB' z) = Some t" for z t
    using pq_linked_live [OF pql that] by simp
  have sig: "signal_ok P m" using ParsePreKeySignalMessage_ok [OF o(7)] o(8) by (simp add: prekey_ok_def)
  have runB: "session_run P sB'"
    using decrypt_live [OF l(5) d(2)] sig by (simp add: session_run_def signal_ok_def wire_key_def)
  have pqB: "pq_linked P pq (\<lambda>x. se_pqrState (both sA' sB x)) L" using l(1) by (simp add: sessions_linked_def)
  have cloneB: "Session_clone sB' = sB'"
  proof (rule first_clone [OF l(5) d(2) sig built_parts(4) [OF Y(2)]])
    fix u assume u: "se_pqrState sB = Some u"
    then show "ps_chain u = None \<and> ps_v1 u \<noteq> None \<and> (\<exists>msg. deserializeV1Message (sm_pqRatchet m) = Inr (msg, 0) \<and> vm_epoch msg = 1)"
      using pq_linked_live [OF pqB, of Bob u] l(9,10) by auto
  qed (use v1 [of Bob] in simp)
  show thesis
    by (rule that [OF o(1-4,10,11) Y d(2) o(5) [unfolded l(6)] d(3) [unfolded cloneB] l(4) runB lk l(3) dec(1) v1])
qed

text \<open>
  A first message that the responder accepts gives the plaintext, and leaves linked sessions in the two stores.
\<close>

lemma first_contact:
  assumes laws: "prims_ok P" "dh_comm P" "kem_ok P" "mlkem_ok P" "dh_valid P" "pw_ok W"
    and a: "WireCipher_EncryptWithPreKeyBundle P W rndA S (A Alice) (Some b) p stA = (Inr ct, stA')" "rndA 4 = Inr r" "keys_ok P S stA"
      "\<And>ik. GetIdentityKeyPair S stA = Inr (Some ik) \<Longrightarrow> honest_identity P ik"
    and b: "ready P S ikB spk b stB" "LoadSession S (A Bob) stB = Inr None" "fresh_draws P rndA rndB b"
      "WireCipher_Decrypt P W rnd rndB now S (A Bob) ct stB = (Inr q, stB')"
  shows "q = p \<and> (small S (A Alice) stA' \<and> small S (A Bob) stB' \<longrightarrow> wire_inv P W S A \<lparr>w_store = both stA' stB', w_sent = \<lambda>_. []\<rparr>)"
proof (rule first_sessions [OF laws a b])
  fix sA' sB' st1 st3 pq v ident K L
  assume f: "persistRecord S (A Alice) (Some \<lparr>rec_current = Some sA', rec_archived = [], rec_maxArchived = DefaultMaxArchivedSessions\<rparr>) st1 = (Inr (), stA')"
    "persistRecord S (A Bob) (Some \<lparr>rec_current = Some sB', rec_archived = [], rec_maxArchived = DefaultMaxArchivedSessions\<rparr>) st3 = (Inr (), stB')"
    "session_run P sA'" "session_run P sB'" "sessions_linked P pq v ident (both sA' sB') K L" "log_size L \<le> 1" "q = p"
    "\<And>z t. se_pqrState (both sA' sB' z) = Some t \<Longrightarrow> ps_version t = VersionV1 \<and> ps_v1 t \<noteq> None"
  have n: "0 < DefaultMaxArchivedSessions" "DefaultMaxArchivedSessions < 2 ^ 16" by (simp_all add: DefaultMaxArchivedSessions_def)
  have "wire_inv P W S A \<lparr>w_store = both stA' stB', w_sent = \<lambda>_. []\<rparr>" if sm: "small S (A Alice) stA'" "small S (A Bob) stB'"
  proof -
    note hA = persist_holds [OF f(1) n f(3) _ sm(1)] and hB = persist_holds [OF f(2) n f(4) _ sm(2)]
    have "holds P S (A z) (both stA' stB' z) (both sA' sB' z) \<and> session_live P (both sA' sB' z)" for z
      using hA hB f(8) [of Alice] f(8) [of Bob] by (cases z) auto
    then have "wire_linked P W S A \<lparr>w_store = both stA' stB', w_sent = \<lambda>_. []\<rparr> pq v ident (both sA' sB') K L"
      using f(5,6) by (simp add: wire_linked_def)
    then show ?thesis unfolding wire_inv_def by blast
  qed
  with f(7) show ?thesis by blast
qed

lemma first_delivery:
  assumes laws: "prims_ok P" "dh_comm P" "kem_ok P" "mlkem_ok P" "dh_valid P" "pw_ok W"
    and a: "WireCipher_EncryptWithPreKeyBundle P W rndA S (A Alice) (Some b) p stA = (Inr ct, stA')" "rndA 4 = Inr r" "keys_ok P S stA"
      "\<And>ik. GetIdentityKeyPair S stA = Inr (Some ik) \<Longrightarrow> honest_identity P ik"
    and b: "ready P S ikB spk b stB" "LoadSession S (A Bob) stB = Inr None" "fresh_draws P rndA rndB b" "draws P (rndB 1)" "draws P (rndB 2)"
      "\<And>i. IsTrustedIdentity S (A Bob) (Some i) DirectionReceiving stB" "\<not> SignedPreKeyExpired S (Some spk) now stB"
      "\<And>i st. fst (SaveIdentity S (A Bob) (Some i) st) = Inr ()"
  shows "\<exists>stB'. WireCipher_Decrypt P W rnd rndB now S (A Bob) ct stB = (Inr p, stB')"
proof (rule first_offer [OF laws(2,3,5,6) a(1,3,4) b(1)])
  fix ikA x X sA m sA' msg y k st1 st2
  assume o: "NewInitiator_Process P (rndA 0) (rndA 1) ikA b = Inr x" "InitializeState P (\<lambda>i. rndA (2 + i)) (Some x) True = Inr X"
    "built P True x X (ikp_PublicKey ikA) (ikp_PublicKey ikB) sA" "encryptSignalMessage P W (rndA 4) p sA = (Inr m, sA')"
    "ParseSignalMessage P W ct = Inl ErrInvalidMessage" "ParsePreKeySignalMessage P W ct = Inr msg" "pm_message msg = m"
    "same_offer (x3r_InitialMessage x) (offer_of msg)" "agrees x y" "x3r_LocalRatchetKey y = Some k" "honest_pair P k"
    "ProcessInitialMessage P S True ikB spk (offer_of msg) stB =
       (Inr (y\<lparr>x3r_RemoteIdentity := pm_identityKey msg, x3r_InitialMessage := offer_of msg\<rparr>), st2)"
    "\<And>rnd. InitializeState P rnd (Some (y\<lparr>x3r_RemoteIdentity := pm_identityKey msg, x3r_InitialMessage := offer_of msg\<rparr>)) False =
       InitializeState P rnd (Some y) False"
    "LoadSignedPreKey S (pm_signedPreKeyID msg) stB = Inr (Some spk)"
    "x3_ok x" "x3_ok y" "ik_ok P (ikp_PublicKey ikA)" "ik_ok P (ikp_PublicKey ikB)" "ik_ok P (pm_identityKey msg)"
  let ?y = "y\<lparr>x3r_RemoteIdentity := pm_identityKey msg, x3r_InitialMessage := offer_of msg\<rparr>"
  obtain Y where Y: "InitializeState P rndB (Some y) False = Inr Y" using first_responder [where rndB = rndB, OF laws(2) o(1,2,9-11) b(4)] by blast
  have "x3_ok ?y" using o(8,9,16) by (auto simp: x3_ok_def agrees_def same_offer_def)
  then obtain sB where sB: "built P False ?y Y (ikp_PublicKey ikB) (pm_identityKey msg) sB" using built_total by blast
  obtain st3 where st3: "SaveIdentity S (A Bob) (Some (pm_identityKey msg)) st2 = (Inr (), st3)"
    using b(8) [of "pm_identityKey msg" st2] by (cases "SaveIdentity S (A Bob) (Some (pm_identityKey msg)) st2") simp
  have build: "Builder_ProcessPreKeyMessage P rndB now S (A Bob) (offer_of msg) stB = (Inr (sB, x3r_AssociatedData y), st3)"
    using b(1,6,7) o(12,13,14) Y sB st3 by (auto simp: Builder_ProcessPreKeyMessage_def ready_def built_def Let_def)
  obtain pq v ident K L where l: "sessions_linked P pq v ident (both sA' sB) K L" "sealed_by P W pq v ident K L Alice m p"
    "log_size L \<le> 1" "session_live P sB" "msg_header m = \<lparr>h_DH = kp_PublicKey (the (rs_DHs X)), h_PN = rs_PN X, h_N = rs_Ns X\<rparr>"
    "rs_DHs (ratchets (both sA' sB) Alice) = rs_DHs X" "rs_DHs X \<noteq> None" "ratchets (both sA' sB) Bob = Y"
    "pq \<Longrightarrow> \<exists>u u' k. se_pqrState sB = Some u \<and> ps_chain u = None \<and> Pq_Receive P (sm_pqRatchet m) (Some u) = (Inr k, Some u')"
    by (rule first_linked [OF laws(2,4,5,6) o(1-3) o(4) [unfolded a(2)] o(9-11) Y sB o(8) _ b(3) o(15-19)]) auto
  obtain kp where kp: "rs_DHs X = Some kp" using l(7) by blast
  have "deliverable P (rndB 2) (msg_header m) (ratchets (both sA' sB) (peer Bob)) (ratchets (both sA' sB) Bob)"
    using first_deliverable [OF o(1,2) kp o(9,10) Y b(3) b(5)] l(5,6,8) kp by (simp add: deliverable_def)
  then have "\<exists>s'. decryptSignalWithSession P (rndB 2) m (both sA' sB Bob) = (Inr p, s')"
    using l(2,3,4,9) by (intro linked_delivers [OF laws(1,2) l(1) _ _ laws(4)]) auto
  then obtain sB' where dec: "decryptSignalWithSession P (rndB 2) (pm_message msg) sB = (Inr p, sB')" using o(7) by auto
  have "signal_ok P (pm_message msg)" using ParsePreKeySignalMessage_ok [OF o(6)] by (simp add: prekey_ok_def)
  then have "session_mem P (Session_clone sB')"
    using decrypt_live(1) [OF l(4) dec] clone_mem by (auto simp: signal_ok_def wire_key_def)
  let ?r = "\<lparr>rec_current = Some (Session_clone sB'), rec_archived = [], rec_maxArchived = DefaultMaxArchivedSessions\<rparr>"
  from \<open>session_mem P (Session_clone sB')\<close> obtain d where "Record_Serialize (Some ?r) = Inr d"
    by (auto simp: session_mem_def serializeSession_def Record_Serialize_def sessionIdentitySize_def Let_def)
  then obtain st4 where "persistRecord S (A Bob) (Some ?r) st3 = (Inr (), st4)" using persist_ok by fastforce
  moreover have "NewRecord (Some sB') DefaultMaxArchivedSessions = Inr ?r" by (simp add: NewRecord_def DefaultMaxArchivedSessions_def)
  ultimately show ?thesis
    using b(2) o(5,6) build dec
    by (auto simp: WireCipher_Decrypt_def WireCipher_decryptPreKeyMessage_def loadRecordOptional_def Let_def)
qed

end

end
