(* ===== verification/Session_Properties.thy ===== *)
theory Session_Properties
  imports Session_Handshake
begin

text \<open>
  The properties of the wire cipher over the in-memory store, and an example of a first contact in
  which their hypotheses hold.
\<close>

section \<open>Encryption succeeds\<close>

lemma DeriveMessageKeysWithSalt_length:
  "DeriveMessageKeysWithSalt P mk salt = (encKey, authKey, iv) \<Longrightarrow> length encKey = 32 \<and> length authKey = 32 \<and> length iv = 16"
  by (auto simp: DeriveMessageKeysWithSalt_def HKDF_def HKDFExpand_def hkdfMaxLength_def Let_def)

lemma encryptSignalMessage_ok:
  assumes "se_localIdentity s = Some l" "se_remoteIdentity s = Some i" "se_ratchetState s = Some st"
    "NextSendingMessageKey P st = (Inr (h, mk), st')" "pqr_sent P rand (se_pqrState s) message salt pqr"
  shows "\<exists>m s'. encryptSignalMessage P W rand p s = (Inr m, s')"
proof -
  obtain encKey macKey iv where k: "DeriveMessageKeysWithSalt P mk salt = (encKey, macKey, iv)"
    by (cases "DeriveMessageKeysWithSalt P mk salt")
  note len = DeriveMessageKeysWithSalt_length [OF k]
  then obtain ct where "AESCBCEncrypt P encKey iv p = Inr ct" by (auto simp: AESCBCEncrypt_def aes_key_ok_def pkcs7Pad_def Let_def)
  moreover have "\<exists>m. NewSignalMessage P W (ciphertextVersionForSession (Some s')) macKey (h_DH h) (h_N h) (h_PN h) ct l i message = Inr m" for s' ct
    using len by (auto simp: NewSignalMessage_def ciphertextVersionForSession_def normalizeCiphertextVersion_def computeSignalMAC_def
        CiphertextMessagePreKyberVersion_def CiphertextMessageCurrentVersion_def Let_def split: option.splits if_splits)
  ultimately show ?thesis
    using assms k by (auto simp: encryptSignalMessage_def CurrentState_def pqr_sent_def split: option.splits)
qed

lemma first_Pq_Send:
  assumes "NewPqState P key DirectionA2B pq_params = Inr t" "mlkem_ok P"
  shows "\<exists>m k t'. Pq_Send P (Inr r) (Some t) = (Inr (m, k), Some t')"
proof -
  have "key \<noteq> []" using assms(1) by (auto simp: NewPqState_def NewStateWithMinVersion_def split: if_splits)
  then obtain u where "NewPqState P key DirectionB2A pq_params = Inr u" using NewPqState_total by blast
  then have "agreed P key pq_params t u [] []" using assms(1) by (auto simp: NewPqState_def intro: agreed_start)
  then show ?thesis
    using agreed_send(1) [of P key pq_params t u "[]" "[]" r] assms(2) by (auto simp: maxOOO_def chainDefaultMaxOOO_def)
qed

lemma first_encrypt:
  assumes "mlkem_ok P" "rs_CKs X \<noteq> zero32" "built P True x X l i s" "InitializeState P rnd (Some x) True = Inr X" "x3_ok x" "ik_ok P l" "ik_ok P i"
  shows "\<exists>m s'. encryptSignalMessage P W (Inr r) p s = (Inr m, s')"
proof -
  have st: "\<exists>k. rs_DHs X = Some k \<and> rs_CKs X \<noteq> zero32 \<and> rs_Ns X = 0"
    using assms(4) by (rule initiator_cases) (use assms(2) in auto)
  then obtain h mk X' where n: "NextSendingMessageKey P X = (Inr (h, mk), X')"
    by (auto simp: NextSendingMessageKey_def MaxUint32_def Let_def split_beta)
  note b = built_parts [OF assms(3)]
  have "session_live P s" using built_live [OF assms(3,4,5,6,7)] .
  have "\<exists>message salt pqr. pqr_sent P (Inr r) (se_pqrState s) message salt pqr"
  proof (cases "x3r_PQRKey x")
    case None
    then show ?thesis using b(6) by (auto simp: pqr_sent_def)
  next
    case (Some key)
    then obtain t where t: "se_pqrState s = Some t" "NewPqState P key DirectionA2B pq_params = Inr t" using b(7) by auto
    then have "Pq_Clone (Some t) = Some t" using \<open>session_live P s\<close> by (simp add: session_live_def session_ok_def clone_state)
    then show ?thesis using t(1) first_Pq_Send [OF t(2) assms(1), of r] by (auto simp: pqr_sent_def)
  qed
  then show ?thesis using encryptSignalMessage_ok [OF b(2,3,1) n] by blast
qed

lemma paired_keys: "paired P st K \<Longrightarrow> \<exists>k. rs_DHs (st x) = Some k"
  using party_side [of x] unfolding paired_def Ratchet_Network.linked_def Ratchet_Network.linked_at_def by metis

context wire_store
begin

lemma first_total:
  assumes "mlkem_ok P" "rs_CKs X \<noteq> zero32" "\<not> ContainsSession S a st" "GetIdentityKeyPair S st = Inr (Some ik)" "ik_ok P (ikp_PublicKey ik)"
    "IsTrustedIdentity S a (Some (b_IdentityKey b)) DirectionSending st" "NewInitiator_Process P (rnd 0) (rnd 1) ik b = Inr x"
    "InitializeState P (\<lambda>i. rnd (2 + i)) (Some x) True = Inr X" "rnd 4 = Inr r" "length (b_SignedPreKeyPublic b) = 32" "ik_ok P (b_IdentityKey b)"
    "\<And>st. fst (SaveIdentity S a (Some (b_IdentityKey b)) st) = Inr ()" "\<And>st. \<exists>n. GetLocalRegistrationID S st = Inr n"
  shows "\<exists>ct st'. WireCipher_EncryptWithPreKeyBundle P W rnd S a (Some b) p st = (Inr ct, st')"
proof -
  have ok: "x3_ok x" using initiator_ok [OF assms(7,10)] .
  obtain s where s: "built P True x X (ikp_PublicKey ik) (b_IdentityKey b) s" using built_total [OF ok] by blast
  obtain st1 where st1: "SaveIdentity S a (Some (b_IdentityKey b)) st = (Inr (), st1)"
    using assms(12) [of st] by (cases "SaveIdentity S a (Some (b_IdentityKey b)) st") simp
  have build: "Builder_ProcessPreKeyBundle P rnd S a (Some b) st = (Inr (s, x3r_InitialMessage x), st1)"
    using assms(4,6,7,8) s st1 by (auto simp: Builder_ProcessPreKeyBundle_def built_def Let_def)
  obtain m s' where m: "encryptSignalMessage P W (rnd 4) p s = (Inr m, s')"
    using first_encrypt [OF assms(1,2) s assms(8) ok assms(5,11)] assms(9) by metis
  have v: "ciphertextVersionForSession (Some s') = ciphertextVersionFromX3DH (Some (x3r_InitialMessage x))"
    using m by (rule encryptSignalMessage_Inr) (use built_parts(5) [OF s] in \<open>simp add: ciphertextVersionForSession_def\<close>)
  have ky: "x3m_KyberPreKeyID (x3r_InitialMessage x) = None \<longleftrightarrow> x3m_KyberCiphertext (x3r_InitialMessage x) = []"
    using assms(7) by (rule NewInitiator_Process_Inr)
      (auto simp: pq_part_def Kyber1024Encapsulate_def split_beta split: option.splits if_splits)
  obtain reg where reg: "GetLocalRegistrationID S st1 = Inr reg" using assms(13) by blast
  obtain pm where pm: "NewPreKeySignalMessage W (ciphertextVersionForSession (Some s')) reg (x3m_PreKeyID (x3r_InitialMessage x))
       (x3m_SignedPreKeyID (x3r_InitialMessage x)) (x3m_KyberPreKeyID (x3r_InitialMessage x)) (x3m_KyberCiphertext (x3r_InitialMessage x))
       (x3m_EphemeralKey (x3r_InitialMessage x)) (x3m_IdentityKey (x3r_InitialMessage x)) (Some m) = Inr pm"
    using ky unfolding v by (auto simp: NewPreKeySignalMessage_def ciphertextVersionFromX3DH_def CiphertextMessagePreKyberVersion_def
        CiphertextMessageCurrentVersion_def Let_def)
  let ?r = "\<lparr>rec_current = Some (Session_clone s'), rec_archived = [], rec_maxArchived = DefaultMaxArchivedSessions\<rparr>"
  have "\<exists>st. se_ratchetState s' = Some st" "se_localIdentity s' = Some (ikp_PublicKey ik)" "se_remoteIdentity s' = Some (b_IdentityKey b)"
    using m by (rule encryptSignalMessage_Inr; use built_parts(2,3) [OF s] in auto)+
  then obtain d where "Record_Serialize (Some ?r) = Inr d"
    using assms(5,11) by (auto simp: Session_clone_def serializeSession_def Record_Serialize_def sessionIdentitySize_def Let_def)
  then obtain st2 where "persistRecord S a (Some ?r) st1 = (Inr (), st2)" using persist_ok by fastforce
  moreover have "NewRecord (Some s') DefaultMaxArchivedSessions = Inr ?r" by (simp add: NewRecord_def DefaultMaxArchivedSessions_def)
  ultimately show ?thesis
    using assms(3) build m reg pm by (auto simp: WireCipher_EncryptWithPreKeyBundle_def)
qed

lemma wire_send_total:
  assumes "mlkem_ok P" "wire_inv P W S A N" "net_size N + 3002 < 2 ^ 32" "ratchet_at P S (A x) (w_store N x) = Some X"
    "rs_CKs X \<noteq> zero32" "rs_Ns X \<noteq> MaxUint32"
  shows "\<exists>ct st'. WireCipher_Encrypt P W (Inr r) S (A x) p (w_store N x) = (Inr ct, st')"
proof -
  obtain pq v ident s K L where l: "wire_linked P W S A N pq v ident s K L" using assms(2) by (auto simp: wire_inv_def)
  then have h: "holds P S (A x) (w_store N x) (s x)" "session_live P (s x)" and sl: "sessions_linked P pq v ident s K L"
    and sz: "log_size L + 3000 < 2 ^ 32" using assms(3) by (auto simp: wire_linked_def)
  have X: "se_ratchetState (s x) = Some X" using holds_ratchet [OF h(1)] assms(4) by simp
  obtain k where "rs_DHs X = Some k"
    using sl X paired_keys [of P "ratchets s" K x] by (auto simp: sessions_linked_def ratchets_def)
  then obtain hd mk X' where n: "NextSendingMessageKey P X = (Inr (hd, mk), X')"
    using assms(5,6) by (auto simp: NextSendingMessageKey_def Let_def split_beta)
  have q: "\<exists>message salt pqr. pqr_sent P (Inr r) (se_pqrState (s x)) message salt pqr"
  proof (cases "se_pqrState (s x)")
    case (Some t)
    then have "Pq_Clone (Some t) = Some t" using h(2) by (simp add: session_live_def session_ok_def clone_state)
    then show ?thesis
      using pq_linked_send [of P pq "\<lambda>x. se_pqrState (s x)" L x t r] assms(1) sl sz Some by (fastforce simp: sessions_linked_def pqr_sent_def)
  qed (simp add: pqr_sent_def)
  obtain li ri where ids: "se_localIdentity (s x) = Some li" "se_remoteIdentity (s x) = Some ri" using h(2) by (auto simp: session_live_def session_ok_def)
  obtain m s' where m: "encryptSignalMessage P W (Inr r) p (s x) = (Inr m, s')" using encryptSignalMessage_ok [OF ids X n] q by blast
  obtain c where c: "loadRecordOptional P S (A x) (w_store N x) = Inr (Some \<lparr>rec_current = Some (s x), rec_archived = [], rec_maxArchived = c\<rparr>)"
    using h(1) by (auto simp: holds_def)
  have "se_ratchetState s' \<noteq> None" "se_localIdentity s' = Some li" "se_remoteIdentity s' = Some ri"
    using m by (rule encryptSignalMessage_Inr; use ids in simp)+
  then obtain d where "Record_Serialize (Some \<lparr>rec_current = Some s', rec_archived = [], rec_maxArchived = c\<rparr>) = Inr d"
    by (auto simp: serializeSession_def Record_Serialize_def sessionIdentitySize_def IdentityKey_Serialize_def Let_def)
  from persist_ok [OF this] obtain st' where
    "persistRecord S (A x) (Some \<lparr>rec_current = Some s', rec_archived = [], rec_maxArchived = c\<rparr>) (w_store N x) = (Inr (), st')" by fastforce
  with c m show ?thesis by (auto simp: WireCipher_Encrypt_def loadRecordRequired_def Current_def)
qed

end

text \<open>One of the two sides has a key pair that the other has not seen, and a chain to send on.\<close>

lemma paired_ahead_side:
  assumes "paired P st K" "\<And>ck. fst (KDFChain P ck) \<noteq> zero32" "\<And>rk dh rk' ck. KDFRoot P rk dh = Inr (rk', ck) \<Longrightarrow> ck \<noteq> zero32"
  obtains x k where "rs_DHs (st x) = Some k" "rs_CKs (st x) \<noteq> zero32" "kp_PublicKey k |\<notin>| rs_SeenDH (st (peer x))"
    "rs_DHr (st (peer x)) \<noteq> Some (kp_PublicKey k)"
proof -
  obtain x where "Ratchet_Network.linked P (st x) (st (peer x)) (K x) (K (peer x))" using assms(1) by (auto simp: paired_def)
  then obtain k xp ckXP D ck rk dh rk' where x: "rs_DHs (st x) = Some k" "KDFRoot P rk dh = Inr (rk', ck)"
    "rs_CKs (st x) = chain_key (KDFChain P) ck (unat (rs_Ns (st x)))" "kp_PublicKey k |\<notin>| rs_SeenDH (st (peer x))"
    "follows P ckXP xp D (st (peer x))" "xp |\<in>| rs_SeenDH (st (peer x))"
    unfolding Ratchet_Network.linked_def Ratchet_Network.linked_at_def by blast
  have "rs_CKs (st x) \<noteq> zero32" using assms(2) assms(3) [OF x(2)] x(3) by (cases "unat (rs_Ns (st x))") simp_all
  then show thesis using x follows_DHr [OF x(5)] by (intro that [of x k]) auto
qed

section \<open>Small sessions\<close>

definition light :: "nat \<Rightarrow> nat \<Rightarrow> Session \<Rightarrow> bool" where
  "light n k s \<longleftrightarrow> se_pqrState s = None \<and> se_previousStates s = [] \<and> length (se_associatedData s) = 66 \<and>
     (\<exists>X. se_ratchetState s = Some X \<and> unat (rs_Ns X) \<le> n \<and> unat (rs_PN X) \<le> n \<and> fcard (rs_SeenDH X) \<le> k \<and> fm_size (rs_MKSkipped X) \<le> MaxSkip)"

lemma length_State_Serialize:
  "length (State_Serialize X) \<le> 222 + 68 * fm_size (rs_MKSkipped X) + 32 * fcard (rs_SeenDH X)"
proof -
  have "length (concat (map enc_skipped es)) = 68 * length es" for es by (induction es) (simp_all add: enc_skipped_def)
  moreover have "length (concat (map (arr 32) ks)) = 32 * length ks" for ks by (induction ks) simp_all
  ultimately show ?thesis by (simp add: State_Serialize_def Let_def split: option.splits)
qed

lemma light_serialized:
  assumes "light n k s" "k \<le> 1000" "Record_Serialize (Some \<lparr>rec_current = Some s, rec_archived = [], rec_maxArchived = m\<rparr>) = Inr d"
  shows "length d < 2 ^ 32"
proof -
  obtain X where X: "se_ratchetState s = Some X" "fcard (rs_SeenDH X) \<le> k" "fm_size (rs_MKSkipped X) \<le> MaxSkip"
    "se_pqrState s = None" "se_previousStates s = []" "length (se_associatedData s) = 66"
    using assms(1) by (auto simp: light_def)
  have "length (State_Serialize X) \<le> 200000" using length_State_Serialize [of X] X(2,3) assms(2) by (simp add: MaxSkip_def)
  then show ?thesis
    using assms(3) X(1,4-6)
    by (auto simp: Record_Serialize_def serializeSession_def recordSerializeMagic_def ascii_def Pq_Serialize_def sessionIdentitySize_def Let_def
        split: option.splits if_splits)
qed

lemma encrypt_light:
  assumes "encryptSignalMessage P W rand p s = (Inr m, s')" "light n k s"
  shows "light (Suc n) k s'"
  using assms(1)
proof (rule encryptSignalMessage_Inr)
  fix X h mk X' message salt pqr
  assume e: "se_ratchetState s = Some X" "NextSendingMessageKey P X = (Inr (h, mk), X')" "pqr_sent P rand (se_pqrState s) message salt pqr"
    "s' = s\<lparr>se_ratchetState := Some X', se_pqrState := pqr\<rparr>"
  from e(2) show ?thesis
    by (rule NextSendingMessageKey_Inr) (use assms(2) e(1,3,4) in \<open>auto simp: light_def pqr_sent_def unat_inc_Max\<close>)
qed

lemma AdvanceForHeader_counters:
  assumes "AdvanceForHeader P rnd h s = (Inr mk, s')"
  shows "unat (rs_Ns s') \<le> unat (rs_Ns s) \<and> unat (rs_PN s') \<le> max (unat (rs_Ns s)) (unat (rs_PN s)) \<and>
    fcard (rs_SeenDH s') \<le> fcard (rs_SeenDH s) + 2"
  using assms
proof (cases rule: AdvanceForHeader_Inr)
  case (ratchet s0 s1 s2)
  note k = skipMessageKeys_skips [OF ratchet(4), unfolded skips_def] ratchet(6) [unfolded skips_def]
  from ratchet(5) show ?thesis
  proof (cases rule: DHRatchet_Inr)
    case 1
    have "card (fset (rs_SeenDH s1)) \<le> Suc (card (set_option (rs_DHr s0) \<union> fset (rs_SeenDH s0)))"
      by (simp add: 1(13) card_insert_le_m1 card_insert_if)
    also have "\<dots> \<le> Suc (card (set_option (rs_DHr s0)) + card (fset (rs_SeenDH s0)))" using card_Un_le by auto
    also have "card (set_option (rs_DHr s0)) \<le> 1" by (cases "rs_DHr s0") simp_all
    finally have "fcard (rs_SeenDH s1) \<le> fcard (rs_SeenDH s0) + 2" by (simp add: fcard.rep_eq)
    then show ?thesis using 1 k ratchet(12) by simp
  qed
qed (auto simp: skips_def)

lemma decrypt_light:
  assumes "decryptSignalWithSession P rnd m s = (Inr q, s')" "light n k s" "session_mem P s'"
  shows "light n (k + 2) s'"
  using assms(1)
proof (rule decryptSignalWithSession_Inr)
  fix st mk nxt salt pqr
  assume d: "se_ratchetState s = Some st" "AdvanceForHeader P rnd (msg_header m) st = (Inr mk, nxt)"
    "pqr_salt P (sm_pqRatchet m) (se_pqrState s) salt pqr" "se_ratchetState s' = Some nxt" "se_pqrState s' = pqr"
    "se_associatedData s' = se_associatedData s" "se_previousStates s' = se_previousStates s"
  then show ?thesis using assms(2,3) AdvanceForHeader_counters [OF d(2)] by (auto simp: light_def pqr_salt_def session_mem_def)
qed

lemma built_light:
  assumes "built P initiator x X l r s" "x3r_PQRKey x = None" "length (x3r_AssociatedData x) = 66"
    "rs_Ns X = 0" "rs_PN X = 0" "fcard (rs_SeenDH X) = 1" "rs_MKSkipped X = fmempty"
  shows "light 0 1 s"
proof -
  have "se_associatedData s = x3r_AssociatedData x"
    using assms(1) by (auto simp: built_def NewSession_def initSessionPQR_def setSessionCiphertextVersion_def Let_def split: option.splits)
  then show ?thesis using built_parts(1,4,6) [OF assms(1)] assms(2-) by (simp add: light_def)
qed

context wire_store
begin

lemma persist_light:
  assumes "persistRecord S a (Some \<lparr>rec_current = Some s, rec_archived = [], rec_maxArchived = c\<rparr>) st = (Inr (), st')" "light n k s" "k \<le> 1000"
  shows "small S a st'"
proof (rule persistRecord_cases [of a "Some \<lparr>rec_current = Some s, rec_archived = [], rec_maxArchived = c\<rparr>" st])
  fix d st1
  assume "persistRecord S a (Some \<lparr>rec_current = Some s, rec_archived = [], rec_maxArchived = c\<rparr>) st = (Inr (), st1)"
    "Record_Serialize (Some \<lparr>rec_current = Some s, rec_archived = [], rec_maxArchived = c\<rparr>) = Inr d" "LoadSession S a st1 = Inr (Some d)"
  then show ?thesis using assms(1) light_serialized [OF assms(2,3)] by (simp add: small_def)
qed (use assms(1) in simp)

lemma light_send:
  assumes "holds P S a st s" "light n k s" "k \<le> 1000" "WireCipher_Encrypt P W rand S a p st = (Inr ct, st')"
  shows "small S a st'"
  using assms(1,4) by (rule encrypt_holds) (use encrypt_light [OF _ assms(2)] persist_light assms(3) in blast)

end

context peer_store
begin

text \<open>A first contact without a Kyber pre-key leaves small sessions in both stores.\<close>

lemma first_small:
  assumes laws: "prims_ok P" "dh_comm P" "kem_ok P" "mlkem_ok P" "dh_valid P" "pw_ok W"
    and a: "WireCipher_EncryptWithPreKeyBundle P W rndA S (A Alice) (Some b) p stA = (Inr ct, stA')" "rndA 4 = Inr r" "keys_ok P S stA"
      "\<And>ik. GetIdentityKeyPair S stA = Inr (Some ik) \<Longrightarrow> honest_identity P ik"
    and b: "ready P S ikB spk b stB" "LoadSession S (A Bob) stB = Inr None" "fresh_draws P rndA rndB b"
      "WireCipher_Decrypt P W rnd rndB now S (A Bob) ct stB = (Inr q, stB')"
    and "b_KyberPreKeyID b = None"
  shows "\<exists>s. holds P S (A z) (both stA' stB' z) s \<and> light 1 3 s \<and> session_live P s" "small S (A z) (both stA' stB' z)"
proof (atomize (full), rule first_sessions [OF laws a b])
  fix ikA x X sA m sA' st1 y k msg i Y sB sB' st3
  assume f: "NewInitiator_Process P (rndA 0) (rndA 1) ikA b = Inr x" "InitializeState P (\<lambda>i. rndA (2 + i)) (Some x) True = Inr X"
    "built P True x X (ikp_PublicKey ikA) (ikp_PublicKey ikB) sA" "encryptSignalMessage P W (rndA 4) p sA = (Inr m, sA')"
    "agrees x y" "x3r_LocalRatchetKey y = Some k" "InitializeState P rndB (Some y) False = Inr Y"
    "built P False (y\<lparr>x3r_RemoteIdentity := i, x3r_InitialMessage := msg\<rparr>) Y (ikp_PublicKey ikB) i sB"
    "decryptSignalWithSession P (rndB 2) m sB = (Inr q, sB')"
    "persistRecord S (A Alice) (Some \<lparr>rec_current = Some sA', rec_archived = [], rec_maxArchived = DefaultMaxArchivedSessions\<rparr>) st1 = (Inr (), stA')"
    "persistRecord S (A Bob) (Some \<lparr>rec_current = Some sB', rec_archived = [], rec_maxArchived = DefaultMaxArchivedSessions\<rparr>) st3 = (Inr (), stB')"
    "session_run P sA'" "session_run P sB'"
  have x: "x3r_PQRKey x = None" "length (x3r_AssociatedData x) = 66"
    using f(1) by (rule NewInitiator_Process_Inr; use assms(15) in \<open>simp add: pq_part_def AssociatedData_def SerializeWirePublicKey_def split_beta\<close>)+
  have X: "light 0 1 sA" using f(2) by (rule initiator_cases; intro built_light [OF f(3)]) (use x in \<open>simp_all add: fcard.rep_eq\<close>)
  have Y: "light 0 1 sB" using f(7,6) by (rule responder_cases; intro built_light [OF f(8)]) (use x f(5) in \<open>simp_all add: agrees_def fcard.rep_eq\<close>)
  have "light 1 1 sA'" "light 0 3 sB'"
    using encrypt_light [OF f(4) X] decrypt_light [OF f(9) Y] f(13) by (simp_all add: session_run_def numeral_3_eq_3)
  then have l: "light 1 3 sA'" "light 1 3 sB'" by (auto simp: light_def)
  have "small S (A Alice) stA'" "small S (A Bob) stB'" using persist_light [OF f(10) l(1)] persist_light [OF f(11) l(2)] by simp_all
  moreover have n: "0 < DefaultMaxArchivedSessions" "DefaultMaxArchivedSessions < 2 ^ 16" by (simp_all add: DefaultMaxArchivedSessions_def)
  note h = persist_holds [OF f(10) n f(12)] persist_holds [OF f(11) n f(13)]
  ultimately show "(\<exists>s. holds P S (A z) (both stA' stB' z) s \<and> light 1 3 s \<and> session_live P s) \<and> small S (A z) (both stA' stB' z)"
    using h l by (cases z) (auto simp: light_def)
qed

end

section \<open>An example of a first contact\<close>

lemma pq_toy_select [simp]:
  "hmac_sha256 pq_toy = hmac_sha256 toy" "hkdf_extract pq_toy = hkdf_extract toy" "hkdf_stream pq_toy = hkdf_stream toy"
  "x25519 pq_toy = x25519 toy" "aes_encrypt pq_toy = aes_encrypt toy" "aes_decrypt pq_toy = aes_decrypt toy"
  "gcm_seal pq_toy = gcm_seal toy" "gcm_open pq_toy = gcm_open toy"
  "kyber_generate pq_toy = kyber_generate toy" "kyber_encaps pq_toy = kyber_encaps toy" "kyber_decaps pq_toy = kyber_decaps toy"
  "sc_uniform pq_toy = sc_uniform toy" "sc_muladd pq_toy = sc_muladd toy" "sc_bytes pq_toy = sc_bytes toy"
  "ed_basemult pq_toy = ed_basemult toy" "ed_setbytes pq_toy = ed_setbytes toy" "ed_negate pq_toy = ed_negate toy"
  "ed_doublemult pq_toy = ed_doublemult toy" "fe_setbytes pq_toy = fe_setbytes toy" "fe_bytes pq_toy = fe_bytes toy"
  "fe_one pq_toy = fe_one toy" "fe_add pq_toy = fe_add toy" "fe_sub pq_toy = fe_sub toy" "fe_mul pq_toy = fe_mul toy" "fe_inv pq_toy = fe_inv toy"
  by (simp_all add: pq_toy_def prims.defs)

lemma pq_toy_keys [simp]:
  "scalarBaseMult pq_toy = scalarBaseMult toy" "GenerateKeyPair pq_toy = GenerateKeyPair toy" "DH pq_toy = DH toy"
  "HKDF pq_toy = HKDF toy" "KDFChain pq_toy = KDFChain toy" "KDFRoot pq_toy = KDFRoot toy" "IsValidPublicKey pq_toy = IsValidPublicKey toy"
proof -
  show b: "scalarBaseMult pq_toy = scalarBaseMult toy" by (intro ext) (simp add: scalarBaseMult_def)
  show "GenerateKeyPair pq_toy = GenerateKeyPair toy" by (intro ext) (simp add: GenerateKeyPair_def b)
  show "DH pq_toy = DH toy" by (intro ext) (simp add: DH_def)
  show h: "HKDF pq_toy = HKDF toy" by (intro ext) (simp add: HKDF_def HKDFExtract_def HKDFExpand_def)
  show "KDFChain pq_toy = KDFChain toy" by (intro ext) (simp add: KDFChain_def HMAC256_def)
  show "KDFRoot pq_toy = KDFRoot toy" by (intro ext) (simp add: KDFRoot_def h)
  show "IsValidPublicKey pq_toy = IsValidPublicKey toy" by (intro ext) (simp add: IsValidPublicKey_def)
qed

lemma pq_toy_laws: "prims_ok pq_toy" "dh_comm pq_toy" "kem_ok pq_toy" "dh_valid pq_toy" "ed_ok pq_toy"
  using toy_prims_ok toy_dh_comm toy_kem_ok toy_dh_valid toy_ed_ok
  unfolding prims_ok_def dh_comm_def kem_ok_def dh_valid_def ed_ok_def pq_toy_select pq_toy_keys by this+

text \<open>A bundle without a Kyber pre-key and without a one-time pre-key.\<close>

lemma plain_bundle:
  assumes "ed_ok P" "dh_valid P" "GenerateIdentityKeyPair P r0 = Inr ik" "GenerateSignedPreKey P now r1 r2 ik sid = Inr spk" "sid \<noteq> 0"
  shows "\<exists>b kp. NewPreKeyBundle reg dev None (Some spk) (ikp_PublicKey ik) = Inr b \<and> PreKeyBundle_Validate P b = Inr () \<and> b_KyberPreKeyID b = None \<and>
    published P S ik spk b st \<and> b_SignedPreKeyID b = sid \<and> GenerateKeyPair P r1 = Inr kp \<and> b_SignedPreKeyPublic b = kp_PublicKey kp"
  using assms(4)
proof (rule GenerateSignedPreKey_Inr)
  fix kp
  assume s: "spk_ID spk = sid" "spk_KeyPair spk = Some kp" "GenerateKeyPair P r1 = Inr kp"
    "IdentityKeyPair_Sign P r2 ik (SerializeWirePublicKey (kp_PublicKey kp)) = Inr (spk_Signature spk)"
  note v = IdentityKey_sign_verify [OF assms(1,3) s(4)] and h = GenerateIdentityKeyPair_honest(1) [OF assms(3)]
  have "IsValidPublicKey P (ik_PublicKey (ikp_PublicKey ik))" using assms(2) h by (auto simp: dh_valid_def)
  moreover have "spk_Signature spk \<noteq> []" using v(2) by auto
  ultimately show ?thesis
    using s v(1) h assms(5) GenerateKeyPair_valid [OF assms(2) s(3)] GenerateKeyPair_honest [OF s(3)]
    by (auto simp: NewPreKeyBundle_def NewPreKeyBundleWithKyber_def PreKeyBundle_Validate_def published_def honest_identity_def)
qed

lemma generated_identity:
  assumes "dh_valid P" "GenerateIdentityKeyPair P r = Inr ik"
  shows "ik_ok P (ikp_PublicKey ik)" "honest_identity P ik"
proof -
  obtain kp where kp: "GenerateKeyPair P r = Inr kp" "ikp_PublicKey ik = \<lparr>ik_PublicKey = kp_PublicKey kp, ik_SigningPublic = XEdDSASigningPublicKey P (kp_PrivateKey kp)\<rparr>"
    using assms(2) by (auto simp: GenerateIdentityKeyPair_def Let_def)
  show "ik_ok P (ikp_PublicKey ik)"
    using kp(2) GenerateKeyPair_ok [OF kp(1)] GenerateKeyPair_valid [OF assms(1) kp(1)] by (simp add: ik_ok_def kp_ok_def XEdDSASigningPublicKey_def)
  show "honest_identity P ik" using GenerateIdentityKeyPair_honest(1) [OF assms(2)] by (simp add: honest_identity_def)
qed

text \<open>The stores of two parties that have not met, and the bundle of the second one.\<close>

definition peers_ready :: "'z prims_scheme \<Rightarrow> 's ProtocolStore \<Rightarrow> (party \<Rightarrow> Address) \<Rightarrow> IdentityKeyPair \<Rightarrow> SignedPreKey \<Rightarrow> PreKeyBundle \<Rightarrow> 's \<Rightarrow> 's \<Rightarrow> bool" where
  "peers_ready P S A ikB spk b stA stB \<longleftrightarrow> keys_ok P S stA \<and> (\<forall>ik. GetIdentityKeyPair S stA = Inr (Some ik) \<longrightarrow> honest_identity P ik) \<and>
     ready P S ikB spk b stB \<and> LoadSession S (A Bob) stB = Inr None"

definition pick0 :: "Address fset \<Rightarrow> Address" where
  "pick0 c = hd (sorted_list_of_fset c)"

definition A0 :: "party \<Rightarrow> Address" where
  "A0 x = (case x of Alice \<Rightarrow> Address ''bob'' 1 | Bob \<Rightarrow> Address ''alice'' 1)"

definition ex_rndA :: "nat \<Rightarrow> bytes res" where
  "ex_rndA i = Inr [of_nat i + 1]"

definition ex_rndB :: "nat \<Rightarrow> bytes res" where
  "ex_rndB i = Inr [of_nat i + 11]"

lemma draws_toy: "draws pq_toy (Inr r)"
proof -
  have "isOk (DH toy a c)" for a c using DH_total_toy [of a c] by auto
  then show ?thesis using toy_GenerateKeyPair [of r] by (auto simp: draws_def)
qed

lemma legacy_initial_state:
  assumes "NewInitiator_Process pq_toy r1 r2 ik b = Inr x" "b_KyberPreKeyID b = None"
  shows "\<exists>X. InitializeState pq_toy rnd (Some x) True = Inr X"
  using assms(1)
proof (rule NewInitiator_Process_Inr)
  fix eph ikm ch pq ct
  assume x: "pq_part pq_toy r2 b ikm = Inr (x3r_SharedSecret x, ch, pq, ct)" "x3r_InitialChainKey x = ch"
    "x3r_LocalEphemeral x = Some eph" "x3r_RemoteRatchetKey x = Some (b_SignedPreKeyPublic b)"
  obtain okm where okm: "HKDF toy ikm [] (ascii ''X3DH'') 32 = Inr okm" "x3r_SharedSecret x = arr 32 okm" "ch = None"
    using x(1) assms(2) by (auto simp: pq_part_def deriveLegacySecret_def)
  then have "x3r_SharedSecret x \<noteq> zero32" using toy_HKDF_nonzero [OF okm(1), of 0] HKDF_length [OF okm(1)] by simp
  moreover obtain d where "DH toy (kp_PrivateKey eph) (b_SignedPreKeyPublic b) = Inr d" using DH_total_toy by blast
  moreover obtain rk ck where "KDFRoot toy (x3r_SharedSecret x) d = Inr (rk, ck)" using KDFRoot_total by blast
  ultimately show ?thesis using x okm(3) by (simp add: InitializeState_def InitializeStateWithGenerator_def Let_def)
qed

lemma example_peers:
  "\<exists>ikB spk b stA stB ct stA'. peers_ready pq_toy (mem_store pick) A ikB spk b stA stB \<and> fresh_draws pq_toy ex_rndA ex_rndB b \<and>
     b_KyberPreKeyID b = None \<and> s_identities stB = fmempty \<and> \<not> SignedPreKeyExpired (mem_store pick) (Some spk) 9 stB \<and>
     WireCipher_EncryptWithPreKeyBundle pq_toy leb ex_rndA (mem_store pick) (A Alice) (Some b) [1, 2, 3] stA = (Inr ct, stA')"
proof -
  have gen: "\<exists>kp. GenerateKeyPair pq_toy (Inr r) = Inr kp" for r using toy_GenerateKeyPair by simp
  note total = prekeys_total [where P = pq_toy, OF gen]
  obtain ikA where ikA: "GenerateIdentityKeyPair pq_toy (Inr [21]) = Inr ikA" using total(1) by blast
  obtain ikB where ikB: "GenerateIdentityKeyPair pq_toy (Inr [22]) = Inr ikB" using total(1) by blast
  obtain spk where spk: "GenerateSignedPreKey pq_toy 9 (Inr [23]) (Inr [24]) ikB 1 = Inr spk" using total(2) by meson
  let ?A = "NewStore (Some ikA) 1" and ?B = "(NewStore (Some ikB) 2)\<lparr>s_signedKeys := fmupd 1 (Some spk) fmempty\<rparr>"
  obtain b kp where b: "PreKeyBundle_Validate pq_toy b = Inr ()" "b_KyberPreKeyID b = None" "published pq_toy (mem_store pick) ikB spk b ?B"
    "b_SignedPreKeyID b = 1" "GenerateKeyPair toy (Inr [23]) = Inr kp" "b_SignedPreKeyPublic b = kp_PublicKey kp"
    using plain_bundle [OF pq_toy_laws(5,4) ikB spk, of 1 1 "mem_store pick" ?B] by auto
  note idA = generated_identity [OF pq_toy_laws(4) ikA] and idB = generated_identity [OF pq_toy_laws(4) ikB]
  have spk': "spk_KeyPair spk = Some kp" "spk_Timestamp spk = 9" using spk b(5) by (auto simp: GenerateSignedPreKey_def)
  have kp: "kp_ok kp" using GenerateKeyPair_ok [OF b(5)] .
  obtain eph where eph: "GenerateKeyPair pq_toy (ex_rndA 0) = Inr eph" using gen by (auto simp: ex_rndA_def)
  obtain x where x: "NewInitiator_Process pq_toy (ex_rndA 0) (ex_rndA 1) ikA b = Inr x"
    using initiator_total [OF b(1) _ eph, of "[2]" ikA] DH_total_toy by (auto simp: ex_rndA_def)
  obtain X where X: "InitializeState pq_toy (\<lambda>i. ex_rndA (2 + i)) (Some x) True = Inr X" using legacy_initial_state [OF x b(2)] by blast
  have "rs_CKs X \<noteq> zero32" using X by (rule initiator_cases) (auto dest: toy_KDFRoot_nonzero)
  then have "\<exists>ct st'. WireCipher_EncryptWithPreKeyBundle pq_toy leb ex_rndA (mem_store pick) (A Alice) (Some b) [1, 2, 3] ?A = (Inr ct, st')"
    by (rule mem.first_total [OF pq_toy_ok _ _ _ idA(1) _ x X])
      (use b(3,6) kp idB(1) in \<open>auto simp: mem_store_def mem_ContainsSession_def mem_GetIdentityKeyPair_def mem_IsTrustedIdentity_def mem_SaveIdentity_def
         mem_GetLocalRegistrationID_def NewStore_def ex_rndA_def published_def kp_ok_def\<close>)
  moreover have "peers_ready pq_toy (mem_store pick) A ikB spk b ?A ?B"
    using b(3,4) idA idB spk'(1) kp
    by (auto simp: peers_ready_def ready_def keys_ok_def mem_defs mem_GetIdentityKeyPair_def mem_LoadSignedPreKey_def NewStore_def split: if_splits)
  moreover have "fresh_draws pq_toy ex_rndA ex_rndB b"
    using b(5,6) by (auto simp: fresh_draws_def ex_rndA_def ex_rndB_def dest!: toy_GenerateKeyPair_hd)
  moreover have "\<not> SignedPreKeyExpired (mem_store pick) (Some spk) 9 ?B" using spk'(2) by (simp add: mem_store_def mem_SignedPreKeyExpired_def NewStore_def Let_def)
  moreover have "s_identities ?B = fmempty" by (simp add: NewStore_def)
  ultimately show ?thesis using b(2) by blast
qed

section \<open>Conversations\<close>

text \<open>
  The start of a conversation: the first party has sent a first message to the second one on the strength of its
  bundle, the second one has accepted it, and the stored sessions are shorter than 4 GiB.
\<close>

definition wire_start :: "'z pq_prims_scheme \<Rightarrow> pwire \<Rightarrow> 's ProtocolStore \<Rightarrow> (party \<Rightarrow> Address) \<Rightarrow> 's wire_net \<Rightarrow> bool" where
  "wire_start P W S A N \<longleftrightarrow> (\<exists>ikB spk b stA stB rndA rndB rnd now r p q ct stA' stB'.
     peers_ready P S A ikB spk b stA stB \<and> fresh_draws P rndA rndB b \<and> rndA 4 = Inr r \<and>
     WireCipher_EncryptWithPreKeyBundle P W rndA S (A Alice) (Some b) p stA = (Inr ct, stA') \<and>
     WireCipher_Decrypt P W rnd rndB now S (A Bob) ct stB = (Inr q, stB') \<and>
     small S (A Alice) stA' \<and> small S (A Bob) stB' \<and> N = \<lparr>w_store = both stA' stB', w_sent = \<lambda>_. []\<rparr>)"

definition wire_conversation :: "'z pq_prims_scheme \<Rightarrow> pwire \<Rightarrow> 's ProtocolStore \<Rightarrow> (party \<Rightarrow> Address) \<Rightarrow> 's wire_net \<Rightarrow> bool" where
  "wire_conversation P W S A N \<longleftrightarrow> (\<exists>N0. wire_start P W S A N0 \<and> (wire_step P W S A)\<^sup>*\<^sup>* N0 N)"

context peer_store
begin

lemma wire_conversation_inv:
  assumes "prims_ok P" "dh_comm P" "kem_ok P" "mlkem_ok P" "dh_valid P" "pw_ok W" "wire_conversation P W S A N" "net_size N + 3002 < 2 ^ 32"
  shows "wire_inv P W S A N"
proof -
  obtain N0 where n: "wire_start P W S A N0" "(wire_step P W S A)\<^sup>*\<^sup>* N0 N" using assms(7) by (auto simp: wire_conversation_def)
  then have "wire_inv P W S A N0" using first_contact [OF assms(1-6)] unfolding wire_start_def peers_ready_def by blast
  then show ?thesis using wire_inv_run [OF assms(1,2,4-6) n(2) _ assms(8)] by blast
qed

end

lemma example_contact:
  "\<exists>ikB spk b stA stB ct stA' stB'. peers_ready pq_toy (mem_store pick) A ikB spk b stA stB \<and> fresh_draws pq_toy ex_rndA ex_rndB b \<and>
     b_KyberPreKeyID b = None \<and>
     WireCipher_EncryptWithPreKeyBundle pq_toy leb ex_rndA (mem_store pick) (A Alice) (Some b) [1, 2, 3] stA = (Inr ct, stA') \<and>
     WireCipher_Decrypt pq_toy leb ex_rndB ex_rndB 9 (mem_store pick) (A Bob) ct stB = (Inr [1, 2, 3], stB')"
proof -
  obtain ikB spk b stA stB ct stA' where e: "peers_ready pq_toy (mem_store pick) A ikB spk b stA stB" "fresh_draws pq_toy ex_rndA ex_rndB b"
    "b_KyberPreKeyID b = None" "s_identities stB = fmempty" "\<not> SignedPreKeyExpired (mem_store pick) (Some spk) 9 stB"
    "WireCipher_EncryptWithPreKeyBundle pq_toy leb ex_rndA (mem_store pick) (A Alice) (Some b) [1, 2, 3] stA = (Inr ct, stA')"
    using example_peers by blast
  note p = e(1) [unfolded peers_ready_def]
  have "\<exists>stB'. WireCipher_Decrypt pq_toy leb ex_rndB ex_rndB 9 (mem_store pick) (A Bob) ct stB = (Inr [1, 2, 3], stB')"
    by (rule mem.first_delivery [where spk = spk and A = A, OF pq_toy_laws(1-3) pq_toy_ok pq_toy_laws(4) leb_ok e(6)])
      (use p e(2,4,5) draws_toy in \<open>auto simp: ex_rndA_def ex_rndB_def mem_store_def mem_IsTrustedIdentity_def mem_SaveIdentity_def\<close>)
  with e show ?thesis by blast
qed

text \<open>A conversation that has just started, and one in which the next message is on its way.\<close>

lemma example_start:
  "\<exists>N. wire_start pq_toy leb (mem_store pick) A N \<and> wire_inv pq_toy leb (mem_store pick) A N \<and> net_size N = 0 \<and>
     (\<forall>z. \<exists>s. holds pq_toy (mem_store pick) (A z) (w_store N z) s \<and> light 1 3 s)"
proof -
  obtain ikB spk b stA stB ct stA' stB' where e: "peers_ready pq_toy (mem_store pick) A ikB spk b stA stB" "fresh_draws pq_toy ex_rndA ex_rndB b"
    "b_KyberPreKeyID b = None" "WireCipher_EncryptWithPreKeyBundle pq_toy leb ex_rndA (mem_store pick) (A Alice) (Some b) [1, 2, 3] stA = (Inr ct, stA')"
    "WireCipher_Decrypt pq_toy leb ex_rndB ex_rndB 9 (mem_store pick) (A Bob) ct stB = (Inr [1, 2, 3], stB')"
    using example_contact by blast
  note p = e(1) [unfolded peers_ready_def]
  have r: "ex_rndA 4 = Inr [5]" by (simp add: ex_rndA_def)
  note laws = pq_toy_laws(1-3) pq_toy_ok pq_toy_laws(4) leb_ok
  have s: "(\<exists>s. holds pq_toy (mem_store pick) (A z) (both stA' stB' z) s \<and> light 1 3 s \<and> session_live pq_toy s) \<and>
      small (mem_store pick) (A z) (both stA' stB' z)" for z
    using mem.first_small [where A = A and P = pq_toy, OF laws e(4) r _ _ _ _ e(2,5,3)] p by blast
  have "wire_start pq_toy leb (mem_store pick) A \<lparr>w_store = both stA' stB', w_sent = \<lambda>_. []\<rparr>"
    unfolding wire_start_def using e r s [of Alice] s [of Bob] by (fastforce simp: both_def)
  moreover from this have "wire_inv pq_toy leb (mem_store pick) A \<lparr>w_store = both stA' stB', w_sent = \<lambda>_. []\<rparr>"
    by (intro mem.wire_conversation_inv [OF laws]) (auto simp: wire_conversation_def net_size_def)
  ultimately show ?thesis using s by (intro exI [of _ "\<lparr>w_store = both stA' stB', w_sent = \<lambda>_. []\<rparr>"]) (auto simp: net_size_def)
qed

lemma example_turn:
  "\<exists>N x X Y k. wire_start pq_toy leb (mem_store pick) A N \<and> net_size N = 0 \<and> ratchet_at pq_toy (mem_store pick) (A x) (w_store N x) = Some X \<and>
     ratchet_at pq_toy (mem_store pick) (A (peer x)) (w_store N (peer x)) = Some Y \<and> rs_DHs X = Some k \<and> rs_CKs X \<noteq> zero32 \<and>
     unat (rs_Ns X) \<le> MaxSkip \<and> unat (rs_PN X) \<le> MaxSkip \<and> \<not> consumed \<lparr>h_DH = kp_PublicKey k, h_PN = rs_PN X, h_N = rs_Ns X\<rparr> Y \<and>
     rs_DHr Y \<noteq> Some (kp_PublicKey k) \<and> (\<forall>z. \<exists>s. holds pq_toy (mem_store pick) (A z) (w_store N z) s \<and> light 1 3 s)"
proof -
  obtain N where n: "wire_start pq_toy leb (mem_store pick) A N" "wire_inv pq_toy leb (mem_store pick) A N" "net_size N = 0"
    "\<And>z. \<exists>s. holds pq_toy (mem_store pick) (A z) (w_store N z) s \<and> light 1 3 s" using example_start by blast
  obtain pq v ident s K L where l: "sessions_linked pq_toy pq v ident s K L" "\<And>z. holds pq_toy (mem_store pick) (A z) (w_store N z) (s z)"
    using n(2) by (auto simp: wire_inv_def wire_linked_def)
  have at: "ratchet_at pq_toy (mem_store pick) (A z) (w_store N z) = Some (ratchets s z)" for z
    using holds_ratchet [OF l(2)] l(1) by (auto simp: sessions_linked_def ratchets_def)
  have small: "unat (rs_Ns (ratchets s z)) \<le> MaxSkip \<and> unat (rs_PN (ratchets s z)) \<le> MaxSkip" for z
    using n(4) [of z] at [of z] by (auto simp: light_def MaxSkip_def dest!: holds_ratchet)
  obtain x k where "rs_DHs (ratchets s x) = Some k" "rs_CKs (ratchets s x) \<noteq> zero32" "kp_PublicKey k |\<notin>| rs_SeenDH (ratchets s (peer x))"
    "rs_DHr (ratchets s (peer x)) \<noteq> Some (kp_PublicKey k)"
    using paired_ahead_side [of pq_toy "ratchets s" K] l(1) toy_KDFChain_nonzero toy_KDFRoot_nonzero by (auto simp: sessions_linked_def)
  then show ?thesis using n at [of x] at [of "peer x"] small [of x]
    by (intro exI [of _ N] exI [of _ x] exI [of _ "ratchets s x"] exI [of _ "ratchets s (peer x)"] exI [of _ k])
      (auto simp: consumed_def split: option.splits)
qed

lemma example_sent:
  "\<exists>N x ct st'. wire_conversation pq_toy leb (mem_store pick) A N \<and> net_size N = 1 \<and> (ct, [4, 5]) \<in> set (w_sent N (peer x)) \<and>
     WireCipher_Decrypt pq_toy leb (\<lambda>_. Inr [8]) ex_rndB 9 (mem_store pick) (A x) ct (w_store N x) = (Inr [4, 5], st')"
proof -
  obtain N x X Y k where t: "wire_start pq_toy leb (mem_store pick) A N" "net_size N = 0"
    "ratchet_at pq_toy (mem_store pick) (A x) (w_store N x) = Some X" "ratchet_at pq_toy (mem_store pick) (A (peer x)) (w_store N (peer x)) = Some Y"
    "rs_DHs X = Some k" "rs_CKs X \<noteq> zero32" "unat (rs_Ns X) \<le> MaxSkip" "unat (rs_PN X) \<le> MaxSkip"
    "\<not> consumed \<lparr>h_DH = kp_PublicKey k, h_PN = rs_PN X, h_N = rs_Ns X\<rparr> Y" "rs_DHr Y \<noteq> Some (kp_PublicKey k)"
    "\<forall>z. \<exists>s. holds pq_toy (mem_store pick) (A z) (w_store N z) s \<and> light 1 3 s"
    using example_turn by blast
  obtain z where z: "GenerateKeyPair toy (Inr [8]) = Inr z" using toy_GenerateKeyPair by blast
  note laws = pq_toy_laws(1-3) pq_toy_ok pq_toy_laws(4) leb_ok
  have "wire_conversation pq_toy leb (mem_store pick) A N" using t(1) by (auto simp: wire_conversation_def)
  then have inv: "wire_inv pq_toy leb (mem_store pick) A N" by (rule mem.wire_conversation_inv [OF laws]) (simp add: t(2))
  have "rs_Ns X \<noteq> MaxUint32" using t(7) by (auto simp: MaxSkip_def unat_MaxUint32)
  then obtain ct st' where e: "WireCipher_Encrypt pq_toy leb (Inr [7]) (mem_store pick) (A x) [4, 5] (w_store N x) = (Inr ct, st')"
    using mem.wire_send_total [OF pq_toy_ok inv _ t(3,6)] t(2) by fastforce
  have "deliverable pq_toy (Inr [8]) \<lparr>h_DH = kp_PublicKey k, h_PN = rs_PN X, h_N = rs_Ns X\<rparr> X Y"
    using t z DH_total_toy [of "kp_PrivateKey z" "kp_PublicKey k"] by (auto simp: deliverable_def)
  then obtain st'' where d: "WireCipher_Decrypt pq_toy leb (\<lambda>_. Inr [8]) ex_rndB 9 (mem_store pick) (A (peer x)) ct (w_store N (peer x)) = (Inr [4, 5], st'')"
    using mem.wire_delivery [OF laws(1,2,4,5) leb_ok inv _ e t(3,4), where rnd = "\<lambda>_. Inr [8]"] t(2,5) by fastforce
  let ?N = "N\<lparr>w_store := (w_store N)(x := st'), w_sent := (w_sent N)(x := (ct, [4, 5]) # w_sent N x)\<rparr>"
  have "small (mem_store pick) (A x) st'" using t(11) mem.light_send [OF _ _ _ e] by fastforce
  then have "wire_conversation pq_toy leb (mem_store pick) A ?N"
    using t(1) wire_step.send [where A = A and N = N and x = x, OF e] by (auto simp: wire_conversation_def)
  moreover have "net_size ?N = 1" using t(2) by (cases x) (simp_all add: net_size_def)
  ultimately show ?thesis using d by (intro exI [of _ ?N] exI [of _ "peer x"]) auto
qed

text \<open>The first message, presented to the store that has accepted it.\<close>

lemma example_replay:
  "\<exists>ct st d. mem_LoadSession (A0 Bob) st = Inr (Some d) \<and>
     WireCipher_Decrypt pq_toy leb ex_rndB ex_rndB 9 (mem_store pick0) (A0 Bob) ct st = (Inl ErrDuplicateMessage, st)"
proof -
  obtain ikB spk b stA stB ct stA' stB' where e: "peers_ready pq_toy (mem_store pick0) A0 ikB spk b stA stB" "fresh_draws pq_toy ex_rndA ex_rndB b"
    "b_KyberPreKeyID b = None" "WireCipher_EncryptWithPreKeyBundle pq_toy leb ex_rndA (mem_store pick0) (A0 Alice) (Some b) [1, 2, 3] stA = (Inr ct, stA')"
    "WireCipher_Decrypt pq_toy leb ex_rndB ex_rndB 9 (mem_store pick0) (A0 Bob) ct stB = (Inr [1, 2, 3], stB')"
    using example_contact by blast
  note p = e(1) [unfolded peers_ready_def ready_def]
  have s: "(\<exists>s. holds pq_toy (mem_store pick0) (A0 Bob) (both stA' stB' Bob) s \<and> light 1 3 s \<and> session_live pq_toy s)"
    "small (mem_store pick0) (A0 Bob) (both stA' stB' Bob)"
    by (rule mem.first_small [where A = A0 and P = pq_toy and r = "[5]", OF pq_toy_laws(1-3) pq_toy_ok pq_toy_laws(4) leb_ok e(4) _ _ _ _ _ e(2,5,3)];
      use e(1) in \<open>auto simp: peers_ready_def ex_rndA_def\<close>)+
  have "live_sessions pq_toy (mem_store pick0) (A0 Bob) stB" using p by (simp add: live_sessions_def loadRecordOptional_def)
  then have "WireCipher_Decrypt pq_toy leb ex_rndB ex_rndB 9 (mem_store pick0) (A0 Bob) ct stB' = (Inl ErrDuplicateMessage, stB')"
    using mem.no_replay [OF e(5)] p s(2) by (fastforce simp: small_def)
  moreover obtain d where "mem_LoadSession (A0 Bob) stB' = Inr (Some d)"
    using s(1) by (auto simp: holds_def loadRecordOptional_iff mem_store_def)
  ultimately show ?thesis by blast
qed

section \<open>Properties\<close>

text \<open>
  C1: End-to-end correctness over the stores.  Two parties that have met through a bundle use the wire cipher with any
  interleaving of sends, late, repeated, reordered or lost deliveries, rejected forgeries, and other use of their
  stores.  Whenever one of them accepts what the other has sent, it gets the plaintext that was sent.
\<close>

theorem wire_conversation_correct:
  assumes "prims_ok P" "dh_comm P" "kem_ok P" "mlkem_ok P" "dh_valid P" "pw_ok W"
    and "wire_conversation P W (mem_store pick) A N" "net_size N + 3002 < 2 ^ 32" "(ct, p) \<in> set (w_sent N (peer x))"
    and "WireCipher_Decrypt P W rnd rndB now (mem_store pick) (A x) ct (w_store N x) = (Inr q, st')"
  shows "q = p"
proof -
  have "wire_inv P W (mem_store pick) A N" by (rule mem.wire_conversation_inv [OF assms(1-8)])
  then show ?thesis using mem.wire_linked_deliver(1) [where A = A and N = N and x = x, OF assms(1,2,4) _ assms(8-10)] unfolding wire_inv_def by blast
qed

theorem wire_conversation_correct_witness:
  "\<exists>N x ct q st'. wire_conversation pq_toy leb (mem_store pick0) A0 N \<and> (ct, [4, 5]) \<in> set (w_sent N (peer x)) \<and>
     WireCipher_Decrypt pq_toy leb (\<lambda>_. Inr [8]) ex_rndB 9 (mem_store pick0) (A0 x) ct (w_store N x) = (Inr q, st') \<and> q = [4, 5]"
proof -
  obtain N x ct st' where e: "wire_conversation pq_toy leb (mem_store pick0) A0 N" "net_size N = 1" "(ct, [4, 5]) \<in> set (w_sent N (peer x))"
    "WireCipher_Decrypt pq_toy leb (\<lambda>_. Inr [8]) ex_rndB 9 (mem_store pick0) (A0 x) ct (w_store N x) = (Inr [4, 5], st')"
    using example_sent by blast
  have "[4, 5] = [4, 5 :: 8 word]"
    by (rule wire_conversation_correct [OF pq_toy_laws(1-3) pq_toy_ok pq_toy_laws(4) leb_ok e(1) _ e(3,4)]) (simp add: e(2))
  with e show ?thesis by blast
qed


text \<open>
  C2: End-to-end delivery over the stores.  In a conversation of fewer than 25000 messages, a party that
  has a sending chain can send, and the other one opens the message and gets the plaintext: both sessions are loaded
  from the stores and pass the version checks, the double ratchet and the post-quantum ratchet agree on the keys, and
  the records are stored again.  The message and the end of the chain before it have to be at most \<open>MaxSkip\<close> messages
  into their chains, the receiver must not have used up the header, and when the header has a new ratchet key the
  receiver must be able to draw a key pair.
\<close>

theorem wire_conversation_delivers:
  assumes laws: "prims_ok P" "dh_comm P" "kem_ok P" "mlkem_ok P" "dh_valid P" "pw_ok W"
    and conv: "wire_conversation P W (mem_store pick) A N" "net_size N + 2 \<le> 25000"
    and at: "ratchet_at P (mem_store pick) (A x) (w_store N x) = Some X" "ratchet_at P (mem_store pick) (A (peer x)) (w_store N (peer x)) = Some Y"
    and send: "rs_DHs X = Some k" "rs_CKs X \<noteq> zero32" "unat (rs_Ns X) \<le> MaxSkip" "unat (rs_PN X) \<le> MaxSkip"
    and recv: "\<not> consumed \<lparr>h_DH = kp_PublicKey k, h_PN = rs_PN X, h_N = rs_Ns X\<rparr> Y"
      "rs_DHr Y \<noteq> Some (kp_PublicKey k) \<Longrightarrow> GenerateKeyPair P (rnd 0) = Inr z \<and> isOk (DH P (kp_PrivateKey z) (kp_PublicKey k))"
  shows "\<exists>ct st' st''. WireCipher_Encrypt P W (Inr rand) (mem_store pick) (A x) p (w_store N x) = (Inr ct, st') \<and>
    WireCipher_Decrypt P W rnd rndB now (mem_store pick) (A (peer x)) ct (w_store N (peer x)) = (Inr p, st'')"
proof -
  have inv: "wire_inv P W (mem_store pick) A N"
    by (rule mem.wire_conversation_inv [OF laws(1-6) conv(1)]) (use conv(2) in simp)
  have "rs_Ns X \<noteq> MaxUint32" using send(3) by (auto simp: MaxSkip_def unat_MaxUint32)
  then obtain ct st' where e: "WireCipher_Encrypt P W (Inr rand) (mem_store pick) (A x) p (w_store N x) = (Inr ct, st')"
    using mem.wire_send_total [OF laws(4) inv _ at(1) send(2)] conv(2) by fastforce
  moreover have "deliverable P (rnd 0) \<lparr>h_DH = kp_PublicKey k, h_PN = rs_PN X, h_N = rs_Ns X\<rparr> X Y"
    using send recv unfolding deliverable_def by auto
  ultimately show ?thesis
    using mem.wire_delivery [OF laws(1,2,4-6) inv conv(2) e at] send(1) by fastforce
qed

theorem wire_conversation_delivers_witness:
  "\<exists>N x ct st' st''. wire_conversation pq_toy leb (mem_store pick0) A0 N \<and>
     WireCipher_Encrypt pq_toy leb (Inr [7]) (mem_store pick0) (A0 x) [4, 5] (w_store N x) = (Inr ct, st') \<and>
     WireCipher_Decrypt pq_toy leb (\<lambda>_. Inr [8]) ex_rndB 9 (mem_store pick0) (A0 (peer x)) ct (w_store N (peer x)) = (Inr [4, 5], st'')"
proof -
  obtain N x X Y k where t: "wire_start pq_toy leb (mem_store pick0) A0 N" "net_size N = 0"
    "ratchet_at pq_toy (mem_store pick0) (A0 x) (w_store N x) = Some X" "ratchet_at pq_toy (mem_store pick0) (A0 (peer x)) (w_store N (peer x)) = Some Y"
    "rs_DHs X = Some k" "rs_CKs X \<noteq> zero32" "unat (rs_Ns X) \<le> MaxSkip" "unat (rs_PN X) \<le> MaxSkip"
    "\<not> consumed \<lparr>h_DH = kp_PublicKey k, h_PN = rs_PN X, h_N = rs_Ns X\<rparr> Y" "rs_DHr Y \<noteq> Some (kp_PublicKey k)"
    using example_turn by blast
  obtain z where z: "GenerateKeyPair toy (Inr [8]) = Inr z" using toy_GenerateKeyPair by blast
  have c: "wire_conversation pq_toy leb (mem_store pick0) A0 N" using t(1) by (auto simp: wire_conversation_def)
  have "\<exists>ct st' st''. WireCipher_Encrypt pq_toy leb (Inr [7]) (mem_store pick0) (A0 x) [4, 5] (w_store N x) = (Inr ct, st') \<and>
     WireCipher_Decrypt pq_toy leb (\<lambda>_. Inr [8]) ex_rndB 9 (mem_store pick0) (A0 (peer x)) ct (w_store N (peer x)) = (Inr [4, 5], st'')"
    by (rule wire_conversation_delivers [OF pq_toy_laws(1-3) pq_toy_ok pq_toy_laws(4) leb_ok c _ t(3-9), where z = z])
      (use t(2,10) z DH_total_toy [of "kp_PrivateKey z" "kp_PublicKey k"] in auto)
  with c show ?thesis by blast
qed

text \<open>
  C3: First contact.  What \<open>EncryptWithPreKeyBundle\<close> makes on the strength of a published bundle is opened by the owner of
  the bundle and gives the plaintext.  The owner has no session with and no recorded identity for the sender, the signed
  pre-key has not expired at the owner, the key pairs that the two draw are distinct, and those that the owner draws
  can be used with the keys of the sender.
\<close>

theorem first_message_delivered:
  assumes laws: "prims_ok P" "dh_comm P" "kem_ok P" "mlkem_ok P" "dh_valid P" "pw_ok W"
    and "peers_ready P (mem_store pick) A ikB spk b stA stB" "fresh_draws P rndA rndB b" "draws P (rndB 1)" "draws P (rndB 2)" "rndA 4 = Inr r"
    and "fmlookup (s_identities stB) (A Bob) = None" "\<not> mem_SignedPreKeyExpired (Some spk) now stB"
    and "WireCipher_EncryptWithPreKeyBundle P W rndA (mem_store pick) (A Alice) (Some b) p stA = (Inr ct, stA')"
  shows "\<exists>stB'. WireCipher_Decrypt P W rnd rndB now (mem_store pick) (A Bob) ct stB = (Inr p, stB')"
  by (rule mem.first_delivery [where spk = spk and A = A, OF laws assms(14,11)])
    (use assms(7-13) in \<open>auto simp: peers_ready_def mem_store_def mem_IsTrustedIdentity_def mem_SaveIdentity_def\<close>)

theorem first_message_delivered_witness:
  "\<exists>b stA stB ct stA' stB'. WireCipher_EncryptWithPreKeyBundle pq_toy leb ex_rndA (mem_store pick0) (A0 Alice) (Some b) [1, 2, 3] stA = (Inr ct, stA') \<and>
     WireCipher_Decrypt pq_toy leb ex_rndB ex_rndB 9 (mem_store pick0) (A0 Bob) ct stB = (Inr [1, 2, 3], stB')"
proof -
  obtain ikB spk b stA stB ct stA' where e: "peers_ready pq_toy (mem_store pick0) A0 ikB spk b stA stB" "fresh_draws pq_toy ex_rndA ex_rndB b"
    "s_identities stB = fmempty" "\<not> SignedPreKeyExpired (mem_store pick0) (Some spk) 9 stB"
    "WireCipher_EncryptWithPreKeyBundle pq_toy leb ex_rndA (mem_store pick0) (A0 Alice) (Some b) [1, 2, 3] stA = (Inr ct, stA')"
    using example_peers by blast
  have "\<exists>stB'. WireCipher_Decrypt pq_toy leb ex_rndB ex_rndB 9 (mem_store pick0) (A0 Bob) ct stB = (Inr [1, 2, 3], stB')"
    by (rule first_message_delivered [OF pq_toy_laws(1-3) pq_toy_ok pq_toy_laws(4) leb_ok e(1,2) _ _ _ _ _ e(5)])
      (use e(3,4) draws_toy in \<open>auto simp: ex_rndA_def ex_rndB_def mem_store_def\<close>)
  with e(5) show ?thesis by blast
qed

text \<open>
  C4: No replay over the stores.  A ciphertext that has been decrypted, be it a first message or a later one, is
  rejected as a duplicate when it is presented to the resulting store again, and the store stays as it is.
  This holds for any store of live sessions below 4 GiB.
\<close>

theorem wire_no_replay:
  assumes "WireCipher_Decrypt P W rnd rndB now (mem_store pick) addr ciphertext st = (Inr p, st')"
    and "live_sessions P (mem_store pick) addr st" "keys_ok P (mem_store pick) st" "small (mem_store pick) addr st'"
  shows "WireCipher_Decrypt P W rnd' rndB' now' (mem_store pick) addr ciphertext st' = (Inl ErrDuplicateMessage, st')"
  by (rule mem.no_replay [OF assms(1-3)]) (use assms(4) in \<open>simp add: small_def\<close>)

theorem wire_no_replay_witness:
  "\<exists>ct st p st'. WireCipher_Decrypt pq_toy leb ex_rndB ex_rndB 9 (mem_store pick0) (A0 Bob) ct st = (Inr p, st') \<and>
     WireCipher_Decrypt pq_toy leb ex_rndB ex_rndB 9 (mem_store pick0) (A0 Bob) ct st' = (Inl ErrDuplicateMessage, st')"
proof -
  obtain ikB spk b stA stB ct stA' stB' where e: "peers_ready pq_toy (mem_store pick0) A0 ikB spk b stA stB" "fresh_draws pq_toy ex_rndA ex_rndB b"
    "b_KyberPreKeyID b = None" "WireCipher_EncryptWithPreKeyBundle pq_toy leb ex_rndA (mem_store pick0) (A0 Alice) (Some b) [1, 2, 3] stA = (Inr ct, stA')"
    "WireCipher_Decrypt pq_toy leb ex_rndB ex_rndB 9 (mem_store pick0) (A0 Bob) ct stB = (Inr [1, 2, 3], stB')"
    using example_contact by blast
  note p = e(1) [unfolded peers_ready_def ready_def]
  have "small (mem_store pick0) (A0 Bob) (both stA' stB' Bob)"
    by (rule mem.first_small(2) [where A = A0 and P = pq_toy and r = "[5]", OF pq_toy_laws(1-3) pq_toy_ok pq_toy_laws(4) leb_ok e(4) _ _ _ _ _ e(2,5,3)])
      (use e(1) in \<open>auto simp: peers_ready_def ex_rndA_def\<close>)
  moreover have "live_sessions pq_toy (mem_store pick0) (A0 Bob) stB" using p by (simp add: live_sessions_def loadRecordOptional_def)
  ultimately show ?thesis using wire_no_replay [OF e(5)] p e(5) by fastforce
qed

text \<open>
  C36: A failed decryption does no harm.  Whatever bytes are presented, when either of the two ciphers returns an error
  the stored sessions of all addresses are as before, and so is the whole store but for two things: the identity recorded
  for the address, and one-time pre-keys, of which some may be gone.  Those two are touched only for a pre-key message.
  When the bytes are a signal message, or cannot be parsed at all, the store is exactly as it was; for the cipher on
  envelopes, when they are not an envelope with a pre-key message.
\<close>

theorem failed_decryption_keeps_sessions:
  "(WireCipher_Decrypt P W rnd rndB now (mem_store pick) addr data st = (Inl e, st') \<longrightarrow>
      (\<forall>a. mem_LoadSession a st' = mem_LoadSession a st) \<and> keys_touched addr st st' \<and>
      (isOk (ParseSignalMessage P W data) \<or> \<not> isOk (ParsePreKeySignalMessage P W data) \<longrightarrow> st' = st)) \<and>
   (Session_Cipher.Cipher_Decrypt P rnd rndB now (mem_store pick) addr data st = (Inl e, st') \<longrightarrow>
      (\<forall>a. mem_LoadSession a st' = mem_LoadSession a st) \<and> keys_touched addr st st' \<and>
      ((\<forall>payload. decodeEnvelope data \<noteq> Inr (envelopeTypePreKey, payload)) \<longrightarrow> st' = st))"
proof -
  have s: "mem_LoadSession a st' = mem_LoadSession a st" if "keys_touched addr st st'" for a
  proof -
    have "s_sessions st' = s_sessions st" using that unfolding keys_touched_def by (metis Store.select_convs(9) Store.surjective Store.update_convs(5,6))
    then show ?thesis by (simp add: mem_LoadSession_def)
  qed
  show ?thesis
  proof (intro conjI impI)
    assume w: "WireCipher_Decrypt P W rnd rndB now (mem_store pick) addr data st = (Inl e, st')"
    then show k: "keys_touched addr st st'" using mem_frame.WireCipher_Decrypt_failure unfolding failure_keeps_def by blast
    show "\<forall>a. mem_LoadSession a st' = mem_LoadSession a st" using s [OF k] by blast
    show "st' = st" if "isOk (ParseSignalMessage P W data) \<or> \<not> isOk (ParsePreKeySignalMessage P W data)"
      using w that by (rule mem.WireCipher_Decrypt_untouched)
  next
    assume c: "Session_Cipher.Cipher_Decrypt P rnd rndB now (mem_store pick) addr data st = (Inl e, st')"
    then show k: "keys_touched addr st st'" using mem_frame.Session_Cipher_Decrypt_failure unfolding failure_keeps_def by blast
    show "\<forall>a. mem_LoadSession a st' = mem_LoadSession a st" using s [OF k] by blast
    show "st' = st" if "\<forall>payload. decodeEnvelope data \<noteq> Inr (envelopeTypePreKey, payload)"
      using c by (rule mem.Cipher_Decrypt_untouched) (use that in blast)
  qed
qed

text \<open>
  A store with a session, to which the message that started the session is presented once more, and
  bytes that are no message.
\<close>

theorem failed_decryption_keeps_sessions_witness:
  "\<exists>ct st d st1 e st2. mem_LoadSession (A0 Bob) st = Inr (Some d) \<and>
     WireCipher_Decrypt pq_toy leb ex_rndB ex_rndB 9 (mem_store pick0) (A0 Bob) ct st = (Inl ErrDuplicateMessage, st1) \<and>
     mem_LoadSession (A0 Bob) st1 = Inr (Some d) \<and> keys_touched (A0 Bob) st st1 \<and>
     Session_Cipher.Cipher_Decrypt pq_toy ex_rndB ex_rndB 9 (mem_store pick0) (A0 Bob) [] st = (Inl e, st2) \<and> st2 = st"
proof -
  obtain ct st d where st: "mem_LoadSession (A0 Bob) st = Inr (Some d)"
    "WireCipher_Decrypt pq_toy leb ex_rndB ex_rndB 9 (mem_store pick0) (A0 Bob) ct st = (Inl ErrDuplicateMessage, st)"
    using example_replay by blast
  have n: "\<forall>payload. decodeEnvelope [] \<noteq> Inr (envelopeTypePreKey, payload)" by (simp add: decodeEnvelope_def)
  obtain e st2 where e: "Session_Cipher.Cipher_Decrypt pq_toy ex_rndB ex_rndB 9 (mem_store pick0) (A0 Bob) [] st = (Inl e, st2)"
    by (auto simp: Session_Cipher.Cipher_Decrypt_def decodeEnvelope_def)
  have "mem_LoadSession (A0 Bob) st = mem_LoadSession (A0 Bob) st \<and> keys_touched (A0 Bob) st st" "st2 = st"
    using failed_decryption_keeps_sessions [of pq_toy leb ex_rndB ex_rndB 9 pick0 "A0 Bob" ct st ErrDuplicateMessage st] st(2)
      failed_decryption_keeps_sessions [of pq_toy leb ex_rndB ex_rndB 9 pick0 "A0 Bob" "[]" st e st2] e n by blast+
  with st e show ?thesis by blast
qed

end
