(* ===== verification/Go_Time.thy ===== *)
theory Go_Time
  imports Prelude
begin

text \<open>
  Go's \<^verbatim>\<open>time.Time\<close> as the nanoseconds since the zero time, 1 January of year 1, so that \<open>0\<close> is the zero time.  Zones
  have no counterpart: the program only compares instants.
\<close>

type_synonym go_time = int

definition unixEpoch :: go_time where
  "unixEpoch = 62135596800 * 10 ^ 9"

text \<open>\<^verbatim>\<open>UnixMilli\<close> and \<^verbatim>\<open>Unix\<close> give an \<^verbatim>\<open>int64\<close> and wrap.\<close>

definition UnixMilli :: "go_time \<Rightarrow> u64" where
  "UnixMilli t = word_of_int ((t - unixEpoch) div 10 ^ 6)"

definition Unix :: "go_time \<Rightarrow> u64" where
  "Unix t = word_of_int ((t - unixEpoch) div 10 ^ 9)"

definition time_Unix :: "u64 \<Rightarrow> go_time" where
  "time_Unix sec = sint sec * 10 ^ 9 + unixEpoch"

lemma Unix_time_Unix [simp]: "Unix (time_Unix sec) = sec"
  by (simp add: Unix_def time_Unix_def)

text \<open>\<^verbatim>\<open>Sub\<close> saturates at the bounds of a \<^verbatim>\<open>Duration\<close>.\<close>

definition time_Sub :: "go_time \<Rightarrow> go_time \<Rightarrow> int" where
  "time_Sub t u = max (- (2 ^ 63)) (min (2 ^ 63 - 1) (t - u))"

end
