(* ===== verification/Sealed_Sender.thy ===== *)
theory Sealed_Sender
  imports Wire  XEdDSA Go_Time
begin

text \<open>
  Sealed sender (\<^verbatim>\<open>sealedsender/types.go\<close>, \<^verbatim>\<open>certificates.go\<close>, \<^verbatim>\<open>content.go\<close>, \<^verbatim>\<open>sealed_sender.go\<close>): the certificates of the server and
  of the sender, the content that carries a message with the certificate of its sender, and the two
  envelopes that hide both.  A Go string is the list of its bytes; a slice that is \<^verbatim>\<open>nil\<close> and one that is empty are
  both \<open>[]\<close>, and the code that asks whether a copied slice is \<^verbatim>\<open>nil\<close> asks whether it is empty, since
  \<^verbatim>\<open>append([]byte(nil), val...)\<close> of an empty slice is \<^verbatim>\<open>nil\<close>.
\<close>

section \<open>Message types and hints (types.go)\<close>

definition MessageTypePreKey :: u32 where "MessageTypePreKey = 1"
definition MessageTypeSignal :: u32 where "MessageTypeSignal = 2"
definition MessageTypeSenderKey :: u32 where "MessageTypeSenderKey = 7"
definition MessageTypePlaintext :: u32 where "MessageTypePlaintext = 8"

text \<open>The number is cut to 32 bits before it is compared.\<close>

definition parseMessageType :: "u64 \<Rightarrow> u32 res" where
  "parseMessageType raw =
     (if (ucast raw :: u32) \<in> {MessageTypePreKey, MessageTypeSignal, MessageTypeSenderKey, MessageTypePlaintext}
      then Inr (ucast raw) else Inl ErrInvalidMessage)"

definition ContentHintDefault :: u32 where "ContentHintDefault = 0"

definition parseContentHint :: "u64 \<Rightarrow> u32" where
  "parseContentHint raw = ucast raw"

section \<open>Server certificates (certificates.go)\<close>

definition revokedServerCertificateID :: u32 where
  "revokedServerCertificateID = 0xDEADC357"

record ServerCertificate =
  srv_serialized :: bytes
  srv_certificate :: bytes
  srv_signature :: bytes
  srv_keyID :: u32
  srv_publicKey :: bytes

text \<open>A certificate with its signature; both kinds of certificates have this form.\<close>

definition signed_field :: "pwire \<Rightarrow> nat \<Rightarrow> nat \<Rightarrow> bytes \<Rightarrow> bytes \<times> bytes \<Rightarrow> ((bytes \<times> bytes) \<times> bytes) res" where
  "signed_field W num ty data v =
     (if num = 1 then
        bindR (pb_bytes W ErrInvalidMessage ty data) (\<lambda>(val, data). Inr ((val, snd v), data))
      else if num = 2 then
        bindR (pb_bytes W ErrInvalidMessage ty data) (\<lambda>(val, data). Inr ((fst v, val), data))
      else bindR (pb_skip W ErrInvalidMessage num ty data) (\<lambda>data. Inr (v, data)))"

definition encodeServerCertificate :: "pwire \<Rightarrow> bytes \<Rightarrow> bytes \<Rightarrow> bytes" where
  "encodeServerCertificate W certificate signature =
     AppendTag W 1 BytesType @ AppendBytes W certificate @ AppendTag W 2 BytesType @ AppendBytes W signature"

definition decodeServerCertificate :: "pwire \<Rightarrow> bytes \<Rightarrow> (bytes \<times> bytes) res" where
  "decodeServerCertificate W data =
     (if length data = 0 then Inl ErrInvalidMessage
      else bindR (pb_loop W ErrInvalidMessage (signed_field W) ([], []) data) (\<lambda>(certificate, signature).
        if certificate = [] \<or> signature = [] then Inl ErrInvalidMessage else Inr (certificate, signature)))"

definition encodeServerCertificateBody :: "pwire \<Rightarrow> u32 \<Rightarrow> bytes \<Rightarrow> bytes" where
  "encodeServerCertificateBody W keyID publicKey =
     AppendTag W 1 VarintType @ AppendVarint W (ucast keyID)
     @ AppendTag W 2 BytesType @ AppendBytes W (SerializeWirePublicKey publicKey)"

definition server_field :: "pwire \<Rightarrow> nat \<Rightarrow> nat \<Rightarrow> bytes \<Rightarrow> u32 option \<times> bytes option \<Rightarrow>
    ((u32 option \<times> bytes option) \<times> bytes) res" where
  "server_field W num ty data v =
     (if num = 1 then
        bindR (pb_varint W ErrInvalidMessage ty data) (\<lambda>(val, data).
        if val > 0xFFFFFFFF then Inl ErrInvalidMessage else Inr ((Some (ucast val), snd v), data))
      else if num = 2 then
        bindR (pb_bytes W ErrInvalidMessage ty data) (\<lambda>(val, data). Inr ((fst v, Some val), data))
      else bindR (pb_skip W ErrInvalidMessage num ty data) (\<lambda>data. Inr (v, data)))"

definition decodeServerCertificateBody :: "'z prims_scheme \<Rightarrow> pwire \<Rightarrow> bytes \<Rightarrow> (u32 \<times> bytes) res" where
  "decodeServerCertificateBody P W data =
     bindR (pb_loop W ErrInvalidMessage (server_field W) (None, None) data) (\<lambda>v.
     case v of
       (Some keyID, Some keyBytes) \<Rightarrow> bindR (DeserializeWirePublicKey P keyBytes) (\<lambda>key. Inr (keyID, key))
     | _ \<Rightarrow> Inl ErrInvalidMessage)"

definition ParseServerCertificate :: "'z prims_scheme \<Rightarrow> pwire \<Rightarrow> bytes \<Rightarrow> ServerCertificate res" where
  "ParseServerCertificate P W data =
     bindR (decodeServerCertificate W data) (\<lambda>(certificate, signature).
     bindR (decodeServerCertificateBody P W certificate) (\<lambda>(keyID, publicKey).
     Inr \<lparr>srv_serialized = data, srv_certificate = certificate, srv_signature = signature,
          srv_keyID = keyID, srv_publicKey = publicKey\<rparr>))"

text \<open>The second argument is what reading from the random source returns.\<close>

definition NewServerCertificate ::
    "'z prims_scheme \<Rightarrow> bytes res \<Rightarrow> pwire \<Rightarrow> u32 \<Rightarrow> bytes \<Rightarrow> bytes \<Rightarrow> ServerCertificate res" where
  "NewServerCertificate P rnd W keyID publicKey trustRootPrivate =
     (if ValidatePublicKey P publicKey \<noteq> Inr () then Inl ErrInvalidKey
      else
        let certificate = encodeServerCertificateBody W keyID publicKey in
        bindR (XEdDSASign P rnd trustRootPrivate [certificate]) (\<lambda>signature.
        Inr \<lparr>srv_serialized = encodeServerCertificate W certificate signature, srv_certificate = certificate,
             srv_signature = signature, srv_keyID = keyID, srv_publicKey = publicKey\<rparr>))"

definition ServerCertificate_Validate :: "'z prims_scheme \<Rightarrow> bytes \<Rightarrow> ServerCertificate option \<Rightarrow> bool" where
  "ServerCertificate_Validate P trustRoot c =
     (case c of
        None \<Rightarrow> False
      | Some c \<Rightarrow>
          if srv_keyID c = revokedServerCertificateID then False
          else XEdDSAVerify P trustRoot (srv_signature c) [srv_certificate c])"

text \<open>A resolver gives a pointer and whether it has found one; \<open>None\<close> is no resolver.\<close>

type_synonym ServerCertificateResolver = "u32 \<Rightarrow> ServerCertificate option \<times> bool"

definition LookupServerCertificate :: "(u32, ServerCertificate option) fmap \<Rightarrow> ServerCertificateResolver" where
  "LookupServerCertificate m i = (case fmlookup m i of None \<Rightarrow> (None, False) | Some cert \<Rightarrow> (cert, True))"

section \<open>Sender certificates (certificates.go)\<close>

record SenderCertificateParams =
  scp_SenderUUID :: bytes
  scp_SenderUUIDBytes :: bytes
  scp_SenderE164 :: bytes
  scp_SenderDevice :: u32
  scp_ExpiresAt :: go_time
  scp_IdentityKey :: bytes
  scp_Signer :: "ServerCertificate option"
  scp_SignerID :: "u32 option"
  scp_SignerPrivate :: bytes

record senderCertificateBody =
  scb_signer :: "ServerCertificate option"
  scb_signerID :: "u32 option"
  scb_senderUUID :: bytes
  scb_senderUUIDBytes :: bytes
  scb_senderUUIDIsBytes :: bool
  scb_senderE164 :: bytes
  scb_hasSenderE164 :: bool
  scb_senderDevice :: u32
  scb_expiresMillis :: u64
  scb_identityKey :: bytes
  scb_identityKeyBytes :: bytes

record SenderCertificate = senderCertificateBody +
  sc_serialized :: bytes
  sc_certificate :: bytes
  sc_signature :: bytes

definition hexDigit :: "byte \<Rightarrow> byte" where
  "hexDigit d = (if d < 10 then d + 48 else d + 87)"

definition hexEncode :: "bytes \<Rightarrow> bytes" where
  "hexEncode bs = concat (map (\<lambda>b. [hexDigit (drop_bit 4 b), hexDigit (b AND 15)]) bs)"

definition uuidBytesToString :: "bytes \<Rightarrow> bytes res" where
  "uuidBytesToString raw =
     (if length raw \<noteq> 16 then Inl ErrInvalidMessage
      else Inr (hexEncode (take 4 raw) @ [45] @ hexEncode (take 2 (drop 4 raw)) @ [45]
        @ hexEncode (take 2 (drop 6 raw)) @ [45] @ hexEncode (take 2 (drop 8 raw)) @ [45]
        @ hexEncode (drop 10 raw)))"

definition encodeSenderCertificate :: "pwire \<Rightarrow> bytes \<Rightarrow> bytes \<Rightarrow> bytes" where
  "encodeSenderCertificate W certificate signature =
     AppendTag W 1 BytesType @ AppendBytes W certificate @ AppendTag W 2 BytesType @ AppendBytes W signature"

definition decodeSenderCertificate :: "pwire \<Rightarrow> bytes \<Rightarrow> (bytes \<times> bytes) res" where
  "decodeSenderCertificate W data =
     (if length data = 0 then Inl ErrInvalidMessage
      else bindR (pb_loop W ErrInvalidMessage (signed_field W) ([], []) data) (\<lambda>(certificate, signature).
        if certificate = [] \<or> signature = [] then Inl ErrInvalidMessage else Inr (certificate, signature)))"

text \<open>\<^verbatim>\<open>senderCertificateBodyParams\<close> has the fields of \<open>senderCertificateBody\<close> but the decoded key.\<close>

definition encodeSenderCertificateBody :: "pwire \<Rightarrow> senderCertificateBody \<Rightarrow> bytes" where
  "encodeSenderCertificateBody W params =
     (if scb_hasSenderE164 params then AppendTag W 1 BytesType @ AppendBytes W (scb_senderE164 params) else [])
     @ (if scb_senderUUIDIsBytes params then AppendTag W 7 BytesType @ AppendBytes W (scb_senderUUIDBytes params)
        else AppendTag W 6 BytesType @ AppendBytes W (scb_senderUUID params))
     @ AppendTag W 2 VarintType @ AppendVarint W (ucast (scb_senderDevice params))
     @ AppendTag W 3 Fixed64Type @ AppendFixed64 W (scb_expiresMillis params)
     @ AppendTag W 4 BytesType @ AppendBytes W (scb_identityKeyBytes params)
     @ (case scb_signer params of
          Some signer \<Rightarrow> AppendTag W 5 BytesType @ AppendBytes W (srv_serialized signer)
        | None \<Rightarrow>
            (case scb_signerID params of
               Some i \<Rightarrow> AppendTag W 8 VarintType @ AppendVarint W (ucast i)
             | None \<Rightarrow> []))"

text \<open>The variables of the decoder; an optional one is a variable with its \<open>got\<close> flag.\<close>

record sender_vars =
  cv_uuid :: "bytes option"
  cv_uuidBytes :: bytes
  cv_isBytes :: bool
  cv_e164 :: "bytes option"
  cv_device :: "u32 option"
  cv_expires :: "u64 option"
  cv_identity :: "bytes option"
  cv_signer :: "ServerCertificate option"
  cv_signerID :: "u32 option"

definition sender_field ::
    "'z prims_scheme \<Rightarrow> pwire \<Rightarrow> nat \<Rightarrow> nat \<Rightarrow> bytes \<Rightarrow> sender_vars \<Rightarrow> (sender_vars \<times> bytes) res" where
  "sender_field P W num ty data v =
     (let gotSigner = (cv_signer v \<noteq> None \<or> cv_signerID v \<noteq> None) in
      if num = 1 then
        bindR (pb_bytes W ErrInvalidMessage ty data) (\<lambda>(val, data). Inr (v\<lparr>cv_e164 := Some val\<rparr>, data))
      else if num = 6 then
        bindR (pb_bytes W ErrInvalidMessage ty data) (\<lambda>(val, data).
        if cv_uuid v \<noteq> None then Inl ErrInvalidMessage
        else Inr (v\<lparr>cv_uuid := Some val, cv_isBytes := False\<rparr>, data))
      else if num = 7 then
        bindR (pb_bytes W ErrInvalidMessage ty data) (\<lambda>(val, data).
        if cv_uuid v \<noteq> None then Inl ErrInvalidMessage
        else if length val \<noteq> 16 then Inl ErrInvalidMessage
        else bindR (uuidBytesToString val) (\<lambda>uuid.
          Inr (v\<lparr>cv_uuidBytes := val, cv_isBytes := True, cv_uuid := Some uuid\<rparr>, data)))
      else if num = 2 then
        bindR (pb_varint W ErrInvalidMessage ty data) (\<lambda>(val, data).
        if val > 0xFFFFFFFF then Inl ErrInvalidMessage else Inr (v\<lparr>cv_device := Some (ucast val)\<rparr>, data))
      else if num = 3 then
        bindR (pb_fixed64 W ErrInvalidMessage ty data) (\<lambda>(val, data). Inr (v\<lparr>cv_expires := Some val\<rparr>, data))
      else if num = 4 then
        bindR (pb_bytes W ErrInvalidMessage ty data) (\<lambda>(val, data). Inr (v\<lparr>cv_identity := Some val\<rparr>, data))
      else if num = 5 then
        bindR (pb_bytes W ErrInvalidMessage ty data) (\<lambda>(val, data).
        if gotSigner then Inl ErrInvalidMessage
        else bindR (ParseServerCertificate P W val) (\<lambda>signer. Inr (v\<lparr>cv_signer := Some signer\<rparr>, data)))
      else if num = 8 then
        bindR (pb_varint W ErrInvalidMessage ty data) (\<lambda>(val, data).
        if val > 0xFFFFFFFF then Inl ErrInvalidMessage
        else if gotSigner then Inl ErrInvalidMessage
        else Inr (v\<lparr>cv_signerID := Some (ucast val)\<rparr>, data))
      else bindR (pb_skip W ErrInvalidMessage num ty data) (\<lambda>data. Inr (v, data)))"

definition decodeSenderCertificateBody :: "'z prims_scheme \<Rightarrow> pwire \<Rightarrow> bytes \<Rightarrow> senderCertificateBody res" where
  "decodeSenderCertificateBody P W data =
     bindR (pb_loop W ErrInvalidMessage (sender_field P W)
       \<lparr>cv_uuid = None, cv_uuidBytes = [], cv_isBytes = False, cv_e164 = None, cv_device = None, cv_expires = None,
        cv_identity = None, cv_signer = None, cv_signerID = None\<rparr> data) (\<lambda>v.
     case (cv_device v, cv_expires v, cv_identity v, cv_uuid v) of
       (Some device, Some expires, Some identityKeyBytes, Some uuid) \<Rightarrow>
         if cv_signer v = None \<and> cv_signerID v = None then Inl ErrInvalidMessage
         else bindR (DeserializeWirePublicKey P identityKeyBytes) (\<lambda>identityKey.
           Inr \<lparr>scb_signer = cv_signer v, scb_signerID = cv_signerID v, scb_senderUUID = uuid,
                scb_senderUUIDBytes = cv_uuidBytes v, scb_senderUUIDIsBytes = cv_isBytes v,
                scb_senderE164 = (case cv_e164 v of None \<Rightarrow> [] | Some e \<Rightarrow> e),
                scb_hasSenderE164 = (cv_e164 v \<noteq> None), scb_senderDevice = device, scb_expiresMillis = expires,
                scb_identityKey = identityKey, scb_identityKeyBytes = identityKeyBytes\<rparr>)
     | _ \<Rightarrow> Inl ErrInvalidMessage)"

definition ParseSenderCertificate :: "'z prims_scheme \<Rightarrow> pwire \<Rightarrow> bytes \<Rightarrow> SenderCertificate res" where
  "ParseSenderCertificate P W data =
     bindR (decodeSenderCertificate W data) (\<lambda>(certificate, signature).
     bindR (decodeSenderCertificateBody P W certificate) (\<lambda>parsed.
     Inr (senderCertificateBody.extend parsed (SenderCertificate.fields data certificate signature))))"

text \<open>The body that a sender certificate is made of.\<close>

definition body_of :: "SenderCertificateParams \<Rightarrow> senderCertificateBody" where
  "body_of params = \<lparr>scb_signer = scp_Signer params, scb_signerID = scp_SignerID params,
     scb_senderUUID = scp_SenderUUID params, scb_senderUUIDBytes = scp_SenderUUIDBytes params,
     scb_senderUUIDIsBytes = (length (scp_SenderUUIDBytes params) > 0),
     scb_senderE164 = scp_SenderE164 params, scb_hasSenderE164 = (scp_SenderE164 params \<noteq> []),
     scb_senderDevice = scp_SenderDevice params, scb_expiresMillis = UnixMilli (scp_ExpiresAt params),
     scb_identityKey = scp_IdentityKey params,
     scb_identityKeyBytes = SerializeWirePublicKey (scp_IdentityKey params)\<rparr>"

definition NewSenderCertificate ::
    "'z prims_scheme \<Rightarrow> bytes res \<Rightarrow> pwire \<Rightarrow> SenderCertificateParams \<Rightarrow> SenderCertificate res" where
  "NewSenderCertificate P rnd W params =
     (if scp_SenderUUID params = [] \<and> length (scp_SenderUUIDBytes params) = 0 then Inl ErrInvalidMessage
      else if scp_SenderUUID params \<noteq> [] \<and> length (scp_SenderUUIDBytes params) \<noteq> 0 then Inl ErrInvalidMessage
      else if scp_Signer params = None \<and> scp_SignerID params = None then Inl ErrInvalidMessage
      else if scp_Signer params \<noteq> None \<and> scp_SignerID params \<noteq> None then Inl ErrInvalidMessage
      else if scp_ExpiresAt params = 0 then Inl ErrInvalidMessage
      else if ValidatePublicKey P (scp_IdentityKey params) \<noteq> Inr () then Inl ErrInvalidKey
      else if length (scp_SenderUUIDBytes params) > 0 \<and> length (scp_SenderUUIDBytes params) \<noteq> 16
        then Inl ErrInvalidMessage
      else
        let body = body_of params;
            certificate = encodeSenderCertificateBody W body in
        bindR (XEdDSASign P rnd (scp_SignerPrivate params) [certificate]) (\<lambda>signature.
        bindR (if scp_SenderUUID params = [] then uuidBytesToString (scp_SenderUUIDBytes params)
               else Inr (scp_SenderUUID params)) (\<lambda>senderUUID.
        Inr (senderCertificateBody.extend (body\<lparr>scb_senderUUID := senderUUID\<rparr>)
          (SenderCertificate.fields (encodeSenderCertificate W certificate signature) certificate signature)))))"

definition resolveSigner :: "ServerCertificateResolver option \<Rightarrow> SenderCertificate \<Rightarrow> ServerCertificate res" where
  "resolveSigner resolver c =
     (case scb_signer c of
        Some signer \<Rightarrow> Inr signer
      | None \<Rightarrow>
     (case scb_signerID c of
        None \<Rightarrow> Inl ErrInvalidMessage
      | Some signerID \<Rightarrow>
     (case resolver of
        None \<Rightarrow> Inl ErrInvalidMessage
      | Some lookup \<Rightarrow>
          (case lookup signerID of (Some cert, True) \<Rightarrow> Inr cert | _ \<Rightarrow> Inl ErrInvalidMessage))))"

definition SenderCertificate_Validate ::
    "'z prims_scheme \<Rightarrow> bytes list \<Rightarrow> go_time \<Rightarrow> ServerCertificateResolver option \<Rightarrow> SenderCertificate option \<Rightarrow> bool res" where
  "SenderCertificate_Validate P trustRoots validationTime resolver c =
     (case c of
        None \<Rightarrow> Inl ErrInvalidMessage
      | Some c \<Rightarrow>
          if length trustRoots = 0 then Inl ErrInvalidKey
          else bindR (resolveSigner resolver c) (\<lambda>signer.
            if \<not> list_ex (\<lambda>root. ServerCertificate_Validate P root (Some signer)) trustRoots then Inr False
            else if \<not> XEdDSAVerify P (srv_publicKey signer) (sc_signature c) [sc_certificate c] then Inr False
            else if sint (UnixMilli validationTime) > sint (scb_expiresMillis c) then Inr False
            else Inr True))"

definition compareIdentityKeyBytes :: "bytes \<Rightarrow> bytes \<Rightarrow> bool" where
  "compareIdentityKeyBytes a b = (a = SerializeWirePublicKey b)"

section \<open>The content (content.go)\<close>

record UnidentifiedSenderMessageContent =
  us_serialized :: bytes
  us_sender :: "SenderCertificate option"
  us_msgType :: u32
  us_content :: bytes
  us_contentHint :: u32
  us_groupID :: bytes
  us_groupIDValid :: bool

record content_vars =
  tv_type :: "u32 option"
  tv_sender :: "SenderCertificate option"
  tv_content :: "bytes option"
  tv_hint :: u32
  tv_group :: "bytes option"

definition content_field ::
    "'z prims_scheme \<Rightarrow> pwire \<Rightarrow> nat \<Rightarrow> nat \<Rightarrow> bytes \<Rightarrow> content_vars \<Rightarrow> (content_vars \<times> bytes) res" where
  "content_field P W num ty data v =
     (if num = 1 then
        bindR (pb_varint W ErrInvalidMessage ty data) (\<lambda>(val, data).
        bindR (parseMessageType val) (\<lambda>t. Inr (v\<lparr>tv_type := Some t\<rparr>, data)))
      else if num = 2 then
        bindR (pb_bytes W ErrInvalidMessage ty data) (\<lambda>(val, data).
        bindR (ParseSenderCertificate P W val) (\<lambda>cert. Inr (v\<lparr>tv_sender := Some cert\<rparr>, data)))
      else if num = 3 then
        bindR (pb_bytes W ErrInvalidMessage ty data) (\<lambda>(val, data). Inr (v\<lparr>tv_content := Some val\<rparr>, data))
      else if num = 4 then
        bindR (pb_varint W ErrInvalidMessage ty data) (\<lambda>(val, data). Inr (v\<lparr>tv_hint := parseContentHint val\<rparr>, data))
      else if num = 5 then
        bindR (pb_bytes W ErrInvalidMessage ty data) (\<lambda>(val, data). Inr (v\<lparr>tv_group := Some val\<rparr>, data))
      else bindR (pb_skip W ErrInvalidMessage num ty data) (\<lambda>data. Inr (v, data)))"

definition ParseUnidentifiedSenderMessageContent ::
    "'z prims_scheme \<Rightarrow> pwire \<Rightarrow> bytes \<Rightarrow> UnidentifiedSenderMessageContent res" where
  "ParseUnidentifiedSenderMessageContent P W data =
     (if length data = 0 then Inl ErrInvalidMessage
      else
        bindR (pb_loop W ErrInvalidMessage (content_field P W)
          \<lparr>tv_type = None, tv_sender = None, tv_content = None, tv_hint = ContentHintDefault, tv_group = None\<rparr> data) (\<lambda>v.
        case (tv_type v, tv_sender v, tv_content v) of
          (Some msgType, Some sender, Some content) \<Rightarrow>
            Inr \<lparr>us_serialized = data, us_sender = Some sender, us_msgType = msgType, us_content = content,
                 us_contentHint = tv_hint v, us_groupID = (case tv_group v of None \<Rightarrow> [] | Some g \<Rightarrow> g),
                 us_groupIDValid = (tv_group v \<noteq> None)\<rparr>
        | _ \<Rightarrow> Inl ErrInvalidMessage))"

definition NewUnidentifiedSenderMessageContent ::
    "pwire \<Rightarrow> u32 \<Rightarrow> SenderCertificate option \<Rightarrow> bytes \<Rightarrow> u32 \<Rightarrow> bytes \<Rightarrow> UnidentifiedSenderMessageContent res" where
  "NewUnidentifiedSenderMessageContent W msgType sender content hint groupID =
     (case sender of
        None \<Rightarrow> Inl ErrInvalidMessage
      | Some cert \<Rightarrow>
          bindR (parseMessageType (ucast msgType)) (\<lambda>_.
          Inr \<lparr>us_serialized =
                 AppendTag W 1 VarintType @ AppendVarint W (ucast msgType)
                 @ AppendTag W 2 BytesType @ AppendBytes W (sc_serialized cert)
                 @ AppendTag W 3 BytesType @ AppendBytes W content
                 @ (if hint \<noteq> ContentHintDefault then AppendTag W 4 VarintType @ AppendVarint W (ucast hint) else [])
                 @ (if length groupID > 0 then AppendTag W 5 BytesType @ AppendBytes W groupID else []),
               us_sender = sender, us_msgType = msgType, us_content = content, us_contentHint = hint,
               us_groupID = groupID, us_groupIDValid = (length groupID > 0)\<rparr>))"

definition GroupID :: "UnidentifiedSenderMessageContent option \<Rightarrow> bytes \<times> bool" where
  "GroupID c =
     (case c of
        None \<Rightarrow> ([], False)
      | Some c \<Rightarrow> if \<not> us_groupIDValid c then ([], False) else (us_groupID c, True))"

section \<open>The envelopes (sealed\_sender.go)\<close>

definition sealedSenderV1MajorVersion :: byte where "sealedSenderV1MajorVersion = 1"
definition sealedSenderV1FullVersion :: byte where "sealedSenderV1FullVersion = 0x11"
definition sealedSenderV2MajorVersion :: byte where "sealedSenderV2MajorVersion = 2"
definition sealedSenderV2UUIDFullVersion :: byte where "sealedSenderV2UUIDFullVersion = 0x22"
definition sealedSenderV2MessageKeyLen :: nat where "sealedSenderV2MessageKeyLen = 32"
definition sealedSenderV2AuthTagLen :: nat where "sealedSenderV2AuthTagLen = 16"
definition sealedSenderV2PublicKeyLen :: nat where "sealedSenderV2PublicKeyLen = 32"
definition sealedSenderSaltPrefix :: bytes where "sealedSenderSaltPrefix = ascii ''UnidentifiedDelivery''"
definition sealedSenderV2LabelR :: bytes where "sealedSenderV2LabelR = ascii ''Sealed Sender v2: r (2023-08)''"
definition sealedSenderV2LabelK :: bytes where "sealedSenderV2LabelK = ascii ''Sealed Sender v2: K''"
definition sealedSenderV2LabelDH :: bytes where "sealedSenderV2LabelDH = ascii ''Sealed Sender v2: DH''"
definition sealedSenderV2LabelDHS :: bytes where "sealedSenderV2LabelDHS = ascii ''Sealed Sender v2: DH-sender''"

datatype direction = directionSending | directionReceiving

text \<open>The chain key, the cipher key and the MAC key.\<close>

definition deriveEphemeralKeys ::
    "'z prims_scheme \<Rightarrow> bytes \<Rightarrow> bytes \<Rightarrow> bytes \<Rightarrow> direction \<Rightarrow> (bytes \<times> bytes \<times> bytes) res" where
  "deriveEphemeralKeys P ourPublic ourPrivate theirPublic dir =
     (let ourWire = SerializeWirePublicKey ourPublic; theirWire = SerializeWirePublicKey theirPublic;
          salt = (case dir of
                    directionSending \<Rightarrow> sealedSenderSaltPrefix @ theirWire @ ourWire
                  | directionReceiving \<Rightarrow> sealedSenderSaltPrefix @ ourWire @ theirWire) in
      bindR (DH P ourPrivate theirPublic) (\<lambda>shared.
      bindR (HKDF P shared salt [] 96) (\<lambda>okm.
      Inr (take 32 okm, take 32 (drop 32 okm), take 32 (drop 64 okm)))))"

text \<open>The cipher key and the MAC key.\<close>

definition deriveStaticKeys :: "'z prims_scheme \<Rightarrow> bytes \<Rightarrow> bytes \<Rightarrow> bytes \<Rightarrow> bytes \<Rightarrow> (bytes \<times> bytes) res" where
  "deriveStaticKeys P ourPrivate theirPublic chainKey encryptedStatic =
     bindR (DH P ourPrivate theirPublic) (\<lambda>shared.
     bindR (HKDF P shared (chainKey @ encryptedStatic) [] 96) (\<lambda>okm.
     Inr (take 32 (drop 32 okm), take 32 (drop 64 okm))))"

definition encodeSealedSenderV1Message :: "pwire \<Rightarrow> bytes \<Rightarrow> bytes \<Rightarrow> bytes \<Rightarrow> bytes" where
  "encodeSealedSenderV1Message W ephemeralPublic encryptedStatic encryptedMessage =
     AppendTag W 1 BytesType @ AppendBytes W ephemeralPublic @ AppendTag W 2 BytesType @ AppendBytes W encryptedStatic
     @ AppendTag W 3 BytesType @ AppendBytes W encryptedMessage"

record sealedSenderV1Message =
  v1_ephemeralPublic :: "bytes option"
  v1_encryptedStatic :: "bytes option"
  v1_encryptedMessage :: "bytes option"

definition v1_field :: "pwire \<Rightarrow> nat \<Rightarrow> nat \<Rightarrow> bytes \<Rightarrow> sealedSenderV1Message \<Rightarrow> (sealedSenderV1Message \<times> bytes) res" where
  "v1_field W num ty data v =
     (if num = 1 then
        bindR (pb_bytes W ErrInvalidMessage ty data) (\<lambda>(val, data). Inr (v\<lparr>v1_ephemeralPublic := Some val\<rparr>, data))
      else if num = 2 then
        bindR (pb_bytes W ErrInvalidMessage ty data) (\<lambda>(val, data). Inr (v\<lparr>v1_encryptedStatic := Some val\<rparr>, data))
      else if num = 3 then
        bindR (pb_bytes W ErrInvalidMessage ty data) (\<lambda>(val, data). Inr (v\<lparr>v1_encryptedMessage := Some val\<rparr>, data))
      else bindR (pb_skip W ErrInvalidMessage num ty data) (\<lambda>data. Inr (v, data)))"

definition decodeSealedSenderV1Message :: "pwire \<Rightarrow> bytes \<Rightarrow> (bytes \<times> bytes \<times> bytes) res" where
  "decodeSealedSenderV1Message W data =
     bindR (pb_loop W ErrInvalidMessage (v1_field W)
       \<lparr>v1_ephemeralPublic = None, v1_encryptedStatic = None, v1_encryptedMessage = None\<rparr> data) (\<lambda>v.
     case (v1_ephemeralPublic v, v1_encryptedStatic v, v1_encryptedMessage v) of
       (Some e, Some s, Some m) \<Rightarrow> Inr (e, s, m)
     | _ \<Rightarrow> Inl ErrInvalidMessage)"

definition EncryptV1 ::
    "'z prims_scheme \<Rightarrow> pwire \<Rightarrow> bytes res \<Rightarrow> bytes \<Rightarrow> IdentityKeyPair option \<Rightarrow> UnidentifiedSenderMessageContent option \<Rightarrow> bytes res" where
  "EncryptV1 P W rnd recipientIdentity senderIdentity usmc =
     (case senderIdentity of
        None \<Rightarrow> Inl ErrInvalidKey
      | Some senderIdentity \<Rightarrow>
     (case Option.bind usmc us_sender of
        None \<Rightarrow> Inl ErrInvalidMessage
      | Some sender \<Rightarrow>
     let senderPub = ik_PublicKey (ikp_PublicKey senderIdentity) in
     if \<not> compareIdentityKeyBytes (scb_identityKeyBytes sender) senderPub then Inl ErrInvalidKey
     else
       bindR (GenerateKeyPair P rnd) (\<lambda>ephemeral.
       bindR (deriveEphemeralKeys P (kp_PublicKey ephemeral) (kp_PrivateKey ephemeral) recipientIdentity directionSending)
         (\<lambda>(chainKey, cipherKey, macKey).
       bindR (AES256CTRHMACSHA256Encrypt P (SerializeWirePublicKey senderPub) cipherKey macKey) (\<lambda>encryptedStatic.
       bindR (deriveStaticKeys P (ikp_PrivateKey senderIdentity) recipientIdentity chainKey encryptedStatic)
         (\<lambda>(cipherKey, macKey).
       bindR (AES256CTRHMACSHA256Encrypt P (us_serialized (the usmc)) cipherKey macKey) (\<lambda>encryptedMessage.
       Inr ([sealedSenderV1FullVersion] @ encodeSealedSenderV1Message W (SerializeWirePublicKey (kp_PublicKey ephemeral))
              encryptedStatic encryptedMessage))))))))"

definition applyAgreementXOR ::
    "'z prims_scheme \<Rightarrow> bytes \<Rightarrow> bytes \<Rightarrow> bytes \<Rightarrow> direction \<Rightarrow> bytes \<Rightarrow> bytes res" where
  "applyAgreementXOR P ourPrivate ourPublic theirPublic dir input =
     bindR (DH P ourPrivate theirPublic) (\<lambda>shared.
     let ourWire = SerializeWirePublicKey ourPublic; theirWire = SerializeWirePublicKey theirPublic;
         buf = shared @ (case dir of directionSending \<Rightarrow> ourWire @ theirWire | directionReceiving \<Rightarrow> theirWire @ ourWire) in
     bindR (HKDF P buf [] sealedSenderV2LabelDH sealedSenderV2MessageKeyLen) (\<lambda>mask.
     Inr (xor_bytes mask input)))"

definition computeAuthenticationTag ::
    "'z prims_scheme \<Rightarrow> bytes \<Rightarrow> bytes \<Rightarrow> bytes \<Rightarrow> direction \<Rightarrow> bytes \<Rightarrow> bytes \<Rightarrow> bytes res" where
  "computeAuthenticationTag P ourPrivate ourPublic theirPublic dir ephemeralPublic encryptedMessageKey =
     bindR (DH P ourPrivate theirPublic) (\<lambda>shared.
     let ourWire = SerializeWirePublicKey ourPublic; theirWire = SerializeWirePublicKey theirPublic;
         buf = shared @ SerializeWirePublicKey ephemeralPublic @ encryptedMessageKey
           @ (case dir of directionSending \<Rightarrow> ourWire @ theirWire | directionReceiving \<Rightarrow> theirWire @ ourWire) in
     bindR (HKDF P buf [] sealedSenderV2LabelDHS sealedSenderV2AuthTagLen) (\<lambda>okm.
     Inr (arr sealedSenderV2AuthTagLen okm)))"

definition EncryptV2Received ::
    "'z prims_scheme \<Rightarrow> bytes res \<Rightarrow> bytes \<Rightarrow> IdentityKeyPair option \<Rightarrow> UnidentifiedSenderMessageContent option \<Rightarrow> bytes res" where
  "EncryptV2Received P rnd recipientIdentity senderIdentity usmc =
     (case senderIdentity of
        None \<Rightarrow> Inl ErrInvalidKey
      | Some senderIdentity \<Rightarrow>
     (case Option.bind usmc us_sender of
        None \<Rightarrow> Inl ErrInvalidMessage
      | Some sender \<Rightarrow>
     let senderPub = ik_PublicKey (ikp_PublicKey senderIdentity) in
     if \<not> compareIdentityKeyBytes (scb_identityKeyBytes sender) senderPub then Inl ErrInvalidKey
     else
       bindR (RandomBytes rnd sealedSenderV2MessageKeyLen) (\<lambda>m.
       bindR (HKDF P m [] sealedSenderV2LabelR sealedSenderV2MessageKeyLen) (\<lambda>r.
       bindR (HKDF P m [] sealedSenderV2LabelK sealedSenderV2MessageKeyLen) (\<lambda>k.
       bindR (KeyPairFromPrivate P r) (\<lambda>ephemeral.
       bindR (applyAgreementXOR P (kp_PrivateKey ephemeral) (kp_PublicKey ephemeral) recipientIdentity directionSending m) (\<lambda>c.
       bindR (computeAuthenticationTag P (ikp_PrivateKey senderIdentity) senderPub recipientIdentity directionSending
                (kp_PublicKey ephemeral) c) (\<lambda>at.
       bindR (AESGCMSIVEncrypt P k (replicate AESGCMSIVNonceSize 0) (us_serialized (the usmc)) []) (\<lambda>ciphertext.
       Inr ([sealedSenderV2UUIDFullVersion] @ c @ at @ kp_PublicKey ephemeral @ ciphertext))))))))))"

definition decryptV1 ::
    "'z prims_scheme \<Rightarrow> pwire \<Rightarrow> bytes \<Rightarrow> IdentityKeyPair \<Rightarrow> UnidentifiedSenderMessageContent res" where
  "decryptV1 P W payload recipientIdentity =
     bindR (decodeSealedSenderV1Message W payload) (\<lambda>(ephemeralPublic, encryptedStatic, encryptedMessage).
     if length ephemeralPublic = 0 then Inl ErrInvalidMessage
     else if length encryptedStatic = 0 \<or> length encryptedMessage = 0 then Inl ErrInvalidMessage
     else
       bindR (DeserializeWirePublicKey P ephemeralPublic) (\<lambda>ephemeralPub.
       bindR (deriveEphemeralKeys P (ik_PublicKey (ikp_PublicKey recipientIdentity)) (ikp_PrivateKey recipientIdentity)
                ephemeralPub directionReceiving) (\<lambda>(chainKey, cipherKey, macKey).
       case AES256CTRHMACSHA256Decrypt P encryptedStatic cipherKey macKey of
         Inl _ \<Rightarrow> Inl ErrInvalidMAC
       | Inr messageKeyBytes \<Rightarrow>
       bindR (DeserializeWirePublicKey P messageKeyBytes) (\<lambda>staticKey.
       bindR (deriveStaticKeys P (ikp_PrivateKey recipientIdentity) staticKey chainKey encryptedStatic) (\<lambda>(cipherKey, macKey).
       case AES256CTRHMACSHA256Decrypt P encryptedMessage cipherKey macKey of
         Inl _ \<Rightarrow> Inl ErrInvalidMAC
       | Inr messageBytes \<Rightarrow>
       bindR (ParseUnidentifiedSenderMessageContent P W messageBytes) (\<lambda>usmc.
       case us_sender usmc of
         None \<Rightarrow> Inl ErrInvalidMessage
       | Some sender \<Rightarrow>
           if messageKeyBytes \<noteq> scb_identityKeyBytes sender then Inl ErrInvalidMessage else Inr usmc))))))"

definition decryptV2 ::
    "'z prims_scheme \<Rightarrow> pwire \<Rightarrow> bytes \<Rightarrow> IdentityKeyPair \<Rightarrow> UnidentifiedSenderMessageContent res" where
  "decryptV2 P W payload recipientIdentity =
     (if length payload < sealedSenderV2MessageKeyLen + sealedSenderV2AuthTagLen + sealedSenderV2PublicKeyLen + sealedSenderV2AuthTagLen
      then Inl ErrInvalidMessage
      else
        let c = take 32 payload; at = take 16 (drop 32 payload); epub = take 32 (drop 48 payload);
            encrypted = drop 80 payload; recipientPub = ik_PublicKey (ikp_PublicKey recipientIdentity) in
        bindR (applyAgreementXOR P (ikp_PrivateKey recipientIdentity) recipientPub epub directionReceiving c) (\<lambda>m.
        bindR (HKDF P m [] sealedSenderV2LabelR sealedSenderV2MessageKeyLen) (\<lambda>r.
        bindR (HKDF P m [] sealedSenderV2LabelK sealedSenderV2MessageKeyLen) (\<lambda>k.
        bindR (KeyPairFromPrivate P r) (\<lambda>ephemeral.
        if kp_PublicKey ephemeral \<noteq> epub then Inl ErrInvalidMessage
        else case AESGCMSIVDecrypt P k (replicate AESGCMSIVNonceSize 0) encrypted [] of
          Inl _ \<Rightarrow> Inl ErrInvalidMAC
        | Inr messageBytes \<Rightarrow>
        bindR (ParseUnidentifiedSenderMessageContent P W messageBytes) (\<lambda>usmc.
        case us_sender usmc of
          None \<Rightarrow> Inl ErrInvalidMessage
        | Some sender \<Rightarrow>
        bindR (computeAuthenticationTag P (ikp_PrivateKey recipientIdentity) recipientPub (scb_identityKey sender)
                 directionReceiving epub c) (\<lambda>atCalc.
        if at \<noteq> atCalc then Inl ErrInvalidMessage else Inr usmc)))))))"

definition DecryptToUSMC ::
    "'z prims_scheme \<Rightarrow> pwire \<Rightarrow> bytes \<Rightarrow> IdentityKeyPair option \<Rightarrow> UnidentifiedSenderMessageContent res" where
  "DecryptToUSMC P W ciphertext recipientIdentity =
     (case recipientIdentity of
        None \<Rightarrow> Inl ErrInvalidKey
      | Some recipientIdentity \<Rightarrow>
          if length ciphertext = 0 then Inl ErrInvalidMessage
          else
            let version = drop_bit 4 (ciphertext ! 0) in
            if version = 0 \<or> version = sealedSenderV1MajorVersion then decryptV1 P W (drop 1 ciphertext) recipientIdentity
            else if version = sealedSenderV2MajorVersion then decryptV2 P W (drop 1 ciphertext) recipientIdentity
            else Inl ErrInvalidMessage)"

end
