(* ===== verification/Sealed_Sender_Safety.thy ===== *)
theory Sealed_Sender_Safety
  imports Sealed_Sender  X3DH
begin

text \<open>
  What is built by the sealed sender package is parsed back, certificates that are issued validate until they
  expire, and both envelopes give the content to the recipient.
\<close>

section \<open>Certificates are parsed back\<close>

lemma signed_step:
  assumes "pw_ok W"
  shows "pb_loop W e (signed_field W) v (AppendTag W 1 BytesType @ AppendBytes W b @ r) = pb_loop W e (signed_field W) (b, snd v) r"
    and "pb_loop W e (signed_field W) v (AppendTag W 2 BytesType @ AppendBytes W b @ r) = pb_loop W e (signed_field W) (fst v, b) r"
  by (rule pb_run [OF assms], simp, simp, simp add: signed_field_def pb_values [OF assms])+

lemma u32_in_u64: "\<not> (ucast (i :: u32) :: u64) > 0xFFFFFFFF"
proof -
  have "unat (ucast i :: u64) = unat i" using unat_u32_less [of i] by (simp add: unsigned_ucast_eq take_bit_nat_eq_self)
  then have "unat (ucast i :: u64) \<le> 0xFFFFFFFF" using unat_u32_less [of i] by simp
  then show ?thesis by (simp add: word_less_nat_alt not_less)
qed

lemma server_step:
  assumes "pw_ok W"
  shows "pb_loop W e (server_field W) v (AppendTag W 1 VarintType @ AppendVarint W (ucast i) @ r) = pb_loop W e (server_field W) (Some i, snd v) r"
    and "pb_loop W e (server_field W) v (AppendTag W 2 BytesType @ AppendBytes W b @ r) = pb_loop W e (server_field W) (fst v, Some b) r"
  by (rule pb_run [OF assms], simp, simp, simp add: server_field_def pb_values [OF assms] u32_in_u64)+

lemma signed_parts:
  assumes "pw_ok W" "certificate \<noteq> []" "signature \<noteq> []"
  shows "decodeServerCertificate W (encodeServerCertificate W certificate signature) = Inr (certificate, signature)"
    and "decodeSenderCertificate W (encodeSenderCertificate W certificate signature) = Inr (certificate, signature)"
proof -
  have t: "AppendTag W 1 BytesType \<noteq> []" using assms(1) by (rule pb_tag_nonempty) (simp_all add: BytesType_def)
  note step = signed_step [OF assms(1)] signed_step(2) [OF assms(1), where r = "[]", simplified]
  show "decodeServerCertificate W (encodeServerCertificate W certificate signature) = Inr (certificate, signature)"
    "decodeSenderCertificate W (encodeSenderCertificate W certificate signature) = Inr (certificate, signature)"
    using t assms(2,3)
    by (simp_all add: decodeServerCertificate_def encodeServerCertificate_def decodeSenderCertificate_def encodeSenderCertificate_def step del: One_nat_def)
qed

lemma NewServerCertificate_Inr:
  assumes "NewServerCertificate P rnd W i pub priv = Inr c"
  obtains sig where "IsValidPublicKey P pub" "XEdDSASign P rnd priv [encodeServerCertificateBody W i pub] = Inr sig"
    "c = \<lparr>srv_serialized = encodeServerCertificate W (encodeServerCertificateBody W i pub) sig,
       srv_certificate = encodeServerCertificateBody W i pub, srv_signature = sig, srv_keyID = i, srv_publicKey = pub\<rparr>"
  using assms by (auto simp: NewServerCertificate_def ValidatePublicKey_def Let_def split: if_splits)

lemma ParseServerCertificate_New:
  assumes "pw_ok W" "length pub = 32" "NewServerCertificate P rnd W i pub priv = Inr c"
  shows "ParseServerCertificate P W (srv_serialized c) = Inr c"
  using assms(3)
proof (rule NewServerCertificate_Inr)
  fix sig
  assume c: "IsValidPublicKey P pub" "XEdDSASign P rnd priv [encodeServerCertificateBody W i pub] = Inr sig"
    "c = \<lparr>srv_serialized = encodeServerCertificate W (encodeServerCertificateBody W i pub) sig,
       srv_certificate = encodeServerCertificateBody W i pub, srv_signature = sig, srv_keyID = i, srv_publicKey = pub\<rparr>"
  have "AppendTag W 1 VarintType \<noteq> []" using assms(1) by (rule pb_tag_nonempty) (simp_all add: VarintType_def)
  then have b: "encodeServerCertificateBody W i pub \<noteq> []" by (simp add: encodeServerCertificateBody_def)
  have s: "sig \<noteq> []" using length_XEdDSASign [OF c(2)] by auto
  have k: "DeserializeWirePublicKey P (SerializeWirePublicKey pub) = Inr pub"
    using c(1) assms(2) by (intro wire_key_roundtrip) (simp add: wire_key_def)
  note step = server_step [OF assms(1)] server_step(2) [OF assms(1), where r = "[]", simplified]
  have "decodeServerCertificateBody P W (encodeServerCertificateBody W i pub) = Inr (i, pub)"
    by (simp add: decodeServerCertificateBody_def encodeServerCertificateBody_def step k del: One_nat_def)
  then show ?thesis using signed_parts(1) [OF assms(1) b s] c(3) by (simp add: ParseServerCertificate_def)
qed

lemma sender_step:
  assumes "pw_ok W"
  shows "pb_loop W e (sender_field P W) v (AppendTag W 1 BytesType @ AppendBytes W b @ r) =
      pb_loop W e (sender_field P W) (v\<lparr>cv_e164 := Some b\<rparr>) r"
    and "cv_uuid v = None \<Longrightarrow> pb_loop W e (sender_field P W) v (AppendTag W 6 BytesType @ AppendBytes W b @ r) =
      pb_loop W e (sender_field P W) (v\<lparr>cv_uuid := Some b, cv_isBytes := False\<rparr>) r"
    and "cv_uuid v = None \<Longrightarrow> uuidBytesToString b = Inr u \<Longrightarrow> pb_loop W e (sender_field P W) v (AppendTag W 7 BytesType @ AppendBytes W b @ r) =
      pb_loop W e (sender_field P W) (v\<lparr>cv_uuidBytes := b, cv_isBytes := True, cv_uuid := Some u\<rparr>) r"
    and "pb_loop W e (sender_field P W) v (AppendTag W 2 VarintType @ AppendVarint W (ucast i) @ r) =
      pb_loop W e (sender_field P W) (v\<lparr>cv_device := Some i\<rparr>) r"
    and "pb_loop W e (sender_field P W) v (AppendTag W 3 Fixed64Type @ AppendFixed64 W t @ r) =
      pb_loop W e (sender_field P W) (v\<lparr>cv_expires := Some t\<rparr>) r"
    and "pb_loop W e (sender_field P W) v (AppendTag W 4 BytesType @ AppendBytes W b @ r) =
      pb_loop W e (sender_field P W) (v\<lparr>cv_identity := Some b\<rparr>) r"
    and "cv_signer v = None \<Longrightarrow> cv_signerID v = None \<Longrightarrow> ParseServerCertificate P W b = Inr s \<Longrightarrow>
      pb_loop W e (sender_field P W) v (AppendTag W 5 BytesType @ AppendBytes W b @ r) =
      pb_loop W e (sender_field P W) (v\<lparr>cv_signer := Some s\<rparr>) r"
    and "cv_signer v = None \<Longrightarrow> cv_signerID v = None \<Longrightarrow>
      pb_loop W e (sender_field P W) v (AppendTag W 8 VarintType @ AppendVarint W (ucast i) @ r) =
      pb_loop W e (sender_field P W) (v\<lparr>cv_signerID := Some i\<rparr>) r"
  by (rule pb_run [OF assms], simp, simp,
      simp add: sender_field_def pb_values [OF assms] u32_in_u64 uuidBytesToString_def split: if_splits)+

lemma NewSenderCertificate_Inr:
  assumes "NewSenderCertificate P rnd W params = Inr c"
  obtains sig uuid where "IsValidPublicKey P (scp_IdentityKey params)"
    "scp_Signer params = None \<longleftrightarrow> scp_SignerID params \<noteq> None"
    "scp_SenderUUIDBytes params = [] \<and> uuid = scp_SenderUUID params \<or>
     scp_SenderUUIDBytes params \<noteq> [] \<and> uuidBytesToString (scp_SenderUUIDBytes params) = Inr uuid"
    "XEdDSASign P rnd (scp_SignerPrivate params) [encodeSenderCertificateBody W (body_of params)] = Inr sig"
    "c = senderCertificateBody.extend ((body_of params)\<lparr>scb_senderUUID := uuid\<rparr>)
       (SenderCertificate.fields (encodeSenderCertificate W (encodeSenderCertificateBody W (body_of params)) sig)
          (encodeSenderCertificateBody W (body_of params)) sig)"
  using assms
  by (auto simp: NewSenderCertificate_def ValidatePublicKey_def Let_def split: if_splits)

lemma decode_encode_sender:
  assumes "pw_ok W" "wire_key P (scp_IdentityKey params)" "scp_Signer params = None \<longleftrightarrow> scp_SignerID params \<noteq> None"
    and "scp_SenderUUIDBytes params = [] \<and> uuid = scp_SenderUUID params \<or>
     scp_SenderUUIDBytes params \<noteq> [] \<and> uuidBytesToString (scp_SenderUUIDBytes params) = Inr uuid"
    and "\<And>s. scp_Signer params = Some s \<Longrightarrow> ParseServerCertificate P W (srv_serialized s) = Inr s"
  shows "decodeSenderCertificateBody P W (encodeSenderCertificateBody W (body_of params)) = Inr ((body_of params)\<lparr>scb_senderUUID := uuid\<rparr>)"
proof -
  note step = sender_step [OF assms(1)] sender_step(7,8) [OF assms(1), where r = "[]", simplified]
  note k = wire_key_roundtrip [OF assms(2)]
  show ?thesis
    using assms(3-5)
    by (cases "scp_Signer params"; cases "scp_SenderE164 params"; cases "scp_SenderUUIDBytes params")
      (auto simp: decodeSenderCertificateBody_def encodeSenderCertificateBody_def body_of_def step k simp del: One_nat_def)
qed

lemma ParseSenderCertificate_New:
  assumes "pw_ok W" "length (scp_IdentityKey params) = 32" "NewSenderCertificate P rnd W params = Inr c"
    and "\<And>s. scp_Signer params = Some s \<Longrightarrow> ParseServerCertificate P W (srv_serialized s) = Inr s"
  shows "ParseSenderCertificate P W (sc_serialized c) = Inr c"
  using assms(3)
proof (rule NewSenderCertificate_Inr)
  fix sig uuid
  let ?body = "encodeSenderCertificateBody W (body_of params)"
  assume c: "IsValidPublicKey P (scp_IdentityKey params)" "scp_Signer params = None \<longleftrightarrow> scp_SignerID params \<noteq> None"
    "scp_SenderUUIDBytes params = [] \<and> uuid = scp_SenderUUID params \<or>
     scp_SenderUUIDBytes params \<noteq> [] \<and> uuidBytesToString (scp_SenderUUIDBytes params) = Inr uuid"
    "XEdDSASign P rnd (scp_SignerPrivate params) [?body] = Inr sig"
    "c = senderCertificateBody.extend ((body_of params)\<lparr>scb_senderUUID := uuid\<rparr>)
       (SenderCertificate.fields (encodeSenderCertificate W ?body sig) ?body sig)"
  have "AppendTag W 2 VarintType \<noteq> []" using assms(1) by (rule pb_tag_nonempty) (simp_all add: VarintType_def)
  then have b: "?body \<noteq> []" by (simp add: encodeSenderCertificateBody_def)
  have s: "sig \<noteq> []" using length_XEdDSASign [OF c(4)] by auto
  have "wire_key P (scp_IdentityKey params)" using c(1) assms(2) by (simp add: wire_key_def)
  from decode_encode_sender [OF assms(1) this c(2,3) assms(4)] show ?thesis
    using signed_parts(2) [OF assms(1) b s] c(5)
    by (simp add: ParseSenderCertificate_def senderCertificateBody.defs SenderCertificate.defs)
qed

section \<open>The content is parsed back\<close>

lemma content_step:
  assumes "pw_ok W"
  shows "parseMessageType n = Inr t \<Longrightarrow> pb_loop W e (content_field P W) v (AppendTag W 1 VarintType @ AppendVarint W n @ r) =
      pb_loop W e (content_field P W) (v\<lparr>tv_type := Some t\<rparr>) r"
    and "ParseSenderCertificate P W b = Inr c \<Longrightarrow> pb_loop W e (content_field P W) v (AppendTag W 2 BytesType @ AppendBytes W b @ r) =
      pb_loop W e (content_field P W) (v\<lparr>tv_sender := Some c\<rparr>) r"
    and "pb_loop W e (content_field P W) v (AppendTag W 3 BytesType @ AppendBytes W b @ r) =
      pb_loop W e (content_field P W) (v\<lparr>tv_content := Some b\<rparr>) r"
    and "pb_loop W e (content_field P W) v (AppendTag W 4 VarintType @ AppendVarint W n @ r) =
      pb_loop W e (content_field P W) (v\<lparr>tv_hint := ucast n\<rparr>) r"
    and "pb_loop W e (content_field P W) v (AppendTag W 5 BytesType @ AppendBytes W b @ r) =
      pb_loop W e (content_field P W) (v\<lparr>tv_group := Some b\<rparr>) r"
  by (rule pb_run [OF assms], simp, simp, simp add: content_field_def pb_values [OF assms] parseContentHint_def)+

lemma ParseContent_New:
  assumes "pw_ok W" "ParseSenderCertificate P W (sc_serialized c) = Inr c"
    and "NewUnidentifiedSenderMessageContent W ty (Some c) content hint gid = Inr u"
  shows "ParseUnidentifiedSenderMessageContent P W (us_serialized u) = Inr u" "us_sender u = Some c"
proof -
  have t: "parseMessageType (ucast ty) = Inr ty"
    using assms(3) by (auto simp: NewUnidentifiedSenderMessageContent_def parseMessageType_def split: if_splits)
  have "AppendTag W 1 VarintType \<noteq> []" using assms(1) by (rule pb_tag_nonempty) (simp_all add: VarintType_def)
  then have "us_serialized u \<noteq> []" using assms(3) by (auto simp: NewUnidentifiedSenderMessageContent_def)
  moreover note step = content_step [OF assms(1)] content_step(3-5) [OF assms(1), where r = "[]", simplified] assms(2) t
  ultimately show "ParseUnidentifiedSenderMessageContent P W (us_serialized u) = Inr u"
    using assms(3)
    by (cases gid; cases "hint = ContentHintDefault")
      (auto simp: NewUnidentifiedSenderMessageContent_def ParseUnidentifiedSenderMessageContent_def step simp del: One_nat_def)
  show "us_sender u = Some c" using assms(3) by (auto simp: NewUnidentifiedSenderMessageContent_def)
qed

section \<open>The envelopes give the content\<close>

lemma v1_step:
  assumes "pw_ok W"
  shows "pb_loop W e (v1_field W) v (AppendTag W 1 BytesType @ AppendBytes W b @ r) = pb_loop W e (v1_field W) (v\<lparr>v1_ephemeralPublic := Some b\<rparr>) r"
    and "pb_loop W e (v1_field W) v (AppendTag W 2 BytesType @ AppendBytes W b @ r) = pb_loop W e (v1_field W) (v\<lparr>v1_encryptedStatic := Some b\<rparr>) r"
    and "pb_loop W e (v1_field W) v (AppendTag W 3 BytesType @ AppendBytes W b @ r) = pb_loop W e (v1_field W) (v\<lparr>v1_encryptedMessage := Some b\<rparr>) r"
  by (rule pb_run [OF assms], simp, simp, simp add: v1_field_def pb_values [OF assms])+

lemma decode_encode_v1:
  assumes "pw_ok W"
  shows "decodeSealedSenderV1Message W (encodeSealedSenderV1Message W e s m) = Inr (e, s, m)"
  by (simp add: decodeSealedSenderV1Message_def encodeSealedSenderV1Message_def v1_step [OF assms]
      v1_step(3) [OF assms, where r = "[]", simplified] del: One_nat_def)

text \<open>Two identities, or an identity and a key pair, agree on the shared secret.\<close>

definition honest_keys :: "'z prims_scheme \<Rightarrow> bytes \<Rightarrow> bytes \<Rightarrow> bool" where
  "honest_keys P pub priv \<longleftrightarrow> scalarBaseMult P priv = Inr pub"

lemma honest_keys_agree:
  assumes "dh_comm P" "honest_keys P pubA privA" "honest_keys P pubB privB"
  shows "DH P privA pubB = DH P privB pubA"
proof -
  have "x25519 P privA pubB = x25519 P privB pubA" using assms unfolding dh_comm_def honest_keys_def by blast
  then show ?thesis unfolding DH_def by (rule arg_cong)
qed

lemma honest_keys_length: "honest_keys P pub priv \<Longrightarrow> length pub = 32"
  by (auto simp: honest_keys_def scalarBaseMult_def split: option.splits)

lemma honest_keys_wire:
  "dh_valid P \<Longrightarrow> honest_keys P pub priv \<Longrightarrow> DeserializeWirePublicKey P (SerializeWirePublicKey pub) = Inr pub"
  using honest_keys_length by (intro wire_key_roundtrip) (auto simp: wire_key_def dh_valid_def honest_keys_def)

lemma GenerateKeyPair_keys: "GenerateKeyPair P rnd = Inr k \<Longrightarrow> honest_keys P (kp_PublicKey k) (kp_PrivateKey k)"
  using GenerateKeyPair_honest by (auto simp: honest_pair_def honest_keys_def)

lemma CTRHMAC_nonempty:
  assumes "AES256CTRHMACSHA256Encrypt P p ck mk = Inr ct"
  shows "ct \<noteq> []"
proof -
  have "length ct \<ge> aesCTRHMACSize"
    using assms by (auto simp: AES256CTRHMACSHA256Encrypt_def aesCTRHMACSize_def Let_def split: if_splits)
  then show ?thesis by (auto simp: aesCTRHMACSize_def)
qed

lemma V1_opens:
  assumes "dh_comm P" "dh_valid P" "pw_ok W"
    and "honest_keys P pubS (ikp_PrivateKey ikS)" "ik_PublicKey (ikp_PublicKey ikS) = pubS"
    and "honest_keys P pubR (ikp_PrivateKey ikR)" "ik_PublicKey (ikp_PublicKey ikR) = pubR"
    and "us_sender u = Some c" "ParseUnidentifiedSenderMessageContent P W (us_serialized u) = Inr u"
    and "EncryptV1 P W rnd pubR (Some ikS) (Some u) = Inr ct"
  shows "DecryptToUSMC P W ct (Some ikR) = Inr u"
proof -
  obtain eph chainKey ck mk es ck' mk' em where e: "scb_identityKeyBytes c = SerializeWirePublicKey pubS" "GenerateKeyPair P rnd = Inr eph"
    "deriveEphemeralKeys P (kp_PublicKey eph) (kp_PrivateKey eph) pubR directionSending = Inr (chainKey, ck, mk)"
    "AES256CTRHMACSHA256Encrypt P (SerializeWirePublicKey pubS) ck mk = Inr es"
    "deriveStaticKeys P (ikp_PrivateKey ikS) pubR chainKey es = Inr (ck', mk')"
    "AES256CTRHMACSHA256Encrypt P (us_serialized u) ck' mk' = Inr em"
    "ct = [sealedSenderV1FullVersion] @ encodeSealedSenderV1Message W (SerializeWirePublicKey (kp_PublicKey eph)) es em"
    using assms(5,8,10) by (auto simp: EncryptV1_def compareIdentityKeyBytes_def Let_def split: if_splits)
  note h = GenerateKeyPair_keys [OF e(2)]
  have "deriveEphemeralKeys P pubR (ikp_PrivateKey ikR) (kp_PublicKey eph) directionReceiving = Inr (chainKey, ck, mk)"
    using e(3) honest_keys_agree [OF assms(1) h assms(6)] by (simp add: deriveEphemeralKeys_def Let_def)
  moreover have "deriveStaticKeys P (ikp_PrivateKey ikR) pubS chainKey es = Inr (ck', mk')"
    using e(5) honest_keys_agree [OF assms(1,4,6)] by (simp add: deriveStaticKeys_def)
  moreover have "SerializeWirePublicKey x \<noteq> []" for x by (simp add: SerializeWirePublicKey_def)
  moreover have "drop_bit 4 sealedSenderV1FullVersion = sealedSenderV1MajorVersion"
    by (simp add: sealedSenderV1FullVersion_def sealedSenderV1MajorVersion_def)
  ultimately show ?thesis
    using e(1,7) decode_encode_v1 [OF assms(3)] honest_keys_wire [OF assms(2) h] honest_keys_wire [OF assms(2,4)]
      AES256CTRHMAC_roundtrip [OF e(4)] AES256CTRHMAC_roundtrip [OF e(6)] CTRHMAC_nonempty [OF e(4)] CTRHMAC_nonempty [OF e(6)] assms(7-9)
    by (simp add: DecryptToUSMC_def decryptV1_def Let_def)
qed

text \<open>AES-GCM-SIV appends a tag of 16 bytes.\<close>

definition siv_tag :: "'z prims_scheme \<Rightarrow> bool" where
  "siv_tag P \<longleftrightarrow> (\<forall>k n p ad. length (siv_seal P k n p ad) = length p + 16)"

lemma V2_opens:
  assumes "dh_comm P" "siv_ok P" "siv_tag P"
    and "honest_keys P pubS (ikp_PrivateKey ikS)" "ik_PublicKey (ikp_PublicKey ikS) = pubS"
    and "honest_keys P pubR (ikp_PrivateKey ikR)" "ik_PublicKey (ikp_PublicKey ikR) = pubR"
    and "us_sender u = Some c" "scb_identityKey c = pubS" "ParseUnidentifiedSenderMessageContent P W (us_serialized u) = Inr u"
    and "EncryptV2Received P rnd pubR (Some ikS) (Some u) = Inr ct"
  shows "DecryptToUSMC P W ct (Some ikR) = Inr u"
proof -
  obtain m r k eph c' at enc where e: "RandomBytes rnd 32 = Inr m" "HKDF P m [] sealedSenderV2LabelR 32 = Inr r"
    "HKDF P m [] sealedSenderV2LabelK 32 = Inr k" "KeyPairFromPrivate P r = Inr eph"
    "applyAgreementXOR P (kp_PrivateKey eph) (kp_PublicKey eph) pubR directionSending m = Inr c'"
    "computeAuthenticationTag P (ikp_PrivateKey ikS) pubS pubR directionSending (kp_PublicKey eph) c' = Inr at"
    "AESGCMSIVEncrypt P k (replicate AESGCMSIVNonceSize 0) (us_serialized u) [] = Inr enc"
    "ct = [sealedSenderV2UUIDFullVersion] @ c' @ at @ kp_PublicKey eph @ enc"
    using assms(5,8,11)
    by (auto simp: EncryptV2Received_def sealedSenderV2MessageKeyLen_def Let_def split: if_splits)
  have h: "honest_keys P (kp_PublicKey eph) (kp_PrivateKey eph)" using e(4) by (auto simp: KeyPairFromPrivate_def honest_keys_def)
  obtain shared mask where s: "DH P (kp_PrivateKey eph) pubR = Inr shared"
    "HKDF P (shared @ SerializeWirePublicKey (kp_PublicKey eph) @ SerializeWirePublicKey pubR) [] sealedSenderV2LabelDH 32 = Inr mask"
    "c' = xor_bytes mask m"
    using e(5) by (auto simp: applyAgreementXOR_def sealedSenderV2MessageKeyLen_def Let_def)
  have "length m = 32" "length mask = 32" "length at = 16" "16 \<le> length enc"
    using e(1,6,7) HKDF_length [OF s(2)] assms(3)
    by (auto simp: RandomBytes_def computeAuthenticationTag_def sealedSenderV2AuthTagLen_def AESGCMSIVEncrypt_def siv_tag_def Let_def
        split: if_splits)
  note len = this honest_keys_length [OF h]
  then have lc: "length c' = 32" using s(3) by (simp add: xor_bytes_def)
  have "xor_bytes mask c' = m" using len(1,2) s(3) by (intro nth_equalityI) (simp_all add: xor_bytes_def flip: xor.assoc)
  then have "applyAgreementXOR P (ikp_PrivateKey ikR) pubR (kp_PublicKey eph) directionReceiving c' = Inr m"
    using s honest_keys_agree [OF assms(1) h assms(6)] by (simp add: applyAgreementXOR_def sealedSenderV2MessageKeyLen_def Let_def)
  moreover have "computeAuthenticationTag P (ikp_PrivateKey ikR) pubR pubS directionReceiving (kp_PublicKey eph) c' = Inr at"
    using e(6) honest_keys_agree [OF assms(1,4,6)] by (simp add: computeAuthenticationTag_def Let_def)
  moreover have "drop_bit 4 sealedSenderV2UUIDFullVersion = sealedSenderV2MajorVersion" "sealedSenderV2MajorVersion \<notin> {0, sealedSenderV1MajorVersion}"
    by (simp_all add: sealedSenderV2UUIDFullVersion_def sealedSenderV2MajorVersion_def sealedSenderV1MajorVersion_def)
  ultimately show ?thesis
    using e(2-4,8) len lc AESGCMSIV_roundtrip [OF assms(2) e(7)] assms(7-10)
    by (simp add: DecryptToUSMC_def decryptV2_def sealedSenderV2MessageKeyLen_def sealedSenderV2AuthTagLen_def sealedSenderV2PublicKeyLen_def Let_def)
qed

text \<open>A sender certificate that the package has issued, with its signer.\<close>

definition issued :: "'z prims_scheme \<Rightarrow> pwire \<Rightarrow> SenderCertificateParams \<Rightarrow> SenderCertificate \<Rightarrow> bool" where
  "issued P W params cert \<longleftrightarrow> (\<exists>rnd. NewSenderCertificate P rnd W params = Inr cert) \<and> length (scp_IdentityKey params) = 32 \<and>
     (\<forall>srv. scp_Signer params = Some srv \<longrightarrow> (\<exists>rnd i pub priv. length pub = 32 \<and> NewServerCertificate P rnd W i pub priv = Inr srv))"

lemma issued_parses:
  assumes "pw_ok W" "issued P W params cert"
  shows "ParseSenderCertificate P W (sc_serialized cert) = Inr cert" "scb_identityKeyBytes cert = SerializeWirePublicKey (scb_identityKey cert)"
    "length (scb_identityKey cert) = 32"
proof -
  obtain rnd where c: "NewSenderCertificate P rnd W params = Inr cert" "length (scp_IdentityKey params) = 32"
    "\<And>srv. scp_Signer params = Some srv \<Longrightarrow> ParseServerCertificate P W (srv_serialized srv) = Inr srv"
    using assms(2) ParseServerCertificate_New [OF assms(1)] unfolding issued_def by blast
  show "ParseSenderCertificate P W (sc_serialized cert) = Inr cert" using ParseSenderCertificate_New [OF assms(1) c(2,1,3)] .
  show "scb_identityKeyBytes cert = SerializeWirePublicKey (scb_identityKey cert)" "length (scb_identityKey cert) = 32"
    using c(1) by (rule NewSenderCertificate_Inr;
      use c(2) in \<open>simp add: senderCertificateBody.defs SenderCertificate.defs body_of_def\<close>)+
qed

section \<open>Properties\<close>

text \<open>
  C38: what a sender seals, in either envelope, is opened by the recipient as the content that was sealed, with the certificate
  of the sender: the two sides derive the same keys, the certificate inside parses back and the checks that bind it to the
  sender's identity pass.
\<close>

theorem sealed_sender_opens:
  assumes "dh_comm P" "dh_valid P" "siv_ok P" "siv_tag P" "pw_ok W"
    and "issued P W params cert" "NewUnidentifiedSenderMessageContent W ty (Some cert) content hint gid = Inr u"
    and "honest_identity P ikS" "honest_identity P ikR"
    and "EncryptV1 P W rnd (ik_PublicKey (ikp_PublicKey ikR)) (Some ikS) (Some u) = Inr ct \<or>
      EncryptV2Received P rnd (ik_PublicKey (ikp_PublicKey ikR)) (Some ikS) (Some u) = Inr ct"
  shows "DecryptToUSMC P W ct (Some ikR) = Inr u \<and> us_sender u = Some cert \<and> us_content u = content \<and> us_msgType u = ty \<and>
    GroupID (Some u) = (gid, gid \<noteq> [])"
proof -
  note k = assms(8,9) [unfolded honest_identity_def, folded honest_keys_def]
  note c = issued_parses [OF assms(5,6)]
  note p = ParseContent_New [OF assms(5) c(1) assms(7)]
  have "compareIdentityKeyBytes (scb_identityKeyBytes cert) (ik_PublicKey (ikp_PublicKey ikS))"
    using assms(10) p(2) by (auto simp: EncryptV1_def EncryptV2Received_def Let_def split: if_splits)
  then have "scb_identityKey cert = ik_PublicKey (ikp_PublicKey ikS)"
    using c(2,3) honest_keys_length [OF k(1)] by (simp add: compareIdentityKeyBytes_def SerializeWirePublicKey_def)
  then have "DecryptToUSMC P W ct (Some ikR) = Inr u"
    using assms(10) V1_opens [OF assms(1,2,5) k(1) refl k(2) refl p(2,1)] V2_opens [OF assms(1,3,4) k(1) refl k(2) refl p(2) _ p(1)] by blast
  then show ?thesis using assms(7) by (auto simp: NewUnidentifiedSenderMessageContent_def GroupID_def)
qed

text \<open>
  C39: a sender certificate under a server certificate that a trust root has signed, carried in it or found by the
  resolver, arrives as it was issued and validates exactly when the server certificate is not the revoked one and the time
  is not after the expiry, in milliseconds.
\<close>

theorem issued_certificate_validates:
  assumes "ed_ok P" "pw_ok W"
    and "length rootPriv = 32" "scalarBaseMult P rootPriv = Inr root" "root \<in> set roots"
    and "length (scp_SignerPrivate params) = 32" "scalarBaseMult P (scp_SignerPrivate params) = Inr serverPub"
    and "length (scp_IdentityKey params) = 32"
    and "NewServerCertificate P rnd W i serverPub rootPriv = Inr srv" "NewSenderCertificate P rnd' W params = Inr cert"
    and "scp_Signer params = Some srv \<or> scp_SignerID params = Some j \<and> resolver = Some lookup \<and> lookup j = (Some srv, True)"
  shows "ParseSenderCertificate P W (sc_serialized cert) = Inr cert \<and>
    SenderCertificate_Validate P roots t resolver (Some cert) =
      Inr (i \<noteq> revokedServerCertificateID \<and> sint (UnixMilli t) \<le> sint (UnixMilli (scp_ExpiresAt params)))"
proof (rule NewSenderCertificate_Inr [OF assms(10)], rule NewServerCertificate_Inr [OF assms(9)])
  fix sig uuid sig'
  let ?body = "encodeSenderCertificateBody W (body_of params)" and ?srv = "encodeServerCertificateBody W i serverPub"
  assume c: "scp_Signer params = None \<longleftrightarrow> scp_SignerID params \<noteq> None"
    "XEdDSASign P rnd' (scp_SignerPrivate params) [?body] = Inr sig"
    "cert = senderCertificateBody.extend ((body_of params)\<lparr>scb_senderUUID := uuid\<rparr>)
       (SenderCertificate.fields (encodeSenderCertificate W ?body sig) ?body sig)"
    and s: "XEdDSASign P rnd rootPriv [?srv] = Inr sig'"
    "srv = \<lparr>srv_serialized = encodeServerCertificate W ?srv sig', srv_certificate = ?srv, srv_signature = sig',
       srv_keyID = i, srv_publicKey = serverPub\<rparr>"
  have sel: "sc_signature cert = sig" "sc_certificate cert = ?body" "scb_expiresMillis cert = UnixMilli (scp_ExpiresAt params)"
    "scb_signer cert = scp_Signer params" "scb_signerID cert = scp_SignerID params"
    using c(3) by (simp_all add: senderCertificateBody.defs SenderCertificate.defs body_of_def)
  have "XEdDSAVerify P serverPub sig [?body]" using XEdDSA_complete [OF assms(1,6,7) c(2)] .
  moreover have "ServerCertificate_Validate P root (Some srv) \<longleftrightarrow> i \<noteq> revokedServerCertificateID"
    using XEdDSA_complete [OF assms(1,3,4) s(1)] s(2) by (simp add: ServerCertificate_Validate_def)
  moreover have "\<not> ServerCertificate_Validate P r (Some srv)" if "i = revokedServerCertificateID" for r
    using that s(2) by (simp add: ServerCertificate_Validate_def)
  moreover have "resolveSigner resolver cert = Inr srv"
    using assms(11) c(1) sel by (auto simp: resolveSigner_def split: option.splits)
  ultimately have "SenderCertificate_Validate P roots t resolver (Some cert) =
      Inr (i \<noteq> revokedServerCertificateID \<and> sint (UnixMilli t) \<le> sint (UnixMilli (scp_ExpiresAt params)))"
    using assms(5) s(2) sel by (auto simp: SenderCertificate_Validate_def list_ex_iff)
  moreover have "ParseServerCertificate P W (srv_serialized s) = Inr s" if "scp_Signer params = Some s" for s
    using that assms(11) c(1) ParseServerCertificate_New [OF assms(2) _ assms(9)] honest_keys_length assms(7)
    by (auto simp: honest_keys_def)
  ultimately show ?thesis using ParseSenderCertificate_New [OF assms(2,8,10)] by blast
qed

text \<open>An issuer, a sender and a recipient with the concrete primitives.\<close>

definition ex_identity :: "byte \<Rightarrow> IdentityKeyPair" where
  "ex_identity b = \<lparr>ikp_PublicKey = \<lparr>ik_PublicKey = map2 (+) (replicate 31 b) (arr 31 basepoint) @ [1], ik_SigningPublic = []\<rparr>, ikp_PrivateKey = replicate 32 b\<rparr>"

definition ex_params :: SenderCertificateParams where
  "ex_params = \<lparr>scp_SenderUUID = ascii ''alice'', scp_SenderUUIDBytes = [], scp_SenderE164 = [], scp_SenderDevice = 1,
     scp_ExpiresAt = unixEpoch + 5 * 10 ^ 9, scp_IdentityKey = ik_PublicKey (ikp_PublicKey (ex_identity 3)), scp_Signer = None,
     scp_SignerID = Some 9, scp_SignerPrivate = replicate 32 4\<rparr>"

lemma toy_siv_tag: "siv_tag toy"
  by (simp add: siv_tag_def toy_def)

lemma ex_identity_honest: "honest_identity toy (ex_identity b)"
  by (simp add: honest_identity_def ex_identity_def toy_scalarBaseMult arr_def)

lemma toy_signs: "\<exists>sig. XEdDSASign toy (Inr r) (replicate 32 b) m = Inr sig"
  by (simp add: XEdDSASign_def xeddsaSign_def Let_def scalarFromHash_def SHA512_def)

lemma toy_valid: "IsValidPublicKey toy (ik_PublicKey (ikp_PublicKey (ex_identity b)))"
  using toy_dh_valid ex_identity_honest by (auto simp: dh_valid_def honest_identity_def)

lemma toy_derives:
  "\<exists>ch ck mk. deriveEphemeralKeys toy p k q d = Inr (ch, ck, mk) \<and> length ck = 32" "\<exists>ck mk. deriveStaticKeys toy k q x y = Inr (ck, mk) \<and> length ck = 32"
  "\<exists>c. applyAgreementXOR toy k p q d m = Inr c" "\<exists>at. computeAuthenticationTag toy k p q d x y = Inr at"
proof -
  obtain s where s: "DH toy k q = Inr s" using DH_total_toy by blast
  have hk: "\<exists>okm. HKDF toy a b c n = Inr okm \<and> length okm = n" if "n \<le> 96" for a b c n
    using HKDF_Inr [of n] that by (simp add: hkdfMaxLength_def)
  show "\<exists>ch ck mk. deriveEphemeralKeys toy p k q d = Inr (ch, ck, mk) \<and> length ck = 32"
    using hk [of 96 s "case d of directionSending \<Rightarrow> sealedSenderSaltPrefix @ SerializeWirePublicKey q @ SerializeWirePublicKey p
      | directionReceiving \<Rightarrow> sealedSenderSaltPrefix @ SerializeWirePublicKey p @ SerializeWirePublicKey q" "[]"] s
    by (auto simp: deriveEphemeralKeys_def Let_def)
  show "\<exists>ck mk. deriveStaticKeys toy k q x y = Inr (ck, mk) \<and> length ck = 32"
    using hk [of 96 s "x @ y" "[]"] s by (auto simp: deriveStaticKeys_def)
  show "\<exists>c. applyAgreementXOR toy k p q d m = Inr c" "\<exists>at. computeAuthenticationTag toy k p q d x y = Inr at"
    using s by (simp_all add: applyAgreementXOR_def computeAuthenticationTag_def Let_def HKDF_def HKDFExpand_def hkdfMaxLength_def
        sealedSenderV2MessageKeyLen_def sealedSenderV2AuthTagLen_def)
qed

lemma toy_seals:
  assumes "us_sender u = Some c" "scb_identityKeyBytes c = SerializeWirePublicKey (ik_PublicKey (ikp_PublicKey ikS))"
  shows "\<exists>ct. EncryptV1 toy W (Inr r) pub (Some ikS) (Some u) = Inr ct" "\<exists>ct. EncryptV2Received toy (Inr r) pub (Some ikS) (Some u) = Inr ct"
proof -
  have enc: "\<exists>ct. AES256CTRHMACSHA256Encrypt toy p ck mk = Inr ct" if "length ck = 32" for p ck mk
    using that by (simp add: AES256CTRHMACSHA256Encrypt_def aes_key_ok_def Let_def)
  obtain e where e: "GenerateKeyPair toy (Inr r) = Inr e" using toy_GenerateKeyPair by blast
  obtain ch ck mk where d: "deriveEphemeralKeys toy (kp_PublicKey e) (kp_PrivateKey e) pub directionSending = Inr (ch, ck, mk)" "length ck = 32"
    using toy_derives(1) by blast
  obtain es where es: "AES256CTRHMACSHA256Encrypt toy (SerializeWirePublicKey (ik_PublicKey (ikp_PublicKey ikS))) ck mk = Inr es" using enc [OF d(2)] by blast
  obtain ck' mk' where d': "deriveStaticKeys toy (ikp_PrivateKey ikS) pub ch es = Inr (ck', mk')" "length ck' = 32" using toy_derives(2) by blast
  show "\<exists>ct. EncryptV1 toy W (Inr r) pub (Some ikS) (Some u) = Inr ct"
    using assms e d(1) es d'(1) enc [OF d'(2), of "us_serialized u" mk'] by (auto simp: EncryptV1_def compareIdentityKeyBytes_def)
  have hk: "\<exists>k. HKDF toy (arr 32 r) [] l 32 = Inr k \<and> length k = 32" for l by (rule HKDF_Inr) (simp add: hkdfMaxLength_def)
  obtain x k where k: "HKDF toy (arr 32 r) [] sealedSenderV2LabelR 32 = Inr x" "HKDF toy (arr 32 r) [] sealedSenderV2LabelK 32 = Inr k" "length k = 32"
    using hk by meson
  obtain e where e: "KeyPairFromPrivate toy x = Inr e" by (simp add: KeyPairFromPrivate_def toy_scalarBaseMult)
  obtain m where m: "applyAgreementXOR toy (kp_PrivateKey e) (kp_PublicKey e) pub directionSending (arr 32 r) = Inr m" using toy_derives(3) by blast
  show "\<exists>ct. EncryptV2Received toy (Inr r) pub (Some ikS) (Some u) = Inr ct"
    using assms k e m toy_derives(4) [of "ikp_PrivateKey ikS" "ik_PublicKey (ikp_PublicKey ikS)" pub directionSending "kp_PublicKey e" m]
    by (auto simp: EncryptV2Received_def compareIdentityKeyBytes_def RandomBytes_def sealedSenderV2MessageKeyLen_def AESGCMSIVEncrypt_def)
qed

lemma ex_certificates:
  obtains srv cert where "NewServerCertificate toy (Inr []) leb 9 (ik_PublicKey (ikp_PublicKey (ex_identity 4))) (replicate 32 5) = Inr srv"
    "NewSenderCertificate toy (Inr []) leb ex_params = Inr cert"
proof -
  obtain s where s: "XEdDSASign toy (Inr []) (replicate 32 5) [encodeServerCertificateBody leb 9 (ik_PublicKey (ikp_PublicKey (ex_identity 4)))] = Inr s"
    using toy_signs by blast
  obtain s' where s': "XEdDSASign toy (Inr []) (replicate 32 4) [encodeSenderCertificateBody leb (body_of ex_params)] = Inr s'" using toy_signs by blast
  have p: "scp_SignerPrivate ex_params = replicate 32 4" "IsValidPublicKey toy (scp_IdentityKey ex_params)" "scp_SenderUUID ex_params \<noteq> []"
    "scp_SenderUUIDBytes ex_params = []" "scp_Signer ex_params = None" "scp_SignerID ex_params = Some 9" "scp_ExpiresAt ex_params \<noteq> 0"
    using toy_valid by (simp_all add: ex_params_def ascii_def unixEpoch_def)
  show thesis
  proof (rule that)
    show "NewServerCertificate toy (Inr []) leb 9 (ik_PublicKey (ikp_PublicKey (ex_identity 4))) (replicate 32 5) = Inr (projr
        (NewServerCertificate toy (Inr []) leb 9 (ik_PublicKey (ikp_PublicKey (ex_identity 4))) (replicate 32 5)))"
      using toy_valid s by (simp add: NewServerCertificate_def ValidatePublicKey_def Let_def)
    show "NewSenderCertificate toy (Inr []) leb ex_params = Inr (projr (NewSenderCertificate toy (Inr []) leb ex_params))"
      using p s' by (simp add: NewSenderCertificate_def ValidatePublicKey_def Let_def)
  qed
qed

theorem sealed_sender_opens_witness:
  "\<exists>cert u c1 c2. NewUnidentifiedSenderMessageContent leb MessageTypeSignal (Some cert) [7, 8] 1 [] = Inr u \<and>
     EncryptV1 toy leb (Inr [1]) (ik_PublicKey (ikp_PublicKey (ex_identity 6))) (Some (ex_identity 3)) (Some u) = Inr c1 \<and>
     EncryptV2Received toy (Inr [2]) (ik_PublicKey (ikp_PublicKey (ex_identity 6))) (Some (ex_identity 3)) (Some u) = Inr c2 \<and>
     DecryptToUSMC toy leb c1 (Some (ex_identity 6)) = Inr u \<and> DecryptToUSMC toy leb c2 (Some (ex_identity 6)) = Inr u \<and> us_content u = [7, 8]"
proof (rule ex_certificates)
  fix cert
  assume c: "NewSenderCertificate toy (Inr []) leb ex_params = Inr cert"
  have i: "issued toy leb ex_params cert" using c by (auto simp: issued_def ex_params_def ex_identity_def)
  obtain u where u: "NewUnidentifiedSenderMessageContent leb MessageTypeSignal (Some cert) [7, 8] 1 [] = Inr u"
    by (simp add: NewUnidentifiedSenderMessageContent_def parseMessageType_def)
  have "scb_identityKeyBytes cert = SerializeWirePublicKey (ik_PublicKey (ikp_PublicKey (ex_identity 3)))" "us_sender u = Some cert"
    using c u by (auto elim!: NewSenderCertificate_Inr
        simp: senderCertificateBody.defs SenderCertificate.defs body_of_def ex_params_def NewUnidentifiedSenderMessageContent_def)
  note seals = toy_seals [OF this(2,1)]
  obtain c1 c2 where e: "EncryptV1 toy leb (Inr [1]) (ik_PublicKey (ikp_PublicKey (ex_identity 6))) (Some (ex_identity 3)) (Some u) = Inr c1"
    "EncryptV2Received toy (Inr [2]) (ik_PublicKey (ikp_PublicKey (ex_identity 6))) (Some (ex_identity 3)) (Some u) = Inr c2"
    using seals by meson
  note opens = sealed_sender_opens [OF toy_dh_comm toy_dh_valid toy_siv_ok toy_siv_tag leb_ok i u ex_identity_honest ex_identity_honest]
  from opens [OF disjI1, OF e(1)] opens [OF disjI2, OF e(2)] e u show ?thesis by blast
qed

theorem issued_certificate_validates_witness:
  "\<exists>srv cert. NewServerCertificate toy (Inr []) leb 9 (ik_PublicKey (ikp_PublicKey (ex_identity 4))) (replicate 32 5) = Inr srv \<and>
     NewSenderCertificate toy (Inr []) leb ex_params = Inr cert \<and>
     SenderCertificate_Validate toy [ik_PublicKey (ikp_PublicKey (ex_identity 5))] (unixEpoch + 5 * 10 ^ 9)
       (Some (LookupServerCertificate (fmap_of_list [(9, Some srv)]))) (Some cert) = Inr True \<and>
     SenderCertificate_Validate toy [ik_PublicKey (ikp_PublicKey (ex_identity 5))] (unixEpoch + 6 * 10 ^ 9)
       (Some (LookupServerCertificate (fmap_of_list [(9, Some srv)]))) (Some cert) = Inr False"
proof (rule ex_certificates)
  fix srv cert
  let ?root = "ik_PublicKey (ikp_PublicKey (ex_identity 5))"
  assume c: "NewServerCertificate toy (Inr []) leb 9 (ik_PublicKey (ikp_PublicKey (ex_identity 4))) (replicate 32 5) = Inr srv"
    "NewSenderCertificate toy (Inr []) leb ex_params = Inr cert"
  have k: "scalarBaseMult toy (replicate 32 5) = Inr ?root" "scalarBaseMult toy (replicate 32 4) = Inr (ik_PublicKey (ikp_PublicKey (ex_identity 4)))"
    using ex_identity_honest [of 5] ex_identity_honest [of 4] by (simp_all add: honest_identity_def ex_identity_def)
  note valid = issued_certificate_validates [OF toy_ed_ok leb_ok _ k(1) _ _ _ _ c, of "[?root]" 9
      "Some (LookupServerCertificate (fmap_of_list [(9, Some srv)]))" "LookupServerCertificate (fmap_of_list [(9, Some srv)])"]
  then have "SenderCertificate_Validate toy [?root] t (Some (LookupServerCertificate (fmap_of_list [(9, Some srv)]))) (Some cert) =
      Inr (sint (UnixMilli t) \<le> sint (UnixMilli (unixEpoch + 5 * 10 ^ 9)))" for t
    using k(2) by (simp add: ex_params_def ex_identity_def LookupServerCertificate_def revokedServerCertificateID_def)
  then show ?thesis using c by (auto simp: UnixMilli_def unixEpoch_def)
qed

end
