(* ===== verification/Spec2Isabelle.thy ===== *)
theory Spec2Isabelle
  imports Ratchet_Heap Ratchet_Init Ratchet_Serialize Keys_Serialize XEdDSA Sender_Keys_Group Session_Properties Sealed_Sender_Safety
begin

text \<open>
  Signal protocol library: verification development.
\<close>

end
